(* ===== verification/Prelude.thy ===== *)
theory Prelude
  imports Main
begin

text \<open>
  Shared vocabulary of the development: the ways a C++ operation of the repository can
  fail, the type of an operation that reads and writes a state and may fail, and the
  generic facts about lists used as fixed-size arrays and as stacks.

  A state is passed explicitly. An operation that throws keeps the state as it was when
  the exception left it (C++ does not roll back), so the result of a fallible operation
  is a pair of a sum and a state, never a sum of states.
\<close>

subsection \<open>Failures\<close>

text \<open>
  \<open>Runtime_error\<close>, \<open>Invalid_argument\<close> and \<open>Out_of_range\<close> are the exceptions
  of the standard library that the code throws or lets through. \<open>Assertion\<close> is a
  failed \<open>assert\<close>. \<open>Undefined\<close> stands for a step whose behaviour the C++
  standard leaves undefined (an array read out of range, signed overflow).
\<close>

datatype failure =
    Runtime_error string
  | Invalid_argument string
  | Out_of_range string
  | Assertion string
  | Undefined string

type_synonym 'a result = "failure + 'a"

type_synonym ('s, 'a) eff = "'s \<Rightarrow> 'a result \<times> 's"

definition ret :: "'a \<Rightarrow> ('s, 'a) eff" where
  "ret a s = (Inr a, s)"

definition raise :: "failure \<Rightarrow> ('s, 'a) eff" where
  "raise e s = (Inl e, s)"

definition modify :: "('s \<Rightarrow> 's) \<Rightarrow> ('s, unit) eff" where
  "modify f s = (Inr (), f s)"

definition and_then :: "('s, 'a) eff \<Rightarrow> ('a \<Rightarrow> ('s, 'b) eff) \<Rightarrow> ('s, 'b) eff" where
  "and_then m k s = (case m s of (Inl e, s') \<Rightarrow> (Inl e, s') | (Inr a, s') \<Rightarrow> k a s')"

definition check :: "bool \<Rightarrow> failure \<Rightarrow> ('s, unit) eff" where
  "check b e s = (if b then (Inr (), s) else (Inl e, s))"

named_theorems eff_defs

declare ret_def [eff_defs] raise_def [eff_defs] modify_def [eff_defs]
  check_def [eff_defs]

lemma and_then_ok [simp]: "m s = (Inr a, s') \<Longrightarrow> and_then m k s = k a s'"
  by (simp add: and_then_def)

lemma and_then_err [simp]: "m s = (Inl e, s') \<Longrightarrow> and_then m k s = (Inl e, s')"
  by (simp add: and_then_def)

lemma and_then_Inr_iff:
  "and_then m k s = (Inr b, t) \<longleftrightarrow> (\<exists>a u. m s = (Inr a, u) \<and> k a u = (Inr b, t))"
  by (auto simp: and_then_def split: prod.splits sum.splits)

lemma and_then_Inl_iff:
  "and_then m k s = (Inl e, t) \<longleftrightarrow>
     m s = (Inl e, t) \<or> (\<exists>a u. m s = (Inr a, u) \<and> k a u = (Inl e, t))"
  by (auto simp: and_then_def split: prod.splits sum.splits)

lemma check_simps [simp]:
  "check True e s = (Inr (), s)"
  "check False e s = (Inl e, s)"
  by (simp_all add: check_def)

subsection \<open>Arrays and stacks kept in arrays\<close>

text \<open>
  The code keeps a stack as an array and a fill count: the stack is the first
  \<open>n\<close> cells, its top is cell \<open>n - 1\<close>.
\<close>

lemma take_Suc_update: "n < length xs \<Longrightarrow> take (Suc n) (xs[n := v]) = take n xs @ [v]"
  by (simp add: take_Suc_conv_app_nth)

lemma take_pop: "0 < n \<Longrightarrow> n \<le> length xs \<Longrightarrow> take n xs = take (n - 1) xs @ [xs ! (n - 1)]"
  by (cases n) (simp_all add: take_Suc_conv_app_nth)

subsection \<open>Counting the keys of a map that have a given value\<close>

definition count_val :: "('k \<rightharpoonup> 'v) \<Rightarrow> 'v \<Rightarrow> nat" where
  "count_val m v = card {k. m k = Some v}"

lemma finite_count_val: "finite (dom m) \<Longrightarrow> finite {k. m k = Some v}"
  by (rule finite_subset [of _ "dom m"]) auto

lemma count_val_upd:
  assumes "finite (dom m)" and "m k = None"
  shows "count_val (m(k \<mapsto> v)) w = count_val m w + (if v = w then 1 else 0)"
proof -
  have "{j. (m(k \<mapsto> v)) j = Some w} = {j. m j = Some w} \<union> (if v = w then {k} else {})"
    using assms(2) by auto
  with assms show ?thesis
    by (auto simp: count_val_def finite_count_val)
qed

lemma count_val_del:
  assumes "finite (dom m)" and "m k = Some v"
  shows "count_val m w = count_val (m(k := None)) w + (if v = w then 1 else 0)"
proof -
  have "m = (m(k := None))(k \<mapsto> v)" using assms(2) by auto
  moreover have "finite (dom (m(k := None)))" using assms(1) by simp
  ultimately show ?thesis
    using count_val_upd [of "m(k := None)" k v w] by simp
qed

lemma count_val_pos: "finite (dom m) \<Longrightarrow> m k = Some v \<Longrightarrow> 0 < count_val m v"
  using finite_count_val [of m v] by (auto simp: count_val_def card_gt_0_iff)

lemma distinct_take_full:
  "distinct (take n xs) \<Longrightarrow> set (take n xs) \<subseteq> {..<m} \<Longrightarrow> n \<le> length xs \<Longrightarrow> n \<le> m"
  using card_mono [of "{..<m}" "set (take n xs)"]
  by (simp add: distinct_card)

end
