(* ===== verification/Publisher_Types.thy ===== *)
theory Publisher_Types
  imports Prelude
begin

text \<open>
  The enums and the token of \<^verbatim>\<open>modules/publisher/include/publisher/core\<close>:
  channel groups, channel modes, sink kinds, their names and the publish token.
  \<open>size_t\<close> and \<open>uint32_t\<close> values are natural numbers; the two sentinels
  \<open>static_cast<T>(-1)\<close> are written out as the largest value of their type.
\<close>

datatype ChannelGroup = Group0 | Group1 | Group2 | Group3 | Count

datatype ChannelMode = Exclusive | Shared

datatype SinkKind = Terminal | File | Socket

fun toIndex :: "ChannelGroup \<Rightarrow> nat" where
  "toIndex Group0 = 0"
| "toIndex Group1 = 1"
| "toIndex Group2 = 2"
| "toIndex Group3 = 3"
| "toIndex Count = 4"

fun toString_group :: "ChannelGroup \<Rightarrow> string" where
  "toString_group Group0 = ''Group0''"
| "toString_group Group1 = ''Group1''"
| "toString_group Group2 = ''Group2''"
| "toString_group Group3 = ''Group3''"
| "toString_group _ = ''UnknownGroup''"

fun toString_sink :: "SinkKind \<Rightarrow> string" where
  "toString_sink Terminal = ''Terminal''"
| "toString_sink File = ''File''"
| "toString_sink Socket = ''Socket''"

datatype PublishToken = PublishToken (token_value: nat)

definition kInvalidToken :: PublishToken where
  "kInvalidToken = PublishToken (2 ^ 32 - 1)"

lemma token_value_eq [simp]: "token_value s = token_value t \<longleftrightarrow> s = t"
  by (cases s; cases t) simp

lemma token_value_iff: "token_value t = n \<longleftrightarrow> t = PublishToken n"
  by (cases t) simp

lemma toIndex_inj: "toIndex g = toIndex h \<longleftrightarrow> g = h"
  by (cases g; cases h) simp_all

lemma toIndex_less: "g \<noteq> Count \<longleftrightarrow> toIndex g < toIndex Count"
  by (cases g) simp_all

lemma toIndex_less_4 [simp]: "toIndex g < 4 \<longleftrightarrow> g \<noteq> Count"
  by (cases g) simp_all

lemma ex_group_index: "i < 4 \<Longrightarrow> \<exists>g. g \<noteq> Count \<and> toIndex g = i"
proof -
  assume "i < 4"
  then consider "i = 0" | "i = 1" | "i = 2" | "i = 3" by linarith
  then show ?thesis
    by cases (auto intro: exI [of _ Group0] exI [of _ Group1] exI [of _ Group2] exI [of _ Group3])
qed

end
