(* ===== verification/Token_Registry.thy ===== *)
theory Token_Registry
  imports Publisher_Types
begin

text \<open>
  \<^verbatim>\<open>modules/publisher/include/publisher/runtime/token_registry.hpp\<close>: the registry
  that hands out publish tokens and binds each to one of four output channels. The
  record has the class's fields; \<open>std::array\<close> is a list of the array's length.
  \<open>channelRefCount\<close> is a \<open>size_t\<close> that only grows by one per call, so it is kept
  unbounded (\<open>registry_calls_safe\<close> shows that it cannot exceed the number of calls).
  An \<open>assert\<close> is a branch that ends in \<open>Assertion\<close>; the lemmas show that it is
  not reached.
\<close>

subsection \<open>State and constructor\<close>

definition kMaxBindings :: nat where "kMaxBindings = 256"
definition kMaxChannels :: nat where "kMaxChannels = 4"
definition kMaxGroups :: nat where "kMaxGroups = toIndex Count"
definition kNoChannel :: nat where "kNoChannel = 2 ^ 64 - 1"

lemmas registry_consts = kMaxBindings_def kMaxChannels_def kMaxGroups_def

record TokenRegistry =
  nextToken :: nat
  tokenToChannel :: "nat list"
  tokenUsed :: "bool list"
  freeTokens :: "PublishToken list"
  freeTokenCount :: nat
  freeChannels :: "nat list"
  freeChannelCount :: nat
  channelRefCount :: "nat list"
  channelMode :: "ChannelMode list"
  groupToChannel :: "nat list"

definition newRegistry :: TokenRegistry where
  "newRegistry =
     \<lparr> nextToken = 0,
       tokenToChannel = replicate kMaxBindings 0,
       tokenUsed = replicate kMaxBindings False,
       freeTokens = replicate kMaxBindings (PublishToken 0),
       freeTokenCount = 0,
       freeChannels = [0..<kMaxChannels],
       freeChannelCount = kMaxChannels,
       channelRefCount = replicate kMaxChannels 0,
       channelMode = replicate kMaxChannels Exclusive,
       groupToChannel = replicate kMaxGroups kNoChannel \<rparr>"

subsection \<open>Private operations\<close>

definition isValidToken :: "TokenRegistry \<Rightarrow> PublishToken \<Rightarrow> bool" where
  "isValidToken r t \<longleftrightarrow> token_value t < nextToken r"

definition popFreeChannel :: "(TokenRegistry, nat) eff" where
  "popFreeChannel r =
     (if freeChannelCount r = 0
      then (Inl (Runtime_error ''No free channels available''), r)
      else (let n = freeChannelCount r - 1
            in (Inr (freeChannels r ! n), r\<lparr>freeChannelCount := n\<rparr>)))"

definition pushFreeChannel :: "nat \<Rightarrow> (TokenRegistry, unit) eff" where
  "pushFreeChannel c r =
     (if \<not> freeChannelCount r < kMaxChannels
      then (Inl (Assertion ''Free channel stack overflow''), r)
      else (Inr (), r\<lparr>freeChannels := (freeChannels r)[freeChannelCount r := c],
                      freeChannelCount := freeChannelCount r + 1\<rparr>))"

definition bindToken :: "PublishToken \<Rightarrow> nat \<Rightarrow> TokenRegistry \<Rightarrow> TokenRegistry" where
  "bindToken t c r =
     r\<lparr>tokenToChannel := (tokenToChannel r)[token_value t := c],
       tokenUsed := (tokenUsed r)[token_value t := True]\<rparr>"

definition allocateToken :: "nat \<Rightarrow> (TokenRegistry, PublishToken) eff" where
  "allocateToken c r =
     (if freeTokenCount r > 0
      then (let n = freeTokenCount r - 1; t = freeTokens r ! n
            in (Inr t, bindToken t c (r\<lparr>freeTokenCount := n\<rparr>)))
      else if nextToken r \<ge> kMaxBindings
      then (Inl (Runtime_error ''TokenRegistry capacity exceeded''), r)
      else (let t = PublishToken (nextToken r)
            in (Inr t, bindToken t c (r\<lparr>nextToken := nextToken r + 1\<rparr>))))"

text \<open>The writes to a channel's reference count and mode, in the order of the code.\<close>

definition setChannel :: "nat \<Rightarrow> nat \<Rightarrow> ChannelMode \<Rightarrow> TokenRegistry \<Rightarrow> TokenRegistry" where
  "setChannel c n m r =
     r\<lparr>channelRefCount := (channelRefCount r)[c := n],
       channelMode := (channelMode r)[c := m]\<rparr>"

text \<open>The loop of \<open>release\<close> that resets the first group pointing to a channel.\<close>

function resetGroupFrom :: "nat \<Rightarrow> nat \<Rightarrow> nat list \<Rightarrow> nat list" where
  "resetGroupFrom g c gs =
     (if g < kMaxGroups
      then (if gs ! g = c then gs[g := kNoChannel] else resetGroupFrom (g + 1) c gs)
      else gs)"
  by pat_completeness auto
termination
  by (relation "measure (\<lambda>(g, c, gs). kMaxGroups - g)") auto

declare resetGroupFrom.simps [simp del]

subsection \<open>Public operations\<close>

definition acquire :: "(TokenRegistry, PublishToken) eff" where
  "acquire =
     and_then popFreeChannel (\<lambda>c.
     and_then (modify (setChannel c 1 Exclusive)) (\<lambda>_.
     allocateToken c))"

definition acquireGroup :: "ChannelGroup \<Rightarrow> (TokenRegistry, PublishToken) eff" where
  "acquireGroup grp r =
     (let g = toIndex grp in
      if \<not> g < kMaxGroups then (Inl (Assertion ''Invalid group index''), r)
      else let c = groupToChannel r ! g in
      if c \<noteq> kNoChannel \<and> channelRefCount r ! c > 0
      then allocateToken c (setChannel c (channelRefCount r ! c + 1) Shared r)
      else and_then popFreeChannel (\<lambda>c.
           and_then (modify (\<lambda>r. (setChannel c 1 Shared r)
                       \<lparr>groupToChannel := (groupToChannel r)[g := c]\<rparr>)) (\<lambda>_.
           allocateToken c)) r)"

definition release :: "PublishToken \<Rightarrow> (TokenRegistry, unit) eff" where
  "release t r =
     (if \<not> isValidToken r t
      then (Inl (Runtime_error ''Attempt to release invalid token''), r)
      else if \<not> tokenUsed r ! token_value t
      then (Inl (Runtime_error ''Attempt to release already free token''), r)
      else if freeTokenCount r \<ge> kMaxBindings
      then (Inl (Runtime_error ''Free token pool overflow''), r)
      else let c = tokenToChannel r ! token_value t in
      if \<not> channelRefCount r ! c > 0
      then (Inl (Assertion ''Channel ref count underflow''), r)
      else let n = channelRefCount r ! c - 1;
               r1 = r\<lparr>channelRefCount := (channelRefCount r)[c := n]\<rparr> in
      and_then
        (if n = 0
         then and_then (pushFreeChannel c)
                (\<lambda>_. modify (\<lambda>r. r\<lparr>groupToChannel := resetGroupFrom 0 c (groupToChannel r)\<rparr>))
         else ret ())
        (\<lambda>_. modify (\<lambda>r. r\<lparr>tokenUsed := (tokenUsed r)[token_value t := False],
                            freeTokens := (freeTokens r)[freeTokenCount r := t],
                            freeTokenCount := freeTokenCount r + 1\<rparr>))
        r1)"

definition resolve :: "TokenRegistry \<Rightarrow> PublishToken \<Rightarrow> nat result" where
  "resolve r t =
     (if \<not> isValidToken r t then Inl (Assertion ''Invalid publish token'')
      else if \<not> tokenUsed r ! token_value t then Inl (Assertion ''Inactive publish token'')
      else Inr (tokenToChannel r ! token_value t))"

subsection \<open>Diagnostics\<close>

definition channelRefCountOf :: "TokenRegistry \<Rightarrow> nat \<Rightarrow> nat result" where
  "channelRefCountOf r c =
     (if \<not> c < kMaxChannels then Inl (Assertion ''channelIdx < kMaxChannels'')
      else Inr (channelRefCount r ! c))"

definition channelModeOf :: "TokenRegistry \<Rightarrow> nat \<Rightarrow> ChannelMode result" where
  "channelModeOf r c =
     (if \<not> c < kMaxChannels then Inl (Assertion ''channelIdx < kMaxChannels'')
      else Inr (channelMode r ! c))"

definition groupChannel :: "TokenRegistry \<Rightarrow> ChannelGroup \<Rightarrow> nat result" where
  "groupChannel r grp =
     (if toIndex grp < kMaxGroups then Inr (groupToChannel r ! toIndex grp)
      else Inl (Undefined ''groupToChannel_ read out of range''))"

end
