(* ===== verification/Registry_Laws.thy ===== *)
theory Registry_Laws
  imports Token_Registry
begin

text \<open>
  What the token registry promises. \<open>live\<close> is its abstract state: the map from the
  tokens that are handed out to their channels. \<open>reg_inv\<close> is the invariant that every
  public operation keeps, on its error exits too; \<open>reg_exact\<close> adds that a channel's
  reference count is the number of its live tokens, which an \<open>acquire\<close> that throws for
  lack of token slots breaks.
\<close>

subsection \<open>Abstraction and invariant\<close>

definition live :: "TokenRegistry \<Rightarrow> PublishToken \<rightharpoonup> nat" where
  "live r t = (if token_value t < nextToken r \<and> tokenUsed r ! token_value t
               then Some (tokenToChannel r ! token_value t) else None)"

definition users :: "TokenRegistry \<Rightarrow> nat \<Rightarrow> nat" where
  "users r c = count_val (live r) c"

definition tokenStack :: "TokenRegistry \<Rightarrow> PublishToken list" where
  "tokenStack r = take (freeTokenCount r) (freeTokens r)"

definition channelStack :: "TokenRegistry \<Rightarrow> nat list" where
  "channelStack r = take (freeChannelCount r) (freeChannels r)"

definition shape_ok :: "TokenRegistry \<Rightarrow> bool" where
  "shape_ok r \<longleftrightarrow>
     length (tokenToChannel r) = 256 \<and> length (tokenUsed r) = 256 \<and>
     length (freeTokens r) = 256 \<and> length (freeChannels r) = 4 \<and>
     length (channelRefCount r) = 4 \<and> length (channelMode r) = 4 \<and>
     length (groupToChannel r) = 4 \<and>
     nextToken r \<le> 256 \<and> freeTokenCount r \<le> 256 \<and> freeChannelCount r \<le> 4"

definition tokens_ok :: "TokenRegistry \<Rightarrow> bool" where
  "tokens_ok r \<longleftrightarrow>
     distinct (tokenStack r) \<and>
     set (tokenStack r) = {t. token_value t < nextToken r \<and> live r t = None}"

definition channels_ok :: "TokenRegistry \<Rightarrow> bool" where
  "channels_ok r \<longleftrightarrow>
     distinct (channelStack r) \<and>
     set (channelStack r) = {c. c < 4 \<and> channelRefCount r ! c = 0} \<and>
     ran (live r) \<subseteq> {..<4} \<and>
     (\<forall>c<4. channelMode r ! c = Exclusive \<longrightarrow> channelRefCount r ! c \<le> 1)"

definition groups_ok :: "TokenRegistry \<Rightarrow> bool" where
  "groups_ok r \<longleftrightarrow>
     (\<forall>g<4. groupToChannel r ! g \<noteq> kNoChannel \<longrightarrow>
        groupToChannel r ! g < 4 \<and>
        channelRefCount r ! (groupToChannel r ! g) > 0 \<and>
        channelMode r ! (groupToChannel r ! g) = Shared) \<and>
     (\<forall>g<4. \<forall>h<4. groupToChannel r ! g = groupToChannel r ! h \<longrightarrow>
        groupToChannel r ! g \<noteq> kNoChannel \<longrightarrow> g = h) \<and>
     (\<forall>c<4. channelRefCount r ! c > 0 \<longrightarrow> channelMode r ! c = Shared \<longrightarrow>
        (\<exists>g<4. groupToChannel r ! g = c))"

definition counts_ok :: "TokenRegistry \<Rightarrow> bool" where
  "counts_ok r \<longleftrightarrow> (\<forall>c<4. users r c \<le> channelRefCount r ! c)"

definition reg_inv :: "TokenRegistry \<Rightarrow> bool" where
  "reg_inv r \<longleftrightarrow> shape_ok r \<and> tokens_ok r \<and> channels_ok r \<and> groups_ok r \<and> counts_ok r"

definition reg_exact :: "TokenRegistry \<Rightarrow> bool" where
  "reg_exact r \<longleftrightarrow> reg_inv r \<and> (\<forall>c<4. users r c = channelRefCount r ! c)"

lemmas reg_parts = shape_ok_def tokens_ok_def channels_ok_def groups_ok_def counts_ok_def

lemma finite_live: "finite (dom (live r))"
proof -
  have "dom (live r) \<subseteq> PublishToken ` {..<nextToken r}"
  proof
    fix t assume "t \<in> dom (live r)"
    then have "token_value t < nextToken r" by (auto simp: live_def split: if_splits)
    then show "t \<in> PublishToken ` {..<nextToken r}" by (cases t) auto
  qed
  then show ?thesis by (rule finite_subset) simp
qed

lemma live_bound: "reg_inv r \<Longrightarrow> live r t = Some c \<Longrightarrow> token_value t < 256 \<and> c < 4"
  by (auto simp: reg_inv_def reg_parts live_def ran_def split: if_splits)

lemma live_ref_pos: "reg_inv r \<Longrightarrow> live r t = Some c \<Longrightarrow> channelRefCount r ! c > 0"
  using count_val_pos [OF finite_live, of r t c] live_bound [of r t c]
  by (force simp: reg_inv_def counts_ok_def users_def)

subsection \<open>The constructor\<close>

lemma live_new: "live newRegistry = Map.empty"
  by (auto simp: live_def newRegistry_def)

lemma new_inv: "reg_inv newRegistry"
proof -
  have "shape_ok newRegistry"
    by (simp add: shape_ok_def newRegistry_def) (simp add: registry_consts)
  moreover have "tokens_ok newRegistry"
    by (simp add: tokens_ok_def newRegistry_def tokenStack_def)
  moreover have "channels_ok newRegistry"
    unfolding channels_ok_def live_new
    by (auto simp: newRegistry_def channelStack_def kMaxChannels_def)
  moreover have "groups_ok newRegistry"
    by (simp add: groups_ok_def newRegistry_def) (simp add: registry_consts)
  moreover have "counts_ok newRegistry"
    by (simp add: counts_ok_def users_def live_new count_val_def)
  ultimately show ?thesis by (simp add: reg_inv_def)
qed

lemma new_exact: "reg_exact newRegistry"
  by (simp add: reg_exact_def new_inv users_def live_new count_val_def)
     (simp add: newRegistry_def kMaxChannels_def)

subsection \<open>Steps of the operations\<close>

text \<open>
  Each public operation is a few of these steps, and each step keeps \<open>reg_inv\<close>: taking a
  channel off the free stack together with the first writes to its reference count, joining
  a group's channel, and binding a token to a channel that has room for one more user.
\<close>

lemma live_frame:
  "tokenToChannel r' = tokenToChannel r \<Longrightarrow> tokenUsed r' = tokenUsed r \<Longrightarrow>
   nextToken r' = nextToken r \<Longrightarrow> live r' = live r"
  by (auto simp: live_def)

lemma pop_err: "popFreeChannel r = (Inl e, r') \<Longrightarrow>
    r' = r \<and> freeChannelCount r = 0 \<and> e = Runtime_error ''No free channels available''"
  by (auto simp: popFreeChannel_def Let_def split: if_splits)

lemma pop_ok:
  assumes "reg_inv r" and "popFreeChannel r = (Inr c, r')"
  shows "c < 4" and "channelRefCount r ! c = 0"
    and "channelStack r = channelStack r' @ [c]" and "c \<notin> set (channelStack r')"
    and "r' = r\<lparr>freeChannelCount := freeChannelCount r - 1\<rparr>" and "0 < freeChannelCount r"
proof -
  from assms(2) have n: "0 < freeChannelCount r" and c: "c = freeChannels r ! (freeChannelCount r - 1)"
    and r': "r' = r\<lparr>freeChannelCount := freeChannelCount r - 1\<rparr>"
    by (auto simp: popFreeChannel_def Let_def split: if_splits)
  from assms(1) have len: "freeChannelCount r \<le> length (freeChannels r)"
    by (simp add: reg_inv_def shape_ok_def)
  show st: "channelStack r = channelStack r' @ [c]"
    using take_pop [OF n len] by (simp add: channelStack_def r' c)
  have d: "distinct (channelStack r)"
    and s: "set (channelStack r) = {c. c < 4 \<and> channelRefCount r ! c = 0}"
    using assms(1) by (simp_all add: reg_inv_def channels_ok_def)
  show "c \<notin> set (channelStack r')" using d st by simp
  have "c \<in> set (channelStack r)" using st by simp
  then show "c < 4" and "channelRefCount r ! c = 0" using s by simp_all
  show "r' = r\<lparr>freeChannelCount := freeChannelCount r - 1\<rparr>" by (rule r')
  show "0 < freeChannelCount r" by (rule n)
qed

lemma users_zero: "reg_inv r \<Longrightarrow> c < 4 \<Longrightarrow> channelRefCount r ! c = 0 \<Longrightarrow> users r c = 0"
  by (fastforce simp: reg_inv_def counts_ok_def)

lemma dead_channel_no_group:
  "reg_inv r \<Longrightarrow> channelRefCount r ! c = 0 \<Longrightarrow> c < 4 \<Longrightarrow> g < 4 \<Longrightarrow> groupToChannel r ! g \<noteq> c"
  by (force simp: reg_inv_def groups_ok_def kNoChannel_def)

lemma groups_distinct:
  "reg_inv r \<Longrightarrow> i < 4 \<Longrightarrow> j < 4 \<Longrightarrow> groupToChannel r ! i = groupToChannel r ! j \<Longrightarrow>
   groupToChannel r ! i \<noteq> kNoChannel \<Longrightarrow> i = j"
  by (simp add: reg_inv_def groups_ok_def)

lemma group_unset:
  assumes "reg_inv r" and "g < 4"
    and "\<not> (groupToChannel r ! g \<noteq> kNoChannel \<and> channelRefCount r ! (groupToChannel r ! g) > 0)"
  shows "groupToChannel r ! g = kNoChannel"
  using assms by (auto simp: reg_inv_def groups_ok_def)

text \<open>A channel taken off the free stack for an exclusive user.\<close>

lemma claim_exclusive:
  assumes inv: "reg_inv r" and pop: "popFreeChannel r = (Inr c, r')"
  defines "r2 \<equiv> setChannel c 1 Exclusive r'"
  shows "reg_inv r2" and "live r2 = live r" and "channelRefCount r2 ! c = 1"
proof -
  note p = pop_ok [OF inv pop]
  from inv have sh: "shape_ok r" and ch: "channels_ok r" and gr: "groups_ok r"
    and tk: "tokens_ok r" and ct: "counts_ok r" by (simp_all add: reg_inv_def)
  have len: "length (channelRefCount r) = 4" "length (channelMode r) = 4"
    using sh by (simp_all add: shape_ok_def)
  show lv: "live r2 = live r"
    by (rule live_frame) (simp_all add: r2_def p setChannel_def)
  show one: "channelRefCount r2 ! c = 1"
    using p(1) len by (simp add: r2_def p(5) setChannel_def)
  have cs: "channelStack r2 = channelStack r'"
    by (simp add: r2_def setChannel_def channelStack_def)
  have "shape_ok r2" using sh by (auto simp: shape_ok_def r2_def p(5) setChannel_def)
  moreover have "tokens_ok r2"
    using tk lv by (simp add: tokens_ok_def tokenStack_def r2_def p(5) setChannel_def)
  moreover have "channels_ok r2"
    using ch p(1,3,4) len
    unfolding channels_ok_def lv cs
    by (auto simp: r2_def p(5) setChannel_def nth_list_update)
  moreover have "groups_ok r2"
    using gr p(1) len dead_channel_no_group [OF inv p(2,1)]
    by (auto simp: groups_ok_def r2_def p(5) setChannel_def nth_list_update)
  moreover have "counts_ok r2"
    using ct p(1) users_zero [OF inv p(1,2)] len
    unfolding counts_ok_def users_def lv
    by (auto simp: r2_def p(5) setChannel_def nth_list_update)
  ultimately show "reg_inv r2" by (simp add: reg_inv_def)
qed

text \<open>A channel taken off the free stack for a group that has none.\<close>

lemma claim_shared:
  assumes inv: "reg_inv r" and pop: "popFreeChannel r = (Inr c, r')"
    and g: "g < 4" and none: "groupToChannel r ! g = kNoChannel"
  defines "r2 \<equiv> (setChannel c 1 Shared r')\<lparr>groupToChannel := (groupToChannel r')[g := c]\<rparr>"
  shows "reg_inv r2" and "live r2 = live r" and "channelRefCount r2 ! c = 1"
proof -
  note p = pop_ok [OF inv pop]
  from inv have sh: "shape_ok r" and ch: "channels_ok r" and gr: "groups_ok r"
    and tk: "tokens_ok r" and ct: "counts_ok r" by (simp_all add: reg_inv_def)
  have len: "length (channelRefCount r) = 4" "length (channelMode r) = 4"
    "length (groupToChannel r) = 4"
    using sh by (simp_all add: shape_ok_def)
  show lv: "live r2 = live r"
    by (rule live_frame) (simp_all add: r2_def p setChannel_def)
  show one: "channelRefCount r2 ! c = 1"
    using p(1) len by (simp add: r2_def p(5) setChannel_def)
  have cs: "channelStack r2 = channelStack r'"
    by (simp add: r2_def setChannel_def channelStack_def)
  have ref2: "channelRefCount r2 = (channelRefCount r)[c := 1]"
    and mode2: "channelMode r2 = (channelMode r)[c := Shared]"
    and grp2: "groupToChannel r2 = (groupToChannel r)[g := c]"
    by (simp_all add: r2_def p(5) setChannel_def)
  have cn: "c \<noteq> kNoChannel" using p(1) by (simp add: kNoChannel_def)
  have "shape_ok r2" using sh by (auto simp: shape_ok_def r2_def p(5) setChannel_def)
  moreover have "tokens_ok r2"
    using tk lv by (simp add: tokens_ok_def tokenStack_def r2_def p(5) setChannel_def)
  moreover have "channels_ok r2"
    using ch p(1,3,4) len
    unfolding channels_ok_def lv cs ref2 mode2
    by (auto simp: nth_list_update)
  moreover have "groups_ok r2"
    unfolding groups_ok_def ref2 mode2 grp2
  proof (intro conjI allI impI)
    fix i assume "i < 4" and "(groupToChannel r)[g := c] ! i \<noteq> kNoChannel"
    then show "(groupToChannel r)[g := c] ! i < 4"
      and "(channelRefCount r)[c := 1] ! ((groupToChannel r)[g := c] ! i) > 0"
      and "(channelMode r)[c := Shared] ! ((groupToChannel r)[g := c] ! i) = Shared"
      using gr p(1) len g by (auto simp: groups_ok_def nth_list_update)
  next
    fix i j assume "i < 4" "j < 4" "(groupToChannel r)[g := c] ! i = (groupToChannel r)[g := c] ! j"
      and "(groupToChannel r)[g := c] ! i \<noteq> kNoChannel"
    then show "i = j"
      using groups_distinct [OF inv, of i j] len g
        dead_channel_no_group [OF inv p(2,1), of i] dead_channel_no_group [OF inv p(2,1), of j]
      by (cases "i = g"; cases "j = g") auto
  next
    fix d assume d: "d < 4" "0 < (channelRefCount r)[c := 1] ! d" "(channelMode r)[c := Shared] ! d = Shared"
    show "\<exists>i<4. (groupToChannel r)[g := c] ! i = d"
    proof (cases "d = c")
      case True
      then show ?thesis using g len by (intro exI [of _ g]) simp
    next
      case False
      then obtain i where i: "i < 4" "groupToChannel r ! i = d"
        using d gr len by (auto simp: groups_ok_def)
      then have "i \<noteq> g" using none d(1) by (auto simp: kNoChannel_def)
      then show ?thesis using i by (intro exI [of _ i]) simp
    qed
  qed
  moreover have "counts_ok r2"
    using ct p(1) users_zero [OF inv p(1,2)] len
    by (auto simp: counts_ok_def users_def lv ref2 nth_list_update)
  ultimately show "reg_inv r2" by (simp add: reg_inv_def)
qed

text \<open>Joining the channel of a group.\<close>

lemma join_shared:
  assumes inv: "reg_inv r" and g: "g < 4" and c: "c = groupToChannel r ! g" and cn: "c \<noteq> kNoChannel"
  defines "r2 \<equiv> setChannel c (channelRefCount r ! c + 1) Shared r"
  shows "reg_inv r2" and "live r2 = live r" and "c < 4"
    and "channelRefCount r2 ! c = channelRefCount r ! c + 1"
proof -
  from inv have sh: "shape_ok r" and ch: "channels_ok r" and gr: "groups_ok r"
    and tk: "tokens_ok r" and ct: "counts_ok r" by (simp_all add: reg_inv_def)
  have len: "length (channelRefCount r) = 4" "length (channelMode r) = 4"
    using sh by (simp_all add: shape_ok_def)
  have c4: "c < 4" and pos: "channelRefCount r ! c > 0" and md: "channelMode r ! c = Shared"
    using gr g cn unfolding c by (auto simp: groups_ok_def)
  show "c < 4" by (rule c4)
  show lv: "live r2 = live r"
    by (rule live_frame) (simp_all add: r2_def setChannel_def)
  show "channelRefCount r2 ! c = channelRefCount r ! c + 1"
    using c4 len by (simp add: r2_def setChannel_def)
  have mode2: "channelMode r2 = channelMode r"
    using md c4 len by (simp add: r2_def setChannel_def) (metis list_update_id)
  have ref2: "channelRefCount r2 = (channelRefCount r)[c := channelRefCount r ! c + 1]"
    by (simp add: r2_def setChannel_def)
  have pos2: "channelRefCount r2 ! d = 0 \<longleftrightarrow> channelRefCount r ! d = 0" if "d < 4" for d
    using pos that c4 len by (auto simp: ref2 nth_list_update)
  have "shape_ok r2" using sh by (simp add: shape_ok_def r2_def setChannel_def)
  moreover have "tokens_ok r2"
    using tk lv by (simp add: tokens_ok_def tokenStack_def r2_def setChannel_def)
  moreover have "channels_ok r2"
  proof -
    have "channelStack r2 = channelStack r" by (simp add: r2_def setChannel_def channelStack_def)
    moreover have "{d. d < 4 \<and> channelRefCount r2 ! d = 0} = {d. d < 4 \<and> channelRefCount r ! d = 0}"
      using pos2 by auto
    ultimately show ?thesis
      using ch md len c4 unfolding channels_ok_def lv mode2 by (auto simp: ref2 nth_list_update)
  qed
  moreover have "groups_ok r2"
    using gr pos2 unfolding groups_ok_def mode2
    by (simp add: r2_def setChannel_def) (metis gr_zeroI)
  moreover have "counts_ok r2"
    using ct c4 by (auto simp: counts_ok_def users_def lv ref2 len nth_list_update le_SucI)
  ultimately show "reg_inv r2" by (simp add: reg_inv_def)
qed

text \<open>Binding a token to a channel.\<close>

lemma allocate_err:
  "allocateToken c r = (Inl e, r') \<Longrightarrow>
   r' = r \<and> freeTokenCount r = 0 \<and> nextToken r \<ge> 256 \<and>
   e = Runtime_error ''TokenRegistry capacity exceeded''"
  by (auto simp: allocateToken_def Let_def kMaxBindings_def split: if_splits)

text \<open>The token chosen, and the two fields of the token pool after the choice.\<close>

lemma allocate_cases:
  assumes "reg_inv r" and "allocateToken c r = (Inr t, r')"
  obtains
    (reuse) "0 < freeTokenCount r" "tokenStack r = take (freeTokenCount r - 1) (freeTokens r) @ [t]"
      "token_value t < nextToken r"
      "r' = bindToken t c (r\<lparr>freeTokenCount := freeTokenCount r - 1\<rparr>)"
  | (fresh) "freeTokenCount r = 0" "t = PublishToken (nextToken r)" "nextToken r < 256"
      "r' = bindToken t c (r\<lparr>nextToken := nextToken r + 1\<rparr>)"
proof (cases "0 < freeTokenCount r")
  case True
  have len: "freeTokenCount r \<le> length (freeTokens r)"
    using assms(1) by (simp add: reg_inv_def shape_ok_def)
  from True assms(2) have t: "t = freeTokens r ! (freeTokenCount r - 1)"
    and r': "r' = bindToken t c (r\<lparr>freeTokenCount := freeTokenCount r - 1\<rparr>)"
    by (auto simp: allocateToken_def Let_def)
  have st: "tokenStack r = take (freeTokenCount r - 1) (freeTokens r) @ [t]"
    using take_pop [OF True len] by (simp add: tokenStack_def t)
  then have "t \<in> set (tokenStack r)" by simp
  then have "token_value t < nextToken r" using assms(1) by (simp add: reg_inv_def tokens_ok_def)
  with True st r' show ?thesis by (intro reuse) simp_all
next
  case False
  with assms(2) show ?thesis
    by (intro fresh) (auto simp: allocateToken_def Let_def kMaxBindings_def split: if_splits)
qed

lemma allocate_live:
  assumes inv: "reg_inv r" and al: "allocateToken c r = (Inr t, r')"
  shows "live r t = None" and "live r' = (live r)(t \<mapsto> c)" and "token_value t < nextToken r'"
    and "nextToken r' \<le> 256"
proof -
  from inv have sh: "shape_ok r" and tk: "tokens_ok r" by (simp_all add: reg_inv_def)
  have "live r t = None \<and> live r' = (live r)(t \<mapsto> c) \<and> token_value t < nextToken r' \<and> nextToken r' \<le> 256"
    using inv al
  proof (cases rule: allocate_cases)
    case reuse
    have "t \<in> set (tokenStack r)" using reuse(2) by simp
    then have "live r t = None" using tk by (simp add: tokens_ok_def)
    moreover have "live r' = (live r)(t \<mapsto> c)"
      using sh reuse(3)
      by (auto simp: fun_eq_iff live_def reuse(4) bindToken_def shape_ok_def
          nth_list_update)
    moreover have "nextToken r' = nextToken r" by (simp add: reuse(4) bindToken_def)
    ultimately show ?thesis using reuse(3) sh by (simp add: shape_ok_def)
  next
    case fresh
    have "live r t = None" by (simp add: live_def fresh(2))
    moreover have "live r' = (live r)(t \<mapsto> c)"
      using sh fresh(3)
      by (auto simp: fun_eq_iff live_def fresh(2,4) bindToken_def shape_ok_def nth_list_update
          less_Suc_eq)
    ultimately show ?thesis using fresh by (simp add: bindToken_def)
  qed
  then show "live r t = None" "live r' = (live r)(t \<mapsto> c)" "token_value t < nextToken r'"
    "nextToken r' \<le> 256" by blast+
qed

lemma allocate_channels:
  "allocateToken c r = (Inr t, r') \<Longrightarrow>
   channelRefCount r' = channelRefCount r \<and> channelMode r' = channelMode r \<and>
   groupToChannel r' = groupToChannel r \<and> freeChannels r' = freeChannels r \<and>
   freeChannelCount r' = freeChannelCount r"
  by (auto simp: allocateToken_def bindToken_def Let_def split: if_splits)

lemma allocate_inv:
  assumes inv: "reg_inv r" and al: "allocateToken c r = (Inr t, r')"
    and c: "c < 4" "users r c < channelRefCount r ! c"
  shows "reg_inv r'"
proof -
  from inv have sh: "shape_ok r" and tk: "tokens_ok r" and ch: "channels_ok r"
    and gr: "groups_ok r" and ct: "counts_ok r" by (simp_all add: reg_inv_def)
  note lv = allocate_live [OF inv al]
  note fr = allocate_channels [OF al]
  have "shape_ok r'" using inv al
    by (cases rule: allocate_cases) (use sh in \<open>auto simp: shape_ok_def bindToken_def\<close>)
  moreover have "tokens_ok r'" using inv al
  proof (cases rule: allocate_cases)
    case reuse
    have "tokenStack r' = take (freeTokenCount r - 1) (freeTokens r)"
      by (simp add: reuse(4) bindToken_def tokenStack_def)
    moreover have "nextToken r' = nextToken r" by (simp add: reuse(4) bindToken_def)
    ultimately show ?thesis
      using tk reuse(2,3) unfolding tokens_ok_def lv(2) by auto
  next
    case fresh
    have "tokenStack r' = []" "tokenStack r = []"
      using fresh(1) by (simp_all add: fresh(4) bindToken_def tokenStack_def)
    then show ?thesis
      using tk unfolding tokens_ok_def lv(2)
      by (auto simp: fresh(2,4) bindToken_def less_Suc_eq token_value_iff)
  qed
  moreover have "channels_ok r'"
    using ch c(1) fr lv(1) unfolding channels_ok_def lv(2) channelStack_def
    by (auto simp: ran_def split: if_splits)
  moreover have "groups_ok r'" using gr fr by (simp add: groups_ok_def)
  moreover have "counts_ok r'"
    using ct c fr by (auto simp: counts_ok_def users_def lv(2) count_val_upd [OF finite_live lv(1)])
  ultimately show ?thesis by (simp add: reg_inv_def)
qed

subsection \<open>Releasing a token\<close>

lemma resetGroup_miss:
  "(\<forall>j. g \<le> j \<and> j < 4 \<longrightarrow> gs ! j \<noteq> c) \<Longrightarrow> resetGroupFrom g c gs = gs"
  by (induction g c gs rule: resetGroupFrom.induct)
     (subst resetGroupFrom.simps, auto simp: kMaxGroups_def)

lemma resetGroup_hit:
  "i < 4 \<Longrightarrow> g \<le> i \<Longrightarrow> gs ! i = c \<Longrightarrow> (\<forall>j. g \<le> j \<and> j < i \<longrightarrow> gs ! j \<noteq> c) \<Longrightarrow>
   resetGroupFrom g c gs = gs[i := kNoChannel]"
proof (induction g c gs rule: resetGroupFrom.induct)
  case (1 g c gs)
  show ?case
  proof (cases "gs ! g = c")
    case True
    then have "g = i" using "1.prems" by (metis le_neq_implies_less order_refl)
    then show ?thesis using True "1.prems" by (subst resetGroupFrom.simps) (simp add: kMaxGroups_def)
  next
    case False
    then have "Suc g \<le> i" using "1.prems" by (metis Suc_leI le_neq_implies_less)
    then show ?thesis
      using False "1.prems" "1.IH" by (subst resetGroupFrom.simps) (simp add: kMaxGroups_def)
  qed
qed

lemma resetGroup_length [simp]: "length (resetGroupFrom g c gs) = length gs"
  by (induction g c gs rule: resetGroupFrom.induct) (subst resetGroupFrom.simps, simp)

lemma resetGroup_nth:
  assumes inv: "reg_inv r" and c: "c < 4" and j: "j < 4"
  shows "resetGroupFrom 0 c (groupToChannel r) ! j =
    (if groupToChannel r ! j = c then kNoChannel else groupToChannel r ! j)"
proof (cases "\<exists>i<4. groupToChannel r ! i = c")
  case True
  then obtain i where i: "i < 4" "groupToChannel r ! i = c" by blast
  have cn: "c \<noteq> kNoChannel" using c by (simp add: kNoChannel_def)
  have uniq: "k = i" if "k < 4" "groupToChannel r ! k = c" for k
    using groups_distinct [OF inv that(1) i(1)] that i cn by simp
  have "resetGroupFrom 0 c (groupToChannel r) = (groupToChannel r)[i := kNoChannel]"
  proof (rule resetGroup_hit)
    show "\<forall>k. 0 \<le> k \<and> k < i \<longrightarrow> groupToChannel r ! k \<noteq> c"
      using uniq i(1) by (metis less_trans less_irrefl)
  qed (use i in auto)
  moreover have "length (groupToChannel r) = 4" using inv by (simp add: reg_inv_def shape_ok_def)
  ultimately show ?thesis using uniq [OF j] i j by (auto simp: nth_list_update)
next
  case False
  then show ?thesis using j by (simp add: resetGroup_miss)
qed

lemma free_tokens_room:
  assumes inv: "reg_inv r" and t: "live r t = Some c"
  shows "freeTokenCount r < 256"
proof -
  let ?S = "set (tokenStack r)"
  have tv: "token_value t < nextToken r" using t by (simp add: live_def split: if_splits)
  have "t \<notin> ?S" using inv t by (simp add: reg_inv_def tokens_ok_def)
  then have "token_value t \<notin> token_value ` ?S" by (auto simp:)
  moreover have "token_value ` ?S \<subseteq> {..<nextToken r}"
    using inv by (auto simp: reg_inv_def tokens_ok_def)
  ultimately have "token_value ` ?S \<subset> {..<nextToken r}" using tv by auto
  then have "card (token_value ` ?S) < nextToken r"
    using psubset_card_mono [of "{..<nextToken r}"] by simp
  moreover have "card (token_value ` ?S) = length (tokenStack r)"
    using inv distinct_card [of "tokenStack r"]
    by (simp add: card_image inj_on_def reg_inv_def tokens_ok_def)
  moreover have "length (tokenStack r) = freeTokenCount r" "nextToken r \<le> 256"
    using inv by (simp_all add: tokenStack_def reg_inv_def shape_ok_def)
  ultimately show ?thesis by simp
qed

lemma free_channels_room:
  assumes inv: "reg_inv r" and c: "c < 4" "channelRefCount r ! c > 0"
  shows "freeChannelCount r < 4"
proof -
  have "set (channelStack r) \<subseteq> {..<4} - {c}" using inv c by (auto simp: reg_inv_def channels_ok_def)
  then have "card (set (channelStack r)) \<le> card ({..<4} - {c})" by (intro card_mono) auto
  also have "\<dots> = 3" using c by simp
  finally have "length (channelStack r) \<le> 3"
    using inv distinct_card [of "channelStack r"] by (simp add: reg_inv_def channels_ok_def)
  moreover have "length (channelStack r) = freeChannelCount r"
    using inv by (simp add: channelStack_def reg_inv_def shape_ok_def)
  ultimately show ?thesis by simp
qed

definition dropToken :: "PublishToken \<Rightarrow> TokenRegistry \<Rightarrow> TokenRegistry" where
  "dropToken t r =
     (let c = tokenToChannel r ! token_value t; n = channelRefCount r ! c - 1 in
      r\<lparr>channelRefCount := (channelRefCount r)[c := n],
        freeChannels := (if n = 0 then (freeChannels r)[freeChannelCount r := c] else freeChannels r),
        freeChannelCount := (if n = 0 then freeChannelCount r + 1 else freeChannelCount r),
        groupToChannel := (if n = 0 then resetGroupFrom 0 c (groupToChannel r) else groupToChannel r),
        tokenUsed := (tokenUsed r)[token_value t := False],
        freeTokens := (freeTokens r)[freeTokenCount r := t],
        freeTokenCount := freeTokenCount r + 1\<rparr>)"

lemma release_live:
  assumes inv: "reg_inv r" and t: "live r t = Some c"
  shows "release t r = (Inr (), dropToken t r)"
proof -
  have tv: "token_value t < nextToken r" "tokenUsed r ! token_value t"
    "tokenToChannel r ! token_value t = c"
    using t by (auto simp: live_def split: if_splits)
  have c: "c < 4" "channelRefCount r ! c > 0"
    using live_bound [OF inv t] live_ref_pos [OF inv t] by simp_all
  show ?thesis
    using tv c free_tokens_room [OF inv t] free_channels_room [OF inv c]
    by (auto simp: release_def dropToken_def isValidToken_def pushFreeChannel_def Let_def
        and_then_def modify_def ret_def registry_consts)
qed

lemma release_not_live:
  "live r t = None \<Longrightarrow>
   release t r = (Inl (Runtime_error (if isValidToken r t then ''Attempt to release already free token''
                                      else ''Attempt to release invalid token'')), r)"
  by (auto simp: release_def live_def isValidToken_def split: if_splits)

lemma drop_live:
  assumes "reg_inv r" and "live r t = Some c"
  shows "live (dropToken t r) = (live r)(t := None)"
  using assms live_bound [OF assms]
  by (auto simp: fun_eq_iff live_def dropToken_def Let_def reg_inv_def shape_ok_def nth_list_update
      split: if_splits)

lemma drop_tokens_ok:
  assumes inv: "reg_inv r" and t: "live r t = Some c"
  shows "tokens_ok (dropToken t r)"
proof -
  have tv: "token_value t < nextToken r" using t by (simp add: live_def split: if_splits)
  have room: "freeTokenCount r < length (freeTokens r)"
    using inv free_tokens_room [OF inv t] by (simp add: reg_inv_def shape_ok_def)
  have st: "tokenStack (dropToken t r) = tokenStack r @ [t]"
    using take_Suc_update [OF room] by (simp add: tokenStack_def dropToken_def Let_def)
  have nx: "nextToken (dropToken t r) = nextToken r" by (simp add: dropToken_def Let_def)
  show ?thesis
    using inv t tv unfolding tokens_ok_def st nx drop_live [OF inv t]
    by (auto simp: reg_inv_def tokens_ok_def)
qed

lemma drop_fields:
  assumes "live r t = Some c"
  shows "channelRefCount (dropToken t r) = (channelRefCount r)[c := channelRefCount r ! c - 1]"
    and "channelMode (dropToken t r) = channelMode r"
    and "groupToChannel (dropToken t r) =
      (if channelRefCount r ! c - 1 = 0 then resetGroupFrom 0 c (groupToChannel r) else groupToChannel r)"
  using assms by (auto simp: dropToken_def Let_def live_def split: if_splits)

lemma drop_groups_ok:
  assumes inv: "reg_inv r" and t: "live r t = Some c"
  shows "groups_ok (dropToken t r)"
proof -
  have c: "c < 4" "channelRefCount r ! c > 0"
    using live_bound [OF inv t] live_ref_pos [OF inv t] by simp_all
  have len: "length (channelRefCount r) = 4" using inv by (simp add: reg_inv_def shape_ok_def)
  have gr: "groups_ok r" using inv by (simp add: reg_inv_def)
  show ?thesis
  proof (cases "channelRefCount r ! c - 1 = 0")
    case True
    have nth: "groupToChannel (dropToken t r) ! j =
        (if groupToChannel r ! j = c then kNoChannel else groupToChannel r ! j)" if "j < 4" for j
      using resetGroup_nth [OF inv c(1) that] True by (simp add: drop_fields(3) [OF t])
    have "\<exists>g<4. groupToChannel (dropToken t r) ! g = d"
      if d: "d < 4" "0 < channelRefCount (dropToken t r) ! d" "channelMode r ! d = Shared" for d
    proof -
      have "d \<noteq> c" "0 < channelRefCount r ! d"
        using d c len True by (auto simp: drop_fields(1) [OF t] nth_list_update split: if_splits)
      then obtain g where "g < 4" "groupToChannel r ! g = d"
        using gr d by (auto simp: groups_ok_def)
      then show ?thesis using nth [of g] \<open>d \<noteq> c\<close> by (intro exI [of _ g]) simp
    qed
    then show ?thesis
      using gr c len True nth
      by (auto simp: groups_ok_def drop_fields(1,2) [OF t] nth_list_update split: if_splits)
  next
    case False
    have pos: "0 < ((channelRefCount r)[c := channelRefCount r ! c - 1]) ! d \<longleftrightarrow> 0 < channelRefCount r ! d"
      if "d < 4" for d
      using False that len c by (auto simp: nth_list_update)
    show ?thesis
      using gr False pos unfolding groups_ok_def drop_fields [OF t] by simp
  qed
qed

lemma drop_channels_ok:
  assumes inv: "reg_inv r" and t: "live r t = Some c"
  shows "channels_ok (dropToken t r)"
proof -
  have c: "c < 4" "channelRefCount r ! c > 0"
    using live_bound [OF inv t] live_ref_pos [OF inv t] by simp_all
  have len: "length (channelRefCount r) = 4" "freeChannelCount r < length (freeChannels r)"
    using inv free_channels_room [OF inv c] by (simp_all add: reg_inv_def shape_ok_def)
  have ch: "channels_ok r" using inv by (simp add: reg_inv_def)
  have tc: "tokenToChannel r ! token_value t = c" using t by (simp add: live_def split: if_splits)
  have st: "channelStack (dropToken t r) =
      (if channelRefCount r ! c - 1 = 0 then channelStack r @ [c] else channelStack r)"
    using take_Suc_update [OF len(2), of c] by (simp add: channelStack_def dropToken_def Let_def tc)
  have s: "set (channelStack r) = {d. d < 4 \<and> channelRefCount r ! d = 0}"
    using ch by (simp add: channels_ok_def)
  have "distinct (channelStack (dropToken t r))"
    using ch c(2) by (simp add: st channels_ok_def)
  moreover have "set (channelStack (dropToken t r)) =
      {d. d < 4 \<and> channelRefCount (dropToken t r) ! d = 0}"
  proof (rule set_eqI)
    fix d
    show "d \<in> set (channelStack (dropToken t r)) \<longleftrightarrow>
        d \<in> {d. d < 4 \<and> channelRefCount (dropToken t r) ! d = 0}"
      using c len(1) s by (cases "d = c") (auto simp: st drop_fields(1) [OF t])
  qed
  moreover have "ran (live (dropToken t r)) \<subseteq> {..<4}"
    using ch by (auto simp: drop_live [OF inv t] channels_ok_def ran_def split: if_splits)
  moreover have "channelRefCount (dropToken t r) ! d \<le> 1"
    if "d < 4" "channelMode (dropToken t r) ! d = Exclusive" for d
    using ch that c len(1) by (auto simp: channels_ok_def drop_fields [OF t] nth_list_update)
  ultimately show ?thesis by (simp add: channels_ok_def)
qed

lemma drop_inv:
  assumes inv: "reg_inv r" and t: "live r t = Some c"
  shows "reg_inv (dropToken t r)"
proof -
  have c: "c < 4" "channelRefCount r ! c > 0"
    using live_bound [OF inv t] live_ref_pos [OF inv t] by simp_all
  have sh: "shape_ok r" and ct: "counts_ok r" using inv by (simp_all add: reg_inv_def)
  have "shape_ok (dropToken t r)"
    using sh free_tokens_room [OF inv t] free_channels_room [OF inv c]
    by (simp add: shape_ok_def dropToken_def Let_def)
  moreover have "counts_ok (dropToken t r)"
    unfolding counts_ok_def
  proof (intro allI impI)
    fix d :: nat assume d: "d < 4"
    have "users r d = users (dropToken t r) d + (if c = d then 1 else 0)"
      using count_val_del [OF finite_live t] by (simp add: users_def drop_live [OF inv t])
    moreover have "users r d \<le> channelRefCount r ! d" using ct d by (simp add: counts_ok_def)
    ultimately show "users (dropToken t r) d \<le> channelRefCount (dropToken t r) ! d"
      using c sh drop_fields(1) [OF t] by (cases "c = d") (simp_all add: shape_ok_def)
  qed
  ultimately show ?thesis
    using drop_tokens_ok [OF inv t] drop_channels_ok [OF inv t] drop_groups_ok [OF inv t]
    by (simp add: reg_inv_def)
qed

subsection \<open>The public operations\<close>

lemma acquire_eq:
  "acquire r = (case popFreeChannel r of
     (Inl e, r') \<Rightarrow> (Inl e, r')
   | (Inr c, r') \<Rightarrow> allocateToken c (setChannel c 1 Exclusive r'))"
  by (auto simp: acquire_def and_then_def modify_def split: prod.splits sum.splits)

lemma acquire_ok:
  assumes inv: "reg_inv r" and ok: "acquire r = (Inr t, r')"
  obtains c where "c < 4" "channelRefCount r ! c = 0" "live r t = None"
    "live r' = (live r)(t \<mapsto> c)" "reg_inv r'" "channelRefCount r' = (channelRefCount r)[c := 1]"
    "channelMode r' ! c = Exclusive" "token_value t < 256"
    "groupToChannel r' = groupToChannel r"
proof -
  obtain c r1 where pop: "popFreeChannel r = (Inr c, r1)"
    and al: "allocateToken c (setChannel c 1 Exclusive r1) = (Inr t, r')"
    using ok by (auto simp: acquire_eq split: prod.splits sum.splits)
  note p = pop_ok [OF inv pop]
  note cl = claim_exclusive [OF inv pop]
  note lv = allocate_live [OF cl(1) al]
  note fr = allocate_channels [OF al]
  have len: "length (channelMode r) = 4" using inv by (simp add: reg_inv_def shape_ok_def)
  have "users (setChannel c 1 Exclusive r1) c < channelRefCount (setChannel c 1 Exclusive r1) ! c"
    using users_zero [OF inv p(1,2)] cl(2,3) by (simp add: users_def)
  then have inv': "reg_inv r'" by (rule allocate_inv [OF cl(1) al p(1)])
  show thesis
    by (rule that [of c])
       (use p lv cl(2) inv' fr len in \<open>simp_all add: setChannel_def\<close>)
qed

lemma acquire_err:
  assumes inv: "reg_inv r" and err: "acquire r = (Inl e, r')"
  shows "reg_inv r'" and "live r' = live r"
    and "e = Runtime_error ''No free channels available'' \<and> r' = r \<and> freeChannelCount r = 0 \<or>
         e = Runtime_error ''TokenRegistry capacity exceeded'' \<and> 0 < freeChannelCount r \<and>
         freeTokenCount r = 0 \<and> nextToken r \<ge> 256 \<and>
         (\<exists>c<4. channelRefCount r ! c = 0 \<and> channelRefCount r' ! c = 1)"
proof -
  have "reg_inv r' \<and> live r' = live r \<and>
      (e = Runtime_error ''No free channels available'' \<and> r' = r \<and> freeChannelCount r = 0 \<or>
       e = Runtime_error ''TokenRegistry capacity exceeded'' \<and> 0 < freeChannelCount r \<and>
       freeTokenCount r = 0 \<and> nextToken r \<ge> 256 \<and>
       (\<exists>c<4. channelRefCount r ! c = 0 \<and> channelRefCount r' ! c = 1))"
  proof (cases "popFreeChannel r")
    case (Pair x r1)
    show ?thesis
    proof (cases x)
      case (Inl a)
      with Pair have pop: "popFreeChannel r = (Inl a, r1)" by simp
      from pop_err [OF pop] err pop inv show ?thesis by (auto simp: acquire_eq)
    next
      case (Inr c)
      with Pair have pop: "popFreeChannel r = (Inr c, r1)" by simp
      from err pop have al: "allocateToken c (setChannel c 1 Exclusive r1) = (Inl e, r')"
        by (simp add: acquire_eq)
      have "freeTokenCount r1 = freeTokenCount r \<and> nextToken r1 = nextToken r"
        using pop_ok(5) [OF inv pop] by simp
      with allocate_err [OF al] pop_ok [OF inv pop] claim_exclusive [OF inv pop]
      show ?thesis by (auto simp: setChannel_def)
    qed
  qed
  then show "reg_inv r'" "live r' = live r"
    "e = Runtime_error ''No free channels available'' \<and> r' = r \<and> freeChannelCount r = 0 \<or>
     e = Runtime_error ''TokenRegistry capacity exceeded'' \<and> 0 < freeChannelCount r \<and>
     freeTokenCount r = 0 \<and> nextToken r \<ge> 256 \<and>
     (\<exists>c<4. channelRefCount r ! c = 0 \<and> channelRefCount r' ! c = 1)"
    by blast+
qed

text \<open>
  The group form. \<open>groupOf r g\<close> is the live channel of a group. Its two successful
  branches are a join of that channel and the claim of a free one.
\<close>

definition groupOf :: "TokenRegistry \<Rightarrow> ChannelGroup \<Rightarrow> nat option" where
  "groupOf r g = (if g \<noteq> Count \<and> groupToChannel r ! toIndex g \<noteq> kNoChannel
                  then Some (groupToChannel r ! toIndex g) else None)"

lemma groupOf_live:
  "reg_inv r \<Longrightarrow> groupOf r g = Some c \<Longrightarrow>
     c < 4 \<and> channelRefCount r ! c > 0 \<and> channelMode r ! c = Shared"
  by (auto simp: groupOf_def reg_inv_def groups_ok_def split: if_splits)

lemma acquireGroup_join:
  assumes "reg_inv r" and "groupOf r g = Some c"
  shows "acquireGroup g r = allocateToken c (setChannel c (channelRefCount r ! c + 1) Shared r)"
  using assms groupOf_live [OF assms]
  by (auto simp: acquireGroup_def groupOf_def Let_def kMaxGroups_def split: if_splits)

lemma acquireGroup_claim:
  assumes "reg_inv r" and "groupOf r g = None" and "g \<noteq> Count"
  shows "acquireGroup g r = (case popFreeChannel r of
     (Inl e, r') \<Rightarrow> (Inl e, r')
   | (Inr c, r') \<Rightarrow> allocateToken c
       ((setChannel c 1 Shared r')\<lparr>groupToChannel := (groupToChannel r')[toIndex g := c]\<rparr>))"
  using assms
  by (auto simp: acquireGroup_def groupOf_def Let_def and_then_def modify_def kMaxGroups_def
      split: prod.splits sum.splits if_splits)

lemma acquireGroup_Count:
  "acquireGroup Count r = (Inl (Assertion ''Invalid group index''), r)"
  by (simp add: acquireGroup_def kMaxGroups_def)

lemma acquireGroup_ok:
  assumes inv: "reg_inv r" and ok: "acquireGroup g r = (Inr t, r')"
  obtains c where "c < 4" "live r t = None" "live r' = (live r)(t \<mapsto> c)" "reg_inv r'"
    "token_value t < 256" "groupOf r' g = Some c"
    "groupOf r g = Some c \<or> groupOf r g = None \<and> channelRefCount r ! c = 0"
    "channelRefCount r' = (channelRefCount r)[c := channelRefCount r ! c + 1]"
    "channelMode r' ! c = Shared"
    "\<And>h. h \<noteq> g \<Longrightarrow> groupOf r' h = groupOf r h"
proof -
  have g: "g \<noteq> Count" using ok by (auto simp: acquireGroup_Count)
  have len: "length (groupToChannel r) = 4" "length (channelMode r) = 4"
    using inv by (simp_all add: reg_inv_def shape_ok_def)
  show thesis
  proof (cases "groupOf r g")
    case (Some c)
    let ?r2 = "setChannel c (channelRefCount r ! c + 1) Shared r"
    have al: "allocateToken c ?r2 = (Inr t, r')" using ok acquireGroup_join [OF inv Some] by simp
    have c: "c = groupToChannel r ! toIndex g" "c \<noteq> kNoChannel"
      using Some by (auto simp: groupOf_def split: if_splits)
    have g4: "toIndex g < 4" using g by simp
    note j = join_shared [OF inv g4 c]
    note lv = allocate_live [OF j(1) al]
    note fr = allocate_channels [OF al]
    have "users ?r2 c < channelRefCount ?r2 ! c"
      using inv j(2,3,4) by (simp add: users_def reg_inv_def counts_ok_def le_imp_less_Suc)
    then have "reg_inv r'" by (rule allocate_inv [OF j(1) al j(3)])
    moreover have "groupOf r' h = groupOf r h" for h
      using fr by (simp add: groupOf_def setChannel_def)
    ultimately show thesis
      using lv j(2,3) fr Some len by (intro that [of c]) (simp_all add: setChannel_def)
  next
    case None
    then obtain c r1 where pop: "popFreeChannel r = (Inr c, r1)"
      and al: "allocateToken c ((setChannel c 1 Shared r1)
        \<lparr>groupToChannel := (groupToChannel r1)[toIndex g := c]\<rparr>) = (Inr t, r')"
      using ok acquireGroup_claim [OF inv None g] by (auto split: prod.splits sum.splits)
    have gn: "groupToChannel r ! toIndex g = kNoChannel"
      using None g by (simp add: groupOf_def split: if_splits)
    have g4: "toIndex g < 4" using g by simp
    note p = pop_ok [OF inv pop]
    note cl = claim_shared [OF inv pop g4 gn]
    note lv = allocate_live [OF cl(1) al]
    note fr = allocate_channels [OF al]
    have inv': "reg_inv r'"
      by (rule allocate_inv [OF cl(1) al p(1)])
         (use users_zero [OF inv p(1,2)] cl(2,3) in \<open>simp add: users_def\<close>)
    have grp: "groupOf r' h = (if h = g then Some c else groupOf r h)" for h
      using fr p(1,5) len g toIndex_inj [of g h]
      by (auto simp: groupOf_def setChannel_def kNoChannel_def nth_list_update)
    show thesis
      by (rule that [of c])
         (use p lv cl(2) inv' fr len None grp in \<open>simp_all add: setChannel_def\<close>)
  qed
qed

lemma acquireGroup_err:
  assumes inv: "reg_inv r" and g: "g \<noteq> Count" and err: "acquireGroup g r = (Inl e, r')"
  shows "reg_inv r' \<and> live r' = live r \<and>
    (e = Runtime_error ''No free channels available'' \<and> r' = r \<and> groupOf r g = None \<and>
       freeChannelCount r = 0 \<or>
     e = Runtime_error ''TokenRegistry capacity exceeded'' \<and> freeTokenCount r = 0 \<and>
       nextToken r \<ge> 256 \<and>
       (\<exists>c<4. channelRefCount r' = (channelRefCount r)[c := channelRefCount r ! c + 1]))"
proof (cases "groupOf r g")
  case (Some c)
  have c: "c = groupToChannel r ! toIndex g" "c \<noteq> kNoChannel" and g4: "toIndex g < 4"
    using Some g by (auto simp: groupOf_def split: if_splits)
  note j = join_shared [OF inv g4 c]
  have "allocateToken c (setChannel c (channelRefCount r ! c + 1) Shared r) = (Inl e, r')"
    using err acquireGroup_join [OF inv Some] by simp
  from allocate_err [OF this] j show ?thesis by (auto simp: setChannel_def)
next
  case None
  have gn: "groupToChannel r ! toIndex g = kNoChannel" and g4: "toIndex g < 4"
    using None g by (simp_all add: groupOf_def split: if_splits)
  show ?thesis
  proof (cases "popFreeChannel r")
    case (Pair x r1)
    show ?thesis
    proof (cases x)
      case (Inl a)
      with Pair have pop: "popFreeChannel r = (Inl a, r1)" by simp
      from pop_err [OF pop] err pop inv None acquireGroup_claim [OF inv None g]
      show ?thesis by auto
    next
      case (Inr c)
      with Pair have pop: "popFreeChannel r = (Inr c, r1)" by simp
      note p = pop_ok [OF inv pop]
      from err pop have al: "allocateToken c ((setChannel c 1 Shared r1)
          \<lparr>groupToChannel := (groupToChannel r1)[toIndex g := c]\<rparr>) = (Inl e, r')"
        using acquireGroup_claim [OF inv None g] by simp
      from allocate_err [OF al] p claim_shared [OF inv pop g4 gn]
      show ?thesis by (auto simp: setChannel_def)
    qed
  qed
qed

lemma release_ok:
  assumes "reg_inv r" and "live r t = Some c"
  shows "release t r = (Inr (), dropToken t r)" and "reg_inv (dropToken t r)"
    and "live (dropToken t r) = (live r)(t := None)"
  using assms release_live drop_inv drop_live by blast+

subsection \<open>Exactness is kept by the calls that do not throw for lack of tokens\<close>

lemma users_upd:
  "live r t = None \<Longrightarrow> live r' = (live r)(t \<mapsto> c) \<Longrightarrow> users r' d = users r d + (if c = d then 1 else 0)"
  by (simp add: users_def count_val_upd [OF finite_live])

lemma acquire_exact:
  assumes "reg_exact r" and "acquire r = (Inr t, r')"
  shows "reg_exact r'"
proof -
  have inv: "reg_inv r" and ex: "\<forall>c<4. users r c = channelRefCount r ! c"
    using assms(1) by (simp_all add: reg_exact_def)
  have len: "length (channelRefCount r) = 4" using inv by (simp add: reg_inv_def shape_ok_def)
  from inv assms(2) show ?thesis
    by (rule acquire_ok) (use ex len in \<open>auto simp: reg_exact_def users_upd nth_list_update\<close>)
qed

lemma acquireGroup_exact:
  assumes "reg_exact r" and "acquireGroup g r = (Inr t, r')"
  shows "reg_exact r'"
proof -
  have inv: "reg_inv r" and ex: "\<forall>c<4. users r c = channelRefCount r ! c"
    using assms(1) by (simp_all add: reg_exact_def)
  have len: "length (channelRefCount r) = 4" using inv by (simp add: reg_inv_def shape_ok_def)
  from inv assms(2) show ?thesis
    by (rule acquireGroup_ok) (use ex len in \<open>auto simp: reg_exact_def users_upd nth_list_update\<close>)
qed

lemma release_exact:
  assumes "reg_exact r" and "live r t = Some c"
  shows "reg_exact (dropToken t r)"
proof -
  have inv: "reg_inv r" and ex: "\<forall>c<4. users r c = channelRefCount r ! c"
    using assms(1) by (simp_all add: reg_exact_def)
  have len: "length (channelRefCount r) = 4" using inv by (simp add: reg_inv_def shape_ok_def)
  have del: "users r d = users (dropToken t r) d + (if c = d then 1 else 0)" for d
    using count_val_del [OF finite_live assms(2)] by (simp add: users_def drop_live [OF inv assms(2)])
  have "users (dropToken t r) d = channelRefCount (dropToken t r) ! d" if "d < 4" for d
    using ex that del [of d] len live_bound [OF inv assms(2)]
    by (cases "c = d") (simp_all add: drop_fields [OF assms(2)])
  then show ?thesis by (simp add: reg_exact_def drop_inv [OF inv assms(2)])
qed

lemmas registry_laws = acquire_ok acquire_err acquireGroup_ok acquireGroup_err release_ok
  release_not_live

end
