(* ===== verification/Registration_Handle.thy ===== *)
theory Registration_Handle
  imports Registry_Laws
begin

text \<open>
  \<^verbatim>\<open>modules/publisher/include/publisher/runtime/registration_handle.hpp\<close>: the
  move-only owner of one publish token. Registries live in a store \<open>nat \<Rightarrow> TokenRegistry\<close>
  (the address a handle's \<open>registry_\<close> pointer holds), so that several handles share one
  registry and a handle may change registry by move assignment. The two constructors and
  the two \<open>reassign\<close> overloads differ only in the \<open>acquire\<close> they call, which is an
  argument of the definitions.
\<close>

subsection \<open>The class\<close>

record RegistrationHandle =
  h_registry :: "nat option"
  h_token :: PublishToken

type_synonym regs = "nat \<Rightarrow> TokenRegistry"

definition defaultHandle :: RegistrationHandle where
  "defaultHandle = \<lparr>h_registry = None, h_token = kInvalidToken\<rparr>"

definition validHandle :: "RegistrationHandle \<Rightarrow> bool" where
  "validHandle h \<longleftrightarrow> h_registry h \<noteq> None \<and> token_value (h_token h) \<noteq> token_value kInvalidToken"

text \<open>A registry operation at an address of the store.\<close>

definition at_registry :: "nat \<Rightarrow> (TokenRegistry, 'a) eff \<Rightarrow> (regs, 'a) eff" where
  "at_registry a m rs = (case m (rs a) of (x, r') \<Rightarrow> (x, rs(a := r')))"

definition constructHandle ::
  "(TokenRegistry, PublishToken) eff \<Rightarrow> nat \<Rightarrow> (regs, RegistrationHandle) eff" where
  "constructHandle acq a =
     and_then (at_registry a acq) (\<lambda>t. ret \<lparr>h_registry = Some a, h_token = t\<rparr>)"

definition makeHandle :: "nat \<Rightarrow> (regs, RegistrationHandle) eff" where
  "makeHandle = constructHandle acquire"

definition makeGroupHandle :: "nat \<Rightarrow> ChannelGroup \<Rightarrow> (regs, RegistrationHandle) eff" where
  "makeGroupHandle a g = constructHandle (acquireGroup g) a"

text \<open>The private \<open>release() noexcept\<close>: an exception of the registry is swallowed.\<close>

definition releaseHandle :: "RegistrationHandle \<Rightarrow> regs \<Rightarrow> RegistrationHandle \<times> regs" where
  "releaseHandle h rs =
     (h\<lparr>h_token := kInvalidToken\<rparr>,
      (case h_registry h of
         Some a \<Rightarrow> if token_value (h_token h) \<noteq> token_value kInvalidToken
                   then snd (at_registry a (release (h_token h)) rs) else rs
       | None \<Rightarrow> rs))"

definition destroyHandle :: "RegistrationHandle \<Rightarrow> regs \<Rightarrow> regs" where
  "destroyHandle h rs = snd (releaseHandle h rs)"

definition detachHandle :: "RegistrationHandle \<Rightarrow> RegistrationHandle" where
  "detachHandle h = h\<lparr>h_registry := None, h_token := kInvalidToken\<rparr>"

text \<open>The move constructor: the new object, and what is left in the source.\<close>

definition moveConstruct :: "RegistrationHandle \<Rightarrow> RegistrationHandle \<times> RegistrationHandle" where
  "moveConstruct other =
     (\<lparr>h_registry = h_registry other, h_token = h_token other\<rparr>, detachHandle other)"

text \<open>Move assignment of two distinct objects: destination, source, store.\<close>

definition moveAssign ::
  "RegistrationHandle \<Rightarrow> RegistrationHandle \<Rightarrow> regs \<Rightarrow> RegistrationHandle \<times> RegistrationHandle \<times> regs" where
  "moveAssign this other rs =
     (case releaseHandle this rs of (h, rs') \<Rightarrow>
        (h\<lparr>h_registry := h_registry other, h_token := h_token other\<rparr>, detachHandle other, rs'))"

text \<open>\<open>reassign\<close>: on an exception of the acquisition the handle keeps the invalid token.\<close>

definition reassignWith ::
  "(TokenRegistry, PublishToken) eff \<Rightarrow> RegistrationHandle \<Rightarrow> regs \<Rightarrow>
     unit result \<times> RegistrationHandle \<times> regs" where
  "reassignWith acq h rs =
     (case h_registry h of
        None \<Rightarrow> (Inl (Assertion ''Cannot reassign detached handle''), h, rs)
      | Some a \<Rightarrow>
          (case releaseHandle h rs of (h', rs') \<Rightarrow>
             (case at_registry a acq rs' of
                (Inl e, rs'') \<Rightarrow> (Inl e, h', rs'')
              | (Inr t, rs'') \<Rightarrow> (Inr (), h'\<lparr>h_token := t\<rparr>, rs''))))"

definition reassign :: "RegistrationHandle \<Rightarrow> regs \<Rightarrow> unit result \<times> RegistrationHandle \<times> regs" where
  "reassign = reassignWith acquire"

definition reassignGroup ::
  "ChannelGroup \<Rightarrow> RegistrationHandle \<Rightarrow> regs \<Rightarrow> unit result \<times> RegistrationHandle \<times> regs" where
  "reassignGroup g = reassignWith (acquireGroup g)"

lemmas handle_defs = constructHandle_def releaseHandle_def destroyHandle_def detachHandle_def
  moveConstruct_def moveAssign_def reassignWith_def at_registry_def

subsection \<open>Programs over named handles\<close>

text \<open>
  A program's handles are objects with names; \<open>handle_step\<close> is one constructor, destructor,
  move or \<open>reassign\<close> of such an object. An object whose constructor throws does not come
  into being. The names are the C++ storage: an object is constructed where none is, and
  moved, reassigned or destroyed while it lives.
\<close>

record handle_sys =
  regs_of :: regs
  objs :: "nat \<rightharpoonup> RegistrationHandle"

inductive handle_step :: "handle_sys \<Rightarrow> handle_sys \<Rightarrow> bool" where
  step_default: "objs s i = None \<Longrightarrow>
    handle_step s (s\<lparr>objs := (objs s)(i \<mapsto> defaultHandle)\<rparr>)"
| step_make: "objs s i = None \<Longrightarrow> makeHandle a (regs_of s) = (Inr h, rs) \<Longrightarrow>
    handle_step s (s\<lparr>objs := (objs s)(i \<mapsto> h), regs_of := rs\<rparr>)"
| step_make_throws: "objs s i = None \<Longrightarrow> makeHandle a (regs_of s) = (Inl e, rs) \<Longrightarrow>
    handle_step s (s\<lparr>regs_of := rs\<rparr>)"
| step_group: "objs s i = None \<Longrightarrow> makeGroupHandle a g (regs_of s) = (Inr h, rs) \<Longrightarrow>
    handle_step s (s\<lparr>objs := (objs s)(i \<mapsto> h), regs_of := rs\<rparr>)"
| step_group_throws: "objs s i = None \<Longrightarrow> makeGroupHandle a g (regs_of s) = (Inl e, rs) \<Longrightarrow>
    handle_step s (s\<lparr>regs_of := rs\<rparr>)"
| step_move: "objs s i = None \<Longrightarrow> objs s j = Some other \<Longrightarrow> moveConstruct other = (h, other') \<Longrightarrow>
    handle_step s (s\<lparr>objs := (objs s)(j \<mapsto> other', i \<mapsto> h)\<rparr>)"
| step_assign: "i \<noteq> j \<Longrightarrow> objs s i = Some this \<Longrightarrow> objs s j = Some other \<Longrightarrow>
    moveAssign this other (regs_of s) = (h, other', rs) \<Longrightarrow>
    handle_step s (s\<lparr>objs := (objs s)(j \<mapsto> other', i \<mapsto> h), regs_of := rs\<rparr>)"
| step_reassign: "objs s i = Some this \<Longrightarrow> reassign this (regs_of s) = (x, h, rs) \<Longrightarrow>
    handle_step s (s\<lparr>objs := (objs s)(i \<mapsto> h), regs_of := rs\<rparr>)"
| step_reassign_group: "objs s i = Some this \<Longrightarrow> reassignGroup g this (regs_of s) = (x, h, rs) \<Longrightarrow>
    handle_step s (s\<lparr>objs := (objs s)(i \<mapsto> h), regs_of := rs\<rparr>)"
| step_destroy: "objs s i = Some h \<Longrightarrow>
    handle_step s (s\<lparr>objs := (objs s)(i := None), regs_of := destroyHandle h (regs_of s)\<rparr>)"

definition handle_start :: handle_sys where
  "handle_start = \<lparr>regs_of = (\<lambda>_. newRegistry), objs = Map.empty\<rparr>"

inductive handle_reachable :: "handle_sys \<Rightarrow> bool" where
  reach_start: "handle_reachable handle_start"
| reach_step: "handle_reachable s \<Longrightarrow> handle_step s t \<Longrightarrow> handle_reachable t"

end
