(* ===== verification/Handle_Ownership.thy ===== *)
theory Handle_Ownership
  imports Registration_Handle
begin

text \<open>
  Ownership of tokens by handles: in every reachable program state the valid handles and
  the live tokens of the registries correspond one to one. Hence no token leaks, none is
  released twice, and the \<open>catch (...)\<close> of the handle's destructor never catches.

  What a handle needs from the registry is the locale \<open>token_acquisition\<close>: an operation
  that hands out a token, as both forms of \<open>acquire\<close> do.
\<close>

subsection \<open>Ownership\<close>

definition owns :: "RegistrationHandle \<Rightarrow> nat \<Rightarrow> PublishToken \<Rightarrow> bool" where
  "owns h a t \<longleftrightarrow> h_registry h = Some a \<and> h_token h = t \<and> t \<noteq> kInvalidToken"

definition owners :: "(nat \<rightharpoonup> RegistrationHandle) \<Rightarrow> nat \<Rightarrow> PublishToken \<Rightarrow> nat set" where
  "owners m a t = {i. \<exists>h. m i = Some h \<and> owns h a t}"

definition ownership_ok :: "handle_sys \<Rightarrow> bool" where
  "ownership_ok s \<longleftrightarrow>
     (\<forall>a. reg_inv (regs_of s a)) \<and>
     (\<forall>a t. live (regs_of s a) t = None \<longleftrightarrow> owners (objs s) a t = {}) \<and>
     (\<forall>a t i j. i \<in> owners (objs s) a t \<longrightarrow> j \<in> owners (objs s) a t \<longrightarrow> i = j)"

lemma owners_upd:
  "owners (m(i \<mapsto> h)) a t = (owners m a t - {i}) \<union> (if owns h a t then {i} else {})"
  by (auto simp: owners_def)

lemma owners_del: "owners (m(i := None)) a t = owners m a t - {i}"
  by (auto simp: owners_def)

lemma owners_mem: "m i = Some h \<Longrightarrow> i \<in> owners m a t \<longleftrightarrow> owns h a t"
  by (simp add: owners_def)

lemma owners_fresh: "m i = None \<Longrightarrow> i \<notin> owners m a t"
  by (simp add: owners_def)

lemma ownership_inv: "ownership_ok s \<Longrightarrow> reg_inv (regs_of s a)"
  by (simp add: ownership_ok_def)

lemma owner_live:
  assumes "ownership_ok s" and "objs s i = Some h" and "owns h a t"
  shows "\<exists>c. live (regs_of s a) t = Some c"
proof -
  have "i \<in> owners (objs s) a t" using assms(2,3) by (simp add: owners_def)
  then have "live (regs_of s a) t \<noteq> None" using assms(1) by (auto simp: ownership_ok_def)
  then show ?thesis by blast
qed

lemma owner_alone:
  assumes "ownership_ok s" and "objs s i = Some h" and "owns h a t"
  shows "owners (objs s) a t = {i}"
proof -
  have "i \<in> owners (objs s) a t" using assms(2,3) by (simp add: owners_def)
  then show ?thesis using assms(1) unfolding ownership_ok_def by blast
qed

lemma owns_valid: "validHandle h \<longleftrightarrow> (\<exists>a t. owns h a t)"
  by (auto simp: validHandle_def owns_def)

lemma owns_default [simp]: "\<not> owns defaultHandle a t"
  by (simp add: owns_def defaultHandle_def)

lemma owns_detach [simp]: "\<not> owns (detachHandle h) a t"
  by (simp add: owns_def detachHandle_def)

lemma owns_unique: "owns h a t \<Longrightarrow> owns h b u \<Longrightarrow> a = b \<and> t = u"
  by (auto simp: owns_def)

lemma live_not_invalid: "reg_inv r \<Longrightarrow> live r kInvalidToken = None"
  using live_bound [of r kInvalidToken] by (cases "live r kInvalidToken") (auto simp: kInvalidToken_def)

subsection \<open>Releasing inside a handle\<close>

lemma releaseHandle_fst: "fst (releaseHandle h rs) = h\<lparr>h_token := kInvalidToken\<rparr>"
  by (simp add: releaseHandle_def)

lemma releaseHandle_owner:
  assumes "reg_inv (rs a)" and "owns h a t" and "live (rs a) t = Some c"
  shows "releaseHandle h rs = (h\<lparr>h_token := kInvalidToken\<rparr>, rs(a := dropToken t (rs a)))"
  using assms release_live [OF assms(1,3)] by (auto simp: releaseHandle_def owns_def at_registry_def)

lemma releaseHandle_no_owner:
  "(\<And>a t. \<not> owns h a t) \<Longrightarrow> releaseHandle h rs = (h\<lparr>h_token := kInvalidToken\<rparr>, rs)"
  by (auto simp: releaseHandle_def owns_def split: option.splits)

text \<open>Giving up one object's token keeps the correspondence for the others.\<close>

lemma release_ownership:
  assumes ok: "ownership_ok s" and i: "objs s i = Some h"
    and rel: "releaseHandle h (regs_of s) = (h', rs')"
  shows "ownership_ok (s\<lparr>objs := (objs s)(i \<mapsto> h'), regs_of := rs'\<rparr>)"
    and "\<not> owns h' b u" and "h_registry h' = h_registry h"
proof -
  have h': "h' = h\<lparr>h_token := kInvalidToken\<rparr>" using rel releaseHandle_fst [of h "regs_of s"] by simp
  show "h_registry h' = h_registry h" by (simp add: h')
  have no: "\<not> owns h' a t" for a t by (simp add: h' owns_def)
  then show "\<not> owns h' b u" .
  show "ownership_ok (s\<lparr>objs := (objs s)(i \<mapsto> h'), regs_of := rs'\<rparr>)"
  proof (cases "\<exists>a t. owns h a t")
    case True
    then obtain a t where o: "owns h a t" by blast
    obtain c where lv: "live (regs_of s a) t = Some c" using owner_live [OF ok i o] by blast
    note inv = ownership_inv [OF ok, of a]
    have rs': "rs' = (regs_of s)(a := dropToken t (regs_of s a))"
      using rel releaseHandle_owner [of "regs_of s" a h t c] inv o lv by simp
    have lvs: "live (rs' b) u = (if b = a \<and> u = t then None else live (regs_of s b) u)" for b u
      by (simp add: rs' drop_live [OF inv lv])
    have own: "owners ((objs s)(i \<mapsto> h')) b u = (if b = a \<and> u = t then {} else owners (objs s) b u)" for b u
      using owner_alone [OF ok i o] owners_mem [where m = "objs s", OF i] owns_unique [OF o]
      by (auto simp: owners_upd no)
    have "reg_inv (rs' b)" for b
      using ownership_inv [OF ok] drop_inv [OF inv lv] by (simp add: rs')
    then show ?thesis using ok by (auto simp: ownership_ok_def lvs own)
  next
    case False
    then have "rs' = regs_of s" using rel releaseHandle_no_owner [of h "regs_of s"] by simp
    moreover have "owners ((objs s)(i \<mapsto> h')) b u = owners (objs s) b u" for b u
      using owners_mem [where m = "objs s", OF i] False by (auto simp: owners_upd no)
    ultimately show ?thesis using ok by (simp add: ownership_ok_def)
  qed
qed

subsection \<open>The interface: handing out a token\<close>

locale token_acquisition =
  fixes acq :: "(TokenRegistry, PublishToken) eff"
  assumes acq_ok: "reg_inv r \<Longrightarrow> acq r = (Inr t, r') \<Longrightarrow>
      reg_inv r' \<and> live r t = None \<and> t \<noteq> kInvalidToken \<and> (\<exists>c. live r' = (live r)(t \<mapsto> c))"
    and acq_err: "reg_inv r \<Longrightarrow> acq r = (Inl e, r') \<Longrightarrow> reg_inv r' \<and> live r' = live r"
begin

lemma construct_err:
  assumes ok: "ownership_ok s" and c: "constructHandle acq a (regs_of s) = (Inl e, rs)"
  shows "ownership_ok (s\<lparr>regs_of := rs\<rparr>)"
proof -
  obtain r' where r': "acq (regs_of s a) = (Inl e, r')" "rs = (regs_of s)(a := r')"
    using c by (auto simp: handle_defs and_then_def ret_def split: prod.splits sum.splits)
  with acq_err [OF ownership_inv [OF ok] r'(1)] ok show ?thesis
    by (auto simp: ownership_ok_def)
qed

text \<open>An object slot that owns nothing takes over the token just handed out.\<close>

lemma acquire_into:
  assumes ok: "ownership_ok s" and a: "acq (regs_of s a) = (Inr t, r')"
    and free: "\<And>b u. i \<notin> owners (objs s) b u"
    and h: "\<And>b u. owns h b u \<longleftrightarrow> b = a \<and> u = t"
  shows "ownership_ok (s\<lparr>objs := (objs s)(i \<mapsto> h), regs_of := (regs_of s)(a := r')\<rparr>)"
proof -
  note l = acq_ok [OF ownership_inv [OF ok] a]
  then obtain c where lv: "live r' = (live (regs_of s a))(t \<mapsto> c)" by blast
  have none: "owners (objs s) a t = {}" using l ok by (simp add: ownership_ok_def)
  have own: "owners ((objs s)(i \<mapsto> h)) b u = (if b = a \<and> u = t then {i} else owners (objs s) b u)" for b u
    using free none by (auto simp: owners_upd h)
  have "reg_inv (((regs_of s)(a := r')) b)" for b using l ownership_inv [OF ok] by simp
  then show ?thesis using ok by (auto simp: ownership_ok_def own lv)
qed

lemma construct_ok:
  assumes ok: "ownership_ok s" and i: "objs s i = None"
    and c: "constructHandle acq a (regs_of s) = (Inr h, rs)"
  shows "ownership_ok (s\<lparr>objs := (objs s)(i \<mapsto> h), regs_of := rs\<rparr>)" and "validHandle h"
proof -
  obtain t r' where r': "acq (regs_of s a) = (Inr t, r')" "rs = (regs_of s)(a := r')"
    "h = \<lparr>h_registry = Some a, h_token = t\<rparr>"
    using c by (auto simp: handle_defs and_then_def ret_def split: prod.splits sum.splits)
  have "t \<noteq> kInvalidToken" using acq_ok [OF ownership_inv [OF ok] r'(1)] by simp
  then have "owns h b u \<longleftrightarrow> b = a \<and> u = t" for b u by (auto simp: owns_def r'(3))
  then show "ownership_ok (s\<lparr>objs := (objs s)(i \<mapsto> h), regs_of := rs\<rparr>)" "validHandle h"
    using acquire_into [OF ok r'(1) owners_fresh [where m = "objs s", OF i]] by (auto simp: r'(2) owns_valid)
qed

text \<open>\<open>reassign\<close>: the old token is given up first, also when the acquisition then throws.\<close>

lemma reassign_ok:
  assumes ok: "ownership_ok s" and i: "objs s i = Some this"
    and r: "reassignWith acq this (regs_of s) = (x, h, rs)"
  shows "ownership_ok (s\<lparr>objs := (objs s)(i \<mapsto> h), regs_of := rs\<rparr>)"
    and "x = Inr () \<Longrightarrow> validHandle h" and "h_registry this \<noteq> None \<Longrightarrow> x = Inl e \<Longrightarrow> \<not> validHandle h"
proof -
  have "ownership_ok (s\<lparr>objs := (objs s)(i \<mapsto> h), regs_of := rs\<rparr>) \<and> (x = Inr () \<longrightarrow> validHandle h) \<and>
    (h_registry this \<noteq> None \<longrightarrow> x = Inl e \<longrightarrow> \<not> validHandle h)"
  proof (cases "h_registry this")
    case None
    with r i ok show ?thesis by (auto simp: reassignWith_def fun_upd_idem)
  next
    case (Some a)
    obtain h1 rs1 where rel: "releaseHandle this (regs_of s) = (h1, rs1)" by fastforce
    let ?s1 = "s\<lparr>objs := (objs s)(i \<mapsto> h1), regs_of := rs1\<rparr>"
    note rl = release_ownership [OF ok i rel]
    have free: "i \<notin> owners (objs ?s1) b u" for b u using rl(2) by (simp add: owners_upd)
    obtain y r' where y: "acq (rs1 a) = (y, r')" by fastforce
    show ?thesis
    proof (cases y)
      case (Inl e')
      then have eq: "x = Inl e'" "h = h1" "rs = rs1(a := r')"
        using r Some rel y by (simp_all add: reassignWith_def at_registry_def)
      have "acq (regs_of ?s1 a) = (Inl e', r')" using y Inl by simp
      note l = acq_err [OF ownership_inv [OF rl(1)] this]
      from l rl(1) have "ownership_ok (s\<lparr>objs := (objs s)(i \<mapsto> h), regs_of := rs\<rparr>)"
        by (auto simp: ownership_ok_def eq)
      then show ?thesis using rl(2) by (auto simp: eq owns_valid)
    next
      case (Inr t)
      then have eq: "x = Inr ()" "h = h1\<lparr>h_token := t\<rparr>" "rs = rs1(a := r')"
        using r Some rel y by (simp_all add: reassignWith_def at_registry_def)
      have a: "acq (regs_of ?s1 a) = (Inr t, r')" using y Inr by simp
      have "t \<noteq> kInvalidToken" using acq_ok [OF ownership_inv [OF rl(1)] a] by simp
      then have o: "owns h b u \<longleftrightarrow> b = a \<and> u = t" for b u
        using rl(3) Some by (auto simp: owns_def eq)
      from acquire_into [OF rl(1) a free o] o show ?thesis by (auto simp: eq owns_valid)
    qed
  qed
  then show "ownership_ok (s\<lparr>objs := (objs s)(i \<mapsto> h), regs_of := rs\<rparr>)"
    "x = Inr () \<Longrightarrow> validHandle h" "h_registry this \<noteq> None \<Longrightarrow> x = Inl e \<Longrightarrow> \<not> validHandle h"
    by blast+
qed

end

lemma live_bound_valid: "reg_inv r \<Longrightarrow> live r t = Some c \<Longrightarrow> t \<noteq> kInvalidToken"
  using live_not_invalid [of r] by auto

interpretation excl: token_acquisition acquire
proof
  fix r t r' assume inv: "reg_inv r" and ok: "acquire r = (Inr t, r')"
  from inv ok show "reg_inv r' \<and> live r t = None \<and> t \<noteq> kInvalidToken \<and> (\<exists>c. live r' = (live r)(t \<mapsto> c))"
    by (rule acquire_ok) (auto simp: live_bound_valid)
next
  fix r e r' assume "reg_inv r" and "acquire r = (Inl e, r')"
  then show "reg_inv r' \<and> live r' = live r" by (simp add: acquire_err)
qed

interpretation grp: token_acquisition "acquireGroup g" for g
proof
  fix r t r' assume inv: "reg_inv r" and ok: "acquireGroup g r = (Inr t, r')"
  from inv ok show "reg_inv r' \<and> live r t = None \<and> t \<noteq> kInvalidToken \<and> (\<exists>c. live r' = (live r)(t \<mapsto> c))"
    by (rule acquireGroup_ok) (auto simp: live_bound_valid)
next
  fix r e r' assume "reg_inv r" and "acquireGroup g r = (Inl e, r')"
  then show "reg_inv r' \<and> live r' = live r"
    by (cases "g = Count") (auto simp: acquireGroup_Count dest: acquireGroup_err)
qed

subsection \<open>Moving\<close>

lemma transfer_ownership:
  assumes ok: "ownership_ok s" and ij: "i \<noteq> j" and free: "\<And>a t. i \<notin> owners (objs s) a t"
    and j: "objs s j = Some other" and h: "\<And>a t. owns h a t \<longleftrightarrow> owns other a t"
  shows "ownership_ok (s\<lparr>objs := (objs s)(j \<mapsto> detachHandle other, i \<mapsto> h)\<rparr>)"
proof -
  have own: "owners ((objs s)(j \<mapsto> detachHandle other, i \<mapsto> h)) a t =
      (if j \<in> owners (objs s) a t then (owners (objs s) a t - {j}) \<union> {i} else owners (objs s) a t)" for a t
    using free ij owners_mem [where m = "objs s", OF j] by (auto simp: owners_upd h)
  have "(owners (objs s) a t - {j}) \<union> {i} = {i}" if "j \<in> owners (objs s) a t" for a t
    using ok that unfolding ownership_ok_def by blast
  then show ?thesis using ok by (auto simp: ownership_ok_def own)
qed

lemma moveConstruct_ownership:
  assumes ok: "ownership_ok s" and i: "objs s i = None" and j: "objs s j = Some other"
    and m: "moveConstruct other = (h, other')"
  shows "ownership_ok (s\<lparr>objs := (objs s)(j \<mapsto> other', i \<mapsto> h)\<rparr>)"
proof -
  have eq: "other' = detachHandle other" "h = other"
    using m by (cases other; simp add: moveConstruct_def)+
  show ?thesis unfolding eq
    by (rule transfer_ownership [OF ok _ owners_fresh [where m = "objs s", OF i] j])
       (use i j in \<open>auto\<close>)
qed

lemma moveAssign_ownership:
  assumes ok: "ownership_ok s" and ij: "i \<noteq> j" and i: "objs s i = Some this"
    and j: "objs s j = Some other" and m: "moveAssign this other (regs_of s) = (h, other', rs)"
  shows "ownership_ok (s\<lparr>objs := (objs s)(j \<mapsto> other', i \<mapsto> h), regs_of := rs\<rparr>)"
proof -
  obtain h1 where rel: "releaseHandle this (regs_of s) = (h1, rs)"
    and eq: "other' = detachHandle other" "h = h1\<lparr>h_registry := h_registry other, h_token := h_token other\<rparr>"
    using m by (auto simp: moveAssign_def split: prod.splits)
  let ?s1 = "s\<lparr>objs := (objs s)(i \<mapsto> h1), regs_of := rs\<rparr>"
  note rl = release_ownership [OF ok i rel]
  have "ownership_ok (?s1\<lparr>objs := (objs ?s1)(j \<mapsto> detachHandle other, i \<mapsto> h)\<rparr>)"
    by (rule transfer_ownership [OF rl(1) ij])
       (use rl(2) j ij in \<open>auto simp: owners_upd eq owns_def\<close>)
  then show ?thesis by (simp add: ownership_ok_def eq(1))
qed

subsection \<open>Every step, every reachable state\<close>

lemma destroy_ownership:
  assumes ok: "ownership_ok s" and i: "objs s i = Some h"
  shows "ownership_ok (s\<lparr>objs := (objs s)(i := None), regs_of := destroyHandle h (regs_of s)\<rparr>)"
proof -
  obtain h1 rs where rel: "releaseHandle h (regs_of s) = (h1, rs)" by fastforce
  note rl = release_ownership [OF ok i rel]
  have "owners ((objs s)(i := None)) a t = owners ((objs s)(i \<mapsto> h1)) a t" for a t
    by (simp add: owners_del owners_upd rl(2))
  with rl(1) rel show ?thesis by (simp add: ownership_ok_def destroyHandle_def)
qed

lemma step_ownership: "handle_step s t \<Longrightarrow> ownership_ok s \<Longrightarrow> ownership_ok t"
proof (induction rule: handle_step.induct)
  case (step_default s i)
  then have "owners ((objs s)(i \<mapsto> defaultHandle)) a t = owners (objs s) a t" for a t
    by (auto simp: owners_upd owners_fresh)
  with step_default show ?case by (simp add: ownership_ok_def)
next
  case (step_make s i a h rs)
  then show ?case by (auto simp: makeHandle_def intro: excl.construct_ok)
next
  case (step_make_throws s i a e rs)
  then show ?case by (auto simp: makeHandle_def intro: excl.construct_err)
next
  case (step_group s i a g h rs)
  then show ?case by (auto simp: makeGroupHandle_def intro: grp.construct_ok)
next
  case (step_group_throws s i a g e rs)
  then show ?case by (auto simp: makeGroupHandle_def intro: grp.construct_err)
next
  case (step_move s i j other h other')
  then show ?case by (intro moveConstruct_ownership)
next
  case (step_assign i j s this other h other' rs)
  then show ?case by (intro moveAssign_ownership)
next
  case (step_reassign s i this x h rs)
  then show ?case by (auto simp: reassign_def intro: excl.reassign_ok)
next
  case (step_reassign_group s i this g x h rs)
  then show ?case by (auto simp: reassignGroup_def intro: grp.reassign_ok)
next
  case (step_destroy s i h)
  then show ?case by (intro destroy_ownership)
qed

lemma start_ownership: "ownership_ok handle_start"
  using new_exact by (auto simp: ownership_ok_def handle_start_def reg_exact_def live_new owners_def)

lemma reachable_ownership: "handle_reachable s \<Longrightarrow> ownership_ok s"
  by (induction rule: handle_reachable.induct) (auto intro: start_ownership step_ownership)

subsection \<open>Properties\<close>

text \<open>C1: In every reachable program over handles, the tokens that a registry has handed out
  are exactly the tokens held by valid handles, and no two handles hold the same token of the
  same registry: no token leaks and none has two owners, whatever sequence of constructions,
  moves, reassignments (also throwing ones) and destructions led there.\<close>

theorem handle_owns_exactly_live_tokens:
  assumes "handle_reachable s"
  shows "live (regs_of s a) t \<noteq> None \<longleftrightarrow>
      (\<exists>!i. \<exists>h. objs s i = Some h \<and> validHandle h \<and> h_registry h = Some a \<and> h_token h = t)"
proof -
  note ok = reachable_ownership [OF assms]
  have mem: "i \<in> owners (objs s) a t \<longleftrightarrow>
      (\<exists>h. objs s i = Some h \<and> validHandle h \<and> h_registry h = Some a \<and> h_token h = t)" for i
    by (auto simp: owners_def owns_def validHandle_def)
  have "live (regs_of s a) t = None \<longleftrightarrow> owners (objs s) a t = {}"
    and "\<forall>i j. i \<in> owners (objs s) a t \<longrightarrow> j \<in> owners (objs s) a t \<longrightarrow> i = j"
    using ok unfolding ownership_ok_def by simp_all
  then have "live (regs_of s a) t \<noteq> None \<longleftrightarrow> (\<exists>!i. i \<in> owners (objs s) a t)" by auto
  then show ?thesis by (simp add: mem)
qed

text \<open>A program that constructs one exclusive handle on registry \<open>0\<close>.\<close>

lemma one_handle:
  obtains s h where "handle_reachable s" "objs s 0 = Some h" "validHandle h" "h_registry h = Some 0"
    "h_token h = PublishToken 0"
proof -
  obtain r where r: "acquire newRegistry = (Inr (PublishToken 0), r)"
    by (auto simp: acquire_def popFreeChannel_def modify_def and_then_def allocateToken_def
        newRegistry_def setChannel_def registry_consts Let_def)
  let ?h = "\<lparr>h_registry = Some 0, h_token = PublishToken 0\<rparr>"
  have "makeHandle 0 (regs_of handle_start) = (Inr ?h, (regs_of handle_start)(0 := r))"
    using r by (simp add: makeHandle_def handle_defs and_then_def ret_def handle_start_def)
  then have "handle_step handle_start
      (handle_start\<lparr>objs := (objs handle_start)(0 \<mapsto> ?h), regs_of := (regs_of handle_start)(0 := r)\<rparr>)"
    by (intro step_make [of _ 0]) (simp add: handle_start_def)
  then have "handle_reachable
      (handle_start\<lparr>objs := (objs handle_start)(0 \<mapsto> ?h), regs_of := (regs_of handle_start)(0 := r)\<rparr>)"
    by (rule reach_step [OF reach_start])
  then show thesis
    by (rule that [of _ ?h]) (simp_all add: validHandle_def kInvalidToken_def)
qed

theorem handle_owns_exactly_live_tokens_witness:
  "\<exists>s h. handle_reachable s \<and> objs s 0 = Some h \<and> validHandle h \<and>
     (live (regs_of s 0) (PublishToken 0) \<noteq> None \<longleftrightarrow>
       (\<exists>!i. \<exists>h. objs s i = Some h \<and> validHandle h \<and> h_registry h = Some 0 \<and>
          h_token h = PublishToken 0))"
proof -
  obtain s h where s: "handle_reachable s" "objs s 0 = Some h" "validHandle h"
    by (rule one_handle)
  then show ?thesis using handle_owns_exactly_live_tokens [OF s(1), of 0 "PublishToken 0"] by blast
qed

text \<open>Destroying a handle in a reachable program never makes the registry throw: for a
  valid handle the release inside the destructor returns normally and frees the token, and for
  any other handle the destructor leaves every registry as it is.\<close>

theorem destructor_never_throws:
  assumes "handle_reachable s" and "objs s i = Some h"
  shows "(if validHandle h
     then \<exists>a r'. h_registry h = Some a \<and> release (h_token h) (regs_of s a) = (Inr (), r') \<and>
            destroyHandle h (regs_of s) = (regs_of s)(a := r') \<and>
            live r' = (live (regs_of s a))(h_token h := None)
     else destroyHandle h (regs_of s) = regs_of s)"
proof (cases "validHandle h")
  case True
  note ok = reachable_ownership [OF assms(1)]
  obtain a t where o: "owns h a t" using True by (auto simp: owns_valid)
  obtain c where lv: "live (regs_of s a) t = Some c" using owner_live [OF ok assms(2) o] by blast
  note inv = ownership_inv [OF ok, of a]
  show ?thesis
    using True o release_ok [OF inv lv] releaseHandle_owner [of "regs_of s" a h t c] inv lv
    by (auto simp: owns_def destroyHandle_def)
next
  case False
  then show ?thesis
    using releaseHandle_no_owner [of h] by (auto simp: owns_valid destroyHandle_def)
qed

theorem destructor_never_throws_witness:
  "\<exists>s h r'. handle_reachable s \<and> objs s 0 = Some h \<and> validHandle h \<and>
     release (h_token h) (regs_of s 0) = (Inr (), r') \<and>
     destroyHandle h (regs_of s) = (regs_of s)(0 := r')"
proof -
  obtain s h where s: "handle_reachable s" "objs s 0 = Some h" "validHandle h" "h_registry h = Some 0"
    "h_token h = PublishToken 0" by (rule one_handle)
  then show ?thesis using destructor_never_throws [OF s(1,2)] by auto
qed

end
