(* ===== verification/Registry_Properties.thy ===== *)
theory Registry_Properties
  imports Registry_Laws
begin

text \<open>
  The registry's properties over single calls and over arbitrary sequences of calls of its
  public interface, and the exception-safety defect of \<open>acquire\<close>.
\<close>

lemma resolve_live: "resolve r t = Inr c \<longleftrightarrow> live r t = Some c"
  by (auto simp: resolve_def live_def isValidToken_def)

subsection \<open>Sequences of calls\<close>

datatype reg_call = Acquire | AcquireGroup ChannelGroup | Release PublishToken

fun reg_exec :: "reg_call \<Rightarrow> TokenRegistry \<Rightarrow> failure option \<times> TokenRegistry" where
  "reg_exec Acquire r = (case acquire r of (Inl e, r') \<Rightarrow> (Some e, r') | (Inr _, r') \<Rightarrow> (None, r'))"
| "reg_exec (AcquireGroup g) r =
     (case acquireGroup g r of (Inl e, r') \<Rightarrow> (Some e, r') | (Inr _, r') \<Rightarrow> (None, r'))"
| "reg_exec (Release t) r = (case release t r of (Inl e, r') \<Rightarrow> (Some e, r') | (Inr _, r') \<Rightarrow> (None, r'))"

fun reg_run :: "reg_call list \<Rightarrow> TokenRegistry \<Rightarrow> failure option list \<times> TokenRegistry" where
  "reg_run [] r = ([], r)"
| "reg_run (c # cs) r = (case reg_exec c r of (x, r') \<Rightarrow>
     (case reg_run cs r' of (xs, r'') \<Rightarrow> (x # xs, r'')))"

lemma reg_run_Cons: "snd (reg_run (c # cs) r) = snd (reg_run cs (snd (reg_exec c r)))"
  by (simp split: prod.splits)

lemma reg_run_snoc: "snd (reg_run (cs @ [c]) r) = snd (reg_exec c (snd (reg_run cs r)))"
proof (induction cs arbitrary: r)
  case Nil
  show ?case by (simp split: prod.splits)
next
  case (Cons d cs)
  then show ?case by (simp only: append_Cons reg_run_Cons)
qed

lemma replicate_Suc_snoc: "replicate (Suc n) x = replicate n x @ [x]"
  by (metis replicate_Suc replicate_append_same)






lemma dead_not_used: "reg_inv r \<Longrightarrow> channelRefCount r ! c = 0 \<Longrightarrow> c \<notin> ran (live r)"
  by (auto simp: ran_def dest!: live_ref_pos)






subsection \<open>Properties\<close>



text \<open>C3: An exclusive \<open>acquire\<close> that returns hands out a token that was not live, bound to
  a channel no live token uses; every other token keeps its channel, and the new one is the only
  user of its channel, which is in exclusive mode. When it throws, the set of live tokens is
  unchanged.\<close>

theorem acquire_exclusive_correct:
  assumes "reg_exact r"
  shows "case acquire r of
      (Inr t, r') \<Rightarrow> reg_exact r' \<and> live r t = None \<and>
        (\<exists>c<4. c \<notin> ran (live r) \<and> live r' = (live r)(t \<mapsto> c) \<and> resolve r' t = Inr c \<and>
               channelModeOf r' c = Inr Exclusive \<and> channelRefCountOf r' c = Inr 1)
    | (Inl e, r') \<Rightarrow> live r' = live r \<and>
        (e = Runtime_error ''No free channels available'' \<and> r' = r \<or>
         e = Runtime_error ''TokenRegistry capacity exceeded'')"
proof (cases "acquire r")
  case (Pair x r')
  have inv: "reg_inv r" using assms by (simp add: reg_exact_def)
  have len: "length (channelRefCount r) = 4" using inv by (simp add: reg_inv_def shape_ok_def)
  show ?thesis
  proof (cases x)
    case (Inl e)
    with Pair acquire_err [OF inv, of e r'] show ?thesis by auto
  next
    case (Inr t)
    with Pair have ok: "acquire r = (Inr t, r')" by simp
    from inv ok show ?thesis
    proof (rule acquire_ok)
      fix c assume c: "c < 4" "channelRefCount r ! c = 0" "live r t = None" "live r' = (live r)(t \<mapsto> c)"
        "channelRefCount r' = (channelRefCount r)[c := 1]" "channelMode r' ! c = Exclusive"
      have "c \<notin> ran (live r)" using dead_not_used [OF inv c(2)] .
      moreover have "live r' t = Some c" using c(4) by simp
      then have "resolve r' t = Inr c" by (simp add: resolve_live)
      ultimately show ?thesis
        using c len acquire_exact [OF assms ok] Pair Inr
        by (auto simp: channelModeOf_def channelRefCountOf_def kMaxChannels_def)
    qed
  qed
qed

lemma acquire_new: "\<exists>r. acquire newRegistry = (Inr (PublishToken 0), r)"
  by (simp add: acquire_def popFreeChannel_def modify_def and_then_def allocateToken_def
      newRegistry_def setChannel_def registry_consts Let_def)

theorem acquire_exclusive_correct_witness:
  "\<exists>r c. acquire newRegistry = (Inr (PublishToken 0), r) \<and> reg_exact r \<and>
     resolve r (PublishToken 0) = Inr c \<and> channelRefCountOf r c = Inr 1"
proof -
  obtain r where r: "acquire newRegistry = (Inr (PublishToken 0), r)" using acquire_new by blast
  then show ?thesis using acquire_exclusive_correct [OF new_exact] by auto
qed

text \<open>C4: A group \<open>acquire\<close> that returns hands out a token that was not live. If the group
  already has a channel the token joins it and its count of users grows by one; otherwise the token
  gets a channel that no live token uses and the group points to it. No other group changes.\<close>

theorem acquire_group_correct:
  assumes "reg_exact r" and "acquireGroup g r = (Inr t, r')"
  shows "reg_exact r' \<and> live r t = None \<and>
    (\<exists>c<4. live r' = (live r)(t \<mapsto> c) \<and> groupChannel r' g = Inr c \<and>
      channelModeOf r' c = Inr Shared \<and> users r' c = users r c + 1 \<and>
      (case groupOf r g of Some d \<Rightarrow> c = d | None \<Rightarrow> c \<notin> ran (live r))) \<and>
    (\<forall>h. h \<noteq> g \<longrightarrow> groupOf r' h = groupOf r h)"
proof -
  have inv: "reg_inv r" using assms by (simp add: reg_exact_def)
  from inv assms(2) show ?thesis
  proof (rule acquireGroup_ok)
    fix c assume c: "c < 4" "live r t = None" "live r' = (live r)(t \<mapsto> c)" "groupOf r' g = Some c"
      "groupOf r g = Some c \<or> groupOf r g = None \<and> channelRefCount r ! c = 0"
      "channelMode r' ! c = Shared" "\<And>h. h \<noteq> g \<Longrightarrow> groupOf r' h = groupOf r h"
    have "c \<notin> ran (live r)" if "channelRefCount r ! c = 0"
      using dead_not_used [OF inv that] .
    moreover have "groupChannel r' g = Inr c"
      using c(4) by (auto simp: groupOf_def groupChannel_def kMaxGroups_def split: if_splits)
    ultimately show ?thesis
      using c acquireGroup_exact [OF assms] users_upd [OF c(2,3), of c]
      by (auto simp: channelModeOf_def kMaxChannels_def intro!: exI [of _ c] split: option.splits)
  qed
qed

lemma acquireGroup_new:
  "\<exists>r. acquireGroup Group0 newRegistry = (Inr (PublishToken 0), r) \<and> nextToken r = 1 \<and>
     freeTokenCount r = 0 \<and> freeChannelCount r = 3"
  by (simp add: acquireGroup_def popFreeChannel_def modify_def and_then_def allocateToken_def
      newRegistry_def setChannel_def registry_consts Let_def bindToken_def)

text \<open>Repeated acquisitions by one group take the token slots one after the other.\<close>

lemma acquireGroup_next:
  assumes "reg_exact r" and "groupOf r g = Some c" and "freeTokenCount r = 0" and "nextToken r < 256"
  obtains r' where "acquireGroup g r = (Inr (PublishToken (nextToken r)), r')"
    "reg_exact r'" "groupOf r' g = Some c" "freeTokenCount r' = 0" "nextToken r' = nextToken r + 1"
    "live r' = (live r)(PublishToken (nextToken r) \<mapsto> c)" "freeChannelCount r' = freeChannelCount r"
proof -
  have inv: "reg_inv r" using assms(1) by (simp add: reg_exact_def)
  obtain r' where r': "acquireGroup g r = (Inr (PublishToken (nextToken r)), r')"
    "freeTokenCount r' = 0" "nextToken r' = nextToken r + 1" "freeChannelCount r' = freeChannelCount r"
    using acquireGroup_join [OF inv assms(2)] assms(3,4)
    by (simp add: allocateToken_def bindToken_def setChannel_def Let_def kMaxBindings_def)
  from inv r'(1) obtain d where d: "groupOf r' g = Some d" "groupOf r g = Some d \<or> groupOf r g = None"
    "live r' = (live r)(PublishToken (nextToken r) \<mapsto> d)"
    by (rule acquireGroup_ok) blast
  with assms(2) have "d = c" by auto
  with d acquireGroup_exact [OF assms(1) r'(1)] r' show thesis by (intro that [of r']) simp_all
qed

text \<open>A group may take all token slots: \<open>n\<close> calls give the tokens \<open>0, \<dots>, n - 1\<close>.\<close>

lemma fill_group:
  "0 < n \<Longrightarrow> n \<le> 256 \<Longrightarrow> \<exists>r. snd (reg_run (replicate n (AcquireGroup Group0)) newRegistry) = r \<and>
     reg_exact r \<and> groupOf r Group0 \<noteq> None \<and> freeTokenCount r = 0 \<and> nextToken r = n \<and>
     freeChannelCount r = 3"
proof (induction n)
  case 0
  then show ?case by simp
next
  case (Suc n)
  show ?case
  proof (cases "n = 0")
    case True
    obtain r where r: "acquireGroup Group0 newRegistry = (Inr (PublishToken 0), r)" "nextToken r = 1"
      "freeTokenCount r = 0" "freeChannelCount r = 3" using acquireGroup_new by blast
    have inv: "reg_inv newRegistry" using new_exact by (simp add: reg_exact_def)
    obtain c where "groupOf r Group0 = Some c" using inv r(1) by (rule acquireGroup_ok)
    with r acquireGroup_exact [OF new_exact r(1)] show ?thesis by (simp add: True)
  next
    case False
    with Suc obtain r c where r: "snd (reg_run (replicate n (AcquireGroup Group0)) newRegistry) = r"
      "reg_exact r" "groupOf r Group0 = Some c" "freeTokenCount r = 0" "nextToken r = n"
      "freeChannelCount r = 3" by auto
    have "nextToken r < 256" using Suc.prems r(5) by simp
    with r(2-4) obtain r' where "acquireGroup Group0 r = (Inr (PublishToken (nextToken r)), r')"
      "reg_exact r'" "groupOf r' Group0 = Some c" "freeTokenCount r' = 0" "nextToken r' = nextToken r + 1"
      "freeChannelCount r' = freeChannelCount r"
      by (rule acquireGroup_next)
    with r(1,5,6) show ?thesis by (auto simp: replicate_Suc_snoc reg_run_snoc simp del: replicate_Suc)
  qed
qed

theorem acquire_group_correct_witness:
  "\<exists>r. acquireGroup Group0 newRegistry = (Inr (PublishToken 0), r) \<and> reg_exact r \<and>
     live newRegistry (PublishToken 0) = None"
proof -
  obtain r where r: "acquireGroup Group0 newRegistry = (Inr (PublishToken 0), r)"
    using acquireGroup_new by blast
  then show ?thesis using acquire_group_correct [OF new_exact r] by blast
qed

text \<open>C5: Releasing a live token frees exactly that token and takes one from the reference count of its channel and
  from no other.  The channel is free afterwards exactly when its count has reached zero, and then no group points to it.
  While the counts are exact that is when its last user is released; an acquisition that throws for lack of tokens
  leaves a count too high.  Releasing a token that is not live throws and changes nothing.\<close>

theorem release_correct:
  assumes "reg_inv r"
  shows "case live r t of
      Some c \<Rightarrow> (\<exists>r'. release t r = (Inr (), r') \<and> reg_inv r' \<and> live r' = (live r)(t := None) \<and>
                  channelRefCount r' = (channelRefCount r)[c := channelRefCount r ! c - 1] \<and> 0 < channelRefCount r ! c \<and>
                  (c \<in> set (channelStack r') \<longleftrightarrow> channelRefCount r ! c = 1) \<and>
                  (\<forall>d. d \<noteq> c \<longrightarrow> (d \<in> set (channelStack r') \<longleftrightarrow> d \<in> set (channelStack r))) \<and>
                  (channelRefCount r ! c = 1 \<longrightarrow> (\<forall>g. groupOf r' g \<noteq> Some c)) \<and>
                  (reg_exact r \<longrightarrow> reg_exact r' \<and> (users r c = 1 \<longleftrightarrow> c \<in> set (channelStack r'))))
    | None \<Rightarrow> release t r = (Inl (Runtime_error (if token_value t < nextToken r
                 then ''Attempt to release already free token''
                 else ''Attempt to release invalid token'')), r)"
proof (cases "live r t")
  case None
  then show ?thesis by (simp add: release_not_live isValidToken_def)
next
  case (Some c)
  note inv = assms
  let ?r' = "dropToken t r"
  note rl = release_ok [OF inv Some]
  have c: "c < 4" "0 < channelRefCount r ! c" using live_bound [OF inv Some] live_ref_pos [OF inv Some] by simp_all
  have cnt: "channelRefCount ?r' = (channelRefCount r)[c := channelRefCount r ! c - 1]"
    by (rule drop_fields(1) [OF Some])
  have len: "length (channelRefCount r) = 4" using inv by (simp add: reg_inv_def shape_ok_def)
  have st: "set (channelStack q) = {d. d < 4 \<and> channelRefCount q ! d = 0}" if "reg_inv q" for q
    using that by (simp add: reg_inv_def channels_ok_def)
  have freed: "c \<in> set (channelStack ?r') \<longleftrightarrow> channelRefCount r ! c = 1"
  proof -
    have "channelRefCount ?r' ! c = channelRefCount r ! c - 1" using c(1) len by (simp add: cnt)
    then have "c \<in> set (channelStack ?r') \<longleftrightarrow> channelRefCount r ! c - 1 = 0" using c(1) by (simp only: st [OF rl(2)]) simp
    also have "... \<longleftrightarrow> channelRefCount r ! c = 1" using c(2) by linarith
    finally show ?thesis .
  qed
  have others: "d \<in> set (channelStack ?r') \<longleftrightarrow> d \<in> set (channelStack r)" if "d \<noteq> c" for d
    using that by (simp only: st [OF rl(2)] st [OF inv] cnt) simp
  have groups: "groupOf ?r' g \<noteq> Some c" if "channelRefCount r ! c = 1" for g
  proof
    assume "groupOf ?r' g = Some c"
    then have "0 < channelRefCount ?r' ! c" using groupOf_live [OF rl(2)] by blast
    then show False using that c(1) len by (simp add: cnt)
  qed
  have "users r c = 1 \<longleftrightarrow> c \<in> set (channelStack ?r')" if "reg_exact r"
    using that c(1) freed by (simp add: reg_exact_def)
  then have "reg_exact r \<longrightarrow> reg_exact ?r' \<and> (users r c = 1 \<longleftrightarrow> c \<in> set (channelStack ?r'))"
    using release_exact [OF _ Some] by blast
  with rl cnt c(2) freed others groups show ?thesis unfolding Some option.case by blast
qed

theorem release_correct_witness:
  "\<exists>r r'. acquire newRegistry = (Inr (PublishToken 0), r) \<and>
     release (PublishToken 0) r = (Inr (), r') \<and> live r' = Map.empty"
proof -
  obtain r where r: "acquire newRegistry = (Inr (PublishToken 0), r)" using acquire_new by blast
  have inv: "reg_inv newRegistry" using new_exact by (simp add: reg_exact_def)
  obtain c where "live r = [PublishToken 0 \<mapsto> c]"
    using inv r by (rule acquire_ok) (simp add: live_new)
  moreover have "reg_inv r" using acquire_exact [OF new_exact r] by (simp add: reg_exact_def)
  ultimately show ?thesis using r release_correct [of r "PublishToken 0"] by auto
qed

text \<open>Two different live tokens write to the same channel only if that channel is in shared
  mode and belongs to a group; so the channel of a token in exclusive mode is its own.\<close>

theorem channels_shared_only_in_groups:
  assumes "reg_exact r" and "resolve r s = Inr c" and "resolve r t = Inr c" and "s \<noteq> t"
  shows "channelModeOf r c = Inr Shared \<and> (\<exists>g. groupOf r g = Some c)"
proof -
  have inv: "reg_inv r" using assms(1) by (simp add: reg_exact_def)
  have s: "live r s = Some c" and t: "live r t = Some c"
    using assms(2,3) by (simp_all add: resolve_live)
  have c: "c < 4" using live_bound [OF inv s] by simp
  have "{s, t} \<subseteq> {k. live r k = Some c}" using s t by auto
  then have "card {s, t} \<le> users r c"
    unfolding users_def count_val_def by (intro card_mono finite_count_val finite_live)
  then have two: "2 \<le> channelRefCount r ! c"
    using assms(1,4) c by (simp add: reg_exact_def)
  then have md: "channelMode r ! c = Shared"
    using inv c by (cases "channelMode r ! c") (auto simp: reg_inv_def channels_ok_def)
  have "\<forall>c<4. channelRefCount r ! c > 0 \<longrightarrow> channelMode r ! c = Shared \<longrightarrow> (\<exists>g<4. groupToChannel r ! g = c)"
    using inv by (simp add: reg_inv_def groups_ok_def)
  then obtain g where "g < 4" "groupToChannel r ! g = c" using c two md by force
  moreover obtain G where "G \<noteq> Count" "toIndex G = g"
    using ex_group_index \<open>g < 4\<close> by blast
  ultimately have "groupOf r G = Some c" using c by (auto simp: groupOf_def kNoChannel_def)
  then show ?thesis using md c by (auto simp: channelModeOf_def kMaxChannels_def)
qed

text \<open>Two tokens of group 0, for the witness.\<close>

lemma two_in_group:
  obtains r c where "reg_exact r" "resolve r (PublishToken 0) = Inr c" "resolve r (PublishToken 1) = Inr c"
proof -
  obtain r where r: "acquireGroup Group0 newRegistry = (Inr (PublishToken 0), r)" "nextToken r = 1"
    "freeTokenCount r = 0" using acquireGroup_new by blast
  have ex: "reg_exact r" by (rule acquireGroup_exact [OF new_exact r(1)])
  have inv: "reg_inv newRegistry" using new_exact by (simp add: reg_exact_def)
  obtain d where d: "live r = [PublishToken 0 \<mapsto> d]" "groupOf r Group0 = Some d"
    using inv r(1) by (rule acquireGroup_ok) (simp add: live_new)
  have "nextToken r < 256" using r(2) by simp
  with ex d(2) r(3) obtain r' where r': "reg_exact r'"
    "live r' = (live r)(PublishToken (nextToken r) \<mapsto> d)"
    by (rule acquireGroup_next)
  have "live r' (PublishToken 0) = Some d" "live r' (PublishToken 1) = Some d"
    unfolding r'(2) d(1) r(2) by simp_all
  then show thesis using that [of r' d] r'(1) by (simp add: resolve_live)
qed

theorem channels_shared_only_in_groups_witness:
  "\<exists>r c. reg_exact r \<and> resolve r (PublishToken 0) = Inr c \<and> resolve r (PublishToken 1) = Inr c \<and>
     channelModeOf r c = Inr Shared"
proof -
  obtain r c where r: "reg_exact r" "resolve r (PublishToken 0) = Inr c" "resolve r (PublishToken 1) = Inr c"
    by (rule two_in_group)
  then show ?thesis using channels_shared_only_in_groups [OF r] by auto
qed

text \<open>\<open>acquire\<close> is not exception safe. When all token slots are taken but a channel is
  free, the call throws after it has taken the channel: the channel leaves the free stack although
  no token uses it, so the reference counts are no longer exact, and no later \<open>release\<close> gives it
  back.\<close>

theorem acquire_throw_leaks_channel:
  assumes "reg_exact r" and "freeTokenCount r = 0" and "nextToken r = kMaxBindings"
    and "0 < freeChannelCount r"
  shows "\<exists>c r'. acquire r = (Inl (Runtime_error ''TokenRegistry capacity exceeded''), r') \<and>
      live r' = live r \<and> c \<in> set (channelStack r) \<and> c \<notin> set (channelStack r') \<and>
      users r' c = 0 \<and> channelRefCount r' ! c = 1 \<and> \<not> reg_exact r' \<and>
      (\<forall>t. c \<notin> set (channelStack (snd (release t r'))))"
proof -
  have inv: "reg_inv r" using assms(1) by (simp add: reg_exact_def)
  obtain c r1 where pop: "popFreeChannel r = (Inr c, r1)"
    using assms(4) by (simp add: popFreeChannel_def Let_def)
  note p = pop_ok [OF inv pop]
  let ?r = "setChannel c 1 Exclusive r1"
  note cl = claim_exclusive [OF inv pop]
  have al: "allocateToken c ?r = (Inl (Runtime_error ''TokenRegistry capacity exceeded''), ?r)"
    using assms(2,3) by (simp add: allocateToken_def p(5) setChannel_def)
  have u0: "users ?r c = 0" using users_zero [OF inv p(1,2)] cl(2) by (simp add: users_def)
  have st: "c \<notin> set (channelStack ?r)" using p(4) by (simp add: channelStack_def setChannel_def)
  have "c \<notin> set (channelStack (snd (release t ?r)))" for t
  proof (cases "live ?r t")
    case None
    then show ?thesis using st by (simp add: release_not_live)
  next
    case (Some d)
    have "d \<noteq> c" using Some u0 count_val_pos [OF finite_live Some] by (auto simp: users_def)
    then have "channelRefCount (dropToken t ?r) ! c \<noteq> 0"
      using cl(3) drop_fields(1) [OF Some] by simp
    then show ?thesis
      using release_ok [OF cl(1) Some] by (simp add: reg_inv_def channels_ok_def)
  qed
  moreover have "\<not> reg_exact ?r" using u0 cl(3) p(1) by (auto simp: reg_exact_def)
  moreover have "c \<in> set (channelStack r)" using p(3) by simp
  ultimately show ?thesis
    using pop al cl(2,3) u0 st by (intro exI [of _ c] exI [of _ ?r]) (simp add: acquire_eq)
qed

text \<open>The situation is reachable: one group takes all 256 tokens and three channels stay free.\<close>

lemma full_registry:
  obtains r where "r = snd (reg_run (replicate 256 (AcquireGroup Group0)) newRegistry)" "reg_exact r"
    "freeTokenCount r = 0" "nextToken r = 256" "0 < freeChannelCount r"
  using fill_group [of 256] by auto

theorem acquire_throw_leaks_channel_witness:
  "\<exists>c r'. acquire (snd (reg_run (replicate 256 (AcquireGroup Group0)) newRegistry)) =
      (Inl (Runtime_error ''TokenRegistry capacity exceeded''), r') \<and>
     users r' c = 0 \<and> channelRefCount r' ! c = 1"
proof -
  obtain r where r: "r = snd (reg_run (replicate 256 (AcquireGroup Group0)) newRegistry)" "reg_exact r"
    "freeTokenCount r = 0" "nextToken r = 256" "0 < freeChannelCount r" by (rule full_registry)
  show ?thesis
    using acquire_throw_leaks_channel [OF r(2,3) _ r(5)] r(4) unfolding r(1) [symmetric]
    by (auto simp: kMaxBindings_def)
qed

end
