(* ===== verification/Cpp_String.thy ===== *)
theory Cpp_String
  imports Prelude
begin

text \<open>
  The parts of the C++ standard library's strings and number conversions that the code uses:
  \<open>find\<close>, \<open>substr\<close>, decimal output of unsigned integers, \<open>setw\<close>/\<open>setfill\<close>,
  \<open>stoull\<close> and \<open>stoi\<close>. A string is a list of bytes; \<open>npos\<close> is \<open>None\<close>.
\<close>

subsection \<open>Searching\<close>

fun find_at :: "string \<Rightarrow> string \<Rightarrow> nat option" where
  "find_at pat [] = (if pat = [] then Some 0 else None)"
| "find_at pat (c # s) =
     (if take (length pat) (c # s) = pat then Some 0 else map_option Suc (find_at pat s))"

definition str_find :: "string \<Rightarrow> string \<Rightarrow> nat \<Rightarrow> nat option" where
  "str_find pat s pos =
     (if pos \<le> length s then map_option (\<lambda>i. pos + i) (find_at pat (drop pos s)) else None)"

text \<open>\<open>substr\<close> for a start within the string, the only calls the code makes.\<close>

definition substr :: "string \<Rightarrow> nat \<Rightarrow> nat \<Rightarrow> string" where
  "substr s pos n = take n (drop pos s)"

lemma find_at_match: "find_at pat s = Some i \<Longrightarrow> take (length pat) (drop i s) = pat \<and> i + length pat \<le> length s"
proof (induction s arbitrary: i)
  case Nil
  then show ?case by (auto split: if_splits)
next
  case (Cons c s)
  show ?case
  proof (cases "take (length pat) (c # s) = pat")
    case True
    then have "length pat \<le> length (c # s)" by (metis length_take min.cobounded1)
    with True Cons.prems show ?thesis by simp
  next
    case False
    with Cons show ?thesis by auto
  qed
qed

lemma find_at_first: "find_at pat s = Some i \<Longrightarrow> j < i \<Longrightarrow> take (length pat) (drop j s) \<noteq> pat"
proof (induction s arbitrary: i j)
  case Nil
  then show ?case by (auto split: if_splits)
next
  case (Cons c s)
  then show ?case by (cases j) (auto split: if_splits)
qed

lemma all_le_Suc: "(\<forall>j \<le> Suc n. P j) \<longleftrightarrow> P 0 \<and> (\<forall>j \<le> n. P (Suc j))"
proof
  assume r: "P 0 \<and> (\<forall>j \<le> n. P (Suc j))"
  show "\<forall>j \<le> Suc n. P j"
  proof (intro allI impI)
    fix j assume "j \<le> Suc n"
    with r show "P j" by (cases j) auto
  qed
qed auto

lemma find_at_None: "find_at pat s = None \<longleftrightarrow> (\<forall>j \<le> length s. take (length pat) (drop j s) \<noteq> pat)"
proof (induction s)
  case Nil
  then show ?case by auto
next
  case (Cons c s)
  then show ?case using all_le_Suc [of "length s" "\<lambda>j. take (length pat) (drop j (c # s)) \<noteq> pat"] by auto
qed

lemma str_find_bounds: "str_find pat s pos = Some i \<Longrightarrow> pos \<le> i \<and> i + length pat \<le> length s"
  using find_at_match [of pat "drop pos s" "i - pos"] by (auto simp: str_find_def split: if_splits)

text \<open>A block of characters none of which begins the pattern is skipped.\<close>

lemma find_at_skip:
  "pat = p # ps \<Longrightarrow> p \<notin> set u \<Longrightarrow> find_at pat (u @ v) = map_option (\<lambda>i. length u + i) (find_at pat v)"
  by (induction u; cases "find_at pat v") auto

lemma find_at_char: "find_at [c] s = (if c \<in> set s then Some (length (takeWhile (\<lambda>x. x \<noteq> c) s)) else None)"
  by (induction s) auto

subsection \<open>Decimal output\<close>

definition digit_char :: "nat \<Rightarrow> char" where
  "digit_char d = ''0123456789'' ! d"

definition is_digit :: "char \<Rightarrow> bool" where
  "is_digit c \<longleftrightarrow> c \<in> set ''0123456789''"

definition digit_val :: "char \<Rightarrow> nat" where
  "digit_val c = length (takeWhile (\<lambda>x. x \<noteq> c) ''0123456789'')"

fun dec :: "nat \<Rightarrow> string" where
  "dec n = (if n < 10 then [digit_char n] else dec (n div 10) @ [digit_char (n mod 10)])"

declare dec.simps [simp del]

text \<open>\<open>setfill(c) << setw(w)\<close> pads on the left.\<close>

definition pad_left :: "char \<Rightarrow> nat \<Rightarrow> string \<Rightarrow> string" where
  "pad_left c w s = replicate (w - length s) c @ s"

lemma less_10_cases:
  fixes d :: nat
  assumes "d < 10"
  obtains "d = 0" | "d = 1" | "d = 2" | "d = 3" | "d = 4" | "d = 5" | "d = 6" | "d = 7" | "d = 8" | "d = 9"
proof -
  have "d = 0 \<or> d = 1 \<or> d = 2 \<or> d = 3 \<or> d = 4 \<or> d = 5 \<or> d = 6 \<or> d = 7 \<or> d = 8 \<or> d = 9"
    using assms by arith
  then show thesis using that by blast
qed

lemma digit_char_digit [simp]: "d < 10 \<Longrightarrow> is_digit (digit_char d)"
  by (erule less_10_cases) (simp_all add: is_digit_def digit_char_def)

lemma digit_val_char [simp]: "d < 10 \<Longrightarrow> digit_val (digit_char d) = d"
  by (erule less_10_cases) (simp_all add: digit_val_def digit_char_def)

lemma dec_digits: "c \<in> set (dec n) \<Longrightarrow> is_digit c"
proof (induction n rule: dec.induct)
  case (1 n)
  then show ?case by (subst (asm) (2) dec.simps) (auto split: if_splits)
qed

lemma dec_nonempty [simp]: "dec n \<noteq> []"
  by (subst dec.simps) simp

lemma dec_length: "n < 10 ^ k \<Longrightarrow> 0 < k \<Longrightarrow> length (dec n) \<le> k"
proof (induction n arbitrary: k rule: dec.induct)
  case (1 n)
  show ?case
  proof (cases "n < 10")
    case True
    with "1.prems" show ?thesis by (subst dec.simps) simp
  next
    case False
    then obtain j where k: "k = Suc j" "0 < j" using "1.prems" by (cases k; cases "k - 1") auto
    then have "n div 10 < 10 ^ j" using "1.prems" by (simp add: less_mult_imp_div_less mult.commute)
    with "1.IH" False k show ?thesis by (subst dec.simps) simp
  qed
qed

subsection \<open>Number input\<close>

definition is_space :: "char \<Rightarrow> bool" where
  "is_space c \<longleftrightarrow> c \<in> {CHR '' '', CHR 0x09, CHR 0x0A, CHR 0x0B, CHR 0x0C, CHR 0x0D}"

definition dec_val :: "string \<Rightarrow> nat" where
  "dec_val ds = foldl (\<lambda>n c. 10 * n + digit_val c) 0 ds"

text \<open>White space, an optional sign, digits: what \<open>strtoull\<close> and \<open>strtol\<close> read in base 10.\<close>

definition scan_number :: "string \<Rightarrow> (bool \<times> nat) option" where
  "scan_number s =
     (let s1 = dropWhile is_space s;
          neg = (s1 \<noteq> [] \<and> hd s1 = CHR ''-'');
          s2 = (if s1 \<noteq> [] \<and> hd s1 \<in> {CHR ''-'', CHR ''+''} then tl s1 else s1);
          ds = takeWhile is_digit s2
      in if ds = [] then None else Some (neg, dec_val ds))"

definition stoull :: "string \<Rightarrow> nat result" where
  "stoull s =
     (case scan_number s of
        None \<Rightarrow> Inl (Invalid_argument ''stoull'')
      | Some (neg, n) \<Rightarrow> if n \<ge> 2 ^ 64 then Inl (Out_of_range ''stoull'')
                          else Inr (if neg then (2 ^ 64 - n) mod 2 ^ 64 else n))"

definition stoi :: "string \<Rightarrow> int result" where
  "stoi s =
     (case scan_number s of
        None \<Rightarrow> Inl (Invalid_argument ''stoi'')
      | Some (neg, n) \<Rightarrow>
          (let i = (if neg then - int n else int n)
           in if i < - (2 ^ 31) \<or> i \<ge> 2 ^ 31 then Inl (Out_of_range ''stoi'') else Inr i))"

lemma dec_val_append: "dec_val (xs @ [c]) = 10 * dec_val xs + digit_val c"
  by (simp add: dec_val_def)

lemma dec_val_single: "dec_val [c] = digit_val c"
  by (simp add: dec_val_def)

lemma dec_val_dec [simp]: "dec_val (dec n) = n"
proof (induction n rule: dec.induct)
  case (1 n)
  show ?case
  proof (cases "n < 10")
    case True
    then show ?thesis by (subst dec.simps) (simp add: dec_val_single)
  next
    case False
    with 1 show ?thesis by (subst dec.simps) (simp add: dec_val_append)
  qed
qed

lemma digit_not_space: "is_digit c \<Longrightarrow> \<not> is_space c \<and> c \<noteq> CHR ''-'' \<and> c \<noteq> CHR ''+''"
  by (auto simp: is_digit_def is_space_def)

lemma scan_dec: "scan_number (dec n) = Some (False, n)"
proof -
  obtain c cs where c: "dec n = c # cs" by (cases "dec n") auto
  then have d: "is_digit c" using dec_digits [of c n] by simp
  have tw: "takeWhile is_digit (c # cs) = c # cs"
    using dec_digits [of _ n] c by (intro takeWhile_eq_all_conv [THEN iffD2]) auto
  have "dropWhile is_space (c # cs) = c # cs" using digit_not_space [OF d] by simp
  moreover have "dec_val (c # cs) = n" using dec_val_dec [of n] c by simp
  ultimately show ?thesis
    using digit_not_space [OF d] tw unfolding scan_number_def Let_def c by simp
qed

text \<open>Printing and reading back.\<close>

lemma stoull_dec: "n < 2 ^ 64 \<Longrightarrow> stoull (dec n) = Inr n"
  by (simp add: stoull_def scan_dec)

lemma stoi_dec: "n < 2 ^ 31 \<Longrightarrow> stoi (dec n) = Inr (int n)"
  by (simp add: stoi_def scan_dec Let_def)

end
