(* ===== verification/Log_Names.thy ===== *)
theory Log_Names
  imports Cpp_String "HOL-Library.Word"
begin

text \<open>
  \<^verbatim>\<open>modules/common/include/common/log_ids.hpp\<close>, \<^verbatim>\<open>log_ids.def\<close>,
  \<^verbatim>\<open>log_classes.def\<close> and \<^verbatim>\<open>modules/common/src/log_names.cpp\<close>: the class and
  method identifiers of log lines and their names. An enum with a fixed underlying type can hold
  every value of that type (the code converts integers read from text), so the identifiers are
  words; the enumerators are constants. The X-macro tables are lists. A table read out of range is
  undefined behaviour.
\<close>

type_synonym LogClassId = "8 word"
type_synonym MethodId = "16 word"

definition Server_class :: LogClassId where "Server_class = 0"
definition Handler_class :: LogClassId where "Handler_class = 1"

definition log_classes :: "(LogClassId \<times> string) list" where
  "log_classes = [(Server_class, ''Server''), (Handler_class, ''Handler'')]"

definition log_ids :: "(LogClassId \<times> string) list" where
  "log_ids = [(Server_class, ''AddEvent''), (Handler_class, ''Run''),
              (Handler_class, ''terminateThreads''), (Handler_class, ''addEvent''),
              (Handler_class, ''handlingEvent'')]"

definition kClassNames :: "string list" where
  "kClassNames = map snd log_classes"

definition kMethodNames :: "string list" where
  "kMethodNames = map snd log_ids"

definition kMethodClass :: "LogClassId list" where
  "kMethodClass = map fst log_ids"

definition table_get :: "'a list \<Rightarrow> nat \<Rightarrow> 'a result" where
  "table_get xs i = (if i < length xs then Inr (xs ! i) else Inl (Undefined ''std::array index''))"

definition className :: "LogClassId \<Rightarrow> string result" where
  "className c = table_get kClassNames (unat c)"

definition methodName :: "MethodId \<Rightarrow> string result" where
  "methodName m = table_get kMethodNames (unat m)"

definition methodClass :: "MethodId \<Rightarrow> LogClassId result" where
  "methodClass m = table_get kMethodClass (unat m)"

lemmas log_tables = kClassNames_def kMethodNames_def kMethodClass_def log_classes_def log_ids_def

lemma className_ok: "(\<exists>n. className c = Inr n) \<longleftrightarrow> unat c < 2"
  by (simp add: className_def table_get_def log_tables)

lemma methodName_ok: "(\<exists>n. methodName m = Inr n) \<longleftrightarrow> unat m < 5"
  by (simp add: methodName_def table_get_def log_tables)

lemma methodClass_ok: "unat m < 5 \<Longrightarrow> \<exists>c n. methodClass m = Inr c \<and> className c = Inr n"
proof -
  assume m: "unat m < 5"
  have "\<forall>i<5. unat (kMethodClass ! i) < 2"
    by (simp add: log_tables Handler_class_def Server_class_def less_Suc_eq numeral_eq_Suc)
  with m show ?thesis
    using className_ok [of "kMethodClass ! unat m"]
    by (auto simp: methodClass_def table_get_def) (simp add: log_tables)
qed

end
