(* ===== verification/Payloads.thy ===== *)
theory Payloads
  imports Log_Names
begin

text \<open>
  The typed log messages: \<^verbatim>\<open>modules/common/include/common/messages\<close> (message tags,
  severities, the header schema \<^verbatim>\<open>log_payloads.def\<close>, \<open>PayloadBase\<close>) and
  \<^verbatim>\<open>modules/logger/include/logger/registry\<close> (\<open>PayloadRegister\<close>, \<open>Builder\<close>). The
  X-macro schemas are lists of fields; inheritance from \<open>PayloadBase\<close> is record extension. The
  compile-time checks of \<open>Builder\<close> are a run-time \<open>None\<close>: a call the compiler rejects.
\<close>

subsection \<open>Tags, severities, header\<close>

datatype MsgTag = Generic | Request | MsgCount

fun tag_value :: "MsgTag \<Rightarrow> nat" where
  "tag_value Generic = 0"
| "tag_value Request = 1"
| "tag_value MsgCount = 2"

type_synonym Severity = "8 word"

definition Info :: Severity where "Info = 0"
definition Warn :: Severity where "Warn = 1"
definition Error :: Severity where "Error = 2"

definition show_severity :: "Severity \<Rightarrow> string" where
  "show_severity s =
     (if s = Info then ''Info'' else if s = Warn then ''Warn'' else if s = Error then ''Error''
      else ''Unknown('' @ dec (unat s) @ '')'')"

record PayloadBase =
  severity :: Severity
  timestamp :: "64 word"
  thread_id :: "32 word"
  request_id :: "32 word"
  class_id :: "16 word"
  method_id :: "16 word"
  schema_version :: "16 word"

record RequestPayload = PayloadBase +
  req_unique_id :: "64 word"
  path :: string

definition emptyBase :: PayloadBase where
  "emptyBase = \<lparr>severity = 0, timestamp = 0, thread_id = 0, request_id = 0, class_id = 0,
                method_id = 0, schema_version = 0\<rparr>"

definition emptyRequest :: RequestPayload where
  "emptyRequest = \<lparr>severity = 0, timestamp = 0, thread_id = 0, request_id = 0, class_id = 0,
                   method_id = 0, schema_version = 0, req_unique_id = 0, path = []\<rparr>"

text \<open>The fields of \<^verbatim>\<open>log_payloads.def\<close> with their names and their output.\<close>

definition header_schema :: "(string \<times> ('a PayloadBase_scheme \<Rightarrow> string)) list" where
  "header_schema =
     [(''severity'', \<lambda>p. show_severity (severity p)),
      (''timestamp'', \<lambda>p. dec (unat (timestamp p))),
      (''thread_id'', \<lambda>p. dec (unat (thread_id p))),
      (''request_id'', \<lambda>p. dec (unat (request_id p))),
      (''class_id'', \<lambda>p. dec (unat (class_id p))),
      (''method_id'', \<lambda>p. dec (unat (method_id p))),
      (''schema_version'', \<lambda>p. dec (unat (schema_version p)))]"

definition show_fields :: "(string \<times> ('p \<Rightarrow> string)) list \<Rightarrow> 'p \<Rightarrow> string" where
  "show_fields fs p = concat (map (\<lambda>(n, f). n @ ''='' @ f p @ '' '') fs)"

definition print_header :: "MsgTag \<Rightarrow> 'a PayloadBase_scheme \<Rightarrow> string" where
  "print_header tag p = ''[tag='' @ dec (tag_value tag) @ ''] '' @ show_fields header_schema p"

definition request_schema :: "(string \<times> (RequestPayload \<Rightarrow> string)) list" where
  "request_schema = [(''req_unique_id'', \<lambda>p. dec (unat (req_unique_id p))), (''path'', path)]"

text \<open>\<open>debug_impl\<close> of the two payloads of \<open>logger::registry\<close>, and of the global
  \<open>RequestPayload\<close> of \<^verbatim>\<open>traits.hpp\<close>.\<close>

definition generic_debug :: "PayloadBase \<Rightarrow> string" where
  "generic_debug p = print_header Generic p"

definition request_debug :: "RequestPayload \<Rightarrow> string" where
  "request_debug p = print_header Request p"

definition traits_request_debug :: "RequestPayload \<Rightarrow> string" where
  "traits_request_debug p = print_header Request p @ show_fields request_schema p"

subsection \<open>Layout\<close>

text \<open>Size and alignment of the members, and the size of a struct that holds them in order.\<close>

definition align_up :: "nat \<Rightarrow> nat \<Rightarrow> nat" where
  "align_up n a = (if n mod a = 0 then n else n + (a - n mod a))"

definition struct_size :: "(nat \<times> nat) list \<Rightarrow> nat" where
  "struct_size ms = align_up (foldl (\<lambda>off (s, a). align_up off a + s) 0 ms) (Max (set (map snd ms)))"

definition header_layout :: "(nat \<times> nat) list" where
  "header_layout = [(1, 1), (8, 8), (4, 4), (4, 4), (2, 2), (2, 2), (2, 2)]"

definition fields_size :: nat where "fields_size = struct_size header_layout"

definition pad_bytes :: "MsgTag \<Rightarrow> nat" where
  "pad_bytes tag = (if tag = Generic then (if fields_size < 64 then 64 - fields_size else 0) else 0)"

subsection \<open>The registry and the builder\<close>

datatype cpp_val =
    VSeverity Severity
  | VU64 "64 word"
  | VU32 "32 word"
  | VU16 "16 word"
  | VView string
  | VInt int

datatype cpp_type = TSeverity | TU64 | TU32 | TU16 | TView | TInt

fun type_of_val :: "cpp_val \<Rightarrow> cpp_type" where
  "type_of_val (VSeverity _) = TSeverity"
| "type_of_val (VU64 _) = TU64"
| "type_of_val (VU32 _) = TU32"
| "type_of_val (VU16 _) = TU16"
| "type_of_val (VView _) = TView"
| "type_of_val (VInt _) = TInt"

datatype field = FSeverity | FTimestamp | FThread | FRequest | FClass | FMethod | FVersion | FUnique | FPath

fun field_type :: "field \<Rightarrow> cpp_type" where
  "field_type FSeverity = TSeverity"
| "field_type FTimestamp = TU64"
| "field_type FThread = TU32"
| "field_type FRequest = TU32"
| "field_type FClass = TU16"
| "field_type FMethod = TU16"
| "field_type FVersion = TU16"
| "field_type FUnique = TU64"
| "field_type FPath = TView"

text \<open>Assigning through a member pointer; the payload is a \<open>RequestPayload\<close>, of which a
  generic payload uses the base part.\<close>

fun set_field :: "field \<Rightarrow> cpp_val \<Rightarrow> RequestPayload \<Rightarrow> RequestPayload" where
  "set_field FSeverity (VSeverity x) p = p\<lparr>severity := x\<rparr>"
| "set_field FTimestamp (VU64 x) p = p\<lparr>timestamp := x\<rparr>"
| "set_field FThread (VU32 x) p = p\<lparr>thread_id := x\<rparr>"
| "set_field FRequest (VU32 x) p = p\<lparr>request_id := x\<rparr>"
| "set_field FClass (VU16 x) p = p\<lparr>class_id := x\<rparr>"
| "set_field FMethod (VU16 x) p = p\<lparr>method_id := x\<rparr>"
| "set_field FVersion (VU16 x) p = p\<lparr>schema_version := x\<rparr>"
| "set_field FUnique (VU64 x) p = p\<lparr>req_unique_id := x\<rparr>"
| "set_field FPath (VView x) p = p\<lparr>path := x\<rparr>"
| "set_field _ _ p = p"

fun get_field :: "field \<Rightarrow> RequestPayload \<Rightarrow> cpp_val" where
  "get_field FSeverity p = VSeverity (severity p)"
| "get_field FTimestamp p = VU64 (timestamp p)"
| "get_field FThread p = VU32 (thread_id p)"
| "get_field FRequest p = VU32 (request_id p)"
| "get_field FClass p = VU16 (class_id p)"
| "get_field FMethod p = VU16 (method_id p)"
| "get_field FVersion p = VU16 (schema_version p)"
| "get_field FUnique p = VU64 (req_unique_id p)"
| "get_field FPath p = VView (path p)"

definition header_ptrs :: "field list" where
  "header_ptrs = [FSeverity, FTimestamp, FThread, FRequest, FClass, FMethod, FVersion]"

fun field_ptrs :: "MsgTag \<Rightarrow> field list option" where
  "field_ptrs Generic = Some header_ptrs"
| "field_ptrs Request = Some (header_ptrs @ [FUnique, FPath])"
| "field_ptrs MsgCount = None"

definition pack_header_args :: "cpp_val list \<Rightarrow> cpp_val list" where
  "pack_header_args args = args"

fun assign_fields :: "field list \<Rightarrow> cpp_val list \<Rightarrow> RequestPayload \<Rightarrow> RequestPayload" where
  "assign_fields (f # fs) (v # vs) p = assign_fields fs vs (set_field f v p)"
| "assign_fields _ _ p = p"

definition build :: "MsgTag \<Rightarrow> cpp_val list \<Rightarrow> RequestPayload option" where
  "build tag args =
     (case field_ptrs tag of
        None \<Rightarrow> None
      | Some ptrs \<Rightarrow>
          if length ptrs \<noteq> length args then None
          else if map field_type ptrs \<noteq> map type_of_val args then None
          else Some (assign_fields ptrs args emptyRequest))"

text \<open>What the built payload prints: \<open>debug_print\<close> of the payload type of the tag.\<close>

definition debug_print :: "MsgTag \<Rightarrow> RequestPayload \<Rightarrow> string" where
  "debug_print tag p =
     (if tag = Generic then generic_debug (PayloadBase.truncate p) else request_debug p)"

subsection \<open>Lemmas\<close>

lemma pad_generic: "fields_size + pad_bytes Generic = 64"
  by (simp add: pad_bytes_def fields_size_def struct_size_def header_layout_def align_up_def)

lemma get_set_same: "field_type f = type_of_val v \<Longrightarrow> get_field f (set_field f v p) = v"
  by (cases f; cases v) auto

lemma get_set_other: "f \<noteq> g \<Longrightarrow> get_field g (set_field f v p) = get_field g p"
  by (cases f; cases v; cases g) auto

lemma get_assign_other: "g \<notin> set fs \<Longrightarrow> get_field g (assign_fields fs vs p) = get_field g p"
  by (induction fs vs p rule: assign_fields.induct) (auto simp: get_set_other)

lemma get_assign:
  "distinct fs \<Longrightarrow> map field_type fs = map type_of_val vs \<Longrightarrow>
   map (\<lambda>f. get_field f (assign_fields fs vs p)) fs = vs"
  by (induction fs vs p rule: assign_fields.induct) (auto simp: get_set_same get_assign_other)

lemma field_ptrs_distinct: "field_ptrs tag = Some ptrs \<Longrightarrow> distinct ptrs"
  by (cases tag) (auto simp: header_ptrs_def)

subsection \<open>Properties\<close>

text \<open>C13: \<open>Builder::build\<close> accepts exactly the argument tuples whose types are those of the
  tag's registered fields, in order, and the payload it returns holds in each registered field the
  argument given for it.\<close>

theorem build_correct:
  "(build tag args \<noteq> None \<longleftrightarrow>
      (\<exists>ptrs. field_ptrs tag = Some ptrs \<and> map type_of_val args = map field_type ptrs)) \<and>
   (\<forall>p ptrs. build tag args = Some p \<longrightarrow> field_ptrs tag = Some ptrs \<longrightarrow>
      map (\<lambda>f. get_field f p) ptrs = args)"
proof -
  have len: "length ptrs = length args" if "map field_type ptrs = map type_of_val args" for ptrs
    using that by (metis length_map)
  have "map (\<lambda>f. get_field f p) ptrs = args" if "build tag args = Some p" "field_ptrs tag = Some ptrs" for p ptrs
    using that get_assign [OF field_ptrs_distinct [OF that(2)], of args emptyRequest]
    by (auto simp: build_def split: if_splits)
  moreover have "build tag args \<noteq> None \<longleftrightarrow>
      (\<exists>ptrs. field_ptrs tag = Some ptrs \<and> map type_of_val args = map field_type ptrs)"
  proof (cases "field_ptrs tag")
    case (Some ptrs)
    then show ?thesis using len [of ptrs] by (auto simp: build_def)
  qed (simp add: build_def)
  ultimately show ?thesis by blast
qed

theorem build_correct_witness:
  "\<exists>p. build Generic [VSeverity Warn, VU64 5, VU32 1, VU32 2, VU16 0, VU16 3, VU16 1] = Some p \<and>
     get_field FMethod p = VU16 3 \<and> get_field FSeverity p = VSeverity Warn"
proof -
  let ?args = "[VSeverity Warn, VU64 5, VU32 1, VU32 2, VU16 0, VU16 3, VU16 1]"
  have "build Generic ?args \<noteq> None"
    using build_correct [of Generic ?args] by (simp add: header_ptrs_def)
  then obtain p where p: "build Generic ?args = Some p" by blast
  then show ?thesis using build_correct [of Generic ?args] by (simp add: header_ptrs_def)
qed

end

