(* ===== verification/Text_Sink.thy ===== *)
theory Text_Sink
  imports Payloads
begin

text \<open>
  \<^verbatim>\<open>modules/publisher/src/sink_publisher.cpp\<close> and
  \<^verbatim>\<open>modules/publisher/include/publisher/sink_publisher.hpp\<close>: the two sinks that turn a log
  line into its output. \<open>TextSink\<close> rewrites the numbers after \<open>timestamp=\<close>, \<open>class_id=\<close> and
  \<open>method_id=\<close>. The loop works on positions of the line, as the code does; \<open>format_suffix\<close> is
  the same rewriting on the rest of the line, and the two agree.

  The broken-down local time depends on the host's time zone: \<open>std::put_time\<close> of
  \<open>std::localtime\<close> is the parameter \<open>lt\<close>, a function of the seconds since the epoch.
  \<open>system_clock\<close> counts nanoseconds in a signed 64-bit integer, as in libstdc++.
\<close>

subsection \<open>Time stamps\<close>

definition to_signed64 :: "nat \<Rightarrow> int" where
  "to_signed64 n = (if n < 2 ^ 63 then int n else int n - 2 ^ 64)"

text \<open>\<open>to_time_t(time_point{duration_cast<nanoseconds>(microseconds{us})})\<close>; the
  multiplication is undefined where it overflows, the division truncates towards zero.\<close>

definition time_t_of_us :: "nat \<Rightarrow> int result" where
  "time_t_of_us us =
     (let ns = to_signed64 us * 1000 in
      if ns < - (2 ^ 63) \<or> ns \<ge> 2 ^ 63 then Inl (Undefined ''signed overflow in duration_cast'')
      else Inr (if ns < 0 then - (- ns div 1000000000) else ns div 1000000000))"

definition format_timestamp_us :: "(int \<Rightarrow> string) \<Rightarrow> nat \<Rightarrow> string result" where
  "format_timestamp_us lt us =
     (case time_t_of_us us of
        Inl e \<Rightarrow> Inl e
      | Inr t \<Rightarrow> Inr (lt t @ ''.'' @ pad_left CHR ''0'' 6 (dec (us mod 1000000))))"

subsection \<open>The rewriting of one number\<close>

definition show_timestamp :: "(int \<Rightarrow> string) \<Rightarrow> string \<Rightarrow> string result" where
  "show_timestamp lt s = (case stoull s of Inl e \<Rightarrow> Inl e | Inr us \<Rightarrow> format_timestamp_us lt us)"

definition show_class :: "string \<Rightarrow> string result" where
  "show_class s = (case stoi s of Inl e \<Rightarrow> Inl e | Inr i \<Rightarrow> className (word_of_int i))"

definition show_method :: "string \<Rightarrow> string result" where
  "show_method s = (case stoi s of Inl e \<Rightarrow> Inl e | Inr i \<Rightarrow> methodName (word_of_int i))"

subsection \<open>The sinks\<close>

definition JsonSink_format :: "string \<Rightarrow> string" where
  "JsonSink_format line = ''JsonTest'' @ line"

text \<open>\<open>a < b\<close> on positions where \<open>npos\<close> is the largest value.\<close>

fun pos_less :: "nat option \<Rightarrow> nat option \<Rightarrow> bool" where
  "pos_less (Some a) (Some b) = (a < b)"
| "pos_less (Some a) None = True"
| "pos_less None _ = False"

definition number_end :: "string \<Rightarrow> nat \<Rightarrow> nat" where
  "number_end line num_start =
     (case str_find '' '' line num_start of None \<Rightarrow> length line | Some e \<Rightarrow> e)"

lemma number_end_ge: "num_start \<le> length line \<Longrightarrow> num_start \<le> number_end line num_start"
  by (auto simp: number_end_def split: option.splits dest: str_find_bounds)

lemma number_end_progress:
  assumes "str_find pat line pos = Some p" and "length pat = n" and "0 < n"
  shows "pos < length line \<and> pos < number_end line (p + n)"
  using str_find_bounds [OF assms(1)] number_end_ge [of "p + n" line] assms(2,3) by linarith

lemma progress_10:
  "str_find pat line pos \<noteq> None \<Longrightarrow> length pat = 10 \<Longrightarrow>
   length line - number_end line (the (str_find pat line pos) + 10) < length line - pos"
  using number_end_progress [of pat line pos _ 10] by (auto intro: diff_less_mono2)

lemma progress_9:
  "str_find pat line pos \<noteq> None \<Longrightarrow> length pat = 9 \<Longrightarrow>
   length line - number_end line (the (str_find pat line pos) + 9) < length line - pos"
  using number_end_progress [of pat line pos _ 9] by (auto intro: diff_less_mono2)

function format_loop :: "(int \<Rightarrow> string) \<Rightarrow> string \<Rightarrow> nat \<Rightarrow> string \<Rightarrow> string result" where
  "format_loop lt line pos result =
     (if pos < length line then
        let ts_pos = str_find ''timestamp='' line pos in
        if ts_pos \<noteq> None then
          let p = the ts_pos; num_start = p + 10; num_end = number_end line num_start in
          (case show_timestamp lt (substr line num_start (num_end - num_start)) of
             Inl e \<Rightarrow> Inl e
           | Inr s \<Rightarrow> format_loop lt line num_end
               (result @ substr line pos (p - pos) @ ''timestamp='' @ s))
        else
        let class_pos = str_find ''class_id='' line pos in
        if class_pos \<noteq> None \<and> (ts_pos = None \<or> pos_less class_pos ts_pos) then
          let p = the class_pos; num_start = p + 9; num_end = number_end line num_start in
          (case show_class (substr line num_start (num_end - num_start)) of
             Inl e \<Rightarrow> Inl e
           | Inr s \<Rightarrow> format_loop lt line num_end
               (result @ substr line pos (p - pos) @ ''class_id='' @ s))
        else
        let method_pos = str_find ''method_id='' line pos in
        if method_pos \<noteq> None \<and> (ts_pos = None \<or> pos_less method_pos ts_pos) \<and>
           (class_pos = None \<or> pos_less method_pos class_pos) then
          let p = the method_pos; num_start = p + 10; num_end = number_end line num_start in
          (case show_method (substr line num_start (num_end - num_start)) of
             Inl e \<Rightarrow> Inl e
           | Inr s \<Rightarrow> format_loop lt line num_end
               (result @ substr line pos (p - pos) @ ''method_id='' @ s))
        else Inr (result @ drop pos line)
      else Inr result)"
  by pat_completeness auto

termination
proof (relation "measure (\<lambda>(lt, line, pos, result). length line - pos)", goal_cases)
  case 1
  show ?case by simp
next
  case (2 lt line pos)
  then show ?case using progress_10 [of "''timestamp=''" line pos] by (simp only: in_measure prod.case) simp
next
  case (3 lt line pos)
  then show ?case using progress_9 [of "''class_id=''" line pos] by (simp only: in_measure prod.case) simp
next
  case (4 lt line pos)
  then show ?case using progress_10 [of "''method_id=''" line pos] by (simp only: in_measure prod.case) simp
qed

declare format_loop.simps [simp del]

definition TextSink_format :: "(int \<Rightarrow> string) \<Rightarrow> string \<Rightarrow> string result" where
  "TextSink_format lt line = format_loop lt line 0 []"

subsection \<open>The same rewriting on the rest of the line\<close>

text \<open>The text before the first occurrence of a marker, the word after it, and what follows.\<close>

definition cut_at :: "string \<Rightarrow> string \<Rightarrow> (string \<times> string \<times> string) option" where
  "cut_at pat s =
     (case find_at pat s of
        None \<Rightarrow> None
      | Some i \<Rightarrow>
          (let r = drop (i + length pat) s
           in Some (take i s, takeWhile (\<lambda>c. c \<noteq> CHR '' '') r, dropWhile (\<lambda>c. c \<noteq> CHR '' '') r)))"

definition prepend :: "string \<Rightarrow> string result \<Rightarrow> string result" where
  "prepend u r = (case r of Inl e \<Rightarrow> Inl e | Inr v \<Rightarrow> Inr (u @ v))"

lemma cut_at_shorter: "cut_at pat s = Some (u, w, r) \<Longrightarrow> pat \<noteq> [] \<Longrightarrow> length r < length s"
proof -
  assume c: "cut_at pat s = Some (u, w, r)" and p: "pat \<noteq> []"
  then obtain i where i: "find_at pat s = Some i"
    and r: "r = dropWhile (\<lambda>c. c \<noteq> CHR '' '') (drop (i + length pat) s)"
    by (auto simp: cut_at_def Let_def split: option.splits)
  have "length r \<le> length (drop (i + length pat) s)" unfolding r by (rule length_dropWhile_le)
  with find_at_match [OF i] p show ?thesis by (cases pat) auto
qed

function format_suffix :: "(int \<Rightarrow> string) \<Rightarrow> string \<Rightarrow> string result" where
  "format_suffix lt s =
     (case cut_at ''timestamp='' s of
        Some (u, w, r) \<Rightarrow>
          (case show_timestamp lt w of
             Inl e \<Rightarrow> Inl e | Inr t \<Rightarrow> prepend (u @ ''timestamp='' @ t) (format_suffix lt r))
      | None \<Rightarrow>
     (case cut_at ''class_id='' s of
        Some (u, w, r) \<Rightarrow>
          (case show_class w of
             Inl e \<Rightarrow> Inl e | Inr t \<Rightarrow> prepend (u @ ''class_id='' @ t) (format_suffix lt r))
      | None \<Rightarrow>
     (case cut_at ''method_id='' s of
        Some (u, w, r) \<Rightarrow>
          (case show_method w of
             Inl e \<Rightarrow> Inl e | Inr t \<Rightarrow> prepend (u @ ''method_id='' @ t) (format_suffix lt r))
      | None \<Rightarrow> Inr s)))"
  by pat_completeness auto

termination
  by (relation "measure (\<lambda>(lt, s). length s)") (auto dest: cut_at_shorter)

declare format_suffix.simps [simp del]

lemma number_end_takeWhile:
  "q \<le> length line \<Longrightarrow>
   number_end line q = q + length (takeWhile (\<lambda>c. c \<noteq> CHR '' '') (drop q line))"
proof (cases "CHR '' '' \<in> set (drop q line)")
  case False
  then have "takeWhile (\<lambda>c. c \<noteq> CHR '' '') (drop q line) = drop q line"
    by (auto simp: takeWhile_eq_all_conv)
  then have "length (takeWhile (\<lambda>c. c \<noteq> CHR '' '') (drop q line)) = length line - q"
    by (metis length_drop)
  moreover assume "q \<le> length line"
  ultimately show ?thesis using False by (simp add: number_end_def str_find_def find_at_char)
qed (simp add: number_end_def str_find_def find_at_char)

lemma cut_drop_None:
  "pos \<le> length line \<Longrightarrow> cut_at pat (drop pos line) = None \<longleftrightarrow> str_find pat line pos = None"
  by (auto simp: cut_at_def str_find_def Let_def split: option.splits)

lemma cut_drop_Some:
  assumes f: "str_find pat line pos = Some p" and n: "n = length pat"
  shows "cut_at pat (drop pos line) =
           Some (substr line pos (p - pos),
                 substr line (p + n) (number_end line (p + n) - (p + n)),
                 drop (number_end line (p + n)) line)
         \<and> number_end line (p + n) \<le> length line"
proof -
  have b: "pos \<le> p" "p + n \<le> length line" using str_find_bounds [OF f] n by auto
  have i: "find_at pat (drop pos line) = Some (p - pos)"
    using f b by (auto simp: str_find_def split: if_splits)
  have "p - pos + length pat + pos = p + n" using b n by simp
  then have d: "drop (p - pos + length pat) (drop pos line) = drop (p + n) line" by simp
  have e: "number_end line (p + n) =
             p + n + length (takeWhile (\<lambda>c. c \<noteq> CHR '' '') (drop (p + n) line))"
    by (rule number_end_takeWhile [OF b(2)])
  have "length (takeWhile (\<lambda>c. c \<noteq> CHR '' '') (drop (p + n) line)) \<le> length (drop (p + n) line)"
    by (rule length_takeWhile_le)
  then have "number_end line (p + n) \<le> length line" using e b by simp
  moreover have "takeWhile (\<lambda>c. c \<noteq> CHR '' '') (drop (p + n) line) =
      substr line (p + n) (number_end line (p + n) - (p + n))"
    by (simp add: e substr_def takeWhile_eq_take [symmetric])
  moreover have "dropWhile (\<lambda>c. c \<noteq> CHR '' '') (drop (p + n) line) =
      drop (number_end line (p + n)) line"
    unfolding e by (simp only: dropWhile_eq_drop drop_drop add.commute)
  ultimately show ?thesis unfolding cut_at_def i Let_def option.case d by (simp add: substr_def)
qed

lemma prepend_prepend: "prepend u (prepend v r) = prepend (u @ v) r"
  by (simp add: prepend_def split: sum.splits)

lemma prepend_simps [simp]: "prepend u (Inl e) = Inl e" "prepend u (Inr v) = Inr (u @ v)"
  by (simp_all add: prepend_def)

lemma format_loop_suffix:
  "pos \<le> length line \<Longrightarrow> format_loop lt line pos result = prepend result (format_suffix lt (drop pos line))"
proof (induction lt line pos result rule: format_loop.induct)
  case (1 lt line pos result)
  show ?case
  proof (cases "pos < length line")
    case False
    with "1.prems" show ?thesis
      by (subst format_loop.simps, subst format_suffix.simps) (simp add: cut_at_def)
  next
    case pos: True
    note none = cut_drop_None [OF "1.prems", THEN iffD2]
    show ?thesis
    proof (cases "str_find ''timestamp='' line pos")
      case (Some p)
      note c = cut_drop_Some [OF Some, of 10, simplified]
      show ?thesis using "1.IH"(1) [OF pos refl _ refl refl refl] Some c pos
        by (subst format_loop.simps, subst format_suffix.simps)
           (simp add: Let_def prepend_prepend split: sum.splits)
    next
      case ts: None
      show ?thesis
      proof (cases "str_find ''class_id='' line pos")
        case (Some p)
        note c = cut_drop_Some [OF Some, of 9, simplified]
        show ?thesis using "1.IH"(2) [OF pos refl _ refl _ refl refl refl] Some c pos ts none
          by (subst format_loop.simps, subst format_suffix.simps)
             (simp add: Let_def prepend_prepend split: sum.splits)
      next
        case cl: None
        show ?thesis
        proof (cases "str_find ''method_id='' line pos")
          case (Some p)
          note c = cut_drop_Some [OF Some, of 10, simplified]
          show ?thesis
            using "1.IH"(3) [OF pos refl _ refl _ refl _ refl refl refl] Some c pos ts cl none
            by (subst format_loop.simps, subst format_suffix.simps)
               (simp add: Let_def prepend_prepend split: sum.splits)
        next
          case None
          with pos ts cl none show ?thesis
            by (subst format_loop.simps, subst format_suffix.simps) (simp add: Let_def)
        qed
      qed
    qed
  qed
qed

subsection \<open>Cutting a line of known shape\<close>

lemma cut_at_Nil: "pat \<noteq> [] \<Longrightarrow> cut_at pat [] = None"
  by (simp add: cut_at_def)

lemma cut_at_Cons:
  "cut_at pat (c # s) =
     (if take (length pat) (c # s) = pat
      then Some ([], takeWhile (\<lambda>c. c \<noteq> CHR '' '') (drop (length pat) (c # s)),
                 dropWhile (\<lambda>c. c \<noteq> CHR '' '') (drop (length pat) (c # s)))
      else map_option (\<lambda>(u, w, r). (c # u, w, r)) (cut_at pat s))"
  by (cases "find_at pat s") (simp_all add: cut_at_def Let_def)

lemma cut_at_skip:
  "p \<notin> set u \<Longrightarrow>
   cut_at (p # ps) (u @ v) = map_option (\<lambda>(u', w, r). (u @ u', w, r)) (cut_at (p # ps) v)"
proof (induction u)
  case Nil
  then show ?case by (cases "cut_at (p # ps) v") auto
next
  case (Cons c u)
  then show ?case by (cases "cut_at (p # ps) v") (auto simp: cut_at_Cons)
qed

lemma cut_at_dec:
  "\<not> is_digit p \<Longrightarrow>
   cut_at (p # ps) (dec n @ v) = map_option (\<lambda>(u', w, r). (dec n @ u', w, r)) (cut_at (p # ps) v)"
  by (rule cut_at_skip) (auto dest: dec_digits)

lemma cut_at_severity:
  "p \<in> {CHR ''t'', CHR ''c'', CHR ''m''} \<Longrightarrow>
   cut_at (p # ps) (show_severity s @ v) =
     map_option (\<lambda>(u', w, r). (show_severity s @ u', w, r)) (cut_at (p # ps) v)"
  by (rule cut_at_skip) (auto simp: show_severity_def is_digit_def dest!: dec_digits)

lemma dec_word: "CHR '' '' \<notin> set (dec n)"
  by (auto simp: is_digit_def dest!: dec_digits)

lemma word_dec:
  assumes "s \<noteq> []" and "hd s = CHR '' ''"
  shows "takeWhile (\<lambda>c. c \<noteq> CHR '' '') (dec n @ s) = dec n"
    and "dropWhile (\<lambda>c. c \<noteq> CHR '' '') (dec n @ s) = s"
proof -
  obtain t where s: "s = CHR '' '' # t" using assms by (cases s) auto
  have "\<forall>c \<in> set (dec n). c \<noteq> CHR '' ''" using dec_word by metis
  then show "takeWhile (\<lambda>c. c \<noteq> CHR '' '') (dec n @ s) = dec n"
    and "dropWhile (\<lambda>c. c \<noteq> CHR '' '') (dec n @ s) = s"
    by (simp_all add: s takeWhile_append2 dropWhile_append2)
qed

lemma not_digits: "\<not> is_digit CHR ''t''" "\<not> is_digit CHR ''c''" "\<not> is_digit CHR ''m''"
  by (simp_all add: is_digit_def)

lemmas cut_simps = cut_at_Nil cut_at_Cons cut_at_dec cut_at_severity word_dec not_digits

lemma show_numbers:
  "show_timestamp lt (dec (unat (t :: 64 word))) = format_timestamp_us lt (unat t)"
  "show_class (dec (unat (c :: 16 word))) = className (ucast c)"
  "show_method (dec (unat c)) = methodName c"
proof -
  have t: "unat t < 2 ^ 64" by (rule less_le_trans [OF unsigned_less]) simp
  have "unat c < 2 ^ 16" by (rule less_le_trans [OF unsigned_less]) simp
  then have c: "unat c < 2 ^ 31" by simp
  have w: "word_of_int (int (unat c)) = (ucast c :: 8 word)" by transfer simp
  show "show_timestamp lt (dec (unat t)) = format_timestamp_us lt (unat t)"
    by (simp only: show_timestamp_def stoull_dec [OF t] sum.case)
  show "show_class (dec (unat c)) = className (ucast c)"
    by (simp only: show_class_def stoi_dec [OF c] sum.case w)
  show "show_method (dec (unat c)) = methodName c"
    by (simp only: show_method_def stoi_dec [OF c] sum.case) simp
qed

text \<open>The three stages of a header line: after the time stamp, after the class, after the method.\<close>

definition method_tail :: "'a PayloadBase_scheme \<Rightarrow> string" where
  "method_tail p = '' schema_version='' @ dec (unat (schema_version p)) @ '' ''"

definition class_tail :: "'a PayloadBase_scheme \<Rightarrow> string" where
  "class_tail p = '' method_id='' @ dec (unat (method_id p)) @ method_tail p"

definition stamp_tail :: "'a PayloadBase_scheme \<Rightarrow> string" where
  "stamp_tail p =
     '' thread_id='' @ dec (unat (thread_id p)) @ '' request_id='' @ dec (unat (request_id p)) @
     '' class_id='' @ dec (unat (class_id p)) @ class_tail p"

lemma header_stages:
  "print_header tag p =
     ''[tag='' @ dec (tag_value tag) @ ''] severity='' @ show_severity (severity p) @
     '' timestamp='' @ dec (unat (timestamp p)) @ stamp_tail p"
  by (simp add: print_header_def show_fields_def header_schema_def stamp_tail_def class_tail_def method_tail_def)


lemma format_method_tail: "format_suffix lt (method_tail p) = Inr (method_tail p)"
  by (subst format_suffix.simps) (simp add: method_tail_def cut_simps)

lemma format_class_tail:
  "format_suffix lt (class_tail p) =
     (case methodName (method_id p) of
        Inl e \<Rightarrow> Inl e | Inr m \<Rightarrow> Inr ('' method_id='' @ m @ method_tail p))"
proof -
  have r: "method_tail p \<noteq> []" "hd (method_tail p) = CHR '' ''" by (simp_all add: method_tail_def)
  have n: "cut_at ''timestamp='' (method_tail p) = None" "cut_at ''class_id='' (method_tail p) = None"
    by (simp_all add: method_tail_def cut_simps)
  have m: "cut_at ''method_id='' (class_tail p) =
             Some ('' '', dec (unat (method_id p)), method_tail p)"
    using r by (simp add: class_tail_def cut_simps)
  have "cut_at ''timestamp='' (class_tail p) = None" "cut_at ''class_id='' (class_tail p) = None"
    by (simp_all add: class_tail_def cut_simps n)
  with m show ?thesis
    by (subst format_suffix.simps)
       (simp add: show_numbers format_method_tail split: sum.splits)
qed


lemma format_stamp_tail:
  "format_suffix lt (stamp_tail p) =
     (case className (ucast (class_id p)) of
        Inl e \<Rightarrow> Inl e
      | Inr c \<Rightarrow>
          prepend ('' thread_id='' @ dec (unat (thread_id p)) @ '' request_id='' @
                   dec (unat (request_id p)) @ '' class_id='' @ c)
                  (format_suffix lt (class_tail p)))"
proof -
  have r: "class_tail p \<noteq> []" "hd (class_tail p) = CHR '' ''" by (simp_all add: class_tail_def)
  have n: "cut_at ''timestamp='' (class_tail p) = None"
    by (simp add: class_tail_def method_tail_def cut_simps)
  have "cut_at ''class_id='' (stamp_tail p) =
          Some ('' thread_id='' @ dec (unat (thread_id p)) @ '' request_id='' @
                dec (unat (request_id p)) @ '' '', dec (unat (class_id p)), class_tail p)"
    using r by (simp add: stamp_tail_def cut_simps)
  moreover have "cut_at ''timestamp='' (stamp_tail p) = None"
    by (simp add: stamp_tail_def cut_simps n)
  ultimately show ?thesis
    by (subst format_suffix.simps) (simp add: show_numbers split: sum.splits)
qed

lemma format_header:
  "format_suffix lt (print_header tag p) =
     (case format_timestamp_us lt (unat (timestamp p)) of
        Inl e \<Rightarrow> Inl e
      | Inr t \<Rightarrow>
          prepend (''[tag='' @ dec (tag_value tag) @ ''] severity='' @ show_severity (severity p) @
                   '' timestamp='' @ t)
                  (format_suffix lt (stamp_tail p)))"
proof -
  have r: "stamp_tail p \<noteq> []" "hd (stamp_tail p) = CHR '' ''" by (simp_all add: stamp_tail_def)
  have "cut_at ''timestamp='' (print_header tag p) =
          Some (''[tag='' @ dec (tag_value tag) @ ''] severity='' @ show_severity (severity p) @ '' '',
                dec (unat (timestamp p)), stamp_tail p)"
    using r by (simp add: header_stages cut_simps)
  then show ?thesis
    by (subst format_suffix.simps) (simp add: show_numbers split: sum.splits)
qed

lemma format_whole: "TextSink_format lt line = format_suffix lt line"
  using format_loop_suffix [of 0 line lt "[]"]
  by (simp add: TextSink_format_def prepend_def split: sum.splits)

text \<open>A line of the header's shape, with its time stamp, class and method written out.\<close>

definition named_header :: "MsgTag \<Rightarrow> 'a PayloadBase_scheme \<Rightarrow> string \<Rightarrow> string \<Rightarrow> string \<Rightarrow> string" where
  "named_header tag p t c m =
     ''[tag='' @ dec (tag_value tag) @ ''] severity='' @ show_severity (severity p) @
     '' timestamp='' @ t @ '' thread_id='' @ dec (unat (thread_id p)) @
     '' request_id='' @ dec (unat (request_id p)) @ '' class_id='' @ c @ '' method_id='' @ m @
     '' schema_version='' @ dec (unat (schema_version p)) @ '' ''"

lemma local_time_total:
  "us < 2 ^ 63 div 1000 \<Longrightarrow>
   format_timestamp_us lt us =
     Inr (lt (int (us div 1000000)) @ ''.'' @ pad_left CHR ''0'' 6 (dec (us mod 1000000)))"
proof -
  assume us: "us < 2 ^ 63 div 1000"
  then have "us < 2 ^ 63" by simp
  moreover from us have "int us * 1000 < 2 ^ 63" by simp
  moreover have "int us * 1000 div 1000000000 = int (us div 1000000)"
    by (simp add: zdiv_int)
  ultimately show ?thesis
    by (simp add: format_timestamp_us_def time_t_of_us_def to_signed64_def)
qed

subsection \<open>Properties\<close>

text \<open>C12: \<open>TextSink::format_impl\<close> terminates and computes the left-to-right rewriting of the
  line: cut at the next \<open>timestamp=\<close>, else at the next \<open>class_id=\<close>, else at the next
  \<open>method_id=\<close>, replace the word that follows, and go on with what is left; the positions the
  loop keeps never skip or repeat a character, and an exception of a number conversion ends it.\<close>

theorem text_sink_rewrites_words: "TextSink_format lt line = format_suffix lt line"
  by (rule format_whole)

text \<open>For every message header, \<open>TextSink\<close> replaces exactly the time stamp, the class
  identifier and the method identifier by their names and keeps everything else. The class
  identifier is first truncated to the 8 bits of \<open>LogClassId\<close>. An identifier that the tables
  do not hold is a read out of the bounds of the table, a time stamp beyond the clock's range is a
  signed overflow.\<close>

theorem text_sink_header:
  "TextSink_format lt (print_header tag p) =
     (case format_timestamp_us lt (unat (timestamp p)) of
        Inl e \<Rightarrow> Inl e
      | Inr t \<Rightarrow> (case className (ucast (class_id p)) of
        Inl e \<Rightarrow> Inl e
      | Inr c \<Rightarrow> (case methodName (method_id p) of
        Inl e \<Rightarrow> Inl e
      | Inr m \<Rightarrow> Inr (named_header tag p t c m))))"
  unfolding format_whole format_header format_stamp_tail format_class_tail
  by (simp add: named_header_def method_tail_def split: sum.splits)

text \<open>A header with a known class and method and a time stamp before the year 2262 is always
  formatted, and its microseconds are the six digits after the point.\<close>

theorem text_sink_header_total:
  assumes "unat (timestamp p) < 2 ^ 63 div 1000"
    and "class_id p < 2" and "method_id p < 5"
  shows "TextSink_format lt (print_header tag p) =
           Inr (named_header tag p
             (lt (int (unat (timestamp p) div 1000000)) @ ''.'' @
              pad_left CHR ''0'' 6 (dec (unat (timestamp p) mod 1000000)))
             (kClassNames ! unat (class_id p)) (kMethodNames ! unat (method_id p)))"
proof -
  have c: "unat (class_id p) < 2" and m: "unat (method_id p) < 5"
    using assms(2,3) by (simp_all add: word_less_nat_alt)
  have "unat (ucast (class_id p) :: 8 word) = unat (class_id p)"
    using c by (simp add: unsigned_ucast_eq unsigned_take_bit_eq take_bit_eq_mod)
  then have "className (ucast (class_id p)) = Inr (kClassNames ! unat (class_id p))"
    using c by (simp add: className_def table_get_def) (simp add: log_tables)
  moreover have "methodName (method_id p) = Inr (kMethodNames ! unat (method_id p))"
    using m by (simp add: methodName_def table_get_def) (simp add: log_tables)
  ultimately show ?thesis
    unfolding format_whole format_header format_stamp_tail format_class_tail
    by (simp add: local_time_total [OF assms(1)] named_header_def method_tail_def)
qed

theorem text_sink_header_total_witness:
  "TextSink_format (\<lambda>_. ''2020-01-01 00:00:00'')
     (print_header Request (emptyRequest\<lparr>timestamp := 1000042, class_id := 1, method_id := 2\<rparr>)) =
   Inr (named_header Request (emptyRequest\<lparr>timestamp := 1000042, class_id := 1, method_id := 2\<rparr>)
     ''2020-01-01 00:00:00.000042'' ''Handler'' ''terminateThreads'')"
proof -
  have d: "dec 42 = ''42''" by (simp add: dec.simps digit_char_def)
  have l: "pad_left CHR ''0'' 6 ''42'' = ''000042''" by (simp add: pad_left_def numeral_eq_Suc)
  show ?thesis
    using text_sink_header_total
      [of "emptyRequest\<lparr>timestamp := 1000042, class_id := 1, method_id := 2\<rparr>"
          "\<lambda>_. ''2020-01-01 00:00:00''" Request]
    by (simp add: emptyRequest_def log_tables d l)
qed

text \<open>The line is copied unchanged up to the first \<open>timestamp=\<close>: a \<open>class_id=\<close> or
  \<open>method_id=\<close> before it is not rewritten, although the code's conditions
  \<open>class_pos < ts_pos\<close> and \<open>method_pos < ts_pos\<close> mean to rewrite the earliest marker.\<close>

theorem text_sink_prefix_verbatim:
  assumes "find_at ''timestamp='' line = Some i" and "TextSink_format lt line = Inr t"
  shows "take (i + 10) t = take (i + 10) line"
proof -
  have n: "length ''timestamp='' = 10" by simp
  have i: "take 10 (drop i line) = ''timestamp=''" "i + 10 \<le> length line"
    using find_at_match [OF assms(1), unfolded n] by (simp_all del: take_drop)
  have "cut_at ''timestamp='' line =
          Some (take i line, takeWhile (\<lambda>c. c \<noteq> CHR '' '') (drop (i + 10) line),
                dropWhile (\<lambda>c. c \<noteq> CHR '' '') (drop (i + 10) line))"
    unfolding cut_at_def assms(1) option.case n Let_def ..
  then obtain u where "t = take i line @ ''timestamp='' @ u"
    using assms(2) unfolding format_whole
    by (subst (asm) format_suffix.simps) (auto simp: prepend_def split: sum.splits)
  moreover have "take (i + 10) line = take i line @ ''timestamp=''"
    using i(1) by (simp add: take_add)
  ultimately show ?thesis using i(2) by simp
qed

theorem text_sink_prefix_verbatim_witness:
  "take 21 (''class_id=1 timestamp='' @ ''T.000005'') = ''class_id=1 timestamp=''"
proof -
  have d: "dec 5 = ''5''" by (simp add: dec.simps digit_char_def)
  have l: "pad_left CHR ''0'' 6 ''5'' = ''000005''" by (simp add: pad_left_def numeral_eq_Suc)
  have s: "stoull ''5'' = Inr 5" using stoull_dec [of 5] by (simp add: d)
  have t: "show_timestamp (\<lambda>_. ''T'') ''5'' = Inr ''T.000005''"
    by (simp add: show_timestamp_def s local_time_total d l)
  have "cut_at ''timestamp='' ''class_id=1 timestamp=5'' = Some (''class_id=1 '', ''5'', [])"
    by (simp add: cut_simps)
  then have "TextSink_format (\<lambda>_. ''T'') ''class_id=1 timestamp=5'' =
      Inr (''class_id=1 timestamp='' @ ''T.000005'')"
    unfolding format_whole
    by (subst format_suffix.simps) (simp add: t, subst format_suffix.simps, simp add: cut_simps)
  from text_sink_prefix_verbatim [OF _ this, of 11] show ?thesis by simp
qed

end
