(* ===== verification/Stream_Adapter.thy ===== *)
theory Stream_Adapter
  imports Payloads
begin

text \<open>
  \<^verbatim>\<open>modules/logger/include/logger/core/stream_adapter.hpp\<close>: the stream buffer of
  fixed size that a worker prints an envelope into, and \<open>StreamAdapter\<close>, which prints into a
  growing string. The buffer is an array and a write position; \<open>sputc\<close> and \<open>xsputn\<close> are
  the standard stream buffer's, which call \<open>overflow\<close> when the array is full. The buffer keeps its
  old bytes on \<open>reset\<close>, as the code does.
\<close>

subsection \<open>The buffer\<close>

record FixedStringBuf =
  fsb_data :: string
  pptr :: nat

definition newBuf :: "nat \<Rightarrow> FixedStringBuf" where
  "newBuf N = \<lparr>fsb_data = replicate N (CHR 0x00), pptr = 0\<rparr>"

definition reset_buf :: "FixedStringBuf \<Rightarrow> FixedStringBuf" where
  "reset_buf b = b\<lparr>pptr := 0\<rparr>"

definition view :: "FixedStringBuf \<Rightarrow> string" where
  "view b = take (pptr b) (fsb_data b)"

text \<open>\<open>overflow\<close> accepts the character and stores nothing.\<close>

definition overflow :: "char \<Rightarrow> FixedStringBuf \<Rightarrow> char \<times> FixedStringBuf" where
  "overflow ch b = (ch, b)"

definition sputc :: "char \<Rightarrow> FixedStringBuf \<Rightarrow> FixedStringBuf" where
  "sputc c b =
     (if pptr b < length (fsb_data b) then b\<lparr>fsb_data := (fsb_data b)[pptr b := c], pptr := pptr b + 1\<rparr>
      else snd (overflow c b))"

definition xsputn :: "string \<Rightarrow> FixedStringBuf \<Rightarrow> FixedStringBuf" where
  "xsputn s b = fold sputc s b"

text \<open>The lambda \<open>adapter\<close> of \<open>LogEngine::submit_impl\<close>: the thread's buffer is rewound, the
  envelope printed, the view returned. What an envelope prints is a sequence of writes.\<close>

definition adapter :: "string list \<Rightarrow> FixedStringBuf \<Rightarrow> string \<times> FixedStringBuf" where
  "adapter writes b = (let b' = fold xsputn writes (reset_buf b) in (view b', b'))"

subsection \<open>\<open>StreamAdapter::to_string\<close>\<close>

text \<open>An envelope-like type prints its header and has \<open>debug_print\<close>, \<open>operator<<\<close> or both;
  a type that has neither is rejected by the compiler.\<close>

record 'e EnvelopeLike =
  env_debug_print :: "('e \<Rightarrow> string list) option"
  env_insert :: "('e \<Rightarrow> string list) option"

definition print_env :: "'e EnvelopeLike \<Rightarrow> 'e \<Rightarrow> string list option" where
  "print_env T obj =
     (case env_debug_print T of
        Some f \<Rightarrow> Some (f obj)
      | None \<Rightarrow> (case env_insert T of Some f \<Rightarrow> Some (f obj) | None \<Rightarrow> None))"

definition to_string :: "'e EnvelopeLike \<Rightarrow> 'e \<Rightarrow> string option" where
  "to_string T obj = map_option concat (print_env T obj)"

subsection \<open>Lemmas\<close>

definition buf_ok :: "nat \<Rightarrow> FixedStringBuf \<Rightarrow> bool" where
  "buf_ok N b \<longleftrightarrow> length (fsb_data b) = N \<and> pptr b \<le> N"

lemma new_buf_ok: "buf_ok N (newBuf N)"
  by (simp add: buf_ok_def newBuf_def)

lemma reset_ok: "buf_ok N b \<Longrightarrow> buf_ok N (reset_buf b) \<and> view (reset_buf b) = []"
  by (simp add: buf_ok_def reset_buf_def view_def)

lemma sputc_ok: "buf_ok N b \<Longrightarrow> buf_ok N (sputc c b) \<and> view (sputc c b) = take N (view b @ [c])"
  by (auto simp: buf_ok_def sputc_def overflow_def view_def take_Suc_conv_app_nth min_def)

lemma take_take_append: "take N (take N xs @ ys) = take N (xs @ ys)"
  by (auto simp: min_def)

lemma xsputn_ok: "buf_ok N b \<Longrightarrow> buf_ok N (xsputn s b) \<and> view (xsputn s b) = take N (view b @ s)"
proof (induction s arbitrary: b)
  case Nil
  then show ?case by (auto simp: xsputn_def view_def buf_ok_def)
next
  case (Cons c s)
  have "take N (take N (view b @ [c]) @ s) = take N (view b @ c # s)"
    using take_take_append [of N "view b @ [c]" s] by simp
  with Cons.IH [of "sputc c b"] sputc_ok [OF Cons.prems, of c] show ?case by (simp add: xsputn_def)
qed

lemma writes_ok: "buf_ok N b \<Longrightarrow>
  buf_ok N (fold xsputn ws b) \<and> view (fold xsputn ws b) = take N (view b @ concat ws)"
proof (induction ws arbitrary: b)
  case Nil
  then show ?case by (auto simp: view_def buf_ok_def)
next
  case (Cons w ws)
  have "take N (take N (view b @ w) @ concat ws) = take N (view b @ w @ concat ws)"
    using take_take_append [of N "view b @ w" "concat ws"] by simp
  with Cons.IH [of "xsputn w b"] xsputn_ok [OF Cons.prems, of w] show ?case by simp
qed

lemma adapter_ok: "buf_ok N b \<Longrightarrow> fst (adapter ws b) = take N (concat ws) \<and> buf_ok N (snd (adapter ws b))"
  using writes_ok [of N "reset_buf b" ws] reset_ok [of N b] by (simp add: adapter_def Let_def)

lemma dec_length_word:
  "length (dec (unat (x :: 64 word))) \<le> 20" "length (dec (unat (y :: 32 word))) \<le> 10"
  "length (dec (unat (z :: 16 word))) \<le> 5" "length (dec (unat (s :: 8 word))) \<le> 3"
proof -
  have "unat x < 10 ^ 20" by (rule less_trans [OF unsigned_less]) simp
  then show "length (dec (unat x)) \<le> 20" by (rule dec_length) simp
  have "unat y < 10 ^ 10" by (rule less_trans [OF unsigned_less]) simp
  then show "length (dec (unat y)) \<le> 10" by (rule dec_length) simp
  have "unat z < 10 ^ 5" by (rule less_trans [OF unsigned_less]) simp
  then show "length (dec (unat z)) \<le> 5" by (rule dec_length) simp
  have "unat s < 10 ^ 3" by (rule less_trans [OF unsigned_less]) simp
  then show "length (dec (unat s)) \<le> 3" by (rule dec_length) simp
qed

lemma severity_length: "length (show_severity s) \<le> 12"
  using dec_length_word(4) [of s] by (simp add: show_severity_def)

lemma header_length: "length (print_header tag p) \<le> 256"
proof -
  have "length (dec (tag_value tag)) \<le> 1" by (rule dec_length; cases tag) auto
  with severity_length [of "severity p"] dec_length_word(1) [of "timestamp p"]
    dec_length_word(2) [of "thread_id p"] dec_length_word(2) [of "request_id p"]
    dec_length_word(3) [of "class_id p"] dec_length_word(3) [of "method_id p"]
    dec_length_word(3) [of "schema_version p"]
  show ?thesis by (simp add: print_header_def show_fields_def header_schema_def)
qed

lemma debug_print_length: "length (debug_print tag p) \<le> 256"
  by (simp add: debug_print_def generic_debug_def request_debug_def header_length)


subsection \<open>Properties\<close>

text \<open>Whatever a thread printed before, the view of the adapter is the first \<open>N\<close> bytes of
  everything the envelope prints now: nothing of an older message shows through, a message that fits
  is kept whole and a longer one is cut at \<open>N\<close> without an error.\<close>

theorem adapter_prints_prefix:
  "fst (adapter ws (foldl (\<lambda>b w. snd (adapter w b)) (newBuf N) history)) = take N (concat ws)"
proof -
  have "buf_ok N b \<Longrightarrow> buf_ok N (foldl (\<lambda>b w. snd (adapter w b)) b history)" for b
    by (induction history arbitrary: b) (simp_all add: adapter_ok)
  then show ?thesis using adapter_ok new_buf_ok by blast
qed

text \<open>C14: Every payload that the builder makes prints a line of at most 256 bytes, whatever its
  field values: in the worker's buffer of 1024 bytes no log line is ever truncated.\<close>

theorem log_line_never_truncated:
  "length (debug_print tag p) \<le> 256 \<and>
   fst (adapter [debug_print tag p] (foldl (\<lambda>b w. snd (adapter w b)) (newBuf 1024) history)) =
     debug_print tag p"
proof -
  have "buf_ok N b \<Longrightarrow> buf_ok N (foldl (\<lambda>b w. snd (adapter w b)) b history)" for N b
    by (induction history arbitrary: b) (simp_all add: adapter_ok)
  with adapter_ok [of 1024] new_buf_ok debug_print_length [of tag p] show ?thesis by simp
qed

end
