(* ===== verification/Publisher_Policies.thy ===== *)
theory Publisher_Policies
  imports Text_Sink Stream_Adapter
begin

text \<open>
  \<^verbatim>\<open>modules/publisher/include/publisher/policy_publisher.hpp\<close> and
  \<^verbatim>\<open>publisher.hpp\<close>: a policy writes what a sink has formatted, to the terminal or to a
  file opened for appending, and \<open>Publisher\<close> combines one of each; \<open>LogCore::submit\<close> of
  \<^verbatim>\<open>modules/logger/include/logger/logger.hpp\<close> delegates to it. The host is the standard
  output, the files, and whether a path can be opened for writing. A file policy is made for each
  message, as the code does, and closed at its end.
\<close>

subsection \<open>The host and the policies\<close>

record host =
  stdout_text :: string
  host_files :: "string \<rightharpoonup> string"
  can_open :: "string \<Rightarrow> bool"

datatype Sink = Json_Sink | Text_Sink

datatype Policy = Terminal_Policy | File_Policy

fun sink_format :: "(int \<Rightarrow> string) \<Rightarrow> Sink \<Rightarrow> string \<Rightarrow> string result" where
  "sink_format lt Json_Sink line = Inr (JsonSink_format line)"
| "sink_format lt Text_Sink line = TextSink_format lt line"

definition terminal_write_impl :: "string \<Rightarrow> host \<Rightarrow> host" where
  "terminal_write_impl msg w = w\<lparr>stdout_text := stdout_text w @ msg\<rparr>"

text \<open>An \<open>ofstream\<close> on a path: open or not. Opening for appending creates a missing file.\<close>

record FilePolicy =
  fp_path :: string
  is_open :: bool

definition default_path :: string where "default_path = ''PublisherFile.log''"

definition makeFilePolicy :: "string \<Rightarrow> host \<Rightarrow> FilePolicy \<times> host" where
  "makeFilePolicy p w =
     (if can_open w p
      then (\<lparr>fp_path = p, is_open = True\<rparr>,
            (case host_files w p of None \<Rightarrow> w\<lparr>host_files := (host_files w)(p \<mapsto> [])\<rparr> | Some _ \<Rightarrow> w))
      else (\<lparr>fp_path = p, is_open = False\<rparr>, w))"

definition file_write_impl :: "FilePolicy \<Rightarrow> string \<Rightarrow> host \<Rightarrow> host" where
  "file_write_impl f msg w =
     (if \<not> is_open f then w
      else (case host_files w (fp_path f) of
              None \<Rightarrow> w
            | Some s \<Rightarrow> w\<lparr>host_files := (host_files w)(fp_path f \<mapsto> s @ msg)\<rparr>))"

text \<open>\<open>PolicyBase::publish\<close>: format first, then one write; an exception of the sink writes
  nothing.\<close>

definition policy_publish ::
  "(string \<Rightarrow> string result) \<Rightarrow> (string \<Rightarrow> host \<Rightarrow> host) \<Rightarrow> string \<Rightarrow> (host, unit) eff" where
  "policy_publish fmt write line w =
     (case fmt line of Inl e \<Rightarrow> (Inl e, w) | Inr msg \<Rightarrow> (Inr (), write msg w))"

subsection \<open>The publishers\<close>

fun Publisher_publish ::
  "(int \<Rightarrow> string) \<Rightarrow> Policy \<Rightarrow> Sink \<Rightarrow> 'e \<Rightarrow> ('e \<Rightarrow> string) \<Rightarrow> (host, unit) eff" where
  "Publisher_publish lt Terminal_Policy k env to_view w =
     policy_publish (sink_format lt k) terminal_write_impl (to_view env) w"
| "Publisher_publish lt File_Policy k env to_view w =
     (case makeFilePolicy default_path w of
        (f, w') \<Rightarrow> policy_publish (sink_format lt k) (file_write_impl f) (to_view env) w')"

definition submit ::
  "(int \<Rightarrow> string) \<Rightarrow> Policy \<Rightarrow> Sink \<Rightarrow> 'e \<Rightarrow> ('e \<Rightarrow> string) \<Rightarrow> (host, unit) eff" where
  "submit lt p k env to_view = Publisher_publish lt p k env to_view"

text \<open>Submitting messages one after the other; an exception ends the sequence.\<close>

fun submit_all ::
  "(int \<Rightarrow> string) \<Rightarrow> Policy \<Rightarrow> Sink \<Rightarrow> ('e \<Rightarrow> string) \<Rightarrow> 'e list \<Rightarrow> (host, unit) eff" where
  "submit_all lt p k to_view [] w = (Inr (), w)"
| "submit_all lt p k to_view (e # es) w =
     and_then (submit lt p k e to_view) (\<lambda>_. submit_all lt p k to_view es) w"

subsection \<open>The contract of a policy\<close>

text \<open>What has reached the destination of a policy, and the rest of the host.\<close>

definition file_text :: "host \<Rightarrow> string" where
  "file_text w = (case host_files w default_path of None \<Rightarrow> [] | Some s \<Rightarrow> s)"

fun publish_all :: "(string \<Rightarrow> (host, unit) eff) \<Rightarrow> string list \<Rightarrow> (host, unit) eff" where
  "publish_all pub [] w = (Inr (), w)"
| "publish_all pub (l # ls) w = and_then (pub l) (\<lambda>_. publish_all pub ls) w"

locale appending_policy =
  fixes publish1 :: "(string \<Rightarrow> string result) \<Rightarrow> string \<Rightarrow> (host, unit) eff"
    and ready :: "host \<Rightarrow> bool"
    and target :: "host \<Rightarrow> string"
    and others :: "host \<Rightarrow> 'o"
  assumes good: "ready w \<Longrightarrow> fmt line = Inr msg \<Longrightarrow>
      \<exists>w'. publish1 fmt line w = (Inr (), w') \<and> target w' = target w @ msg \<and>
           others w' = others w \<and> ready w'"
    and bad: "ready w \<Longrightarrow> fmt line = Inl e \<Longrightarrow>
      \<exists>w'. publish1 fmt line w = (Inl e, w') \<and> target w' = target w \<and> others w' = others w"
begin

text \<open>The formatted lines up to the first exception, and that exception.\<close>

lemma publish_all_appends:
  "ready w \<Longrightarrow>
   \<exists>x w'. publish_all (publish1 fmt) ls w = (x, w') \<and>
     target w' = target w @ concat (map (\<lambda>l. projr (fmt l)) (takeWhile (\<lambda>l. \<not> isl (fmt l)) ls)) \<and>
     others w' = others w \<and> (x = Inr () \<longleftrightarrow> (\<forall>l \<in> set ls. \<not> isl (fmt l)))"
proof (induction ls arbitrary: w)
  case Nil
  then show ?case by simp
next
  case (Cons l ls)
  show ?case
  proof (cases "fmt l")
    case (Inl e)
    then show ?thesis using bad [OF Cons.prems, of fmt l e] by auto
  next
    case (Inr msg)
    obtain w' where w': "publish1 fmt l w = (Inr (), w')" "target w' = target w @ msg"
      "others w' = others w" "ready w'" using good [of w fmt l msg] Cons.prems Inr by blast
    from Cons.IH [OF w'(4)] w' Inr show ?thesis by auto
  qed
qed

end

interpretation terminal: appending_policy
  "\<lambda>fmt. policy_publish fmt terminal_write_impl" "\<lambda>_. True" stdout_text "\<lambda>w. (host_files w, can_open w)"
  by unfold_locales (auto simp: policy_publish_def terminal_write_impl_def)

definition file_publish :: "(string \<Rightarrow> string result) \<Rightarrow> string \<Rightarrow> (host, unit) eff" where
  "file_publish fmt line w =
     (case makeFilePolicy default_path w of
        (f, w') \<Rightarrow> policy_publish fmt (file_write_impl f) line w')"

interpretation appfile: appending_policy
  file_publish "\<lambda>w. can_open w default_path" file_text
  "\<lambda>w. (stdout_text w, can_open w, (host_files w)(default_path := None))"
  by unfold_locales
    (auto simp: file_publish_def policy_publish_def makeFilePolicy_def file_write_impl_def file_text_def
      split: option.splits)

lemma submit_all_terminal:
  "submit_all lt Terminal_Policy k tv es w =
     publish_all (policy_publish (sink_format lt k) terminal_write_impl) (map tv es) w"
  by (induction es arbitrary: w) (simp_all add: submit_def and_then_def cong: prod.case_cong sum.case_cong)

lemma submit_all_file:
  "submit_all lt File_Policy k tv es w =
     publish_all (file_publish (sink_format lt k)) (map tv es) w"
  by (induction es arbitrary: w)
    (simp_all add: submit_def file_publish_def and_then_def cong: prod.case_cong sum.case_cong)

lemma takeWhile_map_comp: "takeWhile P (map f xs) = map f (takeWhile (\<lambda>x. P (f x)) xs)"
  by (induction xs) auto

text \<open>What the messages up to the first exception of the sink look like.\<close>

definition formatted :: "(int \<Rightarrow> string) \<Rightarrow> Sink \<Rightarrow> ('e \<Rightarrow> string) \<Rightarrow> 'e list \<Rightarrow> string" where
  "formatted lt k tv es =
     concat (map (\<lambda>e. projr (sink_format lt k (tv e))) (takeWhile (\<lambda>e. \<not> isl (sink_format lt k (tv e))) es))"

subsection \<open>Properties\<close>

text \<open>Messages submitted to the terminal appear on the standard output in order, each once and
  formatted by the sink, up to the first message the sink throws on; no file changes, and the
  sequence returns normally exactly when the sink formats every message.\<close>

theorem terminal_output_in_order:
  "\<exists>x w'. submit_all lt Terminal_Policy k tv es w = (x, w') \<and>
     stdout_text w' = stdout_text w @ formatted lt k tv es \<and> host_files w' = host_files w \<and>
     (x = Inr ()) = list_all (\<lambda>e. \<not> isl (sink_format lt k (tv e))) es"
  using terminal.publish_all_appends [where w = w and fmt = "sink_format lt k" and ls = "map tv es"]
  by (fastforce simp: submit_all_terminal formatted_def takeWhile_map_comp comp_def list_all_iff)

text \<open>With a file policy the same text is appended to the log file, which is created when it
  is missing and never truncated; nothing else of the host changes. When the file cannot be opened
  the messages are dropped without an error.\<close>

theorem file_output_appended:
  "\<exists>x w'. submit_all lt File_Policy k tv es w = (x, w') \<and>
     file_text w' = file_text w @ (if can_open w default_path then formatted lt k tv es else []) \<and>
     stdout_text w' = stdout_text w \<and>
     (host_files w')(default_path := None) = (host_files w)(default_path := None) \<and>
     (x = Inr ()) = list_all (\<lambda>e. \<not> isl (sink_format lt k (tv e))) es"
proof (cases "can_open w default_path")
  case True
  then show ?thesis
    using appfile.publish_all_appends [where w = w and fmt = "sink_format lt k" and ls = "map tv es"]
    by (fastforce simp: submit_all_file formatted_def takeWhile_map_comp comp_def list_all_iff)
next
  case False
  then have "\<exists>x. submit_all lt File_Policy k tv es w = (x, w) \<and>
      (x = Inr ()) = list_all (\<lambda>e. \<not> isl (sink_format lt k (tv e))) es"
    by (induction es)
      (auto simp: submit_def makeFilePolicy_def policy_publish_def file_write_impl_def and_then_def
        split: sum.splits)
  with False show ?thesis by auto
qed

end
