(* ===== verification/Free_List.thy ===== *)
theory Free_List
  imports Prelude "HOL-Library.Multiset"
begin

text \<open>
  \<open>FreeList\<close> of \<^verbatim>\<open>modules/logger/include/logger/core/lockfree_queue.hpp\<close>: a
  Treiber stack of the records of the pool. A node is its number in the pool, \<open>free_next\<close> of the
  nodes is a map. First the operations as they run without interference, with the contract the
  engine relies on; then the operations of several threads, one atomic access per step. The weak
  compare-and-exchange may fail at any time. Steps interleave in program order: the weaker memory
  orders of the code are not modelled.
\<close>

subsection \<open>Without interference\<close>

record FreeList =
  fl_head :: "nat option"
  free_next :: "nat \<Rightarrow> nat option"

definition newFreeList :: FreeList where
  "newFreeList = \<lparr>fl_head = None, free_next = (\<lambda>_. None)\<rparr>"

definition fl_push :: "nat \<Rightarrow> FreeList \<Rightarrow> FreeList" where
  "fl_push n s = s\<lparr>free_next := (free_next s)(n := fl_head s), fl_head := Some n\<rparr>"

definition try_pop :: "FreeList \<Rightarrow> nat option \<times> FreeList" where
  "try_pop s =
     (case fl_head s of
        None \<Rightarrow> (None, s)
      | Some h \<Rightarrow> (Some h, s\<lparr>fl_head := free_next s h\<rparr>))"

definition fl_empty :: "FreeList \<Rightarrow> bool" where
  "fl_empty s \<longleftrightarrow> fl_head s = None"

text \<open>The nodes reached from a pointer.\<close>

fun chain :: "(nat \<Rightarrow> nat option) \<Rightarrow> nat option \<Rightarrow> nat list \<Rightarrow> bool" where
  "chain nx h [] \<longleftrightarrow> h = None"
| "chain nx h (x # xs) \<longleftrightarrow> h = Some x \<and> chain nx (nx x) xs"

lemma chain_frame: "n \<notin> set xs \<Longrightarrow> chain (nx(n := v)) h xs = chain nx h xs"
  by (induction xs arbitrary: h) auto

lemma chain_unique: "chain nx h xs \<Longrightarrow> chain nx h ys \<Longrightarrow> xs = ys"
  by (induction xs arbitrary: h ys; case_tac ys) auto

lemma chain_head: "chain nx (Some h) xs \<longleftrightarrow> (\<exists>ys. xs = h # ys \<and> chain nx (nx h) ys)"
  by (cases xs) auto

lemma chain_None: "chain nx None xs \<longleftrightarrow> xs = []"
  by (cases xs) auto

definition holds :: "FreeList \<Rightarrow> nat list \<Rightarrow> bool" where
  "holds s xs \<longleftrightarrow> chain (free_next s) (fl_head s) xs"

text \<open>The contract of a pool of free records.\<close>

locale record_pool =
  fixes empty_pool :: 's
    and push :: "nat \<Rightarrow> 's \<Rightarrow> 's"
    and pop :: "'s \<Rightarrow> nat option \<times> 's"
    and has :: "'s \<Rightarrow> nat list \<Rightarrow> bool"
  assumes has_empty: "has empty_pool []"
    and has_push: "has s xs \<Longrightarrow> n \<notin> set xs \<Longrightarrow> has (push n s) (n # xs)"
    and pop_none: "has s [] \<Longrightarrow> pop s = (None, s)"
    and pop_some: "has s (x # xs) \<Longrightarrow> fst (pop s) = Some x \<and> has (snd (pop s)) xs"
begin

lemma push_all: "has s xs \<Longrightarrow> distinct (ns @ xs) \<Longrightarrow> has (fold push ns s) (rev ns @ xs)"
proof (induction ns arbitrary: s xs)
  case (Cons n ns)
  then have "has (push n s) (n # xs)" by (simp add: has_push)
  from Cons.IH [OF this] Cons.prems(2) show ?case by auto
qed simp

lemma pop_cases:
  assumes "has s xs"
  obtains "xs = []" "pop s = (None, s)"
  | x ys s' where "xs = x # ys" "pop s = (Some x, s')" "has s' ys"
  using assms by (cases xs; cases "pop s") (auto dest: pop_none pop_some)

end

interpretation treiber: record_pool newFreeList fl_push try_pop holds
  by unfold_locales
    (auto simp: holds_def newFreeList_def fl_push_def try_pop_def chain_frame)

subsection \<open>With several threads\<close>

text \<open>
  \<open>Push_store n h\<close>: the head \<open>h\<close> is read, \<open>n->free_next = h\<close> comes next. \<open>Push_cas n h\<close>:
  the exchange comes next. \<open>Pop_read h\<close>: the head is read, \<open>h->free_next\<close> comes next.
  \<open>Pop_cas h n\<close>: the exchange comes next.
\<close>

datatype fl_pc =
    Fl_idle
  | Push_store nat "nat option"
  | Push_cas nat "nat option"
  | Pop_read nat
  | Pop_cas nat "nat option"

text \<open>\<open>fl_out\<close> is the multiset of the nodes handed out: a pop adds its result, a push takes its
  argument. A node that is in it twice has two owners. Threads that may call \<open>try_pop\<close> are
  those of the set \<open>P\<close>.\<close>

record fl_sys =
  fl_mem :: FreeList
  fl_pcs :: "fl_pc list"
  fl_out :: "nat multiset"

definition pop_from :: "nat option \<Rightarrow> fl_pc" where
  "pop_from h = (case h of None \<Rightarrow> Fl_idle | Some x \<Rightarrow> Pop_read x)"

definition fl_at :: "nat \<Rightarrow> fl_pc \<Rightarrow> fl_sys \<Rightarrow> bool" where
  "fl_at t pc s \<longleftrightarrow> t < length (fl_pcs s) \<and> fl_pcs s ! t = pc"

definition fl_goto :: "nat \<Rightarrow> fl_pc \<Rightarrow> fl_sys \<Rightarrow> fl_sys" where
  "fl_goto t pc s = s\<lparr>fl_pcs := (fl_pcs s)[t := pc]\<rparr>"

inductive fl_step :: "nat set \<Rightarrow> fl_sys \<Rightarrow> fl_sys \<Rightarrow> bool" for P where
  push_load: "fl_at t Fl_idle s \<Longrightarrow> n \<in># fl_out s \<Longrightarrow>
    fl_step P s (fl_goto t (Push_store n (fl_head (fl_mem s))) (s\<lparr>fl_out := fl_out s - {#n#}\<rparr>))"
| push_store: "fl_at t (Push_store n h) s \<Longrightarrow>
    fl_step P s (fl_goto t (Push_cas n h)
      (s\<lparr>fl_mem := (fl_mem s)\<lparr>free_next := (free_next (fl_mem s))(n := h)\<rparr>\<rparr>))"
| push_ok: "fl_at t (Push_cas n h) s \<Longrightarrow> fl_head (fl_mem s) = h \<Longrightarrow>
    fl_step P s (fl_goto t Fl_idle (s\<lparr>fl_mem := (fl_mem s)\<lparr>fl_head := Some n\<rparr>\<rparr>))"
| push_fail: "fl_at t (Push_cas n h) s \<Longrightarrow>
    fl_step P s (fl_goto t (Push_store n (fl_head (fl_mem s))) s)"
| pop_load: "t \<in> P \<Longrightarrow> fl_at t Fl_idle s \<Longrightarrow>
    fl_step P s (fl_goto t (pop_from (fl_head (fl_mem s))) s)"
| pop_next: "fl_at t (Pop_read h) s \<Longrightarrow>
    fl_step P s (fl_goto t (Pop_cas h (free_next (fl_mem s) h)) s)"
| pop_ok: "fl_at t (Pop_cas h nx) s \<Longrightarrow> fl_head (fl_mem s) = Some h \<Longrightarrow>
    fl_step P s (fl_goto t Fl_idle
      (s\<lparr>fl_mem := (fl_mem s)\<lparr>fl_head := nx\<rparr>, fl_out := fl_out s + {#h#}\<rparr>))"
| pop_fail: "fl_at t (Pop_cas h nx) s \<Longrightarrow>
    fl_step P s (fl_goto t (pop_from (fl_head (fl_mem s))) s)"

text \<open>\<open>T\<close> threads and a pool of \<open>N\<close> nodes that are still to be pushed.\<close>

definition fl_start :: "nat \<Rightarrow> nat \<Rightarrow> fl_sys" where
  "fl_start T N = \<lparr>fl_mem = newFreeList, fl_pcs = replicate T Fl_idle, fl_out = mset [0..<N]\<rparr>"

inductive fl_reach :: "nat set \<Rightarrow> nat \<Rightarrow> nat \<Rightarrow> fl_sys \<Rightarrow> bool" for P T N where
  fl_reach_start: "fl_reach P T N (fl_start T N)"
| fl_reach_step: "fl_reach P T N s \<Longrightarrow> fl_step P s s' \<Longrightarrow> fl_reach P T N s'"

subsection \<open>One popping thread\<close>

fun push_node :: "fl_pc \<Rightarrow> nat multiset" where
  "push_node (Push_store n h) = {#n#}"
| "push_node (Push_cas n h) = {#n#}"
| "push_node _ = {#}"

definition pushing :: "fl_pc list \<Rightarrow> nat multiset" where
  "pushing pcs = sum_list (map push_node pcs)"

text \<open>Sums of multisets over the threads.\<close>

lemma sum_update:
  fixes f :: "'a \<Rightarrow> 'b multiset"
  shows "t < length pcs \<Longrightarrow>
    sum_list (map f (pcs[t := q])) + f (pcs ! t) = sum_list (map f pcs) + f q"
  by (induction pcs arbitrary: t) (auto simp: nth_Cons' ac_simps split: nat.split)

lemma sum_mem:
  fixes f :: "'a \<Rightarrow> 'b multiset"
  shows "t < length pcs \<Longrightarrow> n \<in># f (pcs ! t) \<Longrightarrow> n \<in># sum_list (map f pcs)"
  by (induction pcs arbitrary: t) (auto simp: nth_Cons' split: if_splits)

lemma sum_two:
  fixes f :: "'a \<Rightarrow> 'b multiset"
  assumes "t < length pcs" "u < length pcs" "t \<noteq> u" "n \<in># f (pcs ! t)" "n \<in># f (pcs ! u)"
  shows "count (sum_list (map f pcs)) n \<ge> 2"
proof -
  have s: "sum_list (map f pcs) = sum_list (map f (take t pcs)) + f (pcs ! t) + sum_list (map f (drop (Suc t) pcs))"
    using assms(1) by (subst id_take_nth_drop [OF assms(1)]) (simp add: add.assoc)
  have "n \<in># sum_list (map f (take t pcs)) + sum_list (map f (drop (Suc t) pcs))"
  proof (cases "u < t")
    case True
    then show ?thesis using sum_mem [of u "take t pcs" n f] assms by simp
  next
    case False
    then have "drop (Suc t) pcs ! (u - Suc t) = pcs ! u" "u - Suc t < length (drop (Suc t) pcs)"
      using assms(2,3) by auto
    then show ?thesis using sum_mem [of "u - Suc t" "drop (Suc t) pcs" n f] assms(5) by simp
  qed
  then have "count (sum_list (map f (take t pcs)) + sum_list (map f (drop (Suc t) pcs))) n \<ge> 1"
    and "count (f (pcs ! t)) n \<ge> 1" using assms(4) by (simp_all only: count_greater_eq_one_iff)
  then show ?thesis unfolding s count_union by linarith
qed

lemmas pushing_update = sum_update [where f = push_node, folded pushing_def]
lemmas pushing_mem = sum_mem [where f = push_node, folded pushing_def]

text \<open>What a thread's program counter promises, when only thread \<open>p\<close> pops.\<close>

fun pc_ok :: "nat \<Rightarrow> nat \<Rightarrow> (nat \<Rightarrow> nat option) \<Rightarrow> nat list \<Rightarrow> fl_pc \<Rightarrow> bool" where
  "pc_ok p t nx xs (Push_cas n h) \<longleftrightarrow> nx n = h"
| "pc_ok p t nx xs (Pop_read h) \<longleftrightarrow> t = p \<and> h \<in> set xs"
| "pc_ok p t nx xs (Pop_cas h n) \<longleftrightarrow> t = p \<and> h \<in> set xs \<and> nx h = n"
| "pc_ok p t nx xs _ \<longleftrightarrow> True"

definition fl_inv :: "nat \<Rightarrow> nat \<Rightarrow> fl_sys \<Rightarrow> nat list \<Rightarrow> bool" where
  "fl_inv p N s xs \<longleftrightarrow>
     holds (fl_mem s) xs \<and>
     mset xs + pushing (fl_pcs s) + fl_out s = mset [0..<N] \<and>
     (\<forall>t<length (fl_pcs s). pc_ok p t (free_next (fl_mem s)) xs (fl_pcs s ! t))"


lemma once: "mset xs + A + B = mset [0..<N] \<Longrightarrow> count (mset xs) n + count A n + count B n \<le> 1"
proof -
  assume "mset xs + A + B = mset [0..<N]"
  then have "count (mset xs + A + B) n = count (mset [0..<N]) n" by simp
  also have "\<dots> \<le> 1" using distinct_count_atmost_1 [of "[0..<N]"] by simp
  finally show ?thesis by simp
qed

lemma once_sets:
  assumes "mset xs + A + B = mset [0..<N]"
  shows "distinct xs" and "n \<in># A \<Longrightarrow> n \<notin> set xs" and "n \<in># B \<Longrightarrow> n \<notin> set xs"
    and "n \<in># A \<Longrightarrow> n \<notin># B"
proof -
  have c: "count (mset xs) n = 0 \<or> count (mset xs) n = 1 \<and> count A n = 0 \<and> count B n = 0" for n
    using once [OF assms, of n] by linarith
  show "distinct xs" unfolding distinct_count_atmost_1 using c by (metis count_mset_0_iff)
  show "n \<in># A \<Longrightarrow> n \<notin> set xs" and "n \<in># B \<Longrightarrow> n \<notin> set xs"
    using c [of n] by (auto simp: count_eq_zero_iff)
  have "count A n = 0 \<or> count B n = 0" using once [OF assms, of n] by linarith
  then show "n \<in># A \<Longrightarrow> n \<notin># B" by (auto simp: count_eq_zero_iff)
qed

text \<open>Two threads never push the same node.\<close>

lemmas pushing_other = sum_two [where f = push_node, folded pushing_def]

lemma pc_ok_weaken: "pc_ok p u nx xs pc \<Longrightarrow> set xs \<subseteq> set ys \<Longrightarrow> pc_ok p u nx ys pc"
  by (cases pc) auto


lemma fl_step_inv:
  assumes "fl_step {p} s s'" and "fl_inv p N s xs"
  shows "\<exists>ys. fl_inv p N s' ys"
proof -
  have ch: "chain (free_next (fl_mem s)) (fl_head (fl_mem s)) xs"
    and ms: "mset xs + pushing (fl_pcs s) + fl_out s = mset [0..<N]"
    and pcs: "\<And>u. u < length (fl_pcs s) \<Longrightarrow> pc_ok p u (free_next (fl_mem s)) xs (fl_pcs s ! u)"
    using assms(2) by (simp_all add: fl_inv_def holds_def)
  note once = once_sets [OF ms]
  show ?thesis using assms(1)
  proof cases
    case (push_load t n)
    then have t: "t < length (fl_pcs s)" "fl_pcs s ! t = Fl_idle" by (simp_all add: fl_at_def)
    have "pushing ((fl_pcs s)[t := Push_store n (fl_head (fl_mem s))]) = pushing (fl_pcs s) + {#n#}"
      using pushing_update [OF t(1), of "Push_store n (fl_head (fl_mem s))"] t(2) by simp
    moreover obtain B where "fl_out s = add_mset n B" using push_load(3) by (metis mset_add)
    ultimately have "fl_inv p N s' xs"
      using ch ms pcs t unfolding push_load(1)
      by (simp add: fl_inv_def holds_def fl_goto_def nth_list_update add.assoc)
    then show ?thesis ..
  next
    case (push_store t n h)
    then have t: "t < length (fl_pcs s)" "fl_pcs s ! t = Push_store n h" by (simp_all add: fl_at_def)
    have eq: "pushing ((fl_pcs s)[t := Push_cas n h]) = pushing (fl_pcs s)"
      using pushing_update [OF t(1), of "Push_cas n h"] t(2) by simp
    have n: "n \<in># pushing (fl_pcs s)" using pushing_mem [OF t(1), of n] t(2) by simp
    then have nx: "n \<notin> set xs" by (rule once(2))
    have one: "count (pushing (fl_pcs s)) n \<le> 1" using Free_List.once [OF ms, of n] by simp
    have "pc_ok p u ((free_next (fl_mem s))(n := h)) xs (fl_pcs s ! u)" if u: "u < length (fl_pcs s)" "u \<noteq> t" for u
    proof -
      have "n \<notin># push_node (fl_pcs s ! u)"
        using pushing_other [OF t(1) u(1), of n] u(2) t(2) one by auto
      then show ?thesis using pcs [OF u(1)] nx by (cases "fl_pcs s ! u") auto
    qed
    then have "fl_inv p N s' xs"
      using ch ms t eq chain_frame [OF nx] unfolding push_store(1)
      by (auto simp: fl_inv_def holds_def fl_goto_def nth_list_update)
    then show ?thesis ..
  next
    case (push_ok t n h)
    then have t: "t < length (fl_pcs s)" "fl_pcs s ! t = Push_cas n h" by (simp_all add: fl_at_def)
    have eq: "pushing ((fl_pcs s)[t := Fl_idle]) + {#n#} = pushing (fl_pcs s)"
      using pushing_update [OF t(1), of Fl_idle] t(2) by simp
    have nh: "free_next (fl_mem s) n = fl_head (fl_mem s)" using pcs [OF t(1)] t(2) push_ok(3) by simp
    have "mset (n # xs) + pushing ((fl_pcs s)[t := Fl_idle]) + fl_out s = mset [0..<N]"
      using ms eq by (metis add_mset_add_single add.assoc add.commute mset.simps(2))
    moreover have "pc_ok p u (free_next (fl_mem s)) (n # xs) (fl_pcs s ! u)" if "u < length (fl_pcs s)" for u
      using pcs [OF that] by (rule pc_ok_weaken) auto
    ultimately have "fl_inv p N s' (n # xs)"
      using ch nh t unfolding push_ok(1) by (simp add: fl_inv_def holds_def fl_goto_def nth_list_update)
    then show ?thesis ..
  next
    case (push_fail t n h)
    then have t: "t < length (fl_pcs s)" "fl_pcs s ! t = Push_cas n h" by (simp_all add: fl_at_def)
    have "pushing ((fl_pcs s)[t := Push_store n (fl_head (fl_mem s))]) = pushing (fl_pcs s)"
      using pushing_update [OF t(1), of "Push_store n (fl_head (fl_mem s))"] t(2) by simp
    then have "fl_inv p N s' xs"
      using ch ms pcs t unfolding push_fail(1) by (simp add: fl_inv_def holds_def fl_goto_def nth_list_update)
    then show ?thesis ..
  next
    case (pop_load t)
    then have t: "t < length (fl_pcs s)" "fl_pcs s ! t = Fl_idle" "t = p" by (simp_all add: fl_at_def)
    let ?q = "pop_from (fl_head (fl_mem s))"
    have q: "push_node ?q = {#}" "pc_ok p t nx xs ?q" for nx
      using ch t(3) by (auto simp: pop_from_def chain_head split: option.splits)
    have "pushing ((fl_pcs s)[t := ?q]) = pushing (fl_pcs s)"
      using pushing_update [OF t(1), of ?q] t(2) q(1) by simp
    then have "fl_inv p N s' xs"
      using ch ms pcs t q unfolding pop_load(1) by (simp add: fl_inv_def holds_def fl_goto_def nth_list_update)
    then show ?thesis ..
  next
    case (pop_next t h)
    then have t: "t < length (fl_pcs s)" "fl_pcs s ! t = Pop_read h" by (simp_all add: fl_at_def)
    let ?q = "Pop_cas h (free_next (fl_mem s) h)"
    have "pushing ((fl_pcs s)[t := ?q]) = pushing (fl_pcs s)"
      using pushing_update [OF t(1), of ?q] t(2) by simp
    then have "fl_inv p N s' xs"
      using ch ms pcs pcs [OF t(1)] t unfolding pop_next(1)
      by (simp add: fl_inv_def holds_def fl_goto_def nth_list_update)
    then show ?thesis ..
  next
    case (pop_ok t h nx)
    then have t: "t < length (fl_pcs s)" "fl_pcs s ! t = Pop_cas h nx" by (simp_all add: fl_at_def)
    have h: "t = p" "free_next (fl_mem s) h = nx" using pcs [OF t(1)] t(2) by simp_all
    obtain ys where ys: "xs = h # ys" "chain (free_next (fl_mem s)) nx ys"
      using ch pop_ok(3) h(2) by (auto simp: chain_head)
    have "pushing ((fl_pcs s)[t := Fl_idle]) = pushing (fl_pcs s)"
      using pushing_update [OF t(1), of Fl_idle] t(2) by simp
    moreover have "pc_ok p u (free_next (fl_mem s)) ys (fl_pcs s ! u)" if "u < length (fl_pcs s)" "u \<noteq> t" for u
      using pcs [OF that(1)] that(2) h(1) by (cases "fl_pcs s ! u") auto
    ultimately have "fl_inv p N s' ys"
      using ms ys t unfolding pop_ok(1) by (simp add: fl_inv_def holds_def fl_goto_def nth_list_update)
    then show ?thesis ..
  next
    case (pop_fail t h nx)
    then have t: "t < length (fl_pcs s)" "fl_pcs s ! t = Pop_cas h nx" by (simp_all add: fl_at_def)
    have tp: "t = p" using pcs [OF t(1)] t(2) by simp
    let ?q = "pop_from (fl_head (fl_mem s))"
    have q: "push_node ?q = {#}" "pc_ok p t nx' xs ?q" for nx'
      using ch tp by (auto simp: pop_from_def chain_head split: option.splits)
    have "pushing ((fl_pcs s)[t := ?q]) = pushing (fl_pcs s)"
      using pushing_update [OF t(1), of ?q] t(2) q(1) by simp
    then have "fl_inv p N s' xs"
      using ch ms pcs t q unfolding pop_fail(1) by (simp add: fl_inv_def holds_def fl_goto_def nth_list_update)
    then show ?thesis ..
  qed
qed

lemma pushing_idle: "pushing (replicate T Fl_idle) = {#}"
  by (induction T) (simp_all add: pushing_def)

lemma fl_start_inv: "fl_inv p N (fl_start T N) []"
  by (simp add: fl_inv_def fl_start_def holds_def newFreeList_def pushing_idle)

lemma fl_reach_inv: "fl_reach {p} T N s \<Longrightarrow> \<exists>xs. fl_inv p N s xs"
  by (induction rule: fl_reach.induct) (auto intro: fl_start_inv dest: fl_step_inv)


subsection \<open>Two popping threads\<close>

text \<open>A run as a list of steps, each checked by computation.\<close>

inductive fl_run :: "nat set \<Rightarrow> fl_sys \<Rightarrow> fl_sys \<Rightarrow> bool" for P where
  fl_run_nil: "fl_run P s s"
| fl_run_cons: "fl_step P s u \<Longrightarrow> fl_run P u s' \<Longrightarrow> fl_run P s s'"

lemma fl_reach_run: "fl_run P s s' \<Longrightarrow> fl_reach P T N s \<Longrightarrow> fl_reach P T N s'"
  by (induction rule: fl_run.induct) (auto intro: fl_reach_step)

lemma fl_run_trans: "fl_run P s u \<Longrightarrow> fl_run P u s' \<Longrightarrow> fl_run P s s'"
  by (induction rule: fl_run.induct) (auto intro: fl_run.intros)

definition conf :: "FreeList \<Rightarrow> fl_pc list \<Rightarrow> nat multiset \<Rightarrow> fl_sys" where
  "conf m pcs out = \<lparr>fl_mem = m, fl_pcs = pcs, fl_out = out\<rparr>"

lemma conf_step:
  assumes "t < length pcs"
  shows "pcs ! t = Fl_idle \<Longrightarrow> n \<in># out \<Longrightarrow>
      fl_step P (conf m pcs out) (conf m (pcs[t := Push_store n (fl_head m)]) (out - {#n#}))"
    and "pcs ! t = Push_store n h \<Longrightarrow>
      fl_step P (conf m pcs out)
        (conf (m\<lparr>free_next := (free_next m)(n := h)\<rparr>) (pcs[t := Push_cas n h]) out)"
    and "pcs ! t = Push_cas n h \<Longrightarrow> fl_head m = h \<Longrightarrow>
      fl_step P (conf m pcs out) (conf (m\<lparr>fl_head := Some n\<rparr>) (pcs[t := Fl_idle]) out)"
    and "pcs ! t = Fl_idle \<Longrightarrow> t \<in> P \<Longrightarrow>
      fl_step P (conf m pcs out) (conf m (pcs[t := pop_from (fl_head m)]) out)"
    and "pcs ! t = Pop_read x \<Longrightarrow>
      fl_step P (conf m pcs out) (conf m (pcs[t := Pop_cas x (free_next m x)]) out)"
    and "pcs ! t = Pop_cas x y \<Longrightarrow> fl_head m = Some x \<Longrightarrow>
      fl_step P (conf m pcs out) (conf (m\<lparr>fl_head := y\<rparr>) (pcs[t := Fl_idle]) (out + {#x#}))"
  using assms push_load [of t "conf m pcs out" n P] push_store [of t n h "conf m pcs out" P]
    push_ok [of t n h "conf m pcs out" P] pop_load [of t P "conf m pcs out"]
    pop_next [of t x "conf m pcs out" P] pop_ok [of t x y "conf m pcs out" P]
  by (simp_all add: conf_def fl_at_def fl_goto_def)

lemma fl_run_one: "fl_step P s s' \<Longrightarrow> fl_run P s s'"
  by (auto intro: fl_run.intros)

text \<open>An operation that runs without interference.\<close>

lemma fl_run_push:
  assumes t: "t < length pcs" "pcs ! t = Fl_idle" and n: "n \<in># out"
  shows "fl_run P (conf m pcs out) (conf (fl_push n m) pcs (out - {#n#}))"
proof -
  let ?h = "fl_head m" and ?m = "m\<lparr>free_next := (free_next m)(n := fl_head m)\<rparr>"
  have "fl_step P (conf m pcs out) (conf m (pcs[t := Push_store n ?h]) (out - {#n#}))"
    by (rule conf_step(1) [OF t n])
  moreover have "fl_step P (conf m (pcs[t := Push_store n ?h]) (out - {#n#}))
      (conf ?m (pcs[t := Push_cas n ?h]) (out - {#n#}))"
    using conf_step(2) [of t "pcs[t := Push_store n ?h]" n ?h P m "out - {#n#}"] t by simp
  moreover have "fl_step P (conf ?m (pcs[t := Push_cas n ?h]) (out - {#n#}))
      (conf (fl_push n m) pcs (out - {#n#}))"
    using conf_step(3) [of t "pcs[t := Push_cas n ?h]" n ?h ?m P "out - {#n#}"] t
    by (simp add: fl_push_def) (metis list_update_id)
  ultimately show ?thesis by (blast intro: fl_run.intros)
qed

lemma fl_run_pop:
  assumes t: "t < length pcs" "pcs ! t = Fl_idle" "t \<in> P" and h: "fl_head m = Some x"
  shows "fl_run P (conf m pcs out) (conf (snd (try_pop m)) pcs (out + {#x#}))"
proof -
  have "fl_step P (conf m pcs out) (conf m (pcs[t := Pop_read x]) out)"
    using conf_step(4) [OF t, of m out] h by (simp add: pop_from_def)
  moreover have "fl_step P (conf m (pcs[t := Pop_read x]) out)
      (conf m (pcs[t := Pop_cas x (free_next m x)]) out)"
    using conf_step(5) [of t "pcs[t := Pop_read x]" x P m out] t by simp
  moreover have "fl_step P (conf m (pcs[t := Pop_cas x (free_next m x)]) out)
      (conf (snd (try_pop m)) pcs (out + {#x#}))"
    using conf_step(6) [of t "pcs[t := Pop_cas x (free_next m x)]" x "free_next m x" m P out] t h
    by (simp add: try_pop_def) (metis list_update_id)
  ultimately show ?thesis by (blast intro: fl_run.intros)
qed

subsection \<open>Properties\<close>

text \<open>C7: When only one thread pops, the free list never hands out a node twice, in every
  interleaving with any number of pushing threads: each of the \<open>N\<close> nodes is on the list, held by
  one push in progress, or handed out, exactly once, and the list is well formed.\<close>

theorem freelist_one_popper_safe:
  assumes "fl_reach {p} T N s"
  shows "\<exists>xs. holds (fl_mem s) xs \<and> distinct xs \<and>
           mset xs + pushing (fl_pcs s) + fl_out s = mset [0..<N] \<and>
           (\<forall>n. count (fl_out s) n \<le> 1)"
proof -
  obtain xs where xs: "fl_inv p N s xs" using fl_reach_inv [OF assms] by blast
  then have ms: "mset xs + pushing (fl_pcs s) + fl_out s = mset [0..<N]" by (simp add: fl_inv_def)
  have "count (fl_out s) n \<le> 1" for n using once [OF ms, of n] by simp
  then show ?thesis using xs ms once_sets(1) [OF ms] by (auto simp: fl_inv_def)
qed

theorem freelist_one_popper_safe_witness:
  "\<exists>s xs. fl_reach {0} 2 3 s \<and> fl_out s = {#0, 1, 2#} - {#2#} \<and> holds (fl_mem s) xs \<and> distinct xs"
proof -
  let ?s = "conf (fl_push 2 newFreeList) [Fl_idle, Fl_idle] ({#0, 1, 2#} - {#2#})"
  have "fl_start 2 3 = conf newFreeList [Fl_idle, Fl_idle] {#0, 1, 2#}"
    by (simp add: fl_start_def conf_def numeral_eq_Suc add.commute upt_rec del: mset_upt)
  moreover have "fl_run {0} (conf newFreeList [Fl_idle, Fl_idle] {#0, 1, 2#}) ?s"
    by (rule fl_run_push [of 1]) simp_all
  ultimately have "fl_reach {0} 2 3 ?s"
    using fl_reach_run [OF _ fl_reach_start, of "{0}" 2 3] by simp
  with freelist_one_popper_safe [OF this] show ?thesis by (intro exI [of _ ?s]) (auto simp: conf_def)
qed

text \<open>With two threads that pop, as the engine has when two threads log, the exchange of a
  delayed pop can succeed on a head that was popped and pushed again: a node is then handed out
  while another thread already owns it.\<close>

theorem freelist_aba_double_owner:
  "\<exists>s. fl_reach {0, 1} 3 2 s \<and> count (fl_out s) 1 = 1 \<and> fl_head (fl_mem s) = Some 1"
proof -
  let ?P = "{0, 1 :: nat}" and ?i = "[Fl_idle, Fl_idle, Fl_idle]"
  let ?w = "[Pop_cas 0 (Some 1), Fl_idle, Fl_idle]"
  let ?m1 = "fl_push 1 newFreeList" let ?m2 = "fl_push 0 ?m1"
  let ?m3 = "snd (try_pop ?m2)" let ?m4 = "snd (try_pop ?m3)" let ?m5 = "fl_push 0 ?m4"
  have "fl_start 3 2 = conf newFreeList ?i {#0, 1#}"
    by (simp add: fl_start_def conf_def numeral_eq_Suc upt_rec del: mset_upt)
  then have r0: "fl_reach ?P 3 2 (conf newFreeList ?i {#0, 1#})" using fl_reach_start [of ?P 3 2] by simp
  have "fl_run ?P (conf newFreeList ?i {#0, 1#}) (conf ?m1 ?i {#0#})"
    using fl_run_push [of 2 ?i 1 "{#0, 1#}" ?P newFreeList] by (simp add: add_mset_commute)
  from fl_reach_run [OF this r0] have r1: "fl_reach ?P 3 2 (conf ?m1 ?i {#0#})" .
  have "fl_run ?P (conf ?m1 ?i {#0#}) (conf ?m2 ?i {#})"
    using fl_run_push [of 2 ?i 0 "{#0#}" ?P ?m1] by simp
  from fl_reach_run [OF this r1] have r2: "fl_reach ?P 3 2 (conf ?m2 ?i {#})" .
  have "fl_step ?P (conf ?m2 ?i {#}) (conf ?m2 [Pop_read 0, Fl_idle, Fl_idle] {#})"
    using conf_step(4) [of 0 ?i ?P ?m2 "{#}"] by (simp add: fl_push_def pop_from_def)
  from fl_reach_step [OF r2 this] have r3: "fl_reach ?P 3 2 (conf ?m2 [Pop_read 0, Fl_idle, Fl_idle] {#})" .
  have "fl_step ?P (conf ?m2 [Pop_read 0, Fl_idle, Fl_idle] {#}) (conf ?m2 ?w {#})"
    using conf_step(5) [of 0 "[Pop_read 0, Fl_idle, Fl_idle]" 0 ?P ?m2 "{#}"] by (simp add: fl_push_def)
  from fl_reach_step [OF r3 this] have r4: "fl_reach ?P 3 2 (conf ?m2 ?w {#})" .
  have "fl_run ?P (conf ?m2 ?w {#}) (conf ?m3 ?w {#0#})"
    using fl_run_pop [of 1 ?w ?P ?m2 0 "{#}"] by (simp add: fl_push_def)
  from fl_reach_run [OF this r4] have r5: "fl_reach ?P 3 2 (conf ?m3 ?w {#0#})" .
  have "fl_run ?P (conf ?m3 ?w {#0#}) (conf ?m4 ?w {#0, 1#})"
    using fl_run_pop [of 1 ?w ?P ?m3 1 "{#0#}"] by (simp add: fl_push_def try_pop_def add_mset_commute)
  from fl_reach_run [OF this r5] have r6: "fl_reach ?P 3 2 (conf ?m4 ?w {#0, 1#})" .
  have "fl_run ?P (conf ?m4 ?w {#0, 1#}) (conf ?m5 ?w {#1#})"
    using fl_run_push [of 2 ?w 0 "{#0, 1#}" ?P ?m4] by simp
  from fl_reach_run [OF this r6] have r7: "fl_reach ?P 3 2 (conf ?m5 ?w {#1#})" .
  have h5: "fl_head ?m5 = Some 0" by (simp add: fl_push_def)
  have "fl_step ?P (conf ?m5 ?w {#1#}) (conf (?m5\<lparr>fl_head := Some 1\<rparr>) ?i {#1, 0#})"
    using conf_step(6) [of 0 ?w 0 "Some 1" ?m5 ?P "{#1#}"] h5 by (simp add: add_mset_commute)
  from fl_reach_step [OF r7 this]
  have "fl_reach ?P 3 2 (conf (?m5\<lparr>fl_head := Some 1\<rparr>) ?i {#1, 0#})" .
  then show ?thesis by (intro exI [of _ "conf (?m5\<lparr>fl_head := Some 1\<rparr>) ?i {#1, 0#}"]) (simp add: conf_def)
qed

end
