(* ===== verification/Mpsc_Queue.thy ===== *)
theory Mpsc_Queue
  imports Free_List
begin

text \<open>
  \<open>MpscQueue\<close> of \<^verbatim>\<open>modules/logger/include/logger/core/lockfree_queue.hpp\<close>: the
  linked queue of many producers and one consumer. A pointer is the queue's own stub or a node of the
  pool; \<open>q_next\<close> is the \<open>next\<close> field of each. As for the free list: first the operations without
  interference and their contract, then all interleavings of producers and consumer, one access to
  shared memory per step. A node that \<open>pop\<close> returns stays in the queue as its dummy until the next
  pop, so it may be pushed again only after that; the \<open>pending_recycle\<close> variable of the worker is
  there for this reason.
\<close>

subsection \<open>Without interference\<close>

datatype ptr = Stub | Node nat

record MpscQueue =
  q_tail :: ptr
  q_head :: ptr
  q_next :: "ptr \<Rightarrow> ptr option"

definition newQueue :: MpscQueue where
  "newQueue = \<lparr>q_tail = Stub, q_head = Stub, q_next = (\<lambda>_. None)\<rparr>"

definition q_push :: "nat \<Rightarrow> MpscQueue \<Rightarrow> MpscQueue" where
  "q_push n q =
     (let q1 = q\<lparr>q_next := (q_next q)(Node n := None)\<rparr>;
          prev = q_tail q1;
          q2 = q1\<lparr>q_tail := Node n\<rparr>
      in q2\<lparr>q_next := (q_next q2)(prev := Some (Node n))\<rparr>)"

text \<open>\<open>pop\<close> returns a node, the null pointer, or waits for a producer to link its node; without
  a producer it would wait for ever.\<close>

datatype popped = Popped ptr | Null | Waits

definition q_pop :: "MpscQueue \<Rightarrow> popped \<times> MpscQueue" where
  "q_pop q =
     (let head = q_head q in
      case q_next q head of
        Some next \<Rightarrow> (Popped next, q\<lparr>q_head := next\<rparr>)
      | None \<Rightarrow> if q_tail q = head then (Null, q) else (Waits, q))"

definition q_empty :: "MpscQueue \<Rightarrow> bool" where
  "q_empty q \<longleftrightarrow>
     (let head = q_head q in
      case q_next q head of Some next \<Rightarrow> False | None \<Rightarrow> q_tail q = head)"

definition q_reset :: "MpscQueue \<Rightarrow> MpscQueue" where
  "q_reset q = q\<lparr>q_next := (q_next q)(Stub := None), q_head := Stub, q_tail := Stub\<rparr>"

text \<open>The nodes after the dummy; \<open>K\<close> holds the links that a producer has still to write.\<close>

fun links :: "(ptr \<Rightarrow> ptr option) \<Rightarrow> (ptr \<times> nat) set \<Rightarrow> ptr \<Rightarrow> nat list \<Rightarrow> bool" where
  "links nx K a [] \<longleftrightarrow> nx a = None"
| "links nx K a (x # xs) \<longleftrightarrow>
     nx a = (if (a, x) \<in> K then None else Some (Node x)) \<and> links nx K (Node x) xs"

lemma Node_image [simp]: "Node n \<in> Node ` S \<longleftrightarrow> n \<in> S"
  by auto

definition last_ptr :: "ptr \<Rightarrow> nat list \<Rightarrow> ptr" where
  "last_ptr a xs = last (a # map Node xs)"

definition pairs :: "ptr \<Rightarrow> nat list \<Rightarrow> (ptr \<times> nat) list" where
  "pairs a xs = zip (a # map Node xs) xs"

lemma last_ptr_simps [simp]: "last_ptr a [] = a" "last_ptr a (x # xs) = last_ptr (Node x) xs"
  "last_ptr a (xs @ [x]) = Node x"
  by (simp_all add: last_ptr_def)

lemma pairs_simps [simp]: "pairs a [] = []" "pairs a (x # xs) = (a, x) # pairs (Node x) xs"
  by (simp_all add: pairs_def)

lemma pairs_snoc: "pairs a (xs @ [x]) = pairs a xs @ [(last_ptr a xs, x)]"
  by (induction xs arbitrary: a) simp_all

lemma pairs_mem: "(p, n) \<in> set (pairs a xs) \<Longrightarrow> n \<in> set xs \<and> (p = a \<or> p \<in> Node ` set xs)"
  by (induction xs arbitrary: a) auto

lemma last_ptr_mem: "last_ptr a xs = a \<or> last_ptr a xs \<in> Node ` set xs"
  by (induction xs arbitrary: a) auto

lemma links_frame: "p \<noteq> a \<Longrightarrow> p \<notin> Node ` set xs \<Longrightarrow> links (nx(p := v)) K a xs = links nx K a xs"
  by (induction xs arbitrary: a) auto

lemma links_last: "links nx K a xs \<Longrightarrow> nx (last_ptr a xs) = None"
  by (induction xs arbitrary: a) auto

lemma links_snoc:
  "links nx K a xs \<Longrightarrow> n \<notin> set xs \<Longrightarrow> nx (Node n) = None \<Longrightarrow>
   links nx (insert (last_ptr a xs, n) K) a (xs @ [n])"
  by (induction xs arbitrary: a) auto

lemma links_K: "(\<And>e. e \<in> set (pairs a xs) \<Longrightarrow> e \<in> K \<longleftrightarrow> e \<in> K') \<Longrightarrow> links nx K a xs = links nx K' a xs"
  by (induction xs arbitrary: a) auto

lemma links_link:
  "links nx K a xs \<Longrightarrow> (p, n) \<in> set (pairs a xs) \<Longrightarrow> distinct xs \<Longrightarrow> a \<notin> Node ` set xs \<Longrightarrow>
   links (nx(p := Some (Node n))) (K - {(p, n)}) a xs"
proof (induction xs arbitrary: a)
  case (Cons x xs)
  show ?case
  proof (cases "(p, n) = (a, x)")
    case True
    have "links (nx(a := Some (Node x))) (K - {(a, x)}) (Node x) xs = links nx (K - {(a, x)}) (Node x) xs"
      using Cons.prems by (intro links_frame) auto
    also have "\<dots> = links nx K (Node x) xs"
      using Cons.prems(4) by (intro links_K) (auto dest: pairs_mem)
    finally have "links (nx(a := Some (Node x))) (K - {(a, x)}) (Node x) xs = links nx K (Node x) xs" .
    moreover have "p = a" "n = x" using True by auto
    ultimately show ?thesis using Cons.prems(1) by (simp del: fun_upd_apply) simp
  next
    case False
    then have pn: "(p, n) \<in> set (pairs (Node x) xs)" using Cons.prems(2) by auto
    have "p \<noteq> a" using pairs_mem [OF pn] Cons.prems(4) by auto
    with False Cons.IH [OF _ pn] Cons.prems show ?thesis by auto
  qed
qed simp

subsection \<open>The contract of the queue\<close>

text \<open>\<open>d\<close> is the node that serves as the dummy, \<open>None\<close> for the stub.\<close>

definition dummy_ptr :: "nat option \<Rightarrow> ptr" where
  "dummy_ptr d = (case d of None \<Rightarrow> Stub | Some n \<Rightarrow> Node n)"

definition queued :: "MpscQueue \<Rightarrow> nat option \<Rightarrow> nat list \<Rightarrow> bool" where
  "queued q d xs \<longleftrightarrow>
     q_head q = dummy_ptr d \<and> q_tail q = last_ptr (q_head q) xs \<and>
     links (q_next q) {} (q_head q) xs \<and> distinct xs \<and> q_head q \<notin> Node ` set xs"

locale fifo_queue =
  fixes empty_queue :: 's
    and push :: "nat \<Rightarrow> 's \<Rightarrow> 's"
    and pop :: "'s \<Rightarrow> popped \<times> 's"
    and is_empty :: "'s \<Rightarrow> bool"
    and reset :: "'s \<Rightarrow> 's"
    and has :: "'s \<Rightarrow> nat option \<Rightarrow> nat list \<Rightarrow> bool"
  assumes has_new: "has empty_queue None []"
    and has_push: "has q d xs \<Longrightarrow> n \<notin> set xs \<Longrightarrow> d \<noteq> Some n \<Longrightarrow> has (push n q) d (xs @ [n])"
    and pop_null: "has q d [] \<Longrightarrow> pop q = (Null, q)"
    and pop_next: "has q d (x # xs) \<Longrightarrow> fst (pop q) = Popped (Node x) \<and> has (snd (pop q)) (Some x) xs"
    and has_reset: "has q d [] \<Longrightarrow> has (reset q) None []"
    and empty_iff: "has q d xs \<Longrightarrow> is_empty q = (xs = [])"
begin

lemma push_list:
  "has q d xs \<Longrightarrow> distinct (xs @ ns) \<Longrightarrow> d \<notin> Some ` set ns \<Longrightarrow> has (fold push ns q) d (xs @ ns)"
proof (induction ns arbitrary: q xs)
  case (Cons n ns)
  have "has (push n q) d (xs @ [n])" using Cons.prems by (intro has_push) auto
  from Cons.IH [OF this] Cons.prems show ?case by simp
qed simp

lemma pop_cases:
  assumes "has q d xs"
  obtains "xs = []" "pop q = (Null, q)"
  | x ys q' where "xs = x # ys" "pop q = (Popped (Node x), q')" "has q' (Some x) ys"
  using assms by (cases xs; cases "pop q") (auto dest: pop_null pop_next)

end

lemma queued_push:
  assumes q: "queued q d xs" and n: "n \<notin> set xs" "d \<noteq> Some n"
  shows "queued (q_push n q) d (xs @ [n])"
proof -
  let ?h = "q_head q" and ?nx = "(q_next q)(Node n := None)"
  have h: "?h \<noteq> Node n" using q n(2) by (auto simp: queued_def dummy_ptr_def split: option.splits)
  have "links ?nx {} ?h xs" 
    using q links_frame [of "Node n" ?h xs "q_next q" None "{}"] h n(1) by (auto simp: queued_def)
  then have "links ?nx {(last_ptr ?h xs, n)} ?h (xs @ [n])" using links_snoc [of ?nx "{}"] n by simp
  then have "links (?nx(last_ptr ?h xs := Some (Node n))) ({(last_ptr ?h xs, n)} - {(last_ptr ?h xs, n)}) ?h (xs @ [n])"
    using q n h by (intro links_link) (auto simp: pairs_snoc queued_def)
  then show ?thesis using q n h by (auto simp: q_push_def Let_def queued_def)
qed

interpretation mpsc: fifo_queue newQueue q_push q_pop q_empty q_reset queued
proof unfold_locales
  show "queued newQueue None []" by (simp add: queued_def newQueue_def dummy_ptr_def)
next
  fix q d xs n assume "queued q d xs" "n \<notin> set xs" "d \<noteq> Some n"
  then show "queued (q_push n q) d (xs @ [n])" by (rule queued_push)
next
  fix q d assume "queued q d []"
  then show "q_pop q = (Null, q)" by (auto simp: queued_def q_pop_def Let_def)
next
  fix q d x xs assume "queued q d (x # xs)"
  then show "fst (q_pop q) = Popped (Node x) \<and> queued (snd (q_pop q)) (Some x) xs"
    by (auto simp: queued_def q_pop_def dummy_ptr_def Let_def)
next
  fix q d assume "queued q d []"
  then show "queued (q_reset q) None []" by (simp add: queued_def q_reset_def dummy_ptr_def)
next
  fix q d xs assume "queued q d xs"
  then show "q_empty q = (xs = [])" by (cases xs) (auto simp: queued_def q_empty_def Let_def)
qed

subsection \<open>With several producers\<close>

text \<open>
  A producer is about to clear the \<open>next\<close> field of \<open>n\<close> (\<open>P_clear\<close>), to exchange the tail
  (\<open>P_xchg\<close>), or to link \<open>n\<close> behind \<open>prev\<close> (\<open>P_link\<close>). The consumer's \<open>pop\<close> is at its
  first load (\<open>C_idle\<close>), at the test of the tail, or in the loop that waits for the link.
\<close>

datatype p_pc = P_idle | P_clear nat | P_xchg nat | P_link ptr nat

datatype c_pc = C_idle | C_tail | C_spin

text \<open>\<open>q_avail\<close> is the multiset of the nodes that may be pushed: all those that are neither in
  the queue nor its dummy. \<open>q_pushed\<close> and \<open>q_popped\<close> record the exchanges of the tail and the
  results of \<open>pop\<close>, \<open>q_nulls\<close> the number of null results.\<close>

record mq_sys =
  q_mem :: MpscQueue
  q_pcs :: "p_pc list"
  q_cons :: c_pc
  q_avail :: "nat multiset"
  q_pushed :: "nat list"
  q_popped :: "nat list"
  q_nulls :: nat

definition p_at :: "nat \<Rightarrow> p_pc \<Rightarrow> mq_sys \<Rightarrow> bool" where
  "p_at t pc s \<longleftrightarrow> t < length (q_pcs s) \<and> q_pcs s ! t = pc"

definition p_goto :: "nat \<Rightarrow> p_pc \<Rightarrow> mq_sys \<Rightarrow> mq_sys" where
  "p_goto t pc s = s\<lparr>q_pcs := (q_pcs s)[t := pc]\<rparr>"

definition set_next :: "ptr \<Rightarrow> ptr option \<Rightarrow> mq_sys \<Rightarrow> mq_sys" where
  "set_next p v s = s\<lparr>q_mem := (q_mem s)\<lparr>q_next := (q_next (q_mem s))(p := v)\<rparr>\<rparr>"

definition head_next :: "mq_sys \<Rightarrow> ptr option" where
  "head_next s = q_next (q_mem s) (q_head (q_mem s))"

fun node_ms :: "ptr \<Rightarrow> nat multiset" where
  "node_ms Stub = {#}"
| "node_ms (Node n) = {#n#}"

text \<open>The last assignment of \<open>pop\<close>: the head moves on, the old dummy becomes available.\<close>

definition take_next :: "nat \<Rightarrow> mq_sys \<Rightarrow> mq_sys" where
  "take_next n s =
     s\<lparr>q_mem := (q_mem s)\<lparr>q_head := Node n\<rparr>, q_cons := C_idle,
       q_avail := q_avail s + node_ms (q_head (q_mem s)), q_popped := q_popped s @ [n]\<rparr>"

inductive mq_step :: "mq_sys \<Rightarrow> mq_sys \<Rightarrow> bool" where
  mq_start_push: "p_at t P_idle s \<Longrightarrow> n \<in># q_avail s \<Longrightarrow>
    mq_step s (p_goto t (P_clear n) (s\<lparr>q_avail := q_avail s - {#n#}\<rparr>))"
| mq_clear: "p_at t (P_clear n) s \<Longrightarrow>
    mq_step s (p_goto t (P_xchg n) (set_next (Node n) None s))"
| mq_xchg: "p_at t (P_xchg n) s \<Longrightarrow>
    mq_step s (p_goto t (P_link (q_tail (q_mem s)) n)
      (s\<lparr>q_mem := (q_mem s)\<lparr>q_tail := Node n\<rparr>, q_pushed := q_pushed s @ [n]\<rparr>))"
| mq_link: "p_at t (P_link prev n) s \<Longrightarrow>
    mq_step s (p_goto t P_idle (set_next prev (Some (Node n)) s))"
| mq_pop_next: "q_cons s = C_idle \<Longrightarrow> head_next s = Some (Node n) \<Longrightarrow> mq_step s (take_next n s)"
| mq_pop_none: "q_cons s = C_idle \<Longrightarrow> head_next s = None \<Longrightarrow> mq_step s (s\<lparr>q_cons := C_tail\<rparr>)"
| mq_tail_null: "q_cons s = C_tail \<Longrightarrow> q_tail (q_mem s) = q_head (q_mem s) \<Longrightarrow>
    mq_step s (s\<lparr>q_cons := C_idle, q_nulls := q_nulls s + 1\<rparr>)"
| mq_tail_spin: "q_cons s = C_tail \<Longrightarrow> q_tail (q_mem s) \<noteq> q_head (q_mem s) \<Longrightarrow>
    mq_step s (s\<lparr>q_cons := C_spin\<rparr>)"
| mq_spin: "q_cons s = C_spin \<Longrightarrow> head_next s = None \<Longrightarrow> mq_step s s"
| mq_spin_next: "q_cons s = C_spin \<Longrightarrow> head_next s = Some (Node n) \<Longrightarrow> mq_step s (take_next n s)"

definition mq_start :: "nat \<Rightarrow> nat \<Rightarrow> mq_sys" where
  "mq_start T N = \<lparr>q_mem = newQueue, q_pcs = replicate T P_idle, q_cons = C_idle,
     q_avail = mset [0..<N], q_pushed = [], q_popped = [], q_nulls = 0\<rparr>"

inductive mq_reach :: "nat \<Rightarrow> nat \<Rightarrow> mq_sys \<Rightarrow> bool" for T N where
  mq_reach_start: "mq_reach T N (mq_start T N)"
| mq_reach_step: "mq_reach T N s \<Longrightarrow> mq_step s s' \<Longrightarrow> mq_reach T N s'"


subsection \<open>The invariant\<close>

fun link_of :: "p_pc \<Rightarrow> (ptr \<times> nat) multiset" where
  "link_of (P_link p n) = {#(p, n)#}"
| "link_of _ = {#}"

fun entering :: "p_pc \<Rightarrow> nat multiset" where
  "entering (P_clear n) = {#n#}"
| "entering (P_xchg n) = {#n#}"
| "entering _ = {#}"

definition linking :: "p_pc list \<Rightarrow> (ptr \<times> nat) multiset" where
  "linking pcs = sum_list (map link_of pcs)"

definition entering_ms :: "p_pc list \<Rightarrow> nat multiset" where
  "entering_ms pcs = sum_list (map entering pcs)"

lemmas linking_update = sum_update [where f = link_of, folded linking_def]
lemmas linking_mem = sum_mem [where f = link_of, folded linking_def]
lemmas entering_update = sum_update [where f = entering, folded entering_ms_def]
lemmas entering_mem = sum_mem [where f = entering, folded entering_ms_def]
lemmas entering_two = sum_two [where f = entering, folded entering_ms_def]

lemmas pc_updates = linking_update entering_update

definition cleared :: "(ptr \<Rightarrow> ptr option) \<Rightarrow> p_pc list \<Rightarrow> bool" where
  "cleared nx pcs \<longleftrightarrow> (\<forall>t<length pcs. \<forall>n. pcs ! t = P_xchg n \<longrightarrow> nx (Node n) = None)"

definition mq_inv :: "nat \<Rightarrow> mq_sys \<Rightarrow> nat list \<Rightarrow> bool" where
  "mq_inv N s xs \<longleftrightarrow>
     q_tail (q_mem s) = last_ptr (q_head (q_mem s)) xs \<and>
     links (q_next (q_mem s)) (set_mset (linking (q_pcs s))) (q_head (q_mem s)) xs \<and>
     linking (q_pcs s) \<subseteq># mset (pairs (q_head (q_mem s)) xs) \<and>
     mset xs + (node_ms (q_head (q_mem s)) + entering_ms (q_pcs s)) + q_avail s = mset [0..<N] \<and>
     cleared (q_next (q_mem s)) (q_pcs s) \<and>
     q_pushed s = q_popped s @ xs \<and>
     (q_cons s = C_spin \<longrightarrow> xs \<noteq> [])"

lemma node_ms_mem [simp]: "n \<in># node_ms p \<longleftrightarrow> p = Node n"
  by (cases p) auto

lemma cleared_update:
  "cleared nx pcs \<Longrightarrow> (\<And>n. q = P_xchg n \<Longrightarrow> nx (Node n) = None) \<Longrightarrow> cleared nx (pcs[t := q])"
  by (cases "t < length pcs") (auto simp: cleared_def nth_list_update split: if_splits)

lemma mq_sets:
  assumes "mq_inv N s xs"
  shows "distinct xs" and "q_head (q_mem s) \<notin> Node ` set xs"
    and "n \<in># entering_ms (q_pcs s) \<Longrightarrow> n \<notin> set xs \<and> q_head (q_mem s) \<noteq> Node n"
    and "count (entering_ms (q_pcs s)) n \<le> 1"
proof -
  have ms: "mset xs + (node_ms (q_head (q_mem s)) + entering_ms (q_pcs s)) + q_avail s = mset [0..<N]"
    using assms by (simp add: mq_inv_def)
  note sets = once_sets [OF ms]
  show "distinct xs" by (rule sets(1))
  show "q_head (q_mem s) \<notin> Node ` set xs" using sets(2) by (cases "q_head (q_mem s)") auto
  have c: "count (node_ms (q_head (q_mem s))) n + count (entering_ms (q_pcs s)) n \<le> 1"
    using once [OF ms, of n] by simp
  then show "count (entering_ms (q_pcs s)) n \<le> 1" by linarith
  show "n \<in># entering_ms (q_pcs s) \<Longrightarrow> n \<notin> set xs \<and> q_head (q_mem s) \<noteq> Node n"
  proof (intro conjI)
    assume n: "n \<in># entering_ms (q_pcs s)"
    then show "n \<notin> set xs" by (intro sets(2)) simp
    have "count (entering_ms (q_pcs s)) n \<ge> 1" using n by simp
    with c have "count (node_ms (q_head (q_mem s))) n = 0" by linarith
    then show "q_head (q_mem s) \<noteq> Node n" by auto
  qed
qed

lemma mq_start_inv: "mq_inv N (mq_start T N) []"
proof -
  have "linking (replicate T P_idle) = {#}" "entering_ms (replicate T P_idle) = {#}"
    by (induction T) (simp_all add: linking_def entering_ms_def)
  then show ?thesis by (simp add: mq_inv_def mq_start_def newQueue_def cleared_def)
qed

lemma mq_producer_inv:
  assumes inv: "mq_inv N s xs" and t: "t < length (q_pcs s)"
  shows "q_pcs s ! t = P_idle \<Longrightarrow> n \<in># q_avail s \<Longrightarrow>
      mq_inv N (p_goto t (P_clear n) (s\<lparr>q_avail := q_avail s - {#n#}\<rparr>)) xs"
    and "q_pcs s ! t = P_clear n \<Longrightarrow> mq_inv N (p_goto t (P_xchg n) (set_next (Node n) None s)) xs"
    and "q_pcs s ! t = P_xchg n \<Longrightarrow>
      mq_inv N (p_goto t (P_link (q_tail (q_mem s)) n)
        (s\<lparr>q_mem := (q_mem s)\<lparr>q_tail := Node n\<rparr>, q_pushed := q_pushed s @ [n]\<rparr>)) (xs @ [n])"
    and "q_pcs s ! t = P_link prev n \<Longrightarrow> mq_inv N (p_goto t P_idle (set_next prev (Some (Node n)) s)) xs"
proof -
  note sets = mq_sets [OF inv]
  let ?h = "q_head (q_mem s)" and ?nx = "q_next (q_mem s)"
  show "mq_inv N (p_goto t (P_clear n) (s\<lparr>q_avail := q_avail s - {#n#}\<rparr>)) xs"
    if pc: "q_pcs s ! t = P_idle" "n \<in># q_avail s"
  proof -
    obtain B where "q_avail s = add_mset n B" using pc(2) by (metis mset_add)
    then show ?thesis
      using inv pc(1) linking_update [OF t, of "P_clear n"] entering_update [OF t, of "P_clear n"]
      by (auto simp: mq_inv_def p_goto_def intro!: cleared_update)
  qed
  show "mq_inv N (p_goto t (P_xchg n) (set_next (Node n) None s)) xs" if pc: "q_pcs s ! t = P_clear n"
  proof -
    have "n \<in># entering_ms (q_pcs s)" using entering_mem [OF t, of n] pc by simp
    then have n: "n \<notin> set xs" "?h \<noteq> Node n" using sets(3) by blast+
    have "links (?nx(Node n := None)) K ?h xs = links ?nx K ?h xs" for K
      using n by (intro links_frame) auto
    moreover have "cleared (?nx(Node n := None)) (q_pcs s)" using inv by (auto simp: mq_inv_def cleared_def)
    then have "cleared (?nx(Node n := None)) ((q_pcs s)[t := P_xchg n])" by (rule cleared_update) simp
    ultimately show ?thesis
      using inv pc linking_update [OF t, of "P_xchg n"] entering_update [OF t, of "P_xchg n"]
      by (simp add: mq_inv_def p_goto_def set_next_def)
  qed
  show "mq_inv N (p_goto t (P_link (q_tail (q_mem s)) n)
        (s\<lparr>q_mem := (q_mem s)\<lparr>q_tail := Node n\<rparr>, q_pushed := q_pushed s @ [n]\<rparr>)) (xs @ [n])"
    if pc: "q_pcs s ! t = P_xchg n"
  proof -
    let ?q = "P_link (q_tail (q_mem s)) n"
    have "n \<in># entering_ms (q_pcs s)" using entering_mem [OF t, of n] pc by simp
    then have n: "n \<notin> set xs" using sets(3) by blast
    have "?nx (Node n) = None" using inv t pc by (simp add: mq_inv_def cleared_def)
    moreover have tl: "q_tail (q_mem s) = last_ptr ?h xs" using inv by (simp add: mq_inv_def)
    ultimately have "links ?nx (insert (last_ptr ?h xs, n) (set_mset (linking (q_pcs s)))) ?h (xs @ [n])"
      using inv n by (intro links_snoc) (simp_all add: mq_inv_def)
    moreover have l: "linking ((q_pcs s)[t := ?q]) = add_mset (last_ptr ?h xs, n) (linking (q_pcs s))"
      using linking_update [OF t, of ?q] pc tl by simp
    moreover have "add_mset n (entering_ms ((q_pcs s)[t := ?q])) = entering_ms (q_pcs s)"
      using entering_update [OF t, of ?q] pc by simp
    then have "mset (xs @ [n]) + (node_ms ?h + entering_ms ((q_pcs s)[t := ?q])) + q_avail s = mset [0..<N]"
      using inv unfolding mq_inv_def
      by (metis (no_types, lifting) add_mset_add_single mset_append mset_single_iff_right union_assoc
          union_commute mset.simps)
    moreover have "cleared ?nx ((q_pcs s)[t := ?q])"
      using inv by (intro cleared_update) (simp_all add: mq_inv_def)
    ultimately show ?thesis
      using inv tl by (simp add: mq_inv_def p_goto_def pairs_snoc)
  qed
  show "mq_inv N (p_goto t P_idle (set_next prev (Some (Node n)) s)) xs" if pc: "q_pcs s ! t = P_link prev n"
  proof -
    have e: "add_mset (prev, n) (linking ((q_pcs s)[t := P_idle])) = linking (q_pcs s)"
      using linking_update [OF t, of P_idle] pc by simp
    have sub: "linking (q_pcs s) \<subseteq># mset (pairs ?h xs)" using inv by (simp add: mq_inv_def)
    then have mem: "(prev, n) \<in> set (pairs ?h xs)"
      using e by (metis mset_subset_eqD set_mset_mset union_single_eq_member)
    have dp: "distinct (pairs ?h xs)" unfolding pairs_def by (rule distinct_zipI2 [OF sets(1)])
    have "count (linking (q_pcs s)) (prev, n) \<le> 1"
      using mset_subset_eq_count [OF sub, of "(prev, n)"] dp mem by (simp add: distinct_count_atmost_1)
    then have "(prev, n) \<notin># linking ((q_pcs s)[t := P_idle])"
      using e by (metis One_nat_def count_add_mset count_eq_zero_iff le_zero_eq Suc_le_mono)
    then have k: "set_mset (linking ((q_pcs s)[t := P_idle])) = set_mset (linking (q_pcs s)) - {(prev, n)}"
      using e by (metis Diff_insert_absorb set_mset_add_mset_insert)
    have "links (?nx(prev := Some (Node n))) (set_mset (linking (q_pcs s)) - {(prev, n)}) ?h xs"
      using inv mem sets(1,2) by (intro links_link) (simp_all add: mq_inv_def)
    moreover have "linking ((q_pcs s)[t := P_idle]) \<subseteq># mset (pairs ?h xs)"
      using sub unfolding e [symmetric] by (meson mset_subset_eq_insertD subset_mset.less_imp_le)
    moreover have "cleared (?nx(prev := Some (Node n))) ((q_pcs s)[t := P_idle])"
    proof -
      have "prev \<noteq> Node m" if "u < length (q_pcs s)" "q_pcs s ! u = P_xchg m" for u m
        using sets(3) [of m] entering_mem [OF that(1), of m] that(2) pairs_mem [OF mem] by auto
      then have "cleared (?nx(prev := Some (Node n))) (q_pcs s)"
        using inv by (auto simp: mq_inv_def cleared_def)
      then show ?thesis by (rule cleared_update) simp
    qed
    ultimately show ?thesis
      using inv k pc entering_update [OF t, of P_idle]
      by (simp add: mq_inv_def p_goto_def set_next_def)
  qed
qed


lemma subset_without: "A \<subseteq># add_mset e B \<Longrightarrow> e \<notin># A \<Longrightarrow> A \<subseteq># B"
  unfolding subseteq_mset_def by (metis count_add_mset count_eq_zero_iff le0)

lemma mq_take_inv:
  assumes inv: "mq_inv N s xs" and h: "head_next s = Some (Node n)"
  shows "\<exists>ys. xs = n # ys \<and> mq_inv N (take_next n s) ys"
proof -
  let ?h = "q_head (q_mem s)" and ?K = "linking (q_pcs s)"
  have l: "links (q_next (q_mem s)) (set_mset ?K) ?h xs" using inv by (simp add: mq_inv_def)
  obtain ys where xs: "xs = n # ys" and k: "(?h, n) \<notin># ?K"
    using l h by (cases xs) (auto simp: head_next_def split: if_splits)
  have "?K \<subseteq># add_mset (?h, n) (mset (pairs (Node n) ys))" using inv xs by (simp add: mq_inv_def)
  then have "?K \<subseteq># mset (pairs (Node n) ys)" using k by (rule subset_without)
  then show ?thesis using inv l xs by (auto simp: mq_inv_def take_next_def ac_simps)
qed

lemma tail_is_head:
  assumes "mq_inv N s xs"
  shows "q_tail (q_mem s) = q_head (q_mem s) \<longleftrightarrow> xs = []"
proof (cases xs rule: rev_cases)
  case Nil
  with assms show ?thesis by (simp add: mq_inv_def)
next
  case (snoc ys y)
  with assms mq_sets(2) [OF assms] show ?thesis by (auto simp: mq_inv_def)
qed

lemma mq_step_inv: "mq_step s s' \<Longrightarrow> mq_inv N s xs \<Longrightarrow> \<exists>ys. mq_inv N s' ys"
proof (induction rule: mq_step.induct)
  case (mq_start_push t s n)
  then show ?case using mq_producer_inv(1) [of N s xs t n] by (auto simp: p_at_def)
next
  case (mq_clear t n s)
  then show ?case using mq_producer_inv(2) [of N s xs t n] by (auto simp: p_at_def)
next
  case (mq_xchg t n s)
  then show ?case using mq_producer_inv(3) [of N s xs t n] by (auto simp: p_at_def)
next
  case (mq_link t prev n s)
  then show ?case using mq_producer_inv(4) [of N s xs t prev n] by (auto simp: p_at_def)
next
  case (mq_pop_next s n)
  then show ?case using mq_take_inv by blast
next
  case (mq_tail_spin s)
  then show ?case using tail_is_head [of N s xs] by (auto simp: mq_inv_def)
next
  case (mq_spin_next s n)
  then show ?case using mq_take_inv by blast
qed (auto simp: mq_inv_def)

lemma mq_reach_inv: "mq_reach T N s \<Longrightarrow> \<exists>xs. mq_inv N s xs"
  by (induction rule: mq_reach.induct) (auto intro: mq_start_inv dest: mq_step_inv)

text \<open>A queue that no producer is entering has all its links.\<close>

definition quiet :: "mq_sys \<Rightarrow> bool" where
  "quiet s \<longleftrightarrow> linking (q_pcs s) = {#}"

lemma spin_example:
  obtains s where "mq_reach 1 1 s" "q_cons s = C_spin" "q_pcs s = [P_link Stub 0]"
    "q_head (q_mem s) = Stub" "q_popped s = []" "q_pushed s = [0]"
proof -
  have s0: "mq_reach 1 1 (mq_start 1 1)" by (rule mq_reach_start)
  obtain s1 where s1: "mq_reach 1 1 s1" "q_cons s1 = C_idle" "q_pcs s1 = [P_clear 0]"
    "q_mem s1 = newQueue" "q_popped s1 = []" "q_pushed s1 = []"
    using mq_reach_step [OF s0 mq_start_push [of 0 _ 0]]
    by (auto simp: p_at_def p_goto_def mq_start_def)
  obtain s2 where s2: "mq_reach 1 1 s2" "q_cons s2 = C_idle" "q_pcs s2 = [P_xchg 0]"
    "q_mem s2 = newQueue" "q_popped s2 = []" "q_pushed s2 = []"
    using mq_reach_step [OF s1(1) mq_clear [of 0 0]] s1
    by (auto simp: p_at_def p_goto_def set_next_def newQueue_def fun_upd_idem)
  obtain s3 where s3: "mq_reach 1 1 s3" "q_cons s3 = C_idle" "q_pcs s3 = [P_link Stub 0]"
    "q_mem s3 = newQueue\<lparr>q_tail := Node 0\<rparr>" "q_popped s3 = []" "q_pushed s3 = [0]"
    using mq_reach_step [OF s2(1) mq_xchg [of 0 0]] s2
    by (auto simp: p_at_def p_goto_def newQueue_def)
  obtain s4 where s4: "mq_reach 1 1 s4" "q_cons s4 = C_tail" "q_pcs s4 = [P_link Stub 0]"
    "q_mem s4 = newQueue\<lparr>q_tail := Node 0\<rparr>" "q_popped s4 = []" "q_pushed s4 = [0]"
    using mq_reach_step [OF s3(1) mq_pop_none] s3
    by (auto simp: head_next_def newQueue_def)
  have "mq_reach 1 1 (s4\<lparr>q_cons := C_spin\<rparr>)"
    by (rule mq_reach_step [OF s4(1) mq_tail_spin]) (simp_all add: s4 newQueue_def)
  then show thesis by (rule that) (simp_all add: s4 newQueue_def)
qed

subsection \<open>Properties\<close>

text \<open>C6: In every interleaving of any number of producers with the consumer, the nodes that \<open>pop\<close>
  has returned are a prefix of the nodes in the order in which the producers exchanged the tail: no
  record is lost, duplicated or reordered. A null result is given only when every node exchanged so
  far has been popped, and no node is in the queue or entering it twice.\<close>

theorem mpsc_fifo:
  assumes "mq_reach T N s"
  shows "\<exists>xs. q_pushed s = q_popped s @ xs \<and> distinct xs \<and>
           mset xs + node_ms (q_head (q_mem s)) + entering_ms (q_pcs s) + q_avail s = mset [0..<N] \<and>
           (q_cons s = C_tail \<and> q_tail (q_mem s) = q_head (q_mem s) \<longrightarrow> xs = [])"
proof -
  obtain xs where inv: "mq_inv N s xs" using mq_reach_inv [OF assms] by blast
  then show ?thesis
    using mq_sets(1) [OF inv] tail_is_head [OF inv] by (auto simp: mq_inv_def add.assoc)
qed

theorem mpsc_fifo_witness:
  "\<exists>s xs. mq_reach 1 1 s \<and> q_pushed s = [0] \<and> q_pushed s = q_popped s @ xs \<and> distinct xs"
proof -
  obtain s where s: "mq_reach 1 1 s" "q_pushed s = [0]" by (rule spin_example)
  then show ?thesis using mpsc_fifo [OF s(1)] by blast
qed

text \<open>The wait of \<open>pop\<close> for a link ends: while the consumer spins there is a node it can
  take, or a producer whose next step is to link one behind the head; after that step the consumer's
  next load finds it.\<close>

theorem mpsc_spin_ends:
  assumes "mq_reach T N s" and "q_cons s = C_spin"
  shows "(\<exists>n. head_next s = Some (Node n)) \<or>
    (\<exists>t n. p_at t (P_link (q_head (q_mem s)) n) s \<and>
       head_next (p_goto t P_idle (set_next (q_head (q_mem s)) (Some (Node n)) s)) = Some (Node n))"
proof -
  obtain xs where inv: "mq_inv N s xs" using mq_reach_inv [OF assms(1)] by blast
  then obtain x ys where xs: "xs = x # ys" using assms(2) by (cases xs) (auto simp: mq_inv_def)
  show ?thesis
  proof (cases "(q_head (q_mem s), x) \<in># linking (q_pcs s)")
    case False
    then show ?thesis using inv xs by (auto simp: mq_inv_def head_next_def)
  next
    case True
    then obtain pc where "pc \<in> set (q_pcs s)" "(q_head (q_mem s), x) \<in># link_of pc"
      by (auto simp: linking_def)
    moreover from this(2) have "pc = P_link (q_head (q_mem s)) x" by (cases pc) auto
    ultimately obtain t where "p_at t (P_link (q_head (q_mem s)) x) s"
      by (auto simp: p_at_def in_set_conv_nth)
    then show ?thesis by (auto simp: head_next_def p_goto_def set_next_def)
  qed
qed

theorem mpsc_spin_ends_witness:
  "\<exists>s t n. mq_reach 1 1 s \<and> q_cons s = C_spin \<and>
     ((\<exists>m. head_next s = Some (Node m)) \<or> p_at t (P_link (q_head (q_mem s)) n) s)"
proof -
  obtain s where s: "mq_reach 1 1 s" "q_cons s = C_spin" by (rule spin_example)
  then show ?thesis using mpsc_spin_ends [OF s] by blast
qed

fun pop_times :: "nat \<Rightarrow> MpscQueue \<Rightarrow> popped list \<times> MpscQueue" where
  "pop_times 0 q = ([], q)"
| "pop_times (Suc n) q = (case q_pop q of (x, q') \<Rightarrow> (case pop_times n q' of (xs, q'') \<Rightarrow> (x # xs, q'')))"

lemma pop_times_has:
  "queued q d xs \<Longrightarrow> \<exists>q' d'. pop_times (length xs) q = (map (\<lambda>n. Popped (Node n)) xs, q') \<and> queued q' d' []"
proof (induction xs arbitrary: q d)
  case (Cons x xs)
  obtain q1 where q1: "q_pop q = (Popped (Node x), q1)" "queued q1 (Some x) xs"
    using Cons.prems by (rule mpsc.pop_cases) auto
  from Cons.IH [OF q1(2)] q1(1) show ?case by auto
qed auto

text \<open>Without interference a batch of pushes is popped in order and leaves the queue empty:
  the linked structure implements a first-in first-out queue, and \<open>reset\<close> gives back the stub.\<close>

theorem mpsc_sequential_fifo:
  assumes "distinct ns"
  shows "\<exists>q. pop_times (length ns) (fold q_push ns newQueue) = (map (\<lambda>n. Popped (Node n)) ns, q) \<and>
             q_pop q = (Null, q) \<and> q_empty q \<and> queued (q_reset q) None []"
proof -
  have "queued (fold q_push ns newQueue) None ns" using mpsc.push_list [OF mpsc.has_new] assms by simp
  then obtain q d where q: "pop_times (length ns) (fold q_push ns newQueue) = (map (\<lambda>n. Popped (Node n)) ns, q)"
    "queued q d []" using pop_times_has by blast
  then show ?thesis using mpsc.pop_null [OF q(2)] mpsc.empty_iff [OF q(2)] mpsc.has_reset [OF q(2)] by simp
qed

theorem mpsc_sequential_fifo_witness:
  "\<exists>q. pop_times 2 (fold q_push [4, 1] newQueue) = ([Popped (Node 4), Popped (Node 1)], q) \<and> q_empty q"
  using mpsc_sequential_fifo [of "[4, 1]"] by (auto simp: numeral_eq_Suc)

text \<open>A node must not be pushed again while it is the dummy: pushing the node just popped
  links it to itself, and every later \<open>pop\<close> returns it again. This is the self-loop that the
  worker's \<open>pending_recycle\<close> and \<open>reset\<close> avoid.\<close>

theorem mpsc_recycled_dummy_loops:
  assumes "q_pop q = (Popped (Node n), q1)" and "queued q1 (Some n) []"
  shows "pop_times k (q_push n q1) = (replicate k (Popped (Node n)), q_push n q1)"
proof (induction k)
  case (Suc k)
  have "q_pop (q_push n q1) = (Popped (Node n), q_push n q1)"
    using assms(2) by (simp add: queued_def dummy_ptr_def q_pop_def q_push_def Let_def)
  with Suc show ?case by simp
qed simp

theorem mpsc_recycled_dummy_loops_witness:
  "\<exists>q. pop_times 3 q = ([Popped (Node 7), Popped (Node 7), Popped (Node 7)], q)"
proof -
  have q: "queued (q_push 7 newQueue) None [7]" using mpsc.has_push [OF mpsc.has_new, of 7] by simp
  then obtain q1 where "q_pop (q_push 7 newQueue) = (Popped (Node 7), q1)" "queued q1 (Some 7) []"
    by (rule mpsc.pop_cases) auto
  from mpsc_recycled_dummy_loops [OF this, of 3]
  show ?thesis by (intro exI [of _ "q_push 7 q1"]) (simp add: numeral_eq_Suc)
qed

end
