(* ===== verification/Publisher_Runtime.thy ===== *)
theory Publisher_Runtime
  imports Registry_Properties
begin

text \<open>
  \<^verbatim>\<open>modules/publisher/include/publisher/runtime\<close>: sink handles, the resource store, the
  \<open>SinkTraits\<close> writers and \<open>PublisherRuntime\<close>, which routes a text to the output channel of a
  token. An output stream is an address; \<open>streams\<close> gives what has been written to each one. The \<open>file\<close>
  pointer of a \<open>FileHandle\<close> is the field \<open>fstr\<close>. A \<open>write\<close> on a stream in a good state appends its characters, which is all the code relies on.
  The socket writer of the code is a stub that writes nothing.
\<close>

subsection \<open>Handles and store\<close>

record TerminalHandle = out :: "nat option"

record FileHandle = fstr :: "nat option"

record SocketHandle = fakeFd :: int

definition kChannelCount :: nat where "kChannelCount = kMaxChannels"

record OutputResourceStore =
  terminals :: "TerminalHandle list"
  files :: "FileHandle list"
  sockets :: "SocketHandle list"

definition newStore :: OutputResourceStore where
  "newStore = \<lparr>terminals = replicate kChannelCount \<lparr>out = None\<rparr>,
               files = replicate kChannelCount \<lparr>fstr = None\<rparr>,
               sockets = replicate kChannelCount \<lparr>fakeFd = -1\<rparr>\<rparr>"

text \<open>The loop of \<open>LogEngine::store()\<close> and of \<open>main\<close> that binds every terminal to one stream.\<close>

fun bindTerminals :: "nat \<Rightarrow> nat \<Rightarrow> OutputResourceStore \<Rightarrow> OutputResourceStore" where
  "bindTerminals a 0 s = s"
| "bindTerminals a (Suc n) s =
     (let s' = bindTerminals a n s
      in s'\<lparr>terminals := (terminals s')[n := (terminals s' ! n)\<lparr>out := Some a\<rparr>]\<rparr>)"

definition kStdout :: nat where "kStdout = 1"

definition engineStore :: OutputResourceStore where
  "engineStore = bindTerminals kStdout kChannelCount newStore"

subsection \<open>Writers\<close>

type_synonym streams = "nat \<Rightarrow> string"

definition stream_write :: "nat \<Rightarrow> string \<Rightarrow> streams \<Rightarrow> streams" where
  "stream_write a s st = st(a := st a @ s)"

definition terminal_write :: "TerminalHandle \<Rightarrow> string \<Rightarrow> (streams, unit) eff" where
  "terminal_write h s st =
     (case out h of
        None \<Rightarrow> (Inl (Assertion ''TerminalHandle: null stream''), st)
      | Some a \<Rightarrow> (Inr (), stream_write a s st))"

definition file_write :: "FileHandle \<Rightarrow> string \<Rightarrow> (streams, unit) eff" where
  "file_write h s st =
     (case fstr h of
        None \<Rightarrow> (Inl (Assertion ''FileHandle: null stream''), st)
      | Some a \<Rightarrow> (Inr (), stream_write a s st))"

definition socket_write :: "SocketHandle \<Rightarrow> string \<Rightarrow> (streams, unit) eff" where
  "socket_write h s st =
     (if fakeFd h \<ge> 0 then (Inr (), st) else (Inl (Assertion ''SocketHandle: invalid fd''), st))"

subsection \<open>Publishing\<close>

definition publish_terminal ::
  "TokenRegistry \<Rightarrow> OutputResourceStore \<Rightarrow> PublishToken \<Rightarrow> string \<Rightarrow> (streams, unit) eff" where
  "publish_terminal r s t msg st =
     (case resolve r t of Inl e \<Rightarrow> (Inl e, st)
      | Inr idx \<Rightarrow> terminal_write (terminals s ! idx) msg st)"

definition publish_file ::
  "TokenRegistry \<Rightarrow> OutputResourceStore \<Rightarrow> PublishToken \<Rightarrow> string \<Rightarrow> (streams, unit) eff" where
  "publish_file r s t msg st =
     (case resolve r t of Inl e \<Rightarrow> (Inl e, st)
      | Inr idx \<Rightarrow> file_write (files s ! idx) msg st)"

definition publish_socket ::
  "TokenRegistry \<Rightarrow> OutputResourceStore \<Rightarrow> PublishToken \<Rightarrow> string \<Rightarrow> (streams, unit) eff" where
  "publish_socket r s t msg st =
     (case resolve r t of Inl e \<Rightarrow> (Inl e, st)
      | Inr idx \<Rightarrow> socket_write (sockets s ! idx) msg st)"

fun publish_view ::
  "SinkKind \<Rightarrow> TokenRegistry \<Rightarrow> OutputResourceStore \<Rightarrow> PublishToken \<Rightarrow> string \<Rightarrow> (streams, unit) eff" where
  "publish_view Terminal = publish_terminal"
| "publish_view File = publish_file"
| "publish_view Socket = publish_socket"

text \<open>The stream a channel of a sink kind writes to.\<close>

fun channel_stream :: "SinkKind \<Rightarrow> OutputResourceStore \<Rightarrow> nat \<Rightarrow> nat option" where
  "channel_stream Terminal s c = out (terminals s ! c)"
| "channel_stream File s c = fstr (files s ! c)"
| "channel_stream Socket s c = None"

lemma publish_routed:
  assumes "live r t = Some c" and "channel_stream k s c = Some a"
  shows "publish_view k r s t msg st = (Inr (), st(a := st a @ msg))"
  using assms
  by (cases k) (auto simp: publish_terminal_def publish_file_def terminal_write_def file_write_def
      stream_write_def resolve_live [symmetric])

lemma publish_dead: "live r t = None \<Longrightarrow> \<exists>e. publish_view k r s t msg st = (Inl (Assertion e), st)"
  by (cases k) (auto simp: publish_terminal_def publish_file_def publish_socket_def resolve_def live_def
      isValidToken_def split: if_splits)

lemma bindTerminals_nth:
  "n \<le> length (terminals s) \<Longrightarrow> length (terminals (bindTerminals a n s)) = length (terminals s) \<and>
   (\<forall>c<length (terminals s). out (terminals (bindTerminals a n s) ! c) =
      (if c < n then Some a else out (terminals s ! c)))"
  by (induction n) (auto simp: Let_def nth_list_update less_Suc_eq)

lemma engineStore_stdout: "c < 4 \<Longrightarrow> channel_stream Terminal engineStore c = Some kStdout"
  using bindTerminals_nth [of kChannelCount newStore kStdout]
  by (simp add: engineStore_def newStore_def kChannelCount_def kMaxChannels_def)

subsection \<open>Properties\<close>

text \<open>Publishing through a live token appends the text to the one stream bound to the
  token's channel, for a terminal and for a file sink, and changes no other stream; publishing
  through a token that is not live fails an assertion and writes nothing.\<close>

theorem publish_reaches_bound_stream:
  assumes "k \<noteq> Socket"
  shows "case resolve r t of
      Inr c \<Rightarrow> (\<forall>a. channel_stream k s c = Some a \<longrightarrow>
                 publish_view k r s t msg st = (Inr (), st(a := st a @ msg)))
    | Inl e \<Rightarrow> publish_view k r s t msg st = (Inl e, st)"
proof (cases "resolve r t")
  case (Inl e)
  then show ?thesis using assms by (cases k) (auto simp: publish_terminal_def publish_file_def)
next
  case (Inr c)
  then have "live r t = Some c" by (simp add: resolve_live)
  with Inr show ?thesis using publish_routed [of r t c] by simp
qed

theorem publish_reaches_bound_stream_witness:
  "\<exists>r. acquire newRegistry = (Inr (PublishToken 0), r) \<and>
     publish_view Terminal r engineStore (PublishToken 0) ''hi'' (\<lambda>_. []) =
       (Inr (), (\<lambda>_. [])(kStdout := ''hi''))"
proof -
  obtain r where r: "acquire newRegistry = (Inr (PublishToken 0), r)" using acquire_new by blast
  have inv: "reg_inv newRegistry" using new_exact by (simp add: reg_exact_def)
  obtain c where "c < 4" "live r = [PublishToken 0 \<mapsto> c]"
    using inv r by (rule acquire_ok) (simp add: live_new)
  then have "resolve r (PublishToken 0) = Inr c" by (simp add: resolve_live)
  with r \<open>c < 4\<close> engineStore_stdout
    publish_reaches_bound_stream [where k = Terminal and t = "PublishToken 0" and r = r and s = engineStore
      and msg = "''hi''" and st = "\<lambda>_. []"]
  show ?thesis by simp
qed

text \<open>When the store binds the channels of a sink kind to different streams, what a
  publisher with an exclusive token has written is never touched by another publisher: publishing
  through any other live token leaves the exclusive token's stream as it is.\<close>

theorem exclusive_publisher_isolated:
  assumes "reg_exact r" and "resolve r s = Inr c" and "channelModeOf r c = Inr Exclusive"
    and "t \<noteq> s" and "inj_on (channel_stream k store) {..<4}"
    and "channel_stream k store c = Some a"
  shows "snd (publish_view k r store t msg st) a = st a"
proof (cases "live r t")
  case None
  then show ?thesis using publish_dead [OF None, of k store msg st] by auto
next
  case (Some d)
  have inv: "reg_inv r" using assms(1) by (simp add: reg_exact_def)
  have s: "live r s = Some c" using assms(2) by (simp add: resolve_live)
  have cd: "c < 4" "d < 4" using live_bound [OF inv s] live_bound [OF inv Some] by simp_all
  have "d \<noteq> c"
  proof
    assume "d = c"
    then have "{s, t} \<subseteq> {x. live r x = Some c}" using s Some by auto
    then have "card {s, t} \<le> users r c"
      unfolding users_def count_val_def by (intro card_mono finite_count_val finite_live)
    moreover have "users r c \<le> 1"
      using assms(1,3) cd inv by (auto simp: reg_exact_def reg_inv_def channels_ok_def channelModeOf_def
          kMaxChannels_def)
    ultimately show False using assms(4) by simp
  qed
  then have ne: "channel_stream k store d \<noteq> Some a"
    using assms(5,6) cd by (metis inj_onD lessThan_iff)
  show ?thesis
  proof (cases "channel_stream k store d")
    case None
    then show ?thesis using Some
      by (cases k) (auto simp: publish_terminal_def publish_file_def publish_socket_def
          terminal_write_def file_write_def socket_write_def resolve_live [symmetric])
  next
    case (Some b)
    with ne publish_routed [OF \<open>live r t = Some d\<close> Some] show ?thesis by auto
  qed
qed

text \<open>Two exclusive tokens, for the witness.\<close>

lemma two_exclusive:
  obtains r c t where "reg_exact r" "resolve r (PublishToken 0) = Inr c" "channelModeOf r c = Inr Exclusive"
    "t \<noteq> PublishToken 0" "live r t \<noteq> None"
proof -
  obtain r1 where r1: "acquire newRegistry = (Inr (PublishToken 0), r1)" "freeChannelCount r1 = 3" "nextToken r1 = 1"
    by (auto simp: acquire_def popFreeChannel_def modify_def and_then_def allocateToken_def bindToken_def
      newRegistry_def setChannel_def registry_consts Let_def)
  note e1 = acquire_exact [OF new_exact r1(1)]
  have i0: "reg_inv newRegistry" and i1: "reg_inv r1" using new_exact e1 by (simp_all add: reg_exact_def)
  obtain c where c: "c < 4" "live r1 = [PublishToken 0 \<mapsto> c]" "channelMode r1 ! c = Exclusive"
    using i0 r1(1) by (rule acquire_ok) (simp add: live_new)
  obtain t r2 where r2: "acquire r1 = (Inr t, r2)"
    using acquire_err(3) [OF i1] r1(2,3) by (cases "acquire r1"; cases "fst (acquire r1)") fastforce+
  from i1 r2 obtain d where d: "live r1 t = None" "live r2 = (live r1)(t \<mapsto> d)" "channelRefCount r1 ! d = 0"
    "channelMode r2 ! d = Exclusive"
    by (rule acquire_ok) blast
  have "live r1 (PublishToken 0) = Some c" by (simp add: c(2))
  then have dc: "d \<noteq> c" using d(3) live_ref_pos [OF i1, of "PublishToken 0" c] by auto
  have t0: "t \<noteq> PublishToken 0" using d(1) c(2) by auto
  have e2: "reg_exact r2" by (rule acquire_exact [OF e1 r2])
  have res: "resolve r2 (PublishToken 0) = Inr c" using d(2) c(2) t0 by (simp add: resolve_live)
  obtain x r where pop: "popFreeChannel r1 = (Inr x, r)"
    and al: "allocateToken x (setChannel x 1 Exclusive r) = (Inr t, r2)"
    using r2 by (auto simp: acquire_eq split: prod.splits sum.splits)
  have "length (channelMode r1) = 4" using i1 by (simp add: reg_inv_def shape_ok_def)
  then have "channelMode r2 ! c = Exclusive"
    using c(1,3) pop_ok(1,5) [OF i1 pop] allocate_channels [OF al]
    by (simp add: setChannel_def nth_list_update)
  then have "channelModeOf r2 c = Inr Exclusive" using c(1) by (simp add: channelModeOf_def kMaxChannels_def)
  then show thesis using that [OF e2 res _ t0] d(2) by simp
qed

theorem exclusive_publisher_isolated_witness:
  "\<exists>r c t store. reg_exact r \<and> resolve r (PublishToken 0) = Inr c \<and> live r t \<noteq> None \<and>
     t \<noteq> PublishToken 0 \<and> snd (publish_view Terminal r store t ''hi'' (\<lambda>_. ''log'')) c = ''log''"
proof -
  obtain r c t where r: "reg_exact r" "resolve r (PublishToken 0) = Inr c" "channelModeOf r c = Inr Exclusive"
    "t \<noteq> PublishToken 0" "live r t \<noteq> None" by (rule two_exclusive)
  let ?s = "newStore\<lparr>terminals := map (\<lambda>i. \<lparr>out = Some i\<rparr>) [0..<4]\<rparr>"
  have cs: "i < 4 \<Longrightarrow> channel_stream Terminal ?s i = Some i" for i by simp
  have inj: "inj_on (channel_stream Terminal ?s) {..<4}"
    by (rule inj_onI) (metis cs lessThan_iff option.inject)
  have "c < 4" using r(3) by (simp add: channelModeOf_def kMaxChannels_def split: if_splits)
  from exclusive_publisher_isolated [OF r(1,2,3,4) inj cs [OF this], of "''hi''" "\<lambda>_. ''log''"] r
  show ?thesis by blast
qed

end
