(* ===== verification/Log_Engine.thy ===== *)
theory Log_Engine
  imports Mpsc_Queue Stream_Adapter Publisher_Runtime Registration_Handle
begin

text \<open>
  \<^verbatim>\<open>modules/logger/include/logger/core/log_engine.hpp\<close>, \<^verbatim>\<open>log_record.hpp\<close> and
  \<^verbatim>\<open>modules/logger/src/log_engine.cpp\<close>: producers take a record of the pool, store an
  envelope in it and queue it; a worker thread takes the records off the queue, publishes and
  recycles them. The pool's records are numbers: the \<open>g\<close>-th pool that \<open>init_pool_and_queue\<close>
  allocates has the records \<open>1024 * g, ..., 1024 * g + 1023\<close>, and allocating a pool frees the one
  before it. An envelope is a message tag and its payload; the two function pointers of a record are
  fixed by the type of its envelope. \<open>FreeList::try_pop\<close> takes a step for each of its accesses to
  shared memory, so that other threads run between its load of the head and its exchange; a push to the free list and an
  operation of the queue are one step here, and \<open>Free_List\<close> and \<open>Mpsc_Queue\<close> are about their interleavings.
  So is the allocation of the pool with its 1024 pushes.
\<close>

subsection \<open>The engine's state\<close>

type_synonym envelope = "MsgTag \<times> RequestPayload"

record LogEngine =
  eng_registry :: TokenRegistry
  eng_store :: OutputResourceStore
  publishHandle :: RegistrationHandle
  pool_gen :: nat
  pool_size :: nat
  freelist :: FreeList
  queue :: MpscQueue
  eng_run :: bool
  dropped :: "64 word"
  enqueued :: "64 word"
  written :: "64 word"
  storage :: "nat \<Rightarrow> envelope option"
  line_buf :: FixedStringBuf
  eng_streams :: streams

text \<open>The constructor: the handle takes an exclusive token from the engine's own registry.\<close>

definition newEngine :: "streams \<Rightarrow> LogEngine result" where
  "newEngine st =
     (case acquire newRegistry of
        (Inl e, r) \<Rightarrow> Inl e
      | (Inr t, r) \<Rightarrow> Inr
         \<lparr>eng_registry = r, eng_store = engineStore,
          publishHandle = \<lparr>h_registry = Some 0, h_token = t\<rparr>,
          pool_gen = 0, pool_size = 0, freelist = newFreeList, queue = newQueue, eng_run = False,
          dropped = 0, enqueued = 0, written = 0, storage = (\<lambda>_. None),
          line_buf = newBuf 1024, eng_streams = st\<rparr>)"

definition kPoolSize :: nat where "kPoolSize = 1024"

definition init_pool_and_queue :: "LogEngine \<Rightarrow> LogEngine" where
  "init_pool_and_queue e =
     (let g = pool_gen e
      in e\<lparr>pool_size := kPoolSize, pool_gen := g + 1,
           freelist := fold fl_push [g * kPoolSize ..< (g + 1) * kPoolSize] (freelist e)\<rparr>)"

text \<open>The records of the pool that is allocated now.\<close>

definition live_records :: "LogEngine \<Rightarrow> nat set" where
  "live_records e =
     (if pool_gen e = 0 then {} else {(pool_gen e - 1) * kPoolSize ..< pool_gen e * kPoolSize})"

text \<open>\<open>acquire_record\<close> as one call that nothing disturbs; the threads below take its steps one by one.\<close>

definition acquire_record :: "LogEngine \<Rightarrow> nat option \<times> LogEngine" where
  "acquire_record e = (case try_pop (freelist e) of (n, f) \<Rightarrow> (n, e\<lparr>freelist := f\<rparr>))"

definition push_to_queue :: "nat \<Rightarrow> LogEngine \<Rightarrow> LogEngine" where
  "push_to_queue n e = e\<lparr>queue := q_push n (queue e)\<rparr>"

definition count_drop :: "LogEngine \<Rightarrow> LogEngine" where
  "count_drop e = e\<lparr>dropped := dropped e + 1\<rparr>"

definition fill_record :: "envelope \<Rightarrow> nat \<Rightarrow> LogEngine \<Rightarrow> LogEngine" where
  "fill_record env n e = e\<lparr>storage := (storage e)(n \<mapsto> env)\<rparr>"

definition count_enqueued :: "LogEngine \<Rightarrow> LogEngine" where
  "count_enqueued e = e\<lparr>enqueued := enqueued e + 1\<rparr>"

text \<open>\<open>submit_impl\<close>: print into the thread's buffer, publish the view through the handle's token.\<close>

definition submit_impl :: "envelope \<Rightarrow> LogEngine \<Rightarrow> LogEngine" where
  "submit_impl env e =
     (case adapter [debug_print (fst env) (snd env)] (line_buf e) of
        (v, b) \<Rightarrow>
          e\<lparr>line_buf := b,
            eng_streams := snd (publish_view Terminal (eng_registry e) (eng_store e)
                                  (h_token (publishHandle e)) v (eng_streams e))\<rparr>)"

definition destroy_impl :: "nat \<Rightarrow> LogEngine \<Rightarrow> LogEngine" where
  "destroy_impl n e = e\<lparr>storage := (storage e)(n := None)\<rparr>"

definition recycle :: "nat option \<Rightarrow> LogEngine \<Rightarrow> LogEngine" where
  "recycle pending e =
     (case pending of None \<Rightarrow> e | Some n \<Rightarrow> e\<lparr>freelist := fl_push n (freelist e)\<rparr>)"

text \<open>What the worker does with a record it has popped; a record without an envelope would be a
  call through a stale function pointer.\<close>

definition process :: "nat option \<Rightarrow> nat \<Rightarrow> LogEngine \<Rightarrow> LogEngine result" where
  "process pending n e =
     (let e1 = recycle pending e in
      case storage e1 n of
        None \<Rightarrow> Inl (Undefined ''record without an envelope'')
      | Some env \<Rightarrow>
          (let e2 = destroy_impl n (submit_impl env e1)
           in Inr (e2\<lparr>written := written e2 + 1\<rparr>)))"

subsection \<open>The worker\<close>

text \<open>The worker is in its loop or draining, with its \<open>pending_recycle\<close>; about to reset the
  queue; about to recycle the last record; at its end, not yet joined; or there is no worker.\<close>

datatype worker =
    No_worker
  | W_loop "nat option"
  | W_drain "nat option"
  | W_reset "nat option"
  | W_last "nat option"
  | W_done

fun worker_step :: "worker \<Rightarrow> LogEngine \<Rightarrow> (worker \<times> LogEngine) result" where
  "worker_step (W_loop p) e =
     (if eng_run e \<or> \<not> q_empty (queue e)
      then (case q_pop (queue e) of
              (Popped (Node n), q) \<Rightarrow>
                (case process p n (e\<lparr>queue := q\<rparr>) of
                   Inl x \<Rightarrow> Inl x | Inr e' \<Rightarrow> Inr (W_loop (Some n), e'))
            | (Popped Stub, q) \<Rightarrow> Inl (Undefined ''the stub is not a record'')
            | (Null, q) \<Rightarrow> Inr (W_loop p, e\<lparr>queue := q\<rparr>)
            | (Waits, q) \<Rightarrow> Inr (W_loop p, e))
      else Inr (W_drain p, e))"
| "worker_step (W_drain p) e =
     (case q_pop (queue e) of
        (Popped (Node n), q) \<Rightarrow>
          (case process p n (e\<lparr>queue := q\<rparr>) of
             Inl x \<Rightarrow> Inl x | Inr e' \<Rightarrow> Inr (W_drain (Some n), e'))
      | (Popped Stub, q) \<Rightarrow> Inl (Undefined ''the stub is not a record'')
      | (Null, q) \<Rightarrow> Inr (W_reset p, e\<lparr>queue := q\<rparr>)
      | (Waits, q) \<Rightarrow> Inr (W_drain p, e))"
| "worker_step (W_reset p) e = Inr (W_last p, e\<lparr>queue := q_reset (queue e)\<rparr>)"
| "worker_step (W_last p) e = Inr (W_done, recycle p e)"
| "worker_step w e = Inr (w, e)"

subsection \<open>The client threads\<close>

text \<open>
  A call of \<open>enqueue\<close>: the exchange of \<open>ensure_running\<close> (\<open>Pr_idle\<close>); for the thread that wins
  it, allocating the pool and starting the worker; taking a record, which is loading the head of the free list
  (\<open>Pr_acquire\<close>), reading \<open>free_next\<close> of the record seen there (\<open>Pr_pop_next\<close>) and the compare-and-exchange
  (\<open>Pr_pop_cas\<close>, with the two pointers read); counting a dropped message when the list was seen empty; storing the
  envelope; queueing; counting. A call of \<open>shutdown\<close>: the exchange (\<open>Pr_idle\<close>), then waiting for the worker.
\<close>

datatype client =
    Pr_idle
  | Pr_init envelope
  | Pr_spawn envelope
  | Pr_acquire envelope
  | Pr_pop_next envelope nat
  | Pr_pop_cas envelope nat "nat option"
  | Pr_drop
  | Pr_fill envelope nat
  | Pr_push envelope nat
  | Pr_count
  | Pr_join

text \<open>After the head of the free list has been read as \<open>h\<close>.\<close>

definition pop_seen :: "envelope \<Rightarrow> nat option \<Rightarrow> client" where
  "pop_seen env h = (case h of None \<Rightarrow> Pr_drop | Some n \<Rightarrow> Pr_pop_next env n)"

fun popping :: "client \<Rightarrow> bool" where
  "popping (Pr_pop_next env h) \<longleftrightarrow> True"
| "popping (Pr_pop_cas env h nx) \<longleftrightarrow> True"
| "popping _ \<longleftrightarrow> False"

text \<open>\<open>eng_crash\<close> holds the failure after which the program is undefined or terminated. The ghost
  \<open>eng_accepted\<close> lists the envelopes in the order they were queued, \<open>eng_calls\<close> counts the
  calls of \<open>enqueue\<close> that have returned.\<close>

record eng_sys =
  engine :: LogEngine
  clients :: "client list"
  eng_worker :: worker
  eng_crash :: "failure option"
  eng_accepted :: "envelope list"
  eng_calls :: nat

definition c_at :: "nat \<Rightarrow> client \<Rightarrow> eng_sys \<Rightarrow> bool" where
  "c_at t c s \<longleftrightarrow> eng_crash s = None \<and> t < length (clients s) \<and> clients s ! t = c"

definition c_goto :: "nat \<Rightarrow> client \<Rightarrow> LogEngine \<Rightarrow> eng_sys \<Rightarrow> eng_sys" where
  "c_goto t c e s = s\<lparr>clients := (clients s)[t := c], engine := e\<rparr>"

text \<open>The threads interleave at these steps.  Without \<open>shutdowns\<close> nobody calls \<open>shutdown\<close>.  Without \<open>overlap\<close> a call of
  \<open>try_pop\<close> loads the head only when no other call of \<open>try_pop\<close> is under way; with it, calls of \<open>try_pop\<close> overlap
  freely and the exchange of one may succeed on a head that has gone and come back. The weak compare-and-exchange may
  fail at any time (\<open>en_retry\<close>).\<close>

inductive eng_step :: "bool \<Rightarrow> bool \<Rightarrow> eng_sys \<Rightarrow> eng_sys \<Rightarrow> bool" for shutdowns overlap where
  en_cas_won: "c_at t Pr_idle s \<Longrightarrow> \<not> eng_run (engine s) \<Longrightarrow>
    eng_step shutdowns overlap s (c_goto t (Pr_init env) ((engine s)\<lparr>eng_run := True\<rparr>) s)"
| en_cas_lost: "c_at t Pr_idle s \<Longrightarrow> eng_run (engine s) \<Longrightarrow>
    eng_step shutdowns overlap s (c_goto t (Pr_acquire env) (engine s) s)"
| en_init: "c_at t (Pr_init env) s \<Longrightarrow>
    eng_step shutdowns overlap s (c_goto t (Pr_spawn env) (init_pool_and_queue (engine s)) s)"
| en_spawn: "c_at t (Pr_spawn env) s \<Longrightarrow> eng_worker s = No_worker \<Longrightarrow>
    eng_step shutdowns overlap s ((c_goto t (Pr_acquire env) (engine s) s)\<lparr>eng_worker := W_loop None\<rparr>)"
| en_spawn_terminates: "c_at t (Pr_spawn env) s \<Longrightarrow> eng_worker s \<noteq> No_worker \<Longrightarrow>
    eng_step shutdowns overlap s (s\<lparr>eng_crash := Some (Undefined ''std::terminate: thread is joinable'')\<rparr>)"
| en_load: "c_at t (Pr_acquire env) s \<Longrightarrow> overlap \<or> \<not> list_ex popping (clients s) \<Longrightarrow>
    eng_step shutdowns overlap s (c_goto t (pop_seen env (fl_head (freelist (engine s)))) (engine s) s)"
| en_next: "c_at t (Pr_pop_next env h) s \<Longrightarrow>
    eng_step shutdowns overlap s (c_goto t (Pr_pop_cas env h (free_next (freelist (engine s)) h)) (engine s) s)"
| en_pop: "c_at t (Pr_pop_cas env h nx) s \<Longrightarrow> fl_head (freelist (engine s)) = Some h \<Longrightarrow>
    eng_step shutdowns overlap s (c_goto t (Pr_fill env h)
      ((engine s)\<lparr>freelist := (freelist (engine s))\<lparr>fl_head := nx\<rparr>\<rparr>) s)"
| en_retry: "c_at t (Pr_pop_cas env h nx) s \<Longrightarrow>
    eng_step shutdowns overlap s (c_goto t (pop_seen env (fl_head (freelist (engine s)))) (engine s) s)"
| en_drop: "c_at t Pr_drop s \<Longrightarrow>
    eng_step shutdowns overlap s ((c_goto t Pr_idle (count_drop (engine s)) s)\<lparr>eng_calls := eng_calls s + 1\<rparr>)"
| en_fill: "c_at t (Pr_fill env n) s \<Longrightarrow>
    eng_step shutdowns overlap s (c_goto t (Pr_push env n) (fill_record env n (engine s)) s)"
| en_push: "c_at t (Pr_push env n) s \<Longrightarrow>
    eng_step shutdowns overlap s ((c_goto t Pr_count (push_to_queue n (engine s)) s)
      \<lparr>eng_accepted := eng_accepted s @ [env]\<rparr>)"
| en_count: "c_at t Pr_count s \<Longrightarrow>
    eng_step shutdowns overlap s ((c_goto t Pr_idle (count_enqueued (engine s)) s)\<lparr>eng_calls := eng_calls s + 1\<rparr>)"
| en_worker: "eng_crash s = None \<Longrightarrow> worker_step (eng_worker s) (engine s) = Inr (w, e) \<Longrightarrow>
    eng_step shutdowns overlap s (s\<lparr>eng_worker := w, engine := e\<rparr>)"
| en_worker_fails: "eng_crash s = None \<Longrightarrow> worker_step (eng_worker s) (engine s) = Inl x \<Longrightarrow>
    eng_step shutdowns overlap s (s\<lparr>eng_crash := Some x\<rparr>)"
| en_shutdown: "shutdowns \<Longrightarrow> c_at t Pr_idle s \<Longrightarrow> eng_run (engine s) \<Longrightarrow>
    eng_step shutdowns overlap s (c_goto t Pr_join ((engine s)\<lparr>eng_run := False\<rparr>) s)"
| en_join: "c_at t Pr_join s \<Longrightarrow> eng_worker s = W_done \<or> eng_worker s = No_worker \<Longrightarrow>
    eng_step shutdowns overlap s ((c_goto t Pr_idle (engine s) s)\<lparr>eng_worker := No_worker\<rparr>)"

definition eng_start :: "nat \<Rightarrow> LogEngine \<Rightarrow> eng_sys" where
  "eng_start T e = \<lparr>engine = e, clients = replicate T Pr_idle, eng_worker = No_worker,
     eng_crash = None, eng_accepted = [], eng_calls = 0\<rparr>"

inductive eng_reach :: "bool \<Rightarrow> bool \<Rightarrow> nat \<Rightarrow> streams \<Rightarrow> eng_sys \<Rightarrow> bool" for shutdowns overlap T st where
  eng_reach_start: "newEngine st = Inr e \<Longrightarrow> eng_reach shutdowns overlap T st (eng_start T e)"
| eng_reach_step: "eng_reach shutdowns overlap T st s \<Longrightarrow> eng_step shutdowns overlap s s' \<Longrightarrow> eng_reach shutdowns overlap T st s'"

end
