(* ===== verification/Engine_Laws.thy ===== *)
theory Engine_Laws
  imports Log_Engine
begin

text \<open>
  The invariant of the log engine while nobody shuts it down: each record of the pool is free, in
  the hands of a producer, queued, or the queue's dummy; the queued records hold the envelopes that
  were accepted and not yet written; the counters count; and the output is what the envelopes
  written so far print.
\<close>

subsection \<open>The parts of the invariant\<close>

definition line_of :: "envelope \<Rightarrow> string" where
  "line_of env = debug_print (fst env) (snd env)"

definition pending :: "worker \<Rightarrow> nat option" where
  "pending w = (case w of W_loop p \<Rightarrow> p | _ \<Rightarrow> None)"

fun in_hand :: "client \<Rightarrow> nat multiset" where
  "in_hand (Pr_fill env n) = {#n#}"
| "in_hand (Pr_push env n) = {#n#}"
| "in_hand _ = {#}"

fun starter :: "client \<Rightarrow> nat multiset" where
  "starter (Pr_init env) = {#0#}"
| "starter (Pr_spawn env) = {#1#}"
| "starter _ = {#}"

fun counting :: "client \<Rightarrow> unit multiset" where
  "counting Pr_count = {#()#}"
| "counting _ = {#}"

definition held_by :: "client list \<Rightarrow> nat multiset" where
  "held_by cs = sum_list (map in_hand cs)"

definition starters :: "client list \<Rightarrow> nat multiset" where
  "starters cs = sum_list (map starter cs)"

definition counters :: "client list \<Rightarrow> unit multiset" where
  "counters cs = sum_list (map counting cs)"

lemmas held_update = sum_update [where f = in_hand, folded held_by_def]
lemmas held_mem = sum_mem [where f = in_hand, folded held_by_def]
lemmas held_other = sum_two [where f = in_hand, folded held_by_def]
lemmas starters_update = sum_update [where f = starter, folded starters_def]
lemmas starters_mem = sum_mem [where f = starter, folded starters_def]
lemmas counters_update = sum_update [where f = counting, folded counters_def]

definition node_opt :: "nat option \<Rightarrow> nat multiset" where
  "node_opt p = (case p of None \<Rightarrow> {#} | Some n \<Rightarrow> {#n#})"

lemma node_opt_simps [simp]: "node_opt None = {#}" "node_opt (Some n) = {#n#}"
  by (simp_all add: node_opt_def)

definition pool_count :: "LogEngine \<Rightarrow> nat" where
  "pool_count e = (if pool_gen e = 0 then 0 else kPoolSize)"

definition pushes_stored :: "(nat \<Rightarrow> envelope option) \<Rightarrow> client list \<Rightarrow> bool" where
  "pushes_stored store cs \<longleftrightarrow> (\<forall>t<length cs. \<forall>env n. cs ! t = Pr_push env n \<longrightarrow> store n = Some env)"

lemma pushes_stored_update:
  "pushes_stored store cs \<Longrightarrow> (\<And>env n. c = Pr_push env n \<Longrightarrow> store n = Some env) \<Longrightarrow> pushes_stored store (cs[t := c])"
  by (cases "t < length cs") (auto simp: pushes_stored_def nth_list_update split: if_splits)

fun at_push :: "client \<Rightarrow> bool" where
  "at_push (Pr_push env n) \<longleftrightarrow> True"
| "at_push _ \<longleftrightarrow> False"

lemma pushes_stored_keep: "pushes_stored store cs \<Longrightarrow> \<not> at_push c \<Longrightarrow> pushes_stored store (cs[t := c])"
  by (rule pushes_stored_update) auto

text \<open>What a call of \<open>try_pop\<close> under way has read is still true, and there is one such call at most.\<close>

fun pop_ok :: "FreeList \<Rightarrow> nat list \<Rightarrow> client \<Rightarrow> bool" where
  "pop_ok f free (Pr_pop_next env h) \<longleftrightarrow> h \<in> set free"
| "pop_ok f free (Pr_pop_cas env h nx) \<longleftrightarrow> h \<in> set free \<and> free_next f h = nx"
| "pop_ok f free _ \<longleftrightarrow> True"

lemma pop_ok_idle [simp]: "\<not> popping c \<Longrightarrow> pop_ok f free c"
  by (cases c) auto

definition pops_ok :: "FreeList \<Rightarrow> nat list \<Rightarrow> client list \<Rightarrow> bool" where
  "pops_ok f free cs \<longleftrightarrow> (\<forall>t<length cs. pop_ok f free (cs ! t)) \<and>
     (\<forall>t<length cs. \<forall>u<length cs. popping (cs ! t) \<longrightarrow> popping (cs ! u) \<longrightarrow> t = u)"

lemma pops_ok_update:
  "pops_ok f free cs \<Longrightarrow> \<not> popping c \<Longrightarrow> pops_ok f free (cs[t := c])"
  by (cases "t < length cs") (auto simp: pops_ok_def nth_list_update split: if_splits)

text \<open>The one call under way reads again, or a first call begins.\<close>

lemma pops_ok_popper:
  "pops_ok f free cs \<Longrightarrow> t < length cs \<Longrightarrow> popping (cs ! t) \<or> \<not> list_ex popping cs \<Longrightarrow> pop_ok f free c \<Longrightarrow>
   pops_ok f free (cs[t := c])"
  by (auto simp: pops_ok_def nth_list_update list_ex_length)

lemma pops_ok_empty: "pops_ok f [] cs \<Longrightarrow> pops_ok f' free' cs"
proof -
  assume p: "pops_ok f [] cs"
  have "\<not> popping (cs ! t)" if "t < length cs" for t
    using p that by (cases "cs ! t") (auto simp: pops_ok_def)
  then show ?thesis by (auto simp: pops_ok_def)
qed

text \<open>The call under way takes the head.\<close>

lemma pops_ok_taken:
  assumes "pops_ok f free cs" "t < length cs" "popping (cs ! t)" "\<not> popping c"
  shows "pops_ok f' free' (cs[t := c])"
proof -
  have "\<not> popping (cs[t := c] ! u)" if "u < length cs" for u
    using assms that by (cases "u = t") (auto simp: pops_ok_def)
  then show ?thesis by (auto simp: pops_ok_def)
qed

lemma pops_ok_push:
  "pops_ok f free cs \<Longrightarrow> n \<notin> set free \<Longrightarrow> pops_ok (fl_push n f) (n # free) cs"
proof -
  assume p: "pops_ok f free cs" and n: "n \<notin> set free"
  have "pop_ok (fl_push n f) (n # free) c" if "pop_ok f free c" for c
    using that n by (cases c) (auto simp: fl_push_def)
  with p show ?thesis by (simp add: pops_ok_def)
qed

definition records_ok :: "LogEngine \<Rightarrow> client list \<Rightarrow> nat option \<Rightarrow> nat list \<Rightarrow> nat list \<Rightarrow> bool" where
  "records_ok e cs p free qs \<longleftrightarrow>
     holds (freelist e) free \<and> queued (queue e) p qs \<and>
     mset free + (held_by cs + node_opt p) + mset qs = mset [0..<pool_count e] \<and>
     (\<forall>n \<in> set qs. storage e n \<noteq> None) \<and>
     pushes_stored (storage e) cs \<and> pops_ok (freelist e) free cs"

definition phase_ok :: "LogEngine \<Rightarrow> client list \<Rightarrow> worker \<Rightarrow> bool" where
  "phase_ok e cs w \<longleftrightarrow>
     (if starters cs = {#} then
        (\<not> eng_run e \<and> pool_gen e = 0 \<and> w = No_worker) \<or>
        (eng_run e \<and> pool_gen e = 1 \<and> (\<exists>p. w = W_loop p))
      else eng_run e \<and> w = No_worker \<and>
        ((starters cs = {#0#} \<and> pool_gen e = 0) \<or> (starters cs = {#1#} \<and> pool_gen e = 1)))"

definition tallies_ok :: "LogEngine \<Rightarrow> client list \<Rightarrow> envelope list \<Rightarrow> nat \<Rightarrow> bool" where
  "tallies_ok e cs accepted calls \<longleftrightarrow>
     enqueued e + of_nat (size (counters cs)) = of_nat (length accepted) \<and>
     dropped e + enqueued e = of_nat calls"

definition output_ok ::
  "LogEngine \<Rightarrow> streams \<Rightarrow> envelope list \<Rightarrow> envelope list \<Rightarrow> nat list \<Rightarrow> bool" where
  "output_ok e st accepted done qs \<longleftrightarrow>
     accepted = done @ map (\<lambda>n. the (storage e n)) qs \<and>
     written e = of_nat (length done) \<and>
     eng_streams e = st(kStdout := st kStdout @ concat (map line_of done)) \<and>
     buf_ok 1024 (line_buf e) \<and> eng_store e = engineStore \<and>
     (\<exists>c<4. resolve (eng_registry e) (h_token (publishHandle e)) = Inr c)"

definition no_join :: "client list \<Rightarrow> bool" where
  "no_join cs \<longleftrightarrow> Pr_join \<notin> set cs"

lemma no_join_update: "no_join cs \<Longrightarrow> c \<noteq> Pr_join \<Longrightarrow> no_join (cs[t := c])"
  unfolding no_join_def using set_update_subset_insert [of cs t c] by auto

definition eng_inv ::
  "streams \<Rightarrow> eng_sys \<Rightarrow> nat list \<Rightarrow> nat list \<Rightarrow> envelope list \<Rightarrow> bool" where
  "eng_inv st s free qs done \<longleftrightarrow>
     eng_crash s = None \<and> no_join (clients s) \<and>
     records_ok (engine s) (clients s) (pending (eng_worker s)) free qs \<and>
     phase_ok (engine s) (clients s) (eng_worker s) \<and>
     tallies_ok (engine s) (clients s) (eng_accepted s) (eng_calls s) \<and>
     output_ok (engine s) st (eng_accepted s) done qs"

subsection \<open>The start\<close>

lemma held_idle: "held_by (replicate T Pr_idle) = {#}"
  and starters_idle: "starters (replicate T Pr_idle) = {#}"
  and counters_idle: "counters (replicate T Pr_idle) = {#}"
  by (induction T) (simp_all add: held_by_def starters_def counters_def)

lemma newEngine_ok:
  obtains e where "newEngine st = Inr e"
    "e = \<lparr>eng_registry = eng_registry e, eng_store = engineStore,
          publishHandle = \<lparr>h_registry = Some 0, h_token = PublishToken 0\<rparr>,
          pool_gen = 0, pool_size = 0, freelist = newFreeList, queue = newQueue, eng_run = False,
          dropped = 0, enqueued = 0, written = 0, storage = (\<lambda>_. None),
          line_buf = newBuf 1024, eng_streams = st\<rparr>"
    "\<exists>c<4. resolve (eng_registry e) (PublishToken 0) = Inr c"
proof -
  obtain r where r: "acquire newRegistry = (Inr (PublishToken 0), r)" using acquire_new by blast
  have inv: "reg_inv newRegistry" using new_exact by (simp add: reg_exact_def)
  obtain c where "c < 4" "live r = [PublishToken 0 \<mapsto> c]"
    using inv r by (rule acquire_ok) (simp add: live_new)
  then have "\<exists>c<4. resolve r (PublishToken 0) = Inr c" by (auto simp: resolve_live)
  then show thesis using that r by (simp add: newEngine_def)
qed

lemma eng_start_inv: "newEngine st = Inr e \<Longrightarrow> eng_inv st (eng_start T e) [] [] []"
proof -
  assume e: "newEngine st = Inr e"
  obtain e' where "newEngine st = Inr e'" and
    e': "e' = \<lparr>eng_registry = eng_registry e', eng_store = engineStore,
          publishHandle = \<lparr>h_registry = Some 0, h_token = PublishToken 0\<rparr>,
          pool_gen = 0, pool_size = 0, freelist = newFreeList, queue = newQueue, eng_run = False,
          dropped = 0, enqueued = 0, written = 0, storage = (\<lambda>_. None),
          line_buf = newBuf 1024, eng_streams = st\<rparr>"
    and tok: "\<exists>c<4. resolve (eng_registry e') (PublishToken 0) = Inr c"
    by (rule newEngine_ok)
  with e have "e' = e" by simp
  note e = e' [unfolded this] and tok = tok [unfolded this]
  have "records_ok e (replicate T Pr_idle) None [] []"
    by (subst e) (simp add: records_ok_def held_idle pool_count_def treiber.has_empty mpsc.has_new
        pushes_stored_def pops_ok_def)
  moreover have "phase_ok e (replicate T Pr_idle) No_worker"
    by (subst e) (simp add: phase_ok_def starters_idle)
  moreover have "tallies_ok e (replicate T Pr_idle) [] 0"
    by (subst e) (simp add: tallies_ok_def counters_idle)
  moreover have "output_ok e st [] [] []"
    using tok by (subst e, subst (asm) e) (simp add: output_ok_def new_buf_ok)
  ultimately show ?thesis by (simp add: eng_inv_def eng_start_def pending_def no_join_def)
qed

subsection \<open>The worker\<close>

lemma submit_ok:
  assumes "buf_ok 1024 (line_buf e)" and "eng_store e = engineStore"
    and "resolve (eng_registry e) (h_token (publishHandle e)) = Inr c" and "c < 4"
  shows "\<exists>b. buf_ok 1024 b \<and> submit_impl env e =
    e\<lparr>line_buf := b, eng_streams := (eng_streams e)(kStdout := eng_streams e kStdout @ line_of env)\<rparr>"
proof -
  obtain v b where vb: "adapter [debug_print (fst env) (snd env)] (line_buf e) = (v, b)" by fastforce
  have "v = line_of env" "buf_ok 1024 b"
    using adapter_ok [OF assms(1), of "[debug_print (fst env) (snd env)]"] vb
      debug_print_length [of "fst env" "snd env"] by (simp_all add: line_of_def)
  moreover have "publish_view Terminal (eng_registry e) engineStore (h_token (publishHandle e)) m st =
      (Inr (), st(kStdout := st kStdout @ m))" for m st
    using publish_routed [of "eng_registry e" _ c Terminal] assms(3) engineStore_stdout [OF assms(4)]
    by (simp add: resolve_live)
  ultimately show ?thesis using vb assms(2) by (auto simp: submit_impl_def)
qed


definition opt_list :: "nat option \<Rightarrow> nat list" where
  "opt_list p = (case p of None \<Rightarrow> [] | Some n \<Rightarrow> [n])"

lemma opt_list_simps [simp]: "opt_list None = []" "opt_list (Some n) = [n]"
  by (simp_all add: opt_list_def)

lemma recycle_holds:
  "holds (freelist e) free \<Longrightarrow> set (opt_list p) \<inter> set free = {} \<Longrightarrow>
   holds (freelist (recycle p e)) (opt_list p @ free)"
  by (cases p) (auto simp: recycle_def intro: treiber.has_push)

lemma recycle_frame [simp]:
  "queue (recycle p e) = queue e" "storage (recycle p e) = storage e" "eng_run (recycle p e) = eng_run e"
  "line_buf (recycle p e) = line_buf e" "eng_store (recycle p e) = eng_store e"
  "eng_registry (recycle p e) = eng_registry e" "publishHandle (recycle p e) = publishHandle e"
  "eng_streams (recycle p e) = eng_streams e" "written (recycle p e) = written e"
  "enqueued (recycle p e) = enqueued e" "dropped (recycle p e) = dropped e"
  "pool_gen (recycle p e) = pool_gen e" "pool_size (recycle p e) = pool_size e"
  by (cases p; simp add: recycle_def)+

lemma process_ok:
  assumes out: "output_ok e st accepted done (n # qs)" and stored: "storage e n \<noteq> None" "n \<notin> set qs"
  shows "\<exists>e'. process p n e = Inr e' \<and> output_ok e' st accepted (done @ [the (storage e n)]) qs \<and>
    freelist e' = freelist (recycle p e) \<and> queue e' = queue e \<and> storage e' = (storage e)(n := None) \<and>
    eng_run e' = eng_run e \<and> pool_gen e' = pool_gen e \<and> enqueued e' = enqueued e \<and> dropped e' = dropped e"
proof -
  obtain env where env: "storage e n = Some env" using stored(1) by blast
  obtain c where c: "c < 4" "resolve (eng_registry e) (h_token (publishHandle e)) = Inr c"
    using out by (auto simp: output_ok_def)
  have b: "buf_ok 1024 (line_buf (recycle p e))" "eng_store (recycle p e) = engineStore"
    "resolve (eng_registry (recycle p e)) (h_token (publishHandle (recycle p e))) = Inr c"
    using out c by (simp_all add: output_ok_def)
  obtain b' where "buf_ok 1024 b'" "submit_impl env (recycle p e) = (recycle p e)
      \<lparr>line_buf := b', eng_streams := (eng_streams e)(kStdout := eng_streams e kStdout @ line_of env)\<rparr>"
    using submit_ok [OF b c(1), of env] by auto
  moreover have "map (\<lambda>m. the (if m = n then None else storage e m)) qs = map (\<lambda>m. the (storage e m)) qs"
    using stored(2) by (intro map_cong) auto
  ultimately show ?thesis
    using out c env by (auto simp: process_def destroy_impl_def output_ok_def fun_upd_def)
qed

lemma worker_ok:
  assumes inv: "eng_inv st s free qs done"
  shows "\<exists>w e free' qs' done'. worker_step (eng_worker s) (engine s) = Inr (w, e) \<and>
    eng_inv st (s\<lparr>eng_worker := w, engine := e\<rparr>) free' qs' done'"
proof (cases "\<exists>p. eng_worker s = W_loop p")
  case False
  then have "eng_worker s = No_worker" using inv by (auto simp: eng_inv_def phase_ok_def split: if_splits)
  with inv show ?thesis by (intro exI [of _ No_worker] exI [of _ "engine s"]) (auto simp: eng_inv_def)
next
  case True
  then obtain p where w: "eng_worker s = W_loop p" by blast
  let ?e = "engine s"
  have run: "eng_run ?e" "pool_gen ?e = 1" "starters (clients s) = {#}"
    using inv w by (auto simp: eng_inv_def phase_ok_def split: if_splits)
  have rec: "records_ok ?e (clients s) p free qs" using inv w by (simp add: eng_inv_def pending_def)
  then have q: "queued (queue ?e) p qs"
    and ms: "mset free + (held_by (clients s) + node_opt p) + mset qs = mset [0..<pool_count ?e]"
    by (simp_all add: records_ok_def)
  show ?thesis
  proof (rule mpsc.pop_cases [OF q])
    assume "qs = []" "q_pop (queue ?e) = (Null, queue ?e)"
    then have "worker_step (eng_worker s) ?e = Inr (eng_worker s, ?e)" using w run by simp
    with inv show ?thesis by (intro exI [of _ "eng_worker s"] exI [of _ ?e]) auto
  next
    fix x ys q' assume qs: "qs = x # ys" and pop: "q_pop (queue ?e) = (Popped (Node x), q')"
      and q': "queued q' (Some x) ys"
    have st: "storage ?e x \<noteq> None" using rec qs by (auto simp: records_ok_def)
    have ms2: "mset free + mset qs + (held_by (clients s) + node_opt p) = mset [0..<pool_count ?e]"
      using ms by (simp add: ac_simps)
    have "x \<notin> set ys" using q qs by (simp add: queued_def)
    moreover have "output_ok (?e\<lparr>queue := q'\<rparr>) st (eng_accepted s) done (x # ys)"
      using inv qs by (simp add: eng_inv_def output_ok_def)
    ultimately obtain e' where e': "process p x (?e\<lparr>queue := q'\<rparr>) = Inr e'"
      "output_ok e' st (eng_accepted s) (done @ [the (storage ?e x)]) ys"
      "freelist e' = freelist (recycle p (?e\<lparr>queue := q'\<rparr>))" "queue e' = q'"
      "storage e' = (storage ?e)(x := None)" "eng_run e' = eng_run ?e" "pool_gen e' = pool_gen ?e"
      "enqueued e' = enqueued ?e" "dropped e' = dropped ?e"
      using process_ok [of "?e\<lparr>queue := q'\<rparr>" st "eng_accepted s" "done" x ys p] st by auto
    have "n \<notin> set free" if "n \<in> set (opt_list p)" for n
      using once_sets(2) [OF ms, of n] that by (cases p) auto
    then have "holds (freelist e') (opt_list p @ free)"
      using rec recycle_holds [of "?e\<lparr>queue := q'\<rparr>" free p] e'(3) by (auto simp: records_ok_def)
    moreover have "mset (opt_list p @ free) + (held_by (clients s) + node_opt (Some x)) + mset ys = mset [0..<pool_count e']"
      using ms qs e'(7) run(2) by (cases p) (simp_all add: pool_count_def ac_simps add_mset_commute)
    moreover have "n \<noteq> x" if "t < length (clients s)" "clients s ! t = Pr_push env n" for t env n
    proof -
      have "n \<in># held_by (clients s)" using held_mem [OF that(1), of n] that(2) by simp
      then show ?thesis using once_sets(4) [OF ms, of n] qs by auto
    qed
    moreover have "pops_ok (freelist e') (opt_list p @ free) (clients s)"
      using rec e'(3) once_sets(2) [OF ms] by (cases p) (auto simp: records_ok_def recycle_def intro: pops_ok_push)
    ultimately have "records_ok e' (clients s) (Some x) (opt_list p @ free) ys"
      using rec qs q' e'(4,5) \<open>x \<notin> set ys\<close> by (auto simp: records_ok_def pushes_stored_def)
    then have "eng_inv st (s\<lparr>eng_worker := W_loop (Some x), engine := e'\<rparr>) (opt_list p @ free) ys
        (done @ [the (storage ?e x)])"
      using inv e' run w by (simp add: eng_inv_def pending_def phase_ok_def tallies_ok_def)
    moreover have "worker_step (eng_worker s) ?e = Inr (W_loop (Some x), e')"
      using w run pop e'(1) by simp
    ultimately show ?thesis by blast
  qed
qed


subsection \<open>The clients\<close>

lemma plain_update:
  assumes "t < length cs" and "in_hand (cs ! t) = in_hand c" and "\<not> at_push c" and "\<not> popping c"
    and "records_ok e cs p free qs" and "freelist e' = freelist e" and "queue e' = queue e"
    and "storage e' = storage e" and "pool_gen e' = pool_gen e"
  shows "records_ok e' (cs[t := c]) p free qs"
proof -
  have "pushes_stored (storage e) (cs[t := c])"
    using assms(3,5) by (intro pushes_stored_keep) (simp_all add: records_ok_def)
  moreover have "pops_ok (freelist e) free (cs[t := c])"
    using assms(4,5) by (intro pops_ok_update) (simp_all add: records_ok_def)
  ultimately show ?thesis using assms held_update [OF assms(1), of c] by (simp add: records_ok_def pool_count_def)
qed

lemma starters_none: "starters cs = {#} \<Longrightarrow> t < length cs \<Longrightarrow> starter (cs ! t) = {#}"
  using starters_mem [of t cs] by (metis empty_iff multiset_nonemptyE set_mset_empty)

lemma size_counters: "t < length cs \<Longrightarrow>
  size (counters (cs[t := c])) + size (counting (cs ! t)) = size (counters cs) + size (counting c)"
  using arg_cong [OF counters_update, of t cs size c] by simp

lemma phase_run_keep:
  assumes "phase_ok e cs w" "t < length cs" "starter (cs ! t) = {#}" "starter c = {#}"
    "eng_run e' = eng_run e" "pool_gen e' = pool_gen e"
  shows "phase_ok e' (cs[t := c]) w"
proof -
  have "starters (cs[t := c]) = starters cs" using assms(3,4) starters_update [OF assms(2), of c] by simp
  then show ?thesis using assms(1,5,6) unfolding phase_ok_def by (simp only:)
qed

lemma tallies_keep:
  assumes "tallies_ok e cs acc calls" "t < length cs" "counting (cs ! t) = {#}" "counting c = {#}"
    "enqueued e' = enqueued e" "dropped e' = dropped e"
  shows "tallies_ok e' (cs[t := c]) acc calls"
  using assms counters_update [OF assms(2), of c] by (simp add: tallies_ok_def)

lemma output_keep:
  assumes "output_ok e st acc done qs" "eng_registry e' = eng_registry e" "eng_store e' = eng_store e"
    "publishHandle e' = publishHandle e" "line_buf e' = line_buf e" "eng_streams e' = eng_streams e"
    "written e' = written e" "\<forall>n\<in>set qs. storage e' n = storage e n"
  shows "output_ok e' st acc done qs"
proof -
  have "map (\<lambda>n. the (storage e' n)) qs = map (\<lambda>n. the (storage e n)) qs"
    using assms(8) by (intro map_cong) auto
  with assms show ?thesis by (simp add: output_ok_def)
qed

lemmas client_keeps = plain_update phase_run_keep tallies_keep output_keep

lemma step_cas_won:
  assumes "eng_inv st s free qs done" "c_at t Pr_idle s" "\<not> eng_run (engine s)"
  shows "eng_inv st (c_goto t (Pr_init env) ((engine s)\<lparr>eng_run := True\<rparr>) s) free qs done"
proof -
  have t: "t < length (clients s)" "clients s ! t = Pr_idle" using assms(2) by (simp_all add: c_at_def)
  have ph: "starters (clients s) = {#}" "pool_gen (engine s) = 0" "eng_worker s = No_worker"
    using assms(1,3) by (auto simp: eng_inv_def phase_ok_def split: if_splits)
  then have "starters ((clients s)[t := Pr_init env]) = {#0#}"
    using starters_update [OF t(1), of "Pr_init env"] t(2) by simp
  then show ?thesis
    using assms(1) t ph
    by (auto simp: eng_inv_def c_goto_def phase_ok_def intro!: no_join_update
        elim!: plain_update tallies_keep output_keep)
qed

lemma step_cas_lost:
  assumes "eng_inv st s free qs done" "c_at t Pr_idle s"
  shows "eng_inv st (c_goto t (Pr_acquire env) (engine s) s) free qs done"
  using assms
  by (auto simp: eng_inv_def c_goto_def c_at_def intro!: no_join_update
      elim!: plain_update tallies_keep output_keep phase_run_keep)

lemma step_init:
  assumes inv: "eng_inv st s free qs done" and at: "c_at t (Pr_init env) s"
  shows "\<exists>free'. eng_inv st (c_goto t (Pr_spawn env) (init_pool_and_queue (engine s)) s) free' qs done"
proof -
  let ?e = "engine s" and ?cs = "(clients s)[t := Pr_spawn env]"
  have t: "t < length (clients s)" "clients s ! t = Pr_init env" using at by (simp_all add: c_at_def)
  have m: "0 \<in># starters (clients s)" using starters_mem [OF t(1), of 0] t(2) by simp
  have ph: "starters (clients s) = {#0#}" "pool_gen ?e = 0" "eng_run ?e" "eng_worker s = No_worker"
    using inv m by (auto simp: eng_inv_def phase_ok_def split: if_splits)
  have sp: "starters ?cs = {#1#}" using starters_update [OF t(1), of "Pr_spawn env"] t(2) ph(1) by simp
  have held: "held_by ?cs = held_by (clients s)" using held_update [OF t(1), of "Pr_spawn env"] t(2) by simp
  have rec: "records_ok ?e (clients s) None free qs" using inv ph(4) by (simp add: eng_inv_def pending_def)
  then have "mset free + held_by (clients s) + mset qs = {#}" using ph(2) by (simp add: records_ok_def pool_count_def)
  then have empty: "free = []" "held_by (clients s) = {#}" "qs = []" by simp_all
  have fl: "holds (freelist (init_pool_and_queue ?e)) (rev [0..<kPoolSize])"
    using treiber.push_all [of "freelist ?e" "[]" "[0..<kPoolSize]"] rec empty ph(2)
    by (simp add: init_pool_and_queue_def records_ok_def)
  have st: "pushes_stored (storage ?e) ?cs" using rec by (auto simp: records_ok_def intro: pushes_stored_keep)
  have po: "pops_ok (freelist (init_pool_and_queue ?e)) (rev [0..<kPoolSize]) ?cs"
    using pops_ok_empty [of "freelist ?e" "clients s"] rec empty(1) by (simp add: records_ok_def pops_ok_update)
  have "records_ok (init_pool_and_queue ?e) ?cs None (rev [0..<kPoolSize]) qs"
  proof -
    have "pool_gen (init_pool_and_queue ?e) = 1" "queue (init_pool_and_queue ?e) = queue ?e"
      "storage (init_pool_and_queue ?e) = storage ?e"
      using ph(2) by (simp_all add: init_pool_and_queue_def Let_def)
    with rec fl held empty st po show ?thesis
      unfolding records_ok_def by (simp add: pool_count_def)
  qed
  moreover have "phase_ok (init_pool_and_queue ?e) ?cs No_worker"
    using ph sp by (simp add: phase_ok_def init_pool_and_queue_def)
  moreover have "tallies_ok (init_pool_and_queue ?e) ?cs (eng_accepted s) (eng_calls s)"
    using inv t by (auto simp: eng_inv_def init_pool_and_queue_def Let_def elim!: tallies_keep)
  moreover have "output_ok (init_pool_and_queue ?e) st (eng_accepted s) done qs"
    using inv by (auto simp: eng_inv_def init_pool_and_queue_def Let_def elim!: output_keep)
  moreover have "no_join ?cs" using inv by (auto simp: eng_inv_def intro!: no_join_update)
  ultimately show ?thesis using inv ph(4) by (auto simp: eng_inv_def c_goto_def pending_def)
qed

lemma step_spawn:
  assumes inv: "eng_inv st s free qs done" and at: "c_at t (Pr_spawn env) s"
  shows "eng_worker s = No_worker"
    and "eng_inv st ((c_goto t (Pr_acquire env) (engine s) s)\<lparr>eng_worker := W_loop None\<rparr>) free qs done"
proof -
  have t: "t < length (clients s)" "clients s ! t = Pr_spawn env" using at by (simp_all add: c_at_def)
  have m: "1 \<in># starters (clients s)" using starters_mem [OF t(1), of 1] t(2) by simp
  have ph: "starters (clients s) = {#1#}" "pool_gen (engine s) = 1" "eng_run (engine s)" "eng_worker s = No_worker"
    using inv m by (auto simp: eng_inv_def phase_ok_def split: if_splits)
  then show "eng_worker s = No_worker" by simp
  have "starters ((clients s)[t := Pr_acquire env]) = {#}"
    using starters_update [OF t(1), of "Pr_acquire env"] t(2) ph(1) by simp
  then show "eng_inv st ((c_goto t (Pr_acquire env) (engine s) s)\<lparr>eng_worker := W_loop None\<rparr>) free qs done"
    using inv t ph
    by (auto simp: eng_inv_def c_goto_def phase_ok_def pending_def intro!: no_join_update
        elim!: plain_update tallies_keep output_keep)
qed


lemma step_drop:
  assumes inv: "eng_inv st s free qs done" and at: "c_at t Pr_drop s"
  shows "eng_inv st ((c_goto t Pr_idle (count_drop (engine s)) s)\<lparr>eng_calls := eng_calls s + 1\<rparr>) free qs done"
proof -
  have t: "t < length (clients s)" "clients s ! t = Pr_drop" using at by (simp_all add: c_at_def)
  have "tallies_ok (count_drop (engine s)) ((clients s)[t := Pr_idle]) (eng_accepted s) (eng_calls s + 1)"
    using inv size_counters [OF t(1), of Pr_idle] t(2)
    by (simp add: eng_inv_def tallies_ok_def count_drop_def)
  then show ?thesis
    using inv t
    by (auto simp: eng_inv_def c_goto_def count_drop_def intro!: no_join_update
        elim!: plain_update phase_run_keep output_keep)
qed

text \<open>The calls of \<open>try_pop\<close>, of which one at most is under way.\<close>

lemma records_popper:
  assumes "records_ok e cs p free qs" "t < length cs" "popping (cs ! t) \<or> \<not> list_ex popping cs"
    "in_hand (cs ! t) = {#}" "in_hand c = {#}" "\<not> at_push c" "pop_ok (freelist e) free c"
  shows "records_ok e (cs[t := c]) p free qs"
proof -
  have "pushes_stored (storage e) (cs[t := c])"
    using assms(1,6) by (intro pushes_stored_keep) (simp_all add: records_ok_def)
  moreover have "pops_ok (freelist e) free (cs[t := c])"
    using assms by (intro pops_ok_popper) (simp_all add: records_ok_def)
  ultimately show ?thesis using assms(1,4,5) held_update [OF assms(2), of c] by (simp add: records_ok_def)
qed

lemma popper_keep:
  assumes "eng_inv st s free qs done" "c_at t c0 s" "popping c0 \<or> \<not> list_ex popping (clients s)"
    "in_hand c0 = {#}" "in_hand c = {#}" "starter c0 = {#}" "starter c = {#}" "counting c0 = {#}" "counting c = {#}"
    "\<not> at_push c" "c \<noteq> Pr_join" "pop_ok (freelist (engine s)) free c"
  shows "eng_inv st (c_goto t c (engine s) s) free qs done"
proof -
  have t: "t < length (clients s)" "clients s ! t = c0" using assms(2) by (simp_all add: c_at_def)
  have "records_ok (engine s) ((clients s)[t := c]) (pending (eng_worker s)) free qs"
    using assms(1,3-5,10,12) t by (intro records_popper) (auto simp: eng_inv_def)
  moreover have "phase_ok (engine s) ((clients s)[t := c]) (eng_worker s)"
    using assms(1,6,7) t by (auto simp: eng_inv_def elim!: phase_run_keep)
  moreover have "tallies_ok (engine s) ((clients s)[t := c]) (eng_accepted s) (eng_calls s)"
    using assms(1,8,9) t by (auto simp: eng_inv_def elim!: tallies_keep)
  ultimately show ?thesis using assms(1,11) by (simp add: eng_inv_def c_goto_def no_join_update)
qed

lemma pop_seen_simps [simp]:
  "in_hand (pop_seen env h) = {#}" "starter (pop_seen env h) = {#}" "counting (pop_seen env h) = {#}"
  "\<not> at_push (pop_seen env h)" "pop_seen env h \<noteq> Pr_join"
  by (simp_all add: pop_seen_def split: option.split)

lemma pop_seen_ok: "holds f free \<Longrightarrow> pop_ok f free (pop_seen env (fl_head f))"
  by (cases free) (auto simp: holds_def pop_seen_def split: option.split)

lemma inv_holds: "eng_inv st s free qs done \<Longrightarrow> holds (freelist (engine s)) free"
  by (simp add: eng_inv_def records_ok_def)

lemma step_load:
  assumes "eng_inv st s free qs done" "c_at t (Pr_acquire env) s" "\<not> list_ex popping (clients s)"
  shows "eng_inv st (c_goto t (pop_seen env (fl_head (freelist (engine s)))) (engine s) s) free qs done"
  using assms pop_seen_ok [OF inv_holds [OF assms(1)]] by (intro popper_keep [OF assms(1,2)]) auto

lemma step_retry:
  assumes "eng_inv st s free qs done" "c_at t (Pr_pop_cas env h nx) s"
  shows "eng_inv st (c_goto t (pop_seen env (fl_head (freelist (engine s)))) (engine s) s) free qs done"
  using assms pop_seen_ok [OF inv_holds [OF assms(1)]] by (intro popper_keep [OF assms(1,2)]) auto

lemma step_next:
  assumes "eng_inv st s free qs done" "c_at t (Pr_pop_next env h) s"
  shows "eng_inv st (c_goto t (Pr_pop_cas env h (free_next (freelist (engine s)) h)) (engine s) s) free qs done"
proof -
  have "pop_ok (freelist (engine s)) free (Pr_pop_next env h)"
    using assms by (metis c_at_def eng_inv_def pops_ok_def records_ok_def)
  then show ?thesis by (intro popper_keep [OF assms]) auto
qed

lemma step_pop:
  assumes inv: "eng_inv st s free qs done" and at: "c_at t (Pr_pop_cas env h nx) s"
    and head: "fl_head (freelist (engine s)) = Some h"
  shows "\<exists>free'. eng_inv st (c_goto t (Pr_fill env h) ((engine s)\<lparr>freelist := (freelist (engine s))\<lparr>fl_head := nx\<rparr>\<rparr>) s)
    free' qs done"
proof -
  let ?cs = "(clients s)[t := Pr_fill env h]" and ?f = "(freelist (engine s))\<lparr>fl_head := nx\<rparr>"
  have t: "t < length (clients s)" "clients s ! t = Pr_pop_cas env h nx" using at by (simp_all add: c_at_def)
  have rec: "records_ok (engine s) (clients s) (pending (eng_worker s)) free qs"
    using inv by (simp add: eng_inv_def)
  then have nx: "free_next (freelist (engine s)) h = nx" and po: "pops_ok (freelist (engine s)) free (clients s)"
    using t by (auto simp: records_ok_def pops_ok_def)
  obtain ys where ys: "free = h # ys" "chain (free_next (freelist (engine s))) nx ys"
    using inv_holds [OF inv] head nx by (auto simp: holds_def chain_head)
  then have "holds ?f ys" by (simp add: holds_def)
  moreover have "held_by ?cs = add_mset h (held_by (clients s))"
    using held_update [OF t(1), of "Pr_fill env h"] t(2) by simp
  moreover have "pushes_stored (storage (engine s)) ?cs"
    using rec by (auto simp: records_ok_def intro: pushes_stored_keep)
  moreover have "pops_ok ?f ys ?cs" using t by (intro pops_ok_taken [OF po t(1)]) simp_all
  ultimately have "records_ok ((engine s)\<lparr>freelist := ?f\<rparr>) ?cs (pending (eng_worker s)) ys qs"
    using rec ys by (simp add: records_ok_def pool_count_def)
  then have "eng_inv st (c_goto t (Pr_fill env h) ((engine s)\<lparr>freelist := ?f\<rparr>) s) ys qs done"
    using inv t
    by (auto simp: eng_inv_def c_goto_def intro!: no_join_update
        elim!: phase_run_keep tallies_keep output_keep)
  then show ?thesis by blast
qed

text \<open>The steps of a call that nothing disturbs take what \<open>acquire_record\<close> takes.\<close>

lemma acquire_in_steps:
  assumes at: "c_at t (Pr_acquire env) s" "overlap \<or> \<not> list_ex popping (clients s)"
    and acq: "acquire_record (engine s) = (Some n, e)"
  shows "(eng_step shutdowns overlap)\<^sup>*\<^sup>* s (c_goto t (Pr_fill env n) e s)"
proof -
  let ?nx = "free_next (freelist (engine s)) n"
  let ?s1 = "c_goto t (Pr_pop_next env n) (engine s) s" and ?s2 = "c_goto t (Pr_pop_cas env n ?nx) (engine s) s"
  have h: "fl_head (freelist (engine s)) = Some n" and e: "e = (engine s)\<lparr>freelist := (freelist (engine s))\<lparr>fl_head := ?nx\<rparr>\<rparr>"
    using acq by (auto simp: acquire_record_def try_pop_def split: option.splits)
  have t: "t < length (clients s)" "eng_crash s = None" using at by (simp_all add: c_at_def)
  have "eng_step shutdowns overlap s ?s1" using en_load [of t env s overlap shutdowns] at h by (simp add: pop_seen_def)
  moreover have "eng_step shutdowns overlap ?s1 ?s2"
    using en_next [of t env n ?s1 shutdowns overlap] t by (simp add: c_at_def c_goto_def)
  moreover have "eng_step shutdowns overlap ?s2 (c_goto t (Pr_fill env n) e s)"
    using en_pop [of t env n ?nx ?s2 shutdowns overlap] t h by (simp add: c_at_def c_goto_def e)
  ultimately show ?thesis by (meson converse_rtranclp_into_rtranclp rtranclp.rtrancl_refl)
qed

lemma step_fill:
  assumes inv: "eng_inv st s free qs done" and at: "c_at t (Pr_fill env n) s"
  shows "eng_inv st (c_goto t (Pr_push env n) (fill_record env n (engine s)) s) free qs done"
proof -
  let ?cs = "(clients s)[t := Pr_push env n]" and ?e = "fill_record env n (engine s)"
  have t: "t < length (clients s)" "clients s ! t = Pr_fill env n" using at by (simp_all add: c_at_def)
  have rec: "records_ok (engine s) (clients s) (pending (eng_worker s)) free qs"
    using inv by (simp add: eng_inv_def)
  then have ms: "mset free + (held_by (clients s) + node_opt (pending (eng_worker s))) + mset qs =
      mset [0..<pool_count (engine s)]" by (simp add: records_ok_def)
  have n: "n \<notin> set qs" using once_sets(4) [OF ms, of n] held_mem [OF t(1), of n] t(2) by auto
  have "held_by ?cs = held_by (clients s)" using held_update [OF t(1), of "Pr_push env n"] t(2) by simp
  moreover have "m \<noteq> n" if "u < length (clients s)" "clients s ! u = Pr_push env' m" for u env' m
  proof
    assume "m = n"
    then have "count (held_by (clients s)) n \<ge> 2"
      using held_other [OF that(1) t(1), of n] that t(2) by fastforce
    moreover have "count (held_by (clients s)) n \<le> 1" using once [OF ms, of n] unfolding count_union by linarith
    ultimately show False by simp
  qed
  then have "pushes_stored (storage ?e) (clients s)"
    using rec by (auto simp: records_ok_def pushes_stored_def fill_record_def)
  then have "pushes_stored (storage ?e) ?cs" by (rule pushes_stored_update) (simp add: fill_record_def)
  ultimately have "records_ok ?e ?cs (pending (eng_worker s)) free qs"
    using rec by (auto simp: records_ok_def pool_count_def fill_record_def intro: pops_ok_update)
  moreover have "output_ok ?e st (eng_accepted s) done qs"
  proof (rule output_keep)
    show "output_ok (engine s) st (eng_accepted s) done qs" using inv by (simp add: eng_inv_def)
    show "\<forall>m\<in>set qs. storage ?e m = storage (engine s) m" using n by (auto simp: fill_record_def)
  qed (simp_all add: fill_record_def)
  ultimately show ?thesis
    using inv t
    by (auto simp: eng_inv_def c_goto_def fill_record_def intro!: no_join_update
        elim!: phase_run_keep tallies_keep)
qed

lemma step_push:
  assumes inv: "eng_inv st s free qs done" and at: "c_at t (Pr_push env n) s"
  shows "eng_inv st ((c_goto t Pr_count (push_to_queue n (engine s)) s)
      \<lparr>eng_accepted := eng_accepted s @ [env]\<rparr>) free (qs @ [n]) done"
proof -
  let ?cs = "(clients s)[t := Pr_count]" and ?e = "push_to_queue n (engine s)"
  have t: "t < length (clients s)" "clients s ! t = Pr_push env n" using at by (simp_all add: c_at_def)
  let ?p = "pending (eng_worker s)"
  have rec: "records_ok (engine s) (clients s) ?p free qs" using inv by (simp add: eng_inv_def)
  then have env: "storage (engine s) n = Some env" using t by (simp add: records_ok_def pushes_stored_def del: split_paired_All)
  from rec have ms: "mset free + (held_by (clients s) + node_opt ?p) + mset qs =
      mset [0..<pool_count (engine s)]" by (simp add: records_ok_def)
  have hn: "n \<in># held_by (clients s)" using held_mem [OF t(1), of n] t(2) by auto
  then have n: "n \<notin> set qs" using once_sets(4) [OF ms, of n] by auto
  have "count (held_by (clients s)) n \<ge> 1" using hn by simp
  then have "count (node_opt ?p) n = 0" using once [OF ms, of n] unfolding count_union by linarith
  then have p: "?p \<noteq> Some n" by auto
  have "queued (queue ?e) ?p (qs @ [n])"
    using rec n p by (simp add: push_to_queue_def records_ok_def mpsc.has_push)
  moreover have "add_mset n (held_by ?cs) = held_by (clients s)"
    using held_update [OF t(1), of Pr_count] t(2) by simp
  then have "mset free + (held_by ?cs + node_opt ?p) + mset (qs @ [n]) = mset [0..<pool_count (engine s)]"
    using ms by (metis (no_types, lifting) add_mset_add_single mset_append mset_single_iff_right
        union_assoc union_commute mset.simps)
  moreover have "pushes_stored (storage (engine s)) ?cs"
    using rec by (auto simp: records_ok_def intro: pushes_stored_keep)
  moreover have "pops_ok (freelist ?e) free ?cs"
    using rec by (auto simp: records_ok_def push_to_queue_def intro: pops_ok_update)
  ultimately have "records_ok ?e ?cs ?p free (qs @ [n])"
    using rec env by (auto simp: records_ok_def pool_count_def push_to_queue_def simp del: mset_append)
  moreover have "output_ok ?e st (eng_accepted s @ [env]) done (qs @ [n])"
    using inv env by (simp add: eng_inv_def output_ok_def push_to_queue_def)
  moreover have "tallies_ok ?e ?cs (eng_accepted s @ [env]) (eng_calls s)"
    using inv size_counters [OF t(1), of Pr_count] t(2)
    by (simp add: eng_inv_def tallies_ok_def push_to_queue_def)
  ultimately show ?thesis
    using inv t
    by (auto simp: eng_inv_def c_goto_def push_to_queue_def intro!: no_join_update
        elim!: phase_run_keep)
qed

lemma step_count:
  assumes inv: "eng_inv st s free qs done" and at: "c_at t Pr_count s"
  shows "eng_inv st ((c_goto t Pr_idle (count_enqueued (engine s)) s)\<lparr>eng_calls := eng_calls s + 1\<rparr>) free qs done"
proof -
  have t: "t < length (clients s)" "clients s ! t = Pr_count" using at by (simp_all add: c_at_def)
  have "Suc (size (counters ((clients s)[t := Pr_idle]))) = size (counters (clients s))"
    using size_counters [OF t(1), of Pr_idle] t(2) by simp
  then have "tallies_ok (count_enqueued (engine s)) ((clients s)[t := Pr_idle]) (eng_accepted s) (eng_calls s + 1)"
    using inv by (simp add: eng_inv_def tallies_ok_def count_enqueued_def ac_simps flip: of_nat_Suc)
       (metis add.assoc add.commute of_nat_Suc)
  then show ?thesis
    using inv t
    by (auto simp: eng_inv_def c_goto_def count_enqueued_def intro!: no_join_update
        elim!: plain_update phase_run_keep output_keep)
qed

lemma eng_step_inv:
  assumes "eng_step False False s s'" and inv: "eng_inv st s free qs done"
  shows "\<exists>free qs done. eng_inv st s' free qs done"
  using assms(1)
proof cases
  case (en_cas_won t env)
  then show ?thesis using step_cas_won [OF inv, of t env] by blast
next
  case (en_cas_lost t env)
  then show ?thesis using step_cas_lost [OF inv, of t env] by blast
next
  case (en_init t env)
  then show ?thesis using step_init [OF inv, of t env] by blast
next
  case (en_spawn t env)
  then show ?thesis using step_spawn(2) [OF inv, of t env] by blast
next
  case (en_spawn_terminates t env)
  then show ?thesis using step_spawn(1) [OF inv, of t env] by blast
next
  case (en_load t env)
  then show ?thesis using step_load [OF inv, of t env] by auto
next
  case (en_next t env h)
  then show ?thesis using step_next [OF inv, of t env h] by blast
next
  case (en_pop t env h nx)
  then show ?thesis using step_pop [OF inv, of t env h nx] by blast
next
  case (en_retry t env h nx)
  then show ?thesis using step_retry [OF inv, of t env h nx] by blast
next
  case (en_drop t)
  then show ?thesis using step_drop [OF inv, of t] by blast
next
  case (en_fill t env n)
  then show ?thesis using step_fill [OF inv, of t env n] by blast
next
  case (en_push t env n)
  then show ?thesis using step_push [OF inv, of t env n] by blast
next
  case (en_count t)
  then show ?thesis using step_count [OF inv, of t] by blast
next
  case (en_worker w e)
  obtain w' e' f q d where *: "worker_step (eng_worker s) (engine s) = Inr (w', e')"
    "eng_inv st (s\<lparr>eng_worker := w', engine := e'\<rparr>) f q d" using worker_ok [OF inv] by blast
  then have "w' = w" "e' = e" using en_worker(3) by simp_all
  with * en_worker(1) show ?thesis by blast
next
  case (en_worker_fails x)
  then show ?thesis using worker_ok [OF inv] by fastforce
next
  case (en_shutdown t)
  then show ?thesis by simp
next
  case (en_join t)
  then have "Pr_join \<in> set (clients s)" by (metis c_at_def nth_mem)
  then show ?thesis using inv by (simp add: eng_inv_def no_join_def)
qed

lemma eng_reach_inv: "eng_reach False False T st s \<Longrightarrow> \<exists>free qs done. eng_inv st s free qs done"
  by (induction rule: eng_reach.induct) (use eng_start_inv eng_step_inv in blast)+

text \<open>With one logging thread the calls of \<open>try_pop\<close> cannot overlap.\<close>

lemma eng_step_clients: "eng_step shutdowns overlap s s' \<Longrightarrow> length (clients s') = length (clients s)"
  by (induction rule: eng_step.induct) (simp_all add: c_goto_def)

lemma eng_reach_clients: "eng_reach shutdowns overlap T st s \<Longrightarrow> length (clients s) = T"
  by (induction rule: eng_reach.induct) (simp_all add: eng_start_def eng_step_clients)

lemma one_thread_no_overlap: "eng_reach shutdowns True 1 st s \<Longrightarrow> eng_reach shutdowns False 1 st s"
proof (induction rule: eng_reach.induct)
  case (eng_reach_step s s')
  have "eng_step shutdowns False s s'"
    using eng_reach_step(2)
  proof cases
    case (en_load t env)
    then have "clients s = [Pr_acquire env]"
      using eng_reach_clients [OF eng_reach_step(1)] by (auto simp: c_at_def length_Suc_conv)
    with en_load show ?thesis using eng_step.en_load [of t env s False shutdowns] by simp
  next
    case (en_drop t)
    then show ?thesis using eng_step.en_drop [of t s shutdowns False] by simp
  next
    case (en_count t)
    then show ?thesis using eng_step.en_count [of t s shutdowns False] by simp
  qed (simp_all add: eng_step.intros)
  with eng_reach_step.IH show ?case by (rule eng_reach.eng_reach_step)
qed (rule eng_reach.eng_reach_start)

subsection \<open>The counters\<close>

text \<open>The counters count in every interleaving, with overlapping calls of \<open>try_pop\<close> and with shutdowns.\<close>

lemma process_counters:
  "process p n e = Inr e' \<Longrightarrow> enqueued e' = enqueued e \<and> dropped e' = dropped e"
  by (auto simp: process_def Let_def destroy_impl_def submit_impl_def split: option.splits prod.splits)

lemma worker_counters:
  assumes "worker_step w e = Inr (w', e')"
  shows "enqueued e' = enqueued e \<and> dropped e' = dropped e"
proof -
  obtain r q where q: "q_pop (queue e) = (r, q)" by fastforce
  consider p where "w = W_loop p" | p where "w = W_drain p" | p where "w = W_reset p" | p where "w = W_last p"
    | "w = No_worker" | "w = W_done" by (cases w) blast+
  then show ?thesis
  proof cases
    case (1 p)
    show ?thesis
    proof (cases "eng_run e \<or> \<not> q_empty (queue e)")
      case True
      then show ?thesis using assms unfolding 1
        by (cases r) (auto simp: q split: ptr.splits sum.splits dest: process_counters)
    next
      case False
      with assms 1 show ?thesis by simp
    qed
  next
    case (2 p)
    show ?thesis using assms unfolding 2
      by (cases r) (auto simp: q split: ptr.splits sum.splits dest: process_counters)
  qed (use assms in auto)
qed

lemma eng_step_tallies:
  assumes "eng_step shutdowns overlap s s'" "tallies_ok (engine s) (clients s) (eng_accepted s) (eng_calls s)"
  shows "tallies_ok (engine s') (clients s') (eng_accepted s') (eng_calls s')"
  using assms(1)
proof cases
  case (en_drop t)
  then show ?thesis using assms(2) size_counters [of t "clients s" Pr_idle]
    by (simp add: c_at_def c_goto_def tallies_ok_def count_drop_def)
next
  case (en_push t env n)
  then show ?thesis using assms(2) size_counters [of t "clients s" Pr_count]
    by (simp add: c_at_def c_goto_def tallies_ok_def push_to_queue_def)
next
  case (en_count t)
  then have "Suc (size (counters ((clients s)[t := Pr_idle]))) = size (counters (clients s))"
    using size_counters [of t "clients s" Pr_idle] by (simp add: c_at_def)
  then show ?thesis using assms(2) en_count
    by (simp add: c_goto_def tallies_ok_def count_enqueued_def ac_simps flip: of_nat_Suc)
       (metis add.assoc add.commute of_nat_Suc)
next
  case (en_worker w e)
  then show ?thesis using assms(2) worker_counters [of "eng_worker s" "engine s" w e] by (simp add: tallies_ok_def)
qed (use assms(2) in \<open>auto simp: c_at_def c_goto_def init_pool_and_queue_def Let_def fill_record_def elim!: tallies_keep\<close>)

lemma eng_reach_tallies:
  "eng_reach shutdowns overlap T st s \<Longrightarrow> tallies_ok (engine s) (clients s) (eng_accepted s) (eng_calls s)"
proof (induction rule: eng_reach.induct)
  case (eng_reach_start e)
  then show ?case using eng_start_inv [of st e T] by (simp add: eng_inv_def)
qed (rule eng_step_tallies)

end
