(* ===== verification/Engine_Properties.thy ===== *)
theory Engine_Properties
  imports Engine_Laws
begin

text \<open>
  The properties of the log engine: what holds while it runs, what its shutdown does, and what
  goes wrong when it is started again.
\<close>

subsection \<open>Draining\<close>

fun worker_iter :: "nat \<Rightarrow> worker \<times> LogEngine \<Rightarrow> (worker \<times> LogEngine) result" where
  "worker_iter 0 we = Inr we"
| "worker_iter (Suc k) (w, e) =
     (case worker_step w e of Inl x \<Rightarrow> Inl x | Inr we \<Rightarrow> worker_iter k we)"

text \<open>What the worker needs to finish: the queued records are distinct from the free ones and from
  its own, and hold their envelopes.\<close>

definition drainable :: "streams \<Rightarrow> LogEngine \<Rightarrow> nat option \<Rightarrow> nat list \<Rightarrow> nat list \<Rightarrow> envelope list \<Rightarrow>
    envelope list \<Rightarrow> bool" where
  "drainable st e p free qs done acc \<longleftrightarrow>
     holds (freelist e) free \<and> queued (queue e) p qs \<and> distinct (free @ opt_list p @ qs) \<and>
     (\<forall>n\<in>set qs. storage e n \<noteq> None) \<and> output_ok e st acc done qs \<and> \<not> eng_run e"

definition same_counts :: "LogEngine \<Rightarrow> LogEngine \<Rightarrow> bool" where
  "same_counts e e' \<longleftrightarrow> pool_gen e' = pool_gen e \<and> eng_run e' = eng_run e \<and>
     enqueued e' = enqueued e \<and> dropped e' = dropped e"

lemma drain_one:
  assumes "drainable st e p free (x # ys) done acc"
  shows "\<exists>e'. worker_step (W_loop p) e = Inr (W_loop (Some x), e') \<and> same_counts e e' \<and>
    drainable st e' (Some x) (opt_list p @ free) ys (done @ [the (storage e x)]) acc"
proof -
  have d: "holds (freelist e) free" "queued (queue e) p (x # ys)" "distinct (free @ opt_list p @ x # ys)"
    "\<forall>n\<in>set (x # ys). storage e n \<noteq> None" "output_ok e st acc done (x # ys)" "\<not> eng_run e"
    using assms by (simp_all add: drainable_def)
  obtain q' where q': "q_pop (queue e) = (Popped (Node x), q')" "queued q' (Some x) ys"
    using d(2) by (rule mpsc.pop_cases) auto
  have "output_ok (e\<lparr>queue := q'\<rparr>) st acc done (x # ys)" using d(5) by (simp add: output_ok_def)
  then obtain e' where e': "process p x (e\<lparr>queue := q'\<rparr>) = Inr e'"
    "output_ok e' st acc (done @ [the (storage e x)]) ys"
    "freelist e' = freelist (recycle p (e\<lparr>queue := q'\<rparr>))" "queue e' = q'"
    "storage e' = (storage e)(x := None)" "eng_run e' = eng_run e" "pool_gen e' = pool_gen e"
    "enqueued e' = enqueued e" "dropped e' = dropped e"
    using process_ok [of "e\<lparr>queue := q'\<rparr>" st acc "done" x ys p] d(3,4) by auto
  have "holds (freelist e') (opt_list p @ free)"
    using recycle_holds [of "e\<lparr>queue := q'\<rparr>" free p] d(1,3) e'(3) by auto
  then have "drainable st e' (Some x) (opt_list p @ free) ys (done @ [the (storage e x)]) acc"
    using d e' q' by (auto simp: drainable_def)
  moreover have "\<not> q_empty (queue e)" using mpsc.empty_iff [OF d(2)] by simp
  ultimately show ?thesis using q' e' by (auto simp: same_counts_def)
qed

lemma drain_end:
  assumes "drainable st e p free [] done acc"
  shows "\<exists>e'. worker_iter 4 (W_loop p, e) = Inr (W_done, e') \<and> same_counts e e' \<and>
    drainable st e' None (opt_list p @ free) [] done acc"
proof -
  have d: "holds (freelist e) free" "queued (queue e) p []" "distinct (free @ opt_list p)"
    "output_ok e st acc done []" "\<not> eng_run e"
    using assms by (simp_all add: drainable_def)
  have pop: "q_pop (queue e) = (Null, queue e)" "q_empty (queue e)"
    using mpsc.pop_null [OF d(2)] mpsc.empty_iff [OF d(2)] by simp_all
  let ?e = "recycle p (e\<lparr>queue := q_reset (queue e)\<rparr>)"
  have "worker_iter 4 (W_loop p, e) = Inr (W_done, ?e)" using d(5) pop by (simp add: numeral_eq_Suc)
  moreover have "holds (freelist ?e) (opt_list p @ free)"
    using recycle_holds [of "e\<lparr>queue := q_reset (queue e)\<rparr>" free p] d(1,3) by auto
  ultimately show ?thesis
    using d mpsc.has_reset [OF d(2)]
    by (intro exI [of _ ?e]) (auto simp: drainable_def same_counts_def output_ok_def)
qed

lemma worker_iter_add: "worker_iter j we = Inr we' \<Longrightarrow> worker_iter (j + k) we = worker_iter k we'"
  by (induction j we rule: worker_iter.induct) (auto split: sum.splits)

lemma drain_all:
  "drainable st e p free qs done acc \<Longrightarrow>
   \<exists>e' free'. worker_iter (length qs + 4) (W_loop p, e) = Inr (W_done, e') \<and> same_counts e e' \<and>
     drainable st e' None free' [] (done @ map (\<lambda>n. the (storage e n)) qs) acc \<and>
     mset free' = mset free + node_opt p + mset qs"
proof (induction qs arbitrary: e p free "done")
  case Nil
  from drain_end [OF Nil] obtain e' where e': "worker_iter 4 (W_loop p, e) = Inr (W_done, e')"
    "same_counts e e'" "drainable st e' None (opt_list p @ free) [] done acc" by blast
  have "mset (opt_list p @ free) = mset free + node_opt p" by (cases p) simp_all
  with e' show ?case by (intro exI [of _ e'] exI [of _ "opt_list p @ free"]) simp
next
  case (Cons x ys)
  obtain e1 where e1: "worker_step (W_loop p) e = Inr (W_loop (Some x), e1)" "same_counts e e1"
    "drainable st e1 (Some x) (opt_list p @ free) ys (done @ [the (storage e x)]) acc"
    using drain_one [OF Cons.prems] by blast
  obtain e' free' where e': "worker_iter (length ys + 4) (W_loop (Some x), e1) = Inr (W_done, e')"
    "same_counts e1 e'"
    "drainable st e' None free' [] ((done @ [the (storage e x)]) @ map (\<lambda>n. the (storage e1 n)) ys) acc"
    "mset free' = mset (opt_list p @ free) + node_opt (Some x) + mset ys"
    using Cons.IH [OF e1(3)] by blast
  have acc: "acc = done @ the (storage e x) # map (\<lambda>n. the (storage e n)) ys"
    using Cons.prems by (simp add: drainable_def output_ok_def)
  have acc1: "acc = (done @ [the (storage e x)]) @ map (\<lambda>n. the (storage e1 n)) ys"
    using e1(3) by (simp add: drainable_def output_ok_def)
  from acc acc1 have eqm: "map (\<lambda>n. the (storage e1 n)) ys = map (\<lambda>n. the (storage e n)) ys" by simp
  have "worker_iter (length (x # ys) + 4) (W_loop p, e) = Inr (W_done, e')"
  proof -
    have "length (x # ys) + 4 = Suc (length ys + 4)" by simp
    then show ?thesis by (simp only: worker_iter.simps(2) e1(1) sum.case e'(1))
  qed
  moreover have "drainable st e' None free' [] (done @ map (\<lambda>n. the (storage e n)) (x # ys)) acc"
    using e'(3) unfolding eqm by simp
  moreover have "mset free' = mset free + node_opt p + mset (x # ys)"
    using e'(4) by (cases p) (simp_all add: ac_simps add_mset_commute)
  moreover have "same_counts e e'" using e1(2) e'(2) by (simp add: same_counts_def)
  ultimately show ?case by blast
qed

lemma idle_clients:
  assumes "list_all (\<lambda>c. c = Pr_idle) cs"
  shows "held_by cs = {#}" "starters cs = {#}" "counters cs = {#}"
proof -
  have "cs = replicate (length cs) Pr_idle" using assms by (simp add: list_all_iff replicate_eqI)
  then obtain n where "cs = replicate n Pr_idle" ..
  then show "held_by cs = {#}" "starters cs = {#}" "counters cs = {#}"
    by (simp_all add: held_idle starters_idle counters_idle)
qed

subsection \<open>A first message\<close>

text \<open>One thread logs a message, another one waits: the state after the call.\<close>

lemma eng_reach_steps:
  "(eng_step b c)\<^sup>*\<^sup>* s s' \<Longrightarrow> eng_reach b c T st s \<Longrightarrow> eng_reach b c T st s'"
  by (induction rule: rtranclp_induct) (auto intro: eng_reach_step)

lemma first_record:
  obtains s n where "eng_reach b c 2 st s" "clients s = [Pr_push env n, Pr_idle]" "eng_run (engine s)"
    "eng_accepted s = []" "eng_calls s = 0" "eng_crash s = None" "eng_worker s = W_loop None"
    "pool_gen (engine s) = 1" "storage (engine s) n = Some env" "queue (engine s) = newQueue"
    "written (engine s) = 0" "enqueued (engine s) = 0"
proof -
  obtain e where e: "newEngine st = Inr e" "pool_gen e = 0" "eng_run e = False" "freelist e = newFreeList"
    "queue e = newQueue" "written e = 0" "enqueued e = 0"
    by (rule newEngine_ok [of st]) (metis LogEngine.select_convs(4,6,7,8,10,11))
  have s0: "eng_reach b c 2 st (eng_start 2 e)" by (rule eng_reach_start [OF e(1)])
  obtain s1 where s1: "eng_reach b c 2 st s1" "clients s1 = [Pr_init env, Pr_idle]" "eng_crash s1 = None"
    "eng_worker s1 = No_worker" "engine s1 = e\<lparr>eng_run := True\<rparr>" "eng_accepted s1 = []" "eng_calls s1 = 0"
    using eng_reach_step [OF s0 en_cas_won [of 0 _ b c env]] e(3)
    by (auto simp: c_at_def eng_start_def c_goto_def numeral_2_eq_2)
  obtain s2 where s2: "eng_reach b c 2 st s2" "clients s2 = [Pr_spawn env, Pr_idle]" "eng_crash s2 = None"
    "eng_worker s2 = No_worker" "engine s2 = init_pool_and_queue (e\<lparr>eng_run := True\<rparr>)"
    "eng_accepted s2 = []" "eng_calls s2 = 0"
    using eng_reach_step [OF s1(1) en_init [of 0 env]] s1(2-)
    by (auto simp: c_at_def c_goto_def)
  obtain s3 where s3: "eng_reach b c 2 st s3" "clients s3 = [Pr_acquire env, Pr_idle]" "eng_crash s3 = None"
    "eng_worker s3 = W_loop None" "engine s3 = init_pool_and_queue (e\<lparr>eng_run := True\<rparr>)"
    "eng_accepted s3 = []" "eng_calls s3 = 0"
    using eng_reach_step [OF s2(1) en_spawn [of 0 env]] s2(2-)
    by (auto simp: c_at_def c_goto_def)
  have "holds (freelist (engine s3)) (rev [0..<kPoolSize])"
    using treiber.push_all [OF treiber.has_empty, of "[0..<kPoolSize]"] e(2,4)
    by (simp add: s3(5) init_pool_and_queue_def)
  then obtain n e3 where e3: "acquire_record (engine s3) = (Some n, e3)" "eng_run e3" "pool_gen e3 = 1"
    "queue e3 = newQueue" "written e3 = 0" "enqueued e3 = 0"
    using e by (cases rule: treiber.pop_cases)
      (auto simp: acquire_record_def kPoolSize_def s3(5) init_pool_and_queue_def)
  obtain s4 where s4: "eng_reach b c 2 st s4" "clients s4 = [Pr_fill env n, Pr_idle]" "eng_crash s4 = None"
    "eng_worker s4 = W_loop None" "engine s4 = e3" "eng_accepted s4 = []" "eng_calls s4 = 0"
    using eng_reach_steps [OF acquire_in_steps [of 0 env s3 c n e3 b] s3(1)] s3(2-4,6-) e3(1)
    by (auto simp: c_at_def c_goto_def)
  obtain s5 where s5: "eng_reach b c 2 st s5" "clients s5 = [Pr_push env n, Pr_idle]" "eng_crash s5 = None"
    "eng_worker s5 = W_loop None" "engine s5 = fill_record env n e3" "eng_accepted s5 = []" "eng_calls s5 = 0"
    using eng_reach_step [OF s4(1) en_fill [of 0 env n]] s4(2-)
    by (auto simp: c_at_def c_goto_def)
  show thesis by (rule that [of s5 n]) (use s5 e3 in \<open>simp_all add: fill_record_def\<close>)
qed

lemma first_message:
  obtains s n where "eng_reach b c 2 st s" "clients s = [Pr_idle, Pr_idle]" "eng_run (engine s)"
    "eng_accepted s = [env]" "eng_calls s = 1" "eng_crash s = None" "eng_worker s = W_loop None"
    "pool_gen (engine s) = 1" "storage (engine s) n = Some env" "queued (queue (engine s)) None [n]"
proof -
  obtain s5 n where s5: "eng_reach b c 2 st s5" "clients s5 = [Pr_push env n, Pr_idle]" "eng_run (engine s5)"
    "eng_accepted s5 = []" "eng_calls s5 = 0" "eng_crash s5 = None" "eng_worker s5 = W_loop None"
    "pool_gen (engine s5) = 1" "storage (engine s5) n = Some env" "queue (engine s5) = newQueue"
    by (rule first_record)
  let ?e = "push_to_queue n (engine s5)"
  obtain s6 where s6: "eng_reach b c 2 st s6" "clients s6 = [Pr_count, Pr_idle]" "eng_crash s6 = None"
    "eng_worker s6 = W_loop None" "engine s6 = ?e" "eng_accepted s6 = [env]" "eng_calls s6 = 0"
    using eng_reach_step [OF s5(1) en_push [of 0 env n]] s5(2-)
    by (auto simp: c_at_def c_goto_def)
  obtain s7 where s7: "eng_reach b c 2 st s7" "clients s7 = [Pr_idle, Pr_idle]" "eng_crash s7 = None"
    "eng_worker s7 = W_loop None" "engine s7 = count_enqueued ?e" "eng_accepted s7 = [env]" "eng_calls s7 = 1"
    using eng_reach_step [OF s6(1) en_count [of 0]] s6(2-)
    by (auto simp: c_at_def c_goto_def)
  have "queued (queue (engine s7)) None [n]"
    using mpsc.has_push [OF mpsc.has_new, of n] s5(10)
    by (simp add: s7(5) count_enqueued_def push_to_queue_def)
  then show thesis
    by (rule that [OF s7(1,2) _ s7(6,7,3,4), rotated 3])
      (simp_all add: s7(5) s5 count_enqueued_def push_to_queue_def)
qed

subsection \<open>Overlapping calls of try_pop\<close>

text \<open>A call of \<open>enqueue\<close> that nothing disturbs, up to the record and to its end.\<close>

definition take_head :: "LogEngine \<Rightarrow> nat \<Rightarrow> LogEngine" where
  "take_head e n = e\<lparr>freelist := (freelist e)\<lparr>fl_head := free_next (freelist e) n\<rparr>\<rparr>"

lemma call_takes:
  assumes "eng_reach b True T st s" "c_at t Pr_idle s" "eng_run (engine s)" "fl_head (freelist (engine s)) = Some n"
  shows "eng_reach b True T st (c_goto t (Pr_fill env n) (take_head (engine s) n) s)"
proof -
  let ?s1 = "c_goto t (Pr_acquire env) (engine s) s"
  have s1: "eng_reach b True T st ?s1" by (rule eng_reach_step [OF assms(1) en_cas_lost [OF assms(2,3)]])
  have "acquire_record (engine ?s1) = (Some n, take_head (engine s) n)"
    using assms(4) by (simp add: acquire_record_def try_pop_def take_head_def c_goto_def)
  moreover have "c_at t (Pr_acquire env) ?s1" using assms(2) by (simp add: c_at_def c_goto_def)
  ultimately have "eng_reach b True T st (c_goto t (Pr_fill env n) (take_head (engine s) n) ?s1)"
    using acquire_in_steps [of t env ?s1 True n _ b] by (intro eng_reach_steps [OF _ s1]) auto
  then show ?thesis by (simp add: c_goto_def)
qed

lemma call_in_steps:
  assumes "eng_reach b True T st s" "c_at t Pr_idle s" "eng_run (engine s)" "fl_head (freelist (engine s)) = Some n"
  obtains s' where "eng_reach b True T st s'" "clients s' = clients s" "eng_crash s' = None" "eng_worker s' = eng_worker s"
    "engine s' = count_enqueued (push_to_queue n (fill_record env n (take_head (engine s) n)))"
proof -
  let ?e1 = "take_head (engine s) n" let ?e2 = "fill_record env n ?e1" let ?e3 = "push_to_queue n ?e2"
  have t: "t < length (clients s)" "clients s ! t = Pr_idle" "eng_crash s = None" using assms(2) by (simp_all add: c_at_def)
  obtain s1 where s1: "eng_reach b True T st s1" "clients s1 = (clients s)[t := Pr_fill env n]" "eng_crash s1 = None"
    "eng_worker s1 = eng_worker s" "engine s1 = ?e1"
    using call_takes [OF assms, of env] t by (auto simp: c_goto_def)
  obtain s2 where s2: "eng_reach b True T st s2" "clients s2 = (clients s)[t := Pr_push env n]" "eng_crash s2 = None"
    "eng_worker s2 = eng_worker s" "engine s2 = ?e2"
    using eng_reach_step [OF s1(1) en_fill [of t env n]] s1(2-) t by (auto simp: c_at_def c_goto_def)
  obtain s3 where s3: "eng_reach b True T st s3" "clients s3 = (clients s)[t := Pr_count]" "eng_crash s3 = None"
    "eng_worker s3 = eng_worker s" "engine s3 = ?e3"
    using eng_reach_step [OF s2(1) en_push [of t env n]] s2(2-) t by (auto simp: c_at_def c_goto_def)
  obtain s4 where "eng_reach b True T st s4" "clients s4 = (clients s)[t := Pr_idle]" "eng_crash s4 = None"
    "eng_worker s4 = eng_worker s" "engine s4 = count_enqueued ?e3"
    using eng_reach_step [OF s3(1) en_count [of t]] s3(2-) t by (auto simp: c_at_def c_goto_def)
  then show thesis using that [of s4] t by (metis list_update_id)
qed

lemma submit_frame [simp]:
  "queue (submit_impl env e) = queue e" "freelist (submit_impl env e) = freelist e"
  "eng_run (submit_impl env e) = eng_run e" "storage (submit_impl env e) = storage e"
  by (simp_all add: submit_impl_def split: prod.split)

lemma worker_takes:
  assumes "queued (queue e) p [x]" "storage e x = Some env" "eng_run e"
  obtains e' where "worker_step (W_loop p) e = Inr (W_loop (Some x), e')" "queued (queue e') (Some x) []"
    "freelist e' = freelist (recycle p e)" "eng_run e'"
proof -
  obtain q where q: "q_pop (queue e) = (Popped (Node x), q)" "queued q (Some x) []"
    using mpsc.pop_cases [OF assms(1)] by auto
  have "freelist (recycle p (e\<lparr>queue := q\<rparr>)) = freelist (recycle p e)" by (cases p) (simp_all add: recycle_def)
  then obtain e' where "process p x (e\<lparr>queue := q\<rparr>) = Inr e'" "queue e' = q" "freelist e' = freelist (recycle p e)"
    "eng_run e'"
    using assms(2,3) by (simp add: process_def destroy_impl_def Let_def)
  with q assms(3) show thesis by (intro that [of e']) simp_all
qed

text \<open>Three threads, the first of which stands still between its read of \<open>free_next\<close> and its exchange while its head is
  taken, recycled by the worker and back: its exchange then makes a record the head that another thread still holds,
  and the next call hands it out a second time.  So the condition on overlapping calls cannot be dropped from what
  follows.\<close>

lemma overlapping_pops_share_record:
  "\<exists>s n. eng_reach False True 3 st s \<and> eng_crash s = None \<and>
     clients s ! 1 = Pr_fill env n \<and> clients s ! 2 = Pr_fill env n"
proof -
  obtain e where e: "newEngine st = Inr e" "pool_gen e = 0" "eng_run e = False" "freelist e = newFreeList" "queue e = newQueue"
    by (rule newEngine_ok [of st]) (metis LogEngine.select_convs(4,6,7,8))
  let ?R = "eng_reach False True 3 st"
  have s0: "?R (eng_start 3 e)" by (rule eng_reach_start [OF e(1)])
  obtain s1 where s1: "?R s1" "clients s1 = [Pr_init env, Pr_idle, Pr_idle]" "eng_crash s1 = None"
    "eng_worker s1 = No_worker" "engine s1 = e\<lparr>eng_run := True\<rparr>"
    using eng_reach_step [OF s0 en_cas_won [of 0 _ False True env]] e(3)
    by (auto simp: c_at_def eng_start_def c_goto_def numeral_3_eq_3)
  let ?E = "init_pool_and_queue (e\<lparr>eng_run := True\<rparr>)"
  obtain s2 where s2: "?R s2" "clients s2 = [Pr_spawn env, Pr_idle, Pr_idle]" "eng_crash s2 = None"
    "eng_worker s2 = No_worker" "engine s2 = ?E"
    using eng_reach_step [OF s1(1) en_init [of 0 env]] s1(2-) by (auto simp: c_at_def c_goto_def)
  obtain s3 where s3: "?R s3" "clients s3 = [Pr_acquire env, Pr_idle, Pr_idle]" "eng_crash s3 = None"
    "eng_worker s3 = W_loop None" "engine s3 = ?E"
    using eng_reach_step [OF s2(1) en_spawn [of 0 env]] s2(2-) by (auto simp: c_at_def c_goto_def)
  let ?F = "freelist ?E"
  obtain m where m: "kPoolSize = Suc (Suc (Suc m))" by (simp add: kPoolSize_def numeral_eq_Suc)
  define x y z where "x = Suc (Suc m)" and "y = Suc m" and "z = m"
  have "holds ?F (rev [0..<kPoolSize])"
    using treiber.push_all [OF treiber.has_empty, of "[0..<kPoolSize]"] e(2,4) by (simp add: init_pool_and_queue_def)
  then have "holds ?F (x # y # z # rev [0..<m])" unfolding m x_def y_def z_def by simp
  then have F: "fl_head ?F = Some x" "free_next ?F x = Some y" "free_next ?F y = Some z"
    by (auto simp: holds_def)
  have ne: "x \<noteq> z" by (simp add: x_def z_def)
  have E: "eng_run ?E" "queue ?E = newQueue" using e(5) by (simp_all add: init_pool_and_queue_def Let_def)
  obtain s4 where s4: "?R s4" "clients s4 = [Pr_pop_next env x, Pr_idle, Pr_idle]" "eng_crash s4 = None"
    "eng_worker s4 = W_loop None" "engine s4 = ?E"
    using eng_reach_step [OF s3(1) en_load [of 0 env]] s3(2-) F(1) by (auto simp: c_at_def c_goto_def pop_seen_def)
  obtain s5 where s5: "?R s5" "clients s5 = [Pr_pop_cas env x (Some y), Pr_idle, Pr_idle]" "eng_crash s5 = None"
    "eng_worker s5 = W_loop None" "engine s5 = ?E"
    using eng_reach_step [OF s4(1) en_next [of 0 env x]] s4(2-) F(2) by (auto simp: c_at_def c_goto_def)
  obtain s6 where s6: "?R s6" "clients s6 = clients s5" "eng_crash s6 = None" "eng_worker s6 = W_loop None"
    "engine s6 = count_enqueued (push_to_queue x (fill_record env x (take_head ?E x)))"
    using call_in_steps [OF s5(1), of 1 x env] s5(2-) E(1) F(1) by (auto simp: c_at_def)
  have q6: "queued (queue (engine s6)) None [x]"
    using mpsc.has_push [OF mpsc.has_new, of x] E(2)
    by (simp add: s6(5) count_enqueued_def push_to_queue_def fill_record_def take_head_def)
  have f6: "fl_head (freelist (engine s6)) = Some y" "free_next (freelist (engine s6)) = free_next ?F"
    "eng_run (engine s6)" "storage (engine s6) x = Some env"
    using E(1) F by (simp_all add: s6(5) count_enqueued_def push_to_queue_def fill_record_def take_head_def)
  let ?e7 = "take_head (engine s6) y"
  obtain s7 where s7: "?R s7" "clients s7 = [Pr_pop_cas env x (Some y), Pr_idle, Pr_fill env y]"
    "eng_crash s7 = None" "eng_worker s7 = W_loop None" "engine s7 = ?e7"
    using call_takes [OF s6(1), of 2 y env] s6(2-4) s5(2) f6 by (auto simp: c_at_def c_goto_def)
  obtain e8 where e8: "worker_step (W_loop None) ?e7 = Inr (W_loop (Some x), e8)" "queued (queue e8) (Some x) []"
    "freelist e8 = freelist ?e7" "eng_run e8"
    by (rule worker_takes [of ?e7 None x env]) (use q6 f6 in \<open>simp_all add: take_head_def recycle_def\<close>)
  obtain s8 where s8: "?R s8" "clients s8 = clients s7" "eng_crash s8 = None" "eng_worker s8 = W_loop (Some x)"
    "engine s8 = e8"
    using eng_reach_step [OF s7(1) en_worker [of _ "W_loop (Some x)" e8]] s7(3-) e8(1) by auto
  have f8: "fl_head (freelist e8) = Some z" using f6 F(3) e8(3) by (simp add: take_head_def)
  obtain s9 where s9: "?R s9" "clients s9 = clients s8" "eng_crash s9 = None" "eng_worker s9 = W_loop (Some x)"
    "engine s9 = count_enqueued (push_to_queue z (fill_record env z (take_head e8 z)))"
    using call_in_steps [OF s8(1), of 1 z env] s8(2-) s7(2) e8(4) f8 by (auto simp: c_at_def)
  have q9: "queued (queue (engine s9)) (Some x) [z]"
    using mpsc.has_push [OF e8(2), of z] ne
    by (simp add: s9(5) count_enqueued_def push_to_queue_def fill_record_def take_head_def)
  have f9: "eng_run (engine s9)" "storage (engine s9) z = Some env"
    using e8(4) by (simp_all add: s9(5) count_enqueued_def push_to_queue_def fill_record_def take_head_def)
  obtain e10 where e10: "worker_step (W_loop (Some x)) (engine s9) = Inr (W_loop (Some z), e10)"
    "freelist e10 = fl_push x (freelist (engine s9))" "eng_run e10"
    by (rule worker_takes [OF q9 f9(2,1)]) (simp add: recycle_def)
  obtain s10 where s10: "?R s10" "clients s10 = clients s7" "eng_crash s10 = None" "engine s10 = e10"
    using eng_reach_step [OF s9(1) en_worker [of _ "W_loop (Some z)" e10]] s9(2-4) s8(2) e10(1) by auto
  let ?e11 = "e10\<lparr>freelist := (freelist e10)\<lparr>fl_head := Some y\<rparr>\<rparr>"
  obtain s11 where s11: "?R s11" "clients s11 = [Pr_fill env x, Pr_idle, Pr_fill env y]" "eng_crash s11 = None"
    "engine s11 = ?e11"
    using eng_reach_step [OF s10(1) en_pop [of 0 env x "Some y"]] s10(2-) s7(2) e10(2)
    by (auto simp: c_at_def c_goto_def fl_push_def)
  have "?R (c_goto 1 (Pr_fill env y) (take_head ?e11 y) s11)"
    using call_takes [OF s11(1), of 1 y env] s11(2-) e10(3) by (auto simp: c_at_def)
  then show ?thesis using s11(2,3)
    by (intro exI [of _ "c_goto 1 (Pr_fill env y) (take_head ?e11 y) s11"] exI [of _ y]) (simp add: c_goto_def)
qed

subsection \<open>Properties\<close>

text \<open>C8: While nobody shuts the engine down and no two calls of \<open>try_pop\<close> overlap, with any number of logging
  threads and any interleaving of their steps otherwise, the engine never fails, and every record of the pool is in exactly one place: on the
  free list, in the hands of one thread, in the queue, or kept by the worker as the queue's dummy.\<close>

theorem engine_records_conserved:
  assumes "eng_reach False False T st s"
  shows "eng_crash s = None \<and>
    (\<exists>free qs. holds (freelist (engine s)) free \<and>
       queued (queue (engine s)) (pending (eng_worker s)) qs \<and>
       mset free + held_by (clients s) + node_opt (pending (eng_worker s)) + mset qs =
         mset [0..<pool_count (engine s)] \<and>
       (\<forall>n\<in>set qs. storage (engine s) n \<noteq> None))"
proof -
  obtain free qs don where "eng_inv st s free qs don" using eng_reach_inv [OF assms] by blast
  then show ?thesis by (auto simp: eng_inv_def records_ok_def add.assoc)
qed

theorem engine_records_conserved_witness:
  "\<exists>s free. eng_reach False False 2 (\<lambda>_. []) s \<and> eng_accepted s = [(Generic, emptyRequest)] \<and>
     eng_crash s = None \<and> holds (freelist (engine s)) free"
proof -
  obtain s where s: "eng_reach False False 2 (\<lambda>_. []) s" "eng_accepted s = [(Generic, emptyRequest)]"
    by (rule first_message)
  then show ?thesis using engine_records_conserved [OF s(1)] by blast
qed

text \<open>C9: Under the same two conditions the standard output is what the accepted messages print, in the order in which they were
  queued: at any time a prefix of the accepted messages has been written, each exactly once and
  whole, and \<open>written()\<close> is the length of that prefix modulo \<open>2 ^ 64\<close>.\<close>

theorem engine_output_in_order:
  assumes "eng_reach False False T st s"
  shows "\<exists>k \<le> length (eng_accepted s).
    eng_streams (engine s) = st(kStdout := st kStdout @ concat (map line_of (take k (eng_accepted s)))) \<and>
    written (engine s) = of_nat k"
proof -
  obtain free qs don where "eng_inv st s free qs don" using eng_reach_inv [OF assms] by blast
  then have "output_ok (engine s) st (eng_accepted s) don qs" by (simp add: eng_inv_def)
  then show ?thesis by (intro exI [of _ "length don"]) (auto simp: output_ok_def)
qed

theorem engine_output_in_order_witness:
  "\<exists>s k. eng_reach False False 2 (\<lambda>_. []) s \<and> k \<le> 1 \<and> written (engine s) = of_nat k \<and>
     eng_streams (engine s) kStdout = concat (map line_of (take k [(Request, emptyRequest)]))"
proof -
  obtain s where s: "eng_reach False False 2 (\<lambda>_. []) s" "eng_accepted s = [(Request, emptyRequest)]"
    by (rule first_message)
  then show ?thesis using engine_output_in_order [OF s(1)] by fastforce
qed

text \<open>C11: In every interleaving, also with overlapping calls of \<open>try_pop\<close> and with shutdowns and restarts, whenever no
  call is in progress \<open>enqueued()\<close> counts the accepted
  messages and \<open>dropped() + enqueued()\<close> the calls; and a call that would start then finds no record exactly when the
  free list is empty.\<close>

theorem engine_counters_exact:
  assumes "eng_reach shutdowns overlap T st s" and "list_all (\<lambda>c. c = Pr_idle) (clients s)"
  shows "enqueued (engine s) = of_nat (length (eng_accepted s)) \<and>
    dropped (engine s) + enqueued (engine s) = of_nat (eng_calls s) \<and>
    (fst (acquire_record (engine s)) = None \<longleftrightarrow> holds (freelist (engine s)) [])"
proof -
  have "fst (acquire_record (engine s)) = None \<longleftrightarrow> holds (freelist (engine s)) []"
    by (simp add: acquire_record_def try_pop_def holds_def split: option.split)
  then show ?thesis using eng_reach_tallies [OF assms(1)] idle_clients(3) [OF assms(2)] by (auto simp: tallies_ok_def)
qed

theorem engine_counters_exact_witness:
  "\<exists>s. eng_reach False True 2 (\<lambda>_. []) s \<and> enqueued (engine s) = 1 \<and> dropped (engine s) = 0"
proof -
  obtain s where s: "eng_reach False True 2 (\<lambda>_. []) s" "clients s = [Pr_idle, Pr_idle]"
    "eng_accepted s = [(Generic, emptyRequest)]" "eng_calls s = 1" by (rule first_message)
  have c: "enqueued (engine s) = 1 \<and> dropped (engine s) + enqueued (engine s) = 1"
    using engine_counters_exact [OF s(1)] s by auto
  then have "dropped (engine s) + 1 = 1" by auto
  then have "dropped (engine s) = 0" by simp
  with c s(1) show ?thesis by blast
qed

text \<open>C10: On an engine that runs, that nobody has shut down before, on which no two calls of \<open>try_pop\<close> have overlapped
  and with no call in progress, \<open>shutdown\<close> ends after finitely many steps of the worker and
  loses nothing: every accepted message has been written, in order, \<open>written() = enqueued()\<close>, the
  queue is empty again, and all 1024 records are back on the free list.\<close>

theorem shutdown_drains_everything:
  assumes "eng_reach False False T st s" and "list_all (\<lambda>c. c = Pr_idle) (clients s)"
    and "eng_run (engine s)"
  shows "\<exists>k e free. worker_iter k (eng_worker s, (engine s)\<lparr>eng_run := False\<rparr>) = Inr (W_done, e) \<and>
    eng_streams e = st(kStdout := st kStdout @ concat (map line_of (eng_accepted s))) \<and>
    written e = enqueued e \<and> enqueued e = enqueued (engine s) \<and> q_empty (queue e) \<and>
    holds (freelist e) free \<and> mset free = mset [0..<kPoolSize] \<and> pool_gen e = 1"
proof -
  obtain free qs don where inv: "eng_inv st s free qs don" using eng_reach_inv [OF assms(1)] by blast
  note idle = idle_clients [OF assms(2)]
  let ?e = "(engine s)\<lparr>eng_run := False\<rparr>"
  obtain p where p: "eng_worker s = W_loop p" "pool_gen (engine s) = 1"
    using inv idle(2) assms(3) by (auto simp: eng_inv_def phase_ok_def)
  have ms: "mset free + node_opt p + mset qs = mset [0..<kPoolSize]"
    using inv idle(1) p by (simp add: eng_inv_def records_ok_def pool_count_def pending_def)
  have "mset (free @ opt_list p @ qs) = mset [0..<kPoolSize]"
    using ms by (cases p) (simp_all add: ac_simps)
  then have "distinct (free @ opt_list p @ qs)" by (metis distinct_upt mset_eq_imp_distinct_iff)
  then have "drainable st ?e p free qs don (eng_accepted s)"
    using inv p(1) by (simp add: drainable_def eng_inv_def records_ok_def output_ok_def pending_def)
  from drain_all [OF this] obtain e free' where e:
    "worker_iter (length qs + 4) (W_loop p, ?e) = Inr (W_done, e)" "same_counts ?e e"
    "drainable st e None free' [] (don @ map (\<lambda>n. the (storage ?e n)) qs) (eng_accepted s)"
    "mset free' = mset free + node_opt p + mset qs" by blast
  have acc: "don @ map (\<lambda>n. the (storage ?e n)) qs = eng_accepted s"
    using inv by (simp add: eng_inv_def output_ok_def)
  have d: "output_ok e st (eng_accepted s) (eng_accepted s) []" "queued (queue e) None []"
    "holds (freelist e) free'"
    using e(3) unfolding acc by (simp_all add: drainable_def)
  have "enqueued (engine s) = of_nat (length (eng_accepted s))"
    using inv idle(3) by (simp add: eng_inv_def tallies_ok_def)
  then show ?thesis
    using e(1,2,4) d ms p mpsc.empty_iff [OF d(2)]
    by (intro exI [of _ "length qs + 4"] exI [of _ e] exI [of _ free'])
      (simp add: output_ok_def same_counts_def)
qed

theorem shutdown_drains_everything_witness:
  "\<exists>s k e. eng_reach False False 2 (\<lambda>_. []) s \<and>
     worker_iter k (eng_worker s, (engine s)\<lparr>eng_run := False\<rparr>) = Inr (W_done, e) \<and>
     eng_streams e kStdout = line_of (Generic, emptyRequest)"
proof -
  obtain s where s: "eng_reach False False 2 (\<lambda>_. []) s" "clients s = [Pr_idle, Pr_idle]" "eng_run (engine s)"
    "eng_accepted s = [(Generic, emptyRequest)]" by (rule first_message)
  then show ?thesis using shutdown_drains_everything [OF s(1) _ s(3)] by fastforce
qed

text \<open>Starting the engine again after a shutdown allocates a new pool and frees the old one,
  but the old records are still on the free list, under the new ones: once 1024 records are in use,
  further messages are stored in freed memory instead of being dropped.\<close>

theorem restart_hands_out_freed_records:
  assumes "holds (freelist e) free" and "mset free = mset [0..<kPoolSize]" and "pool_gen e = 1"
  shows "\<exists>free'. holds (freelist (init_pool_and_queue e)) free' \<and>
    set (take kPoolSize free') = live_records (init_pool_and_queue e) \<and>
    length (drop kPoolSize free') = kPoolSize \<and>
    set (drop kPoolSize free') \<inter> live_records (init_pool_and_queue e) = {}"
proof -
  let ?new = "[kPoolSize ..< 2 * kPoolSize]"
  have old: "distinct free" "set free = {0..<kPoolSize}" "length free = kPoolSize"
    using assms(2) by (metis distinct_upt mset_eq_imp_distinct_iff, metis mset_eq_setD set_upt,
      metis size_mset length_upt diff_zero)
  have "distinct (?new @ free)" using old by auto
  from treiber.push_all [OF assms(1) this]
  have h: "holds (freelist (init_pool_and_queue e)) (rev ?new @ free)"
    using assms(3) by (simp add: init_pool_and_queue_def mult_2)
  have len: "length (rev ?new) = kPoolSize" by simp
  have "live_records (init_pool_and_queue e) = {kPoolSize ..< 2 * kPoolSize}"
    using assms(3) by (simp add: live_records_def init_pool_and_queue_def mult_2)
  moreover have "take kPoolSize (rev ?new @ free) = rev ?new" "drop kPoolSize (rev ?new @ free) = free"
    using len by simp_all
  ultimately show ?thesis using h old by (intro exI [of _ "rev ?new @ free"]) auto
qed

theorem restart_hands_out_freed_records_witness:
  "\<exists>e free n. pool_gen e = 1 \<and> holds (freelist (init_pool_and_queue e)) free \<and>
     n \<in> set free \<and> n \<notin> live_records (init_pool_and_queue e)"
proof -
  obtain e0 where "newEngine (\<lambda>_. []) = Inr e0" "pool_gen e0 = 0" "freelist e0 = newFreeList"
    by (rule newEngine_ok [of "\<lambda>_. []"]) (metis LogEngine.select_convs(4,6))
  then have h: "holds (freelist (init_pool_and_queue e0)) (rev [0..<kPoolSize])"
    and g: "pool_gen (init_pool_and_queue e0) = 1"
    using treiber.push_all [OF treiber.has_empty, of "[0..<kPoolSize]"]
    by (simp_all add: init_pool_and_queue_def)
  from restart_hands_out_freed_records [OF h _ g] obtain free where f:
    "holds (freelist (init_pool_and_queue (init_pool_and_queue e0))) free"
    "length (drop kPoolSize free) = kPoolSize"
    "set (drop kPoolSize free) \<inter> live_records (init_pool_and_queue (init_pool_and_queue e0)) = {}" by auto
  then obtain n where "n \<in> set (drop kPoolSize free)"
    by (metis kPoolSize_def list.size(3) set_empty2 ex_in_conv zero_neq_numeral)
  then show ?thesis using f g by (meson disjoint_iff in_set_dropD)
qed

text \<open>A call of \<open>enqueue\<close> while \<open>shutdown\<close> waits for the worker finds \<open>run_\<close> false,
  allocates a second pool under the running worker and assigns a thread to the \<open>worker_\<close> that is
  still joinable, which terminates the program.\<close>

theorem enqueue_during_shutdown_terminates:
  "\<exists>s. eng_reach True c 2 st s \<and> eng_crash s = Some (Undefined ''std::terminate: thread is joinable'')"
proof -
  let ?env = "(Generic, emptyRequest)"
  obtain s where s: "eng_reach True c 2 st s" "clients s = [Pr_idle, Pr_idle]" "eng_run (engine s)"
    "eng_crash s = None" "eng_worker s = W_loop None" by (rule first_message)
  obtain s1 where s1: "eng_reach True c 2 st s1" "clients s1 = [Pr_idle, Pr_join]" "\<not> eng_run (engine s1)"
    "eng_crash s1 = None" "eng_worker s1 = W_loop None"
    using eng_reach_step [OF s(1) en_shutdown [of True 1 _ c]] s(2-) by (auto simp: c_at_def c_goto_def)
  obtain s2 where s2: "eng_reach True c 2 st s2" "clients s2 = [Pr_init ?env, Pr_join]"
    "eng_crash s2 = None" "eng_worker s2 = W_loop None"
    using eng_reach_step [OF s1(1) en_cas_won [of 0 _ True c ?env]] s1(2-) by (auto simp: c_at_def c_goto_def)
  obtain s3 where s3: "eng_reach True c 2 st s3" "clients s3 = [Pr_spawn ?env, Pr_join]"
    "eng_crash s3 = None" "eng_worker s3 = W_loop None"
    using eng_reach_step [OF s2(1) en_init [of 0 ?env]] s2(2-) by (auto simp: c_at_def c_goto_def)
  show ?thesis
    using eng_reach_step [OF s3(1) en_spawn_terminates [of 0 ?env]] s3(2-) by (auto simp: c_at_def)
qed

text \<open>A message queued after the worker's last \<open>pop\<close> and before \<open>reset\<close> is lost: it is
  counted as enqueued, never written, and its record is on no list, although \<open>shutdown\<close> returns
  normally.\<close>

theorem enqueue_during_shutdown_loses_message:
  "\<exists>s. eng_reach True c 2 st s \<and> clients s = [Pr_idle, Pr_idle] \<and> eng_worker s = No_worker \<and>
     eng_crash s = None \<and> length (eng_accepted s) = 1 \<and> enqueued (engine s) = 1 \<and>
     written (engine s) = 0 \<and> q_empty (queue (engine s))"
proof -
  let ?env = "(Generic, emptyRequest)"
  obtain s n where s: "eng_reach True c 2 st s" "clients s = [Pr_push ?env n, Pr_idle]" "eng_run (engine s)"
    "eng_accepted s = []" "eng_crash s = None" "eng_worker s = W_loop None"
    "storage (engine s) n = Some ?env" "queue (engine s) = newQueue"
    "written (engine s) = 0" "enqueued (engine s) = 0" by (rule first_record)
  let ?e1 = "(engine s)\<lparr>eng_run := False\<rparr>" let ?e2 = "push_to_queue n ?e1"
  let ?e3 = "?e2\<lparr>queue := q_reset (queue ?e2)\<rparr>"
  have new: "q_empty newQueue" "q_pop newQueue = (Null, newQueue)"
    by (simp_all add: q_empty_def q_pop_def newQueue_def)
  obtain s1 where s1: "eng_reach True c 2 st s1" "clients s1 = [Pr_push ?env n, Pr_join]" "engine s1 = ?e1"
    "eng_crash s1 = None" "eng_worker s1 = W_loop None" "eng_accepted s1 = []"
    using eng_reach_step [OF s(1) en_shutdown [of True 1 _ c]] s(2-) by (auto simp: c_at_def c_goto_def)
  obtain s2 where s2: "eng_reach True c 2 st s2" "clients s2 = [Pr_push ?env n, Pr_join]" "engine s2 = ?e1"
    "eng_crash s2 = None" "eng_worker s2 = W_drain None" "eng_accepted s2 = []"
    using eng_reach_step [OF s1(1) en_worker [of _ "W_drain None" ?e1]] s1(2-) s(8) new by auto
  obtain s3 where s3: "eng_reach True c 2 st s3" "clients s3 = [Pr_push ?env n, Pr_join]" "engine s3 = ?e1"
    "eng_crash s3 = None" "eng_worker s3 = W_reset None" "eng_accepted s3 = []"
    using eng_reach_step [OF s2(1) en_worker [of _ "W_reset None" ?e1]] s2(2-) s(8) new by auto
  obtain s4 where s4: "eng_reach True c 2 st s4" "clients s4 = [Pr_count, Pr_join]" "engine s4 = ?e2"
    "eng_crash s4 = None" "eng_worker s4 = W_reset None" "eng_accepted s4 = [?env]"
    using eng_reach_step [OF s3(1) en_push [of 0 ?env n]] s3(2-) s(7) by (auto simp: c_at_def c_goto_def)
  obtain s5 where s5: "eng_reach True c 2 st s5" "clients s5 = [Pr_count, Pr_join]" "engine s5 = ?e3"
    "eng_crash s5 = None" "eng_worker s5 = W_last None" "eng_accepted s5 = [?env]"
    using eng_reach_step [OF s4(1) en_worker [of _ "W_last None" ?e3]] s4(2-) by auto
  obtain s6 where s6: "eng_reach True c 2 st s6" "clients s6 = [Pr_count, Pr_join]" "engine s6 = ?e3"
    "eng_crash s6 = None" "eng_worker s6 = W_done" "eng_accepted s6 = [?env]"
    using eng_reach_step [OF s5(1) en_worker [of _ W_done ?e3]] s5(2-) by (auto simp: recycle_def)
  obtain s7 where s7: "eng_reach True c 2 st s7" "clients s7 = [Pr_idle, Pr_join]"
    "engine s7 = count_enqueued ?e3" "eng_crash s7 = None" "eng_worker s7 = W_done"
    "eng_accepted s7 = [?env]"
    using eng_reach_step [OF s6(1) en_count [of 0]] s6(2-) by (auto simp: c_at_def c_goto_def)
  obtain s8 where s8: "eng_reach True c 2 st s8" "clients s8 = [Pr_idle, Pr_idle]"
    "engine s8 = count_enqueued ?e3" "eng_crash s8 = None" "eng_worker s8 = No_worker"
    "eng_accepted s8 = [?env]"
    using eng_reach_step [OF s7(1) en_join [of 1]] s7(2-) by (auto simp: c_at_def c_goto_def)
  have "q_empty (q_reset q)" for q by (simp add: q_empty_def q_reset_def)
  then show ?thesis using s8 s(9,10) by (intro exI [of _ s8]) (simp add: count_enqueued_def push_to_queue_def)
qed

end
