(* ===== verification/Log_Main.thy ===== *)
theory Log_Main
  imports Engine_Properties Handle_Ownership
begin

text \<open>
  What one thread sees of the logging stack: a whole call of \<open>LogEngine::enqueue\<close>,
  \<open>logger::Handler::log\<close> (\<^verbatim>\<open>modules/logger/include/logger/logger.hpp\<close>) and the program
  of \<^verbatim>\<open>app/src/main.cpp\<close>, which uses registry, handle, builder, buffer and publisher
  directly.
\<close>

subsection \<open>Logging\<close>

definition ensure_running :: "LogEngine \<times> worker \<Rightarrow> (LogEngine \<times> worker) result" where
  "ensure_running ew =
     (case ew of (e, w) \<Rightarrow>
        if eng_run e then Inr (e, w)
        else let e1 = init_pool_and_queue (e\<lparr>eng_run := True\<rparr>) in
          if w = No_worker then Inr (e1, W_loop None)
          else Inl (Undefined ''std::terminate: thread is joinable''))"

definition enqueue :: "envelope \<Rightarrow> LogEngine \<times> worker \<Rightarrow> (LogEngine \<times> worker) result" where
  "enqueue env ew =
     (case ensure_running ew of
        Inl x \<Rightarrow> Inl x
      | Inr (e, w) \<Rightarrow>
          (case acquire_record e of
             (None, e1) \<Rightarrow> Inr (count_drop e1, w)
           | (Some n, e1) \<Rightarrow> Inr (count_enqueued (push_to_queue n (fill_record env n e1)), w)))"

text \<open>\<open>Handler::log<Tag>(args...)\<close>: a call whose arguments the builder rejects does not compile.\<close>

definition handler_log ::
  "MsgTag \<Rightarrow> cpp_val list \<Rightarrow> LogEngine \<times> worker \<Rightarrow> (LogEngine \<times> worker) result option" where
  "handler_log tag args ew =
     (case build tag (pack_header_args args) of
        None \<Rightarrow> None
      | Some payload \<Rightarrow> Some (enqueue (tag, payload) ew))"

fun enqueue_all :: "envelope list \<Rightarrow> LogEngine \<times> worker \<Rightarrow> (LogEngine \<times> worker) result" where
  "enqueue_all [] ew = Inr ew"
| "enqueue_all (m # ms) ew = (case enqueue m ew of Inl x \<Rightarrow> Inl x | Inr ew' \<Rightarrow> enqueue_all ms ew')"

text \<open>A burst: the messages are logged before the worker gets to run.\<close>

definition burst_ok :: "streams \<Rightarrow> LogEngine \<Rightarrow> nat list \<Rightarrow> nat list \<Rightarrow> envelope list \<Rightarrow> bool" where
  "burst_ok st e free qs acc \<longleftrightarrow>
     holds (freelist e) free \<and> queued (queue e) None qs \<and> distinct (free @ qs) \<and>
     (\<forall>n\<in>set qs. storage e n \<noteq> None) \<and> output_ok e st acc [] qs \<and> eng_run e"

lemma burst_enqueue:
  assumes "burst_ok st e (n # free) qs acc"
  shows "\<exists>e'. enqueue env (e, w) = Inr (e', w) \<and> burst_ok st e' free (qs @ [n]) (acc @ [env]) \<and>
    enqueued e' = enqueued e + 1 \<and> dropped e' = dropped e"
proof -
  have b: "holds (freelist e) (n # free)" "queued (queue e) None qs" "distinct (n # free @ qs)"
    "\<forall>m\<in>set qs. storage e m \<noteq> None" "output_ok e st acc [] qs" "eng_run e"
    using assms by (simp_all add: burst_ok_def)
  obtain f where f: "try_pop (freelist e) = (Some n, f)" "holds f free"
    using b(1) by (cases rule: treiber.pop_cases) auto
  let ?e = "count_enqueued (push_to_queue n (fill_record env n (e\<lparr>freelist := f\<rparr>)))"
  have "enqueue env (e, w) = Inr (?e, w)"
    using b(6) f(1) by (simp add: enqueue_def ensure_running_def acquire_record_def)
  moreover have "queued (queue ?e) None (qs @ [n])"
    using mpsc.has_push [OF b(2), of n] b(3)
    by (simp add: count_enqueued_def push_to_queue_def fill_record_def)
  moreover have "output_ok ?e st (acc @ [env]) [] (qs @ [n])"
  proof -
    have "map (\<lambda>m. the (((storage e)(n \<mapsto> env)) m)) qs = map (\<lambda>m. the (storage e m)) qs"
      using b(3) by (intro map_cong) auto
    then show ?thesis using b(5)
      by (simp add: output_ok_def count_enqueued_def push_to_queue_def fill_record_def)
  qed
  ultimately show ?thesis using b f(2)
    by (intro exI [of _ ?e])
      (auto simp: burst_ok_def count_enqueued_def push_to_queue_def fill_record_def)
qed

lemma burst_drop:
  assumes "burst_ok st e [] qs acc"
  shows "\<exists>e'. enqueue env (e, w) = Inr (e', w) \<and> burst_ok st e' [] qs acc \<and>
    enqueued e' = enqueued e \<and> dropped e' = dropped e + 1"
proof -
  have "try_pop (freelist e) = (None, freelist e)"
    using assms by (simp add: burst_ok_def treiber.pop_none)
  then show ?thesis using assms
    by (auto simp: enqueue_def ensure_running_def acquire_record_def count_drop_def burst_ok_def output_ok_def)
qed

lemma burst_all:
  "burst_ok st e free qs acc \<Longrightarrow>
   \<exists>e' free' qs'. enqueue_all ms (e, w) = Inr (e', w) \<and>
     burst_ok st e' free' qs' (acc @ take (length free) ms) \<and>
     enqueued e' = enqueued e + of_nat (min (length free) (length ms)) \<and>
     dropped e' = dropped e + of_nat (length ms - length free)"
proof (induction ms arbitrary: e free qs acc)
  case Nil
  then show ?case by auto
next
  case (Cons m ms)
  show ?case
  proof (cases free)
    case Nil
    obtain e1 where e1: "enqueue m (e, w) = Inr (e1, w)" "burst_ok st e1 [] qs acc"
      "enqueued e1 = enqueued e" "dropped e1 = dropped e + 1"
      using burst_drop [of st e qs acc m w] Cons.prems Nil by auto
    from Cons.IH [OF e1(2)] e1 Nil show ?thesis by (auto simp: ac_simps)
  next
    case (Cons n free1)
    obtain e1 where e1: "enqueue m (e, w) = Inr (e1, w)" "burst_ok st e1 free1 (qs @ [n]) (acc @ [m])"
      "enqueued e1 = enqueued e + 1" "dropped e1 = dropped e"
      using burst_enqueue [of st e n free1 qs acc m w] Cons.prems Cons by auto
    from Cons.IH [OF e1(2)] e1 Cons show ?thesis by (auto simp: ac_simps)
  qed
qed

lemma first_enqueue:
  assumes "newEngine st = Inr e"
  shows "\<exists>e1. ensure_running (e, No_worker) = Inr (e1, W_loop None) \<and>
    burst_ok st e1 (rev [0..<kPoolSize]) [] [] \<and> enqueued e1 = 0 \<and> dropped e1 = 0 \<and>
    (\<forall>env. enqueue env (e, No_worker) = enqueue env (e1, W_loop None))"
proof -
  have inv: "eng_inv st (eng_start 1 e) [] [] []" by (rule eng_start_inv [OF assms])
  then have e: "\<not> eng_run e" "pool_gen e = 0" "output_ok e st [] [] []" "tallies_ok e [Pr_idle] [] 0"
    "holds (freelist e) []" "queued (queue e) None []"
    by (auto simp: eng_inv_def eng_start_def phase_ok_def starters_idle [of 1, simplified] records_ok_def
        pending_def)
  let ?e1 = "init_pool_and_queue (e\<lparr>eng_run := True\<rparr>)"
  have "holds (freelist ?e1) (rev [0..<kPoolSize])"
    using treiber.push_all [OF e(5), of "[0..<kPoolSize]"] e(2) by (simp add: init_pool_and_queue_def)
  moreover have "enqueued e = 0" "dropped e = 0"
    using e(4) by (auto simp: tallies_ok_def counters_def)
  ultimately show ?thesis using e
    by (intro exI [of _ ?e1])
      (auto simp: ensure_running_def Let_def burst_ok_def output_ok_def init_pool_and_queue_def enqueue_def)
qed

subsection \<open>The program\<close>

definition main_args :: "cpp_val list" where
  "main_args = [VSeverity Error, VU64 999999, VU32 1, VU32 42, VU16 1, VU16 2, VU16 1, VU64 100,
                VView ''/api/hello'']"

definition main_program :: "streams \<Rightarrow> (streams \<times> regs) result" where
  "main_program st =
     (let rs0 = (\<lambda>_. newRegistry);
          store = bindTerminals kStdout kChannelCount newStore in
      case makeHandle 0 rs0 of
        (Inl e, rs) \<Rightarrow> Inl e
      | (Inr handle, rs) \<Rightarrow>
          (case build Request (pack_header_args main_args) of
             None \<Rightarrow> Inl (Undefined ''rejected by the compiler'')
           | Some payload \<Rightarrow>
               let buf = fold xsputn [debug_print Request payload] (newBuf 1024) in
               (case publish_view Terminal (rs 0) store (h_token handle) (view buf) st of
                  (Inl e, st') \<Rightarrow> Inl e
                | (Inr _, st') \<Rightarrow> Inr (st', destroyHandle handle rs))))"

subsection \<open>Properties\<close>

text \<open>A thread that logs a burst of \<open>n\<close> messages before the worker runs has the first
  1024 accepted and the others dropped, and the counters say so; the shutdown that follows
  writes the accepted ones in order. No call fails.\<close>

theorem burst_keeps_first_1024:
  assumes "newEngine st = Inr e" and "ms \<noteq> []"
  shows "\<exists>e1 k e2. enqueue_all ms (e, No_worker) = Inr (e1, W_loop None) \<and>
    enqueued e1 = of_nat (min 1024 (length ms)) \<and> dropped e1 = of_nat (length ms - 1024) \<and>
    worker_iter k (W_loop None, e1\<lparr>eng_run := False\<rparr>) = Inr (W_done, e2) \<and>
    eng_streams e2 = st(kStdout := st kStdout @ concat (map line_of (take 1024 ms)))"
proof -
  obtain e0 where e0: "burst_ok st e0 (rev [0..<kPoolSize]) [] []" "enqueued e0 = 0" "dropped e0 = 0"
    "\<forall>env. enqueue env (e, No_worker) = enqueue env (e0, W_loop None)"
    using first_enqueue [OF assms(1)] by blast
  obtain e1 free qs where e1: "enqueue_all ms (e0, W_loop None) = Inr (e1, W_loop None)"
    "burst_ok st e1 free qs (take kPoolSize ms)" "enqueued e1 = of_nat (min kPoolSize (length ms))"
    "dropped e1 = of_nat (length ms - kPoolSize)"
    using burst_all [OF e0(1), of ms "W_loop None"] e0(2,3) by auto
  have "enqueue_all ms (e, No_worker) = enqueue_all ms (e0, W_loop None)"
  proof -
    obtain m ms' where ms: "ms = m # ms'" using assms(2) by (cases ms) auto
    have "enqueue m (e, No_worker) = enqueue m (e0, W_loop None)" using e0(4) by blast
    then show ?thesis by (simp only: ms enqueue_all.simps)
  qed
  moreover have "drainable st (e1\<lparr>eng_run := False\<rparr>) None free qs [] (take kPoolSize ms)"
    using e1(2) by (simp add: burst_ok_def drainable_def output_ok_def)
  from drain_all [OF this] obtain e2 free' where
    e2: "worker_iter (length qs + 4) (W_loop None, e1\<lparr>eng_run := False\<rparr>) = Inr (W_done, e2)"
    "drainable st e2 None free' [] ([] @ map (\<lambda>n. the (storage (e1\<lparr>eng_run := False\<rparr>) n)) qs) (take kPoolSize ms)"
    by blast
  have "output_ok e2 st (take kPoolSize ms) (map (\<lambda>n. the (storage e1 n)) qs) []"
    using e2(2) by (simp add: drainable_def)
  then have "eng_streams e2 = st(kStdout := st kStdout @ concat (map line_of (take kPoolSize ms)))"
    by (simp add: output_ok_def)
  ultimately show ?thesis using e1 e2(1) unfolding kPoolSize_def by metis
qed

theorem burst_keeps_first_1024_witness:
  "\<exists>e e1. newEngine (\<lambda>_. []) = Inr e \<and>
     enqueue_all (replicate 1030 (Generic, emptyRequest)) (e, No_worker) = Inr (e1, W_loop None) \<and>
     enqueued e1 = 1024 \<and> dropped e1 = 6"
proof -
  obtain e where "newEngine (\<lambda>_. []) = Inr e" by (rule newEngine_ok)
  then show ?thesis
    using burst_keeps_first_1024 [of "\<lambda>_. []" e "replicate 1030 (Generic, emptyRequest)"] by fastforce
qed

text \<open>The program's output is exactly one line, with the nine arguments' header part in
  schema order; the request's own fields, unique id and path, do not appear, because the registered
  \<open>RequestPayload::debug_impl\<close> prints only the header. At the end no token is live.\<close>

theorem main_output:
  "\<exists>rs. main_program st =
     Inr (st(kStdout := st kStdout @
       ''[tag=1] severity=Error timestamp=999999 thread_id=1 request_id=42 class_id=1 method_id=2 '' @
       ''schema_version=1 ''), rs) \<and>
     live (rs 0) = Map.empty"
proof -
  obtain r where r: "acquire newRegistry = (Inr (PublishToken 0), r)" using acquire_new by blast
  have inv: "reg_inv newRegistry" using new_exact by (simp add: reg_exact_def)
  obtain c where c: "c < 4" "live r = [PublishToken 0 \<mapsto> c]" "reg_inv r"
    using inv r by (rule acquire_ok) (simp add: live_new)
  define h where "h = \<lparr>h_registry = Some 0, h_token = PublishToken 0\<rparr>"
  have mk: "makeHandle 0 (\<lambda>_. newRegistry) = (Inr h, (\<lambda>_. newRegistry)(0 := r))"
    using r by (simp add: makeHandle_def handle_defs h_def ret_def and_then_def)
  obtain r' where r': "release (PublishToken 0) r = (Inr (), r')" "live r' = (live r)(PublishToken 0 := None)"
    using release_ok [OF c(3), of "PublishToken 0" c] c(2) by auto
  have d: "live (destroyHandle h ((\<lambda>_. newRegistry)(0 := r)) 0) = Map.empty"
    using r' c(2) by (simp add: handle_defs h_def kInvalidToken_def)
  define p where "p = assign_fields (header_ptrs @ [FUnique, FPath]) main_args emptyRequest"
  have b: "build Request (pack_header_args main_args) = Some p"
    by (simp add: build_def pack_header_args_def main_args_def header_ptrs_def p_def)
  have decs: "dec 999999 = ''999999''" "dec 42 = ''42''" "dec (Suc 0) = ''1''" "dec 2 = ''2''" "dec 1 = ''1''"
    by (simp_all add: dec.simps digit_char_def)
  have line: "debug_print Request p =
      ''[tag=1] severity=Error timestamp=999999 thread_id=1 request_id=42 class_id=1 method_id=2 '' @
      ''schema_version=1 ''"
    by (simp add: debug_print_def request_debug_def print_header_def show_fields_def header_schema_def
        p_def main_args_def header_ptrs_def emptyRequest_def show_severity_def Info_def Warn_def Error_def decs)
  have "view (fold xsputn [debug_print Request p] (newBuf 1024)) = take 1024 (debug_print Request p)"
    using writes_ok [OF new_buf_ok, of 1024 "[debug_print Request p]"] by (simp add: view_def newBuf_def)
  also have "\<dots> = debug_print Request p" using debug_print_length [of Request p] by simp
  finally have v: "view (fold xsputn [debug_print Request p] (newBuf 1024)) = debug_print Request p" .
  have pub: "publish_view Terminal r (bindTerminals kStdout kChannelCount newStore) (PublishToken 0) m st =
      (Inr (), st(kStdout := st kStdout @ m))" for m
    using publish_routed [of r "PublishToken 0" c Terminal] c engineStore_stdout [OF c(1)]
    by (simp add: engineStore_def)
  have "main_program st = Inr (st(kStdout := st kStdout @ debug_print Request p),
      destroyHandle h ((\<lambda>_. newRegistry)(0 := r)))"
    unfolding main_program_def Let_def mk prod.case sum.case b option.case v
    by (simp add: h_def pub del: publish_view.simps)
  then show ?thesis using d unfolding line by blast
qed

end
