(* ===== verification/Server_Types.thy ===== *)
theory Server_Types
  imports Prelude "HOL-Library.Word"
begin

text \<open>
  The data of \<^verbatim>\<open>app/include/server\<close>: enums (\<^verbatim>\<open>server_types.hpp\<close>), the
  configuration with its defaults (\<^verbatim>\<open>server_config.hpp\<close>), commands and results
  (\<^verbatim>\<open>command.hpp\<close>), the hook table (\<^verbatim>\<open>server_hooks.hpp\<close>, \<^verbatim>\<open>server_hooks.cpp\<close>),
  the counters (\<^verbatim>\<open>metrics/metrics.hpp\<close>) and the pipeline interfaces (\<^verbatim>\<open>pipeline.hpp\<close>).
  \<open>Event\<close> has no members, so the event type is a parameter \<open>'e\<close>. Everything that hooks and
  pipeline parts may change is the type parameter \<open>'w\<close>.
\<close>

subsection \<open>Enums and configuration\<close>

datatype ServerState = Created | Running | Stopping | Stopped | Failed

datatype ShutdownMode = Graceful | Force

datatype SubmitStatus = Accepted | Rejected_full | Rejected_stopped | Invalid | Submit_error

datatype ProtocolKind = Mysql | Tcp | Http | Custom_protocol

datatype EndpointKind = Socket_endpoint | File_endpoint | Terminal_endpoint | Custom_endpoint

record ListenerConfig =
  lc_port :: "16 word"
  lc_protocol :: ProtocolKind
  lc_enabled :: bool

record ParserConfig =
  enable_sql_dialect :: bool
  allow_partial_parse :: bool
  max_tokens :: "32 word"
  max_input_size :: "32 word"

record ExecutionConfig =
  worker_count :: "32 word"
  enable_backpressure :: bool
  queue_capacity :: "64 word"

record PublisherConfig =
  pc_enabled :: bool
  publish_raw_event :: bool
  publish_parsed_input :: bool
  publish_command :: bool
  publish_result :: bool

record DistributorConfig =
  dc_enabled :: bool

record EndpointConfig =
  ec_kind :: EndpointKind
  ec_enabled :: bool
  ec_name :: string

record LoggerConfig =
  lg_enabled :: bool
  log_submit :: bool
  log_parse :: bool
  log_execute :: bool
  log_publish :: bool
  log_errors :: bool

record ServerConfig =
  cf_listeners :: "ListenerConfig list"
  cf_endpoints :: "EndpointConfig list"
  cf_parser :: ParserConfig
  cf_execution :: ExecutionConfig
  cf_publisher :: PublisherConfig
  cf_distributor :: DistributorConfig
  cf_logger :: LoggerConfig

definition defaultListener :: ListenerConfig where
  "defaultListener = \<lparr>lc_port = 0, lc_protocol = Custom_protocol, lc_enabled = True\<rparr>"

definition defaultParser :: ParserConfig where
  "defaultParser = \<lparr>enable_sql_dialect = True, allow_partial_parse = False, max_tokens = 0,
                    max_input_size = 0\<rparr>"

definition defaultExecution :: ExecutionConfig where
  "defaultExecution = \<lparr>worker_count = 1, enable_backpressure = True, queue_capacity = 1024\<rparr>"

definition defaultPublisher :: PublisherConfig where
  "defaultPublisher = \<lparr>pc_enabled = True, publish_raw_event = False, publish_parsed_input = False,
                       publish_command = False, publish_result = False\<rparr>"

definition defaultEndpoint :: EndpointConfig where
  "defaultEndpoint = \<lparr>ec_kind = Custom_endpoint, ec_enabled = True, ec_name = []\<rparr>"

definition defaultLogger :: LoggerConfig where
  "defaultLogger = \<lparr>lg_enabled = True, log_submit = False, log_parse = False, log_execute = False,
                    log_publish = False, log_errors = True\<rparr>"

definition defaultConfig :: ServerConfig where
  "defaultConfig = \<lparr>cf_listeners = [], cf_endpoints = [], cf_parser = defaultParser,
     cf_execution = defaultExecution, cf_publisher = defaultPublisher,
     cf_distributor = \<lparr>dc_enabled = True\<rparr>, cf_logger = defaultLogger\<rparr>"

record ListenerRuntime =
  lr_port :: "16 word"
  lr_protocol :: ProtocolKind
  lr_enabled :: bool

subsection \<open>Commands and results\<close>

datatype Command =
    SelectCommand string "string list"
  | InsertCommand string "string list"

text \<open>A variant that is default constructed holds its first alternative.\<close>

definition emptyCommand :: Command where "emptyCommand = SelectCommand [] []"

record Row =
  cells :: "string list"

record Result =
  res_ok :: bool
  res_message :: string
  res_rows :: "Row list"

definition emptyResult :: Result where
  "emptyResult = \<lparr>res_ok = False, res_message = [], res_rows = []\<rparr>"

subsection \<open>Hooks\<close>

text \<open>A hook is a function pointer: null, or a function of its argument on the outside world.\<close>

type_synonym ('x, 'w) hook = "('x \<Rightarrow> 'w \<Rightarrow> 'w) option"

record ('e, 'w) ServerHookTable =
  on_event_received :: "('e, 'w) hook"
  on_submit_result :: "(SubmitStatus, 'w) hook"
  on_raw_input :: "(string, 'w) hook"
  on_parsed_input :: "(string, 'w) hook"
  on_command_built :: "(string, 'w) hook"
  on_result_ready :: "(string, 'w) hook"
  on_distributed :: "(string, 'w) hook"
  on_error :: "(string, 'w) hook"

definition nullHooks :: "('e, 'w) ServerHookTable" where
  "nullHooks = \<lparr>on_event_received = None, on_submit_result = None, on_raw_input = None,
     on_parsed_input = None, on_command_built = None, on_result_ready = None,
     on_distributed = None, on_error = None\<rparr>"

definition noopEvent :: "'e \<Rightarrow> 'w \<Rightarrow> 'w" where "noopEvent x w = w"
definition noopText :: "string \<Rightarrow> 'w \<Rightarrow> 'w" where "noopText x w = w"
definition noopStatus :: "SubmitStatus \<Rightarrow> 'w \<Rightarrow> 'w" where "noopStatus x w = w"

definition makeNoopHooks :: "('e, 'w) ServerHookTable" where
  "makeNoopHooks = \<lparr>on_event_received = Some noopEvent, on_submit_result = Some noopStatus,
     on_raw_input = Some noopText, on_parsed_input = Some noopText, on_command_built = Some noopText,
     on_result_ready = Some noopText, on_distributed = Some noopText, on_error = Some noopText\<rparr>"

definition call_hook :: "('x, 'w) hook \<Rightarrow> 'x \<Rightarrow> 'w \<Rightarrow> 'w" where
  "call_hook h x w = (case h of None \<Rightarrow> w | Some f \<Rightarrow> f x w)"

subsection \<open>Counters\<close>

record MetricsMixin =
  accepted_c :: "64 word"
  rejected_full_c :: "64 word"
  rejected_stopped_c :: "64 word"
  invalid_c :: "64 word"
  error_c :: "64 word"
  inflight_c :: "64 word"

definition newMetrics :: MetricsMixin where
  "newMetrics = \<lparr>accepted_c = 0, rejected_full_c = 0, rejected_stopped_c = 0, invalid_c = 0,
                 error_c = 0, inflight_c = 0\<rparr>"

definition onAccepted :: "MetricsMixin \<Rightarrow> MetricsMixin" where
  "onAccepted m = m\<lparr>accepted_c := accepted_c m + 1\<rparr>"
definition onRejectedFull :: "MetricsMixin \<Rightarrow> MetricsMixin" where
  "onRejectedFull m = m\<lparr>rejected_full_c := rejected_full_c m + 1\<rparr>"
definition onRejectedStopped :: "MetricsMixin \<Rightarrow> MetricsMixin" where
  "onRejectedStopped m = m\<lparr>rejected_stopped_c := rejected_stopped_c m + 1\<rparr>"
definition onInvalid :: "MetricsMixin \<Rightarrow> MetricsMixin" where
  "onInvalid m = m\<lparr>invalid_c := invalid_c m + 1\<rparr>"
definition onError :: "MetricsMixin \<Rightarrow> MetricsMixin" where
  "onError m = m\<lparr>error_c := error_c m + 1\<rparr>"
definition inflightInc :: "MetricsMixin \<Rightarrow> MetricsMixin" where
  "inflightInc m = m\<lparr>inflight_c := inflight_c m + 1\<rparr>"
definition inflightDec :: "MetricsMixin \<Rightarrow> MetricsMixin" where
  "inflightDec m = m\<lparr>inflight_c := inflight_c m - 1\<rparr>"

lemmas metric_defs = onAccepted_def onRejectedFull_def onRejectedStopped_def onInvalid_def onError_def
  inflightInc_def inflightDec_def

record ServerMetrics =
  accepted_total :: "64 word"
  rejected_full_total :: "64 word"
  rejected_stopped_total :: "64 word"
  invalid_total :: "64 word"
  error_total :: "64 word"
  queue_depth_snapshot :: "64 word"
  inflight_snapshot :: "64 word"

definition snapshot :: "64 word \<Rightarrow> MetricsMixin \<Rightarrow> ServerMetrics" where
  "snapshot queueDepth m =
     \<lparr>accepted_total = accepted_c m, rejected_full_total = rejected_full_c m,
      rejected_stopped_total = rejected_stopped_c m, invalid_total = invalid_c m,
      error_total = error_c m, queue_depth_snapshot = queueDepth, inflight_snapshot = inflight_c m\<rparr>"

subsection \<open>Pipeline interfaces\<close>

text \<open>
  The CRTP bases forward each call to the derived class, which the repository leaves to its users:
  the derived operations are the fields of a record. An operation that fills an output argument
  gets the argument's old value and returns the new one with its verdict.
\<close>

record ('e, 'w) Adapter =
  kindImpl :: ProtocolKind
  ad_nameImpl :: string
  supportsPortImpl :: "16 word \<Rightarrow> bool"
  decodeViewImpl :: "'e \<Rightarrow> string \<Rightarrow> 'w \<Rightarrow> bool \<times> string \<times> 'w"

record ('e, 'w) Pipeline =
  adapters :: "('e, 'w) Adapter list"
  parseImpl :: "string \<Rightarrow> Command \<Rightarrow> 'w \<Rightarrow> bool \<times> Command \<times> 'w"
  executeImpl :: "Command \<Rightarrow> Result \<Rightarrow> 'w \<Rightarrow> bool \<times> Result \<times> 'w"
  distributeImpl :: "Result \<Rightarrow> 'w \<Rightarrow> 'w"

definition adapter_kind :: "('e, 'w) Adapter \<Rightarrow> ProtocolKind" where
  "adapter_kind a = kindImpl a"
definition supportsPort :: "('e, 'w) Adapter \<Rightarrow> 16 word \<Rightarrow> bool" where
  "supportsPort a port = supportsPortImpl a port"
definition decodeView :: "('e, 'w) Adapter \<Rightarrow> 'e \<Rightarrow> string \<Rightarrow> 'w \<Rightarrow> bool \<times> string \<times> 'w" where
  "decodeView a ev out w = decodeViewImpl a ev out w"
definition parse :: "('e, 'w) Pipeline \<Rightarrow> string \<Rightarrow> Command \<Rightarrow> 'w \<Rightarrow> bool \<times> Command \<times> 'w" where
  "parse p input out w = parseImpl p input out w"
definition execute :: "('e, 'w) Pipeline \<Rightarrow> Command \<Rightarrow> Result \<Rightarrow> 'w \<Rightarrow> bool \<times> Result \<times> 'w" where
  "execute p cmd out w = executeImpl p cmd out w"
definition distribute :: "('e, 'w) Pipeline \<Rightarrow> Result \<Rightarrow> 'w \<Rightarrow> 'w" where
  "distribute p res w = distributeImpl p res w"

lemmas crtp_defs = adapter_kind_def supportsPort_def decodeView_def parse_def execute_def distribute_def

end
