(* ===== verification/Server_Core.thy ===== *)
theory Server_Core
  imports Server_Types
begin

text \<open>
  The class \<open>Server\<close>, its example queue and its builder, \<^verbatim>\<open>app/include/server/server.h\<close>,
  each operation as one thread runs it. The queue type is supplied from outside: its two operations
  are the fields of a \<open>QueueOps\<close>. The operations that several threads may interleave are cut into
  the parts between their shared accesses, which \<open>Server_Threads\<close> puts into a step relation.
\<close>

subsection \<open>The queue\<close>

record ('e, 'q) QueueOps =
  tryPush :: "'e \<Rightarrow> 'q \<Rightarrow> bool \<times> 'q"
  tryPop :: "'q \<Rightarrow> 'e option \<times> 'q"

text \<open>\<open>SimpleMutexQueue\<close>: a vector under a lock.\<close>

definition smq_tryPush :: "'e \<Rightarrow> 'e list \<Rightarrow> bool \<times> 'e list" where
  "smq_tryPush x q = (True, q @ [x])"

definition smq_tryPop :: "'e list \<Rightarrow> 'e option \<times> 'e list" where
  "smq_tryPop q = (if q = [] then (None, q) else (Some (hd q), tl q))"

definition SimpleMutexQueue :: "('e, 'e list) QueueOps" where
  "SimpleMutexQueue = \<lparr>tryPush = smq_tryPush, tryPop = smq_tryPop\<rparr>"

text \<open>What the server expects of its queue: a push that returns true appends, a pop takes the
  front and fails exactly when nothing is there.\<close>

locale event_queue =
  fixes Q :: "('e, 'q) QueueOps"
    and items :: "'q \<Rightarrow> 'e list"
  assumes push_ok: "tryPush Q x q = (True, q') \<Longrightarrow> items q' = items q @ [x]"
    and push_full: "tryPush Q x q = (False, q') \<Longrightarrow> items q' = items q"
    and pop_ok: "tryPop Q q = (Some x, q') \<Longrightarrow> items q = x # items q'"
    and pop_empty: "tryPop Q q = (None, q') \<Longrightarrow> items q = [] \<and> items q' = []"
begin

lemma push_items: "items (snd (tryPush Q x q)) = items q @ (if fst (tryPush Q x q) then [x] else [])"
  by (cases "tryPush Q x q"; cases "fst (tryPush Q x q)") (auto dest: push_ok push_full)

lemma pop_items: "items q = (case fst (tryPop Q q) of None \<Rightarrow> [] | Some x \<Rightarrow> [x]) @ items (snd (tryPop Q q))"
  by (cases "tryPop Q q"; cases "fst (tryPop Q q)") (auto dest: pop_ok pop_empty)

end

interpretation smq: event_queue SimpleMutexQueue "\<lambda>q. q"
  by unfold_locales (auto simp: SimpleMutexQueue_def smq_tryPush_def smq_tryPop_def split: if_splits)

subsection \<open>The server\<close>

record ('e, 'q, 'w) Server =
  sv_config :: ServerConfig
  sv_hooks :: "('e, 'w) ServerHookTable"
  sv_queue :: 'q
  sv_pipeline :: "('e, 'w) Pipeline"
  sv_metrics :: MetricsMixin
  sv_state :: ServerState
  sv_mode :: ShutdownMode
  stopRequested :: bool
  queuedApprox :: "64 word"
  sv_listeners :: "ListenerRuntime list"
  sv_workers :: nat
  sv_world :: 'w

definition buildListenersFromConfig :: "ServerConfig \<Rightarrow> ListenerRuntime list" where
  "buildListenersFromConfig cfg =
     map (\<lambda>c. \<lparr>lr_port = lc_port c, lr_protocol = lc_protocol c, lr_enabled = lc_enabled c\<rparr>) (cf_listeners cfg)"

definition newServer ::
  "ServerConfig \<Rightarrow> ('e, 'w) ServerHookTable \<Rightarrow> 'q \<Rightarrow> ('e, 'w) Pipeline \<Rightarrow> 'w \<Rightarrow> ('e, 'q, 'w) Server" where
  "newServer config hooks queue pl w =
     \<lparr>sv_config = config, sv_hooks = hooks, sv_queue = queue, sv_pipeline = pl,
      sv_metrics = newMetrics, sv_state = Created, sv_mode = Graceful, stopRequested = False,
      queuedApprox = 0, sv_listeners = buildListenersFromConfig config, sv_workers = 0,
      sv_world = w\<rparr>"

definition tick :: "(MetricsMixin \<Rightarrow> MetricsMixin) \<Rightarrow> ('e, 'q, 'w) Server \<Rightarrow> ('e, 'q, 'w) Server" where
  "tick f s = s\<lparr>sv_metrics := f (sv_metrics s)\<rparr>"

definition run_hook ::
  "(('e, 'w) ServerHookTable \<Rightarrow> ('x, 'w) hook) \<Rightarrow> 'x \<Rightarrow> ('e, 'q, 'w) Server \<Rightarrow> ('e, 'q, 'w) Server" where
  "run_hook h x s = s\<lparr>sv_world := call_hook (h (sv_hooks s)) x (sv_world s)\<rparr>"

subsection \<open>Lifecycle\<close>

text \<open>The two exchanges of \<open>start\<close>, and what it does when one of them succeeds.\<close>

definition effectiveWorkers :: "ServerConfig \<Rightarrow> nat" where
  "effectiveWorkers cfg =
     (if worker_count (cf_execution cfg) = 0 then 1 else unat (worker_count (cf_execution cfg)))"

definition start :: "('e, 'q, 'w) Server \<Rightarrow> bool \<times> ('e, 'q, 'w) Server" where
  "start s =
     (if sv_state s \<noteq> Created \<and> sv_state s \<noteq> Stopped then (False, s)
      else (True, s\<lparr>sv_state := Running, stopRequested := False, queuedApprox := 0,
                    sv_workers := sv_workers s + effectiveWorkers (sv_config s)\<rparr>))"

definition shutdown :: "ShutdownMode \<Rightarrow> ('e, 'q, 'w) Server \<Rightarrow> ('e, 'q, 'w) Server" where
  "shutdown mode s =
     (let s1 = s\<lparr>sv_mode := mode\<rparr> in
      if sv_state s1 = Stopped \<or> sv_state s1 = Failed then s1
      else s1\<lparr>sv_state := Stopping, stopRequested := True\<rparr>)"

text \<open>\<open>wait\<close> after its joins.\<close>

definition finish_wait :: "('e, 'q, 'w) Server \<Rightarrow> bool \<times> ('e, 'q, 'w) Server" where
  "finish_wait s =
     (let s1 = s\<lparr>sv_workers := 0\<rparr> in
      (True, if sv_state s1 \<noteq> Failed then s1\<lparr>sv_state := Stopped\<rparr> else s1))"

definition metrics :: "('e, 'q, 'w) Server \<Rightarrow> ServerMetrics" where
  "metrics s = snapshot (queuedApprox s) (sv_metrics s)"

definition concurrency :: "('e, 'q, 'w) Server \<Rightarrow> 32 word" where
  "concurrency s = of_nat (sv_workers s)"

subsection \<open>Submitting\<close>

definition validateEvent :: "'e \<Rightarrow> bool" where
  "validateEvent ev = True"

text \<open>\<open>trySubmit\<close> up to the push: \<open>Some\<close> status when it returns early.\<close>

definition reject ::
  "(MetricsMixin \<Rightarrow> MetricsMixin) \<Rightarrow> SubmitStatus \<Rightarrow> ('e, 'q, 'w) Server \<Rightarrow>
     SubmitStatus option \<times> ('e, 'q, 'w) Server" where
  "reject f st s = (Some st, run_hook on_submit_result st (tick f s))"

definition submit_check :: "'e \<Rightarrow> ('e, 'q, 'w) Server \<Rightarrow> SubmitStatus option \<times> ('e, 'q, 'w) Server" where
  "submit_check ev s0 =
     (let s = run_hook on_event_received ev s0 in
      if sv_state s \<noteq> Running then reject onRejectedStopped Rejected_stopped s
      else if \<not> validateEvent ev then reject onInvalid Invalid s
      else if enable_backpressure (cf_execution (sv_config s)) \<and>
              queuedApprox s \<ge> queue_capacity (cf_execution (sv_config s))
      then reject onRejectedFull Rejected_full s
      else (None, s))"

definition submit_push ::
  "('e, 'q) QueueOps \<Rightarrow> 'e \<Rightarrow> ('e, 'q, 'w) Server \<Rightarrow> SubmitStatus option \<times> ('e, 'q, 'w) Server" where
  "submit_push Q ev s =
     (case tryPush Q ev (sv_queue s) of
        (b, q) \<Rightarrow> if b then (None, s\<lparr>sv_queue := q\<rparr>)
                  else reject onRejectedFull Rejected_full (s\<lparr>sv_queue := q\<rparr>))"

definition submit_count :: "('e, 'q, 'w) Server \<Rightarrow> ('e, 'q, 'w) Server" where
  "submit_count s =
     run_hook on_submit_result Accepted (tick onAccepted (s\<lparr>queuedApprox := queuedApprox s + 1\<rparr>))"

definition trySubmit ::
  "('e, 'q) QueueOps \<Rightarrow> 'e \<Rightarrow> ('e, 'q, 'w) Server \<Rightarrow> SubmitStatus \<times> ('e, 'q, 'w) Server" where
  "trySubmit Q ev s =
     (case submit_check ev s of
        (Some st, s1) \<Rightarrow> (st, s1)
      | (None, s1) \<Rightarrow>
          (case submit_push Q ev s1 of
             (Some st, s2) \<Rightarrow> (st, s2)
           | (None, s2) \<Rightarrow> (Accepted, submit_count s2)))"

subsection \<open>Processing\<close>

fun decodeEventImpl :: "('e, 'w) Adapter list \<Rightarrow> 'e \<Rightarrow> string \<Rightarrow> 'w \<Rightarrow> bool \<times> string \<times> 'w" where
  "decodeEventImpl [] ev out w = (False, out, w)"
| "decodeEventImpl (a # as) ev out w =
     (case decodeView a ev out w of
        (b, out', w') \<Rightarrow> if b then (True, out', w') else decodeEventImpl as ev out' w')"

definition decodeEvent :: "'e \<Rightarrow> ('e, 'q, 'w) Server \<Rightarrow> bool \<times> string \<times> ('e, 'q, 'w) Server" where
  "decodeEvent ev s =
     (case decodeEventImpl (adapters (sv_pipeline s)) ev [] (sv_world s) of
        (b, out, w) \<Rightarrow> (b, out, s\<lparr>sv_world := w\<rparr>))"

definition fail_with :: "string \<Rightarrow> ('e, 'q, 'w) Server \<Rightarrow> ('e, 'q, 'w) Server" where
  "fail_with msg s = run_hook on_error msg (tick onError s)"

definition processEvent :: "'e \<Rightarrow> ('e, 'q, 'w) Server \<Rightarrow> ('e, 'q, 'w) Server" where
  "processEvent ev s0 =
     (case decodeEvent ev s0 of (decoded, rawInput, s1) \<Rightarrow>
      if \<not> decoded then fail_with ''decode failed'' s1
      else let s2 = run_hook on_raw_input rawInput s1 in
      (case parse (sv_pipeline s2) rawInput emptyCommand (sv_world s2) of (parsed, cmd, w3) \<Rightarrow>
      let s3 = s2\<lparr>sv_world := w3\<rparr> in
      if \<not> parsed then fail_with ''parse failed'' s3
      else let s4 = run_hook on_command_built ''command built'' s3 in
      (case execute (sv_pipeline s4) cmd emptyResult (sv_world s4) of (executed, res, w5) \<Rightarrow>
      let s5 = s4\<lparr>sv_world := w5\<rparr> in
      if \<not> executed then fail_with ''execution failed'' s5
      else let s6 = run_hook on_result_ready (res_message res) s5;
               s7 = s6\<lparr>sv_world := distribute (sv_pipeline s6) res (sv_world s6)\<rparr>
           in run_hook on_distributed ''result distributed'' s7)))"

definition tryPopOne :: "('e, 'q) QueueOps \<Rightarrow> ('e, 'q, 'w) Server \<Rightarrow> 'e option \<times> ('e, 'q, 'w) Server" where
  "tryPopOne Q s =
     (case tryPop Q (sv_queue s) of
        (None, q) \<Rightarrow> (None, s\<lparr>sv_queue := q\<rparr>)
      | (Some ev, q) \<Rightarrow> (Some ev, s\<lparr>sv_queue := q, queuedApprox := queuedApprox s - 1\<rparr>))"

definition shouldExitWorker :: "('e, 'q, 'w) Server \<Rightarrow> bool" where
  "shouldExitWorker s \<longleftrightarrow>
     (if \<not> stopRequested s then False
      else if sv_mode s = Force then True
      else queuedApprox s = 0)"

text \<open>One turn of the loop of a worker: it works on an event, leaves the loop, comes back from \<open>wakeCv_.wait\<close> because
  the predicate holds, or is blocked there.\<close>

datatype turn = Worked | Left | Woken | Blocked

definition wake_pred :: "('e, 'q, 'w) Server \<Rightarrow> bool" where
  "wake_pred s \<longleftrightarrow> queuedApprox s > 0 \<or> stopRequested s"

definition work_on :: "'e \<Rightarrow> ('e, 'q, 'w) Server \<Rightarrow> ('e, 'q, 'w) Server" where
  "work_on ev s = tick inflightDec (processEvent ev (tick inflightInc s))"

definition worker_turn :: "('e, 'q) QueueOps \<Rightarrow> ('e, 'q, 'w) Server \<Rightarrow> turn \<times> ('e, 'q, 'w) Server" where
  "worker_turn Q s =
     (case tryPopOne Q s of
        (Some ev, s1) \<Rightarrow> (Worked, work_on ev s1)
      | (None, s1) \<Rightarrow> if shouldExitWorker s1 then (Left, s1) else if wake_pred s1 then (Woken, s1) else (Blocked, s1))"

text \<open>The loop of a worker that runs alone, with fuel.  It goes on after an event and after a wait whose predicate
  holds.  It ends when the worker leaves it, or when the worker is blocked in the wait: then nothing happens until
  another thread acts, which is the subject of \<open>Server_Threads\<close>.  A loop that goes on for ever has the value
  \<open>None\<close> for every fuel.\<close>

fun workerLoop :: "nat \<Rightarrow> ('e, 'q) QueueOps \<Rightarrow> ('e, 'q, 'w) Server \<Rightarrow> (turn \<times> ('e, 'q, 'w) Server) option" where
  "workerLoop 0 Q s = None"
| "workerLoop (Suc n) Q s =
     (case worker_turn Q s of
        (Left, s') \<Rightarrow> Some (Left, s')
      | (Blocked, s') \<Rightarrow> Some (Blocked, s')
      | (_, s') \<Rightarrow> workerLoop n Q s')"

subsection \<open>The builder\<close>

record ('e, 'q, 'w) ServerBuilder =
  b_config :: ServerConfig
  b_hooks :: "('e, 'w) ServerHookTable"
  b_queue :: 'q
  b_pipeline :: "('e, 'w) Pipeline"
  hasConfig :: bool
  hasQueue :: bool
  hasParser :: bool
  hasExecutor :: bool
  hasDistributor :: bool
  hasAdapters :: bool

definition newBuilder :: "'q \<Rightarrow> ('e, 'w) Pipeline \<Rightarrow> ('e, 'q, 'w) ServerBuilder" where
  "newBuilder q0 p0 = \<lparr>b_config = defaultConfig, b_hooks = makeNoopHooks, b_queue = q0, b_pipeline = p0,
     hasConfig = False, hasQueue = False, hasParser = False, hasExecutor = False,
     hasDistributor = False, hasAdapters = False\<rparr>"

definition withConfig :: "ServerConfig \<Rightarrow> ('e, 'q, 'w) ServerBuilder \<Rightarrow> ('e, 'q, 'w) ServerBuilder" where
  "withConfig cfg b = b\<lparr>b_config := cfg, hasConfig := True\<rparr>"
definition withHooks :: "('e, 'w) ServerHookTable \<Rightarrow> ('e, 'q, 'w) ServerBuilder \<Rightarrow> ('e, 'q, 'w) ServerBuilder" where
  "withHooks h b = b\<lparr>b_hooks := h\<rparr>"
definition withQueue :: "'q \<Rightarrow> ('e, 'q, 'w) ServerBuilder \<Rightarrow> ('e, 'q, 'w) ServerBuilder" where
  "withQueue q b = b\<lparr>b_queue := q, hasQueue := True\<rparr>"
definition withParser ::
  "(string \<Rightarrow> Command \<Rightarrow> 'w \<Rightarrow> bool \<times> Command \<times> 'w) \<Rightarrow> ('e, 'q, 'w) ServerBuilder \<Rightarrow> ('e, 'q, 'w) ServerBuilder" where
  "withParser p b = b\<lparr>b_pipeline := (b_pipeline b)\<lparr>parseImpl := p\<rparr>, hasParser := True\<rparr>"
definition withExecutor ::
  "(Command \<Rightarrow> Result \<Rightarrow> 'w \<Rightarrow> bool \<times> Result \<times> 'w) \<Rightarrow> ('e, 'q, 'w) ServerBuilder \<Rightarrow> ('e, 'q, 'w) ServerBuilder" where
  "withExecutor x b = b\<lparr>b_pipeline := (b_pipeline b)\<lparr>executeImpl := x\<rparr>, hasExecutor := True\<rparr>"
definition withDistributor :: "(Result \<Rightarrow> 'w \<Rightarrow> 'w) \<Rightarrow> ('e, 'q, 'w) ServerBuilder \<Rightarrow> ('e, 'q, 'w) ServerBuilder" where
  "withDistributor d b = b\<lparr>b_pipeline := (b_pipeline b)\<lparr>distributeImpl := d\<rparr>, hasDistributor := True\<rparr>"
definition withAdapters :: "('e, 'w) Adapter list \<Rightarrow> ('e, 'q, 'w) ServerBuilder \<Rightarrow> ('e, 'q, 'w) ServerBuilder" where
  "withAdapters as b = b\<lparr>b_pipeline := (b_pipeline b)\<lparr>adapters := as\<rparr>, hasAdapters := True\<rparr>"

lemmas with_defs = withConfig_def withHooks_def withQueue_def withParser_def withExecutor_def
  withDistributor_def withAdapters_def

definition isValid :: "('e, 'q, 'w) ServerBuilder \<Rightarrow> bool" where
  "isValid b \<longleftrightarrow> hasConfig b \<and> hasQueue b \<and> hasParser b \<and> hasExecutor b \<and> hasDistributor b \<and> hasAdapters b"

definition build_server :: "('e, 'q, 'w) ServerBuilder \<Rightarrow> 'w \<Rightarrow> ('e, 'q, 'w) Server option" where
  "build_server b w =
     (if \<not> isValid b then None
      else Some (newServer (b_config b) (b_hooks b) (b_queue b) (b_pipeline b) w))"

end
