(* ===== verification/Server_Properties.thy ===== *)
theory Server_Properties
  imports Server_Core
begin

text \<open>
  The server as one thread uses it: submission and its counters, the pipeline of an event, the
  worker loop, the lifecycle and the builder.
\<close>

subsection \<open>Submission\<close>

lemma run_hook_fields [simp]:
  "sv_config (run_hook h x s) = sv_config s" "sv_hooks (run_hook h x s) = sv_hooks s"
  "sv_queue (run_hook h x s) = sv_queue s" "sv_pipeline (run_hook h x s) = sv_pipeline s"
  "sv_metrics (run_hook h x s) = sv_metrics s" "sv_state (run_hook h x s) = sv_state s"
  "sv_mode (run_hook h x s) = sv_mode s" "stopRequested (run_hook h x s) = stopRequested s"
  "queuedApprox (run_hook h x s) = queuedApprox s" "sv_workers (run_hook h x s) = sv_workers s"
  "sv_world (run_hook h x s) = call_hook (h (sv_hooks s)) x (sv_world s)"
  by (simp_all add: run_hook_def)

lemma tick_fields [simp]:
  "sv_config (tick f s) = sv_config s" "sv_hooks (tick f s) = sv_hooks s"
  "sv_queue (tick f s) = sv_queue s" "sv_pipeline (tick f s) = sv_pipeline s"
  "sv_metrics (tick f s) = f (sv_metrics s)" "sv_state (tick f s) = sv_state s"
  "sv_mode (tick f s) = sv_mode s" "stopRequested (tick f s) = stopRequested s"
  "queuedApprox (tick f s) = queuedApprox s" "sv_workers (tick f s) = sv_workers s"
  "sv_world (tick f s) = sv_world s"
  by (simp_all add: tick_def)

text \<open>What a submission changes, for every queue that keeps the contract.\<close>

definition submit_effect ::
  "SubmitStatus \<Rightarrow> MetricsMixin \<Rightarrow> MetricsMixin" where
  "submit_effect st = (case st of
     Accepted \<Rightarrow> onAccepted | Rejected_full \<Rightarrow> onRejectedFull
   | Rejected_stopped \<Rightarrow> onRejectedStopped | Invalid \<Rightarrow> onInvalid | Submit_error \<Rightarrow> onError)"

definition submit_possible :: "('e, 'q, 'w) Server \<Rightarrow> bool" where
  "submit_possible s \<longleftrightarrow> sv_state s = Running \<and>
     \<not> (enable_backpressure (cf_execution (sv_config s)) \<and>
        queuedApprox s \<ge> queue_capacity (cf_execution (sv_config s)))"

lemmas submit_defs = trySubmit_def submit_check_def submit_push_def submit_count_def reject_def
  validateEvent_def Let_def

context event_queue
begin

lemma submit_items:
  assumes "trySubmit Q ev s = (st, s')"
  shows "items (sv_queue s') = items (sv_queue s) @ (if st = Accepted then [ev] else [])"
    and "queuedApprox s' = queuedApprox s + (if st = Accepted then 1 else 0)"
    and "sv_metrics s' = submit_effect st (sv_metrics s)"
    and "sv_state s' = sv_state s"
    and "st \<in> {Accepted, Rejected_full, Rejected_stopped}"
    and "st = Rejected_stopped \<longleftrightarrow> sv_state s \<noteq> Running"
    and "st = Accepted \<longleftrightarrow> submit_possible s \<and> fst (tryPush Q ev (sv_queue s))"
  using assms push_items [of ev "sv_queue s"]
  by (auto simp: submit_defs submit_effect_def submit_possible_def split: prod.splits if_splits)

end

text \<open>A sequence of submissions.\<close>

fun submit_list :: "('e, 'q) QueueOps \<Rightarrow> 'e list \<Rightarrow> ('e, 'q, 'w) Server \<Rightarrow> SubmitStatus list \<times> ('e, 'q, 'w) Server" where
  "submit_list Q [] s = ([], s)"
| "submit_list Q (e # es) s =
     (case trySubmit Q e s of (st, s1) \<Rightarrow> (case submit_list Q es s1 of (sts, s2) \<Rightarrow> (st # sts, s2)))"

definition submit_total :: "MetricsMixin \<Rightarrow> 64 word" where
  "submit_total m = accepted_c m + rejected_full_c m + rejected_stopped_c m + invalid_c m"

lemma submit_total_effect: "st \<in> {Accepted, Rejected_full, Rejected_stopped} \<Longrightarrow>
  submit_total (submit_effect st m) = submit_total m + 1"
  by (auto simp: submit_total_def submit_effect_def metric_defs)

context event_queue
begin

lemma submit_list_items:
  "submit_list Q es s = (sts, s') \<Longrightarrow>
   length sts = length es \<and>
   items (sv_queue s') = items (sv_queue s) @ map fst (filter (\<lambda>(e, st). st = Accepted) (zip es sts)) \<and>
   submit_total (sv_metrics s') = submit_total (sv_metrics s) + of_nat (length es) \<and>
   accepted_c (sv_metrics s') = accepted_c (sv_metrics s) + of_nat (length (filter (\<lambda>st. st = Accepted) sts)) \<and>
   queuedApprox s' = queuedApprox s + of_nat (length (filter (\<lambda>st. st = Accepted) sts))"
proof (induction es arbitrary: s sts)
  case (Cons e es)
  obtain st s1 where 1: "trySubmit Q e s = (st, s1)" by fastforce
  obtain sts' where 2: "submit_list Q es s1 = (sts', s')" "sts = st # sts'"
    using Cons.prems 1 by (auto split: prod.splits)
  note i = submit_items [OF 1]
  have "accepted_c (sv_metrics s1) = accepted_c (sv_metrics s) + (if st = Accepted then 1 else 0)"
    using i(3,5) by (auto simp: submit_effect_def metric_defs)
  then show ?case
    using Cons.IH [OF 2(1)] i(1,2,3) submit_total_effect [OF i(5), of "sv_metrics s"] 2(2)
    by (auto simp: ac_simps)
qed auto

end

subsection \<open>The pipeline\<close>

text \<open>What the outside sees of a server whose parts are pure and whose hooks record their calls.\<close>

datatype 'e seen =
    Saw_event 'e
  | Saw_status SubmitStatus
  | Saw_raw string
  | Saw_command string
  | Saw_result string
  | Distributed Result
  | Saw_distributed string
  | Saw_error string

definition recording_hooks :: "('e, 'e seen list) ServerHookTable" where
  "recording_hooks =
     \<lparr>on_event_received = Some (\<lambda>e w. w @ [Saw_event e]),
      on_submit_result = Some (\<lambda>s w. w @ [Saw_status s]),
      on_raw_input = Some (\<lambda>t w. w @ [Saw_raw t]),
      on_parsed_input = None,
      on_command_built = Some (\<lambda>t w. w @ [Saw_command t]),
      on_result_ready = Some (\<lambda>t w. w @ [Saw_result t]),
      on_distributed = Some (\<lambda>t w. w @ [Saw_distributed t]),
      on_error = Some (\<lambda>t w. w @ [Saw_error t])\<rparr>"

definition pure_adapter :: "('e \<Rightarrow> string option) \<Rightarrow> ('e, 'e seen list) Adapter" where
  "pure_adapter d = \<lparr>kindImpl = Custom_protocol, ad_nameImpl = [], supportsPortImpl = (\<lambda>_. True),
     decodeViewImpl = (\<lambda>e out w. case d e of None \<Rightarrow> (False, out, w) | Some t \<Rightarrow> (True, t, w))\<rparr>"

definition pure_pipeline ::
  "('e \<Rightarrow> string option) list \<Rightarrow> (string \<Rightarrow> Command option) \<Rightarrow> (Command \<Rightarrow> Result option) \<Rightarrow>
   ('e, 'e seen list) Pipeline" where
  "pure_pipeline ds par exe =
     \<lparr>adapters = map pure_adapter ds,
      parseImpl = (\<lambda>t c w. case par t of None \<Rightarrow> (False, c, w) | Some c' \<Rightarrow> (True, c', w)),
      executeImpl = (\<lambda>c r w. case exe c of None \<Rightarrow> (False, r, w) | Some r' \<Rightarrow> (True, r', w)),
      distributeImpl = (\<lambda>r w. w @ [Distributed r])\<rparr>"

text \<open>The specification of one event: the first adapter that decodes it decides.\<close>

definition first_some :: "('e \<Rightarrow> string option) list \<Rightarrow> 'e \<Rightarrow> string option" where
  "first_some ds e = (case dropWhile (\<lambda>d. d e = None) ds of [] \<Rightarrow> None | d # _ \<Rightarrow> d e)"

definition event_trace ::
  "('e \<Rightarrow> string option) list \<Rightarrow> (string \<Rightarrow> Command option) \<Rightarrow> (Command \<Rightarrow> Result option) \<Rightarrow>
   'e \<Rightarrow> 'e seen list" where
  "event_trace ds par exe e =
     (case first_some ds e of
        None \<Rightarrow> [Saw_error ''decode failed'']
      | Some t \<Rightarrow> Saw_raw t #
          (case par t of
             None \<Rightarrow> [Saw_error ''parse failed'']
           | Some c \<Rightarrow> Saw_command ''command built'' #
               (case exe c of
                  None \<Rightarrow> [Saw_error ''execution failed'']
                | Some r \<Rightarrow> [Saw_result (res_message r), Distributed r,
                              Saw_distributed ''result distributed''])))"

definition event_ok ::
  "('e \<Rightarrow> string option) list \<Rightarrow> (string \<Rightarrow> Command option) \<Rightarrow> (Command \<Rightarrow> Result option) \<Rightarrow>
   'e \<Rightarrow> bool" where
  "event_ok ds par exe e \<longleftrightarrow>
     (\<exists>t c r. first_some ds e = Some t \<and> par t = Some c \<and> exe c = Some r)"

lemma decode_pure:
  "decodeEventImpl (map pure_adapter ds) e out w =
     (case first_some ds e of None \<Rightarrow> (False, out, w) | Some t \<Rightarrow> (True, t, w))"
  by (induction ds arbitrary: out)
    (auto simp: first_some_def decodeView_def pure_adapter_def split: option.splits list.splits)

definition recording_server ::
  "('e \<Rightarrow> string option) list \<Rightarrow> (string \<Rightarrow> Command option) \<Rightarrow> (Command \<Rightarrow> Result option) \<Rightarrow>
   ('e, 'q, 'e seen list) Server \<Rightarrow> bool" where
  "recording_server ds par exe s \<longleftrightarrow>
     sv_hooks s = recording_hooks \<and> sv_pipeline s = pure_pipeline ds par exe"

lemma process_recording:
  assumes "recording_server ds par exe s"
  shows "processEvent e s =
    s\<lparr>sv_world := sv_world s @ event_trace ds par exe e,
      sv_metrics := (if event_ok ds par exe e then sv_metrics s else onError (sv_metrics s))\<rparr>"
proof -
  have h: "sv_hooks s = recording_hooks" and p: "sv_pipeline s = pure_pipeline ds par exe"
    using assms by (simp_all add: recording_server_def)
  have d: "decodeEvent e s = (case first_some ds e of None \<Rightarrow> (False, [], s) | Some t \<Rightarrow> (True, t, s))"
    by (simp add: decodeEvent_def p pure_pipeline_def decode_pure split: option.splits)
  show ?thesis
  proof (cases "first_some ds e")
    case None
    then show ?thesis
      by (simp add: processEvent_def d event_trace_def event_ok_def fail_with_def run_hook_def tick_def
          h recording_hooks_def call_hook_def)
  next
    case t: (Some t)
    show ?thesis
    proof (cases "par t")
      case None
      with t show ?thesis
        by (simp add: processEvent_def d event_trace_def event_ok_def fail_with_def run_hook_def tick_def
            h recording_hooks_def call_hook_def parse_def p pure_pipeline_def)
    next
      case c: (Some c)
      show ?thesis
      proof (cases "exe c")
        case None
        with t c show ?thesis
          by (simp add: processEvent_def d event_trace_def event_ok_def fail_with_def run_hook_def tick_def
              h recording_hooks_def call_hook_def parse_def execute_def p pure_pipeline_def)
      next
        case (Some r)
        with t c show ?thesis
          by (simp add: processEvent_def d event_trace_def event_ok_def run_hook_def
              h recording_hooks_def call_hook_def parse_def execute_def distribute_def p pure_pipeline_def)
      qed
    qed
  qed
qed

text \<open>The world-independent part of any event's processing.\<close>

lemma processEvent_frame [simp]:
  "sv_queue (processEvent e s) = sv_queue s" "queuedApprox (processEvent e s) = queuedApprox s"
  "sv_state (processEvent e s) = sv_state s" "stopRequested (processEvent e s) = stopRequested s"
  "sv_mode (processEvent e s) = sv_mode s" "sv_hooks (processEvent e s) = sv_hooks s"
  "sv_pipeline (processEvent e s) = sv_pipeline s" "sv_config (processEvent e s) = sv_config s"
  "inflight_c (sv_metrics (processEvent e s)) = inflight_c (sv_metrics s)"
  by (auto simp: processEvent_def decodeEvent_def fail_with_def Let_def onError_def split: prod.splits)


lemma work_on_frame [simp]:
  "sv_queue (work_on e s) = sv_queue s" "queuedApprox (work_on e s) = queuedApprox s"
  "sv_state (work_on e s) = sv_state s" "stopRequested (work_on e s) = stopRequested s"
  "sv_mode (work_on e s) = sv_mode s" "sv_hooks (work_on e s) = sv_hooks s"
  "sv_pipeline (work_on e s) = sv_pipeline s" "sv_config (work_on e s) = sv_config s"
  "inflight_c (sv_metrics (work_on e s)) = inflight_c (sv_metrics s)"
  by (simp_all add: work_on_def inflightDec_def inflightInc_def)

lemma work_recording:
  assumes "recording_server ds par exe s"
  shows "recording_server ds par exe (work_on e s)"
    and "sv_world (work_on e s) = sv_world s @ event_trace ds par exe e"
    and "error_c (sv_metrics (work_on e s)) =
           error_c (sv_metrics s) + (if event_ok ds par exe e then 0 else 1)"
proof -
  have r: "recording_server ds par exe (tick inflightInc s)" using assms by (simp add: recording_server_def)
  show "recording_server ds par exe (work_on e s)" using assms by (simp add: recording_server_def)
  show "sv_world (work_on e s) = sv_world s @ event_trace ds par exe e"
    by (simp add: work_on_def process_recording [OF r])
  show "error_c (sv_metrics (work_on e s)) =
           error_c (sv_metrics s) + (if event_ok ds par exe e then 0 else 1)"
    by (simp add: work_on_def process_recording [OF r] metric_defs)
qed

subsection \<open>The worker loop\<close>

context event_queue
begin

lemma turn_work:
  assumes "items (sv_queue s) = x # xs"
  shows "\<exists>s1. worker_turn Q s = (Worked, work_on x s1) \<and> items (sv_queue s1) = xs \<and>
    queuedApprox s1 = queuedApprox s - 1 \<and> sv_hooks s1 = sv_hooks s \<and> sv_pipeline s1 = sv_pipeline s \<and>
    sv_world s1 = sv_world s \<and> sv_metrics s1 = sv_metrics s \<and>
    stopRequested s1 = stopRequested s \<and> sv_mode s1 = sv_mode s"
proof -
  obtain r q where q: "tryPop Q (sv_queue s) = (r, q)" by fastforce
  with assms have "r = Some x" "items q = xs" by (cases r; auto dest: pop_ok pop_empty)+
  with q show ?thesis
    by (intro exI [of _ "s\<lparr>sv_queue := q, queuedApprox := queuedApprox s - 1\<rparr>"])
      (simp add: worker_turn_def tryPopOne_def)
qed

lemma turn_idle:
  assumes "items (sv_queue s) = []"
  shows "\<exists>q. worker_turn Q s =
      (if shouldExitWorker s then Left else if wake_pred s then Woken else Blocked, s\<lparr>sv_queue := q\<rparr>) \<and> items q = []"
proof -
  obtain r q where q: "tryPop Q (sv_queue s) = (r, q)" by fastforce
  with assms have "r = None" "items q = []" by (cases r; auto dest: pop_ok pop_empty)+
  with q show ?thesis
    by (intro exI [of _ q]) (simp add: worker_turn_def tryPopOne_def shouldExitWorker_def wake_pred_def)
qed

end

text \<open>An event is worked on in the same way whatever the queue and the depth are.\<close>

lemma run_hook_queue:
  "run_hook h x (s\<lparr>sv_queue := q, queuedApprox := n\<rparr>) = (run_hook h x s)\<lparr>sv_queue := q, queuedApprox := n\<rparr>"
  by (simp add: run_hook_def)

lemma tick_queue:
  "tick f (s\<lparr>sv_queue := q, queuedApprox := n\<rparr>) = (tick f s)\<lparr>sv_queue := q, queuedApprox := n\<rparr>"
  by (simp add: tick_def)

lemma world_queue:
  "(s\<lparr>sv_queue := q, queuedApprox := n\<rparr>)\<lparr>sv_world := w\<rparr> = s\<lparr>sv_world := w\<rparr>\<lparr>sv_queue := q, queuedApprox := n\<rparr>"
  by simp

lemma decodeEvent_queue:
  "decodeEvent e (s\<lparr>sv_queue := q, queuedApprox := n\<rparr>) =
     (case decodeEvent e s of (b, out, s1) \<Rightarrow> (b, out, s1\<lparr>sv_queue := q, queuedApprox := n\<rparr>))"
  by (simp add: decodeEvent_def split: prod.split)

lemma processEvent_queue:
  "processEvent e (s\<lparr>sv_queue := q, queuedApprox := n\<rparr>) = (processEvent e s)\<lparr>sv_queue := q, queuedApprox := n\<rparr>"
proof -
  let ?u = "\<lambda>s. s\<lparr>sv_queue := q, queuedApprox := n\<rparr>"
  obtain d out s1 where d: "decodeEvent e s = (d, out, s1)" by (cases "decodeEvent e s")
  then have d': "decodeEvent e (?u s) = (d, out, ?u s1)" by (simp only: decodeEvent_queue split_conv prod.case)
  define s2 where "s2 = run_hook on_raw_input out s1"
  have s2': "run_hook on_raw_input out (?u s1) = ?u s2" by (simp only: s2_def run_hook_queue)
  obtain p cmd w3 where p: "parse (sv_pipeline s2) out emptyCommand (sv_world s2) = (p, cmd, w3)"
    by (cases "parse (sv_pipeline s2) out emptyCommand (sv_world s2)")
  then have p': "parse (sv_pipeline (?u s2)) out emptyCommand (sv_world (?u s2)) = (p, cmd, w3)" by simp
  define s4 where "s4 = run_hook on_command_built ''command built'' (s2\<lparr>sv_world := w3\<rparr>)"
  have s4': "run_hook on_command_built ''command built'' (?u s2\<lparr>sv_world := w3\<rparr>) = ?u s4"
    by (simp only: s4_def run_hook_queue world_queue)
  obtain x res w5 where x: "execute (sv_pipeline s4) cmd emptyResult (sv_world s4) = (x, res, w5)"
    by (cases "execute (sv_pipeline s4) cmd emptyResult (sv_world s4)")
  then have x': "execute (sv_pipeline (?u s4)) cmd emptyResult (sv_world (?u s4)) = (x, res, w5)" by simp
  show ?thesis
    unfolding processEvent_def Let_def d d' prod.case s2' s2_def [symmetric] p p' s4' s4_def [symmetric] x x'
    by (simp add: fail_with_def run_hook_def tick_def)
qed

lemma work_on_queue:
  "work_on e (s\<lparr>sv_queue := q, queuedApprox := n\<rparr>) = (work_on e s)\<lparr>sv_queue := q, queuedApprox := n\<rparr>"
  by (simp only: work_on_def tick_queue processEvent_queue)

lemma fold_work_on_frame:
  "sv_queue (fold work_on xs s) = sv_queue s \<and> queuedApprox (fold work_on xs s) = queuedApprox s \<and>
   stopRequested (fold work_on xs s) = stopRequested s \<and> sv_mode (fold work_on xs s) = sv_mode s"
  by (induction xs arbitrary: s) simp_all

lemma pop_smq:
  "worker_turn SimpleMutexQueue s =
     (case sv_queue s of
        x # xs \<Rightarrow> (Worked, (work_on x s)\<lparr>sv_queue := xs, queuedApprox := queuedApprox s - 1\<rparr>)
      | [] \<Rightarrow> (if shouldExitWorker s then Left else if wake_pred s then Woken else Blocked, s))"
proof (cases "sv_queue s")
  case Nil
  then have "s\<lparr>sv_queue := []\<rparr> = s" by simp
  with Nil show ?thesis
    by (simp add: worker_turn_def tryPopOne_def SimpleMutexQueue_def smq_tryPop_def shouldExitWorker_def wake_pred_def)
next
  case (Cons x xs)
  then show ?thesis
    by (simp add: worker_turn_def tryPopOne_def SimpleMutexQueue_def smq_tryPop_def work_on_queue)
qed

text \<open>What the worker leaves when it has taken everything.\<close>

definition drained :: "('e, 'e list, 'w) Server \<Rightarrow> ('e, 'e list, 'w) Server" where
  "drained s = (fold work_on (sv_queue s) s)
     \<lparr>sv_queue := [], queuedApprox := queuedApprox s - of_nat (length (sv_queue s))\<rparr>"

lemma drained_frame:
  "sv_queue (drained s) = []" "stopRequested (drained s) = stopRequested s" "sv_mode (drained s) = sv_mode s"
  "queuedApprox (drained s) = queuedApprox s - of_nat (length (sv_queue s))"
  using fold_work_on_frame [of "sv_queue s" s] by (simp_all add: drained_def)

lemma fold_work_on_queue:
  "fold work_on xs (s\<lparr>sv_queue := q, queuedApprox := n\<rparr>) = (fold work_on xs s)\<lparr>sv_queue := q, queuedApprox := n\<rparr>"
  by (induction xs arbitrary: s) (simp_all add: work_on_queue)

lemma loop_takes_all:
  "workerLoop (length (sv_queue s) + m) SimpleMutexQueue s = workerLoop m SimpleMutexQueue (drained s)"
proof (induction "sv_queue s" arbitrary: s)
  case Nil
  then have "drained s = s" by (simp add: drained_def)
  then show ?case by (simp flip: Nil)
next
  case (Cons x xs)
  let ?s = "(work_on x s)\<lparr>sv_queue := xs, queuedApprox := queuedApprox s - 1\<rparr>"
  have t: "worker_turn SimpleMutexQueue s = (Worked, ?s)" using Cons(2) by (simp add: pop_smq flip: Cons(2))
  have "drained ?s = drained s"
    by (simp add: drained_def fold_work_on_queue diff_diff_eq flip: Cons(2))
  moreover have "workerLoop (length xs + m) SimpleMutexQueue ?s = workerLoop m SimpleMutexQueue (drained ?s)"
    using Cons(1) [of ?s] by simp
  moreover have "workerLoop (length (sv_queue s) + m) SimpleMutexQueue s = workerLoop (length xs + m) SimpleMutexQueue ?s"
    by (simp add: t flip: Cons(2))
  ultimately show ?case by simp
qed

text \<open>A worker that finds an empty queue.\<close>

lemma loop_idle:
  assumes "sv_queue s = []"
  shows "workerLoop (Suc m) SimpleMutexQueue s =
    (if shouldExitWorker s then Some (Left, s) else if wake_pred s then workerLoop m SimpleMutexQueue s else Some (Blocked, s))"
  using assms by (simp add: pop_smq)

lemma loop_spins:
  "sv_queue s = [] \<Longrightarrow> \<not> shouldExitWorker s \<Longrightarrow> wake_pred s \<Longrightarrow> workerLoop m SimpleMutexQueue s = None"
  by (induction m) (simp_all add: loop_idle del: workerLoop.simps(2))

lemma loop_more:
  "workerLoop m SimpleMutexQueue s = Some r \<Longrightarrow> workerLoop (m + k) SimpleMutexQueue s = Some r"
  by (induction m arbitrary: s) (auto split: prod.splits turn.splits)

subsection \<open>Lifecycle\<close>

datatype life = Start | Shut ShutdownMode | Finish_wait

fun life_step :: "life \<Rightarrow> ('e, 'q, 'w) Server \<Rightarrow> bool \<times> ('e, 'q, 'w) Server" where
  "life_step Start s = start s"
| "life_step (Shut m) s = (True, shutdown m s)"
| "life_step Finish_wait s = finish_wait s"

fun life_run :: "life list \<Rightarrow> ('e, 'q, 'w) Server \<Rightarrow> bool list \<times> ('e, 'q, 'w) Server" where
  "life_run [] s = ([], s)"
| "life_run (c # cs) s =
     (case life_step c s of (b, s1) \<Rightarrow> (case life_run cs s1 of (bs, s2) \<Rightarrow> (b # bs, s2)))"

definition life_ok :: "('e, 'q, 'w) Server \<Rightarrow> bool" where
  "life_ok s \<longleftrightarrow>
     (case sv_state s of
        Created \<Rightarrow> \<not> stopRequested s \<and> sv_workers s = 0
      | Running \<Rightarrow> \<not> stopRequested s \<and> sv_workers s = effectiveWorkers (sv_config s)
      | Stopping \<Rightarrow> stopRequested s
      | Stopped \<Rightarrow> sv_workers s = 0
      | Failed \<Rightarrow> False)"

lemma effective_pos: "0 < effectiveWorkers cfg"
  by (auto simp: effectiveWorkers_def unat_gt_0)

lemma life_step_ok: "life_ok s \<Longrightarrow> life_ok (snd (life_step c s))"
  by (cases c)
    (auto simp: life_ok_def start_def shutdown_def finish_wait_def Let_def split: ServerState.splits)

lemma life_run_ok: "life_ok s \<Longrightarrow> life_ok (snd (life_run cs s))"
proof (induction cs arbitrary: s)
  case (Cons c cs)
  then show ?case using life_step_ok [of s c] by (auto split: prod.splits) (metis snd_conv)
qed simp


subsection \<open>Properties\<close>

text \<open>The servers the witnesses use: one adapter, a parser that knows one word, an executor that
  answers with the table's name.\<close>

definition demo_parse :: "string \<Rightarrow> Command option" where
  "demo_parse t = (if t = ''get'' then Some (SelectCommand t []) else None)"

definition demo_execute :: "Command \<Rightarrow> Result option" where
  "demo_execute c = Some \<lparr>res_ok = True, res_message = ''done'', res_rows = []\<rparr>"

definition demo_server :: "string list \<Rightarrow> (string, string list, string seen list) Server" where
  "demo_server q =
     (newServer defaultConfig recording_hooks q (pure_pipeline [Some] demo_parse demo_execute) [])
     \<lparr>sv_state := Running, queuedApprox := of_nat (length q)\<rparr>"

lemma demo_recording: "recording_server [Some] demo_parse demo_execute (demo_server q)"
  by (simp add: demo_server_def newServer_def recording_server_def)

text \<open>C16: A submission, on every branch and for every queue: it is rejected as stopped when the server does not run,
  as full when back-pressure is on and the approximate depth has reached the capacity, and as full when the queue refuses
  the push; else it is accepted.  The queue is what the push leaves when it is called, and unchanged otherwise; the depth
  is one more when the event is accepted and unchanged otherwise; exactly the counter of the status is incremented; and
  the hooks are called first with the event and then with the status.\<close>

theorem submit_correct:
  assumes "trySubmit Q ev s = (st, s')"
  shows "st = (if sv_state s \<noteq> Running then Rejected_stopped
               else if enable_backpressure (cf_execution (sv_config s)) \<and>
                       queuedApprox s \<ge> queue_capacity (cf_execution (sv_config s)) then Rejected_full
               else if fst (tryPush Q ev (sv_queue s)) then Accepted else Rejected_full) \<and>
    sv_queue s' = (if submit_possible s then snd (tryPush Q ev (sv_queue s)) else sv_queue s) \<and>
    queuedApprox s' = queuedApprox s + (if st = Accepted then 1 else 0) \<and>
    sv_metrics s' = submit_effect st (sv_metrics s) \<and> sv_state s' = sv_state s \<and>
    sv_world s' = call_hook (on_submit_result (sv_hooks s)) st (call_hook (on_event_received (sv_hooks s)) ev (sv_world s))"
  using assms
  by (auto simp: submit_defs submit_effect_def submit_possible_def split: prod.splits if_splits)

text \<open>The queue of the repository never refuses a push; a queue of one place does.\<close>

definition one_place :: "('e, 'e list) QueueOps" where
  "one_place = \<lparr>tryPush = (\<lambda>x q. if q = [] then (True, [x]) else (False, q)), tryPop = smq_tryPop\<rparr>"

theorem submit_correct_witness:
  "fst (trySubmit SimpleMutexQueue ''b'' (demo_server [''a''])) = Accepted \<and>
   sv_queue (snd (trySubmit SimpleMutexQueue ''b'' (demo_server [''a'']))) = [''a'', ''b''] \<and>
   fst (trySubmit one_place ''b'' (demo_server [''a''])) = Rejected_full"
proof -
  obtain st s' where t: "trySubmit SimpleMutexQueue ''b'' (demo_server [''a'']) = (st, s')" by fastforce
  obtain st1 s1 where u: "trySubmit one_place ''b'' (demo_server [''a'']) = (st1, s1)" by fastforce
  have d: "submit_possible (demo_server [''a''])" "sv_state (demo_server [''a'']) = Running"
    "sv_queue (demo_server [''a'']) = [''a'']"
    by (simp_all add: submit_possible_def demo_server_def newServer_def defaultConfig_def defaultExecution_def
        word_le_nat_alt)
  then have "st = Accepted" "sv_queue s' = [''a'', ''b'']" "st1 = Rejected_full"
    using submit_correct [OF t] submit_correct [OF u]
    by (auto simp: SimpleMutexQueue_def smq_tryPush_def one_place_def submit_possible_def)
  with t u show ?thesis by simp
qed

text \<open>Over any sequence of submissions the four counters together grow by the number of
  calls, the accepted counter and the depth by the number of accepted events, and the queue gains
  exactly the accepted events in the order of the calls.\<close>

theorem submissions_accounted:
  assumes "submit_list SimpleMutexQueue es s = (sts, s')"
  shows "length sts = length es \<and>
    sv_queue s' = sv_queue s @ map fst (filter (\<lambda>(e, st). st = Accepted) (zip es sts)) \<and>
    submit_total (sv_metrics s') = submit_total (sv_metrics s) + of_nat (length es) \<and>
    accepted_c (sv_metrics s') = accepted_c (sv_metrics s) + of_nat (length (filter (\<lambda>st. st = Accepted) sts)) \<and>
    queuedApprox s' = queuedApprox s + of_nat (length (filter (\<lambda>st. st = Accepted) sts))"
  using smq.submit_list_items [OF assms] .

theorem submissions_accounted_witness:
  "submit_total (sv_metrics (snd (submit_list SimpleMutexQueue [''a'', ''b''] (demo_server [])))) = 2"
proof -
  obtain sts s' where r: "submit_list SimpleMutexQueue [''a'', ''b''] (demo_server []) = (sts, s')" by fastforce
  have "submit_total (sv_metrics s') = submit_total (sv_metrics (demo_server [])) + 2"
    using submissions_accounted [OF r] by simp
  then show ?thesis using r by (simp add: demo_server_def newServer_def newMetrics_def submit_total_def
        del: submit_list.simps)
qed

text \<open>C15: An event goes through the pipeline as specified: the first adapter that decodes it
  decides, a failure of decoding, parsing or execution calls the error hook once with the name of
  the stage, counts one error and ends the event, and otherwise the result is distributed exactly
  once, between the result hook and the distributed hook. Nothing else of the server changes.\<close>

theorem process_event_trace:
  assumes "recording_server ds par exe s"
  shows "processEvent e s =
    s\<lparr>sv_world := sv_world s @ event_trace ds par exe e,
      sv_metrics := (if event_ok ds par exe e then sv_metrics s else onError (sv_metrics s))\<rparr>"
  by (rule process_recording [OF assms])

theorem process_event_trace_witness:
  "sv_world (processEvent ''put'' (demo_server [])) = [Saw_raw ''put'', Saw_error ''parse failed'']"
  using process_event_trace [OF demo_recording, of "''put''" "[]"]
  by (simp add: event_trace_def first_some_def demo_parse_def demo_server_def newServer_def)

text \<open>C17: The loop of a worker that runs alone, for every server and every content of the queue: the worker works on
  every queued event, in order and once each, in a forced shutdown as in a graceful one.  Then, when a stop has been
  requested, it leaves the loop if the shutdown is forced or the depth has come down to zero; when no stop has been
  requested and the depth is zero, it is blocked in the wait with nothing left to do.  In the other cases, where the depth
  is not that of the queue, the loop never ends: the predicate of the wait holds and nothing can be popped.\<close>

theorem worker_loop_drains:
  "if stopRequested s \<and> (sv_mode s = Force \<or> queuedApprox s = of_nat (length (sv_queue s)))
     then \<forall>m. workerLoop (Suc (length (sv_queue s)) + m) SimpleMutexQueue s = Some (Left, drained s)
   else if \<not> stopRequested s \<and> queuedApprox s = of_nat (length (sv_queue s))
     then \<forall>m. workerLoop (Suc (length (sv_queue s)) + m) SimpleMutexQueue s = Some (Blocked, drained s)
   else \<forall>m. workerLoop m SimpleMutexQueue s = None"
proof -
  have d: "queuedApprox (drained s) = 0 \<longleftrightarrow> queuedApprox s = of_nat (length (sv_queue s))"
    by (simp add: drained_frame)
  have ex: "shouldExitWorker (drained s) \<longleftrightarrow>
      stopRequested s \<and> (sv_mode s = Force \<or> queuedApprox s = of_nat (length (sv_queue s)))"
    using d by (simp add: shouldExitWorker_def drained_frame(2,3))
  have wk: "wake_pred (drained s) \<longleftrightarrow> queuedApprox s \<noteq> of_nat (length (sv_queue s)) \<or> stopRequested s"
    using d by (simp add: wake_pred_def drained_frame(2) word_gt_0)
  have run: "workerLoop (Suc (length (sv_queue s)) + m) SimpleMutexQueue s = workerLoop (Suc m) SimpleMutexQueue (drained s)" for m
    using loop_takes_all [of s "Suc m"] by simp
  note idle = loop_idle [OF drained_frame(1), of _ s]
  have never: "workerLoop m SimpleMutexQueue s = None" if "\<not> shouldExitWorker (drained s)" "wake_pred (drained s)" for m
  proof (rule ccontr)
    assume "workerLoop m SimpleMutexQueue s \<noteq> None"
    then obtain r where "workerLoop m SimpleMutexQueue s = Some r" by blast
    from loop_more [OF this, of "length (sv_queue s)"] loop_takes_all [of s m] loop_spins [OF drained_frame(1) that, of m]
    show False by (simp add: add.commute)
  qed
  show ?thesis unfolding run idle ex wk using never ex wk by (auto simp del: workerLoop.simps(2))
qed

lemma forced_shutdown_drains:
  "\<exists>s'. workerLoop 3 SimpleMutexQueue (shutdown Force (demo_server [''x'', ''y''])) = Some (Left, s') \<and>
     sv_queue s' = [] \<and>
     sv_world s' = [Saw_raw ''x'', Saw_error ''parse failed'', Saw_raw ''y'', Saw_error ''parse failed'']"
proof -
  let ?s = "shutdown Force (demo_server [''x'', ''y''])"
  have s: "sv_queue ?s = [''x'', ''y'']" "sv_world ?s = []" "stopRequested ?s" "sv_mode ?s = Force"
    "recording_server [Some] demo_parse demo_execute ?s"
    by (simp_all add: shutdown_def Let_def demo_server_def newServer_def recording_server_def)
  have e: "event_trace [Some] demo_parse demo_execute e = [Saw_raw e, Saw_error ''parse failed'']"
    if "e \<noteq> ''get''" for e
    using that by (simp add: event_trace_def first_some_def demo_parse_def)
  have "shouldExitWorker (drained ?s)" using s(3,4) by (simp add: shouldExitWorker_def drained_frame(2,3))
  then have "workerLoop 3 SimpleMutexQueue ?s = Some (Left, drained ?s)"
    using loop_takes_all [of ?s 1] loop_idle [OF drained_frame(1), of 0 ?s]
    by (simp add: s(1) numeral_3_eq_3 del: workerLoop.simps)
  moreover have "sv_world (drained ?s) = [Saw_raw ''x'', Saw_error ''parse failed'', Saw_raw ''y'', Saw_error ''parse failed'']"
    using work_recording [OF s(5), of "''x''"] work_recording [OF work_recording(1) [OF s(5)], of "''y''" "''x''"] s(1,2)
    by (simp add: drained_def e)
  ultimately show ?thesis by (simp add: drained_frame(1))
qed

text \<open>Whatever sequence of \<open>start\<close>, \<open>shutdown\<close> and \<open>wait\<close> is called on a new
  server, its state is never failed, a running server has its configured number of workers (at least
  one) and no stop request, a stopping one has a stop request and a stopped one no workers; and
  \<open>start\<close> succeeds exactly from created and stopped.\<close>

theorem lifecycle_invariant:
  "life_ok (snd (life_run cs (newServer cfg hooks q pl w))) \<and>
   0 < effectiveWorkers cfg \<and>
   (fst (start s) = (sv_state s = Created \<or> sv_state s = Stopped))"
proof -
  have "life_ok (newServer cfg hooks q pl w)" by (simp add: life_ok_def newServer_def)
  then show ?thesis using life_run_ok effective_pos by (auto simp: start_def)
qed

text \<open>A server that is shut down before it is started cannot be started until \<open>wait\<close> has
  been called, and a shutdown of a stopped server changes only the recorded mode.\<close>

theorem shutdown_before_start_blocks_start:
  "fst (start (shutdown m (newServer cfg hooks q pl w))) = False \<and>
   fst (start (snd (finish_wait (shutdown m (newServer cfg hooks q pl w))))) = True \<and>
   (sv_state s = Stopped \<longrightarrow> shutdown m s = s\<lparr>sv_mode := m\<rparr>)"
  by (simp add: start_def shutdown_def finish_wait_def newServer_def Let_def)

theorem shutdown_before_start_blocks_start_witness:
  "fst (start (shutdown Graceful (demo_server []\<lparr>sv_state := Created\<rparr>))) = False \<and>
   shutdown Force ((demo_server [])\<lparr>sv_state := Stopped\<rparr>) = (demo_server [])\<lparr>sv_state := Stopped, sv_mode := Force\<rparr>"
  using shutdown_before_start_blocks_start
    [of Graceful defaultConfig recording_hooks "[]" "pure_pipeline [Some] demo_parse demo_execute" "[]"
        "(demo_server [])\<lparr>sv_state := Stopped\<rparr>"]
    shutdown_before_start_blocks_start
    [of Force defaultConfig recording_hooks "[]" "pure_pipeline [Some] demo_parse demo_execute" "[]"
        "(demo_server [])\<lparr>sv_state := Stopped\<rparr>"]
  by (simp add: demo_server_def newServer_def shutdown_def start_def Let_def)

text \<open>C22: \<open>start\<close> sets the depth to zero without emptying the queue. When an event is left in
  the queue of a stopped server, the worker of the next run pops it and the depth wraps around to
  \<open>2 ^ 64 - 1\<close>: with back-pressure every later submission is rejected as full although the queue is
  empty, the worker's wait never blocks, and a graceful shutdown never ends.\<close>

theorem restart_with_leftover_rejects_all:
  assumes "sv_state s = Stopped" and "sv_queue s = [ev]"
    and "enable_backpressure (cf_execution (sv_config s))"
  shows "\<exists>s1 s2. start s = (True, s1) \<and> worker_turn SimpleMutexQueue s1 = (Worked, s2) \<and>
    sv_queue s2 = [] \<and> queuedApprox s2 = 2 ^ 64 - 1 \<and> wake_pred s2 \<and>
    \<not> shouldExitWorker (shutdown Graceful s2) \<and>
    (\<forall>e. fst (trySubmit SimpleMutexQueue e s2) = Rejected_full)"
proof -
  obtain s1 where s1: "start s = (True, s1)" "sv_state s1 = Running" "queuedApprox s1 = 0"
    "sv_queue s1 = [ev]" "sv_config s1 = sv_config s" "sv_mode s1 = sv_mode s"
    using assms(1,2) by (simp add: start_def)
  let ?s2 = "work_on ev (s1\<lparr>sv_queue := [], queuedApprox := - 1\<rparr>)"
  have t: "worker_turn SimpleMutexQueue s1 = (Worked, ?s2)"
    using s1 by (simp add: worker_turn_def tryPopOne_def SimpleMutexQueue_def smq_tryPop_def)
  have a: "queuedApprox ?s2 = 2 ^ 64 - 1" by simp
  have le: "c \<le> queuedApprox ?s2" for c by simp
  have "fst (trySubmit SimpleMutexQueue e ?s2) = Rejected_full" for e
  proof -
    obtain st s' where r: "trySubmit SimpleMutexQueue e ?s2 = (st, s')" by fastforce
    have "\<not> submit_possible ?s2" using le assms(3) s1(5) by (simp add: submit_possible_def)
    then show ?thesis using smq.submit_items(5,6,7) [OF r] r s1(2) by auto
  qed
  moreover have "wake_pred ?s2" "\<not> shouldExitWorker (shutdown Graceful ?s2)" "sv_queue ?s2 = []"
    by (simp_all add: wake_pred_def shouldExitWorker_def shutdown_def Let_def s1(2) word_gt_0)
  ultimately show ?thesis using s1(1) t a by blast
qed

theorem restart_with_leftover_rejects_all_witness:
  "\<exists>s2. worker_turn SimpleMutexQueue (snd (start ((demo_server [''get''])\<lparr>sv_state := Stopped\<rparr>))) = (Worked, s2) \<and>
     sv_queue s2 = [] \<and> fst (trySubmit SimpleMutexQueue ''get'' s2) = Rejected_full"
  using restart_with_leftover_rejects_all [of "(demo_server [''get''])\<lparr>sv_state := Stopped\<rparr>" "''get''"]
  by (auto simp: demo_server_def newServer_def defaultConfig_def defaultExecution_def)

text \<open>The builder yields a server exactly when the configuration, the queue and all four
  pipeline parts have been given; the server is then made of them, with the hooks given last or the
  do-nothing hooks, and is in the created state with all counters zero.\<close>

theorem builder_complete:
  "(build_server b w \<noteq> None \<longleftrightarrow> isValid b) \<and>
   build_server (withAdapters as (withDistributor d (withExecutor x (withParser p
     (withQueue q (withConfig cfg (newBuilder q0 p0))))))) w =
   Some (newServer cfg makeNoopHooks q
     \<lparr>adapters = as, parseImpl = p, executeImpl = x, distributeImpl = d\<rparr> w)"
  by (cases p0) (auto simp: build_server_def isValid_def with_defs newBuilder_def)

end
