(* ===== verification/Server_Threads.thy ===== *)
theory Server_Threads
  imports Server_Properties "HOL-Library.Multiset"
begin

text \<open>
  The server of \<open>server.h\<close> with all its threads: any number of threads that call \<open>trySubmit\<close>, the workers that
  \<open>start\<close> made, and one thread that calls \<open>shutdown\<close> and \<open>wait\<close>.  Each thread is cut between its accesses of the
  shared atomics, the lock of the queue and the mutex and condition variable of the workers; a label names the
  thread that makes the next step.  Counters of the metrics, hooks and the pipeline of an event belong to the step
  of the access before them.
\<close>

subsection \<open>A submission\<close>

text \<open>Where a thread is in \<open>trySubmit\<close>: before the test of the state, before the test of the depth, before the push,
  before the depth is counted, before \<open>notify_one\<close>.\<close>

datatype 'e submit_phase = S_idle | S_state 'e | S_depth 'e | S_push 'e | S_count 'e | S_notify

fun submit_thread ::
  "('e, 'q) QueueOps \<Rightarrow> 'e submit_phase \<Rightarrow> ('e, 'q, 'w) Server \<Rightarrow> 'e submit_phase \<times> ('e, 'q, 'w) Server" where
  "submit_thread Q (S_state ev) s =
     (if sv_state s \<noteq> Running then (S_idle, snd (reject onRejectedStopped Rejected_stopped s))
      else if \<not> validateEvent ev then (S_idle, snd (reject onInvalid Invalid s))
      else if enable_backpressure (cf_execution (sv_config s)) then (S_depth ev, s)
      else (S_push ev, s))"
| "submit_thread Q (S_depth ev) s =
     (if queuedApprox s \<ge> queue_capacity (cf_execution (sv_config s))
      then (S_idle, snd (reject onRejectedFull Rejected_full s))
      else (S_push ev, s))"
| "submit_thread Q (S_push ev) s =
     (case submit_push Q ev s of
        (None, s1) \<Rightarrow> (S_count ev, s1)
      | (Some st, s1) \<Rightarrow> (S_idle, s1))"
| "submit_thread Q (S_count ev) s = (S_notify, submit_count s)"
| "submit_thread Q S_notify s = (S_idle, s)"
| "submit_thread Q S_idle s = (S_idle, s)"

text \<open>Without interference the steps of a thread are \<open>trySubmit\<close>.\<close>

lemma submit_thread_alone:
  "submit_thread Q (S_state ev) (run_hook on_event_received ev s) = (p1, s1) \<Longrightarrow> submit_thread Q p1 s1 = (p2, s2) \<Longrightarrow>
   submit_thread Q p2 s2 = (p3, s3) \<Longrightarrow> submit_thread Q p3 s3 = (p4, s4) \<Longrightarrow>
   snd (trySubmit Q ev s) = snd (submit_thread Q p4 s4)"
  by (auto simp: submit_defs split: if_splits prod.splits)

subsection \<open>A worker\<close>

text \<open>Where a worker is: before \<open>tryPop\<close>, before the depth is counted down, before and in the processing of an
  event, before the three tests of \<open>shouldExitWorker\<close>, before the mutex is locked, before the two tests of the
  predicate of \<open>wait\<close>, before it blocks, blocked, or out of its loop.\<close>

datatype 'e work_phase =
    W_pop | W_popped 'e | W_taken 'e | W_process 'e | W_done 'e
  | W_failed | W_mode | W_depth | W_lock | W_pred | W_pred_stop | W_block | W_asleep | W_left

fun work_thread ::
  "('e, 'q) QueueOps \<Rightarrow> 'e work_phase \<Rightarrow> ('e, 'q, 'w) Server \<Rightarrow> 'e work_phase \<times> ('e, 'q, 'w) Server" where
  "work_thread Q W_pop s =
     (case tryPop Q (sv_queue s) of
        (None, q) \<Rightarrow> (W_failed, s\<lparr>sv_queue := q\<rparr>)
      | (Some ev, q) \<Rightarrow> (W_popped ev, s\<lparr>sv_queue := q\<rparr>))"
| "work_thread Q (W_popped ev) s = (W_taken ev, s\<lparr>queuedApprox := queuedApprox s - 1\<rparr>)"
| "work_thread Q (W_taken ev) s = (W_process ev, tick inflightInc s)"
| "work_thread Q (W_process ev) s = (W_done ev, processEvent ev s)"
| "work_thread Q (W_done ev) s = (W_pop, tick inflightDec s)"
| "work_thread Q W_failed s = (if stopRequested s then W_mode else W_lock, s)"
| "work_thread Q W_mode s = (if sv_mode s = Force then W_left else W_depth, s)"
| "work_thread Q W_depth s = (if queuedApprox s = 0 then W_left else W_lock, s)"
| "work_thread Q W_lock s = (W_pred, s)"
| "work_thread Q W_pred s = (if queuedApprox s > 0 then W_pop else W_pred_stop, s)"
| "work_thread Q W_pred_stop s = (if stopRequested s then W_pop else W_block, s)"
| "work_thread Q W_block s = (W_asleep, s)"
| "work_thread Q W_asleep s = (W_asleep, s)"
| "work_thread Q W_left s = (W_left, s)"

text \<open>The phases in which a worker holds the mutex; \<open>wait\<close> gives it back when it blocks.\<close>

fun holds_mutex :: "'e work_phase \<Rightarrow> bool" where
  "holds_mutex W_pred = True"
| "holds_mutex W_pred_stop = True"
| "holds_mutex W_block = True"
| "holds_mutex p = False"

text \<open>Without interference the steps of a worker are a turn of its loop, and the tests are those of the code.\<close>

lemma work_thread_alone:
  "tryPopOne Q s = (Some ev, s1) \<Longrightarrow>
     (\<exists>s0. work_thread Q W_pop s = (W_popped ev, s0) \<and> work_thread Q (W_popped ev) s0 = (W_taken ev, s1))"
  "snd (work_thread Q (W_done ev) (snd (work_thread Q (W_process ev) (snd (work_thread Q (W_taken ev) s))))) = work_on ev s"
  "shouldExitWorker s \<longleftrightarrow>
     fst (work_thread Q W_failed s) = W_mode \<and>
     (fst (work_thread Q W_mode s) = W_left \<or> fst (work_thread Q W_depth s) = W_left)"
  "wake_pred s \<longleftrightarrow> fst (work_thread Q W_pred s) = W_pop \<or> fst (work_thread Q W_pred_stop s) = W_pop"
  by (auto simp: tryPopOne_def work_on_def shouldExitWorker_def wake_pred_def split: prod.splits option.splits)

subsection \<open>Shutdown and wait\<close>

text \<open>The steps of \<open>shutdown\<close>, and \<open>wait\<close> until all workers are joined.\<close>

datatype control_phase = K_idle | K_mode ShutdownMode | K_load | K_state | K_flag | K_notify | K_join

fun control_thread :: "control_phase \<Rightarrow> ('e, 'q, 'w) Server \<Rightarrow> control_phase \<times> ('e, 'q, 'w) Server" where
  "control_thread (K_mode mode) s = (K_load, s\<lparr>sv_mode := mode\<rparr>)"
| "control_thread K_load s = (if sv_state s = Stopped \<or> sv_state s = Failed then K_idle else K_state, s)"
| "control_thread K_state s = (K_flag, s\<lparr>sv_state := Stopping\<rparr>)"
| "control_thread K_flag s = (K_notify, s\<lparr>stopRequested := True\<rparr>)"
| "control_thread K_notify s = (K_idle, s)"
| "control_thread K_join s = (K_idle, snd (finish_wait s))"
| "control_thread K_idle s = (K_idle, s)"

lemma control_thread_alone:
  "control_thread (K_mode m) s = (p1, s1) \<Longrightarrow> control_thread p1 s1 = (p2, s2) \<Longrightarrow> control_thread p2 s2 = (p3, s3) \<Longrightarrow>
   control_thread p3 s3 = (p4, s4) \<Longrightarrow> shutdown m s = s4"
  by (auto simp: shutdown_def Let_def split: if_splits)

subsection \<open>All threads\<close>

text \<open>Besides the phases of the threads and the owner of the mutex, what happened so far: the events that were
  pushed, popped and processed, in this order.\<close>

record ('e, 'q, 'w) Threads =
  th_server :: "('e, 'q, 'w) Server"
  th_submit :: "'e submit_phase list"
  th_work :: "'e work_phase list"
  th_control :: control_phase
  th_mutex :: "nat option"
  th_pushed :: "'e list"
  th_popped :: "'e list"
  th_processed :: "'e list"

text \<open>A server that \<open>start\<close> has made ready, and \<open>n\<close> threads that submit.\<close>

definition newThreads :: "('e, 'q, 'w) Server \<Rightarrow> nat \<Rightarrow> ('e, 'q, 'w) Threads" where
  "newThreads s n =
     \<lparr>th_server = s, th_submit = replicate n S_idle, th_work = replicate (sv_workers s) W_pop, th_control = K_idle,
      th_mutex = None, th_pushed = [], th_popped = [], th_processed = []\<rparr>"

datatype 'e label =
    Call nat 'e | Submits nat | Notifies nat nat | Notifies_nobody nat
  | Works nat | Spurious nat
  | Calls_shutdown ShutdownMode | Calls_wait | Controls

fun pushes :: "'e submit_phase \<Rightarrow> 'e submit_phase \<Rightarrow> 'e list" where
  "pushes (S_push ev) (S_count ev') = [ev]"
| "pushes p p' = []"

fun pops :: "'e work_phase \<Rightarrow> 'e work_phase \<Rightarrow> 'e list" where
  "pops W_pop (W_popped ev) = [ev]"
| "pops p p' = []"

fun processes :: "'e work_phase \<Rightarrow> 'e list" where
  "processes (W_process ev) = [ev]"
| "processes p = []"

definition wake_up :: "'e work_phase \<Rightarrow> 'e work_phase" where
  "wake_up p = (if p = W_asleep then W_lock else p)"

fun th_step ::
  "('e, 'q) QueueOps \<Rightarrow> 'e label \<Rightarrow> ('e, 'q, 'w) Threads \<Rightarrow> ('e, 'q, 'w) Threads option" where
  "th_step Q (Call i ev) t =
     (if i < length (th_submit t) \<and> th_submit t ! i = S_idle
      then Some (t\<lparr>th_submit := (th_submit t)[i := S_state ev],
                   th_server := run_hook on_event_received ev (th_server t)\<rparr>)
      else None)"
| "th_step Q (Submits i) t =
     (if i < length (th_submit t) \<and> th_submit t ! i \<noteq> S_idle \<and> th_submit t ! i \<noteq> S_notify
      then case submit_thread Q (th_submit t ! i) (th_server t) of (p, s) \<Rightarrow>
             Some (t\<lparr>th_submit := (th_submit t)[i := p], th_server := s,
                     th_pushed := th_pushed t @ pushes (th_submit t ! i) p\<rparr>)
      else None)"
| "th_step Q (Notifies i j) t =
     (if i < length (th_submit t) \<and> th_submit t ! i = S_notify \<and> j < length (th_work t) \<and> th_work t ! j = W_asleep
      then Some (t\<lparr>th_submit := (th_submit t)[i := S_idle], th_work := (th_work t)[j := W_lock]\<rparr>)
      else None)"
| "th_step Q (Notifies_nobody i) t =
     (if i < length (th_submit t) \<and> th_submit t ! i = S_notify \<and> list_all (\<lambda>p. p \<noteq> W_asleep) (th_work t)
      then Some (t\<lparr>th_submit := (th_submit t)[i := S_idle]\<rparr>)
      else None)"
| "th_step Q (Works j) t =
     (if j < length (th_work t) \<and> th_work t ! j \<noteq> W_asleep \<and> th_work t ! j \<noteq> W_left \<and>
         (th_work t ! j = W_lock \<longrightarrow> th_mutex t = None)
      then case work_thread Q (th_work t ! j) (th_server t) of (p, s) \<Rightarrow>
             Some (t\<lparr>th_work := (th_work t)[j := p], th_server := s,
                     th_mutex := (if holds_mutex p then Some j
                                  else if holds_mutex (th_work t ! j) then None else th_mutex t),
                     th_popped := th_popped t @ pops (th_work t ! j) p,
                     th_processed := th_processed t @ processes (th_work t ! j)\<rparr>)
      else None)"
| "th_step Q (Spurious j) t =
     (if j < length (th_work t) \<and> th_work t ! j = W_asleep
      then Some (t\<lparr>th_work := (th_work t)[j := W_lock]\<rparr>)
      else None)"
| "th_step Q (Calls_shutdown mode) t =
     (if th_control t = K_idle then Some (t\<lparr>th_control := K_mode mode\<rparr>) else None)"
| "th_step Q Calls_wait t =
     (if th_control t = K_idle then Some (t\<lparr>th_control := K_join\<rparr>) else None)"
| "th_step Q Controls t =
     (if th_control t = K_idle \<or> (th_control t = K_join \<and> \<not> list_all (\<lambda>p. p = W_left) (th_work t)) then None
      else case control_thread (th_control t) (th_server t) of (p, s) \<Rightarrow>
             Some (t\<lparr>th_control := p, th_server := s,
                     th_work := (if th_control t = K_notify then map wake_up (th_work t) else th_work t)\<rparr>))"

fun th_run ::
  "('e, 'q) QueueOps \<Rightarrow> 'e label list \<Rightarrow> ('e, 'q, 'w) Threads \<Rightarrow> ('e, 'q, 'w) Threads option" where
  "th_run Q [] t = Some t"
| "th_run Q (l # ls) t = (case th_step Q l t of None \<Rightarrow> None | Some t1 \<Rightarrow> th_run Q ls t1)"

inductive th_reach :: "('e, 'q) QueueOps \<Rightarrow> ('e, 'q, 'w) Threads \<Rightarrow> ('e, 'q, 'w) Threads \<Rightarrow> bool" for Q t0 where
  th_start: "th_reach Q t0 t0"
| th_more: "th_reach Q t0 t \<Longrightarrow> th_step Q l t = Some t' \<Longrightarrow> th_reach Q t0 t'"

lemma th_run_reach: "th_reach Q t0 t \<Longrightarrow> th_run Q ls t = Some t' \<Longrightarrow> th_reach Q t0 t'"
  by (induction ls arbitrary: t) (auto split: option.splits intro: th_more)

subsection \<open>Counting threads\<close>

definition tally :: "('p \<Rightarrow> int) \<Rightarrow> 'p list \<Rightarrow> int" where
  "tally f ps = sum_list (map f ps)"

lemma tally_update: "i < length ps \<Longrightarrow> tally f (ps[i := p]) = tally f ps - f (ps ! i) + f p"
proof (induction ps arbitrary: i)
  case (Cons a ps)
  then show ?case by (cases i) (simp_all add: tally_def)
qed (simp add: tally_def)

lemma tally_bounds:
  assumes "\<And>p. 0 \<le> f p \<and> f p \<le> 1"
  shows "0 \<le> tally f ps" "tally f ps \<le> int (length ps)"
    "i < length ps \<Longrightarrow> f (ps ! i) = 0 \<Longrightarrow> tally f ps \<le> int (length ps) - 1"
proof -
  show 0: "0 \<le> tally f ps" for ps using assms by (induction ps) (auto simp: tally_def add_nonneg_nonneg)
  show 1: "tally f ps \<le> int (length ps)" for ps
  proof (induction ps)
    case (Cons a ps)
    then show ?case using assms [of a] by (simp add: tally_def)
  qed (simp add: tally_def)
  assume i: "i < length ps" "f (ps ! i) = 0"
  have "tally f ps = tally f (take i ps) + (f (ps ! i) + tally f (drop (Suc i) ps))"
    by (subst id_take_nth_drop [OF i(1)]) (simp add: tally_def)
  with i 1 [of "take i ps"] 1 [of "drop (Suc i) ps"] show "tally f ps \<le> int (length ps) - 1" by simp
qed

lemma tally_map: "(\<And>p. f (g p) = f p) \<Longrightarrow> tally f (map g ps) = tally f ps"
  by (simp add: tally_def comp_def)

lemma tally_zero: "f p = 0 \<Longrightarrow> tally f (replicate n p) = 0"
  by (induction n) (simp_all add: tally_def)

fun pushing :: "'e submit_phase \<Rightarrow> int" where
  "pushing (S_push ev) = 1" | "pushing p = 0"

fun counting :: "'e submit_phase \<Rightarrow> int" where
  "counting (S_count ev) = 1" | "counting p = 0"

fun uncounted :: "'e work_phase \<Rightarrow> int" where
  "uncounted (W_popped ev) = 1" | "uncounted p = 0"

fun inflight :: "'e work_phase \<Rightarrow> int" where
  "inflight (W_process ev) = 1" | "inflight (W_done ev) = 1" | "inflight p = 0"

fun waiting_event :: "'e work_phase \<Rightarrow> 'e list" where
  "waiting_event (W_popped ev) = [ev]" | "waiting_event (W_taken ev) = [ev]"
| "waiting_event (W_process ev) = [ev]" | "waiting_event p = []"

text \<open>The events that workers have popped and not yet processed.\<close>

definition in_hand :: "'e work_phase list \<Rightarrow> 'e multiset" where
  "in_hand ps = mset (concat (map waiting_event ps))"

lemma in_hand_update:
  "i < length ps \<Longrightarrow> in_hand (ps[i := p]) + mset (waiting_event (ps ! i)) = in_hand ps + mset (waiting_event p)"
proof (induction ps arbitrary: i)
  case (Cons a ps)
  then show ?case by (cases i) (simp_all add: in_hand_def ac_simps)
qed simp

lemma phase_bounds: "0 \<le> pushing p + counting p \<and> pushing p + counting p \<le> 1" "0 \<le> counting p \<and> counting p \<le> 1"
  "0 \<le> pushing p \<and> pushing p \<le> 1" "0 \<le> uncounted w \<and> uncounted w \<le> 1"
  by (cases p; simp)+ (cases w; simp)

lemma wake_up_simps [simp]:
  "uncounted (wake_up p) = uncounted p" "inflight (wake_up p) = inflight p" "waiting_event (wake_up p) = waiting_event p"
  by (auto simp: wake_up_def)

lemma in_hand_wake_up: "in_hand (map wake_up ps) = in_hand ps"
  by (simp add: in_hand_def comp_def)

subsection \<open>The invariant\<close>

lemma processEvent_accepted [simp]: "accepted_c (sv_metrics (processEvent e s)) = accepted_c (sv_metrics s)"
  by (auto simp: processEvent_def decodeEvent_def fail_with_def Let_def onError_def split: prod.splits)

context event_queue
begin

definition th_ok :: "('e, 'q, 'w) Server \<Rightarrow> nat \<Rightarrow> ('e, 'q, 'w) Threads \<Rightarrow> bool" where
  "th_ok s0 n t \<longleftrightarrow>
     th_pushed t = th_popped t @ items (sv_queue (th_server t)) \<and>
     mset (th_popped t) = mset (th_processed t) + in_hand (th_work t) \<and>
     queuedApprox (th_server t) =
       of_int (int (length (items (sv_queue (th_server t)))) + tally uncounted (th_work t) - tally counting (th_submit t)) \<and>
     inflight_c (sv_metrics (th_server t)) = inflight_c (sv_metrics s0) + of_int (tally inflight (th_work t)) \<and>
     accepted_c (sv_metrics (th_server t)) =
       accepted_c (sv_metrics s0) + of_int (int (length (th_pushed t)) - tally counting (th_submit t)) \<and>
     length (th_submit t) = n \<and> sv_config (th_server t) = sv_config s0"

definition th_bounded :: "('e, 'q, 'w) Server \<Rightarrow> nat \<Rightarrow> ('e, 'q, 'w) Threads \<Rightarrow> bool" where
  "th_bounded s0 n t \<longleftrightarrow>
     int (length (items (sv_queue (th_server t)))) + tally uncounted (th_work t) + tally pushing (th_submit t) \<le>
       uint (queue_capacity (cf_execution (sv_config s0))) + int n - 1"

lemma ok_submits:
  assumes "th_step Q (Submits i) t = Some t'" and "th_ok s0 n t"
  shows "th_ok s0 n t'"
proof -
  note u = tally_update [of i "th_submit t"]
  show ?thesis
  proof (cases "th_submit t ! i")
    case (S_push ev)
    then show ?thesis using assms push_items [of ev "sv_queue (th_server t)"] u
      by (auto simp: th_ok_def submit_push_def reject_def metric_defs split: prod.splits if_splits)
  qed (use assms u in \<open>auto simp: th_ok_def submit_count_def reject_def metric_defs split: if_splits\<close>)
qed

lemma ok_works:
  assumes "th_step Q (Works j) t = Some t'" and "th_ok s0 n t"
  shows "th_ok s0 n t'"
proof -
  note u = tally_update [of j "th_work t"]
  let ?p = "fst (work_thread Q (th_work t ! j) (th_server t))"
  have j: "j < length (th_work t)" using assms(1) by (simp split: if_splits)
  note h = in_hand_update [OF j, of ?p]
  show ?thesis
  proof (cases "th_work t ! j")
    case W_pop
    then show ?thesis using assms pop_items [of "sv_queue (th_server t)"] u h
      by (auto simp: th_ok_def split: prod.splits if_splits option.splits)
  next
    case (W_process ev)
    then have "in_hand (th_work t) = add_mset ev (in_hand ((th_work t)[j := W_done ev]))" using h by simp
    then show ?thesis using W_process assms u by (auto simp: th_ok_def metric_defs split: if_splits)
  qed (use assms u h in \<open>auto simp: th_ok_def metric_defs split: if_splits\<close>)
qed

lemma ok_step:
  assumes "th_step Q l t = Some t'" and "th_ok s0 n t"
  shows "th_ok s0 n t'"
proof (cases l)
  case (Call i ev)
  then show ?thesis using assms tally_update [of i "th_submit t"] by (auto simp: th_ok_def split: if_splits)
next
  case (Submits i)
  then show ?thesis using assms ok_submits by blast
next
  case (Notifies i j)
  then show ?thesis
    using assms tally_update [of i "th_submit t"] tally_update [of j "th_work t"] in_hand_update [of j "th_work t" W_lock]
    by (auto simp: th_ok_def split: if_splits)
next
  case (Notifies_nobody i)
  then show ?thesis using assms tally_update [of i "th_submit t"] by (auto simp: th_ok_def split: if_splits)
next
  case (Works j)
  then show ?thesis using assms ok_works by blast
next
  case (Spurious j)
  then show ?thesis using assms tally_update [of j "th_work t"] in_hand_update [of j "th_work t" W_lock]
    by (auto simp: th_ok_def split: if_splits)
next
  case Controls
  then show ?thesis using assms
    by (cases "th_control t")
      (auto simp: th_ok_def finish_wait_def Let_def in_hand_wake_up tally_map split: if_splits)
qed (use assms in \<open>auto simp: th_ok_def split: if_splits\<close>)

lemma new_ok:
  "items (sv_queue s) = [] \<Longrightarrow> queuedApprox s = 0 \<Longrightarrow> th_ok s n (newThreads s n)"
  by (simp add: th_ok_def newThreads_def tally_zero in_hand_def)

lemma reach_ok:
  assumes "items (sv_queue s) = []" and "queuedApprox s = 0" and "th_reach Q (newThreads s n) t"
  shows "th_ok s n t"
  using assms(3) by (induction rule: th_reach.induct) (auto intro: new_ok [OF assms(1,2)] ok_step)

text \<open>The depth that a submission reads is too small by at most the submissions that have not counted yet.\<close>

lemma depth_read:
  fixes c :: "64 word"
  assumes "of_int (a - b) < c" and "a < 2 ^ 64" and "0 \<le> b"
  shows "a - b < uint c"
proof (cases "0 \<le> a - b")
  case True
  then have "uint (of_int (a - b) :: 64 word) = a - b" using assms(2,3) by (subst uint_word_of_int) simp
  then show ?thesis using assms(1) by (simp add: word_less_def)
next
  case False
  then show ?thesis using uint_ge_0 [of c] by linarith
qed

lemma config_kept: "th_ok s0 n t \<Longrightarrow> sv_config (th_server t) = sv_config s0" "th_ok s0 n t \<Longrightarrow> length (th_submit t) = n"
  by (simp_all add: th_ok_def)

lemma depth_passed:
  assumes ok: "th_ok s0 n t" and b: "th_bounded s0 n t"
    and cap: "uint (queue_capacity (cf_execution (sv_config s0))) + int n \<le> 2 ^ 64"
    and i: "i < length (th_submit t)" "th_submit t ! i = S_depth ev"
    and "queuedApprox (th_server t) < queue_capacity (cf_execution (sv_config s0))"
  shows "int (length (items (sv_queue (th_server t)))) + tally uncounted (th_work t) + tally pushing (th_submit t) + 1
    \<le> uint (queue_capacity (cf_execution (sv_config s0))) + int n - 1"
proof -
  let ?a = "int (length (items (sv_queue (th_server t)))) + tally uncounted (th_work t)"
  let ?c = "tally counting (th_submit t)" and ?q = "queue_capacity (cf_execution (sv_config s0))"
  have c: "0 \<le> ?c" "0 \<le> tally pushing (th_submit t)"
    by (rule tally_bounds(1), rule phase_bounds)+
  have "tally (\<lambda>p. pushing p + counting p) (th_submit t) \<le> int n - 1"
    using tally_bounds(3) [of "\<lambda>p. pushing p + counting p", OF phase_bounds(1) i(1)] i(2) ok by (simp add: th_ok_def)
  moreover have "tally (\<lambda>p. pushing p + counting p) (th_submit t) = tally pushing (th_submit t) + ?c"
    by (simp add: tally_def sum_list_addf)
  moreover have "?a - ?c < uint ?q"
  proof (rule depth_read)
    show "of_int (?a - ?c) < ?q" using assms(6) ok by (simp add: th_ok_def)
    show "?a < 2 ^ 64" using b cap c(2) by (simp add: th_bounded_def)
    show "0 \<le> ?c" by (rule c(1))
  qed
  ultimately show ?thesis by linarith
qed

lemma bounded_step:
  assumes "th_step Q l t = Some t'" and ok: "th_ok s0 n t" and "th_bounded s0 n t"
    and cap: "uint (queue_capacity (cf_execution (sv_config s0))) + int n \<le> 2 ^ 64"
    and bp: "enable_backpressure (cf_execution (sv_config s0))"
  shows "th_bounded s0 n t'"
proof (cases l)
  case (Call i ev)
  then show ?thesis using assms tally_update [of i "th_submit t" pushing] by (auto simp: th_bounded_def split: if_splits)
next
  case (Submits i)
  note u = tally_update [of i "th_submit t" pushing]
  show ?thesis
  proof (cases "th_submit t ! i")
    case (S_depth ev)
    then show ?thesis using Submits assms u depth_passed [OF ok assms(3) cap _ S_depth] config_kept(1) [OF ok]
      by (auto simp: th_bounded_def reject_def not_le split: if_splits)
  next
    case (S_push ev)
    then show ?thesis using Submits assms push_items [of ev "sv_queue (th_server t)"] u
      by (auto simp: th_bounded_def submit_push_def reject_def split: prod.splits if_splits)
  qed (use Submits assms u bp config_kept(1) [OF ok] in
      \<open>auto simp: th_bounded_def submit_count_def reject_def validateEvent_def split: if_splits\<close>)
next
  case (Notifies i j)
  then show ?thesis
    using assms tally_update [of i "th_submit t" pushing] tally_update [of j "th_work t" uncounted]
    by (auto simp: th_bounded_def split: if_splits)
next
  case (Notifies_nobody i)
  then show ?thesis using assms tally_update [of i "th_submit t" pushing] by (auto simp: th_bounded_def split: if_splits)
next
  case (Works j)
  note u = tally_update [of j "th_work t" uncounted]
  show ?thesis
  proof (cases "th_work t ! j")
    case W_pop
    then show ?thesis using Works assms pop_items [of "sv_queue (th_server t)"] u
      by (auto simp: th_bounded_def split: prod.splits if_splits option.splits)
  qed (use Works assms u in \<open>auto simp: th_bounded_def split: if_splits\<close>)
next
  case (Spurious j)
  then show ?thesis using assms tally_update [of j "th_work t" uncounted] by (auto simp: th_bounded_def split: if_splits)
next
  case Controls
  then show ?thesis using assms
    by (cases "th_control t") (auto simp: th_bounded_def finish_wait_def Let_def tally_map split: if_splits)
qed (use assms in \<open>auto simp: th_bounded_def split: if_splits\<close>)

lemma new_bounded: "items (sv_queue s) = [] \<Longrightarrow> 0 < n \<Longrightarrow> th_bounded s n (newThreads s n)"
  by (simp add: th_bounded_def newThreads_def tally_zero add_nonneg_pos)

lemma reach_bounded:
  assumes "items (sv_queue s) = []" and "queuedApprox s = 0" and "0 < n"
    and "uint (queue_capacity (cf_execution (sv_config s))) + int n \<le> 2 ^ 64"
    and "enable_backpressure (cf_execution (sv_config s))"
    and "th_reach Q (newThreads s n) t"
  shows "th_bounded s n t"
  using assms(6)
proof (induction rule: th_reach.induct)
  case th_start
  then show ?case using assms by (intro new_bounded)
next
  case (th_more t l t')
  then show ?case using bounded_step reach_ok assms(1,2,4,5) by blast
qed

end

subsection \<open>What holds in every interleaving\<close>

text \<open>C18: In every interleaving of submitting threads, workers, \<open>shutdown\<close> and \<open>wait\<close> no event is lost, duplicated
  or overtaken: the events pushed are those popped, in the same order, and then the queue; each popped event has
  been processed or is in the hands of one worker.  The depth differs from the length of the queue by the workers
  that have popped and not counted and the submissions that have pushed and not counted; the counters of accepted
  events and of events in flight are exact up to the threads that are about to count.\<close>

theorem server_threads_conserve_events:
  assumes "sv_queue s = []" and "queuedApprox s = 0" and "th_reach SimpleMutexQueue (newThreads s n) t"
  shows "th_pushed t = th_popped t @ sv_queue (th_server t) \<and>
    mset (th_popped t) = mset (th_processed t) + in_hand (th_work t) \<and>
    queuedApprox (th_server t) =
      of_int (int (length (sv_queue (th_server t))) + tally uncounted (th_work t) - tally counting (th_submit t)) \<and>
    inflight_c (sv_metrics (th_server t)) = inflight_c (sv_metrics s) + of_int (tally inflight (th_work t)) \<and>
    accepted_c (sv_metrics (th_server t)) =
      accepted_c (sv_metrics s) + of_int (int (length (th_pushed t)) - tally counting (th_submit t))"
  using smq.reach_ok [OF assms] by (simp only: smq.th_ok_def)

text \<open>C19: With back-pressure the queue holds at most one event less than the capacity and the number of submitting
  threads together, whatever the interleaving.\<close>

theorem queue_overshoot_bounded:
  assumes "sv_queue s = []" and "queuedApprox s = 0" and "0 < n"
    and "uint (queue_capacity (cf_execution (sv_config s))) + int n \<le> 2 ^ 64"
    and "enable_backpressure (cf_execution (sv_config s))"
    and "th_reach SimpleMutexQueue (newThreads s n) t"
  shows "int (length (sv_queue (th_server t))) \<le> uint (queue_capacity (cf_execution (sv_config s))) + int n - 1"
proof -
  have "0 \<le> tally uncounted (th_work t)" "0 \<le> tally pushing (th_submit t)"
    by (rule tally_bounds(1), rule phase_bounds)+
  then show ?thesis using smq.reach_bounded [OF assms] by (simp add: smq.th_bounded_def)
qed

text \<open>C20: A worker that leaves its loop because the depth is zero leaves behind only events of submissions that have
  not counted them yet: when no submission is between its push and its count, the queue is empty and no other
  worker is between its pop and its count.\<close>

theorem graceful_worker_leaves_nothing:
  assumes "sv_queue s = []" and "queuedApprox s = 0" and "0 < n"
    and "uint (queue_capacity (cf_execution (sv_config s))) + int n < 2 ^ 64"
    and "enable_backpressure (cf_execution (sv_config s))"
    and "th_reach SimpleMutexQueue (newThreads s n) t"
    and "work_thread SimpleMutexQueue W_depth (th_server t) = (W_left, s')"
  shows "int (length (sv_queue (th_server t))) + tally uncounted (th_work t) = tally counting (th_submit t)"
proof -
  let ?a = "int (length (sv_queue (th_server t))) + tally uncounted (th_work t)"
  let ?c = "tally counting (th_submit t)"
  note ok = smq.reach_ok [OF assms(1,2,6)] and b = smq.reach_bounded [OF assms(1-3) less_imp_le [OF assms(4)] assms(5,6)]
  have nonneg: "0 \<le> tally uncounted (th_work t)" "0 \<le> tally pushing (th_submit t)" "0 \<le> ?c"
    by (rule tally_bounds(1), rule phase_bounds)+
  have "?c \<le> int (length (th_submit t))" by (rule tally_bounds(2), rule phase_bounds)
  then have "?c \<le> int n" using smq.config_kept(2) [OF ok] by simp
  moreover have "?a \<le> uint (queue_capacity (cf_execution (sv_config s))) + int n - 1"
    using b nonneg(2) by (simp add: smq.th_bounded_def)
  moreover have "0 \<le> uint (queue_capacity (cf_execution (sv_config s)))" by simp
  ultimately have "\<bar>?a - ?c\<bar> < 2 ^ 64" using assms(4) nonneg by linarith
  moreover have "2 ^ 64 dvd ?a - ?c"
  proof -
    have "(word_of_int (?a - ?c) :: 64 word) = 0" using assms(7) ok by (simp add: smq.th_ok_def split: if_splits)
    then have "2 ^ LENGTH(64) dvd ?a - ?c" by (simp only: word_of_int_eq_0_iff)
    then show ?thesis by simp
  qed
  ultimately show ?thesis using dvd_imp_le_int [of "?a - ?c" "2 ^ 64"] by fastforce
qed

subsection \<open>What can go wrong\<close>

text \<open>A stopping server whose worker is blocked, with \<open>wait\<close> called.\<close>

definition waits_for_ever :: "('e, 'q, 'w) Threads \<Rightarrow> bool" where
  "waits_for_ever t \<longleftrightarrow>
     th_control t = K_join \<and> sv_state (th_server t) = Stopping \<and> th_work t = [W_asleep] \<and>
     list_all (\<lambda>p. case p of S_idle \<Rightarrow> True | S_state ev \<Rightarrow> True | _ \<Rightarrow> False) (th_submit t)"

lemma waits_step:
  assumes "waits_for_ever t" and "th_step Q l t = Some t'" and "\<And>j. l \<noteq> Spurious j"
  shows "waits_for_ever t'"
proof (cases l)
  case (Submits i)
  then have i: "i < length (th_submit t)" using assms(2) by (simp split: if_splits)
  then have "case th_submit t ! i of S_idle \<Rightarrow> True | S_state ev \<Rightarrow> True | _ \<Rightarrow> False"
    using assms(1) by (simp add: waits_for_ever_def list_all_length)
  then show ?thesis using Submits assms i
    by (cases "th_submit t ! i")
      (auto simp: waits_for_ever_def reject_def list_all_length nth_list_update split: if_splits)
qed (use assms in \<open>auto simp: waits_for_ever_def list_all_length nth_list_update split: if_splits\<close>)

lemma waits_run:
  "waits_for_ever t \<Longrightarrow> th_run Q ls t = Some t' \<Longrightarrow> list_all (\<lambda>l. \<forall>j. l \<noteq> Spurious j) ls \<Longrightarrow> waits_for_ever t'"
proof (induction ls arbitrary: t)
  case (Cons l ls)
  then show ?case using waits_step by (auto split: option.splits) blast
qed simp

definition default_started :: "('e, 'w) ServerHookTable \<Rightarrow> ('e, 'w) Pipeline \<Rightarrow> 'w \<Rightarrow> ('e, 'e list, 'w) Server" where
  "default_started hooks pl w = snd (start (newServer defaultConfig hooks [] pl w))"

lemmas threads_eval = default_started_def start_def newServer_def newThreads_def effectiveWorkers_def
  defaultConfig_def defaultExecution_def SimpleMutexQueue_def smq_tryPop_def smq_tryPush_def

lemma run_to_block:
  "th_run SimpleMutexQueue [Works 0, Works 0, Works 0, Works 0, Works 0] (newThreads (default_started hooks pl w) n) =
     Some ((newThreads (default_started hooks pl w) n)\<lparr>th_work := [W_block], th_mutex := Some 0\<rparr>)"
  by (simp add: threads_eval)

text \<open>C21: \<open>shutdown\<close> and the submissions change what the workers wait for without holding their mutex, so a notification
  can come between the test of the predicate and the blocking.  From a started server there is a run after which
  \<open>shutdown\<close> has returned, \<open>wait\<close> is called, and however the threads go on, unless the worker wakes up
  spuriously, \<open>wait\<close> does not return.\<close>

theorem shutdown_can_wait_forever:
  "\<exists>t. th_reach SimpleMutexQueue (newThreads (default_started hooks pl w) n) t \<and> stopRequested (th_server t) \<and>
     th_control t = K_join \<and>
     \<not> (\<exists>ls t'. list_all (\<lambda>l. \<forall>j. l \<noteq> Spurious j) ls \<and> th_run SimpleMutexQueue ls t = Some t' \<and>
            th_control t' \<noteq> K_join)"
proof -
  let ?Q = SimpleMutexQueue and ?t0 = "newThreads (default_started hooks pl w) n"
  define t1 where "t1 = ?t0\<lparr>th_work := [W_block], th_mutex := Some 0\<rparr>"
  have t1: "th_reach ?Q ?t0 t1" using th_run_reach [OF th_start run_to_block] by (simp add: t1_def)
  obtain t where t: "th_run ?Q [Calls_shutdown Graceful, Controls, Controls, Controls, Controls, Controls, Works 0, Calls_wait] t1
      = Some t"
    and f: "stopRequested (th_server t)" "th_control t = K_join" "waits_for_ever t"
    by (simp add: t1_def threads_eval wake_up_def waits_for_ever_def list_all_length)
  have "th_reach ?Q ?t0 t" by (rule th_run_reach [OF t1 t])
  moreover have "th_control t' = K_join" if "list_all (\<lambda>l. \<forall>j. l \<noteq> Spurious j) ls" "th_run ?Q ls t = Some t'" for ls t'
    using waits_run [OF f(3) that(2,1)] by (simp add: waits_for_ever_def)
  ultimately show ?thesis using f(1,2) by blast
qed

text \<open>The same with an event: it is accepted, every thread that submits has returned, and the worker is blocked.\<close>

lemma notification_lost:
  "\<exists>t. th_reach SimpleMutexQueue (newThreads (default_started hooks pl w) 1) t \<and> sv_queue (th_server t) = [ev] \<and>
     th_submit t = [S_idle] \<and> th_work t = [W_asleep] \<and> accepted_c (sv_metrics (th_server t)) = 1"
proof -
  let ?Q = SimpleMutexQueue and ?t0 = "newThreads (default_started hooks pl w) 1"
  let ?ls = "[Works 0, Works 0, Works 0, Works 0, Works 0, Call 0 ev, Submits 0, Submits 0, Submits 0, Submits 0,
    Notifies_nobody 0, Works 0]"
  obtain t where t: "th_run ?Q ?ls ?t0 = Some t" "sv_queue (th_server t) = [ev]"
    "th_submit t = [S_idle]" "th_work t = [W_asleep]" "accepted_c (sv_metrics (th_server t)) = 1"
    by (simp add: threads_eval submit_defs metric_defs newMetrics_def)
  then show ?thesis using th_run_reach [OF th_start t(1)] by blast
qed

text \<open>An event whose submission passed its tests before a graceful shutdown can be pushed after the last worker has
  left; it is reported as accepted.\<close>

lemma accepted_event_left:
  "\<exists>t. th_reach SimpleMutexQueue (newThreads (default_started hooks pl w) 1) t \<and> sv_queue (th_server t) = [ev] \<and>
     sv_state (th_server t) = Stopped \<and> sv_mode (th_server t) = Graceful \<and> accepted_c (sv_metrics (th_server t)) = 1"
proof -
  let ?Q = SimpleMutexQueue and ?t0 = "newThreads (default_started hooks pl w) 1"
  let ?ls = "[Call 0 ev, Submits 0, Submits 0, Calls_shutdown Graceful, Controls, Controls, Controls, Controls, Controls,
    Works 0, Works 0, Works 0, Works 0, Calls_wait, Controls, Submits 0, Submits 0]"
  obtain t where t: "th_run ?Q ?ls ?t0 = Some t" "sv_queue (th_server t) = [ev]"
    "sv_state (th_server t) = Stopped" "sv_mode (th_server t) = Graceful" "accepted_c (sv_metrics (th_server t)) = 1"
    by (simp add: threads_eval submit_defs metric_defs newMetrics_def wake_up_def finish_wait_def)
  then show ?thesis using th_run_reach [OF th_start t(1)] by blast
qed

text \<open>The bound of the overshoot is reached: two threads pass the test of a queue with room for one event.\<close>

definition small_server :: "64 word \<Rightarrow> (string, string list, string seen list) Server" where
  "small_server c = (default_started recording_hooks (pure_pipeline [Some] demo_parse demo_execute) [])
     \<lparr>sv_config := defaultConfig\<lparr>cf_execution := defaultExecution\<lparr>queue_capacity := c\<rparr>\<rparr>\<rparr>"

lemma small_server_simps [simp]:
  "sv_queue (small_server c) = []" "queuedApprox (small_server c) = 0"
  "queue_capacity (cf_execution (sv_config (small_server c))) = c"
  "enable_backpressure (cf_execution (sv_config (small_server c)))"
  by (simp_all add: small_server_def threads_eval)

lemma capacity_run:
  "\<exists>t. th_run SimpleMutexQueue [Call 0 e1, Call 1 e2, Submits 0, Submits 1, Submits 0, Submits 1, Submits 0, Submits 1]
       (newThreads (small_server 1) 2) = Some t \<and> sv_queue (th_server t) = [e1, e2]"
  by (simp add: small_server_def threads_eval submit_defs numeral_2_eq_2)

lemma capacity_exceeded:
  "\<exists>t. th_reach SimpleMutexQueue (newThreads (small_server 1) 2) t \<and> sv_queue (th_server t) = [e1, e2]"
  using capacity_run th_run_reach [OF th_start] by blast

lemma server_threads_conserve_events_witness:
  "\<exists>t. th_reach SimpleMutexQueue (newThreads (small_server 1) 2) t \<and> th_pushed t = th_popped t @ [''a'', ''b'']"
proof -
  obtain t where t: "th_reach SimpleMutexQueue (newThreads (small_server 1) 2) t" "sv_queue (th_server t) = [''a'', ''b'']"
    using capacity_exceeded by blast
  then show ?thesis using server_threads_conserve_events [OF _ _ t(1)] by auto
qed

lemma queue_overshoot_bounded_witness:
  "\<exists>t. th_reach SimpleMutexQueue (newThreads (small_server 1) 2) t \<and> sv_queue (th_server t) = [''a'', ''b''] \<and>
     int (length (sv_queue (th_server t))) \<le> 2"
proof -
  obtain t where t: "th_reach SimpleMutexQueue (newThreads (small_server 1) 2) t" "sv_queue (th_server t) = [''a'', ''b'']"
    using capacity_exceeded by blast
  then show ?thesis using queue_overshoot_bounded [OF _ _ _ _ _ t(1)] by auto
qed

lemma graceful_run:
  "\<exists>t. th_run SimpleMutexQueue [Call 0 ''x'', Submits 0, Submits 0, Submits 0, Submits 0, Notifies_nobody 0,
       Works 0, Works 0, Works 0, Works 0, Works 0, Calls_shutdown Graceful, Controls, Controls, Controls, Controls,
       Works 0, Works 0, Works 0] (newThreads (small_server 1) 1) = Some t \<and>
     th_processed t = [''x''] \<and> th_work t = [W_depth] \<and> queuedApprox (th_server t) = 0"
  by (simp add: small_server_def threads_eval submit_defs wake_up_def)

lemma graceful_worker_leaves_nothing_witness:
  "\<exists>t. th_reach SimpleMutexQueue (newThreads (small_server 1) 1) t \<and> th_processed t = [''x''] \<and> th_work t = [W_depth] \<and>
     int (length (sv_queue (th_server t))) + tally uncounted (th_work t) = tally counting (th_submit t)"
proof -
  obtain t where t: "th_reach SimpleMutexQueue (newThreads (small_server 1) 1) t"
    "th_processed t = [''x'']" "th_work t = [W_depth]" "queuedApprox (th_server t) = 0"
    using graceful_run th_run_reach [OF th_start] by blast
  have "work_thread SimpleMutexQueue W_depth (th_server t) = (W_left, th_server t)" using t(4) by simp
  then have "int (length (sv_queue (th_server t))) + tally uncounted (th_work t) = tally counting (th_submit t)"
    using graceful_worker_leaves_nothing [OF _ _ _ _ _ t(1)] by simp
  then show ?thesis using t by blast
qed

subsection \<open>Starting\<close>

text \<open>\<open>start\<close> in its steps: the exchange of the state, and the two stores after it.\<close>

definition start_claim :: "('e, 'q, 'w) Server \<Rightarrow> bool \<times> ('e, 'q, 'w) Server" where
  "start_claim s = (if sv_state s \<noteq> Created \<and> sv_state s \<noteq> Stopped then (False, s) else (True, s\<lparr>sv_state := Running\<rparr>))"

definition start_reset :: "('e, 'q, 'w) Server \<Rightarrow> ('e, 'q, 'w) Server" where
  "start_reset s = s\<lparr>stopRequested := False, queuedApprox := 0\<rparr>"

definition start_spawn :: "('e, 'q, 'w) Server \<Rightarrow> ('e, 'q, 'w) Server" where
  "start_spawn s = s\<lparr>sv_workers := sv_workers s + effectiveWorkers (sv_config s)\<rparr>"

lemma start_alone:
  "start s = (case start_claim s of (False, s1) \<Rightarrow> (False, s1) | (True, s1) \<Rightarrow> (True, start_spawn (start_reset s1)))"
  by (simp add: start_def start_claim_def start_reset_def start_spawn_def)

text \<open>A submission between the exchange and the stores is accepted, and its event is not in the depth.\<close>

lemma submission_during_start:
  assumes "sv_state s = Created" and "sv_queue s = []" and "queuedApprox s = 0"
    and "queue_capacity (cf_execution (sv_config s)) \<noteq> 0"
  shows "\<exists>s1 s2. start_claim s = (True, s1) \<and> trySubmit SimpleMutexQueue ev s1 = (Accepted, s2) \<and>
     sv_queue (start_reset s2) = [ev] \<and> queuedApprox (start_reset s2) = 0"
  using assms by (simp add: start_claim_def start_reset_def submit_defs SimpleMutexQueue_def smq_tryPush_def not_le)

end
