(* ===== verification/Http_Maps.thy ===== *)
theory Http_Maps
  imports Cpp_String
begin

text \<open>
  The ordered multimaps of \<open>httplib.h\<close>: \<open>Headers\<close> (\<open>std::multimap\<close> with the comparison
  \<open>detail::ci\<close>) and \<open>Params\<close> (with \<open>std::less\<close>). A multimap is the list of its entries in
  iteration order; a position in it is an iterator. The contract of an order of keys is the locale
  \<open>key_order\<close>, with the two comparisons as its instances.
\<close>

subsection \<open>Bytes and the comparisons of keys\<close>

definition byte :: "char \<Rightarrow> nat" where
  "byte c = of_char c"

text \<open>\<open>tolower\<close> of the C locale.\<close>

definition to_lower_char :: "char \<Rightarrow> char" where
  "to_lower_char c = (if 65 \<le> byte c \<and> byte c \<le> 90 then char_of (byte c + 32) else c)"

text \<open>\<open>std::string::compare\<close> compares bytes without sign.\<close>

fun str_less :: "string \<Rightarrow> string \<Rightarrow> bool" where
  "str_less s [] = False"
| "str_less [] (b # t) = True"
| "str_less (a # s) (b # t) = (byte a < byte b \<or> (\<not> byte b < byte a \<and> str_less s t))"

fun ci_less :: "string \<Rightarrow> string \<Rightarrow> bool" where
  "ci_less s [] = False"
| "ci_less [] (b # t) = True"
| "ci_less (a # s) (b # t) =
     (byte (to_lower_char a) < byte (to_lower_char b) \<or>
      (\<not> byte (to_lower_char b) < byte (to_lower_char a) \<and> ci_less s t))"

text \<open>\<open>compare_case_ignore\<close>.\<close>

definition compare_case_ignore :: "string \<Rightarrow> string \<Rightarrow> bool" where
  "compare_case_ignore a b \<longleftrightarrow>
     length a = length b \<and> (\<forall>i < length b. to_lower_char (a ! i) = to_lower_char (b ! i))"

lemma byte_eq [simp]: "byte a = byte b \<longleftrightarrow> a = b"
  by (simp add: byte_def)

lemma byte_less: "byte c < 256"
  by (simp add: byte_def)

lemma byte_char_of [simp]: "n < 256 \<Longrightarrow> byte (char_of n) = n"
  by (simp add: byte_def)

lemma compare_case_ignore_map: "compare_case_ignore a b \<longleftrightarrow> map to_lower_char a = map to_lower_char b"
  by (auto simp: compare_case_ignore_def list_eq_iff_nth_eq)

lemma ci_less_lower: "ci_less s t = str_less (map to_lower_char s) (map to_lower_char t)"
  by (induction s t rule: ci_less.induct) auto

lemma str_less_irrefl: "\<not> str_less s s"
  by (induction s) auto

lemma str_less_trans: "str_less s t \<Longrightarrow> str_less t u \<Longrightarrow> str_less s u"
proof (induction s t arbitrary: u rule: str_less.induct)
  case (2 b t)
  then show ?case by (cases u) auto
next
  case (3 a s b t)
  then show ?case by (cases u) auto
qed simp

lemma str_less_total: "str_less s t \<or> s = t \<or> str_less t s"
proof (induction s t rule: str_less.induct)
  case (1 s)
  then show ?case by (cases s) auto
next
  case (3 a s b t)
  then show ?case by (auto simp: not_less order_le_less)
qed simp

subsection \<open>Multimaps\<close>

type_synonym ('k, 'v) multimap = "('k \<times> 'v) list"

text \<open>\<open>emplace\<close> inserts at the upper bound of the key.\<close>

fun mm_emplace :: "('k \<Rightarrow> 'k \<Rightarrow> bool) \<Rightarrow> 'k \<Rightarrow> 'v \<Rightarrow> ('k, 'v) multimap \<Rightarrow> ('k, 'v) multimap" where
  "mm_emplace lt k v [] = [(k, v)]"
| "mm_emplace lt k v (x # m) = (if lt k (fst x) then (k, v) # x # m else x # mm_emplace lt k v m)"

definition lower_bound :: "('k \<Rightarrow> 'k \<Rightarrow> bool) \<Rightarrow> 'k \<Rightarrow> ('k, 'v) multimap \<Rightarrow> nat" where
  "lower_bound lt k m = length (takeWhile (\<lambda>x. lt (fst x) k) m)"

definition upper_bound :: "('k \<Rightarrow> 'k \<Rightarrow> bool) \<Rightarrow> 'k \<Rightarrow> ('k, 'v) multimap \<Rightarrow> nat" where
  "upper_bound lt k m = length (takeWhile (\<lambda>x. \<not> lt k (fst x)) m)"

text \<open>The entries of \<open>equal_range\<close>, what remains after erasing them, and \<open>find\<close>.\<close>

definition mm_range :: "('k \<Rightarrow> 'k \<Rightarrow> bool) \<Rightarrow> 'k \<Rightarrow> ('k, 'v) multimap \<Rightarrow> ('k, 'v) multimap" where
  "mm_range lt k m = drop (lower_bound lt k m) (take (upper_bound lt k m) m)"

definition mm_erase :: "('k \<Rightarrow> 'k \<Rightarrow> bool) \<Rightarrow> 'k \<Rightarrow> ('k, 'v) multimap \<Rightarrow> ('k, 'v) multimap" where
  "mm_erase lt k m = take (lower_bound lt k m) m @ drop (upper_bound lt k m) m"

definition mm_find :: "('k \<Rightarrow> 'k \<Rightarrow> bool) \<Rightarrow> 'k \<Rightarrow> ('k, 'v) multimap \<Rightarrow> 'v option" where
  "mm_find lt k m = (case mm_range lt k m of [] \<Rightarrow> None | x # xs \<Rightarrow> Some (snd x))"

text \<open>Erasing the entry \<open>find\<close> points to.\<close>

definition mm_erase_first :: "('k \<Rightarrow> 'k \<Rightarrow> bool) \<Rightarrow> 'k \<Rightarrow> ('k, 'v) multimap \<Rightarrow> ('k, 'v) multimap" where
  "mm_erase_first lt k m = take (lower_bound lt k m) m @ drop (Suc (lower_bound lt k m)) m"

text \<open>The iterator \<open>equal_range(k).first\<close> after \<open>std::advance(it, static_cast<ssize_t>(id))\<close>: \<open>None\<close>
  when it is \<open>equal_range(k).second\<close>, otherwise the value it points to, also when it has left the
  range; leaving the container is undefined.\<close>

definition ssize :: "nat \<Rightarrow> int" where
  "ssize i = (let m = int (i mod 2 ^ 64) in if m < 2 ^ 63 then m else m - 2 ^ 64)"

definition mm_advance ::
  "('k \<Rightarrow> 'k \<Rightarrow> bool) \<Rightarrow> 'k \<Rightarrow> nat \<Rightarrow> ('k, 'v) multimap \<Rightarrow> 'v option result" where
  "mm_advance lt k n m =
     (let p = int (lower_bound lt k m) + ssize n in
      if p < 0 \<or> int (length m) < p then Inl (Undefined ''iterator out of range'')
      else if nat p = upper_bound lt k m then Inr None
      else if nat p = length m then Inl (Undefined ''end iterator dereferenced'')
      else Inr (Some (snd (m ! nat p))))"

definition mm_sorted :: "('k \<Rightarrow> 'k \<Rightarrow> bool) \<Rightarrow> ('k, 'v) multimap \<Rightarrow> bool" where
  "mm_sorted lt m \<longleftrightarrow> sorted_wrt (\<lambda>x y. \<not> lt (fst y) (fst x)) m"

lemma mm_sorted_Nil [simp]: "mm_sorted lt []"
  by (simp add: mm_sorted_def)

lemma set_emplace [simp]: "set (mm_emplace lt k v m) = insert (k, v) (set m)"
  by (induction m) auto

lemma length_emplace [simp]: "length (mm_emplace lt k v m) = Suc (length m)"
  by (induction m) auto

text \<open>The laws of a comparison: a strict weak order.\<close>

locale key_order =
  fixes lt :: "'k \<Rightarrow> 'k \<Rightarrow> bool"
  assumes lt_irrefl: "\<not> lt a a"
    and lt_trans: "lt a b \<Longrightarrow> lt b c \<Longrightarrow> lt a c"
    and lt_weak: "lt a c \<Longrightarrow> lt a b \<or> lt b c"
begin

definition same :: "'k \<Rightarrow> 'k \<Rightarrow> bool" where
  "same a b \<longleftrightarrow> \<not> lt a b \<and> \<not> lt b a"

lemma lt_asym: "lt a b \<Longrightarrow> \<not> lt b a"
  using lt_irrefl lt_trans by blast

lemma emplace_sorted: "mm_sorted lt m \<Longrightarrow> mm_sorted lt (mm_emplace lt k v m)"
  unfolding mm_sorted_def
proof (induction m)
  case (Cons x m)
  show ?case
  proof (cases "lt k (fst x)")
    case True
    have "\<not> lt (fst y) k" if "y \<in> set m" for y
    proof
      assume "lt (fst y) k"
      then have "lt (fst y) (fst x)" using True lt_trans by blast
      then show False using Cons.prems that by simp
    qed
    then show ?thesis using True Cons.prems lt_asym [OF True] by auto
  next
    case False
    then show ?thesis using Cons by auto
  qed
qed simp

lemma range_filter: "mm_sorted lt m \<Longrightarrow> mm_range lt k m = filter (\<lambda>x. same (fst x) k) m"
proof (induction m)
  case Nil
  then show ?case by (simp add: mm_range_def)
next
  case (Cons x m)
  have s: "mm_sorted lt m" and x: "\<And>y. y \<in> set m \<Longrightarrow> \<not> lt (fst y) (fst x)"
    using Cons.prems by (auto simp: mm_sorted_def)
  note IH = Cons.IH [OF s]
  consider (less) "lt (fst x) k" | (more) "lt k (fst x)" | (eq) "same (fst x) k" by (auto simp: same_def)
  then show ?case
  proof cases
    case less
    then show ?thesis using IH lt_asym [OF less]
      by (simp add: mm_range_def lower_bound_def upper_bound_def same_def)
  next
    case more
    then have "\<not> same (fst y) k" if "y \<in> set m" for y
      using x [OF that] lt_weak [of k "fst x" "fst y"] by (auto simp: same_def)
    then show ?thesis using more
      by (simp add: mm_range_def lower_bound_def upper_bound_def same_def filter_empty_conv)
  next
    case eq
    have lb: "lower_bound lt k m = 0"
    proof (cases m)
      case (Cons y m')
      then show ?thesis using x [of y] eq lt_weak [of "fst y" k "fst x"]
        by (auto simp: lower_bound_def same_def)
    qed (simp add: lower_bound_def)
    then show ?thesis using IH eq
      by (simp add: mm_range_def lower_bound_def upper_bound_def same_def)
  qed
qed

lemma erase_filter: "mm_sorted lt m \<Longrightarrow> mm_erase lt k m = filter (\<lambda>x. \<not> same (fst x) k) m"
proof (induction m)
  case Nil
  then show ?case by (simp add: mm_erase_def)
next
  case (Cons x m)
  have s: "mm_sorted lt m" and x: "\<And>y. y \<in> set m \<Longrightarrow> \<not> lt (fst y) (fst x)"
    using Cons.prems by (auto simp: mm_sorted_def)
  note IH = Cons.IH [OF s]
  consider (less) "lt (fst x) k" | (more) "lt k (fst x)" | (eq) "same (fst x) k" by (auto simp: same_def)
  then show ?case
  proof cases
    case less
    then show ?thesis using IH lt_asym [OF less]
      by (simp add: mm_erase_def lower_bound_def upper_bound_def same_def)
  next
    case more
    then have "\<not> same (fst y) k" if "y \<in> set m" for y
      using x [OF that] lt_weak [of k "fst x" "fst y"] by (auto simp: same_def)
    then have "filter (\<lambda>y. \<not> same (fst y) k) m = m" by (simp add: filter_id_conv)
    moreover have "\<not> lt (fst x) k" using more lt_asym by blast
    ultimately show ?thesis using more
      by (simp add: mm_erase_def lower_bound_def upper_bound_def same_def)
  next
    case eq
    have lb: "lower_bound lt k m = 0"
    proof (cases m)
      case (Cons y m')
      then show ?thesis using x [of y] eq lt_weak [of "fst y" k "fst x"]
        by (auto simp: lower_bound_def same_def)
    qed (simp add: lower_bound_def)
    then show ?thesis using IH eq
      by (simp add: mm_erase_def lower_bound_def upper_bound_def same_def)
  qed
qed

lemma erase_sorted: "mm_sorted lt m \<Longrightarrow> mm_sorted lt (mm_erase lt k m)"
  using erase_filter [of m k] by (simp add: mm_sorted_def sorted_wrt_filter)

lemma same_cong: "same k j \<Longrightarrow> same a k = same a j"
  unfolding same_def using lt_weak lt_irrefl by blast

lemma emplace_last:
  "mm_sorted lt (m @ [x]) \<Longrightarrow> mm_emplace lt (fst x) (snd x) m = m @ [x]"
  by (induction m) (auto simp: mm_sorted_def)

lemma emplace_all:
  "mm_sorted lt (m @ xs) \<Longrightarrow> fold (\<lambda>x. mm_emplace lt (fst x) (snd x)) xs m = m @ xs"
proof (induction xs arbitrary: m)
  case (Cons x xs)
  have "mm_sorted lt ((m @ [x]) @ xs)" using Cons.prems by simp
  moreover from this have "mm_sorted lt (m @ [x])" by (simp add: mm_sorted_def sorted_wrt_append)
  ultimately show ?case using Cons.IH [of "m @ [x]"] emplace_last [of m x] by simp
qed simp

text \<open>A new entry comes last among the entries of its key; the other keys keep theirs.\<close>

lemma filter_emplace:
  "mm_sorted lt m \<Longrightarrow>
   filter (\<lambda>x. same (fst x) j) (mm_emplace lt k v m) =
   filter (\<lambda>x. same (fst x) j) m @ (if same k j then [(k, v)] else [])"
proof (induction m)
  case (Cons x m)
  have s: "mm_sorted lt m" and x: "\<And>y. y \<in> set m \<Longrightarrow> \<not> lt (fst y) (fst x)"
    using Cons.prems by (auto simp: mm_sorted_def)
  show ?case
  proof (cases "lt k (fst x)")
    case True
    have "\<not> same (fst y) j" if "same k j" "y \<in> set (x # m)" for y
    proof -
      have "y = x \<or> \<not> lt (fst y) (fst x)" using that(2) x [of y] by auto
      then have "lt k (fst y)" using True lt_weak [of k "fst x" "fst y"] by blast
      then have "lt j (fst y)" using that(1) lt_weak [of k "fst y" j] by (auto simp: same_def)
      then show ?thesis by (simp add: same_def)
    qed
    then have "same k j \<Longrightarrow> filter (\<lambda>x. same (fst x) j) (x # m) = []" by (simp add: filter_empty_conv)
    then show ?thesis using True by auto
  next
    case False
    then show ?thesis using Cons.IH [OF s] by simp
  qed
qed simp

lemma range_emplace:
  "mm_sorted lt m \<Longrightarrow>
   mm_range lt j (mm_emplace lt k v m) = mm_range lt j m @ (if same k j then [(k, v)] else [])"
  by (simp add: range_filter emplace_sorted filter_emplace)

lemma range_erase:
  "mm_sorted lt m \<Longrightarrow> mm_range lt j (mm_erase lt k m) = (if same k j then [] else mm_range lt j m)"
proof -
  assume m: "mm_sorted lt m"
  have "mm_range lt j (mm_erase lt k m) = filter (\<lambda>x. same (fst x) j \<and> \<not> same (fst x) k) m"
    using range_filter [OF erase_sorted [OF m], of j k] by (simp add: erase_filter [OF m] conj_commute)
  moreover have "filter (\<lambda>x. same (fst x) j \<and> \<not> same (fst x) k) m = []" if "same k j"
    using same_cong [OF that] by (simp add: filter_empty_conv)
  moreover have "(same a j \<and> \<not> same a k) = same a j" if "\<not> same k j" for a
    using that same_cong [of a j k] by (auto simp: same_def)
  ultimately show ?thesis by (auto simp: range_filter [OF m])
qed

lemma bounds_order: "mm_sorted lt m \<Longrightarrow> lower_bound lt k m \<le> upper_bound lt k m"
  unfolding lower_bound_def upper_bound_def
  by (induction m) (auto simp: mm_sorted_def dest: lt_asym)

lemma upper_bound_le: "upper_bound lt k m \<le> length m"
  by (simp add: upper_bound_def length_takeWhile_le)

lemma range_length: "mm_sorted lt m \<Longrightarrow> length (mm_range lt k m) = upper_bound lt k m - lower_bound lt k m"
  using upper_bound_le [of k m] by (simp add: mm_range_def)

text \<open>Within the range, \<open>advance\<close> finds the entry of that number; at its end, nothing.\<close>

lemma advance_in_range:
  assumes "mm_sorted lt m" and "n \<le> length (mm_range lt k m)" and "n < 2 ^ 63"
  shows "mm_advance lt k n m =
     Inr (if n < length (mm_range lt k m) then Some (snd (mm_range lt k m ! n)) else None)"
proof -
  let ?l = "lower_bound lt k m" and ?u = "upper_bound lt k m"
  have u: "?u \<le> length m" and lu: "?l \<le> ?u" and len: "length (mm_range lt k m) = ?u - ?l"
    using upper_bound_le bounds_order range_length assms(1) by auto
  have sn: "ssize n = int n" using assms(3) by (simp add: ssize_def)
  have p: "int ?l + ssize n = int (?l + n)" by (simp add: sn)
  have "mm_range lt k m ! n = m ! (?l + n)" if "n < ?u - ?l"
    using that u by (simp add: mm_range_def)
  then show ?thesis
    unfolding mm_advance_def Let_def p nat_int using assms(2) u lu len by auto
qed

end

lemma str_less_weak: "str_less a c \<Longrightarrow> str_less a b \<or> str_less b c"
  using str_less_total [of a b] str_less_trans [of b a c] by blast

interpretation less: key_order str_less
  by unfold_locales (rule str_less_irrefl, erule str_less_trans, assumption, erule str_less_weak)

interpretation ci: key_order ci_less
  unfolding ci_less_lower
  by unfold_locales (rule str_less_irrefl, erule str_less_trans, assumption, erule str_less_weak)

lemma ci_same: "ci.same a b \<longleftrightarrow> map to_lower_char a = map to_lower_char b"
  unfolding ci.same_def ci_less_lower using str_less_irrefl str_less_total by metis

lemma less_same: "less.same a b \<longleftrightarrow> a = b"
  unfolding less.same_def using str_less_irrefl str_less_total by metis

end
