(* ===== verification/Http_Text.thy ===== *)
theory Http_Text
  imports Http_Messages "HOL-Library.Word"
begin

unbundle bit_operations_syntax

text \<open>
  The string utilities of \<open>httplib.h\<close>: hexadecimal numbers, UTF-8, base 64, the check of paths, URL
  encoding and decoding, trimming and splitting. A pointer into a string is an index of its list, or
  the rest of the list from there. An \<open>int\<close> that wraps is a word of 32 bits.
\<close>

subsection \<open>Hexadecimal numbers and UTF-8\<close>

definition is_hex :: "char \<Rightarrow> nat option" where
  "is_hex c =
     (let n = byte c in
      if 48 \<le> n \<and> n \<le> 57 then Some (n - 48)
      else if 65 \<le> n \<and> n \<le> 70 then Some (n - 65 + 10)
      else if 97 \<le> n \<and> n \<le> 102 then Some (n - 97 + 10)
      else None)"

text \<open>The loop of \<open>from_hex_to_i\<close>; the byte after the last one is null.\<close>

fun hex_loop :: "string \<Rightarrow> nat \<Rightarrow> nat \<Rightarrow> nat \<Rightarrow> nat option" where
  "hex_loop s i 0 val = Some val"
| "hex_loop s i (Suc cnt) val =
     (if i \<ge> length s then None
      else case is_hex (s ! i) of
        None \<Rightarrow> None
      | Some v \<Rightarrow> hex_loop s (i + 1) cnt (val * 16 + v))"

definition from_hex_to_i :: "string \<Rightarrow> nat \<Rightarrow> nat \<Rightarrow> nat option" where
  "from_hex_to_i s i cnt = (if i \<ge> length s then None else hex_loop s i cnt 0)"

definition hex_char :: "nat \<Rightarrow> char" where
  "hex_char d = ''0123456789abcdef'' ! d"

definition upper_hex_char :: "nat \<Rightarrow> char" where
  "upper_hex_char d = ''0123456789ABCDEF'' ! d"

fun hex_prepend :: "nat \<Rightarrow> string \<Rightarrow> string" where
  "hex_prepend n acc =
     (let acc' = hex_char (n mod 16) # acc; n' = n div 16
      in if n' > 0 then hex_prepend n' acc' else acc')"

declare hex_prepend.simps [simp del]

definition from_i_to_hex :: "nat \<Rightarrow> string" where
  "from_i_to_hex n = hex_prepend n []"

definition utf8_byte :: "int \<Rightarrow> char" where
  "utf8_byte n = char_of (nat n)"

definition to_utf8 :: "int \<Rightarrow> string" where
  "to_utf8 code =
     (if code < 0x80 then [utf8_byte (code AND 0x7F)]
      else if code < 0x800 then
        [utf8_byte (0xC0 OR (drop_bit 6 code AND 0x1F)), utf8_byte (0x80 OR (code AND 0x3F))]
      else if code < 0xD800 then
        [utf8_byte (0xE0 OR (drop_bit 12 code AND 0xF)), utf8_byte (0x80 OR (drop_bit 6 code AND 0x3F)),
         utf8_byte (0x80 OR (code AND 0x3F))]
      else if code < 0xE000 then []
      else if code < 0x10000 then
        [utf8_byte (0xE0 OR (drop_bit 12 code AND 0xF)), utf8_byte (0x80 OR (drop_bit 6 code AND 0x3F)),
         utf8_byte (0x80 OR (code AND 0x3F))]
      else if code < 0x110000 then
        [utf8_byte (0xF0 OR (drop_bit 18 code AND 0x7)), utf8_byte (0x80 OR (drop_bit 12 code AND 0x3F)),
         utf8_byte (0x80 OR (drop_bit 6 code AND 0x3F)), utf8_byte (0x80 OR (code AND 0x3F))]
      else [])"

subsection \<open>Base 64\<close>

definition b64_lookup :: string where
  "b64_lookup = ''ABCDEFGHIJKLMNOPQRSTUVWXYZabcdefghijklmnopqrstuvwxyz0123456789+/''"

definition b64_char :: "32 word \<Rightarrow> char" where
  "b64_char v = b64_lookup ! unat (v AND 0x3F)"

text \<open>\<open>while (valb >= 0)\<close>.\<close>

function b64_emit :: "32 word \<Rightarrow> int \<Rightarrow> string \<Rightarrow> int \<times> string" where
  "b64_emit val valb out =
     (if valb \<ge> 0
      then b64_emit val (valb - 6) (out @ [b64_char (signed_drop_bit (nat valb) val)])
      else (valb, out))"
  by pat_completeness auto
termination
  by (relation "measure (\<lambda>(val, valb, out). nat (valb + 6))") auto

declare b64_emit.simps [simp del]

fun b64_loop :: "string \<Rightarrow> 32 word \<Rightarrow> int \<Rightarrow> string \<Rightarrow> 32 word \<times> int \<times> string" where
  "b64_loop [] val valb out = (val, valb, out)"
| "b64_loop (c # s) val valb out =
     (let val' = push_bit 8 val + of_nat (byte c);
          (valb', out') = b64_emit val' (valb + 8) out
      in b64_loop s val' valb' out')"

function b64_pad :: "string \<Rightarrow> string" where
  "b64_pad out = (if length out mod 4 \<noteq> 0 then b64_pad (out @ ''='') else out)"
  by pat_completeness auto
termination
  by (relation "measure (\<lambda>out. (4 - length out mod 4) mod 4)") (auto simp: mod_Suc)

declare b64_pad.simps [simp del]

definition base64_encode :: "string \<Rightarrow> string" where
  "base64_encode s =
     (case b64_loop s 0 (-6) [] of
        (val, valb, out) \<Rightarrow>
          b64_pad (if valb > -6
                   then out @ [b64_char (signed_drop_bit (nat (valb + 8)) (push_bit 8 val))]
                   else out))"

subsection \<open>Paths\<close>

abbreviation slash :: char where
  "slash \<equiv> CHR ''/''"

definition skip_slash :: "string \<Rightarrow> string" where
  "skip_slash s = dropWhile (\<lambda>c. c = slash) s"

function valid_from :: "nat \<Rightarrow> string \<Rightarrow> bool result" where
  "valid_from level s =
     (if s = [] then Inr True
      else let component = takeWhile (\<lambda>c. c \<noteq> slash) s;
               rest = skip_slash (dropWhile (\<lambda>c. c \<noteq> slash) s)
           in if component = [] then Inl (Assertion ''len > 0'')
              else if component = ''.'' then valid_from level rest
              else if component = ''..'' then
                (if level = 0 then Inr False else valid_from (level - 1) rest)
              else valid_from (level + 1) rest)"
  by pat_completeness auto
termination
proof -
  have "length (skip_slash (dropWhile (\<lambda>c. c \<noteq> slash) s)) < length s"
    if "takeWhile (\<lambda>c. c \<noteq> slash) s \<noteq> []" for s :: string
  proof -
    have "length (skip_slash (dropWhile (\<lambda>c. c \<noteq> slash) s)) \<le> length (dropWhile (\<lambda>c. c \<noteq> slash) s)"
      by (simp add: skip_slash_def length_dropWhile_le)
    also have "\<dots> < length s"
      using that by (cases s) (auto intro: le_imp_less_Suc length_dropWhile_le split: if_splits)
    finally show ?thesis .
  qed
  then show ?thesis by (relation "measure (\<lambda>(level, s). length s)") auto
qed

declare valid_from.simps [simp del]

definition is_valid_path :: "string \<Rightarrow> bool result" where
  "is_valid_path path = valid_from 0 (skip_slash path)"

definition is_alnum :: "char \<Rightarrow> bool" where
  "is_alnum c \<longleftrightarrow>
     (let n = byte c in (48 \<le> n \<and> n \<le> 57) \<or> (65 \<le> n \<and> n \<le> 90) \<or> (97 \<le> n \<and> n \<le> 122))"

text \<open>The leftmost match of \<open>\.([a-zA-Z0-9]+)$\<close>.\<close>

definition file_extension :: "string \<Rightarrow> string" where
  "file_extension path =
     (let ext = takeWhile is_alnum (rev path); rest = dropWhile is_alnum (rev path)
      in if ext \<noteq> [] \<and> rest \<noteq> [] \<and> hd rest = CHR ''.'' then rev ext else [])"

subsection \<open>URL encoding\<close>

definition hex2 :: "nat \<Rightarrow> string" where
  "hex2 n = [upper_hex_char (n div 16), upper_hex_char (n mod 16)]"

definition query_char :: "char \<Rightarrow> bool" where
  "query_char c \<longleftrightarrow> is_alnum c \<or> c \<in> set ''-_.!~*'()''"

definition encode_query_char :: "char \<Rightarrow> string" where
  "encode_query_char c = (if query_char c then [c] else CHR ''%'' # hex2 (byte c))"

definition encode_query_param :: "string \<Rightarrow> string" where
  "encode_query_param value = concat (map encode_query_char value)"

definition encode_url_char :: "char \<Rightarrow> string" where
  "encode_url_char c =
     (if c = CHR '' '' then ''%20''
      else if c = CHR ''+'' then ''%2B''
      else if c = CHR 0x0D then ''%0D''
      else if c = CHR 0x0A then ''%0A''
      else if c = CHR 0x27 then ''%27''
      else if c = CHR '','' then ''%2C''
      else if c = CHR '';'' then ''%3B''
      else if byte c \<ge> 0x80 then CHR ''%'' # hex2 (byte c)
      else [c])"

definition encode_url :: "string \<Rightarrow> string" where
  "encode_url s = concat (map encode_url_char (c_str s))"

function decode_url :: "string \<Rightarrow> bool \<Rightarrow> string" where
  "decode_url [] conv = []"
| "decode_url (c # s) conv =
     (if c = CHR ''%'' \<and> s \<noteq> [] then
        if hd s = CHR ''u'' then
          (case from_hex_to_i (c # s) 2 4 of
             Some val \<Rightarrow> to_utf8 (int val) @ decode_url (drop 5 s) conv
           | None \<Rightarrow> c # decode_url s conv)
        else
          (case from_hex_to_i (c # s) 1 2 of
             Some val \<Rightarrow> char_of val # decode_url (drop 2 s) conv
           | None \<Rightarrow> c # decode_url s conv)
      else if conv \<and> c = CHR ''+'' then CHR '' '' # decode_url s conv
      else c # decode_url s conv)"
  by pat_completeness auto
termination
  by (relation "measure (\<lambda>(s, conv). length s)") auto

subsection \<open>Trimming and splitting\<close>

definition is_space_or_tab :: "char \<Rightarrow> bool" where
  "is_space_or_tab c \<longleftrightarrow> c = CHR '' '' \<or> c = CHR 0x09"

function trim_left :: "string \<Rightarrow> nat \<Rightarrow> nat" where
  "trim_left s left =
     (if left < length s \<and> is_space_or_tab (s ! left) then trim_left s (left + 1) else left)"
  by pat_completeness auto
termination
  by (relation "measure (\<lambda>(s, left). length s - left)") auto

declare trim_left.simps [simp del]

fun trim_right :: "string \<Rightarrow> nat \<Rightarrow> nat" where
  "trim_right s 0 = 0"
| "trim_right s (Suc r) = (if is_space_or_tab (s ! r) then trim_right s r else Suc r)"

definition trim :: "string \<Rightarrow> nat \<Rightarrow> nat \<Rightarrow> nat \<times> nat" where
  "trim s left right = (trim_left s left, trim_right s right)"

text \<open>When the string is all blanks the length passed to \<open>substr\<close> wraps, which means up to the end.\<close>

definition trim_copy :: "string \<Rightarrow> string" where
  "trim_copy s =
     (case trim s 0 (length s) of
        (l, r) \<Rightarrow> if l \<le> r then substr s l (r - l) else drop l s)"

definition trim_double_quotes_copy :: "string \<Rightarrow> string" where
  "trim_double_quotes_copy s =
     (if length s \<ge> 2 \<and> hd s = CHR 0x22 \<and> last s = CHR 0x22 then substr s 1 (length s - 2) else s)"

text \<open>The calls of \<open>fn\<close> that \<open>split\<close> makes, as the list of their arguments.\<close>

definition piece :: "string \<Rightarrow> nat \<Rightarrow> nat \<Rightarrow> string list" where
  "piece s beg i = (case trim s beg i of (l, r) \<Rightarrow> if l < r then [substr s l (r - l)] else [])"

function split_loop :: "string \<Rightarrow> char \<Rightarrow> nat \<Rightarrow> nat \<Rightarrow> string list" where
  "split_loop s d i beg =
     (if i < length s
      then (if s ! i = d
            then piece s beg i @ split_loop s d (i + 1) (i + 1)
            else split_loop s d (i + 1) beg)
      else if i \<noteq> 0 then piece s beg i else [])"
  by pat_completeness auto
termination
  by (relation "measure (\<lambda>(s, d, i, beg). length s - i)") auto

declare split_loop.simps [simp del]

definition split :: "string \<Rightarrow> char \<Rightarrow> string list" where
  "split s d = split_loop s d 0 0"

end
