(* ===== verification/Http_Mime.thy ===== *)
theory Http_Mime
  imports Http_Text
begin

text \<open>
  The content types of \<open>httplib.h\<close>: an extension is looked up by a hash of its characters, a tag of
  26 bits, which is also what the \<open>switch\<close> over string literals compares.
\<close>

fun str2tag_core :: "string \<Rightarrow> 32 word \<Rightarrow> 32 word" where
  "str2tag_core [] h = h"
| "str2tag_core (c # s) h =
     str2tag_core s ((drop_bit 6 (- 1) AND (h * 33)) XOR of_nat (byte c))"

definition str2tag :: "string \<Rightarrow> 32 word" where
  "str2tag s = str2tag_core s 0"

definition content_types :: "(string \<times> string) list" where
  "content_types =
    [(''css'', ''text/css''), (''csv'', ''text/csv''), (''htm'', ''text/html''),
     (''html'', ''text/html''), (''js'', ''text/javascript''), (''mjs'', ''text/javascript''),
     (''txt'', ''text/plain''), (''vtt'', ''text/vtt''),
     (''apng'', ''image/apng''), (''avif'', ''image/avif''), (''bmp'', ''image/bmp''),
     (''gif'', ''image/gif''), (''png'', ''image/png''), (''svg'', ''image/svg+xml''),
     (''webp'', ''image/webp''), (''ico'', ''image/x-icon''), (''tif'', ''image/tiff''),
     (''tiff'', ''image/tiff''), (''jpg'', ''image/jpeg''), (''jpeg'', ''image/jpeg''),
     (''mp4'', ''video/mp4''), (''mpeg'', ''video/mpeg''), (''webm'', ''video/webm''),
     (''mp3'', ''audio/mp3''), (''mpga'', ''audio/mpeg''), (''weba'', ''audio/webm''),
     (''wav'', ''audio/wave''), (''otf'', ''font/otf''), (''ttf'', ''font/ttf''),
     (''woff'', ''font/woff''), (''woff2'', ''font/woff2''),
     (''7z'', ''application/x-7z-compressed''), (''atom'', ''application/atom+xml''),
     (''pdf'', ''application/pdf''), (''json'', ''application/json''),
     (''rss'', ''application/rss+xml''), (''tar'', ''application/x-tar''),
     (''xht'', ''application/xhtml+xml''), (''xhtml'', ''application/xhtml+xml''),
     (''xslt'', ''application/xslt+xml''), (''xml'', ''application/xml''),
     (''gz'', ''application/gzip''), (''zip'', ''application/zip''), (''wasm'', ''application/wasm'')]"

definition find_content_type :: "string \<Rightarrow> (string \<rightharpoonup> string) \<Rightarrow> string \<Rightarrow> string" where
  "find_content_type path user_data default_content_type =
     (let ext = file_extension path in
      case user_data ext of
        Some t \<Rightarrow> c_str t
      | None \<Rightarrow>
          (case find (\<lambda>x. str2tag (fst x) = str2tag ext) content_types of
             Some x \<Rightarrow> snd x
           | None \<Rightarrow> default_content_type))"

definition compressible_types :: "string list" where
  "compressible_types =
    [''image/svg+xml'', ''application/javascript'', ''application/json'', ''application/xml'',
     ''application/protobuf'', ''application/xhtml+xml'']"

definition can_compress_content_type :: "string \<Rightarrow> bool" where
  "can_compress_content_type content_type =
     (let tag = str2tag content_type in
      if tag \<in> set (map str2tag compressible_types) then True
      else starts_with ''text/'' content_type \<and> tag \<noteq> str2tag ''text/event-stream'')"

datatype EncodingType = NoEncoding | Gzip | Brotli

text \<open>\<open>brotli\<close> and \<open>zlib\<close> say whether the library is built with these compressors.\<close>

definition encoding_type :: "bool \<Rightarrow> bool \<Rightarrow> 'w Request \<Rightarrow> 'w Response \<Rightarrow> EncodingType" where
  "encoding_type brotli zlib req res =
     (if \<not> can_compress_content_type (first_value (rs_headers res) ''Content-Type'') then NoEncoding
      else let s = first_value (rq_headers req) ''Accept-Encoding'' in
      if brotli \<and> str_find ''br'' s 0 \<noteq> None then Brotli
      else if zlib \<and> str_find ''gzip'' s 0 \<noteq> None then Gzip
      else NoEncoding)"

subsection \<open>The table\<close>

lemma tags_distinct: "distinct (map (\<lambda>x. str2tag (fst x)) content_types)"
  by code_simp

lemma find_listed:
  "distinct (map f xs) \<Longrightarrow> x \<in> set xs \<Longrightarrow> find (\<lambda>y. f y = f x) xs = Some x"
  by (induction xs) (auto simp: image_iff)

text \<open>A path with one of the extensions of the table gets the type listed for it.\<close>

lemma content_type_listed:
  assumes "(file_extension path, t) \<in> set content_types" and "user_data (file_extension path) = None"
  shows "find_content_type path user_data d = t"
  using find_listed [OF tags_distinct assms(1)] assms(2) by (simp add: find_content_type_def)

text \<open>So does a path whose extension merely has the same tag.\<close>

lemma content_type_collision:
  "find_content_type ''/notes.iP'' Map.empty ''application/octet-stream'' = ''text/javascript''"
  by code_simp

end
