(* ===== verification/Http_Text_Laws.thy ===== *)
theory Http_Text_Laws
  imports Http_Text
begin

text \<open>
  What the string utilities compute: URL decoding inverts URL encoding, the base-64 loop over a
  wrapping \<open>int\<close> is the encoding of RFC 4648, \<open>to_utf8\<close> is UTF-8, the path check keeps a path below
  its root, and the index loops of \<open>split\<close> and \<open>trim_copy\<close> cut a string at the separators and strip
  the blanks.
\<close>

subsection \<open>Hexadecimal digits\<close>

lemma less_16_cases:
  fixes d :: nat
  assumes "d < 16"
  obtains "d = 0" | "d = 1" | "d = 2" | "d = 3" | "d = 4" | "d = 5" | "d = 6" | "d = 7"
    | "d = 8" | "d = 9" | "d = 10" | "d = 11" | "d = 12" | "d = 13" | "d = 14" | "d = 15"
proof -
  have "d = 0 \<or> d = 1 \<or> d = 2 \<or> d = 3 \<or> d = 4 \<or> d = 5 \<or> d = 6 \<or> d = 7 \<or>
        d = 8 \<or> d = 9 \<or> d = 10 \<or> d = 11 \<or> d = 12 \<or> d = 13 \<or> d = 14 \<or> d = 15"
    using assms by arith
  then show thesis using that by blast
qed

lemma is_hex_digit: "d < 16 \<Longrightarrow> is_hex (hex_char d) = Some d \<and> is_hex (upper_hex_char d) = Some d"
  by (erule less_16_cases) (simp_all add: is_hex_def hex_char_def upper_hex_char_def byte_def)

lemmas is_hex_char [simp] = is_hex_digit [THEN conjunct1] is_hex_digit [THEN conjunct2]

lemma hex_char_less: "is_hex c = Some d \<Longrightarrow> d < 16"
  by (auto simp: is_hex_def Let_def split: if_splits)

lemma is_hex_u [simp]: "is_hex (CHR ''u'') = None"
  by (simp add: is_hex_def byte_def)

lemma upper_hex_not_u [simp]: "d < 16 \<Longrightarrow> upper_hex_char d \<noteq> CHR ''u''"
  by (metis is_hex_u is_hex_char(2) option.distinct(1))

text \<open>Reading digits: the value of the digits before, shifted.\<close>

definition hex_val :: "string \<Rightarrow> nat" where
  "hex_val ds = foldl (\<lambda>n c. 16 * n + the (is_hex c)) 0 ds"

lemma hex_val_snoc [simp]: "hex_val (ds @ [c]) = 16 * hex_val ds + the (is_hex c)"
  by (simp add: hex_val_def)

lemma foldl_hex: "foldl (\<lambda>n c. 16 * n + the (is_hex c)) v ds = v * 16 ^ length ds + hex_val ds"
proof (induction ds rule: rev_induct)
  case (snoc c ds)
  then show ?case by (simp add: hex_val_def [symmetric] algebra_simps)
qed (simp add: hex_val_def)

lemma hex_loop_all:
  "list_all (\<lambda>c. is_hex c \<noteq> None) ds \<Longrightarrow>
   hex_loop (pre @ ds @ rest) (length pre) (length ds) v = Some (v * 16 ^ length ds + hex_val ds)"
proof (induction ds arbitrary: pre v)
  case Nil
  then show ?case by (simp add: hex_val_def)
next
  case (Cons c ds)
  then obtain d where d: "is_hex c = Some d" by auto
  have "hex_loop ((pre @ [c]) @ ds @ rest) (length (pre @ [c])) (length ds) (v * 16 + d) =
        Some ((v * 16 + d) * 16 ^ length ds + hex_val ds)"
    using Cons.prems by (intro Cons.IH) simp
  moreover have "hex_val (c # ds) = d * 16 ^ length ds + hex_val ds"
    using foldl_hex [of d ds] d by (simp add: hex_val_def)
  ultimately show ?case using d by (simp add: algebra_simps nth_append)
qed

lemma hex_prepend_digits:
  "\<exists>ds. hex_prepend n acc = ds @ acc \<and> ds \<noteq> [] \<and> hex_val ds = n \<and> list_all (\<lambda>c. is_hex c \<noteq> None) ds"
proof (induction n acc rule: hex_prepend.induct)
  case (1 n acc)
  show ?case
  proof (cases "n div 16 > 0")
    case True
    from "1.IH" [OF refl refl True] obtain ds where
      "hex_prepend (n div 16) (hex_char (n mod 16) # acc) = ds @ hex_char (n mod 16) # acc"
      "hex_val ds = n div 16" "list_all (\<lambda>c. is_hex c \<noteq> None) ds" by blast
    then show ?thesis using True
      by (intro exI [of _ "ds @ [hex_char (n mod 16)]"]) (simp add: hex_prepend.simps [of n acc] Let_def)
  next
    case False
    then show ?thesis
      by (intro exI [of _ "[hex_char (n mod 16)]"]) (simp add: hex_prepend.simps [of n acc] Let_def hex_val_def)
  qed
qed

lemma from_i_to_hex_digits:
  "from_i_to_hex n \<noteq> [] \<and> hex_val (from_i_to_hex n) = n \<and> list_all (\<lambda>c. is_hex c \<noteq> None) (from_i_to_hex n)"
  using hex_prepend_digits [of n "[]"] by (auto simp: from_i_to_hex_def)

lemma hex_number_roundtrip: "from_hex_to_i (from_i_to_hex n) 0 (length (from_i_to_hex n)) = Some n"
  using from_i_to_hex_digits [of n] hex_loop_all [of "from_i_to_hex n" "[]" "[]" 0]
  by (simp add: from_hex_to_i_def)

lemma from_hex_two:
  "a < 16 \<Longrightarrow> b < 16 \<Longrightarrow> from_hex_to_i (c # upper_hex_char a # upper_hex_char b # s) 1 2 = Some (a * 16 + b)"
  by (simp add: from_hex_to_i_def numeral_2_eq_2)

subsection \<open>URL encoding\<close>

lemma decode_hex2:
  "decode_url (CHR ''%'' # hex2 (byte c) @ t) conv = c # decode_url t conv"
proof -
  have b: "byte c div 16 < 16" "byte c mod 16 < 16" using byte_less [of c] by auto
  have "char_of (byte c) = c" by (simp add: byte_def)
  then show ?thesis using b by (simp add: hex2_def from_hex_two [simplified])
qed

lemma decode_plain:
  "c \<noteq> CHR ''%'' \<Longrightarrow> \<not> (conv \<and> c = CHR ''+'') \<Longrightarrow> decode_url (c # t) conv = c # decode_url t conv"
  by simp

lemma query_char_plain: "query_char c \<Longrightarrow> c \<noteq> CHR ''%'' \<and> c \<noteq> CHR ''+''"
  by (auto simp: query_char_def is_alnum_def byte_def)

lemma decode_encode_char: "decode_url (encode_query_char c @ t) conv = c # decode_url t conv"
  using query_char_plain [of c] decode_hex2 [of c t conv]
  by (auto simp: encode_query_char_def simp del: decode_url.simps intro!: decode_plain)

lemma decode_encode: "decode_url (encode_query_param s) conv = s"
  by (induction s) (simp_all add: encode_query_param_def decode_encode_char del: decode_url.simps(2))

text \<open>Decoding what \<open>encode_query_param\<close> wrote gives the string back, whatever its bytes and whether
  or not a plus is read as a space.\<close>

theorem url_param_roundtrip: "decode_url (encode_query_param s) conv = s"
  by (rule decode_encode)

lemma decode_encode_url_char:
  "c \<noteq> CHR ''%'' \<Longrightarrow> decode_url (encode_url_char c @ t) False = c # decode_url t False"
proof -
  assume c: "c \<noteq> CHR ''%''"
  have "hex2 32 = ''20''" "hex2 43 = ''2B''" "hex2 13 = ''0D''" "hex2 10 = ''0A''"
    "hex2 39 = ''27''" "hex2 44 = ''2C''" "hex2 59 = ''3B''"
    by (simp_all add: hex2_def upper_hex_char_def)
  moreover have "byte (CHR '' '') = 32" "byte (CHR ''+'') = 43" "byte (CHR 0x0D) = 13"
    "byte (CHR 0x0A) = 10" "byte (CHR 0x27) = 39" "byte (CHR '','') = 44" "byte (CHR '';'') = 59"
    by (simp_all add: byte_def)
  ultimately have "encode_url_char c = [c] \<or> encode_url_char c = CHR ''%'' # hex2 (byte c)"
    by (auto simp: encode_url_char_def)
  then show ?thesis using c decode_hex2 [of c t False] by (auto simp del: decode_url.simps intro!: decode_plain)
qed

text \<open>\<open>encode_url\<close> leaves a percent sign as it is and stops at a null byte.\<close>

lemma encode_url_roundtrip: "CHR ''%'' \<notin> set s \<Longrightarrow> decode_url (encode_url s) False = c_str s"
proof (induction s)
  case (Cons c s)
  then show ?case
    by (auto simp: encode_url_def c_str_def decode_encode_url_char simp del: decode_url.simps(2))
qed (simp add: encode_url_def c_str_def)

lemma encode_url_percent: "decode_url (encode_url ''100%41'') False = ''100A''"
  by code_simp

subsection \<open>Base 64\<close>

text \<open>RFC 4648, section 4, on groups of three bytes.\<close>

fun rfc4648 :: "string \<Rightarrow> string" where
  "rfc4648 [] = []"
| "rfc4648 [a] =
     [b64_lookup ! (byte a div 4), b64_lookup ! (byte a mod 4 * 16), CHR ''='', CHR ''='']"
| "rfc4648 [a, b] =
     [b64_lookup ! (byte a div 4), b64_lookup ! (byte a mod 4 * 16 + byte b div 16),
      b64_lookup ! (byte b mod 16 * 4), CHR ''='']"
| "rfc4648 (a # b # c # s) =
     [b64_lookup ! (byte a div 4), b64_lookup ! (byte a mod 4 * 16 + byte b div 16),
      b64_lookup ! (byte b mod 16 * 4 + byte c div 64), b64_lookup ! (byte c mod 64)] @ rfc4648 s"

lemma sextet:
  assumes "k \<le> 26"
  shows "b64_char (signed_drop_bit k w) = b64_lookup ! (unat w mod 2 ^ (k + 6) div 2 ^ k)"
proof -
  have "signed_drop_bit k w AND mask 6 = drop_bit k w AND mask 6"
    using assms by (intro bit_eqI) (auto simp: bit_simps)
  moreover have "unat (drop_bit k w AND mask 6) = unat w mod 2 ^ (k + 6) div 2 ^ k"
  proof -
    have "unat (drop_bit k w AND mask 6) = take_bit 6 (drop_bit k (unat w))"
      by (simp only: take_bit_eq_mask [symmetric] unsigned_take_bit_eq unat_drop_bit_eq)
    also have "\<dots> = drop_bit k (take_bit (k + 6) (unat w))"
      by (simp only: take_bit_drop_bit add.commute)
    finally show ?thesis by (simp only: take_bit_eq_mod drop_bit_eq_div)
  qed
  moreover have "(0x3F :: 32 word) = mask 6" by (simp add: mask_eq_exp_minus_1)
  ultimately show ?thesis by (simp add: b64_char_def)
qed

lemma shift_in: "unat (push_bit 8 w + of_nat (byte c) :: 32 word) = (256 * unat w + byte c) mod 2 ^ 32"
proof -
  have "push_bit 8 w + of_nat (byte c) = (of_nat (256 * unat w + byte c) :: 32 word)"
    by (simp add: push_bit_eq_mult mult.commute)
  then show ?thesis by (simp only: unat_of_nat) simp
qed

lemma shift_out: "unat (push_bit 8 w :: 32 word) = 256 * unat w mod 2 ^ 32"
  using shift_in [of w "CHR 0x00"] by (simp add: byte_def)

lemma mod_of_mod32: "j \<le> 32 \<Longrightarrow> (x mod 2 ^ 32) mod 2 ^ j = (x :: nat) mod 2 ^ j"
  by (rule mod_mod_cancel, rule le_imp_power_dvd)

lemmas mods32 = mod_of_mod32 [of 2, simplified] mod_of_mod32 [of 4, simplified]
  mod_of_mod32 [of 6, simplified] mod_of_mod32 [of 8, simplified] mod_of_mod32 [of 10, simplified]
  mod_of_mod32 [of 12, simplified]

lemma emit_more: "0 \<le> k \<Longrightarrow>
  b64_emit w k out = b64_emit w (k - 6) (out @ [b64_char (signed_drop_bit (nat k) w)])"
  by (subst b64_emit.simps) simp

lemma emit_end: "k < 0 \<Longrightarrow> b64_emit w k out = (k, out)"
  by (subst b64_emit.simps) simp

lemma emit_one: "0 \<le> k \<Longrightarrow> k < 6 \<Longrightarrow>
  b64_emit w k out = (k - 6, out @ [b64_char (signed_drop_bit (nat k) w)])"
  by (rule trans [OF emit_more emit_end]) simp_all

lemma emit_two: "b64_emit w 6 out =
  (-6, out @ [b64_char (signed_drop_bit 6 w), b64_char w])"
  using emit_more [of 6 w out] emit_one [of 0 w "out @ [b64_char (signed_drop_bit 6 w)]"] by simp

lemma sextet_0: "b64_char w = b64_lookup ! (unat w mod 64)"
  using sextet [of 0 w] by simp

lemmas sextets = sextet [of 2] sextet [of 4] sextet [of 6]

text \<open>The bits that are read, after one, two and three bytes.\<close>

lemma window_1: "(256 * v + a) mod 256 div 4 = a div 4" if "a < 256" for a v :: nat
  using that by simp

lemma window: "b < 256 \<Longrightarrow> (256 * v + b) mod (256 * m) = 256 * (v mod m) + b" for b v m :: nat
  by (simp only: mod_mult2_eq) simp

lemma window_2: "(256 * v + b) mod 1024 div 16 = v mod 4 * 16 + b div 16" if "b < 256" for b v :: nat
proof -
  have "(256 * v + b) mod 1024 = 256 * (v mod 4) + b" using window [OF that, of v 4] by simp
  then show ?thesis by simp
qed

lemma window_3: "(256 * v + c) mod 4096 div 64 = v mod 16 * 4 + c div 64" if "c < 256" for c v :: nat
proof -
  have "(256 * v + c) mod 4096 = 256 * (v mod 16) + c" using window [OF that, of v 16] by simp
  then show ?thesis by simp
qed

lemma window_4: "(256 * v + c) mod 64 = c mod 64" for c v :: nat
proof -
  have "256 * v + c = c + 64 * (4 * v)" by simp
  then show ?thesis by (simp only: mod_mult_self2)
qed

lemma low_2: "(256 * v + b) mod 4 = b mod 4" for b v :: nat
proof -
  have "256 * v + b = b + 4 * (64 * v)" by simp
  then show ?thesis by (simp only: mod_mult_self2)
qed

lemma low_4: "(256 * v + b) mod 16 = b mod 16" for b v :: nat
proof -
  have "256 * v + b = b + 16 * (16 * v)" by simp
  then show ?thesis by (simp only: mod_mult_self2)
qed

lemmas windows = window_1 [OF byte_less] window_2 [OF byte_less] window_3 [OF byte_less] window_4
  low_2 low_4

lemma b64_first:
  "b64_loop (c # s) w (-6) out =
   b64_loop s (push_bit 8 w + of_nat (byte c)) (-4) (out @ [b64_lookup ! (byte c div 4)])"
  using windows(1) [of "unat w" c] by (simp add: emit_one sextets shift_in mods32 Let_def)

lemma b64_second:
  "b64_loop (c # s) w (-4) out =
   b64_loop s (push_bit 8 w + of_nat (byte c)) (-2) (out @ [b64_lookup ! (unat w mod 4 * 16 + byte c div 16)])"
  using windows(2) [of "unat w" c] by (simp add: emit_one sextets shift_in mods32 Let_def)

lemma b64_third:
  "b64_loop (c # s) w (-2) out =
   b64_loop s (push_bit 8 w + of_nat (byte c)) (-6)
     (out @ [b64_lookup ! (unat w mod 16 * 4 + byte c div 64), b64_lookup ! (byte c mod 64)])"
  using windows(3) [of "unat w" c] windows(4) [of "unat w" "byte c"]
    sextet_0 [of "push_bit 8 w + of_nat (byte c)"]
  by (simp add: emit_two sextets shift_in mods32 Let_def)

definition b64_finish :: "32 word \<times> int \<times> string \<Rightarrow> string" where
  "b64_finish r = (case r of (val, valb, out) \<Rightarrow>
     b64_pad (if valb > -6
              then out @ [b64_char (signed_drop_bit (nat (valb + 8)) (push_bit 8 val))] else out))"

lemma pad_simps:
  "length out mod 4 = 0 \<Longrightarrow> b64_pad out = out"
  "length out mod 4 = 3 \<Longrightarrow> b64_pad out = out @ ''=''"
  "length out mod 4 = 2 \<Longrightarrow> b64_pad out = out @ ''==''"
proof -
  show a: "length out mod 4 = 0 \<Longrightarrow> b64_pad out = out" for out by (simp add: b64_pad.simps)
  show b: "length out mod 4 = 3 \<Longrightarrow> b64_pad out = out @ ''=''" for out
    using a [of "out @ ''=''"] by (subst b64_pad.simps) (simp add: mod_Suc)
  show "length out mod 4 = 2 \<Longrightarrow> b64_pad out = out @ ''==''" for out
    using b [of "out @ ''=''"] by (subst b64_pad.simps) (simp add: mod_Suc)
qed

lemma b64_groups:
  "length out mod 4 = 0 \<Longrightarrow> b64_finish (b64_loop s w (-6) out) = out @ rfc4648 s"
proof (induction s arbitrary: w out rule: rfc4648.induct)
  case 1
  then show ?case by (simp add: b64_finish_def pad_simps)
next
  case (2 a)
  then show ?case
    by (simp add: b64_first b64_finish_def pad_simps sextets shift_out shift_in mods32 mod_Suc
        window_2 [where b = 0, simplified] windows del: b64_loop.simps(2))
next
  case (3 a b)
  then show ?case
    by (simp add: b64_first b64_second b64_finish_def pad_simps sextets shift_out shift_in mods32 mod_Suc
        window_3 [where c = 0, simplified] windows del: b64_loop.simps(2))
next
  case (4 a b c s)
  then show ?case
    by (simp add: b64_first b64_second b64_third shift_in mods32 windows del: b64_loop.simps(2))
qed

text \<open>The base-64 loop, whose accumulator is an \<open>int\<close> that is shifted past its width, is the
  encoding of RFC 4648 for a string of any length.\<close>

theorem base64_is_rfc4648: "base64_encode s = rfc4648 s"
  using b64_groups [of "[]" s 0] by (simp add: base64_encode_def b64_finish_def)


subsection \<open>Cutting a string at a separator\<close>

fun split_on :: "'a \<Rightarrow> 'a list \<Rightarrow> 'a list list" where
  "split_on d [] = [[]]"
| "split_on d (c # s) =
     (if c = d then [] # split_on d s else (c # hd (split_on d s)) # tl (split_on d s))"

definition nonempty :: "'a list list \<Rightarrow> 'a list list" where
  "nonempty ps = filter (\<lambda>p. p \<noteq> []) ps"

lemma split_on_nonempty [simp]: "split_on d s \<noteq> []"
  by (cases s) auto

lemma nonempty_simps [simp]:
  "nonempty [] = []" "nonempty ([] # ps) = nonempty ps" "nonempty ((c # p) # ps) = (c # p) # nonempty ps"
  "nonempty (ps @ qs) = nonempty ps @ nonempty qs"
  by (simp_all add: nonempty_def)

lemma nonempty_Cons: "nonempty (p # ps) = nonempty [p] @ nonempty ps"
  by (cases p) simp_all

lemma split_on_plain: "d \<notin> set u \<Longrightarrow> split_on d (u @ s) = (u @ hd (split_on d s)) # tl (split_on d s)"
  by (induction u) auto

lemma split_on_whole: "d \<notin> set u \<Longrightarrow> split_on d u = [u]"
  using split_on_plain [of d u "[]"] by simp

lemma split_on_sep: "d \<notin> set u \<Longrightarrow> split_on d (u @ d # s) = u # split_on d s"
  using split_on_plain [of d u "d # s"] by simp

subsection \<open>Paths\<close>

definition components :: "string \<Rightarrow> string list" where
  "components path = nonempty (split_on slash path)"

text \<open>The directory a path leads to, as the list of the names from the root.\<close>

fun walk :: "string list \<Rightarrow> string list \<Rightarrow> string list" where
  "walk dir [] = dir"
| "walk dir (c # cs) =
     walk (if c = ''.'' then dir else if c = ''..'' then butlast dir else dir @ [c]) cs"

text \<open>No part of the path leaves the directory it starts in.\<close>

fun never_above :: "nat \<Rightarrow> string list \<Rightarrow> bool" where
  "never_above n [] = True"
| "never_above n (c # cs) =
     (if c = ''.'' then never_above n cs
      else if c = ''..'' then 0 < n \<and> never_above (n - 1) cs
      else never_above (n + 1) cs)"

lemma components_skip: "components (skip_slash s) = components s"
  by (induction s) (auto simp: components_def skip_slash_def)

lemma skip_slash_head: "skip_slash s = [] \<or> hd (skip_slash s) \<noteq> slash"
  using hd_dropWhile [of "\<lambda>c. c = slash" s] by (auto simp: skip_slash_def)

lemma components_step:
  assumes "s \<noteq> []" and "hd s \<noteq> slash"
  shows "components s =
    takeWhile (\<lambda>c. c \<noteq> slash) s # components (skip_slash (dropWhile (\<lambda>c. c \<noteq> slash) s))"
proof -
  let ?u = "takeWhile (\<lambda>c. c \<noteq> slash) s" and ?r = "dropWhile (\<lambda>c. c \<noteq> slash) s"
  have u: "slash \<notin> set ?u" by (auto dest: set_takeWhileD)
  obtain c u' where c: "?u = c # u'" using assms by (cases s) auto
  have s: "s = ?u @ ?r" by simp
  show ?thesis
  proof (cases ?r)
    case Nil
    then have "?u = s" by (simp add: takeWhile_eq_all_conv)
    then have "split_on slash s = [?u]" using split_on_whole [OF u] by metis
    then have "components s = [?u]" using c by (simp add: components_def)
    moreover have "components (skip_slash ?r) = []"
      unfolding Nil by (simp add: components_def skip_slash_def)
    ultimately show ?thesis by simp
  next
    case (Cons d r)
    then have d: "d = slash" using hd_dropWhile [of "\<lambda>c. c \<noteq> slash" s] by auto
    then have "split_on slash s = ?u # split_on slash r" using split_on_sep [OF u] s Cons by metis
    then have "components s = ?u # components r" using c by (simp add: components_def)
    moreover have "skip_slash ?r = skip_slash r" using Cons d by (simp add: skip_slash_def)
    ultimately show ?thesis by (simp add: components_skip)
  qed
qed

lemma valid_from_components:
  "s = [] \<or> hd s \<noteq> slash \<Longrightarrow> valid_from level s = Inr (never_above level (components s))"
proof (induction level s rule: valid_from.induct)
  case (1 level s)
  show ?case
  proof (cases "s = []")
    case True
    then show ?thesis by (simp add: valid_from.simps components_def)
  next
    case False
    let ?u = "takeWhile (\<lambda>c. c \<noteq> slash) s"
    let ?r = "skip_slash (dropWhile (\<lambda>c. c \<noteq> slash) s)"
    have u: "?u \<noteq> []" using False "1.prems" by (cases s) auto
    have r: "?r = [] \<or> hd ?r \<noteq> slash" by (rule skip_slash_head)
    note IH = "1.IH" [OF False refl refl u]
    show ?thesis
      using False u IH r "1.prems" components_step [OF False]
      by (simp add: valid_from.simps [of level s] Let_def)
  qed
qed

text \<open>The position loop decides this for every path; its assertion never fails.\<close>

lemma is_valid_path_exact: "is_valid_path path = Inr (never_above 0 (components path))"
  using valid_from_components [OF skip_slash_head, of 0 path]
  by (simp add: is_valid_path_def components_skip)

lemma walk_below:
  "never_above n cs \<Longrightarrow> n \<le> length dir \<Longrightarrow>
   \<exists>sub. walk (base @ dir) (take m cs) = base @ sub"
proof (induction cs arbitrary: n dir m)
  case (Cons c cs)
  show ?case
  proof (cases m)
    case (Suc k)
    show ?thesis
    proof (cases "c = ''..''")
      case True
      then have "0 < n" "never_above (n - 1) cs" using Cons.prems by auto
      then have "\<exists>sub. walk (base @ butlast dir) (take k cs) = base @ sub"
        using Cons.prems(2) by (intro Cons.IH [of "n - 1"]) auto
      moreover have "butlast (base @ dir) = base @ butlast dir"
        using \<open>0 < n\<close> Cons.prems(2) by (cases dir) (auto simp: butlast_append)
      ultimately show ?thesis using Suc True by simp
    next
      case False
      then show ?thesis
        using Suc Cons.prems Cons.IH [of n dir k] Cons.IH [of "n + 1" "dir @ [c]" k]
        by (auto split: if_splits)
    qed
  qed simp
qed simp

text \<open>When the check accepts a path, every directory on the way of the path, started in any
  directory, is in that directory or below it: serving files by it never leaves the mount point.\<close>

theorem valid_path_stays_below:
  assumes "is_valid_path path = Inr True"
  shows "\<exists>sub. walk base (take m (components path)) = base @ sub"
  using walk_below [of 0 "components path" "[]" base m] assms by (simp add: is_valid_path_exact)

lemma valid_path_stays_below_witness:
  "\<exists>sub. walk [''srv'', ''www''] (take 2 (components ''/a//../b'')) = [''srv'', ''www''] @ sub"
  by (rule valid_path_stays_below) code_simp

subsection \<open>Trimming and splitting\<close>

definition lstrip :: "string \<Rightarrow> string" where
  "lstrip s = dropWhile is_space_or_tab s"

definition strip :: "string \<Rightarrow> string" where
  "strip s = rev (lstrip (rev (lstrip s)))"

abbreviation blanks :: "string \<Rightarrow> bool" where
  "blanks u \<equiv> \<forall>c \<in> set u. is_space_or_tab c"

lemma trim_left_blanks:
  "blanks u \<Longrightarrow> m = [] \<or> \<not> is_space_or_tab (hd m) \<Longrightarrow> trim_left (p @ u @ m) (length p) = length p + length u"
proof (induction u arbitrary: p)
  case Nil
  then show ?case by (cases m) (simp_all add: trim_left.simps nth_append)
next
  case (Cons c u)
  have "trim_left ((p @ [c]) @ u @ m) (length (p @ [c])) = length (p @ [c]) + length u"
    using Cons.prems by (intro Cons.IH) auto
  then show ?case using Cons.prems by (subst trim_left.simps) (simp add: nth_append)
qed

lemma trim_right_blanks:
  "blanks v \<Longrightarrow> q = [] \<or> \<not> is_space_or_tab (last q) \<Longrightarrow>
   trim_right (q @ v @ rest) (length q + length v) = length q"
proof (induction v arbitrary: rest rule: rev_induct)
  case Nil
  show ?case
  proof (cases q rule: rev_cases)
    case (snoc q' c)
    then show ?thesis using Nil.prems by (simp add: nth_append)
  qed simp
next
  case (snoc c v)
  then show ?case using snoc.IH [of "c # rest"] by (simp add: nth_append)
qed

lemma strip_cases:
  obtains "blanks t" "strip t = []"
  | u m v where "t = u @ m @ v" "blanks u" "blanks v" "strip t = m" "m \<noteq> []"
      "\<not> is_space_or_tab (hd m)" "\<not> is_space_or_tab (last m)"
proof (cases "lstrip t = []")
  case True
  then have "blanks t" by (simp add: lstrip_def)
  moreover have "strip t = []" using True by (simp add: strip_def) (simp add: lstrip_def)
  ultimately show thesis by (rule that(1))
next
  case False
  let ?u = "takeWhile is_space_or_tab t" and ?l = "lstrip t"
  let ?v = "rev (takeWhile is_space_or_tab (rev ?l))" and ?m = "strip t"
  have l: "?l = ?m @ ?v"
    by (metis lstrip_def rev_append rev_rev_ident strip_def takeWhile_dropWhile_id)
  have hl: "\<not> is_space_or_tab (hd ?l)" using False hd_dropWhile [of is_space_or_tab t] by (simp add: lstrip_def)
  have v: "blanks ?v" by (auto dest: set_takeWhileD)
  have m: "?m \<noteq> []" using l hl v False by (metis append_Nil hd_in_set)
  have "last ?m = hd (lstrip (rev ?l))" by (simp add: strip_def last_rev)
  then have lm: "\<not> is_space_or_tab (last ?m)"
    using m hd_dropWhile [of is_space_or_tab "rev ?l"] by (simp add: strip_def lstrip_def)
  have "hd ?m = hd ?l" using l m by (metis hd_append2)
  moreover have "t = ?u @ ?m @ ?v" using l by (metis lstrip_def takeWhile_dropWhile_id)
  moreover have "blanks ?u" by (auto dest: set_takeWhileD)
  ultimately show thesis using that(2) [of ?u ?m ?v] v m hl lm by simp
qed

lemma piece_strip: "piece (p @ t @ r) (length p) (length p + length t) = nonempty [strip t]"
proof (cases t rule: strip_cases)
  case 1
  obtain u m where um: "r = u @ m" "blanks u" "m = [] \<or> \<not> is_space_or_tab (hd m)"
    by (metis hd_dropWhile set_takeWhileD takeWhile_dropWhile_id)
  have "trim_left (p @ (t @ u) @ m) (length p) = length p + length (t @ u)"
    using 1 um by (intro trim_left_blanks) auto
  then have l: "trim_left (p @ t @ r) (length p) \<ge> length p + length t" using um by simp
  have "trim_right s i \<le> i" for s i by (induction s i rule: trim_right.induct) auto
  then have "trim_right (p @ t @ r) (length p + length t) \<le> length p + length t" .
  with l 1 show ?thesis by (simp add: piece_def trim_def)
next
  case (2 u m v)
  have l: "trim_left (p @ u @ (m @ v @ r)) (length p) = length p + length u"
    using 2 by (intro trim_left_blanks) auto
  have r: "trim_right ((p @ u @ m) @ v @ r) (length (p @ u @ m) + length v) = length (p @ u @ m)"
    using 2 by (intro trim_right_blanks) auto
  show ?thesis using l r 2 by (cases m) (simp_all add: piece_def trim_def substr_def add.assoc)
qed

lemma split_loop_pieces:
  "d \<notin> set u \<Longrightarrow>
   split_loop (p @ u @ w) d (length p + length u) (length p) =
   (if p @ u @ w = [] then [] else nonempty (map strip (split_on d (u @ w))))"
proof (induction w arbitrary: p u)
  case Nil
  then show ?case using piece_strip [of p u "[]"]
    by (auto simp: split_loop.simps split_on_whole)
next
  case (Cons c w)
  show ?case
  proof (cases "c = d")
    case True
    have "split_loop ((p @ u @ [c]) @ [] @ w) d (length (p @ u @ [c]) + length ([] :: string)) (length (p @ u @ [c])) =
          nonempty (map strip (split_on d w))"
      using Cons.IH [of "[]" "p @ u @ [c]"] by simp
    then show ?thesis using True Cons.prems piece_strip [of p u "c # w"] split_on_sep [OF Cons.prems, of w]
        nonempty_Cons [of "strip u" "map strip (split_on d w)"]
      by (subst split_loop.simps) (simp add: nth_append add.assoc)
  next
    case False
    then show ?thesis using Cons.IH [of "u @ [c]" p] Cons.prems
      by (subst split_loop.simps) (simp add: nth_append)
  qed
qed

lemma split_eq: "split s d = nonempty (map strip (split_on d s))"
  using split_loop_pieces [of d "[]" "[]" s] by (auto simp: split_def strip_def lstrip_def)

text \<open>The index loop of \<open>split\<close> calls its function on the pieces between the separators, in order,
  each stripped of blanks, leaving out those that are empty then.\<close>

theorem split_pieces: "split s d = nonempty (map strip (split_on d s))"
  by (rule split_eq)

lemma trim_copy_strip: "trim_copy s = strip s"
proof (cases s rule: strip_cases)
  case 1
  have "trim_left ([] @ s @ []) (length ([] :: string)) = length ([] :: string) + length s"
    using 1 by (intro trim_left_blanks) auto
  moreover have "trim_right ([] @ s @ []) (length ([] :: string) + length s) = length ([] :: string)"
    using 1 by (intro trim_right_blanks) auto
  ultimately show ?thesis using 1 by (auto simp: trim_copy_def trim_def substr_def)
next
  case (2 u m v)
  have "trim_left ([] @ u @ (m @ v)) (length ([] :: string)) = length ([] :: string) + length u"
    using 2 by (intro trim_left_blanks) auto
  moreover have "trim_right ((u @ m) @ v @ []) (length (u @ m) + length v) = length (u @ m)"
    using 2 by (intro trim_right_blanks) auto
  ultimately show ?thesis using 2 by (simp add: trim_copy_def trim_def substr_def add.assoc)
qed


end
