(* ===== verification/Http_Query.thy ===== *)
theory Http_Query
  imports Http_Text_Laws
begin

text \<open>
  Query strings and form data of \<open>httplib.h\<close>: \<open>params_to_query_str\<close> and \<open>parse_query_text\<close>, the
  parameters of a \<open>Content-Disposition\<close> header, the boundary of a multipart body and the text of such
  a body. The set \<open>cache\<close> holds the pieces already seen.
\<close>

subsection \<open>Definitions\<close>

fun params_to_query_str :: "Params \<Rightarrow> string" where
  "params_to_query_str [] = []"
| "params_to_query_str [p] = fst p @ ''='' @ encode_query_param (snd p)"
| "params_to_query_str (p # q # ps) =
     fst p @ ''='' @ encode_query_param (snd p) @ ''&'' @ params_to_query_str (q # ps)"

text \<open>The inner callback: the first piece is the key, every other one is assigned to the value.\<close>

definition key_value :: "string \<Rightarrow> string \<times> string" where
  "key_value kv =
     fold (\<lambda>p (key, val). if key = [] then (p, val) else (key, p)) (split kv (CHR ''='')) ([], [])"

definition query_step :: "string \<Rightarrow> string set \<times> Params \<Rightarrow> string set \<times> Params" where
  "query_step kv st =
     (case st of (cache, params) \<Rightarrow>
        if kv \<in> cache then (cache, params)
        else (case key_value kv of (key, val) \<Rightarrow>
                (insert kv cache,
                 if key \<noteq> []
                 then mm_emplace str_less (decode_url key True) (decode_url val True) params
                 else params)))"

definition parse_query_text :: "string \<Rightarrow> Params \<Rightarrow> Params" where
  "parse_query_text s params = snd (fold query_step (split s (CHR ''&'')) ({}, params))"

text \<open>The first component is the result, the second the boundary read. A missing semicolon makes the
  length of \<open>substr\<close> wrap: the boundary goes up to the end.\<close>

definition parse_multipart_boundary :: "string \<Rightarrow> string \<Rightarrow> bool \<times> string" where
  "parse_multipart_boundary content_type boundary =
     (case str_find ''boundary='' content_type 0 of
        None \<Rightarrow> (False, boundary)
      | Some pos \<Rightarrow>
          (let beg = pos + 9;
               b = (case str_find '';'' content_type pos of
                      None \<Rightarrow> drop beg content_type
                    | Some e \<Rightarrow> substr content_type beg (e - beg));
               b' = trim_double_quotes_copy b
           in (b' \<noteq> [], b')))"

definition disposition_step :: "string \<Rightarrow> string set \<times> Params \<Rightarrow> string set \<times> Params" where
  "disposition_step kv st =
     (case st of (cache, params) \<Rightarrow>
        if kv \<in> cache then (cache, params)
        else (case key_value kv of (key, val) \<Rightarrow>
                (insert kv cache,
                 if key \<noteq> []
                 then mm_emplace str_less (trim_double_quotes_copy key) (trim_double_quotes_copy val) params
                 else params)))"

definition parse_disposition_params :: "string \<Rightarrow> Params \<Rightarrow> Params" where
  "parse_disposition_params s params = snd (fold disposition_step (split s (CHR '';'')) ({}, params))"

text \<open>\<open>engine() % 62\<close> sixteen times, with the numbers the generator gives as an argument.\<close>

definition boundary_alphabet :: string where
  "boundary_alphabet = ''0123456789ABCDEFGHIJKLMNOPQRSTUVWXYZabcdefghijklmnopqrstuvwxyz''"

definition make_multipart_data_boundary :: "(nat \<Rightarrow> nat) \<Rightarrow> string" where
  "make_multipart_data_boundary engine =
     ''--cpp-httplib-multipart-data-'' @ map (\<lambda>i. boundary_alphabet ! (engine i mod 62)) [0..<16]"

fun is_multipart_boundary_chars_valid :: "string \<Rightarrow> bool" where
  "is_multipart_boundary_chars_valid [] = True"
| "is_multipart_boundary_chars_valid (c # s) =
     (if \<not> is_alnum c \<and> c \<noteq> CHR ''-'' \<and> c \<noteq> CHR ''_'' then False
      else is_multipart_boundary_chars_valid s)"

definition crlf :: string where
  "crlf = [CHR 0x0D, CHR 0x0A]"

definition serialize_multipart_formdata_item_begin :: "MultipartFormData \<Rightarrow> string \<Rightarrow> string" where
  "serialize_multipart_formdata_item_begin item boundary =
     ''--'' @ boundary @ crlf
     @ ''Content-Disposition: form-data; name='' @ [CHR 0x22] @ mf_name item @ [CHR 0x22]
     @ (if mf_filename item \<noteq> []
        then ''; filename='' @ [CHR 0x22] @ mf_filename item @ [CHR 0x22] else [])
     @ crlf
     @ (if mf_content_type item \<noteq> [] then ''Content-Type: '' @ mf_content_type item @ crlf else [])
     @ crlf"

definition serialize_multipart_formdata_item_end :: string where
  "serialize_multipart_formdata_item_end = crlf"

definition serialize_multipart_formdata_finish :: "string \<Rightarrow> string" where
  "serialize_multipart_formdata_finish boundary = ''--'' @ boundary @ ''--'' @ crlf"

definition serialize_multipart_formdata_get_content_type :: "string \<Rightarrow> string" where
  "serialize_multipart_formdata_get_content_type boundary = ''multipart/form-data; boundary='' @ boundary"

definition serialize_multipart_formdata :: "MultipartFormData list \<Rightarrow> string \<Rightarrow> bool \<Rightarrow> string" where
  "serialize_multipart_formdata items boundary finish =
     concat (map (\<lambda>item. serialize_multipart_formdata_item_begin item boundary
                         @ mf_content item @ serialize_multipart_formdata_item_end) items)
     @ (if finish then serialize_multipart_formdata_finish boundary else [])"

text \<open>The leftmost way to match \<open>[^?]+\?.*\<close>; the period does not match a line end.\<close>

definition has_query :: "string \<Rightarrow> bool" where
  "has_query path \<longleftrightarrow>
     (let rest = dropWhile (\<lambda>c. c \<noteq> CHR ''?'') path
      in takeWhile (\<lambda>c. c \<noteq> CHR ''?'') path \<noteq> [] \<and> rest \<noteq> [] \<and>
         CHR 0x0A \<notin> set rest \<and> CHR 0x0D \<notin> set rest)"

definition append_query_params :: "string \<Rightarrow> Params \<Rightarrow> string" where
  "append_query_params path params =
     path @ [if has_query path then CHR ''&'' else CHR ''?''] @ params_to_query_str params"

subsection \<open>Round trips\<close>

definition entry :: "string \<times> string \<Rightarrow> string" where
  "entry p = fst p @ ''='' @ encode_query_param (snd p)"

text \<open>A key of \<open>query_char\<close>s is written and read as it is.\<close>

definition plain_key :: "string \<Rightarrow> bool" where
  "plain_key k \<longleftrightarrow> k \<noteq> [] \<and> list_all query_char k"

definition entry_char :: "char \<Rightarrow> bool" where
  "entry_char c \<longleftrightarrow> query_char c \<or> c = CHR ''%''"

definition word_char :: "char \<Rightarrow> bool" where
  "word_char c \<longleftrightarrow> \<not> is_space_or_tab c \<and> c \<noteq> CHR ''&'' \<and> c \<noteq> CHR ''=''"

lemma query_char_word: "query_char c \<Longrightarrow> word_char c"
  by (auto simp: query_char_def is_alnum_def byte_def is_space_or_tab_def word_char_def)

lemma entry_char_word: "entry_char c \<Longrightarrow> word_char c"
  using query_char_word [of c] by (auto simp: entry_char_def is_space_or_tab_def word_char_def)

lemma upper_hex_entry_char: "d < 16 \<Longrightarrow> entry_char (upper_hex_char d)"
  by (erule less_16_cases)
    (simp_all add: upper_hex_char_def entry_char_def query_char_def is_alnum_def byte_def)

lemma encode_entry_chars: "list_all entry_char (encode_query_param s)"
proof -
  have "list_all entry_char (encode_query_char c)" for c
    using byte_less [of c] upper_hex_entry_char [of "byte c div 16"] upper_hex_entry_char [of "byte c mod 16"]
    by (auto simp: encode_query_char_def hex2_def entry_char_def)
  then show ?thesis by (induction s) (auto simp: encode_query_param_def)
qed

lemma strip_word: "list_all (\<lambda>c. \<not> is_space_or_tab c) s \<Longrightarrow> strip s = s"
proof -
  assume s: "list_all (\<lambda>c. \<not> is_space_or_tab c) s"
  have d: "list_all (\<lambda>c. \<not> is_space_or_tab c) l \<Longrightarrow> dropWhile is_space_or_tab l = l" for l
    by (cases l) auto
  have "dropWhile is_space_or_tab s = s" "dropWhile is_space_or_tab (rev s) = rev s"
    using d [of s] d [of "rev s"] s by (simp_all add: list_all_iff)
  then show ?thesis by (simp add: strip_def lstrip_def)
qed

lemma words:
  assumes "list_all word_char s"
  shows "strip s = s" and "CHR ''&'' \<notin> set s" and "CHR ''='' \<notin> set s"
proof -
  have w: "\<And>c. c \<in> set s \<Longrightarrow> word_char c" using assms by (simp add: list_all_iff)
  show "strip s = s" by (rule strip_word) (use w in \<open>simp add: list_all_iff word_char_def\<close>)
  show "CHR ''&'' \<notin> set s" "CHR ''='' \<notin> set s" using w by (auto simp: word_char_def)
qed

lemma query_word: "list_all query_char s \<Longrightarrow> list_all word_char s"
  using query_char_word by (simp add: list_all_iff)

lemma encode_word: "list_all word_char (encode_query_param s)"
  using encode_entry_chars [of s] entry_char_word by (simp add: list_all_iff)

lemma decode_plain_key: "list_all query_char k \<Longrightarrow> decode_url k True = k"
  by (induction k) (auto simp: query_char_plain)

lemma encode_Nil_iff: "encode_query_param s = [] \<longleftrightarrow> s = []"
  by (cases s) (auto simp: encode_query_param_def encode_query_char_def)

lemma entry_split:
  "plain_key k \<Longrightarrow> split_on (CHR ''='') (entry (k, v)) = [k, encode_query_param v]"
  using split_on_sep [of "CHR ''=''" k "encode_query_param v"] words(3) [OF query_word, of k]
    split_on_whole [OF words(3) [OF encode_word]]
  by (simp add: entry_def plain_key_def)

lemma entry_inj: "plain_key (fst p) \<Longrightarrow> plain_key (fst q) \<Longrightarrow> entry p = entry q \<Longrightarrow> p = q"
proof -
  assume k: "plain_key (fst p)" "plain_key (fst q)" and e: "entry p = entry q"
  have "[fst p, encode_query_param (snd p)] = [fst q, encode_query_param (snd q)]"
    using entry_split [OF k(1), of "snd p"] entry_split [OF k(2), of "snd q"] e by simp
  then have f: "fst p = fst q" and e: "encode_query_param (snd p) = encode_query_param (snd q)" by simp_all
  have "snd p = snd q"
    using arg_cong [OF e, of "\<lambda>s. decode_url s True"] by (simp only: decode_encode)
  with f show "p = q" by (simp add: prod_eq_iff)
qed

lemma entry_word: "plain_key (fst p) \<Longrightarrow> entry p \<noteq> [] \<and> strip (entry p) = entry p \<and> CHR ''&'' \<notin> set (entry p)"
proof -
  assume k: "plain_key (fst p)"
  have w: "list_all word_char (fst p)" "list_all word_char (encode_query_param (snd p))"
    using k by (simp_all add: plain_key_def query_word encode_word)
  have "strip (entry p) = entry p"
  proof (rule strip_word)
    show "list_all (\<lambda>c. \<not> is_space_or_tab c) (entry p)"
      using w by (simp add: entry_def list_all_iff word_char_def is_space_or_tab_def ball_Un)
  qed
  then show ?thesis using words(2) [OF w(1)] words(2) [OF w(2)] by (simp add: entry_def)
qed

lemma key_value_entry:
  assumes "plain_key k"
  shows "key_value (entry (k, v)) = (k, encode_query_param v)"
proof -
  let ?e = "encode_query_param v"
  have k: "strip k = k" "k \<noteq> []" using assms words(1) [OF query_word, of k] by (simp_all add: plain_key_def)
  have e: "strip ?e = ?e" by (rule words(1) [OF encode_word])
  have "split (entry (k, v)) (CHR ''='') = k # nonempty [?e]"
    using k e entry_split [OF assms, of v] by (simp add: split_eq nonempty_def)
  then show ?thesis using k(2) by (cases ?e) (simp_all add: key_value_def)
qed

lemma split_query:
  "list_all (\<lambda>p. plain_key (fst p)) ps \<Longrightarrow> split (params_to_query_str ps) (CHR ''&'') = map entry ps"
proof (induction ps rule: params_to_query_str.induct)
  case 1
  show ?case by (simp add: split_def split_loop.simps)
next
  case (2 p)
  then have w: "entry p \<noteq> []" "strip (entry p) = entry p" "CHR ''&'' \<notin> set (entry p)"
    using entry_word [of p] by auto
  have "params_to_query_str [p] = entry p" by (simp add: entry_def)
  then show ?case using w split_on_whole [OF w(3)] by (cases "entry p") (simp_all add: split_eq)
next
  case (3 p q ps)
  then have w: "entry p \<noteq> []" "strip (entry p) = entry p" "CHR ''&'' \<notin> set (entry p)"
    using entry_word [of p] by auto
  have "params_to_query_str (p # q # ps) = entry p @ CHR ''&'' # params_to_query_str (q # ps)"
    by (simp add: entry_def)
  then have "split (params_to_query_str (p # q # ps)) (CHR ''&'') =
             entry p # split (params_to_query_str (q # ps)) (CHR ''&'')"
    using w(1,2) split_on_sep [OF w(3), of "params_to_query_str (q # ps)"]
      nonempty_Cons [of "entry p"] by (simp add: split_eq nonempty_def del: params_to_query_str.simps)
  then show ?case using 3 by simp
qed

lemma fold_query_entries:
  "list_all (\<lambda>p. plain_key (fst p)) ps \<Longrightarrow> distinct (map entry ps) \<Longrightarrow> set (map entry ps) \<inter> cache = {} \<Longrightarrow>
   snd (fold query_step (map entry ps) (cache, params)) =
   fold (\<lambda>p. mm_emplace str_less (fst p) (snd p)) ps params"
proof (induction ps arbitrary: cache params)
  case (Cons p ps)
  obtain k v where p: "p = (k, v)" by (cases p)
  have k: "plain_key k" using Cons.prems(1) p by simp
  have "query_step (entry p) (cache, params) = (insert (entry p) cache, mm_emplace str_less k v params)"
    using Cons.prems(3) k p key_value_entry [OF k, of v] decode_plain_key [of k] decode_encode [of v True]
    by (simp add: query_step_def plain_key_def)
  then show ?case using Cons p by simp
qed simp

lemma parse_query_params:
  assumes "list_all (\<lambda>p. plain_key (fst p)) ps" and "distinct ps" and "mm_sorted str_less ps"
  shows "parse_query_text (params_to_query_str ps) [] = ps"
proof -
  have "inj_on entry (set ps)"
    using assms(1) entry_inj by (intro inj_onI) (auto simp: list_all_iff)
  then have "distinct (map entry ps)" using assms(2) by (simp add: distinct_map)
  then show ?thesis
    using fold_query_entries [OF assms(1), of "{}" "[]"] less.emplace_all [of "[]" ps] assms(3)
    by (simp add: parse_query_text_def split_query [OF assms(1)])
qed

text \<open>Reading the query string written for a multimap of parameters gives the multimap back, with
  the order of the values of a key, when the keys need no encoding and no entry occurs twice.\<close>

theorem query_string_roundtrip:
  assumes "list_all (\<lambda>p. plain_key (fst p)) ps" and "distinct ps" and "mm_sorted str_less ps"
  shows "parse_query_text (params_to_query_str ps) [] = ps"
  using assms by (rule parse_query_params)

lemma query_string_roundtrip_witness:
  "parse_query_text (params_to_query_str [(''a'', ''1 + 1=2''), (''a'', []), (''b'', ''&'')]) [] =
   [(''a'', ''1 + 1=2''), (''a'', []), (''b'', ''&'')]"
  by (rule query_string_roundtrip) (code_simp, code_simp, simp add: mm_sorted_def str_less_irrefl byte_def)

text \<open>A key is written without being encoded, and every piece after the key replaces the value.\<close>

lemma query_key_not_encoded:
  "parse_query_text (params_to_query_str [(''a&b'', ''1'')]) [] = [(''a'', []), (''b'', ''1'')]"
  by code_simp

lemma query_value_with_equals: "parse_query_text ''q=1=2'' [] = [(''q'', ''2'')]"
  by code_simp


end
