(* ===== verification/Http_Ranges.thy ===== *)
theory Http_Ranges
  imports Http_Query
begin

text \<open>
  Byte ranges of \<open>httplib.h\<close>: reading and writing the \<open>Range\<close> header, the part of the content a range
  stands for, and the \<open>multipart/byteranges\<close> body with its length. A \<open>ssize_t\<close> is an integer,
  converted to and from \<open>size_t\<close> at 64 bits.
\<close>

subsection \<open>The Range header\<close>

text \<open>\<open>\d*-\d*(?:,\s*\d*-\d*)*\<close> up to the end of the string.\<close>

definition one_range :: "string \<Rightarrow> string option" where
  "one_range s =
     (let r = dropWhile is_digit s
      in if r \<noteq> [] \<and> hd r = CHR ''-'' then Some (dropWhile is_digit (tl r)) else None)"

lemma one_range_shorter: "one_range s = Some r \<Longrightarrow> length r < length s"
proof -
  assume "one_range s = Some r"
  then obtain c t where t: "dropWhile is_digit s = c # t" and r: "r = dropWhile is_digit t"
    by (cases "dropWhile is_digit s") (auto simp: one_range_def Let_def split: if_splits)
  have "length r \<le> length t" using r by (simp add: length_dropWhile_le)
  moreover have "length (c # t) \<le> length s" using length_dropWhile_le [of is_digit s] t by simp
  ultimately show ?thesis by simp
qed

function match_ranges :: "string \<Rightarrow> bool" where
  "match_ranges s =
     (case one_range s of
        None \<Rightarrow> False
      | Some [] \<Rightarrow> True
      | Some (c # r) \<Rightarrow> c = CHR '','' \<and> match_ranges (dropWhile is_space r))"
  by pat_completeness auto
termination
  by (relation "measure length")
    (auto dest!: one_range_shorter intro: le_less_trans [OF length_dropWhile_le])

declare match_ranges.simps [simp del]

text \<open>The groups of \<open>\s*(\d*)-(\d*)\<close> on a whole piece.\<close>

definition match_range :: "string \<Rightarrow> (string \<times> string) option" where
  "match_range p =
     (let s = dropWhile is_space p; r = dropWhile is_digit s
      in if r \<noteq> [] \<and> hd r = CHR ''-'' \<and> dropWhile is_digit (tl r) = []
         then Some (takeWhile is_digit s, tl r) else None)"

text \<open>The number a group stands for, -1 when it is empty; \<open>None\<close> when \<open>stoll\<close> throws.\<close>

definition bound_of :: "string \<Rightarrow> int option" where
  "bound_of ds =
     (if ds = [] then Some (-1) else if dec_val ds \<ge> 2 ^ 63 then None else Some (int (dec_val ds)))"

text \<open>The calls of the callback of \<open>split\<close>; an exception ends them and the result is false.\<close>

fun range_loop :: "string list \<Rightarrow> bool \<Rightarrow> (int \<times> int) list \<Rightarrow> bool \<times> (int \<times> int) list" where
  "range_loop [] all_valid ranges = (all_valid, ranges)"
| "range_loop (p # ps) all_valid ranges =
     (if \<not> all_valid then range_loop ps all_valid ranges
      else case match_range p of
        None \<Rightarrow> range_loop ps all_valid ranges
      | Some (a, b) \<Rightarrow>
          (case bound_of a of
             None \<Rightarrow> (False, ranges)
           | Some first \<Rightarrow>
               (case bound_of b of
                  None \<Rightarrow> (False, ranges)
                | Some lst \<Rightarrow>
                    if first \<noteq> -1 \<and> lst \<noteq> -1 \<and> first > lst
                    then range_loop ps False ranges
                    else range_loop ps all_valid (ranges @ [(first, lst)]))))"

definition parse_range_header :: "string \<Rightarrow> (int \<times> int) list \<Rightarrow> bool \<times> (int \<times> int) list" where
  "parse_range_header s ranges =
     (if take 6 s = ''bytes='' \<and> match_ranges (drop 6 s)
      then range_loop (split (drop 6 s) (CHR '','')) True ranges
      else (False, ranges))"

text \<open>\<open>std::to_string\<close> of a number that is not negative.\<close>

definition show_bound :: "int \<Rightarrow> string" where
  "show_bound i = (if i < 0 then CHR ''-'' # dec (nat (- i)) else dec (nat i))"

definition show_range :: "int \<times> int \<Rightarrow> string" where
  "show_range r =
     (if fst r \<noteq> -1 then show_bound (fst r) else []) @ ''-''
     @ (if snd r \<noteq> -1 then show_bound (snd r) else [])"

fun show_ranges :: "(int \<times> int) list \<Rightarrow> string" where
  "show_ranges [] = []"
| "show_ranges [r] = show_range r"
| "show_ranges (r # s # rs) = show_range r @ '', '' @ show_ranges (s # rs)"

definition make_range_header :: "(int \<times> int) list \<Rightarrow> string \<times> string" where
  "make_range_header ranges = (''Range'', ''bytes='' @ show_ranges ranges)"

subsection \<open>The content a range stands for\<close>

definition usize :: "int \<Rightarrow> nat" where
  "usize i = nat (i mod 2 ^ 64)"

definition get_range_offset_and_length :: "(int \<times> int) list \<Rightarrow> nat \<Rightarrow> nat \<Rightarrow> nat \<times> nat" where
  "get_range_offset_and_length ranges content_length index =
     (case ranges ! index of
        (first, lst) \<Rightarrow>
          if first = -1 \<and> lst = -1 then (0, content_length)
          else
            (let slen = ssize content_length;
                 (f1, l1) = (if first = -1 then (max 0 (slen - lst), slen - 1) else (first, lst));
                 l2 = (if l1 = -1 then slen - 1 else l1)
             in (usize f1, usize (int (usize (l2 - f1)) + 1))))"

definition make_content_range_header_field :: "int \<times> int \<Rightarrow> nat \<Rightarrow> string" where
  "make_content_range_header_field rng content_length =
     ''bytes ''
     @ (if fst rng \<noteq> -1 then show_bound (fst rng) else [])
     @ ''-''
     @ (if snd rng \<noteq> -1 then show_bound (snd rng) else [])
     @ ''/'' @ dec content_length"

subsection \<open>Several ranges\<close>

text \<open>One function for the three instances of the template: \<open>token\<close> is called for every piece of
  text (\<open>stoken\<close> and \<open>ctoken\<close> are the same in each of them), \<open>content\<close> for every range.\<close>

definition part_header :: "string \<Rightarrow> string \<Rightarrow> int \<times> int \<Rightarrow> nat \<Rightarrow> string list" where
  "part_header boundary content_type rng content_length =
     [''--'', boundary, crlf]
     @ (if content_type \<noteq> [] then [''Content-Type: '', content_type, crlf] else [])
     @ [''Content-Range: '', make_content_range_header_field rng content_length, crlf, crlf]"

fun process_parts ::
  "(int \<times> int) list \<Rightarrow> nat \<Rightarrow> string \<Rightarrow> string \<Rightarrow> (string \<Rightarrow> 's \<Rightarrow> 's) \<Rightarrow>
   (nat \<Rightarrow> nat \<Rightarrow> 's \<Rightarrow> bool \<times> 's) \<Rightarrow> nat list \<Rightarrow> 's \<Rightarrow> bool \<times> 's" where
  "process_parts ranges content_length boundary content_type token content [] s = (True, s)"
| "process_parts ranges content_length boundary content_type token content (i # ks) s =
     (let s1 = fold token (part_header boundary content_type (ranges ! i) content_length) s;
          (offset, len) = get_range_offset_and_length ranges content_length i
      in case content offset len s1 of
           (False, s2) \<Rightarrow> (False, s2)
         | (True, s2) \<Rightarrow>
             process_parts ranges content_length boundary content_type token content ks (token crlf s2))"

definition process_multipart_ranges_data ::
  "'w Request \<Rightarrow> 'w Response \<Rightarrow> string \<Rightarrow> string \<Rightarrow> (string \<Rightarrow> 's \<Rightarrow> 's) \<Rightarrow>
   (nat \<Rightarrow> nat \<Rightarrow> 's \<Rightarrow> bool \<times> 's) \<Rightarrow> 's \<Rightarrow> bool \<times> 's" where
  "process_multipart_ranges_data req res boundary content_type token content s =
     (case process_parts (rq_ranges req) (rs_content_length res) boundary content_type token content
             [0..<length (rq_ranges req)] s of
        (False, s') \<Rightarrow> (False, s')
      | (True, s') \<Rightarrow> (True, fold token [''--'', boundary, ''--''] s'))"

definition make_multipart_ranges_data ::
  "'w Request \<Rightarrow> 'w Response \<Rightarrow> string \<Rightarrow> string \<Rightarrow> string \<Rightarrow> bool \<times> string" where
  "make_multipart_ranges_data req res boundary content_type data =
     process_multipart_ranges_data req res boundary content_type (\<lambda>t d. d @ t)
       (\<lambda>offset len d. if offset < length (rs_body res)
                       then (True, d @ substr (rs_body res) offset len) else (False, d)) data"

definition get_multipart_ranges_data_length ::
  "'w Request \<Rightarrow> 'w Response \<Rightarrow> string \<Rightarrow> string \<Rightarrow> nat" where
  "get_multipart_ranges_data_length req res boundary content_type =
     snd (process_multipart_ranges_data req res boundary content_type
            (\<lambda>t n. (n + length t) mod 2 ^ 64) (\<lambda>offset len n. (True, (n + len) mod 2 ^ 64)) 0)"

definition expect_content :: "'w Request \<Rightarrow> bool" where
  "expect_content req \<longleftrightarrow>
     rq_method req \<in> {''POST'', ''PUT'', ''PATCH'', ''PRI'', ''DELETE''}"

subsection \<open>Reading back a Range header\<close>

definition valid_range :: "int \<times> int \<Rightarrow> bool" where
  "valid_range r \<longleftrightarrow>
     -1 \<le> fst r \<and> fst r < 2 ^ 63 \<and> -1 \<le> snd r \<and> snd r < 2 ^ 63 \<and>
     \<not> (fst r \<noteq> -1 \<and> snd r \<noteq> -1 \<and> fst r > snd r)"

definition bound_text :: "int \<Rightarrow> string" where
  "bound_text i = (if i \<noteq> -1 then show_bound i else [])"

lemma show_range_text: "show_range r = bound_text (fst r) @ ''-'' @ bound_text (snd r)"
  by (simp add: show_range_def bound_text_def)

lemma bound_digits: "-1 \<le> i \<Longrightarrow> list_all is_digit (bound_text i)"
  using dec_digits by (auto simp: bound_text_def show_bound_def list_all_iff)

lemma bound_read: "-1 \<le> i \<Longrightarrow> i < 2 ^ 63 \<Longrightarrow> bound_of (bound_text i) = Some i"
  by (auto simp: bound_of_def bound_text_def show_bound_def)

lemma dash_not_digit [simp]: "\<not> is_digit (CHR ''-'')"
  by (simp add: is_digit_def)

lemma digits_then: "list_all is_digit u \<Longrightarrow> \<not> is_digit c \<Longrightarrow>
   dropWhile is_digit (u @ c # t) = c # t \<and> takeWhile is_digit (u @ c # t) = u"
  by (induction u) auto

lemma digits_all: "list_all is_digit u \<Longrightarrow> t = [] \<or> \<not> is_digit (hd t) \<Longrightarrow> dropWhile is_digit (u @ t) = t"
  by (cases t) (auto simp: list_all_iff digits_then)

lemma one_range_show:
  assumes "valid_range r" and "t = [] \<or> \<not> is_digit (hd t)"
  shows "one_range (show_range r @ t) = Some t"
proof -
  have "list_all is_digit (bound_text (fst r))" "list_all is_digit (bound_text (snd r))"
    using assms(1) bound_digits by (simp_all add: valid_range_def)
  then show ?thesis using digits_then digits_all assms(2) by (simp add: one_range_def show_range_text)
qed

lemma digit_not_blank: "is_digit c \<Longrightarrow> \<not> is_space c \<and> \<not> is_space_or_tab c \<and> c \<noteq> CHR '',''"
  using digit_not_space [of c] by (auto simp: is_digit_def is_space_or_tab_def)

lemma show_range_chars:
  assumes "valid_range r" and "c \<in> set (show_range r)"
  shows "\<not> is_space c \<and> \<not> is_space_or_tab c \<and> c \<noteq> CHR '',''"
proof -
  have "list_all is_digit (bound_text (fst r))" "list_all is_digit (bound_text (snd r))"
    using assms(1) bound_digits by (simp_all add: valid_range_def)
  then have "is_digit c \<or> c = CHR ''-''" using assms(2) by (auto simp: show_range_text list_all_iff)
  then show ?thesis using digit_not_blank by (auto simp: is_space_def is_space_or_tab_def)
qed

lemma show_range_nonempty: "show_range r \<noteq> []"
  by (simp add: show_range_text)

lemma match_range_show: "valid_range r \<Longrightarrow> match_range (show_range r) = Some (bound_text (fst r), bound_text (snd r))"
proof -
  assume r: "valid_range r"
  have d: "list_all is_digit (bound_text (fst r))" "list_all is_digit (bound_text (snd r))"
    using r bound_digits by (simp_all add: valid_range_def)
  have "dropWhile is_space (show_range r) = show_range r"
    using show_range_chars [OF r] show_range_nonempty [of r] by (cases "show_range r") auto
  then show ?thesis using digits_then [OF d(1), of "CHR ''-''" "bound_text (snd r)"] d(2)
    by (simp add: match_range_def show_range_text list_all_iff)
qed

lemma match_ranges_show: "list_all valid_range rs \<Longrightarrow> rs \<noteq> [] \<Longrightarrow> match_ranges (show_ranges rs)"
proof (induction rs rule: show_ranges.induct)
  case (2 r)
  then show ?case using one_range_show [of r "[]"] by (simp add: match_ranges.simps)
next
  case (3 r s rs)
  have "show_ranges (s # rs) \<noteq> [] \<and> \<not> is_space (hd (show_ranges (s # rs)))"
    using 3 show_range_chars [of s] show_range_nonempty [of s]
    by (cases rs; cases "show_range s") auto
  then have "dropWhile is_space (CHR '' '' # show_ranges (s # rs)) = show_ranges (s # rs)"
    by (cases "show_ranges (s # rs)") (auto simp: is_space_def)
  then show ?case using 3 one_range_show [of r "'', '' @ show_ranges (s # rs)"]
    by (subst match_ranges.simps) (simp add: is_digit_def)
qed simp

lemma strip_blank_word:
  assumes "valid_range r"
  shows "strip (show_range r) = show_range r" "strip (CHR '' '' # show_range r) = show_range r"
proof -
  show w: "strip (show_range r) = show_range r"
    using show_range_chars [OF assms] by (intro strip_word) (simp add: list_all_iff)
  have "strip (CHR '' '' # u) = strip u" for u
    by (simp add: strip_def lstrip_def is_space_or_tab_def)
  then show "strip (CHR '' '' # show_range r) = show_range r" using w by simp
qed

lemma split_ranges: "list_all valid_range rs \<Longrightarrow> rs \<noteq> [] \<Longrightarrow>
  map strip (split_on (CHR '','') (show_ranges rs)) = map show_range rs \<and>
  map strip (split_on (CHR '','') (CHR '' '' # show_ranges rs)) = map show_range rs"
proof (induction rs rule: show_ranges.induct)
  case (2 r)
  then have "CHR '','' \<notin> set (show_range r)" "CHR '','' \<notin> set (CHR '' '' # show_range r)"
    using show_range_chars [of r] by auto
  from this [THEN split_on_whole] show ?case using 2 strip_blank_word [of r] by simp
next
  case (3 r s rs)
  let ?t = "CHR '' '' # show_ranges (s # rs)"
  have n: "CHR '','' \<notin> set (show_range r)" "CHR '','' \<notin> set (CHR '' '' # show_range r)"
    using 3 show_range_chars [of r] by auto
  have "split_on (CHR '','') (show_range r @ CHR '','' # ?t) = show_range r # split_on (CHR '','') ?t"
    "split_on (CHR '','') ((CHR '' '' # show_range r) @ CHR '','' # ?t) =
     (CHR '' '' # show_range r) # split_on (CHR '','') ?t"
    using split_on_sep [OF n(1)] split_on_sep [OF n(2)] by metis+
  moreover have "map strip (split_on (CHR '','') ?t) = map show_range (s # rs)" using 3 by simp
  ultimately show ?case using 3 strip_blank_word [of r] by simp
qed simp

lemma range_loop_show:
  "list_all valid_range rs \<Longrightarrow> range_loop (map show_range rs) True acc = (True, acc @ rs)"
proof (induction rs arbitrary: acc)
  case (Cons r rs)
  then have r: "valid_range r" by simp
  have "bound_of (bound_text (fst r)) = Some (fst r)" "bound_of (bound_text (snd r)) = Some (snd r)"
    using r by (auto simp: valid_range_def intro!: bound_read)
  moreover have "\<not> (fst r \<noteq> -1 \<and> snd r \<noteq> -1 \<and> fst r > snd r)" using r by (simp add: valid_range_def)
  ultimately show ?case using Cons.IH Cons.prems match_range_show [OF r] by auto
qed simp

text \<open>The header written for a list of ranges is read as that list.\<close>

theorem range_header_roundtrip:
  assumes "list_all valid_range rs" and "rs \<noteq> []"
  shows "parse_range_header (snd (make_range_header rs)) [] = (True, rs)"
proof -
  have "nonempty (map show_range qs) = map show_range qs" for qs :: "(int \<times> int) list"
    using show_range_nonempty by (induction qs) (simp_all add: nonempty_def)
  then have "split (show_ranges rs) (CHR '','') = map show_range rs"
    using split_ranges [OF assms] by (simp add: split_eq)
  then show ?thesis
    using match_ranges_show [OF assms] range_loop_show [OF assms(1), of "[]"]
    by (simp add: make_range_header_def parse_range_header_def)
qed

lemma range_header_roundtrip_witness:
  "parse_range_header (snd (make_range_header [(0, 499), (-1, 5), (1000, -1)])) [] =
   (True, [(0, 499), (-1, 5), (1000, -1)])"
  by (rule range_header_roundtrip) (simp_all add: valid_range_def)

subsection \<open>The part of a content\<close>

text \<open>What RFC 9110 asks for: the last bytes, the bytes from a position on, or those of an interval.\<close>

definition slice :: "int \<times> int \<Rightarrow> string \<Rightarrow> string" where
  "slice r body =
     (case r of (f, l) \<Rightarrow>
        if f = -1 \<and> l = -1 then body
        else if f = -1 then drop (length body - nat l) body
        else if l = -1 then drop (nat f) body
        else take (nat l + 1 - nat f) (drop (nat f) body))"

lemma usize_small: "0 \<le> i \<Longrightarrow> i < 2 ^ 64 \<Longrightarrow> usize i = nat i"
  by (simp add: usize_def)

lemma ssize_small: "n < 2 ^ 63 \<Longrightarrow> ssize n = int n"
  by (simp add: ssize_def)

lemma usize_length: "0 \<le> d \<Longrightarrow> d < 2 ^ 63 \<Longrightarrow> usize (int (usize d) + 1) = nat d + 1"
  by (simp add: usize_def nat_add_distrib)

lemma usize_wraps: "usize (int (usize (- 1)) + 1) = 0"
  by (simp add: usize_def)

lemma range_cases:
  assumes n: "n < 2 ^ 63" and r: "ranges ! i = (f, l)" and v: "valid_range (f, l)" and s: "f < int n"
  shows "get_range_offset_and_length ranges n i =
    (if f = -1 \<and> l = -1 then (0, n)
     else if f = -1 then (n - nat l, min (nat l) n)
     else if l = -1 then (nat f, n - nat f)
     else (nat f, nat l + 1 - nat f))"
proof -
  note defs = get_range_offset_and_length_def r ssize_small [OF n]
  consider (all) "f = -1" "l = -1" | (suffix) "f = -1" "l \<noteq> -1" | (tail) "f \<noteq> -1" "l = -1"
    | (interval) "f \<noteq> -1" "l \<noteq> -1" by blast
  then show ?thesis
  proof cases
    case all
    then show ?thesis by (simp add: defs)
  next
    case suffix
    then have l: "0 \<le> l" "l < 2 ^ 63" using v by (auto simp: valid_range_def)
    define d where "d = int n - 1 - max 0 (int n - l)"
    have off: "usize (max 0 (int n - l)) = n - nat l" using l n by (simp add: usize_small)
    have "d = -1 \<or> 0 \<le> d \<and> d < 2 ^ 63" using l n by (auto simp: d_def)
    moreover have "d = -1 \<Longrightarrow> min (nat l) n = 0" "0 \<le> d \<Longrightarrow> nat d + 1 = min (nat l) n"
      using l by (auto simp: d_def split: split_max split_min)
    ultimately have "usize (int (usize d) + 1) = min (nat l) n" using usize_length [of d] usize_wraps by auto
    then show ?thesis using suffix off by (auto simp: defs d_def Let_def)
  next
    case tail
    then have f: "0 \<le> f" using v by (auto simp: valid_range_def)
    have "usize (int (usize (int n - 1 - f)) + 1) = n - nat f"
      using usize_length [of "int n - 1 - f"] f s n by auto
    then show ?thesis using tail f s n by (simp add: defs usize_small)
  next
    case interval
    then have f: "0 \<le> f" "0 \<le> l" "f \<le> l" "l < 2 ^ 63" using v by (auto simp: valid_range_def)
    have "usize (int (usize (l - f)) + 1) = nat l + 1 - nat f" using usize_length [of "l - f"] f by auto
    then show ?thesis using interval f by (simp add: defs usize_small)
  qed
qed

text \<open>For a range that begins within the content, the offset and length select the bytes the range
  asks for.\<close>

theorem range_selects_slice:
  assumes "length body < 2 ^ 63" and "ranges ! i = (f, l)" and "valid_range (f, l)"
    and "f < int (length body)"
  shows "(case get_range_offset_and_length ranges (length body) i of
            (offset, len) \<Rightarrow> substr body offset len) = slice (f, l) body"
  using assms(3) by (auto simp: range_cases [OF assms] substr_def slice_def)

lemma range_selects_slice_witness:
  "(case get_range_offset_and_length [(-1, 3)] (length ''abcdef'') 0 of
      (offset, len) \<Rightarrow> substr ''abcdef'' offset len) = slice (-1, 3) ''abcdef''"
  by (rule range_selects_slice) (simp_all add: valid_range_def)

text \<open>The length is not cut at the end of the content: an interval that ends behind it gives more
  bytes than there are, and a content provider is then asked for them.\<close>

theorem range_not_clipped:
  assumes "n < 2 ^ 63" and "ranges ! i = (f, l)" and "0 \<le> f" and "f < int n" and "int n \<le> l" and "l < 2 ^ 63"
  shows "case get_range_offset_and_length ranges n i of (offset, len) \<Rightarrow> n < offset + len"
proof -
  have "valid_range (f, l)" using assms by (simp add: valid_range_def)
  from range_cases [OF assms(1,2) this assms(4)] assms(3-5) show ?thesis by auto
qed

lemma range_not_clipped_witness:
  "case get_range_offset_and_length [(0, 99)] 10 0 of (offset, len) \<Rightarrow> 10 < offset + len"
  by (rule range_not_clipped [where f = 0 and l = 99]) simp_all

subsection \<open>The length of a multipart body\<close>

lemma fold_append: "fold (\<lambda>t d. d @ t) ts d = d @ concat ts"
  by (induction ts arbitrary: d) simp_all

lemma fold_length: "n < m \<Longrightarrow> fold (\<lambda>t n. (n + length t) mod m) ts n = (n + length (concat ts)) mod m"
proof (induction ts arbitrary: n)
  case (Cons t ts)
  have "fold (\<lambda>t n. (n + length t) mod m) ts ((n + length t) mod m) =
        ((n + length t) mod m + length (concat ts)) mod m"
    using Cons.prems by (intro Cons.IH) simp
  then show ?case by (simp add: mod_simps add.assoc)
qed simp

lemma parts_length:
  assumes "\<And>off n. length (f off n) = n" and "0 < m"
  shows "process_parts rs cl b ct (\<lambda>t n. (n + length t) mod m) (\<lambda>off len n. (True, (n + len) mod m)) ks
      (length d mod m) =
    (True, length (snd (process_parts rs cl b ct (\<lambda>t d. d @ t) (\<lambda>off len d. (True, d @ f off len)) ks d)) mod m)"
proof (induction ks arbitrary: d)
  case (Cons i ks)
  obtain off len where r: "get_range_offset_and_length rs cl i = (off, len)" by fastforce
  have n: "length d mod m < m" using assms(2) by simp
  let ?d = "(d @ concat (part_header b ct (rs ! i) cl) @ f off len) @ crlf"
  have "((fold (\<lambda>t n. (n + length t) mod m) (part_header b ct (rs ! i) cl) (length d mod m) + len) mod m
          + length crlf) mod m = length ?d mod m"
    by (simp add: fold_length [OF n] assms(1) mod_simps add.assoc)
  then show ?case using Cons.IH [of ?d] by (simp add: r fold_append)
qed simp

text \<open>The length announced for a body of several ranges is the number of bytes written when each
  part has the length asked for.\<close>

theorem multipart_length_exact:
  assumes "\<And>off n. length (f off n) = n"
  shows "get_multipart_ranges_data_length req res boundary content_type =
    length (snd (process_multipart_ranges_data req res boundary content_type
      (\<lambda>t d. d @ t) (\<lambda>offset len d. (True, d @ f offset len)) [])) mod 2 ^ 64"
proof -
  have t: "fst (process_parts rs cl b ct (\<lambda>t d. d @ t) (\<lambda>off len d. (True, d @ f off len)) ks d)"
    for rs cl b ct d and ks
    by (induction ks arbitrary: d) (simp_all split: prod.splits)
  let ?p = "process_parts (rq_ranges req) (rs_content_length res) boundary content_type
    (\<lambda>t d. d @ t) (\<lambda>off len d. (True, d @ f off len)) [0..<length (rq_ranges req)] []"
  obtain d where d: "?p = (True, d)" using t by (metis (full_types) prod.collapse)
  define m where "m = (2 ^ 64 :: nat)"
  have "0 < m" by (simp add: m_def)
  from parts_length [where f = f, OF assms this, of "rq_ranges req" "rs_content_length res" boundary content_type
      "[0..<length (rq_ranges req)]" "[]"] d
  have "process_parts (rq_ranges req) (rs_content_length res) boundary content_type
      (\<lambda>t n. (n + length t) mod m) (\<lambda>off len n. (True, (n + len) mod m)) [0..<length (rq_ranges req)] 0 =
    (True, length d mod m)" by simp
  moreover have "fold (\<lambda>t n. (n + length t) mod m) ts (length d mod m) = length (d @ concat ts) mod m" for ts
    using \<open>0 < m\<close> by (simp add: fold_length mod_simps)
  ultimately show ?thesis
    unfolding get_multipart_ranges_data_length_def process_multipart_ranges_data_def m_def [symmetric]
    using d by (simp add: fold_append del: fold.simps)
qed

lemma multipart_length_exact_witness:
  "get_multipart_ranges_data_length (newRequest\<lparr>rq_ranges := [(0, 1), (3, 4)]\<rparr> :: unit Request)
     (newResponse\<lparr>rs_content_length := 6\<rparr>) ''b'' [] =
   length (snd (process_multipart_ranges_data (newRequest\<lparr>rq_ranges := [(0, 1), (3, 4)]\<rparr> :: unit Request)
     (newResponse\<lparr>rs_content_length := 6\<rparr>) ''b'' []
      (\<lambda>t d. d @ t) (\<lambda>offset len d. (True, d @ (\<lambda>off n. replicate n (CHR ''x'')) offset len)) [])) mod 2 ^ 64"
  by (rule multipart_length_exact) simp

text \<open>The parts of a body are cut with \<open>content_length_\<close>, which is 0 for a body of \<open>set_content\<close>: the
  last three bytes of six are none, and the total in the header is 0.\<close>

lemma multipart_body_uses_wrong_length:
  "get_range_offset_and_length [(-1, 3), (0, 0)]
     (rs_content_length (set_content_string ''abcdef'' ''text/plain'' (newResponse :: unit Response))) 0 = (0, 0)"
  by (simp add: get_range_offset_and_length_def set_content_string_def set_content_def
      Response_set_header_def newResponse_def usize_def ssize_def)


end
