(* ===== verification/Http_Streams.thy ===== *)
theory Http_Streams
  imports Http_Text_Laws
begin

text \<open>
  Reading a message from a stream (\<open>httplib.h\<close>): the line reader, the headers, and the content with a
  length, up to the end of the stream and in chunks. A stream is the record of its operations on a
  state. A loop that waits for the stream may run for ever: it is a partial function, and \<open>None\<close> means
  that it does not return.
\<close>

subsection \<open>Streams\<close>

text \<open>A result \<open>n\<close> of \<open>read\<close> that is not negative comes with the \<open>n\<close> bytes stored, none at the end of
  the stream.\<close>

datatype read_result = Read_error | Read_bytes string

record 's Stream =
  read_op :: "nat \<Rightarrow> 's \<Rightarrow> read_result \<times> 's"
  write_op :: "string \<Rightarrow> 's \<Rightarrow> int \<times> 's"
  is_writable :: "'s \<Rightarrow> bool \<times> 's"

record BufferStream =
  bs_buffer :: string
  bs_position :: nat

definition bs_read :: "nat \<Rightarrow> BufferStream \<Rightarrow> read_result \<times> BufferStream" where
  "bs_read n b =
     (let d = substr (bs_buffer b) (bs_position b) n
      in (Read_bytes d, b\<lparr>bs_position := bs_position b + length d\<rparr>))"

definition bs_write :: "string \<Rightarrow> BufferStream \<Rightarrow> int \<times> BufferStream" where
  "bs_write d b = (int (length d), b\<lparr>bs_buffer := bs_buffer b @ d\<rparr>)"

definition buffer_stream :: "BufferStream Stream" where
  "buffer_stream = \<lparr>read_op = bs_read, write_op = bs_write, is_writable = (\<lambda>b. (True, b))\<rparr>"

subsection \<open>The line reader\<close>

record line_reader =
  fixed_size :: nat
  fixed_buffer :: string
  glowable_buffer :: string

definition new_reader :: "nat \<Rightarrow> line_reader" where
  "new_reader n = \<lparr>fixed_size = n, fixed_buffer = [], glowable_buffer = []\<rparr>"

definition line_of :: "line_reader \<Rightarrow> string" where
  "line_of r = (if glowable_buffer r = [] then fixed_buffer r else glowable_buffer r)"

definition line_size :: "line_reader \<Rightarrow> nat" where
  "line_size r =
     (if glowable_buffer r = [] then length (fixed_buffer r) else length (glowable_buffer r))"

definition end_with_crlf :: "line_reader \<Rightarrow> bool" where
  "end_with_crlf r \<longleftrightarrow>
     line_size r \<ge> 2 \<and> line_of r ! (line_size r - 2) = CHR 0x0D \<and> line_of r ! (line_size r - 1) = CHR 0x0A"

definition append_byte :: "char \<Rightarrow> line_reader \<Rightarrow> line_reader" where
  "append_byte c r =
     (if length (fixed_buffer r) < fixed_size r - 1
      then r\<lparr>fixed_buffer := fixed_buffer r @ [c]\<rparr>
      else let g = (if glowable_buffer r = [] then fixed_buffer r else glowable_buffer r)
           in r\<lparr>glowable_buffer := g @ [c]\<rparr>)"

partial_function (option) getline_loop ::
  "'s Stream \<Rightarrow> nat \<Rightarrow> line_reader \<Rightarrow> 's \<Rightarrow> (bool \<times> line_reader \<times> 's) option" where
  "getline_loop S i r s =
     (case read_op S 1 s of
        (Read_error, s') \<Rightarrow> Some (False, r, s')
      | (Read_bytes d, s') \<Rightarrow>
          (if d = [] then Some (i \<noteq> 0, r, s')
           else if hd d = CHR 0x0A then Some (True, append_byte (hd d) r, s')
           else getline_loop S (i + 1) (append_byte (hd d) r) s'))"

definition getline :: "'s Stream \<Rightarrow> line_reader \<Rightarrow> 's \<Rightarrow> (bool \<times> line_reader \<times> 's) option" where
  "getline S r s = getline_loop S 0 (r\<lparr>fixed_buffer := [], glowable_buffer := []\<rparr>) s"

subsection \<open>Headers\<close>

definition header_max_length :: nat where
  "header_max_length = 8192"

text \<open>The key and the value handed to the callback; without one the header is skipped.\<close>

definition parse_header :: "string \<Rightarrow> (string \<times> string) option" where
  "parse_header line =
     (let s = rev (dropWhile is_space_or_tab (rev line));
          key = takeWhile (\<lambda>c. c \<noteq> CHR '':'') s;
          rest = dropWhile (\<lambda>c. c \<noteq> CHR '':'') s
      in if rest = [] then None
         else let val = dropWhile is_space_or_tab (tl rest)
              in if val = [] then None
                 else Some (key, if compare_case_ignore key ''Location'' then val else decode_url val False))"

definition emplace_header :: "string \<Rightarrow> Headers \<Rightarrow> Headers" where
  "emplace_header line hs =
     (case parse_header line of None \<Rightarrow> hs | Some (key, val) \<Rightarrow> mm_emplace ci_less key val hs)"

partial_function (option) read_headers_loop ::
  "'s Stream \<Rightarrow> line_reader \<Rightarrow> Headers \<Rightarrow> 's \<Rightarrow> (bool \<times> Headers \<times> 's) option" where
  "read_headers_loop S r hs s =
     Option.bind (getline S r s) (\<lambda>(ok, r', s').
       if \<not> ok then Some (False, hs, s')
       else if end_with_crlf r' then
         (if line_size r' = 2 then Some (True, hs, s')
          else if line_size r' > header_max_length then Some (False, hs, s')
          else read_headers_loop S r' (emplace_header (take (line_size r' - 2) (line_of r')) hs) s')
       else read_headers_loop S r' hs s')"

definition read_headers :: "'s Stream \<Rightarrow> Headers \<Rightarrow> 's \<Rightarrow> (bool \<times> Headers \<times> 's) option" where
  "read_headers S hs s = read_headers_loop S (new_reader 2048) hs s"

subsection \<open>Content\<close>

definition recv_bufsiz :: nat where
  "recv_bufsiz = 4096"

text \<open>The receiver gets the bytes, their offset and the total length and may stop the reading; it
  changes a state of its own.\<close>

type_synonym 'a receiver = "string \<Rightarrow> nat \<Rightarrow> nat \<Rightarrow> 'a \<Rightarrow> bool \<times> 'a"

function read_content_with_length ::
  "'s Stream \<Rightarrow> nat \<Rightarrow> (nat \<Rightarrow> nat \<Rightarrow> 'a \<Rightarrow> bool \<times> 'a) option \<Rightarrow> 'a receiver \<Rightarrow> nat \<Rightarrow> 'a \<Rightarrow> 's \<Rightarrow>
   bool \<times> 'a \<times> 's" where
  "read_content_with_length S len progress out r a s =
     (if r < len then
        (case read_op S (min (len - r) recv_bufsiz) s of
           (Read_error, s') \<Rightarrow> (False, a, s')
         | (Read_bytes d, s') \<Rightarrow>
             (if d = [] then (False, a, s')
              else case out d r len a of
                (False, a') \<Rightarrow> (False, a', s')
              | (True, a') \<Rightarrow>
                  (case progress of
                     None \<Rightarrow> read_content_with_length S len progress out (r + length d) a' s'
                   | Some p \<Rightarrow>
                       (case p (r + length d) len a' of
                          (False, a'') \<Rightarrow> (False, a'', s')
                        | (True, a'') \<Rightarrow>
                            read_content_with_length S len progress out (r + length d) a'' s'))))
      else (True, a, s))"
  by pat_completeness auto
termination
  by (relation "measure (\<lambda>(S, len, progress, out, r, a, s). len - r)") (auto intro: diff_less_mono2)

declare read_content_with_length.simps [simp del]

function skip_content_with_length :: "'s Stream \<Rightarrow> nat \<Rightarrow> nat \<Rightarrow> 's \<Rightarrow> 's" where
  "skip_content_with_length S len r s =
     (if r < len then
        (case read_op S (min (len - r) recv_bufsiz) s of
           (Read_error, s') \<Rightarrow> s'
         | (Read_bytes d, s') \<Rightarrow>
             (if d = [] then s' else skip_content_with_length S len (r + length d) s'))
      else s)"
  by pat_completeness auto
termination
  by (relation "measure (\<lambda>(S, len, r, s). len - r)") (auto intro: diff_less_mono2)

declare skip_content_with_length.simps [simp del]

partial_function (option) read_content_without_length ::
  "'s Stream \<Rightarrow> 'a receiver \<Rightarrow> nat \<Rightarrow> 'a \<Rightarrow> 's \<Rightarrow> (bool \<times> 'a \<times> 's) option" where
  "read_content_without_length S out r a s =
     (case read_op S recv_bufsiz s of
        (Read_error, s') \<Rightarrow> Some (False, a, s')
      | (Read_bytes d, s') \<Rightarrow>
          (if d = [] then Some (True, a, s')
           else if \<not> fst (out d r 0 a) then Some (False, snd (out d r 0 a), s')
           else read_content_without_length S out (r + length d) (snd (out d r 0 a)) s'))"

text \<open>\<open>std::strtoul(s, &end, 16)\<close>; \<open>None\<close> when nothing is converted.\<close>

definition hex_digits :: "string \<Rightarrow> string" where
  "hex_digits s = takeWhile (\<lambda>c. is_hex c \<noteq> None) s"

definition strtoul16 :: "string \<Rightarrow> nat option" where
  "strtoul16 s =
     (let s1 = dropWhile is_space s;
          neg = (s1 \<noteq> [] \<and> hd s1 = CHR ''-'');
          s2 = (if s1 \<noteq> [] \<and> hd s1 \<in> {CHR ''-'', CHR ''+''} then tl s1 else s1);
          s3 = (if length s2 \<ge> 3 \<and> hd s2 = CHR ''0'' \<and> s2 ! 1 \<in> {CHR ''x'', CHR ''X''}
                   \<and> is_hex (s2 ! 2) \<noteq> None
                then drop 2 s2 else s2);
          n = hex_val (hex_digits s3)
      in if hex_digits s3 = [] then None
         else Some (if n \<ge> 2 ^ 64 then 2 ^ 64 - 1 else if neg then (2 ^ 64 - n) mod 2 ^ 64 else n))"

partial_function (option) read_trailer ::
  "'s Stream \<Rightarrow> line_reader \<Rightarrow> Headers \<Rightarrow> 's \<Rightarrow> (bool \<times> Headers \<times> 's) option" where
  "read_trailer S r hs s =
     (if c_str (line_of r) = [CHR 0x0D, CHR 0x0A] then Some (True, hs, s)
      else if line_size r > header_max_length then Some (False, hs, s)
      else let hs' = (if line_size r < 2 then hs
                      else emplace_header (take (line_size r - 2) (line_of r)) hs)
           in Option.bind (getline S r s) (\<lambda>(ok, r', s').
                if \<not> ok then Some (False, hs', s') else read_trailer S r' hs' s'))"

text \<open>A round of the loop reads a chunk; the size line has been read before it.\<close>

partial_function (option) chunk_loop ::
  "'s Stream \<Rightarrow> 'a receiver \<Rightarrow> line_reader \<Rightarrow> Headers \<Rightarrow> 'a \<Rightarrow> 's \<Rightarrow> (bool \<times> Headers \<times> 'a \<times> 's) option" where
  "chunk_loop S out r hs a s =
     (case strtoul16 (c_str (line_of r)) of
        None \<Rightarrow> Some (False, hs, a, s)
      | Some chunk_len \<Rightarrow>
          (if chunk_len = 2 ^ 64 - 1 then Some (False, hs, a, s)
           else if chunk_len = 0 then
             Option.bind (getline S r s) (\<lambda>(ok, r', s').
               if \<not> ok then Some (False, hs, a, s')
               else Option.bind (read_trailer S r' hs s') (\<lambda>(ok, hs', s''). Some (ok, hs', a, s'')))
           else
             (case read_content_with_length S chunk_len None out 0 a s of
                (ok, a', s1) \<Rightarrow>
                  (if \<not> ok then Some (False, hs, a', s1)
                   else Option.bind (getline S r s1) (\<lambda>(ok, r', s2).
                     if \<not> ok then Some (False, hs, a', s2)
                     else if c_str (line_of r') \<noteq> [CHR 0x0D, CHR 0x0A] then Some (False, hs, a', s2)
                     else Option.bind (getline S r' s2) (\<lambda>(ok, r'', s3).
                       if \<not> ok then Some (False, hs, a', s3)
                       else chunk_loop S out r'' hs a' s3))))))"

definition read_content_chunked ::
  "'s Stream \<Rightarrow> Headers \<Rightarrow> 'a receiver \<Rightarrow> 'a \<Rightarrow> 's \<Rightarrow> (bool \<times> Headers \<times> 'a \<times> 's) option" where
  "read_content_chunked S hs out a s =
     Option.bind (getline S (new_reader 16) s) (\<lambda>(ok, r, s').
       if \<not> ok then Some (False, hs, a, s') else chunk_loop S out r hs a s')"

definition is_chunked_transfer_encoding :: "Headers \<Rightarrow> bool" where
  "is_chunked_transfer_encoding hs \<longleftrightarrow>
     compare_case_ignore (first_value hs ''Transfer-Encoding'') ''chunked''"

text \<open>Without the compression libraries, a compressed content is refused with status 415. The status
  is \<open>None\<close> when it is left as it was.\<close>

definition content_supported :: "bool \<Rightarrow> Headers \<Rightarrow> bool" where
  "content_supported decompress hs \<longleftrightarrow>
     \<not> (decompress \<and>
        (let encoding = first_value hs ''Content-Encoding''
         in encoding = ''gzip'' \<or> encoding = ''deflate'' \<or> str_find ''br'' encoding 0 \<noteq> None))"

definition read_content ::
  "'s Stream \<Rightarrow> Headers \<Rightarrow> nat \<Rightarrow> (nat \<Rightarrow> nat \<Rightarrow> 'a \<Rightarrow> bool \<times> 'a) option \<Rightarrow> 'a receiver \<Rightarrow> bool \<Rightarrow> 'a \<Rightarrow> 's \<Rightarrow>
   (bool \<times> int option \<times> Headers \<times> 'a \<times> 's) option" where
  "read_content S hs payload_max_length progress out decompress a s =
     (if \<not> content_supported decompress hs then Some (False, Some 415, hs, a, s)
      else if is_chunked_transfer_encoding hs then
        Option.bind (read_content_chunked S hs out a s) (\<lambda>(ok, hs', a', s').
          Some (ok, if ok then None else Some 400, hs', a', s'))
      else if \<not> has_header hs ''Content-Length'' then
        Option.bind (read_content_without_length S out 0 a s) (\<lambda>(ok, a', s').
          Some (ok, if ok then None else Some 400, hs, a', s'))
      else
        (let len = (case get_header_value_u64 hs ''Content-Length'' 0 0 of Inr n \<Rightarrow> n | Inl e \<Rightarrow> 0) in
         if len > payload_max_length
         then Some (False, Some 413, hs, a, skip_content_with_length S len 0 s)
         else if len > 0
         then (case read_content_with_length S len progress out 0 a s of
                 (ok, a', s') \<Rightarrow> Some (ok, if ok then None else Some 400, hs, a', s'))
         else Some (True, None, hs, a, s)))"

end
