(* ===== verification/Http_Writers.thy ===== *)
theory Http_Writers
  imports Http_Streams
begin

text \<open>
  Writing a message to a stream (\<open>httplib.h\<close>): formatted lines, the headers, raw data, and the content
  of a provider with a length, without one and in chunks. A content provider is a \<open>sink_prog\<close>; calling
  a function of the sink that is not set throws. A loop that may not end is a partial function.
\<close>

text \<open>\<open>Stream::write_format\<close> after \<open>snprintf\<close>: a text that is not empty is written by one call.\<close>

definition write_format :: "'s Stream \<Rightarrow> string \<Rightarrow> 's \<Rightarrow> int \<times> 's" where
  "write_format S txt s = (if txt = [] then (0, s) else write_op S txt s)"

fun write_headers_loop :: "'s Stream \<Rightarrow> Headers \<Rightarrow> int \<Rightarrow> 's \<Rightarrow> int \<times> 's" where
  "write_headers_loop S [] write_len s =
     (case write_op S [CHR 0x0D, CHR 0x0A] s of
        (len, s') \<Rightarrow> if len < 0 then (len, s') else (write_len + len, s'))"
| "write_headers_loop S (x # hs) write_len s =
     (case write_format S (c_str (fst x) @ '': '' @ c_str (snd x) @ [CHR 0x0D, CHR 0x0A]) s of
        (len, s') \<Rightarrow> if len < 0 then (len, s') else write_headers_loop S hs (write_len + len) s')"

definition write_headers :: "'s Stream \<Rightarrow> Headers \<Rightarrow> 's \<Rightarrow> int \<times> 's" where
  "write_headers S hs s = write_headers_loop S hs 0 s"

partial_function (option) write_data_loop :: "'s Stream \<Rightarrow> string \<Rightarrow> nat \<Rightarrow> 's \<Rightarrow> (bool \<times> 's) option" where
  "write_data_loop S d offset s =
     (if offset < length d
      then (case write_op S (drop offset d) s of
              (len, s') \<Rightarrow> if len < 0 then Some (False, s') else write_data_loop S d (offset + nat len) s')
      else Some (True, s))"

definition write_data :: "'s Stream \<Rightarrow> string \<Rightarrow> 's \<Rightarrow> (bool \<times> 's) option" where
  "write_data S d s = write_data_loop S d 0 s"

subsection \<open>The data sink\<close>

text \<open>The variables the functions of the sink capture, with the stream; \<open>sk_threw\<close> when a function
  that is not set has been called.\<close>

record 's sink_state =
  sk_offset :: nat
  sk_ok :: bool
  sk_available :: bool
  sk_threw :: bool
  sk_stream :: 's

text \<open>Running a provider's calls: \<open>wr\<close> is the function \<open>write\<close> of the sink, \<open>dn\<close> is
  \<open>done\<close> (no trailer) and \<open>done_with_trailer\<close>; \<open>None\<close> when it is not set.\<close>

primrec run_sink ::
  "'w sink_prog \<Rightarrow> (string \<Rightarrow> 's sink_state \<Rightarrow> 's sink_state option) \<Rightarrow>
   (Headers option \<Rightarrow> 's sink_state \<Rightarrow> 's sink_state option) option \<Rightarrow> bool \<Rightarrow>
   's sink_state \<Rightarrow> (bool \<times> 'w option \<times> 's sink_state) option" where
  "run_sink (Sink_return b w) wr dn trailers k = Some (b, Some w, k)"
| "run_sink (Sink_write d f) wr dn trailers k =
     Option.bind (wr d k) (\<lambda>k'. run_sink (f (sk_ok k')) wr dn trailers k')"
| "run_sink (Sink_done p) wr dn trailers k =
     (case dn of
        None \<Rightarrow> Some (False, None, k\<lparr>sk_threw := True\<rparr>)
      | Some g \<Rightarrow> Option.bind (g None k) (\<lambda>k'. run_sink p wr dn trailers k'))"
| "run_sink (Sink_done_with_trailer hs p) wr dn trailers k =
     (case dn of
        None \<Rightarrow> Some (False, None, k\<lparr>sk_threw := True\<rparr>)
      | Some g \<Rightarrow>
          if trailers then Option.bind (g (Some hs) k) (\<lambda>k'. run_sink p wr dn trailers k')
          else Some (False, None, k\<lparr>sk_threw := True\<rparr>))"
| "run_sink Sink_bad_call wr dn trailers k = Some (False, None, k\<lparr>sk_threw := True\<rparr>)"

text \<open>The outcome of writing a content: it returned, with its result, the error it reports (the function
  without a length reports none) and the world of the provider, or the exception \<open>bad_function_call\<close> left it.\<close>

datatype 'w write_outcome = Written bool "Error option" 'w | Bad_call

definition new_sink :: "nat \<Rightarrow> 's \<Rightarrow> 's sink_state" where
  "new_sink offset s =
     \<lparr>sk_offset = offset, sk_ok = True, sk_available = True, sk_threw = False, sk_stream = s\<rparr>"

subsection \<open>A content with a length\<close>

definition sink_write_sized :: "'s Stream \<Rightarrow> string \<Rightarrow> 's sink_state \<Rightarrow> 's sink_state option" where
  "sink_write_sized S d k =
     (if sk_ok k then
        (case is_writable S (sk_stream k) of
           (True, s) \<Rightarrow>
             Option.bind (write_data S d s) (\<lambda>(b, s').
               Some (if b then k\<lparr>sk_offset := sk_offset k + length d, sk_stream := s'\<rparr>
                     else k\<lparr>sk_ok := False, sk_stream := s'\<rparr>))
         | (False, s) \<Rightarrow> Some (k\<lparr>sk_ok := False, sk_stream := s\<rparr>))
      else Some k)"

partial_function (option) write_content_loop ::
  "'s Stream \<Rightarrow> 'w ContentProvider \<Rightarrow> nat \<Rightarrow> ('s \<Rightarrow> bool) \<Rightarrow> 'w \<Rightarrow> 's sink_state \<Rightarrow>
   ('w write_outcome \<times> 's) option" where
  "write_content_loop S provider end_offset is_shutting_down w k =
     (if sk_offset k < end_offset \<and> \<not> is_shutting_down (sk_stream k) then
        (case is_writable S (sk_stream k) of (ok, s) \<Rightarrow>
           if \<not> ok then Some (Written False (Some Write) w, s)
           else Option.bind
             (run_sink (provider (sk_offset k) (end_offset - sk_offset k) w) (sink_write_sized S) None False (k\<lparr>sk_stream := s\<rparr>))
             (\<lambda>(b, w', k').
               case w' of
                 None \<Rightarrow> Some (Bad_call, sk_stream k')
               | Some w'' \<Rightarrow>
                   (if \<not> b then Some (Written False (Some Canceled) w'', sk_stream k')
                    else if \<not> sk_ok k' then Some (Written False (Some Write) w'', sk_stream k')
                    else write_content_loop S provider end_offset is_shutting_down w'' k')))
      else Some (Written True (Some Success) w, sk_stream k))"

definition write_content ::
  "'s Stream \<Rightarrow> 'w ContentProvider \<Rightarrow> nat \<Rightarrow> nat \<Rightarrow> ('s \<Rightarrow> bool) \<Rightarrow> 'w \<Rightarrow> 's \<Rightarrow>
   ('w write_outcome \<times> 's) option" where
  "write_content S provider offset len is_shutting_down w s =
     write_content_loop S provider ((offset + len) mod 2 ^ 64) is_shutting_down w (new_sink offset s)"

subsection \<open>A content without a length\<close>

definition sink_write_unsized :: "'s Stream \<Rightarrow> string \<Rightarrow> 's sink_state \<Rightarrow> 's sink_state option" where
  "sink_write_unsized S d k =
     (if sk_ok k then
        (let k1 = k\<lparr>sk_offset := sk_offset k + length d\<rparr> in
         case is_writable S (sk_stream k) of
           (False, s) \<Rightarrow> Some (k1\<lparr>sk_ok := False, sk_stream := s\<rparr>)
         | (True, s) \<Rightarrow> Option.bind (write_data S d s) (\<lambda>(b, s').
             Some (k1\<lparr>sk_ok := b, sk_stream := s'\<rparr>)))
      else Some k)"

definition sink_done_unsized :: "Headers option \<Rightarrow> 's sink_state \<Rightarrow> 's sink_state option" where
  "sink_done_unsized tr k = Some (k\<lparr>sk_available := False\<rparr>)"

partial_function (option) write_unsized_loop ::
  "'s Stream \<Rightarrow> 'w ContentProvider \<Rightarrow> ('s \<Rightarrow> bool) \<Rightarrow> 'w \<Rightarrow> 's sink_state \<Rightarrow>
   ('w write_outcome \<times> 's) option" where
  "write_unsized_loop S provider is_shutting_down w k =
     (if sk_available k \<and> \<not> is_shutting_down (sk_stream k) then
        (case is_writable S (sk_stream k) of (ok, s) \<Rightarrow>
           if \<not> ok then Some (Written False None w, s)
           else Option.bind
             (run_sink (provider (sk_offset k) 0 w) (sink_write_unsized S) (Some sink_done_unsized) False (k\<lparr>sk_stream := s\<rparr>))
             (\<lambda>(b, w', k').
               case w' of
                 None \<Rightarrow> Some (Bad_call, sk_stream k')
               | Some w'' \<Rightarrow>
                   (if \<not> b then Some (Written False None w'', sk_stream k')
                    else if \<not> sk_ok k' then Some (Written False None w'', sk_stream k')
                    else write_unsized_loop S provider is_shutting_down w'' k')))
      else Some (Written True None w, sk_stream k))"

definition write_content_without_length ::
  "'s Stream \<Rightarrow> 'w ContentProvider \<Rightarrow> ('s \<Rightarrow> bool) \<Rightarrow> 'w \<Rightarrow> 's \<Rightarrow> ('w write_outcome \<times> 's) option" where
  "write_content_without_length S provider is_shutting_down w s =
     write_unsized_loop S provider is_shutting_down w (new_sink 0 s)"

subsection \<open>A content in chunks\<close>

definition chunk_of :: "string \<Rightarrow> string" where
  "chunk_of payload =
     from_i_to_hex (length payload) @ [CHR 0x0D, CHR 0x0A] @ payload @ [CHR 0x0D, CHR 0x0A]"

text \<open>A write that only clears \<open>ok\<close> when it fails.\<close>

definition emit :: "'s Stream \<Rightarrow> string \<Rightarrow> 's sink_state \<Rightarrow> 's sink_state option" where
  "emit S d k =
     Option.bind (write_data S d (sk_stream k)) (\<lambda>(b, s').
       Some (k\<lparr>sk_stream := s', sk_ok := sk_ok k \<and> b\<rparr>))"

definition emit_chunk :: "'s Stream \<Rightarrow> string \<Rightarrow> 's sink_state \<Rightarrow> 's sink_state option" where
  "emit_chunk S payload k =
     (if payload = [] then Some k
      else case is_writable S (sk_stream k) of
        (False, s) \<Rightarrow> Some (k\<lparr>sk_ok := False, sk_stream := s\<rparr>)
      | (True, s) \<Rightarrow> emit S (chunk_of payload) (k\<lparr>sk_stream := s\<rparr>))"

text \<open>The compressor is \<open>nocompressor\<close>: it hands its data on and never fails; at the end it has
  nothing left to add.\<close>

definition sink_write_chunked :: "'s Stream \<Rightarrow> string \<Rightarrow> 's sink_state \<Rightarrow> 's sink_state option" where
  "sink_write_chunked S d k =
     (if sk_ok k
      then emit_chunk S d (k\<lparr>sk_available := (length d > 0), sk_offset := sk_offset k + length d\<rparr>)
      else Some k)"

fun emit_trailer :: "'s Stream \<Rightarrow> Headers \<Rightarrow> 's sink_state \<Rightarrow> 's sink_state option" where
  "emit_trailer S [] k = Some k"
| "emit_trailer S (x # hs) k =
     Option.bind (emit S (fst x @ '': '' @ snd x @ [CHR 0x0D, CHR 0x0A]) k) (emit_trailer S hs)"

definition sink_done_chunked ::
  "'s Stream \<Rightarrow> Headers option \<Rightarrow> 's sink_state \<Rightarrow> 's sink_state option" where
  "sink_done_chunked S tr k =
     (if \<not> sk_ok k then Some k
      else
        Option.bind (emit S [CHR ''0'', CHR 0x0D, CHR 0x0A] (k\<lparr>sk_available := False\<rparr>)) (\<lambda>k1.
        Option.bind (case tr of None \<Rightarrow> Some k1 | Some hs \<Rightarrow> emit_trailer S hs k1) (\<lambda>k2.
        emit S [CHR 0x0D, CHR 0x0A] k2)))"

partial_function (option) write_chunked_loop ::
  "'s Stream \<Rightarrow> 'w ContentProvider \<Rightarrow> ('s \<Rightarrow> bool) \<Rightarrow> 'w \<Rightarrow> 's sink_state \<Rightarrow>
   ('w write_outcome \<times> 's) option" where
  "write_chunked_loop S provider is_shutting_down w k =
     (if sk_available k \<and> \<not> is_shutting_down (sk_stream k) then
        (case is_writable S (sk_stream k) of (ok, s) \<Rightarrow>
           if \<not> ok then Some (Written False (Some Write) w, s)
           else Option.bind
             (run_sink (provider (sk_offset k) 0 w) (sink_write_chunked S) (Some (sink_done_chunked S)) True (k\<lparr>sk_stream := s\<rparr>))
             (\<lambda>(b, w', k').
               case w' of
                 None \<Rightarrow> Some (Bad_call, sk_stream k')
               | Some w'' \<Rightarrow>
                   (if \<not> b then Some (Written False (Some Canceled) w'', sk_stream k')
                    else if \<not> sk_ok k' then Some (Written False (Some Write) w'', sk_stream k')
                    else write_chunked_loop S provider is_shutting_down w'' k')))
      else Some (Written True (Some Success) w, sk_stream k))"

definition write_content_chunked ::
  "'s Stream \<Rightarrow> 'w ContentProvider \<Rightarrow> ('s \<Rightarrow> bool) \<Rightarrow> 'w \<Rightarrow> 's \<Rightarrow> ('w write_outcome \<times> 's) option" where
  "write_content_chunked S provider is_shutting_down w s =
     write_chunked_loop S provider is_shutting_down w (new_sink 0 s)"

end
