(* ===== verification/Http_Stream_Laws.thy ===== *)
theory Http_Stream_Laws
  imports Http_Writers Http_Query
begin

text \<open>
  What the readers and writers do over any stream that delivers its bytes in order, in pieces of any
  size (the locale \<open>byte_source\<close>), or takes them so (\<open>byte_sink\<close>); the buffer stream of the code is an
  instance of both. The round trips are those of the headers and of a chunked content.
\<close>

subsection \<open>The line reader\<close>

definition reader_ok :: "line_reader \<Rightarrow> bool" where
  "reader_ok r \<longleftrightarrow> (glowable_buffer r \<noteq> [] \<longrightarrow> fixed_size r - 1 \<le> length (fixed_buffer r))"

lemma line_size_length [simp]: "line_size r = length (line_of r)"
  by (simp add: line_size_def line_of_def)

lemma append_byte_ok:
  "reader_ok r \<Longrightarrow> reader_ok (append_byte c r) \<and> line_of (append_byte c r) = line_of r @ [c]
     \<and> fixed_size (append_byte c r) = fixed_size r"
  by (auto simp: reader_ok_def append_byte_def line_of_def Let_def)

lemma end_with_crlf_line: "end_with_crlf r \<longleftrightarrow> (\<exists>u. line_of r = u @ crlf)"
proof
  assume e: "end_with_crlf r"
  let ?l = "line_of r" and ?n = "length (line_of r)"
  have l: "2 \<le> ?n" using e by (simp add: end_with_crlf_def)
  have "?l = take (?n - 2) ?l @ drop (?n - 2) ?l" by simp
  moreover have "drop (?n - 2) ?l = [?l ! (?n - 2), ?l ! (?n - 1)]"
    using l Cons_nth_drop_Suc [of "?n - 2" ?l] Cons_nth_drop_Suc [of "?n - 1" ?l]
    by (simp add: numeral_2_eq_2 Suc_diff_Suc)
  ultimately show "\<exists>u. line_of r = u @ crlf" using e by (metis end_with_crlf_def line_size_length crlf_def)
next
  assume "\<exists>u. line_of r = u @ crlf"
  then show "end_with_crlf r" by (auto simp: end_with_crlf_def crlf_def nth_append)
qed

subsection \<open>Sources\<close>

text \<open>The receiver that keeps what it gets.\<close>

definition collect :: "string receiver" where
  "collect d off len a = (True, a @ d)"

locale byte_source =
  fixes S :: "'s Stream" and pending :: "'s \<Rightarrow> string"
  assumes read_prefix: "0 < n \<Longrightarrow> pending s \<noteq> [] \<Longrightarrow>
    \<exists>d s'. read_op S n s = (Read_bytes d, s') \<and> d \<noteq> [] \<and> length d \<le> n \<and> pending s = d @ pending s'"
    and read_end: "pending s = [] \<Longrightarrow>
    \<exists>r s'. read_op S n s = (r, s') \<and> r \<in> {Read_error, Read_bytes []} \<and> pending s' = []"
begin

lemma read_one: "pending s = c # t \<Longrightarrow> \<exists>s'. read_op S 1 s = (Read_bytes [c], s') \<and> pending s' = t"
proof -
  assume p: "pending s = c # t"
  obtain d s' where d: "read_op S 1 s = (Read_bytes d, s')" "length d \<le> 1" "d \<noteq> []" "pending s = d @ pending s'"
    using read_prefix [of 1 s] p by auto
  then obtain x where "d = [x]" by (cases d) auto
  with d p show ?thesis by auto
qed

lemma getline_loop_line:
  "CHR 0x0A \<notin> set u \<Longrightarrow> pending s = u @ CHR 0x0A # t \<Longrightarrow> reader_ok r \<Longrightarrow>
   \<exists>r' s'. getline_loop S i r s = Some (True, r', s') \<and> pending s' = t \<and>
     line_of r' = line_of r @ u @ [CHR 0x0A] \<and> reader_ok r' \<and> fixed_size r' = fixed_size r"
proof (induction u arbitrary: s i r)
  case Nil
  then obtain s' where "read_op S 1 s = (Read_bytes [CHR 0x0A], s')" "pending s' = t"
    using read_one [of s "CHR 0x0A" t] by auto
  then show ?case using append_byte_ok [OF Nil.prems(3), of "CHR 0x0A"] by (subst getline_loop.simps) auto
next
  case (Cons c u)
  then obtain s' where s': "read_op S 1 s = (Read_bytes [c], s')" "pending s' = u @ CHR 0x0A # t"
    using read_one [of s c] by auto
  have "c \<noteq> CHR 0x0A" using Cons.prems by auto
  then have "getline_loop S i r s = getline_loop S (i + 1) (append_byte c r) s'"
    using s' by (subst getline_loop.simps) simp
  then show ?case
    using Cons.IH [OF _ s'(2), of "append_byte c r" "i + 1"] Cons.prems append_byte_ok [OF Cons.prems(3), of c] by auto
qed

lemma getline_line:
  "CHR 0x0A \<notin> set u \<Longrightarrow> pending s = u @ CHR 0x0A # t \<Longrightarrow>
   \<exists>r' s'. getline S r s = Some (True, r', s') \<and> pending s' = t \<and> line_of r' = u @ [CHR 0x0A]"
proof -
  let ?r = "r\<lparr>fixed_buffer := [], glowable_buffer := []\<rparr>"
  assume "CHR 0x0A \<notin> set u" "pending s = u @ CHR 0x0A # t"
  moreover have "reader_ok ?r" "line_of ?r = []" by (simp_all add: reader_ok_def line_of_def)
  ultimately show ?thesis using getline_loop_line [of u s t ?r 0] by (auto simp: getline_def)
qed

lemma getline_loop_end:
  "CHR 0x0A \<notin> set (pending s) \<Longrightarrow>
   \<exists>ok r' s'. getline_loop S i r s = Some (ok, r', s') \<and> (ok \<longrightarrow> i \<noteq> 0 \<or> pending s \<noteq> []) \<and> pending s' = []"
proof (induction "pending s" arbitrary: s i r)
  case Nil
  then show ?case using read_end [of s 1] by (subst getline_loop.simps) auto
next
  case (Cons c t)
  obtain s' where s': "read_op S 1 s = (Read_bytes [c], s')" "pending s' = t"
    using read_one [OF Cons.hyps(2) [symmetric]] by blast
  have "c \<noteq> CHR 0x0A" using Cons by (metis list.set_intros(1))
  then have "getline_loop S i r s = getline_loop S (i + 1) (append_byte c r) s'"
    using s' by (subst getline_loop.simps) simp
  moreover have "CHR 0x0A \<notin> set (pending s')" using Cons s' by (metis list.set_intros(2))
  ultimately show ?case using Cons.hyps(1) [of s' "i + 1" "append_byte c r"] Cons.hyps(2) s' by auto
qed

text \<open>Reading a line always returns, and takes at least one byte when it succeeds.\<close>

lemma getline_returns:
  "\<exists>ok r' s'. getline S r s = Some (ok, r', s') \<and> length (pending s') \<le> length (pending s) \<and>
     (ok \<longrightarrow> length (pending s') < length (pending s))"
proof (cases "CHR 0x0A \<in> set (pending s)")
  case True
  then obtain u t where "pending s = u @ CHR 0x0A # t" "CHR 0x0A \<notin> set u" by (meson split_list_first)
  then show ?thesis using getline_line [of u s t r] by fastforce
next
  case False
  then show ?thesis
    using getline_loop_end [of s 0 "r\<lparr>fixed_buffer := [], glowable_buffer := []\<rparr>"]
    by (cases "pending s") (auto simp: getline_def)
qed

text \<open>So does reading the headers, whatever the stream holds.\<close>

lemma read_headers_returns: "\<exists>ok hs' s'. read_headers_loop S r hs s = Some (ok, hs', s')"
proof (induction "length (pending s)" arbitrary: s r hs rule: less_induct)
  case less
  obtain ok r' s' where g: "getline S r s = Some (ok, r', s')" "ok \<Longrightarrow> length (pending s') < length (pending s)"
    using getline_returns [of r s] by blast
  show ?case
  proof (cases ok)
    case True
    have "\<exists>ok hs' s''. read_headers_loop S r' hs s' = Some (ok, hs', s'')" for hs
      using less g(2) True by blast
    then show ?thesis using g True by (subst read_headers_loop.simps) auto
  next
    case False
    then show ?thesis using g by (subst read_headers_loop.simps) auto
  qed
qed

lemma read_all:
  "pending s = u @ t \<Longrightarrow> length u = len - r \<Longrightarrow> r \<le> len \<Longrightarrow>
   \<exists>s'. read_content_with_length S len None collect r a s = (True, a @ u, s') \<and> pending s' = t"
proof (induction "len - r" arbitrary: r a s u rule: less_induct)
  case less
  show ?case
  proof (cases "r < len")
    case True
    then have u: "u \<noteq> []" using less.prems by auto
    have "0 < min (len - r) recv_bufsiz" using True by (simp add: recv_bufsiz_def)
    then obtain d s' where d: "read_op S (min (len - r) recv_bufsiz) s = (Read_bytes d, s')"
      "length d \<le> min (len - r) recv_bufsiz" "d \<noteq> []" "pending s = d @ pending s'"
      using read_prefix [of "min (len - r) recv_bufsiz" s] u less.prems(1) by auto
    define u' where "u' = drop (length d) u"
    have ud: "u = d @ u'" "pending s' = u' @ t"
    proof -
      have "length d \<le> length u" using d(2) less.prems(2) by simp
      moreover have "d @ pending s' = u @ t" using d(4) less.prems(1) by simp
      ultimately show "u = d @ u'" "pending s' = u' @ t"
        by (auto simp: append_eq_append_conv2 u'_def)
    qed
    have "len - (r + length d) < len - r" "length u' = len - (r + length d)" "r + length d \<le> len"
      using True d(2,3) less.prems(2) ud(1) by (auto intro: diff_less_mono2)
    then obtain s'' where "read_content_with_length S len None collect (r + length d) (a @ d) s' =
        (True, (a @ d) @ u', s'')" "pending s'' = t"
      using less.hyps [of "r + length d" s' u' "a @ d"] ud(2) by blast
    then show ?thesis using True d ud(1)
      by (subst read_content_with_length.simps) (simp add: collect_def)
  next
    case False
    then show ?thesis using less.prems by (subst read_content_with_length.simps) simp
  qed
qed

end

lemma take_then_drop:
  "take n (drop p s) @ drop (p + min (length s - p) n) s = drop p s"
proof (cases "n \<le> length s - p")
  case True
  then have "drop (p + min (length s - p) n) s = drop n (drop p s)" by (simp add: add.commute)
  then show ?thesis by (simp only: append_take_drop_id)
qed simp

interpretation buffer_source: byte_source buffer_stream "\<lambda>b. drop (bs_position b) (bs_buffer b)"
  by unfold_locales
    (auto simp: buffer_stream_def bs_read_def Let_def substr_def take_then_drop)

subsection \<open>Sinks\<close>

locale byte_sink =
  fixes S :: "'s Stream" and written :: "'s \<Rightarrow> string"
  assumes writable: "\<exists>s'. is_writable S s = (True, s') \<and> written s' = written s"
    and write_part: "d \<noteq> [] \<Longrightarrow>
      \<exists>n s'. write_op S d s = (int n, s') \<and> 0 < n \<and> n \<le> length d \<and> written s' = written s @ take n d"
begin

lemma write_data_rest:
  "\<exists>s'. write_data_loop S d i s = Some (True, s') \<and> written s' = written s @ drop i d"
proof (induction "length d - i" arbitrary: i s rule: less_induct)
  case less
  show ?case
  proof (cases "i < length d")
    case True
    then obtain n s' where n: "write_op S (drop i d) s = (int n, s')" "0 < n"
      "written s' = written s @ take n (drop i d)"
      using write_part [of "drop i d" s] by auto
    have "length d - (i + n) < length d - i" using n(2) True by simp
    from less.hyps [OF this, of s'] obtain s'' where "write_data_loop S d (i + n) s' = Some (True, s'')"
      "written s'' = written s' @ drop (i + n) d" by blast
    moreover have "take n (drop i d) @ drop (i + n) d = drop i d"
      by (metis add.commute append_take_drop_id drop_drop)
    ultimately show ?thesis using n True by (subst write_data_loop.simps) simp
  next
    case False
    then show ?thesis by (subst write_data_loop.simps) simp
  qed
qed

lemma write_data_all: "\<exists>s'. write_data S d s = Some (True, s') \<and> written s' = written s @ d"
  using write_data_rest [of d 0 s] by (simp add: write_data_def)

lemma emit_ok: "sk_ok k \<Longrightarrow> \<exists>k'. emit S d k = Some k' \<and> sk_ok k' \<and> sk_available k' = sk_available k \<and>
    written (sk_stream k') = written (sk_stream k) @ d"
  using write_data_all [of d "sk_stream k"] by (auto simp: emit_def)

lemma emit_chunk_ok: "sk_ok k \<Longrightarrow> \<exists>k'. emit_chunk S d k = Some k' \<and> sk_ok k' \<and>
    written (sk_stream k') = written (sk_stream k) @ (if d = [] then [] else chunk_of d)"
proof -
  assume k: "sk_ok k"
  obtain s where s: "is_writable S (sk_stream k) = (True, s)" "written s = written (sk_stream k)"
    using writable by blast
  show ?thesis using emit_ok [of "k\<lparr>sk_stream := s\<rparr>" "chunk_of d"] s k by (auto simp: emit_chunk_def)
qed

lemma sink_write_chunked_ok: "sk_ok k \<Longrightarrow> \<exists>k'. sink_write_chunked S d k = Some k' \<and> sk_ok k' \<and>
    written (sk_stream k') = written (sk_stream k) @ (if d = [] then [] else chunk_of d)"
  unfolding sink_write_chunked_def
  using emit_chunk_ok [of "k\<lparr>sk_available := (length d > 0), sk_offset := sk_offset k + length d\<rparr>" d] by simp

lemma sink_done_chunked_ok: "sk_ok k \<Longrightarrow> \<exists>k'. sink_done_chunked S None k = Some k' \<and> sk_ok k' \<and>
    \<not> sk_available k' \<and> written (sk_stream k') = written (sk_stream k) @ ''0'' @ crlf @ crlf"
proof -
  assume "sk_ok k"
  then obtain k1 where k1: "emit S [CHR ''0'', CHR 0x0D, CHR 0x0A] (k\<lparr>sk_available := False\<rparr>) = Some k1"
    "sk_ok k1" "\<not> sk_available k1"
    "written (sk_stream k1) = written (sk_stream k) @ [CHR ''0'', CHR 0x0D, CHR 0x0A]"
    using emit_ok [of "k\<lparr>sk_available := False\<rparr>" "[CHR ''0'', CHR 0x0D, CHR 0x0A]"] by auto
  then obtain k2 where "emit S [CHR 0x0D, CHR 0x0A] k1 = Some k2" "sk_ok k2" "\<not> sk_available k2"
    "written (sk_stream k2) = written (sk_stream k1) @ [CHR 0x0D, CHR 0x0A]"
    using emit_ok [of k1 "[CHR 0x0D, CHR 0x0A]"] by auto
  with k1 \<open>sk_ok k\<close> show ?thesis by (auto simp: sink_done_chunked_def crlf_def)
qed

end

interpretation buffer_sink: byte_sink buffer_stream bs_buffer
  by unfold_locales (auto simp: buffer_stream_def bs_write_def)

subsection \<open>Both directions\<close>

text \<open>A source and a sink in one stream: reading does not touch what is written.\<close>

locale byte_link = byte_source S pending + byte_sink S written
  for S :: "'s Stream" and pending :: "'s \<Rightarrow> string" and written :: "'s \<Rightarrow> string" +
  assumes read_keeps: "0 < n \<Longrightarrow> read_op S n s = (r, s') \<Longrightarrow> written s' = written s"
begin

lemma getline_loop_keeps: "getline_loop S i r s = Some (ok, r', s') \<Longrightarrow> written s' = written s"
proof (induction "length (pending s)" arbitrary: i r s rule: less_induct)
  case less
  show ?case
  proof (cases "pending s")
    case Nil
    then obtain x s1 where "read_op S 1 s = (x, s1)" "x \<in> {Read_error, Read_bytes []}" using read_end [of s 1] by blast
    then show ?thesis using less.prems read_keeps [of 1 s x s1]
      by (subst (asm) getline_loop.simps) auto
  next
    case (Cons c t)
    then obtain s1 where s1: "read_op S 1 s = (Read_bytes [c], s1)" "pending s1 = t" using read_one by blast
    then have "length (pending s1) < length (pending s)" using Cons by simp
    then show ?thesis
      using less.hyps [of s1] less.prems s1(1) read_keeps [OF _ s1(1)]
      by (subst (asm) getline_loop.simps) (auto split: if_splits)
  qed
qed

lemma getline_keeps: "getline S r s = Some (ok, r', s') \<Longrightarrow> written s' = written s"
  unfolding getline_def by (rule getline_loop_keeps)

lemma read_headers_loop_keeps: "read_headers_loop S r hs s = Some (ok, hs', s') \<Longrightarrow> written s' = written s"
proof (induction "length (pending s)" arbitrary: r hs s rule: less_induct)
  case less
  obtain b r1 s1 where g: "getline S r s = Some (b, r1, s1)" "b \<Longrightarrow> length (pending s1) < length (pending s)"
    using getline_returns [of r s] by blast
  show ?case
    using less.hyps [of s1] less.prems g getline_keeps [OF g(1)]
    by (subst (asm) read_headers_loop.simps) (auto split: if_splits)
qed

lemma read_headers_keeps: "read_headers S hs s = Some (ok, hs', s') \<Longrightarrow> written s' = written s"
  unfolding read_headers_def by (rule read_headers_loop_keeps)

end

interpretation buffer_link: byte_link buffer_stream "\<lambda>b. drop (bs_position b) (bs_buffer b)" bs_buffer
  by unfold_locales (auto simp: buffer_stream_def bs_read_def Let_def)

subsection \<open>Headers written and read back\<close>

definition header_line :: "string \<times> string \<Rightarrow> string" where
  "header_line p = fst p @ '': '' @ snd p @ crlf"

text \<open>What a header needs to survive: no separator or line end in it, a value that is not empty and has
  no blank at its ends, no percent sign to decode, and a line that is not too long.\<close>

definition clean_header :: "string \<times> string \<Rightarrow> bool" where
  "clean_header p \<longleftrightarrow>
     set (fst p) \<inter> {CHR '':'', CHR 0x0A, CHR 0x00} = {} \<and> set (snd p) \<inter> {CHR 0x0A, CHR 0x00} = {} \<and>
     snd p \<noteq> [] \<and> \<not> is_space_or_tab (hd (snd p)) \<and> \<not> is_space_or_tab (last (snd p)) \<and>
     CHR ''%'' \<notin> set (snd p) \<and> length (header_line p) \<le> header_max_length"

lemma decode_no_percent: "CHR ''%'' \<notin> set s \<Longrightarrow> decode_url s False = s"
  by (induction s) auto

lemma key_then_colon: "CHR '':'' \<notin> set k \<Longrightarrow>
   takeWhile (\<lambda>c. c \<noteq> CHR '':'') (k @ CHR '':'' # t) = k \<and>
   dropWhile (\<lambda>c. c \<noteq> CHR '':'') (k @ CHR '':'' # t) = CHR '':'' # t"
  by (induction k) auto

lemma parse_clean_header:
  assumes "clean_header (k, v)"
  shows "parse_header (k @ '': '' @ v) = Some (k, v)"
proof -
  have v: "v \<noteq> []" "\<not> is_space_or_tab (hd v)" "\<not> is_space_or_tab (last v)" "CHR ''%'' \<notin> set v"
    and k: "CHR '':'' \<notin> set k"
    using assms by (auto simp: clean_header_def)
  obtain v' c where v': "v = v' @ [c]" using v(1) by (cases v rule: rev_cases) auto
  have "rev (dropWhile is_space_or_tab (rev (k @ '': '' @ v))) = k @ '': '' @ v"
    using v(3) v' by simp
  moreover have "dropWhile is_space_or_tab (CHR '' '' # v) = v"
    using v(1,2) by (cases v) (auto simp: is_space_or_tab_def)
  ultimately show ?thesis
    using key_then_colon [OF k, of "CHR '' '' # v"] v decode_no_percent by (simp add: parse_header_def)
qed

lemma write_header_lines:
  "list_all clean_header hs \<Longrightarrow>
   \<exists>n b'. write_headers_loop buffer_stream hs m b = (n, b') \<and> bs_position b' = bs_position b \<and>
     bs_buffer b' = bs_buffer b @ concat (map header_line hs) @ crlf"
proof (induction hs arbitrary: m b)
  case Nil
  then show ?case by (simp add: buffer_stream_def bs_write_def crlf_def)
next
  case (Cons p hs)
  have c: "c_str (fst p) = fst p" "c_str (snd p) = snd p"
    using Cons.prems by (auto simp: clean_header_def intro!: c_str_whole)
  have "write_headers_loop buffer_stream (p # hs) m b =
      write_headers_loop buffer_stream hs (m + int (length (header_line p)))
        (b\<lparr>bs_buffer := bs_buffer b @ header_line p\<rparr>)"
    using c by (simp add: write_format_def buffer_stream_def bs_write_def header_line_def [of p] crlf_def)
  then show ?case using Cons.IH [of "m + int (length (header_line p))" "b\<lparr>bs_buffer := bs_buffer b @ header_line p\<rparr>"]
      Cons.prems by auto
qed

context byte_source begin

lemma read_header_lines:
  "list_all clean_header hs \<Longrightarrow> pending s = concat (map header_line hs) @ crlf @ t \<Longrightarrow>
   \<exists>s'. read_headers_loop S r acc s =
          Some (True, fold (\<lambda>p. mm_emplace ci_less (fst p) (snd p)) hs acc, s') \<and> pending s' = t"
proof (induction hs arbitrary: s r acc)
  case Nil
  then obtain r' s' where "getline S r s = Some (True, r', s')" "pending s' = t" "line_of r' = [CHR 0x0D] @ [CHR 0x0A]"
    using getline_line [of "[CHR 0x0D]" s t r] by (auto simp: crlf_def)
  then show ?case by (subst read_headers_loop.simps) (simp add: end_with_crlf_line crlf_def)
next
  case (Cons p hs)
  obtain k v where p: "p = (k, v)" by (cases p)
  have c: "clean_header (k, v)" using Cons.prems p by simp
  let ?u = "k @ '': '' @ v @ [CHR 0x0D]"
  have "CHR 0x0A \<notin> set ?u" using c by (auto simp: clean_header_def)
  moreover have "pending s = ?u @ CHR 0x0A # concat (map header_line hs) @ crlf @ t"
    using Cons.prems p header_line_def [of p] by (simp add: crlf_def)
  ultimately obtain r' s' where g: "getline S r s = Some (True, r', s')"
    "pending s' = concat (map header_line hs) @ crlf @ t" "line_of r' = ?u @ [CHR 0x0A]"
    using getline_line by blast
  have l: "line_of r' = header_line p" using g(3) p by (simp add: header_line_def crlf_def)
  then have e: "end_with_crlf r'" by (auto simp: end_with_crlf_line header_line_def)
  have "length (line_of r') \<le> header_max_length" "length (line_of r') \<noteq> 2"
    using l c p by (auto simp: clean_header_def header_line_def crlf_def)
  moreover have "take (length (line_of r') - 2) (line_of r') = k @ '': '' @ v"
    using l p by (simp add: header_line_def crlf_def)
  moreover obtain s'' where "read_headers_loop S r' (mm_emplace ci_less k v acc) s' =
      Some (True, fold (\<lambda>p. mm_emplace ci_less (fst p) (snd p)) hs (mm_emplace ci_less k v acc), s'')"
    "pending s'' = t"
    using Cons.IH [OF _ g(2)] Cons.prems by auto
  ultimately show ?case using g e p parse_clean_header [OF c]
    by (subst read_headers_loop.simps) (simp add: emplace_header_def)
qed

end

text \<open>Headers written to a buffer are read back from it as they were, with what follows them left in
  the stream.\<close>

theorem headers_roundtrip:
  assumes "list_all clean_header hs" and "mm_sorted ci_less hs"
    and "write_headers buffer_stream hs \<lparr>bs_buffer = [], bs_position = 0\<rparr> = (n, b)"
  shows "\<exists>b'. read_headers buffer_stream [] (b\<lparr>bs_buffer := bs_buffer b @ body\<rparr>) = Some (True, hs, b') \<and>
    drop (bs_position b') (bs_buffer b') = body"
proof -
  have b: "bs_buffer b = concat (map header_line hs) @ crlf" "bs_position b = 0"
    using write_header_lines [OF assms(1), of 0 "\<lparr>bs_buffer = [], bs_position = 0\<rparr>"] assms(3)
    by (auto simp: write_headers_def)
  then show ?thesis
    using buffer_source.read_header_lines [OF assms(1), of "b\<lparr>bs_buffer := bs_buffer b @ body\<rparr>" body
        "new_reader 2048" "[]"] ci.emplace_all [of "[]" hs] assms(2)
    by (simp add: read_headers_def)
qed

lemma headers_roundtrip_witness:
  "\<exists>b'. read_headers buffer_stream []
      ((snd (write_headers buffer_stream [(''Host'', ''a b''), (''x'', ''1'')] \<lparr>bs_buffer = [], bs_position = 0\<rparr>))
        \<lparr>bs_buffer := bs_buffer (snd (write_headers buffer_stream [(''Host'', ''a b''), (''x'', ''1'')]
            \<lparr>bs_buffer = [], bs_position = 0\<rparr>)) @ ''rest''\<rparr>) =
      Some (True, [(''Host'', ''a b''), (''x'', ''1'')], b') \<and>
    drop (bs_position b') (bs_buffer b') = ''rest''"
  by (rule headers_roundtrip [where n = "fst (write_headers buffer_stream
        [(''Host'', ''a b''), (''x'', ''1'')] \<lparr>bs_buffer = [], bs_position = 0\<rparr>)"])
    (simp_all add: clean_header_def header_line_def crlf_def is_space_or_tab_def header_max_length_def
      mm_sorted_def to_lower_char_def byte_def)

subsection \<open>A content in chunks, written and read back\<close>

lemma strtoul16_hex: "n < 2 ^ 64 \<Longrightarrow> strtoul16 (from_i_to_hex n @ crlf) = Some n"
proof -
  assume n: "n < 2 ^ 64"
  let ?h = "from_i_to_hex n"
  have h: "?h \<noteq> []" "hex_val ?h = n" "list_all (\<lambda>c. is_hex c \<noteq> None) ?h"
    using from_i_to_hex_digits by blast+
  have plain: "is_hex c \<noteq> None \<Longrightarrow>
      \<not> is_space c \<and> c \<noteq> CHR ''-'' \<and> c \<noteq> CHR ''+'' \<and> c \<noteq> CHR ''x'' \<and> c \<noteq> CHR ''X''" for c
    by (auto simp: is_hex_def is_space_def byte_def)
  obtain c t where ct: "?h = c # t" using h(1) by (cases ?h) auto
  have c: "is_hex c \<noteq> None" using h(3) ct by simp
  have s: "dropWhile is_space (?h @ crlf) = ?h @ crlf" "c \<noteq> CHR ''-''" "c \<noteq> CHR ''+''"
    using plain [OF c] ct by auto
  have x: "(?h @ crlf) ! 1 \<notin> {CHR ''x'', CHR ''X''}"
    using plain h(3) ct by (cases t) (auto simp: crlf_def)
  have "is_hex (CHR 0x0D) = None" by (simp add: is_hex_def byte_def)
  then have "hex_digits (?h @ crlf) = ?h"
    using h(3) by (simp add: hex_digits_def crlf_def list_all_iff takeWhile_append2)
  then show ?thesis using s x h n ct by (simp add: strtoul16_def Let_def)
qed

lemma hex_no_special: "c \<in> set (from_i_to_hex n) \<Longrightarrow> c \<noteq> CHR 0x0A \<and> c \<noteq> CHR 0x00"
proof -
  assume "c \<in> set (from_i_to_hex n)"
  then have "is_hex c \<noteq> None" using from_i_to_hex_digits [of n] by (auto simp: list_all_iff)
  then show ?thesis by (auto simp: is_hex_def byte_def)
qed

definition last_chunk :: string where
  "last_chunk = ''0'' @ crlf @ crlf"

context byte_source begin

lemma read_crlf:
  "pending s = crlf @ t \<Longrightarrow>
   \<exists>r' s'. getline S r s = Some (True, r', s') \<and> pending s' = t \<and> line_of r' = crlf"
  using getline_line [of "[CHR 0x0D]" s t r] by (auto simp: crlf_def)

lemma read_size_line:
  "n < 2 ^ 64 \<Longrightarrow> pending s = from_i_to_hex n @ crlf @ t \<Longrightarrow>
   \<exists>r' s'. getline S r s = Some (True, r', s') \<and> pending s' = t \<and> strtoul16 (c_str (line_of r')) = Some n"
proof -
  assume n: "n < 2 ^ 64" and p: "pending s = from_i_to_hex n @ crlf @ t"
  let ?u = "from_i_to_hex n @ [CHR 0x0D]"
  have "CHR 0x0A \<notin> set ?u" using hex_no_special [of _ n] by auto
  moreover have "pending s = ?u @ CHR 0x0A # t" using p by (simp add: crlf_def)
  ultimately obtain r' s' where g: "getline S r s = Some (True, r', s')" "pending s' = t"
    "line_of r' = ?u @ [CHR 0x0A]" using getline_line by blast
  have "c_str (from_i_to_hex n @ crlf) = from_i_to_hex n @ crlf"
    using hex_no_special [of _ n] by (intro c_str_whole) (auto simp: crlf_def)
  then show ?thesis using g strtoul16_hex [OF n] by (simp add: crlf_def)
qed

lemma read_chunks:
  "list_all (\<lambda>d. d \<noteq> [] \<and> length d < 2 ^ 64 - 1) ds \<Longrightarrow>
   pending s = concat (map chunk_of ds) @ last_chunk @ t \<Longrightarrow>
   \<exists>s'. Option.bind (getline S r s) (\<lambda>(ok, r', s'). if \<not> ok then Some (False, hs, a, s')
          else chunk_loop S collect r' hs a s') = Some (True, hs, a @ concat ds, s') \<and> pending s' = t"
proof (induction ds arbitrary: s r a)
  case Nil
  have "from_i_to_hex 0 = ''0''" by (simp add: from_i_to_hex_def hex_prepend.simps hex_char_def)
  then have "pending s = from_i_to_hex 0 @ crlf @ crlf @ t" using Nil by (simp add: last_chunk_def)
  then obtain r1 s1 where "getline S r s = Some (True, r1, s1)" "pending s1 = crlf @ t"
    "strtoul16 (c_str (line_of r1)) = Some 0" using read_size_line [of 0 s "crlf @ t" r] by auto
  moreover from this obtain r2 s2 where "getline S r1 s1 = Some (True, r2, s2)" "pending s2 = t" "line_of r2 = crlf"
    using read_crlf by blast
  ultimately show ?case
    by (simp add: chunk_loop.simps [of S collect r1] read_trailer.simps [of S r2] c_str_def crlf_def)
next
  case (Cons d ds)
  let ?n = "length d"
  have d: "d \<noteq> []" "?n < 2 ^ 64 - 1" and ds: "list_all (\<lambda>d. d \<noteq> [] \<and> length d < 2 ^ 64 - 1) ds"
    using Cons.prems(1) by auto
  let ?t = "concat (map chunk_of ds) @ last_chunk @ t"
  have "?n < 2 ^ 64" using d by simp
  moreover have "pending s = from_i_to_hex ?n @ crlf @ d @ crlf @ ?t"
    using Cons.prems(2) by (simp add: chunk_of_def [of d] crlf_def)
  ultimately obtain r1 s1 where g1: "getline S r s = Some (True, r1, s1)" "pending s1 = d @ crlf @ ?t"
    "strtoul16 (c_str (line_of r1)) = Some ?n" using read_size_line [of ?n s "d @ crlf @ ?t" r] by blast
  obtain s2 where g2: "read_content_with_length S ?n None collect 0 a s1 = (True, a @ d, s2)"
    "pending s2 = crlf @ ?t" using read_all [OF g1(2), of ?n 0 a] by auto
  obtain r3 s3 where g3: "getline S r1 s2 = Some (True, r3, s3)" "pending s3 = ?t" "line_of r3 = crlf"
    using read_crlf [OF g2(2)] by blast
  have c: "c_str crlf = [CHR 0x0D, CHR 0x0A]" by (simp add: c_str_def crlf_def)
  obtain s' where s': "Option.bind (getline S r3 s3) (\<lambda>(ok, r', s'). if \<not> ok then Some (False, hs, a @ d, s')
      else chunk_loop S collect r' hs (a @ d) s') = Some (True, hs, (a @ d) @ concat ds, s')" "pending s' = t"
    using Cons.IH [OF ds g3(2), of r3 "a @ d"] by blast
  have "chunk_loop S collect r1 hs a s1 = Some (True, hs, (a @ d) @ concat ds, s')"
    using d g1(3) g2(1) g3(1,3) c s'(1) by (subst chunk_loop.simps) simp
  then show ?case using g1(1) s'(2) by simp
qed

end

text \<open>A provider that sends the pieces of a list and then calls \<open>done\<close>.\<close>

fun send_all :: "string list \<Rightarrow> 'w \<Rightarrow> 'w sink_prog" where
  "send_all [] w = Sink_done (Sink_return True w)"
| "send_all (d # ds) w = Sink_write d (\<lambda>ok. send_all ds w)"

context byte_sink begin

lemma run_send_all:
  "sk_ok k \<Longrightarrow>
   \<exists>k'. run_sink (send_all ds w) (sink_write_chunked S) (Some (sink_done_chunked S)) True k = Some (True, Some w, k') \<and>
     sk_ok k' \<and> \<not> sk_available k' \<and>
     written (sk_stream k') = written (sk_stream k) @ concat (map chunk_of (nonempty ds)) @ last_chunk"
proof (induction ds arbitrary: k)
  case Nil
  then show ?case using sink_done_chunked_ok [of k] by (auto simp: last_chunk_def)
next
  case (Cons d ds)
  then obtain k1 where k1: "sink_write_chunked S d k = Some k1" "sk_ok k1"
    "written (sk_stream k1) = written (sk_stream k) @ (if d = [] then [] else chunk_of d)"
    using sink_write_chunked_ok [of k d] by auto
  then show ?case using Cons.IH [OF k1(2)] by (cases d) auto
qed

lemma write_send_all:
  "\<exists>s'. write_content_chunked S (\<lambda>off len. send_all ds) (\<lambda>_. False) w s = Some (Written True (Some Success) w, s') \<and>
     written s' = written s @ concat (map chunk_of (nonempty ds)) @ last_chunk"
proof -
  obtain s1 where s1: "is_writable S s = (True, s1)" "written s1 = written s"
    using writable by blast
  obtain k' where k': "run_sink (send_all ds w) (sink_write_chunked S) (Some (sink_done_chunked S)) True (new_sink 0 s1) =
      Some (True, Some w, k')" "sk_ok k'" "\<not> sk_available k'"
    "written (sk_stream k') = written s @ concat (map chunk_of (nonempty ds)) @ last_chunk"
    using run_send_all [of "new_sink 0 s1" ds w] s1(2) by (auto simp: new_sink_def)
  have "write_chunked_loop S (\<lambda>off len. send_all ds) (\<lambda>_. False) w k' = Some (Written True (Some Success) w, sk_stream k')"
    using k'(3) by (subst write_chunked_loop.simps) simp
  then have "write_chunked_loop S (\<lambda>off len. send_all ds) (\<lambda>_. False) w (new_sink 0 s) =
      Some (Written True (Some Success) w, sk_stream k')"
    using k' by (subst write_chunked_loop.simps) (simp add: s1(1) new_sink_def)
  then show ?thesis using k'(4) by (auto simp: write_content_chunked_def)
qed

end

text \<open>C23: A content sent in pieces with the chunked coding and read back is the pieces in a row, whatever
  the bytes in them; both functions return.\<close>

theorem chunked_roundtrip:
  assumes "list_all (\<lambda>d. length d < 2 ^ 64 - 1) ds"
  shows "\<exists>b b'. write_content_chunked buffer_stream (\<lambda>off len. send_all ds) (\<lambda>_. False) w
             \<lparr>bs_buffer = [], bs_position = 0\<rparr> = Some (Written True (Some Success) w, b) \<and>
           read_content_chunked buffer_stream hs collect [] (b\<lparr>bs_position := 0\<rparr>) = Some (True, hs, concat ds, b')"
proof -
  obtain b where b: "write_content_chunked buffer_stream (\<lambda>off len. send_all ds) (\<lambda>_. False) w
      \<lparr>bs_buffer = [], bs_position = 0\<rparr> = Some (Written True (Some Success) w, b)"
    "bs_buffer b = concat (map chunk_of (nonempty ds)) @ last_chunk"
    using buffer_sink.write_send_all [of ds w "\<lparr>bs_buffer = [], bs_position = 0\<rparr>"] by auto
  have "concat (nonempty ds) = concat ds" by (induction ds) (auto simp: nonempty_def)
  moreover have "list_all (\<lambda>d. d \<noteq> [] \<and> length d < 2 ^ 64 - 1) (nonempty ds)"
    using assms by (auto simp: nonempty_def list_all_iff)
  ultimately show ?thesis
    using b buffer_source.read_chunks [of "nonempty ds" "b\<lparr>bs_position := 0\<rparr>" "[]" "new_reader 16" hs "[]"]
    by (auto simp: read_content_chunked_def)
qed

lemma chunked_roundtrip_witness:
  "\<exists>b b'. write_content_chunked buffer_stream (\<lambda>off len. send_all [''ab'', [], ''c'']) (\<lambda>_. False) ()
             \<lparr>bs_buffer = [], bs_position = 0\<rparr> = Some (Written True (Some Success) (), b) \<and>
           read_content_chunked buffer_stream [] collect [] (b\<lparr>bs_position := 0\<rparr>) =
             Some (True, [], concat [''ab'', [], ''c''], b')"
  by (rule chunked_roundtrip) simp


end
