(* ===== verification/Http_Routing.thy ===== *)
theory Http_Routing
  imports Http_Mime Http_Streams Http_Query
begin

text \<open>
  Request lines and routing of \<open>httplib.h\<close>: the matchers, the handlers a server registers and its
  settings, the choice of a handler, and \<open>parse_request_line\<close>. Matching a \<open>std::regex\<close> given by the
  application is an argument \<open>rx\<close>: the matched strings for a pattern and a path, or \<open>None\<close>;
  \<open>rx_ok\<close> says which patterns \<open>std::regex\<close> accepts.
\<close>

subsection \<open>Matchers\<close>

datatype matcher = PathParamsMatcher "string list" "string list" | RegexMatcher string

text \<open>The loop of the constructor. \<open>names_seen\<close> is the set \<open>param_name_set\<close>, which the code never
  adds to.\<close>

definition sep_after :: "string \<Rightarrow> nat \<Rightarrow> nat" where
  "sep_after s p = (case str_find ''/'' s p of None \<Rightarrow> length s | Some q \<Rightarrow> q)"

lemma marker_progress:
  "str_find '':'' pattern p = Some q \<Longrightarrow> p < Suc (sep_after pattern (Suc q)) \<and> p < length pattern"
  using str_find_bounds [of "'':''" pattern p q] str_find_bounds [of "''/''" pattern "Suc q"]
  by (auto simp: sep_after_def split: option.splits)

function path_params_loop ::
  "string \<Rightarrow> nat \<Rightarrow> string set \<Rightarrow> string list \<Rightarrow> string list \<Rightarrow> (nat \<times> string list \<times> string list) result" where
  "path_params_loop pattern last_param_end names_seen fragments names =
     (case str_find '':'' pattern last_param_end of
        None \<Rightarrow> Inr (last_param_end, fragments, names)
      | Some marker_pos \<Rightarrow>
          (let fragment = substr pattern last_param_end (marker_pos - last_param_end);
               name_start = marker_pos + 1;
               sep_pos = sep_after pattern name_start;
               name = substr pattern name_start (sep_pos - name_start)
           in if name \<in> names_seen
              then Inl (Invalid_argument
                (''Encountered path parameter '' @ [CHR 0x27] @ name @ [CHR 0x27]
                 @ '' multiple times in route pattern '' @ [CHR 0x27] @ pattern @ [CHR 0x27] @ ''.''))
              else path_params_loop pattern (sep_pos + 1) names_seen (fragments @ [fragment]) (names @ [name])))"
  by pat_completeness auto
termination
  by (relation "measure (\<lambda>(pattern, p, seen, fs, ns). length pattern + 1 - p)")
    (auto dest!: marker_progress intro: diff_less_mono2)

declare path_params_loop.simps [simp del]

definition newPathParamsMatcher :: "string \<Rightarrow> matcher result" where
  "newPathParamsMatcher pattern =
     (case path_params_loop pattern 0 {} [] [] of
        Inl e \<Rightarrow> Inl e
      | Inr (p, fragments, names) \<Rightarrow>
          Inr (PathParamsMatcher
                 (fragments @ (if p < length pattern then [drop p pattern] else [])) names))"

text \<open>\<open>strncmp\<close> stops at a null byte.\<close>

definition strncmp_eq :: "string \<Rightarrow> string \<Rightarrow> nat \<Rightarrow> bool" where
  "strncmp_eq a b n \<longleftrightarrow> c_str (take n a) = c_str (take n b)"

definition map_emplace :: "string \<Rightarrow> string \<Rightarrow> (string \<rightharpoonup> string) \<Rightarrow> (string \<rightharpoonup> string)" where
  "map_emplace k v m = (if m k = None then m(k \<mapsto> v) else m)"

fun path_params_match ::
  "string list \<Rightarrow> string list \<Rightarrow> string \<Rightarrow> nat \<Rightarrow> (string \<rightharpoonup> string) \<Rightarrow> bool \<times> (string \<rightharpoonup> string)" where
  "path_params_match [] names path pos params = (pos \<ge> length path, params)"
| "path_params_match (f # fs) names path pos params =
     (if pos + length f > length path then (False, params)
      else if \<not> strncmp_eq (drop pos path) f (length f) then (False, params)
      else let pos' = pos + length f in
        case names of
          [] \<Rightarrow> path_params_match fs [] path pos' params
        | n # ns \<Rightarrow>
            (let sep_pos = sep_after path pos'
             in path_params_match fs ns path (sep_pos + 1)
                  (map_emplace n (substr path pos' (sep_pos - pos')) params)))"

fun match ::
  "(string \<Rightarrow> string \<Rightarrow> string list option) \<Rightarrow> matcher \<Rightarrow> 'w Request \<Rightarrow> bool \<times> 'w Request" where
  "match rx (PathParamsMatcher fragments names) req =
     (case path_params_match fragments names (rq_path req) 0 Map.empty of
        (b, params) \<Rightarrow> (b, req\<lparr>rq_matches := [], rq_path_params := params\<rparr>))"
| "match rx (RegexMatcher pattern) req =
     (case rx pattern (rq_path req) of
        Some ms \<Rightarrow> (True, req\<lparr>rq_path_params := Map.empty, rq_matches := ms\<rparr>)
      | None \<Rightarrow> (False, req\<lparr>rq_path_params := Map.empty, rq_matches := []\<rparr>))"

definition make_matcher :: "(string \<Rightarrow> bool) \<Rightarrow> string \<Rightarrow> matcher result" where
  "make_matcher rx_ok pattern =
     (if str_find ''/:'' pattern 0 \<noteq> None then newPathParamsMatcher pattern
      else if rx_ok pattern then Inr (RegexMatcher pattern)
      else Inl (Runtime_error ''regex_error''))"

subsection \<open>Handlers\<close>

text \<open>A callback gets the request, may change the response and the world, and may leave with an
  exception.\<close>

datatype thrown = Std_exception string | Other_exception

datatype HandlerResponse = Handled | Unhandled

type_synonym 'w Handler = "'w Request \<Rightarrow> 'w Response \<Rightarrow> 'w \<Rightarrow> thrown option \<times> 'w Response \<times> 'w"
type_synonym 'w HandlerWithResponse =
  "'w Request \<Rightarrow> 'w Response \<Rightarrow> 'w \<Rightarrow> (thrown + HandlerResponse) \<times> 'w Response \<times> 'w"
type_synonym 'w ExceptionHandler =
  "'w Request \<Rightarrow> 'w Response \<Rightarrow> thrown \<Rightarrow> 'w \<Rightarrow> thrown option \<times> 'w Response \<times> 'w"

record MountPointEntry =
  mp_mount_point :: string
  mp_base_dir :: string
  mp_headers :: Headers

text \<open>\<open>'r\<close> is the type of handlers with a content reader.\<close>

record ('w, 'r) HttpServer =
  keep_alive_max_count :: nat
  keep_alive_timeout_sec :: int
  read_timeout :: "int \<times> int"
  write_timeout :: "int \<times> int"
  idle_interval :: "int \<times> int"
  payload_max_length :: nat
  base_dirs :: "MountPointEntry list"
  file_extension_and_mimetype_map :: "string \<rightharpoonup> string"
  default_file_mimetype :: string
  file_request_handler :: "'w Handler option"
  get_handlers :: "(matcher \<times> 'w Handler) list"
  post_handlers :: "(matcher \<times> 'w Handler) list"
  post_handlers_for_content_reader :: "(matcher \<times> 'r) list"
  put_handlers :: "(matcher \<times> 'w Handler) list"
  put_handlers_for_content_reader :: "(matcher \<times> 'r) list"
  patch_handlers :: "(matcher \<times> 'w Handler) list"
  patch_handlers_for_content_reader :: "(matcher \<times> 'r) list"
  delete_handlers :: "(matcher \<times> 'w Handler) list"
  delete_handlers_for_content_reader :: "(matcher \<times> 'r) list"
  options_handlers :: "(matcher \<times> 'w Handler) list"
  error_handler :: "'w HandlerWithResponse option"
  exception_handler :: "'w ExceptionHandler option"
  pre_routing_handler :: "'w HandlerWithResponse option"
  post_routing_handler :: "'w Handler option"
  expect_100_continue_handler :: "('w Request \<Rightarrow> 'w Response \<Rightarrow> 'w \<Rightarrow> int \<times> 'w Response \<times> 'w) option"
  http_logger :: "('w Request \<Rightarrow> 'w Response \<Rightarrow> 'w \<Rightarrow> 'w) option"
  address_family :: int
  tcp_nodelay :: bool
  socket_options :: "int \<Rightarrow> 'w \<Rightarrow> 'w"
  default_headers :: Headers
  header_writer :: "Headers \<Rightarrow> BufferStream \<Rightarrow> int \<times> Headers \<times> BufferStream"

subsection \<open>Registration\<close>

text \<open>A pattern that is rejected throws and leaves the server as it was.\<close>

definition register ::
  "(string \<Rightarrow> bool) \<Rightarrow> string \<Rightarrow> 'h \<Rightarrow> ((matcher \<times> 'h) list \<Rightarrow> (matcher \<times> 'h) list) result" where
  "register rx_ok pattern handler =
     (case make_matcher rx_ok pattern of
        Inl e \<Rightarrow> Inl e
      | Inr mt \<Rightarrow> Inr (\<lambda>hs. hs @ [(mt, handler)]))"

definition route_with ::
  "('a \<Rightarrow> ('w, 'r) HttpServer \<Rightarrow> ('w, 'r) HttpServer) \<Rightarrow> 'a result \<Rightarrow> (('w, 'r) HttpServer, unit) eff" where
  "route_with put r sv = (case r of Inl e \<Rightarrow> (Inl e, sv) | Inr f \<Rightarrow> (Inr (), put f sv))"

definition route_Get ::
  "(string \<Rightarrow> bool) \<Rightarrow> string \<Rightarrow> 'w Handler \<Rightarrow> (('w, 'r) HttpServer, unit) eff" where
  "route_Get rx_ok pattern h = route_with (\<lambda>f sv. sv\<lparr>get_handlers := f (get_handlers sv)\<rparr>) (register rx_ok pattern h)"

definition route_Post ::
  "(string \<Rightarrow> bool) \<Rightarrow> string \<Rightarrow> 'w Handler \<Rightarrow> (('w, 'r) HttpServer, unit) eff" where
  "route_Post rx_ok pattern h = route_with (\<lambda>f sv. sv\<lparr>post_handlers := f (post_handlers sv)\<rparr>) (register rx_ok pattern h)"

definition route_Post_reader ::
  "(string \<Rightarrow> bool) \<Rightarrow> string \<Rightarrow> 'r \<Rightarrow> (('w, 'r) HttpServer, unit) eff" where
  "route_Post_reader rx_ok pattern h =
     route_with (\<lambda>f sv. sv\<lparr>post_handlers_for_content_reader := f (post_handlers_for_content_reader sv)\<rparr>)
       (register rx_ok pattern h)"

definition route_Put ::
  "(string \<Rightarrow> bool) \<Rightarrow> string \<Rightarrow> 'w Handler \<Rightarrow> (('w, 'r) HttpServer, unit) eff" where
  "route_Put rx_ok pattern h = route_with (\<lambda>f sv. sv\<lparr>put_handlers := f (put_handlers sv)\<rparr>) (register rx_ok pattern h)"

definition route_Put_reader ::
  "(string \<Rightarrow> bool) \<Rightarrow> string \<Rightarrow> 'r \<Rightarrow> (('w, 'r) HttpServer, unit) eff" where
  "route_Put_reader rx_ok pattern h =
     route_with (\<lambda>f sv. sv\<lparr>put_handlers_for_content_reader := f (put_handlers_for_content_reader sv)\<rparr>)
       (register rx_ok pattern h)"

definition route_Patch ::
  "(string \<Rightarrow> bool) \<Rightarrow> string \<Rightarrow> 'w Handler \<Rightarrow> (('w, 'r) HttpServer, unit) eff" where
  "route_Patch rx_ok pattern h = route_with (\<lambda>f sv. sv\<lparr>patch_handlers := f (patch_handlers sv)\<rparr>) (register rx_ok pattern h)"

definition route_Patch_reader ::
  "(string \<Rightarrow> bool) \<Rightarrow> string \<Rightarrow> 'r \<Rightarrow> (('w, 'r) HttpServer, unit) eff" where
  "route_Patch_reader rx_ok pattern h =
     route_with (\<lambda>f sv. sv\<lparr>patch_handlers_for_content_reader := f (patch_handlers_for_content_reader sv)\<rparr>)
       (register rx_ok pattern h)"

definition route_Delete ::
  "(string \<Rightarrow> bool) \<Rightarrow> string \<Rightarrow> 'w Handler \<Rightarrow> (('w, 'r) HttpServer, unit) eff" where
  "route_Delete rx_ok pattern h = route_with (\<lambda>f sv. sv\<lparr>delete_handlers := f (delete_handlers sv)\<rparr>) (register rx_ok pattern h)"

definition route_Delete_reader ::
  "(string \<Rightarrow> bool) \<Rightarrow> string \<Rightarrow> 'r \<Rightarrow> (('w, 'r) HttpServer, unit) eff" where
  "route_Delete_reader rx_ok pattern h =
     route_with (\<lambda>f sv. sv\<lparr>delete_handlers_for_content_reader := f (delete_handlers_for_content_reader sv)\<rparr>)
       (register rx_ok pattern h)"

definition route_Options ::
  "(string \<Rightarrow> bool) \<Rightarrow> string \<Rightarrow> 'w Handler \<Rightarrow> (('w, 'r) HttpServer, unit) eff" where
  "route_Options rx_ok pattern h = route_with (\<lambda>f sv. sv\<lparr>options_handlers := f (options_handlers sv)\<rparr>) (register rx_ok pattern h)"

text \<open>\<open>is_dir\<close> asks the file system.\<close>

definition set_mount_point ::
  "(string \<Rightarrow> bool) \<Rightarrow> string \<Rightarrow> string \<Rightarrow> Headers \<Rightarrow> ('w, 'r) HttpServer \<Rightarrow> bool \<times> ('w, 'r) HttpServer" where
  "set_mount_point is_dir mount_point dir headers sv =
     (if is_dir dir
      then (let mnt = (if mount_point \<noteq> [] then mount_point else ''/'')
            in if mnt \<noteq> [] \<and> hd mnt = slash
               then (True, sv\<lparr>base_dirs := base_dirs sv @
                       [\<lparr>mp_mount_point = mnt, mp_base_dir = dir, mp_headers = headers\<rparr>]\<rparr>)
               else (False, sv))
      else (False, sv))"

definition set_base_dir ::
  "(string \<Rightarrow> bool) \<Rightarrow> string \<Rightarrow> string \<Rightarrow> ('w, 'r) HttpServer \<Rightarrow> bool \<times> ('w, 'r) HttpServer" where
  "set_base_dir is_dir dir mount_point sv = set_mount_point is_dir mount_point dir [] sv"

fun remove_mount :: "string \<Rightarrow> MountPointEntry list \<Rightarrow> bool \<times> MountPointEntry list" where
  "remove_mount mount_point [] = (False, [])"
| "remove_mount mount_point (e # es) =
     (if mp_mount_point e = mount_point then (True, es)
      else case remove_mount mount_point es of (b, es') \<Rightarrow> (b, e # es'))"

definition remove_mount_point :: "string \<Rightarrow> ('w, 'r) HttpServer \<Rightarrow> bool \<times> ('w, 'r) HttpServer" where
  "remove_mount_point mount_point sv =
     (case remove_mount mount_point (base_dirs sv) of (b, es) \<Rightarrow> (b, sv\<lparr>base_dirs := es\<rparr>))"

definition set_file_extension_and_mimetype_mapping ::
  "string \<Rightarrow> string \<Rightarrow> ('w, 'r) HttpServer \<Rightarrow> ('w, 'r) HttpServer" where
  "set_file_extension_and_mimetype_mapping ext mime sv =
     sv\<lparr>file_extension_and_mimetype_map := (file_extension_and_mimetype_map sv)(ext \<mapsto> mime)\<rparr>"

text \<open>The overload of \<open>set_error_handler\<close> for a handler without a result.\<close>

definition always_handled :: "'w Handler \<Rightarrow> 'w HandlerWithResponse" where
  "always_handled h req res w =
     (case h req res w of
        (None, res', w') \<Rightarrow> (Inr Handled, res', w')
      | (Some e, res', w') \<Rightarrow> (Inl e, res', w'))"

definition set_error_handler :: "'w Handler \<Rightarrow> ('w, 'r) HttpServer \<Rightarrow> ('w, 'r) HttpServer" where
  "set_error_handler h sv = sv\<lparr>error_handler := Some (always_handled h)\<rparr>"

text \<open>The other settings replace one field.\<close>

definition set_default_file_mimetype :: "string \<Rightarrow> ('w, 'r) HttpServer \<Rightarrow> ('w, 'r) HttpServer" where
  "set_default_file_mimetype mime sv = sv\<lparr>default_file_mimetype := mime\<rparr>"

definition set_file_request_handler :: "'w Handler \<Rightarrow> ('w, 'r) HttpServer \<Rightarrow> ('w, 'r) HttpServer" where
  "set_file_request_handler h sv = sv\<lparr>file_request_handler := Some h\<rparr>"

definition set_error_handler_with_response :: "'w HandlerWithResponse \<Rightarrow> ('w, 'r) HttpServer \<Rightarrow> ('w, 'r) HttpServer" where
  "set_error_handler_with_response h sv = sv\<lparr>error_handler := Some h\<rparr>"

definition set_exception_handler :: "'w ExceptionHandler \<Rightarrow> ('w, 'r) HttpServer \<Rightarrow> ('w, 'r) HttpServer" where
  "set_exception_handler h sv = sv\<lparr>exception_handler := Some h\<rparr>"

definition set_pre_routing_handler :: "'w HandlerWithResponse \<Rightarrow> ('w, 'r) HttpServer \<Rightarrow> ('w, 'r) HttpServer" where
  "set_pre_routing_handler h sv = sv\<lparr>pre_routing_handler := Some h\<rparr>"

definition set_post_routing_handler :: "'w Handler \<Rightarrow> ('w, 'r) HttpServer \<Rightarrow> ('w, 'r) HttpServer" where
  "set_post_routing_handler h sv = sv\<lparr>post_routing_handler := Some h\<rparr>"

definition set_logger :: "('w Request \<Rightarrow> 'w Response \<Rightarrow> 'w \<Rightarrow> 'w) \<Rightarrow> ('w, 'r) HttpServer \<Rightarrow> ('w, 'r) HttpServer" where
  "set_logger h sv = sv\<lparr>http_logger := Some h\<rparr>"

definition set_expect_100_continue_handler :: "('w Request \<Rightarrow> 'w Response \<Rightarrow> 'w \<Rightarrow> int \<times> 'w Response \<times> 'w) \<Rightarrow> ('w, 'r) HttpServer \<Rightarrow> ('w, 'r) HttpServer" where
  "set_expect_100_continue_handler h sv = sv\<lparr>expect_100_continue_handler := Some h\<rparr>"

definition set_address_family :: "int \<Rightarrow> ('w, 'r) HttpServer \<Rightarrow> ('w, 'r) HttpServer" where
  "set_address_family family sv = sv\<lparr>address_family := family\<rparr>"

definition set_tcp_nodelay :: "bool \<Rightarrow> ('w, 'r) HttpServer \<Rightarrow> ('w, 'r) HttpServer" where
  "set_tcp_nodelay on sv = sv\<lparr>tcp_nodelay := on\<rparr>"

definition set_socket_options :: "(int \<Rightarrow> 'w \<Rightarrow> 'w) \<Rightarrow> ('w, 'r) HttpServer \<Rightarrow> ('w, 'r) HttpServer" where
  "set_socket_options f sv = sv\<lparr>socket_options := f\<rparr>"

definition set_default_headers :: "Headers \<Rightarrow> ('w, 'r) HttpServer \<Rightarrow> ('w, 'r) HttpServer" where
  "set_default_headers hs sv = sv\<lparr>default_headers := hs\<rparr>"

definition set_header_writer :: "(Headers \<Rightarrow> BufferStream \<Rightarrow> int \<times> Headers \<times> BufferStream) \<Rightarrow> ('w, 'r) HttpServer \<Rightarrow> ('w, 'r) HttpServer" where
  "set_header_writer f sv = sv\<lparr>header_writer := f\<rparr>"

definition set_keep_alive_max_count :: "nat \<Rightarrow> ('w, 'r) HttpServer \<Rightarrow> ('w, 'r) HttpServer" where
  "set_keep_alive_max_count n sv = sv\<lparr>keep_alive_max_count := n\<rparr>"

definition set_keep_alive_timeout :: "int \<Rightarrow> ('w, 'r) HttpServer \<Rightarrow> ('w, 'r) HttpServer" where
  "set_keep_alive_timeout sec sv = sv\<lparr>keep_alive_timeout_sec := sec\<rparr>"

definition set_payload_max_length :: "nat \<Rightarrow> ('w, 'r) HttpServer \<Rightarrow> ('w, 'r) HttpServer" where
  "set_payload_max_length n sv = sv\<lparr>payload_max_length := n\<rparr>"

definition set_read_timeout :: "int \<Rightarrow> int \<Rightarrow> ('w, 'r) HttpServer \<Rightarrow> ('w, 'r) HttpServer" where
  "set_read_timeout sec usec sv = sv\<lparr>read_timeout := (sec, usec)\<rparr>"

definition set_write_timeout :: "int \<Rightarrow> int \<Rightarrow> ('w, 'r) HttpServer \<Rightarrow> ('w, 'r) HttpServer" where
  "set_write_timeout sec usec sv = sv\<lparr>write_timeout := (sec, usec)\<rparr>"

definition set_idle_interval :: "int \<Rightarrow> int \<Rightarrow> ('w, 'r) HttpServer \<Rightarrow> ('w, 'r) HttpServer" where
  "set_idle_interval sec usec sv = sv\<lparr>idle_interval := (sec, usec)\<rparr>"

subsection \<open>Dispatching\<close>

text \<open>The first matching handler is called, with the request as its matcher left it.\<close>

fun dispatch_request ::
  "(string \<Rightarrow> string \<Rightarrow> string list option) \<Rightarrow> (matcher \<times> 'w Handler) list \<Rightarrow>
   'w Request \<Rightarrow> 'w Response \<Rightarrow> 'w \<Rightarrow> (thrown + bool) \<times> 'w Request \<times> 'w Response \<times> 'w" where
  "dispatch_request rx [] req res w = (Inr False, req, res, w)"
| "dispatch_request rx (x # xs) req res w =
     (case match rx (fst x) req of
        (True, req') \<Rightarrow>
          (case snd x req' res w of
             (None, res', w') \<Rightarrow> (Inr True, req', res', w')
           | (Some e, res', w') \<Rightarrow> (Inl e, req', res', w'))
      | (False, req') \<Rightarrow> dispatch_request rx xs req' res w)"

subsection \<open>The request line\<close>

definition http_methods :: "string list" where
  "http_methods = [''GET'', ''HEAD'', ''POST'', ''PUT'', ''DELETE'', ''CONNECT'', ''OPTIONS'', ''TRACE'',
     ''PATCH'', ''PRI'']"

text \<open>The callbacks of \<open>split\<close> with their counter: on the request line and on the target.\<close>

definition line_piece :: "string \<Rightarrow> nat \<times> 'w Request \<Rightarrow> nat \<times> 'w Request" where
  "line_piece p st =
     (case st of (n, req) \<Rightarrow>
        (n + 1,
         if n = 0 then req\<lparr>rq_method := p\<rparr>
         else if n = 1 then req\<lparr>rq_target := p\<rparr>
         else if n = 2 then req\<lparr>rq_version := p\<rparr>
         else req))"

definition target_piece :: "string \<Rightarrow> nat \<times> 'w Request \<Rightarrow> nat \<times> 'w Request" where
  "target_piece p st =
     (case st of (n, req) \<Rightarrow>
        (n + 1,
         if n = 0 then req\<lparr>rq_path := decode_url p False\<rparr>
         else if n = 1 then
           (if length p > 0 then req\<lparr>rq_params := parse_query_text p (rq_params req)\<rparr> else req)
         else req))"

definition parse_request_line :: "string \<Rightarrow> 'w Request \<Rightarrow> bool \<times> 'w Request" where
  "parse_request_line s0 req =
     (let s = c_str s0; n = length s in
      if n < 2 \<or> s ! (n - 2) \<noteq> CHR 0x0D \<or> s ! (n - 1) \<noteq> CHR 0x0A then (False, req)
      else case fold line_piece (split (take (n - 2) s) (CHR '' '')) (0, req) of
        (cnt, r1) \<Rightarrow>
          if cnt \<noteq> 3 then (False, r1)
          else if rq_method r1 \<notin> set http_methods then (False, r1)
          else if rq_version r1 \<noteq> ''HTTP/1.1'' \<and> rq_version r1 \<noteq> ''HTTP/1.0'' then (False, r1)
          else let r2 = r1\<lparr>rq_target := takeWhile (\<lambda>c. c \<noteq> CHR ''#'') (rq_target r1)\<rparr> in
            case fold target_piece (split (rq_target r2) (CHR ''?'')) (0, r2) of
              (cnt2, r3) \<Rightarrow> if cnt2 > 2 then (False, r3) else (True, r3))"

end
