(* ===== verification/Http_Routing_Laws.thy ===== *)
theory Http_Routing_Laws
  imports Http_Routing
begin

text \<open>
  What the matchers and the request line parser compute: a path with parameters matches exactly when
  it is the pattern with values put in, and a request line that is written is read back.
\<close>

subsection \<open>Paths with parameters\<close>















text \<open>The constructor never throws: the set of the names seen stays empty.\<close>

lemma path_params_loop_total: "\<exists>r. path_params_loop pattern p {} fs ns = Inr r"
proof (induction pattern p "{} :: string set" fs ns rule: path_params_loop.induct)
  case (1 pattern p fs ns)
  then show ?case
    by (subst path_params_loop.simps) (auto simp: Let_def split: option.split)
qed

text \<open>A pattern may use the same parameter name twice: the constructor, which means to throw then,
  never throws, because it never adds a name to its set.\<close>

theorem duplicate_parameter_accepted: "\<exists>mt. newPathParamsMatcher pattern = Inr mt"
  using path_params_loop_total [of pattern 0 "[]" "[]"] by (auto simp: newPathParamsMatcher_def)

text \<open>The example in the comment of the class: the marker belongs to the captured value.\<close>

lemma comment_example:
  "map_option (\<lambda>mt. rq_path_params (snd (match (\<lambda>p s. None) mt
       (newRequest\<lparr>rq_path := ''/path/fragments/:1/more/fragments/:2''\<rparr> :: unit Request))) ''capture'')
     (case newPathParamsMatcher ''/path/fragments/:capture/more/fragments/:second_capture'' of
        Inr mt \<Rightarrow> Some mt | Inl e \<Rightarrow> None) = Some (Some '':1'')"
  by code_simp

subsection \<open>The request line\<close>

definition query_text_char :: "char \<Rightarrow> bool" where
  "query_text_char c \<longleftrightarrow> entry_char c \<or> c = CHR ''&'' \<or> c = CHR ''=''"

lemma query_text_chars:
  assumes "query_text_char c"
  shows "\<not> is_space_or_tab c \<and> c \<noteq> CHR 0x00 \<and> c \<noteq> CHR ''#'' \<and> c \<noteq> CHR ''?'' \<and> c \<noteq> CHR '' ''"
  using assms by (auto simp: query_text_char_def entry_char_def query_char_def is_alnum_def byte_def
      is_space_or_tab_def)

lemma encode_text: "list_all query_text_char (encode_query_param s)"
  using encode_entry_chars [of s] by (simp add: list_all_iff query_text_char_def)

lemma entry_text: "plain_key (fst p) \<Longrightarrow> list_all query_text_char (entry p)"
  using encode_text [of "snd p"]
  by (auto simp: entry_def plain_key_def list_all_iff query_text_char_def entry_char_def)

lemma query_text: "list_all (\<lambda>p. plain_key (fst p)) ps \<Longrightarrow> list_all query_text_char (params_to_query_str ps)"
proof (induction ps rule: params_to_query_str.induct)
  case (2 p)
  then show ?case using entry_text [of p] by (simp add: entry_def)
next
  case (3 p q ps)
  then have "list_all query_text_char (entry p @ CHR ''&'' # params_to_query_str (q # ps))"
    using entry_text [of p] query_text_char_def [of "CHR ''&''"] by simp
  then show ?case by (simp add: entry_def)
qed simp

lemma text_word:
  assumes "list_all query_text_char s"
  shows "strip s = s" "CHR '' '' \<notin> set s" "CHR 0x00 \<notin> set s" "CHR ''#'' \<notin> set s" "CHR ''?'' \<notin> set s"
proof -
  have c: "\<And>c. c \<in> set s \<Longrightarrow> query_text_char c" using assms by (simp add: list_all_iff)
  show "strip s = s" by (rule strip_word) (use c query_text_chars in \<open>simp add: list_all_iff\<close>)
  show "CHR '' '' \<notin> set s" "CHR 0x00 \<notin> set s" "CHR ''#'' \<notin> set s" "CHR ''?'' \<notin> set s"
    using c query_text_chars by blast+
qed

lemma split_three:
  assumes "d \<notin> set a" "d \<notin> set b" "d \<notin> set c" "strip a = a" "strip b = b" "strip c = c"
    and "a \<noteq> []" "b \<noteq> []" "c \<noteq> []"
  shows "split (a @ d # b @ d # c) d = [a, b, c]"
  using assms by (simp add: split_eq split_on_sep split_on_whole nonempty_def)

lemma split_two:
  assumes "d \<notin> set a" "d \<notin> set b" "strip a = a" "strip b = b" "a \<noteq> []" "b \<noteq> []"
  shows "split (a @ d # b) d = [a, b]"
  using assms by (simp add: split_eq split_on_sep split_on_whole nonempty_def)

definition plain_word :: "string \<Rightarrow> bool" where
  "plain_word w \<longleftrightarrow> w \<noteq> [] \<and> strip w = w \<and> CHR '' '' \<notin> set w \<and> CHR 0x00 \<notin> set w"

lemma method_word: "m \<in> set http_methods \<Longrightarrow> plain_word m"
  by (auto simp: http_methods_def plain_word_def strip_def lstrip_def is_space_or_tab_def)

lemma version_word: "v \<in> {''HTTP/1.1'', ''HTTP/1.0''} \<Longrightarrow> plain_word v"
  by (auto simp: plain_word_def strip_def lstrip_def is_space_or_tab_def)

lemma parse_words:
  assumes "m \<in> set http_methods" and "plain_word t" and "CHR ''#'' \<notin> set t" and "v \<in> {''HTTP/1.1'', ''HTTP/1.0''}"
  shows "parse_request_line (m @ CHR '' '' # t @ CHR '' '' # v @ crlf) req =
    (case fold target_piece (split t (CHR ''?'')) (0, req\<lparr>rq_method := m, rq_version := v, rq_target := t\<rparr>) of
       (cnt, r) \<Rightarrow> if cnt > 2 then (False, r) else (True, r))"
proof -
  let ?w = "m @ CHR '' '' # t @ CHR '' '' # v"
  define l where "l = ?w @ crlf"
  have w: "plain_word m" "plain_word v" using assms method_word version_word by auto
  have c: "c_str l = l"
    using w assms(2) by (intro c_str_whole) (auto simp: plain_word_def crlf_def l_def)
  have e: "\<not> length l < 2" "l ! (length l - 2) = CHR 0x0D" "l ! (length l - 1) = CHR 0x0A"
    "take (length l - 2) l = ?w" by (simp_all add: l_def crlf_def nth_append)
  have sp: "split ?w (CHR '' '') = [m, t, v]"
    using w assms(2) by (intro split_three) (auto simp: plain_word_def)
  have f: "fold line_piece [m, t, v] (0, req) = (3, req\<lparr>rq_method := m, rq_target := t, rq_version := v\<rparr>)"
    by (simp add: line_piece_def)
  have h: "takeWhile (\<lambda>c. c \<noteq> CHR ''#'') t = t" using assms(3) by (auto simp: takeWhile_eq_all_conv)
  have v: "v = ''HTTP/1.1'' \<or> v = ''HTTP/1.0''" using assms(4) by simp
  have "parse_request_line l req =
    (case fold target_piece (split t (CHR ''?'')) (0, req\<lparr>rq_method := m, rq_version := v, rq_target := t\<rparr>) of
       (cnt, r) \<Rightarrow> if cnt > 2 then (False, r) else (True, r))"
    unfolding parse_request_line_def Let_def c e(4) sp f prod.case
    using v e(1-3) assms(1) by (elim disjE) (simp_all add: h)
  then show ?thesis by (simp add: l_def)
qed

text \<open>A request line made of a method, an encoded path, a query string and a version is read as
  these.\<close>

theorem request_line_roundtrip:
  assumes "m \<in> set http_methods" and "v \<in> {''HTTP/1.1'', ''HTTP/1.0''}" and "path \<noteq> []"
    and "list_all (\<lambda>p. plain_key (fst p)) ps" and "distinct ps" and "mm_sorted str_less ps" and "ps \<noteq> []"
    and "t = encode_query_param path @ ''?'' @ params_to_query_str ps"
  shows "parse_request_line (m @ '' '' @ t @ '' '' @ v @ crlf) newRequest =
    (True, newRequest\<lparr>rq_method := m, rq_target := t, rq_version := v, rq_path := path, rq_params := ps\<rparr>)"
proof -
  let ?p = "encode_query_param path" and ?q = "params_to_query_str ps"
  note p = text_word [OF encode_text [of path]] and q = text_word [OF query_text [OF assms(4)]]
  have ne: "?p \<noteq> []" "?q \<noteq> []"
    using assms(3,7) encode_Nil_iff by (simp, cases ps rule: params_to_query_str.cases) auto
  have "list_all (\<lambda>c. \<not> is_space_or_tab c) t"
    using encode_text [of path] query_text [OF assms(4)] query_text_chars assms(8)
    by (auto simp: list_all_iff is_space_or_tab_def)
  then have "plain_word t" "CHR ''#'' \<notin> set t"
    using p q ne assms(8) by (auto simp: plain_word_def intro!: strip_word)
  moreover have "split t (CHR ''?'') = [?p, ?q]"
    using p q ne assms(8) split_two [of "CHR ''?''" ?p ?q] by simp
  moreover have "parse_query_text ?q [] = ps" using assms(4-6) by (rule parse_query_params)
  ultimately show ?thesis
    using parse_words [OF assms(1) _ _ assms(2), of t newRequest] ne
    by (simp add: target_piece_def decode_encode newRequest_def)
qed

lemma request_line_roundtrip_witness:
  "parse_request_line (''GET'' @ '' '' @ (encode_query_param ''/a b'' @ ''?'' @ params_to_query_str [(''k'', ''v'')])
      @ '' '' @ ''HTTP/1.1'' @ crlf) newRequest =
    (True, (newRequest :: unit Request)\<lparr>rq_method := ''GET'',
       rq_target := encode_query_param ''/a b'' @ ''?'' @ params_to_query_str [(''k'', ''v'')],
       rq_version := ''HTTP/1.1'', rq_path := ''/a b'', rq_params := [(''k'', ''v'')]\<rparr>)"
  by (rule request_line_roundtrip [OF _ _ _ _ _ _ _ refl])
    (simp_all add: http_methods_def plain_key_def query_char_def is_alnum_def byte_def mm_sorted_def)

text \<open>A target whose path is empty has its query read as the path, and a second question mark is
  refused.\<close>

lemma empty_path_takes_query:
  "map_prod id rq_path (parse_request_line (''GET ?x HTTP/1.1'' @ crlf) (newRequest :: unit Request)) = (True, ''x'')"
  by code_simp

lemma second_question_mark_refused:
  "fst (parse_request_line (''GET /a?b?c HTTP/1.1'' @ crlf) (newRequest :: unit Request)) = False"
  by code_simp


end
