(* ===== verification/Http_Multipart.thy ===== *)
theory Http_Multipart
  imports Http_Routing
begin

text \<open>
  \<open>MultipartFormDataParser\<close> of \<open>httplib.h\<close>, which is fed with the pieces of a content as they arrive and
  calls back for the header and the content of every part: its buffer with two indices, the search in
  the buffer, a step of the parser for each of its states, and the loop.  A callback may throw; one that
  is not set throws \<open>bad_function_call\<close>.
\<close>

subsection \<open>The buffer\<close>

text \<open>The states \<open>0\<close> to \<open>4\<close> by the names in their comments.\<close>

datatype form_state = Initial_boundary | New_entry | Part_headers | Part_body | Boundary

record MultipartFormDataParser =
  fp_boundary :: string
  fp_dash_boundary_crlf :: string
  fp_crlf_dash_boundary :: string
  fp_state :: form_state
  fp_is_valid :: bool
  fp_file :: MultipartFormData
  fp_buf :: string
  fp_spos :: nat
  fp_epos :: nat

definition empty_file :: MultipartFormData where
  "empty_file = \<lparr>mf_name = [], mf_content = [], mf_filename = [], mf_content_type = []\<rparr>"

definition newMultipartFormDataParser :: MultipartFormDataParser where
  "newMultipartFormDataParser =
     \<lparr>fp_boundary = [], fp_dash_boundary_crlf = [], fp_crlf_dash_boundary = [], fp_state = Initial_boundary,
      fp_is_valid = False, fp_file = empty_file, fp_buf = [], fp_spos = 0, fp_epos = 0\<rparr>"

definition set_boundary :: "string \<Rightarrow> MultipartFormDataParser \<Rightarrow> MultipartFormDataParser" where
  "set_boundary boundary p =
     p\<lparr>fp_boundary := boundary, fp_dash_boundary_crlf := ''--'' @ boundary @ crlf,
       fp_crlf_dash_boundary := crlf @ ''--'' @ boundary\<rparr>"

definition buf_size :: "MultipartFormDataParser \<Rightarrow> nat" where
  "buf_size p = fp_epos p - fp_spos p"

definition buf_head :: "nat \<Rightarrow> MultipartFormDataParser \<Rightarrow> string" where
  "buf_head l p = substr (fp_buf p) (fp_spos p) l"

definition buf_erase :: "nat \<Rightarrow> MultipartFormDataParser \<Rightarrow> MultipartFormDataParser" where
  "buf_erase n p = p\<lparr>fp_spos := fp_spos p + n\<rparr>"

definition start_with :: "string \<Rightarrow> nat \<Rightarrow> nat \<Rightarrow> string \<Rightarrow> bool" where
  "start_with a spos epos b \<longleftrightarrow> length b \<le> epos - spos \<and> (\<forall>i \<in> set [0..<length b]. a ! (i + spos) = b ! i)"

definition buf_start_with :: "string \<Rightarrow> MultipartFormDataParser \<Rightarrow> bool" where
  "buf_start_with s p = start_with (fp_buf p) (fp_spos p) (fp_epos p) s"

function scan_for :: "string \<Rightarrow> char \<Rightarrow> nat \<Rightarrow> nat \<Rightarrow> nat" where
  "scan_for buf c epos pos =
     (if pos < epos then (if buf ! pos = c then pos else scan_for buf c epos (pos + 1)) else epos)"
  by pat_completeness auto
termination
  by (relation "measure (\<lambda>(buf, c, epos, pos). epos - pos)") auto

declare scan_for.simps [simp del]

lemma scan_for_bounds: "pos \<le> epos \<Longrightarrow> pos \<le> scan_for buf c epos pos \<and> scan_for buf c epos pos \<le> epos"
  by (induction buf c epos pos rule: scan_for.induct) (subst scan_for.simps, fastforce simp: scan_for.simps)

lemma scan_for_progress:
  "off < epos \<Longrightarrow> scan_for buf c epos off \<noteq> epos \<Longrightarrow> epos - Suc (scan_for buf c epos off) < epos - off"
  using scan_for_bounds [of off epos buf c] by arith

function buf_find_loop :: "string \<Rightarrow> nat \<Rightarrow> nat \<Rightarrow> string \<Rightarrow> nat \<Rightarrow> nat" where
  "buf_find_loop buf spos epos s off =
     (if off < epos then
        (if scan_for buf (hd s) epos off = epos then epos - spos
         else if length s > epos - scan_for buf (hd s) epos off then epos - spos
         else if start_with buf (scan_for buf (hd s) epos off) epos s
         then scan_for buf (hd s) epos off - spos
         else buf_find_loop buf spos epos s (scan_for buf (hd s) epos off + 1))
      else epos - spos)"
  by pat_completeness auto
termination
  by (relation "measure (\<lambda>(buf, spos, epos, s, off). epos - off)") (auto intro: scan_for_progress)

declare buf_find_loop.simps [simp del]

definition buf_find :: "string \<Rightarrow> MultipartFormDataParser \<Rightarrow> nat" where
  "buf_find s p = buf_find_loop (fp_buf p) (fp_spos p) (fp_epos p) s (fp_spos p)"

text \<open>The rest of the buffer is moved to its front byte by byte, the buffer grown when it is too
  short, and the new bytes are stored behind.\<close>

definition move_down :: "nat \<Rightarrow> nat \<Rightarrow> string \<Rightarrow> string" where
  "move_down spos n buf = fold (\<lambda>i b. b[i := b ! (spos + i)]) [0..<n] buf"

definition store_at :: "nat \<Rightarrow> string \<Rightarrow> string \<Rightarrow> string" where
  "store_at epos data buf = fold (\<lambda>i b. b[epos + i := data ! i]) [0..<length data] buf"

definition buf_append :: "string \<Rightarrow> MultipartFormDataParser \<Rightarrow> MultipartFormDataParser" where
  "buf_append data p =
     (let remaining_size = buf_size p;
          b1 = (if remaining_size > 0 \<and> fp_spos p > 0
                then move_down (fp_spos p) remaining_size (fp_buf p) else fp_buf p);
          b2 = (if remaining_size + length data > length b1
                then b1 @ replicate (remaining_size + length data - length b1) (CHR 0x00) else b1)
      in p\<lparr>fp_buf := store_at remaining_size data b2, fp_spos := 0,
           fp_epos := remaining_size + length data\<rparr>)"

subsection \<open>A header line of a part\<close>

definition start_with_case_ignore :: "string \<Rightarrow> string \<Rightarrow> bool" where
  "start_with_case_ignore a b \<longleftrightarrow>
     length b \<le> length a \<and> map to_lower_char (take (length b) a) = map to_lower_char b"

text \<open>The group of \<open>^Content-Disposition:\s*form-data;\s*(.*)$\<close> and of \<open>^UTF-8''(.+?)$\<close>, both read
  without regard to case; the period does not match a line end.\<close>

definition match_disposition :: "string \<Rightarrow> string option" where
  "match_disposition h =
     (if \<not> start_with_case_ignore h ''Content-Disposition:'' then None
      else let r = dropWhile is_space (drop 20 h) in
        if \<not> start_with_case_ignore r ''form-data;'' then None
        else let g = dropWhile is_space (drop 10 r) in
          if CHR 0x0A \<in> set g \<or> CHR 0x0D \<in> set g then None else Some g)"

definition match_rfc5987 :: "string \<Rightarrow> string option" where
  "match_rfc5987 v =
     (if start_with_case_ignore v (''UTF-8'' @ [CHR 0x27, CHR 0x27]) \<and> drop 7 v \<noteq> []
         \<and> CHR 0x0A \<notin> set (drop 7 v) \<and> CHR 0x0D \<notin> set (drop 7 v)
      then Some (drop 7 v) else None)"

text \<open>False when the line is not accepted.\<close>

definition part_header_line :: "string \<Rightarrow> MultipartFormData \<Rightarrow> bool \<times> MultipartFormData" where
  "part_header_line h fl =
     (if start_with_case_ignore h ''content-type:''
      then (True, fl\<lparr>mf_content_type := trim_copy (drop 13 h)\<rparr>)
      else case match_disposition h of
        None \<Rightarrow> (False, fl)
      | Some m \<Rightarrow>
          (let params = parse_disposition_params m [] in
           case mm_find str_less ''name'' params of
             None \<Rightarrow> (False, fl)
           | Some nm \<Rightarrow>
               (let fl1 = fl\<lparr>mf_name := nm\<rparr>;
                    fl2 = (case mm_find str_less ''filename'' params of
                             None \<Rightarrow> fl1 | Some fn \<Rightarrow> fl1\<lparr>mf_filename := fn\<rparr>)
                in case mm_find str_less ''filename*'' params of
                     None \<Rightarrow> (True, fl2)
                   | Some v \<Rightarrow>
                       (case match_rfc5987 v of
                          None \<Rightarrow> (False, fl2)
                        | Some g \<Rightarrow> (True, fl2\<lparr>mf_filename := decode_url g False\<rparr>)))))"

subsection \<open>The parser\<close>

type_synonym 'a content_callback = "string \<Rightarrow> 'a \<Rightarrow> (thrown + bool) \<times> 'a"
type_synonym 'a header_callback = "MultipartFormData \<Rightarrow> 'a \<Rightarrow> (thrown + bool) \<times> 'a"

definition call_back :: "('x \<Rightarrow> 'a \<Rightarrow> (thrown + bool) \<times> 'a) option \<Rightarrow> 'x \<Rightarrow> 'a \<Rightarrow> (thrown + bool) \<times> 'a" where
  "call_back f x a =
     (case f of None \<Rightarrow> (Inl (Std_exception ''bad_function_call''), a) | Some g \<Rightarrow> g x a)"

text \<open>A step ends the call of \<open>parse\<close> or goes round its loop.\<close>

datatype 'a parse_step =
    Returns "thrown + bool" MultipartFormDataParser 'a
  | Again MultipartFormDataParser 'a

definition invalid :: "MultipartFormDataParser \<Rightarrow> 'a \<Rightarrow> 'a parse_step" where
  "invalid p a = Returns (Inr False) (p\<lparr>fp_is_valid := False\<rparr>) a"

definition parse_initial :: "MultipartFormDataParser \<Rightarrow> 'a \<Rightarrow> 'a parse_step" where
  "parse_initial p a =
     (let p1 = buf_erase (buf_find (fp_dash_boundary_crlf p) p) p in
      if length (fp_dash_boundary_crlf p) > buf_size p1 then Returns (Inr True) p1 a
      else if \<not> buf_start_with (fp_dash_boundary_crlf p) p1 then Returns (Inr False) p1 a
      else Again ((buf_erase (length (fp_dash_boundary_crlf p)) p1)\<lparr>fp_state := New_entry\<rparr>) a)"

definition parse_new_entry :: "MultipartFormDataParser \<Rightarrow> 'a \<Rightarrow> 'a parse_step" where
  "parse_new_entry p a =
     Again (p\<lparr>fp_file := (fp_file p)\<lparr>mf_name := [], mf_filename := [], mf_content_type := []\<rparr>,
              fp_state := Part_headers\<rparr>) a"

text \<open>The loop over the header lines that are complete.\<close>

function header_lines ::
  "'a header_callback option \<Rightarrow> nat \<Rightarrow> MultipartFormDataParser \<Rightarrow> 'a \<Rightarrow> 'a parse_step" where
  "header_lines on_header pos p a =
     (if pos < buf_size p then
        (if pos = 0 then
           (case call_back on_header (fp_file p) a of
              (Inl e, a') \<Rightarrow> Returns (Inl e) p a'
            | (Inr b, a') \<Rightarrow>
                (if \<not> b then invalid p a'
                 else Again ((buf_erase 2 p)\<lparr>fp_state := Part_body\<rparr>) a'))
         else
           (case part_header_line (buf_head pos p) (fp_file p) of
              (ok, fl) \<Rightarrow>
                (if \<not> ok then invalid (p\<lparr>fp_file := fl\<rparr>) a
                 else let p1 = buf_erase (pos + 2) (p\<lparr>fp_file := fl\<rparr>)
                      in header_lines on_header (buf_find crlf p1) p1 a)))
      else Returns (Inr True) p a)"
  by pat_completeness auto
termination
  by (relation "measure (\<lambda>(h, pos, p, a). buf_size p)") (auto simp: buf_size_def buf_erase_def)

declare header_lines.simps [simp del]

definition parse_part_headers ::
  "'a header_callback option \<Rightarrow> MultipartFormDataParser \<Rightarrow> 'a \<Rightarrow> 'a parse_step" where
  "parse_part_headers on_header p a =
     (let pos = buf_find crlf p in
      if pos > header_max_length then Returns (Inr False) p a else header_lines on_header pos p a)"

definition parse_part_body ::
  "'a content_callback option \<Rightarrow> MultipartFormDataParser \<Rightarrow> 'a \<Rightarrow> 'a parse_step" where
  "parse_part_body on_content p a =
     (if length (fp_crlf_dash_boundary p) > buf_size p then Returns (Inr True) p a
      else let pos = buf_find (fp_crlf_dash_boundary p) p in
      if pos < buf_size p then
        (case call_back on_content (buf_head pos p) a of
           (Inl e, a') \<Rightarrow> Returns (Inl e) p a'
         | (Inr b, a') \<Rightarrow>
             (if \<not> b then invalid p a'
              else Again ((buf_erase (pos + length (fp_crlf_dash_boundary p)) p)\<lparr>fp_state := Boundary\<rparr>) a'))
      else let len = buf_size p - length (fp_crlf_dash_boundary p) in
        if len > 0 then
          (case call_back on_content (buf_head len p) a of
             (Inl e, a') \<Rightarrow> Returns (Inl e) p a'
           | (Inr b, a') \<Rightarrow> if \<not> b then invalid p a' else Returns (Inr True) (buf_erase len p) a')
        else Returns (Inr True) p a)"

definition parse_boundary :: "MultipartFormDataParser \<Rightarrow> 'a \<Rightarrow> 'a parse_step" where
  "parse_boundary p a =
     (if buf_size p < 2 then Returns (Inr True) p a
      else if buf_start_with crlf p then Again ((buf_erase 2 p)\<lparr>fp_state := New_entry\<rparr>) a
      else if buf_start_with ''--'' p
      then Again (let p1 = (buf_erase 2 p)\<lparr>fp_is_valid := True\<rparr> in buf_erase (buf_size p1) p1) a
      else Returns (Inr True) p a)"

definition parse_step ::
  "'a content_callback option \<Rightarrow> 'a header_callback option \<Rightarrow> MultipartFormDataParser \<Rightarrow> 'a \<Rightarrow> 'a parse_step" where
  "parse_step on_content on_header p a =
     (case fp_state p of
        Initial_boundary \<Rightarrow> parse_initial p a
      | New_entry \<Rightarrow> parse_new_entry p a
      | Part_headers \<Rightarrow> parse_part_headers on_header p a
      | Part_body \<Rightarrow> parse_part_body on_content p a
      | Boundary \<Rightarrow> parse_boundary p a)"

text \<open>A round takes bytes from the buffer or goes on to a later state.\<close>

fun state_rank :: "form_state \<Rightarrow> nat" where
  "state_rank Initial_boundary = 4"
| "state_rank New_entry = 3"
| "state_rank Part_headers = 2"
| "state_rank Part_body = 1"
| "state_rank Boundary = 0"

lemma header_lines_progress:
  "header_lines on_header pos p a = Again p' a' \<Longrightarrow> buf_size p' < buf_size p"
proof (induction on_header pos p a rule: header_lines.induct)
  case (1 on_header pos p a)
  show ?case
  proof (cases "pos < buf_size p \<and> pos \<noteq> 0 \<and> fst (part_header_line (buf_head pos p) (fp_file p))")
    case True
    let ?p1 = "buf_erase (pos + 2) (p\<lparr>fp_file := snd (part_header_line (buf_head pos p) (fp_file p))\<rparr>)"
    have "header_lines on_header (buf_find crlf ?p1) ?p1 a = Again p' a'"
      using "1.prems" True by (subst (asm) header_lines.simps) (simp add: case_prod_beta Let_def)
    then have "buf_size p' < buf_size ?p1"
      using "1.IH" True by (metis prod.collapse)
    then show ?thesis by (simp add: buf_size_def buf_erase_def)
  next
    case False
    then show ?thesis
      using "1.prems"
      by (subst (asm) header_lines.simps)
        (auto simp: invalid_def buf_size_def buf_erase_def split: if_splits prod.splits sum.splits)
  qed
qed

lemma parse_step_progress:
  "parse_step on_content on_header p a = Again p' a' \<Longrightarrow> buf_size p > 0 \<Longrightarrow>
   buf_size p' < buf_size p \<or> buf_size p' = buf_size p \<and> state_rank (fp_state p') < state_rank (fp_state p)"
  by (cases "fp_state p")
    (auto simp: parse_step_def parse_initial_def parse_new_entry_def parse_part_headers_def
      parse_part_body_def parse_boundary_def Let_def invalid_def buf_size_def buf_erase_def
      split: if_splits prod.splits sum.splits dest: header_lines_progress [unfolded buf_size_def])

function parse_loop ::
  "'a content_callback option \<Rightarrow> 'a header_callback option \<Rightarrow> MultipartFormDataParser \<Rightarrow> 'a \<Rightarrow>
   (thrown + bool) \<times> MultipartFormDataParser \<times> 'a" where
  "parse_loop on_content on_header p a =
     (if buf_size p > 0 then
        (case parse_step on_content on_header p a of
           Returns r p' a' \<Rightarrow> (r, p', a')
         | Again p' a' \<Rightarrow> parse_loop on_content on_header p' a')
      else (Inr True, p, a))"
  by pat_completeness auto
termination
  by (relation "measures [\<lambda>(c, h, p, a). buf_size p, \<lambda>(c, h, p, a). state_rank (fp_state p)]")
    (auto dest: parse_step_progress)

declare parse_loop.simps [simp del]

definition parse_form_data ::
  "string \<Rightarrow> 'a content_callback option \<Rightarrow> 'a header_callback option \<Rightarrow> MultipartFormDataParser \<Rightarrow> 'a \<Rightarrow>
   (thrown + bool) \<times> MultipartFormDataParser \<times> 'a" where
  "parse_form_data data on_content on_header p a = parse_loop on_content on_header (buf_append data p) a"


end
