(* ===== verification/Http_Multipart_Laws.thy ===== *)
theory Http_Multipart_Laws
  imports Http_Multipart
begin

text \<open>
  The parser of form data works on a string, the bytes of its buffer that are not consumed yet; and it
  reads back what \<open>serialize_multipart_formdata\<close> writes, however the text is cut into pieces, once the
  first piece holds the first boundary line.
\<close>

subsection \<open>The buffer holds a string\<close>

definition fp_data :: "MultipartFormDataParser \<Rightarrow> string" where
  "fp_data p = take (fp_epos p - fp_spos p) (drop (fp_spos p) (fp_buf p))"

definition fp_ok :: "MultipartFormDataParser \<Rightarrow> bool" where
  "fp_ok p \<longleftrightarrow> fp_spos p \<le> fp_epos p \<and> fp_epos p \<le> length (fp_buf p)"

lemma fp_data_length: "fp_ok p \<Longrightarrow> length (fp_data p) = buf_size p"
  by (auto simp: fp_ok_def fp_data_def buf_size_def)

lemma fp_ok_upd [simp]:
  "fp_ok (p\<lparr>fp_state := st\<rparr>) = fp_ok p" "fp_ok (p\<lparr>fp_file := fl\<rparr>) = fp_ok p"
  "fp_ok (p\<lparr>fp_is_valid := v\<rparr>) = fp_ok p"
  by (simp_all add: fp_ok_def)

lemma fp_data_upd [simp]:
  "fp_data (p\<lparr>fp_state := st\<rparr>) = fp_data p" "fp_data (p\<lparr>fp_file := fl\<rparr>) = fp_data p"
  "fp_data (p\<lparr>fp_is_valid := v\<rparr>) = fp_data p"
  by (simp_all add: fp_data_def)

lemma buf_size_upd [simp]:
  "buf_size (p\<lparr>fp_state := st\<rparr>) = buf_size p" "buf_size (p\<lparr>fp_file := fl\<rparr>) = buf_size p"
  "buf_size (p\<lparr>fp_is_valid := v\<rparr>) = buf_size p"
  by (simp_all add: buf_size_def)

lemma buf_erase_fields [simp]:
  "fp_state (buf_erase n p) = fp_state p" "fp_file (buf_erase n p) = fp_file p"
  "fp_is_valid (buf_erase n p) = fp_is_valid p"
  "fp_dash_boundary_crlf (buf_erase n p) = fp_dash_boundary_crlf p"
  "fp_crlf_dash_boundary (buf_erase n p) = fp_crlf_dash_boundary p"
  by (simp_all add: buf_erase_def)

lemma buf_head_data: "fp_ok p \<Longrightarrow> n \<le> buf_size p \<Longrightarrow> buf_head n p = take n (fp_data p)"
  by (simp add: buf_head_def substr_def fp_data_def buf_size_def min_absorb1)

lemma buf_erase_data:
  assumes "fp_ok p" and "n \<le> buf_size p"
  shows "fp_ok (buf_erase n p)" and "fp_data (buf_erase n p) = drop n (fp_data p)"
  using assms by (auto simp: fp_ok_def fp_data_def buf_erase_def buf_size_def drop_take add.commute)

lemma buf_erase_size: "buf_size (buf_erase n p) = buf_size p - n"
  by (simp add: buf_size_def buf_erase_def)

lemma start_with_take:
  assumes "spos \<le> epos" and "epos \<le> length a"
  shows "start_with a spos epos b \<longleftrightarrow> length b \<le> epos - spos \<and> take (length b) (drop spos a) = b"
proof (cases "length b \<le> epos - spos")
  case True
  then have "start_with a spos epos b \<longleftrightarrow> (\<forall>i < length b. drop spos a ! i = b ! i)"
    using assms by (auto simp: start_with_def add.commute)
  also have "\<dots> \<longleftrightarrow> take (length b) (drop spos a) = b"
    using True assms by (auto simp: list_eq_iff_nth_eq)
  finally show ?thesis using True by simp
qed (simp add: start_with_def)

lemma buf_start_with_data:
  "fp_ok p \<Longrightarrow> buf_start_with s p \<longleftrightarrow> length s \<le> buf_size p \<and> take (length s) (fp_data p) = s"
  by (auto simp: buf_start_with_def start_with_take fp_ok_def fp_data_def buf_size_def min_absorb1)

text \<open>Appending.\<close>

lemma fold_update_nth:
  "epos + length xs \<le> length buf \<Longrightarrow>
   fold (\<lambda>i b. b[epos + i := xs ! i]) [0..<length xs] buf =
     take epos buf @ xs @ drop (epos + length xs) buf"
proof (induction xs rule: rev_induct)
  case (snoc x xs)
  have "fold (\<lambda>i b. b[epos + i := (xs @ [x]) ! i]) [0..<length xs] buf =
        fold (\<lambda>i b. b[epos + i := xs ! i]) [0..<length xs] buf"
    by (rule fold_cong) (auto simp: nth_append)
  then show ?case
    using snoc by (simp add: list_update_append Cons_nth_drop_Suc [symmetric] min_absorb2)
qed simp

lemma store_at_data:
  "epos + length d \<le> length buf \<Longrightarrow> store_at epos d buf = take epos buf @ d @ drop (epos + length d) buf"
  by (simp add: store_at_def fold_update_nth)

lemma move_down_nth:
  assumes "spos + n \<le> length buf"
  shows "length (move_down spos n buf) = length buf \<and>
    (\<forall>j < length buf. move_down spos n buf ! j = (if j < n then buf ! (spos + j) else buf ! j))"
  using assms
proof (induction n)
  case (Suc n)
  let ?b = "move_down spos n buf"
  have "move_down spos (Suc n) buf = ?b[n := ?b ! (spos + n)]" by (simp add: move_down_def)
  then show ?case
    using Suc by (auto simp: nth_list_update less_Suc_eq)
qed (simp add: move_down_def)

lemma move_down_take:
  assumes "spos + n \<le> length buf"
  shows "length (move_down spos n buf) = length buf" and "take n (move_down spos n buf) = take n (drop spos buf)"
  using move_down_nth [OF assms] assms by (auto simp: list_eq_iff_nth_eq)

lemma buf_append_data:
  assumes "fp_ok p"
  shows "fp_ok (buf_append d p)" and "fp_data (buf_append d p) = fp_data p @ d"
proof -
  let ?n = "buf_size p"
  let ?b1 = "if ?n > 0 \<and> fp_spos p > 0 then move_down (fp_spos p) ?n (fp_buf p) else fp_buf p"
  let ?b2 = "if ?n + length d > length ?b1
             then ?b1 @ replicate (?n + length d - length ?b1) (CHR 0x00) else ?b1"
  have n: "fp_spos p + ?n \<le> length (fp_buf p)" using assms by (auto simp: fp_ok_def buf_size_def)
  have t: "take ?n ?b1 = fp_data p"
    using move_down_take [OF n] by (auto simp: fp_data_def buf_size_def)
  have l: "length ?b1 = length (fp_buf p)" using move_down_take [OF n] by simp
  have "take ?n ?b2 = fp_data p" using t l n by auto
  moreover have "?n + length d \<le> length ?b2" by auto
  ultimately have s: "store_at ?n d ?b2 = fp_data p @ d @ drop (?n + length d) ?b2"
    by (simp add: store_at_data)
  have f: "buf_append d p = p\<lparr>fp_buf := store_at ?n d ?b2, fp_spos := 0, fp_epos := ?n + length d\<rparr>"
    by (simp add: buf_append_def Let_def)
  have m: "length (fp_data p) = ?n" using assms by (rule fp_data_length)
  define u where "u = store_at ?n d ?b2"
  define v where "v = drop (?n + length d) ?b2"
  have "u = fp_data p @ d @ v" and g: "buf_append d p = p\<lparr>fp_buf := u, fp_spos := 0, fp_epos := ?n + length d\<rparr>"
    using s f by (simp_all only: u_def v_def)
  then have "length u \<ge> ?n + length d" and "take (?n + length d) u = fp_data p @ d" using m by simp_all
  then show "fp_ok (buf_append d p)" and "fp_data (buf_append d p) = fp_data p @ d"
    unfolding g by (simp add: fp_ok_def, simp only: fp_data_def) simp
qed

lemma buf_append_fields [simp]:
  "fp_state (buf_append d p) = fp_state p" "fp_file (buf_append d p) = fp_file p"
  "fp_is_valid (buf_append d p) = fp_is_valid p"
  "fp_dash_boundary_crlf (buf_append d p) = fp_dash_boundary_crlf p"
  "fp_crlf_dash_boundary (buf_append d p) = fp_crlf_dash_boundary p"
  by (simp_all add: buf_append_def Let_def)

text \<open>Searching: the position of the first occurrence, the length of the text when there is none.\<close>

definition find_index :: "string \<Rightarrow> string \<Rightarrow> nat" where
  "find_index s t = (case find_at s t of Some i \<Rightarrow> i | None \<Rightarrow> length t)"

lemma find_index_skip:
  "s \<noteq> [] \<Longrightarrow> hd s \<notin> set u \<Longrightarrow> find_index s (u @ v) = length u + find_index s v"
  using find_at_skip [of s "hd s" "tl s" u v] by (auto simp: find_index_def split: option.split)

lemma find_index_short: "length t < length s \<Longrightarrow> find_index s t = length t"
proof -
  assume "length t < length s"
  then have "find_at s t = None"
    using find_at_match [of s t] by (cases "find_at s t") fastforce+
  then show ?thesis by (simp add: find_index_def)
qed

lemma find_index_here: "length s \<le> length t \<Longrightarrow> take (length s) t = s \<Longrightarrow> find_index s t = 0"
  by (cases t) (auto simp: find_index_def)

lemma find_index_next: "take (length s) (c # t) \<noteq> s \<Longrightarrow> find_index s (c # t) = Suc (find_index s t)"
  by (auto simp: find_index_def split: option.split)

lemma scan_for_split:
  assumes "off \<le> epos" and "epos \<le> length buf"
  shows "c \<notin> set (take (scan_for buf c epos off - off) (drop off buf)) \<and>
         (scan_for buf c epos off < epos \<longrightarrow> buf ! scan_for buf c epos off = c)"
  using assms
proof (induction buf c epos off rule: scan_for.induct)
  case (1 buf c epos off)
  show ?case
  proof (cases "off < epos \<and> buf ! off \<noteq> c")
    case True
    then have e: "scan_for buf c epos off = scan_for buf c epos (Suc off)"
      by (subst scan_for.simps) simp
    have i: "Suc off \<le> scan_for buf c epos (Suc off)" using True scan_for_bounds by (metis Suc_leI)
    have "drop off buf = buf ! off # drop (Suc off) buf" using True "1.prems" by (simp add: Cons_nth_drop_Suc)
    then have "take (scan_for buf c epos off - off) (drop off buf) =
        buf ! off # take (scan_for buf c epos (Suc off) - Suc off) (drop (Suc off) buf)"
      using i e by (cases "scan_for buf c epos (Suc off) - off") (simp_all add: Suc_diff_Suc [symmetric])
    then show ?thesis using True 1 e by auto
  next
    case False
    then have "scan_for buf c epos off = off" using "1.prems" by (subst scan_for.simps) auto
    then show ?thesis using False by (cases "off < epos") auto
  qed
qed

lemma take_drop_split:
  "off \<le> pos \<Longrightarrow> pos \<le> epos \<Longrightarrow>
   take (epos - off) (drop off buf) = take (pos - off) (drop off buf) @ take (epos - pos) (drop pos buf)"
  using take_add [of "pos - off" "epos - pos" "drop off buf"] by simp

lemma buf_find_loop_index:
  assumes "s \<noteq> []" and "spos \<le> off" and "off \<le> epos" and "epos \<le> length buf"
  shows "buf_find_loop buf spos epos s off = off - spos + find_index s (take (epos - off) (drop off buf))"
  using assms
proof (induction buf spos epos s off rule: buf_find_loop.induct)
  case (1 buf spos epos s off)
  define pos where "pos = scan_for buf (hd s) epos off"
  have b: "off \<le> pos" "pos \<le> epos" using scan_for_bounds "1.prems" by (auto simp: pos_def)
  let ?u = "take (pos - off) (drop off buf)" and ?v = "take (epos - pos) (drop pos buf)"
  have u: "hd s \<notin> set ?u" using scan_for_split "1.prems" by (auto simp: pos_def)
  have lu: "length ?u = pos - off" and lv: "length ?v = epos - pos" using b "1.prems" by auto
  have skip: "find_index s (take (epos - off) (drop off buf)) = pos - off + find_index s ?v"
    using find_index_skip [OF "1.prems"(1) u, of ?v] take_drop_split [OF b, of buf] lu by simp
  have e: "buf_find_loop buf spos epos s off =
     (if off < epos then
        (if pos = epos then epos - spos
         else if length s > epos - pos then epos - spos
         else if start_with buf pos epos s then pos - spos
         else buf_find_loop buf spos epos s (pos + 1))
      else epos - spos)"
    by (subst buf_find_loop.simps) (simp add: pos_def)
  have "0 < length s" and "off \<le> epos" using "1.prems" by auto
  then consider "off = epos" | "off < epos" "length s > epos - pos"
    | "off < epos" "pos < epos" "length s \<le> epos - pos" by linarith
  then show ?case
  proof cases
    case 1
    then show ?thesis using e "1.prems" b skip find_index_short [of ?v s] by simp
  next
    case 2
    then show ?thesis using e "1.prems" b skip lv find_index_short [of ?v s] by auto
  next
    case 3
    have sw: "start_with buf pos epos s \<longleftrightarrow> take (length s) ?v = s"
      using 3 b "1.prems" by (simp add: start_with_take min_absorb1)
    have v: "?v = buf ! pos # take (epos - (pos + 1)) (drop (pos + 1) buf)"
      using 3 "1.prems" by (simp add: Cons_nth_drop_Suc [symmetric] take_Cons')
    show ?thesis
    proof (cases "start_with buf pos epos s")
      case True
      then show ?thesis using e 3 b skip sw lv find_index_here [of s ?v] "1.prems" by simp
    next
      case False
      have "buf_find_loop buf spos epos s (pos + 1) =
          pos + 1 - spos + find_index s (take (epos - (pos + 1)) (drop (pos + 1) buf))"
        using "1.IH" 3 b False "1.prems" unfolding pos_def by simp
      moreover have "find_index s ?v = Suc (find_index s (take (epos - (pos + 1)) (drop (pos + 1) buf)))"
        using False sw v find_index_next by metis
      ultimately show ?thesis using e 3 b skip False "1.prems" by simp arith
    qed
  qed
qed

lemma buf_find_data: "fp_ok p \<Longrightarrow> s \<noteq> [] \<Longrightarrow> buf_find s p = find_index s (fp_data p)"
  by (simp add: buf_find_def buf_find_loop_index fp_ok_def fp_data_def)


subsection \<open>The header lines of a part\<close>

text \<open>What a name may hold, and the two lines written for a part.\<close>

definition plain_value :: "string \<Rightarrow> bool" where
  "plain_value v \<longleftrightarrow> list_all (\<lambda>c. c \<noteq> CHR '';'' \<and> c \<noteq> CHR ''='' \<and> c \<noteq> CHR 0x0D \<and> c \<noteq> CHR 0x0A) v"

definition quoted :: "string \<Rightarrow> string" where
  "quoted v = CHR 0x22 # v @ [CHR 0x22]"

definition disposition_line :: "MultipartFormData \<Rightarrow> string" where
  "disposition_line i =
     ''Content-Disposition: form-data; name='' @ quoted (mf_name i)
     @ (if mf_filename i \<noteq> [] then ''; filename='' @ quoted (mf_filename i) else [])"

definition ctype_line :: "MultipartFormData \<Rightarrow> string" where
  "ctype_line i = ''Content-Type: '' @ mf_content_type i"

lemma lstrip_head: "s \<noteq> [] \<Longrightarrow> \<not> is_space_or_tab (hd s) \<Longrightarrow> lstrip s = s"
  by (cases s) (simp_all add: lstrip_def)

lemma strip_ends:
  "s \<noteq> [] \<Longrightarrow> \<not> is_space_or_tab (hd s) \<Longrightarrow> \<not> is_space_or_tab (last s) \<Longrightarrow> strip s = s"
  by (simp add: strip_def lstrip_head hd_rev)

lemma strip_quoted: "strip (quoted v) = quoted v"
  by (rule strip_ends) (simp_all add: quoted_def is_space_or_tab_def)

lemma strip_named:
  "k \<noteq> [] \<Longrightarrow> \<not> is_space_or_tab (hd k) \<Longrightarrow> strip (k @ ''='' @ quoted v) = k @ ''='' @ quoted v"
  by (rule strip_ends) (simp_all add: quoted_def is_space_or_tab_def)

lemma strip_space: "strip (CHR '' '' # s) = strip s"
  by (simp add: strip_def lstrip_def is_space_or_tab_def)

lemma unquote [simp]: "trim_double_quotes_copy (quoted v) = v"
  by (simp add: trim_double_quotes_copy_def quoted_def substr_def)

lemma key_value_quoted:
  assumes "CHR ''='' \<notin> set k" and "CHR ''='' \<notin> set v" and "k \<noteq> []" and "strip k = k"
  shows "key_value (k @ ''='' @ quoted v) = (k, quoted v)"
proof -
  have "CHR ''='' \<notin> set (quoted v)" using assms(2) by (simp add: quoted_def)
  then have "split_on (CHR ''='') (k @ ''='' @ quoted v) = [k, quoted v]"
    using split_on_sep [OF assms(1), of "quoted v"] by (simp add: split_on_whole)
  moreover have "quoted v \<noteq> []" by (simp add: quoted_def)
  ultimately show ?thesis
    using assms by (simp add: key_value_def split_eq strip_quoted nonempty_def)
qed

lemma strip_names [simp]: "strip ''name'' = ''name''" "strip ''filename'' = ''filename''"
  by (simp_all add: strip_ends is_space_or_tab_def)

lemma key_value_name: "plain_value v \<Longrightarrow> key_value (''name='' @ quoted v) = (''name'', quoted v)"
  using key_value_quoted [of "''name''" v] by (simp add: plain_value_def list_all_iff) blast

lemma key_value_filename: "plain_value v \<Longrightarrow> key_value (''filename='' @ quoted v) = (''filename'', quoted v)"
  using key_value_quoted [of "''filename''" v] by (simp add: plain_value_def list_all_iff) blast

lemma plain_quoted: "plain_value v \<Longrightarrow> CHR '';'' \<notin> set (quoted v) \<and> CHR 0x0D \<notin> set (quoted v) \<and> CHR 0x0A \<notin> set (quoted v)"
  by (auto simp: plain_value_def quoted_def list_all_iff)

definition disposition_text :: "MultipartFormData \<Rightarrow> string" where
  "disposition_text i =
     ''name='' @ quoted (mf_name i) @ (if mf_filename i \<noteq> [] then ''; filename='' @ quoted (mf_filename i) else [])"

lemma split_disposition:
  assumes "plain_value (mf_name i)" and "plain_value (mf_filename i)"
  shows "split (disposition_text i) (CHR '';'') =
     (''name='' @ quoted (mf_name i)) # (if mf_filename i \<noteq> [] then [''filename='' @ quoted (mf_filename i)] else [])"
proof -
  have n: "CHR '';'' \<notin> set (''name='' @ quoted (mf_name i))" using plain_quoted [OF assms(1)] by simp
  have f: "CHR '';'' \<notin> set ('' filename='' @ quoted (mf_filename i))" using plain_quoted [OF assms(2)] by simp
  have sn: "strip (''name='' @ quoted (mf_name i)) = ''name='' @ quoted (mf_name i)"
    using strip_named [of "''name''"] by (simp add: is_space_or_tab_def)
  have sf: "strip ('' filename='' @ quoted (mf_filename i)) = ''filename='' @ quoted (mf_filename i)"
    using strip_named [of "''filename''" "mf_filename i"] strip_space by (simp add: is_space_or_tab_def)
  show ?thesis
  proof (cases "mf_filename i = []")
    case True
    then show ?thesis using split_on_whole [OF n] sn by (simp add: disposition_text_def split_eq nonempty_def)
  next
    case False
    have "split_on (CHR '';'') (disposition_text i) =
        [''name='' @ quoted (mf_name i), '' filename='' @ quoted (mf_filename i)]"
      using split_on_sep [OF n, of "'' filename='' @ quoted (mf_filename i)"] split_on_whole [OF f] False
      by (simp add: disposition_text_def)
    then show ?thesis using False sn sf by (simp add: split_eq nonempty_def)
  qed
qed

lemma params_disposition:
  assumes "plain_value (mf_name i)" and "plain_value (mf_filename i)"
  shows "parse_disposition_params (disposition_text i) [] =
     (if mf_filename i \<noteq> [] then [(''filename'', mf_filename i), (''name'', mf_name i)] else [(''name'', mf_name i)])"
proof -
  have q: "trim_double_quotes_copy ''name'' = ''name''" "trim_double_quotes_copy ''filename'' = ''filename''"
    by (simp_all add: trim_double_quotes_copy_def)
  have l: "str_less ''filename'' ''name''" by (simp add: byte_def)
  have l': "\<not> str_less ''name'' ''filename''" by (simp add: byte_def)
  show ?thesis
    using key_value_name [OF assms(1)] key_value_filename [OF assms(2)]
    by (simp add: parse_disposition_params_def split_disposition [OF assms] disposition_step_def q l l' byte_def)
qed

lemma match_disposition_line:
  assumes "plain_value (mf_name i)" and "plain_value (mf_filename i)"
  shows "match_disposition (disposition_line i) = Some (disposition_text i)"
proof -
  have "CHR 0x0A \<notin> set (disposition_text i)" and "CHR 0x0D \<notin> set (disposition_text i)"
    using plain_quoted [OF assms(1)] plain_quoted [OF assms(2)] by (simp_all add: disposition_text_def)
  moreover have "disposition_line i = ''Content-Disposition:'' @ '' '' @ ''form-data;'' @ '' '' @ disposition_text i"
    by (simp add: disposition_line_def disposition_text_def)
  moreover have "dropWhile is_space ('' '' @ disposition_text i) = disposition_text i"
    by (simp add: disposition_text_def is_space_def)
  ultimately show ?thesis
    by (simp add: match_disposition_def start_with_case_ignore_def is_space_def disposition_text_def)
qed

lemma header_line_disposition:
  assumes "plain_value (mf_name i)" and "plain_value (mf_filename i)"
  shows "part_header_line (disposition_line i) empty_file =
     (True, i\<lparr>mf_content := [], mf_content_type := []\<rparr>)"
proof -
  have "\<not> start_with_case_ignore (disposition_line i) ''content-type:''"
    by (simp add: start_with_case_ignore_def disposition_line_def to_lower_char_def byte_def)
  then show ?thesis
    by (simp add: part_header_line_def match_disposition_line [OF assms] params_disposition [OF assms]
        mm_find_def mm_range_def lower_bound_def upper_bound_def byte_def empty_file_def Let_def)
qed

lemma lower_content_type:
  "to_lower_char CHR ''C'' = to_lower_char CHR ''c''" "to_lower_char CHR ''T'' = to_lower_char CHR ''t''"
  by code_simp+

lemma header_line_ctype:
  "strip (mf_content_type i) = mf_content_type i \<Longrightarrow>
   part_header_line (ctype_line i) (i\<lparr>mf_content := [], mf_content_type := []\<rparr>) = (True, i\<lparr>mf_content := []\<rparr>)"
  by (simp add: part_header_line_def ctype_line_def start_with_case_ignore_def lower_content_type
      trim_copy_strip strip_space)


subsection \<open>A text written for a list of parts\<close>

text \<open>The content of a part does not hold the delimiter, nor begin one that the delimiter behind it
  completes.\<close>

definition separator :: "string \<Rightarrow> string" where
  "separator boundary = crlf @ ''--'' @ boundary"

definition no_separator :: "string \<Rightarrow> string \<Rightarrow> bool" where
  "no_separator sep body \<longleftrightarrow>
     (\<forall>i \<in> set [0..<length body]. take (length sep) (drop i (body @ sep)) \<noteq> sep)"

definition plain_part :: "string \<Rightarrow> MultipartFormData \<Rightarrow> bool" where
  "plain_part boundary i \<longleftrightarrow>
     plain_value (mf_name i) \<and> plain_value (mf_filename i) \<and>
     strip (mf_content_type i) = mf_content_type i \<and> CHR 0x0D \<notin> set (mf_content_type i) \<and>
     length (disposition_line i) < header_max_length \<and> length (ctype_line i) < header_max_length \<and>
     no_separator (separator boundary) (mf_content i)"

text \<open>What is still to come in each state.\<close>

fun after_body :: "string \<Rightarrow> MultipartFormData list \<Rightarrow> string" where
  "after_body b [] = ''--'' @ crlf"
| "after_body b (i # is) =
     crlf @ disposition_line i @ crlf
     @ (if mf_content_type i \<noteq> [] then ctype_line i @ crlf else []) @ crlf
     @ mf_content i @ separator b @ after_body b is"

definition entry_text :: "string \<Rightarrow> MultipartFormData \<Rightarrow> MultipartFormData list \<Rightarrow> string" where
  "entry_text b i is = drop 2 (after_body b (i # is))"

lemma after_body_entry: "after_body b (i # is) = crlf @ entry_text b i is"
  by (simp add: entry_text_def crlf_def)

lemma serialize_after_body:
  "''--'' @ b @ after_body b is = serialize_multipart_formdata is b True"
proof (induction "is")
  case (Cons i "is")
  have "separator b @ after_body b is = crlf @ serialize_multipart_formdata is b True"
    using Cons by (simp add: separator_def)
  then show ?case
    by (simp add: serialize_multipart_formdata_def serialize_multipart_formdata_item_begin_def
        serialize_multipart_formdata_item_end_def disposition_line_def ctype_line_def quoted_def)
qed (simp add: serialize_multipart_formdata_def serialize_multipart_formdata_finish_def)

text \<open>Where the parser is: its state, validity and file, the parts handed over and the text to come.\<close>

inductive form_at ::
  "string \<Rightarrow> MultipartFormData list \<Rightarrow> form_state \<Rightarrow> bool \<Rightarrow> MultipartFormData \<Rightarrow>
   MultipartFormData list \<Rightarrow> string \<Rightarrow> bool"
  for b items where
  at_entry: "items = ds @ i # is \<Longrightarrow> mf_content fl = [] \<Longrightarrow>
    form_at b items New_entry v fl ds (entry_text b i is)"
| at_headers: "items = ds @ i # is \<Longrightarrow> form_at b items Part_headers v empty_file ds (entry_text b i is)"
| at_ctype: "items = ds @ i # is \<Longrightarrow> mf_content_type i \<noteq> [] \<Longrightarrow>
    form_at b items Part_headers v (i\<lparr>mf_content := [], mf_content_type := []\<rparr>) ds
      (ctype_line i @ crlf @ crlf @ mf_content i @ separator b @ after_body b is)"
| at_blank: "items = ds @ i # is \<Longrightarrow>
    form_at b items Part_headers v (i\<lparr>mf_content := []\<rparr>) ds (crlf @ mf_content i @ separator b @ after_body b is)"
| at_body: "items = ds @ i # is \<Longrightarrow> mf_content i = c1 @ c2 \<Longrightarrow> mf_content fl = [] \<Longrightarrow>
    form_at b items Part_body v fl (ds @ [i\<lparr>mf_content := c1\<rparr>]) (c2 @ separator b @ after_body b is)"
| at_boundary: "items = ds @ is \<Longrightarrow> mf_content fl = [] \<Longrightarrow> form_at b items Boundary v fl ds (after_body b is)"
| at_done: "crlf = u @ t \<Longrightarrow> form_at b items Boundary True fl items t"
| at_end: "form_at b items New_entry True fl items []"

text \<open>The callbacks collect the parts.\<close>

definition collect_header :: "MultipartFormData \<Rightarrow> MultipartFormData list \<Rightarrow> (thrown + bool) \<times> MultipartFormData list" where
  "collect_header fl ps = (Inr True, ps @ [fl])"

definition collect_content :: "string \<Rightarrow> MultipartFormData list \<Rightarrow> (thrown + bool) \<times> MultipartFormData list" where
  "collect_content d ps =
     (Inr True, butlast ps @ [(last ps)\<lparr>mf_content := mf_content (last ps) @ d\<rparr>])"

text \<open>The parser is at the place that the text still to come describes.\<close>

definition parser_at ::
  "string \<Rightarrow> MultipartFormData list \<Rightarrow> string \<Rightarrow> MultipartFormDataParser \<Rightarrow> MultipartFormData list \<Rightarrow> bool" where
  "parser_at b items R p ps \<longleftrightarrow>
     fp_ok p \<and> fp_dash_boundary_crlf p = ''--'' @ b @ crlf \<and> fp_crlf_dash_boundary p = separator b \<and>
     form_at b items (fp_state p) (fp_is_valid p) (fp_file p) ps (fp_data p @ R)"

definition step_ok ::
  "string \<Rightarrow> MultipartFormData list \<Rightarrow> string \<Rightarrow> MultipartFormData list parse_step \<Rightarrow> bool" where
  "step_ok b items R st \<longleftrightarrow>
     (case st of
        Again p ps \<Rightarrow> parser_at b items R p ps
      | Returns r p ps \<Rightarrow> r = Inr True \<and> parser_at b items R p ps \<and> (R = [] \<longrightarrow> fp_is_valid p \<and> ps = items))"


subsection \<open>Every step keeps the place\<close>

lemma prefix_split:
  assumes "D @ R = X @ Z" and "length X \<le> length D"
  obtains D' where "D = X @ D'" and "D' @ R = Z"
  using assms by (auto simp: append_eq_append_conv2)

lemma find_crlf:
  assumes "CHR 0x0D \<notin> set l" and e: "D @ R = l @ crlf @ Z"
  shows "find_index crlf D = (if length l + 2 \<le> length D then length l else length D)"
proof -
  have s: "crlf \<noteq> []" "hd crlf \<notin> set l" using assms(1) by (simp_all add: crlf_def)
  consider "length l + 2 \<le> length D" | "length D \<le> length l" | "length D = length l + 1" by linarith
  then show ?thesis
  proof cases
    case 1
    then obtain D' where "D = (l @ crlf) @ D'"
      using e prefix_split [of D R "l @ crlf" Z] by (auto simp: crlf_def)
    then show ?thesis using 1 s find_index_skip [OF s, of "crlf @ D'"] by (simp add: find_index_here crlf_def)
  next
    case 2
    then have "D = take (length D) l" using e by (metis append_eq_append_conv_if)
    then have "hd crlf \<notin> set D" using s by (metis in_set_takeD)
    then show ?thesis using 2 s find_index_skip [of crlf D "[]"] by (simp add: find_index_short)
  next
    case 3
    obtain D' where d: "D = l @ D'" and "D' @ R = crlf @ Z"
      using e prefix_split [of D R l "crlf @ Z"] 3 by auto
    moreover have "length D' = 1" using 3 d by simp
    ultimately show ?thesis using 3 s find_index_skip [OF s, of D'] by (simp add: find_index_short crlf_def)
  qed
qed

lemma find_separator:
  assumes ns: "no_separator sep (c1 @ c2)" and e: "D @ R = c2 @ sep @ Z" and "sep \<noteq> []"
  shows "find_index sep D = (if length c2 + length sep \<le> length D then length c2 else length D)"
proof -
  have none: "take (length sep) (drop i D) \<noteq> sep" if i: "i < length c2" for i
  proof
    assume m: "take (length sep) (drop i D) = sep"
    have "length (take (length sep) (drop i D)) = length sep" using m by simp
    then have "i + length sep \<le> length D" using \<open>sep \<noteq> []\<close> by (cases sep) auto
    with m have "take (length sep) (drop i (D @ R)) = sep" by simp
    moreover have "take (length sep) (drop i (c2 @ sep @ Z)) = take (length sep) (drop i (c2 @ sep))"
      using i by simp
    ultimately have "take (length sep) (drop (length c1 + i) ((c1 @ c2) @ sep)) = sep" using e by simp
    moreover have "length c1 + i \<in> set [0..<length (c1 @ c2)]" using i by simp
    ultimately show False using ns unfolding no_separator_def by blast
  qed
  show ?thesis
  proof (cases "length c2 + length sep \<le> length D")
    case True
    then obtain D' where d: "D = (c2 @ sep) @ D'" using e prefix_split [of D R "c2 @ sep" Z] by auto
    have "find_at sep D = Some (length c2)"
    proof (cases "find_at sep D")
      case None
      moreover have "length c2 \<le> length D" using True by simp
      ultimately have "take (length sep) (drop (length c2) D) \<noteq> sep" unfolding find_at_None by blast
      then show ?thesis using d by simp
    next
      case (Some k)
      then have "\<not> length c2 < k" using find_at_first [OF Some, of "length c2"] d by auto
      moreover have "\<not> k < length c2" using none [of k] find_at_match [OF Some] by blast
      ultimately show ?thesis using Some by simp
    qed
    then show ?thesis using True by (simp add: find_index_def)
  next
    case False
    have "find_at sep D = None"
    proof (rule ccontr)
      assume "find_at sep D \<noteq> None"
      then obtain k where k: "find_at sep D = Some k" by auto
      then show False using find_at_match [OF k] none [of k] False by fastforce
    qed
    then show ?thesis using False by (simp add: find_index_def)
  qed
qed

inductive_cases at_entry_cases: "form_at b items New_entry v fl ps T"
inductive_cases at_body_cases: "form_at b items Part_body v fl ps T"
inductive_cases at_boundary_cases: "form_at b items Boundary v fl ps T"

lemma plain_no_cr:
  assumes "plain_part b i"
  shows "CHR 0x0D \<notin> set (disposition_line i)" and "CHR 0x0D \<notin> set (ctype_line i)"
  using assms plain_quoted by (auto simp: plain_part_def disposition_line_def ctype_line_def)

lemma form_header_line:
  assumes "form_at b items Part_headers v fl ps T" and "list_all (plain_part b) items"
  obtains l Z where "T = l @ crlf @ Z" and "CHR 0x0D \<notin> set l" and "length l < header_max_length"
    and "l = [] \<Longrightarrow> form_at b items Part_body v fl (ps @ [fl]) Z"
    and "l \<noteq> [] \<Longrightarrow> fst (part_header_line l fl) \<and> form_at b items Part_headers v (snd (part_header_line l fl)) ps Z"
  using assms(1)
proof cases
  case (at_headers i "is")
  then have i: "plain_part b i" using assms(2) by simp
  have h: "part_header_line (disposition_line i) fl = (True, i\<lparr>mf_content := [], mf_content_type := []\<rparr>)"
    using i at_headers by (simp add: header_line_disposition plain_part_def)
  have e: "i\<lparr>mf_content := [], mf_content_type := []\<rparr> = i\<lparr>mf_content := []\<rparr>" if "mf_content_type i = []"
    using that by (cases i) simp
  let ?Z = "(if mf_content_type i \<noteq> [] then ctype_line i @ crlf else []) @ crlf
     @ mf_content i @ separator b @ after_body b is"
  have "form_at b items Part_headers v (i\<lparr>mf_content := [], mf_content_type := []\<rparr>) ps ?Z"
  proof (cases "mf_content_type i = []")
    case True
    then show ?thesis unfolding e [OF True] using at_headers form_at.at_blank [of items ps i "is" b v] by simp
  next
    case False
    then show ?thesis using at_headers form_at.at_ctype [of items ps i "is" b v] by simp
  qed
  moreover have "T = disposition_line i @ crlf @ ?Z"
    using at_headers by (simp add: entry_text_def crlf_def)
  ultimately show thesis
    using that [of "disposition_line i" ?Z] h i plain_no_cr [OF i]
    by (simp add: plain_part_def disposition_line_def)
next
  case (at_ctype i "is")
  then have i: "plain_part b i" using assms(2) by simp
  have h: "part_header_line (ctype_line i) fl = (True, i\<lparr>mf_content := []\<rparr>)"
    using i at_ctype by (simp add: header_line_ctype plain_part_def)
  have "form_at b items Part_headers v (i\<lparr>mf_content := []\<rparr>) ps
     (crlf @ mf_content i @ separator b @ after_body b is)"
    using at_ctype by (intro form_at.at_blank) simp
  then show thesis
    using that [of "ctype_line i" "crlf @ mf_content i @ separator b @ after_body b is"] h i at_ctype
      plain_no_cr [OF i] by (simp add: plain_part_def ctype_line_def)
next
  case (at_blank i "is")
  have "form_at b items Part_body v fl (ps @ [i\<lparr>mf_content := []\<rparr>]) (mf_content i @ separator b @ after_body b is)"
    using at_blank by (intro form_at.at_body) simp_all
  then show thesis
    using that [of "[]" "mf_content i @ separator b @ after_body b is"] at_blank
    by (simp add: header_max_length_def)
qed


lemma entry_not_empty: "entry_text b i is \<noteq> []"
  by (simp add: entry_text_def crlf_def disposition_line_def)

lemma parser_at_length: "parser_at b items R p ps \<Longrightarrow> length (fp_data p) = buf_size p"
  by (simp add: parser_at_def fp_data_length)

lemma step_entry:
  assumes "parser_at b items R p ps" and "fp_state p = New_entry" and "buf_size p > 0"
  shows "step_ok b items R (parse_new_entry p ps)"
proof -
  have "form_at b items New_entry (fp_is_valid p) (fp_file p) ps (fp_data p @ R)" and "fp_data p \<noteq> []"
    using assms parser_at_length [OF assms(1)] by (auto simp: parser_at_def)
  then obtain i "is" where i: "items = ps @ i # is" "mf_content (fp_file p) = []" "fp_data p @ R = entry_text b i is"
    by (auto elim: at_entry_cases)
  have "(fp_file p)\<lparr>mf_name := [], mf_filename := [], mf_content_type := []\<rparr> = empty_file"
    using i(2) by (cases "fp_file p") (simp add: empty_file_def)
  then show ?thesis
    using assms(1) i form_at.at_headers [of items ps i "is" b]
    by (simp add: step_ok_def parse_new_entry_def parser_at_def)
qed

lemma call_collect [simp]:
  "call_back (Some collect_header) fl ps = (Inr True, ps @ [fl])"
  "call_back (Some collect_content) d ps =
     (Inr True, butlast ps @ [(last ps)\<lparr>mf_content := mf_content (last ps) @ d\<rparr>])"
  by (simp_all add: call_back_def collect_header_def collect_content_def)

lemma parser_at_upd:
  "parser_at b items R (p\<lparr>fp_state := st\<rparr>) ps \<longleftrightarrow>
     fp_ok p \<and> fp_dash_boundary_crlf p = ''--'' @ b @ crlf \<and> fp_crlf_dash_boundary p = separator b \<and>
     form_at b items st (fp_is_valid p) (fp_file p) ps (fp_data p @ R)"
  by (simp add: parser_at_def)

lemma step_header_lines:
  assumes "list_all (plain_part b) items"
  shows "parser_at b items R p ps \<Longrightarrow> fp_state p = Part_headers \<Longrightarrow> pos = find_index crlf (fp_data p) \<Longrightarrow>
         step_ok b items R (header_lines (Some collect_header) pos p ps)"
proof (induction "Some collect_header" pos p ps rule: header_lines.induct)
  case (1 pos p ps)
  have ok: "fp_ok p" and len: "length (fp_data p) = buf_size p"
    using "1.prems" fp_data_length by (auto simp: parser_at_def)
  have at: "form_at b items Part_headers (fp_is_valid p) (fp_file p) ps (fp_data p @ R)"
    using "1.prems" by (simp add: parser_at_def)
  obtain l Z where e: "fp_data p @ R = l @ crlf @ Z" and cr: "CHR 0x0D \<notin> set l"
    and blank: "l = [] \<Longrightarrow> form_at b items Part_body (fp_is_valid p) (fp_file p) (ps @ [fp_file p]) Z"
    and line: "l \<noteq> [] \<Longrightarrow> fst (part_header_line l (fp_file p)) \<and>
      form_at b items Part_headers (fp_is_valid p) (snd (part_header_line l (fp_file p))) ps Z"
    using form_header_line [OF at assms] by metis
  have pos: "pos = (if length l + 2 \<le> length (fp_data p) then length l else length (fp_data p))"
    using find_crlf [OF cr e] "1.prems" by simp
  show ?case
  proof (cases "length l + 2 \<le> length (fp_data p)")
    case False
    have "R \<noteq> []"
    proof
      assume "R = []"
      then have "length (fp_data p) = length l + 2 + length Z" using e by (simp add: crlf_def)
      then show False using False by simp
    qed
    then show ?thesis
      using False pos len "1.prems" by (subst header_lines.simps) (simp add: step_ok_def)
  next
    case True
    then obtain D' where d: "fp_data p = (l @ crlf) @ D'" and z: "D' @ R = Z"
      using e prefix_split [of "fp_data p" R "l @ crlf" Z] by (auto simp: crlf_def)
    have lt: "length l < buf_size p" and pl: "pos = length l" and hd: "buf_head pos p = l"
      and le: "length l + 2 \<le> buf_size p"
      using True pos len ok d by (simp_all add: buf_head_data)
    show ?thesis
    proof (cases "l = []")
      case True
      then show ?thesis
        using lt pl ok le d z blank "1.prems" buf_erase_data [OF ok, of 2]
        by (subst header_lines.simps) (simp add: step_ok_def parser_at_upd, simp add: parser_at_def crlf_def)
    next
      case False
      let ?q = "p\<lparr>fp_file := snd (part_header_line l (fp_file p))\<rparr>"
      let ?p1 = "buf_erase (length l + 2) ?q"
      have q: "fp_ok ?q" "length l + 2 \<le> buf_size ?q" using ok le by simp_all
      have dp: "fp_data ?p1 = D'" using buf_erase_data [OF q] d by (simp add: crlf_def)
      have at1: "parser_at b items R ?p1 ps"
        using "1.prems" line [OF False] buf_erase_data(1) [OF q] dp z by (simp add: parser_at_def)
      have hl: "part_header_line (buf_head pos p) (fp_file p) = (True, snd (part_header_line l (fp_file p)))"
        using line [OF False] hd by (metis prod.collapse)
      have f: "buf_find crlf ?p1 = find_index crlf (fp_data ?p1)"
        using at1 by (intro buf_find_data) (simp_all add: parser_at_def crlf_def)
      have "step_ok b items R (header_lines (Some collect_header) (buf_find crlf ?p1) ?p1 ps)"
        using "1.hyps" [OF _ _ hl [symmetric]] lt pl False at1 f "1.prems" by simp
      then show ?thesis
        using lt pl False hl by (subst header_lines.simps) (simp add: Let_def)
    qed
  qed
qed


lemma step_part_headers:
  assumes "list_all (plain_part b) items" and "parser_at b items R p ps" and "fp_state p = Part_headers"
  shows "step_ok b items R (parse_part_headers (Some collect_header) p ps)"
proof -
  have f: "buf_find crlf p = find_index crlf (fp_data p)"
    using assms(2) by (intro buf_find_data) (simp_all add: parser_at_def crlf_def)
  have at: "form_at b items Part_headers (fp_is_valid p) (fp_file p) ps (fp_data p @ R)"
    using assms(2,3) by (simp add: parser_at_def)
  obtain l Z where e: "fp_data p @ R = l @ crlf @ Z" and cr: "CHR 0x0D \<notin> set l" and "length l < header_max_length"
    using form_header_line [OF at assms(1)] by metis
  then have "buf_find crlf p \<le> header_max_length" using f find_crlf [OF cr e] by simp
  then show ?thesis
    using step_header_lines [OF assms refl] f by (simp add: parse_part_headers_def)
qed

lemma separator_not_empty: "separator b \<noteq> []"
  by (simp add: separator_def crlf_def)

lemma step_part_body:
  assumes "list_all (plain_part b) items" and "parser_at b items R p ps" and "fp_state p = Part_body"
  shows "step_ok b items R (parse_part_body (Some collect_content) p ps)"
proof -
  have ok: "fp_ok p" and sep: "fp_crlf_dash_boundary p = separator b"
    and len: "length (fp_data p) = buf_size p"
    using assms(2) parser_at_length [OF assms(2)] by (simp_all add: parser_at_def)
  have "form_at b items Part_body (fp_is_valid p) (fp_file p) ps (fp_data p @ R)"
    using assms(2,3) by (simp add: parser_at_def)
  then obtain ds i "is" c1 c2 where i: "items = ds @ i # is" and c: "mf_content i = c1 @ c2"
    and fl: "mf_content (fp_file p) = []" and ps: "ps = ds @ [i\<lparr>mf_content := c1\<rparr>]"
    and e: "fp_data p @ R = c2 @ separator b @ after_body b is"
    by (auto elim: at_body_cases)
  have "no_separator (separator b) (c1 @ c2)" using assms(1) i c by (simp add: plain_part_def)
  then have find: "buf_find (separator b) p =
      (if length c2 + length (separator b) \<le> length (fp_data p) then length c2 else length (fp_data p))"
    using find_separator e separator_not_empty buf_find_data [OF ok] by metis
  have push: "butlast ps @ [(last ps)\<lparr>mf_content := mf_content (last ps) @ d\<rparr>] = ds @ [i\<lparr>mf_content := c1 @ d\<rparr>]" for d
    by (simp add: ps)
  have total: "length (fp_data p) + length R = length c2 + length (separator b) + length (after_body b is)"
    using arg_cong [OF e, of length] by simp
  have sl: "length (separator b) > 0" using separator_not_empty by simp
  show ?thesis
  proof (cases "length c2 + length (separator b) \<le> length (fp_data p)")
    case True
    then obtain D' where d: "fp_data p = (c2 @ separator b) @ D'" and z: "D' @ R = after_body b is"
      using e prefix_split [of "fp_data p" R "c2 @ separator b" "after_body b is"] by auto
    have h: "buf_head (length c2) p = c2" using ok d len by (simp add: buf_head_data)
    have "ds @ [i\<lparr>mf_content := c1 @ c2\<rparr>] = ds @ [i]" using c by simp
    moreover have "form_at b items Boundary (fp_is_valid p) (fp_file p) (ds @ [i]) (after_body b is)"
      using i fl by (intro form_at.at_boundary) simp_all
    moreover have "length c2 + length (separator b) \<le> buf_size p" using True len by simp
    note x = buf_erase_data [OF ok this]
    moreover have "length c2 < buf_size p" and "\<not> length (separator b) > buf_size p" using True len sl by linarith+
    ultimately show ?thesis
      using assms(2) find True sep h push d z len
      by (simp add: parse_part_body_def step_ok_def parser_at_upd, simp add: parser_at_def)
  next
    case False
    have R: "R \<noteq> []" using total False by auto
    show ?thesis
    proof (cases "length (fp_data p) > length (separator b)")
      case True
      let ?n = "buf_size p - length (separator b)"
      have n: "?n \<le> buf_size p" "?n > 0" "?n < length c2" using True False len sl by auto
      have t: "take ?n (fp_data p) = take ?n c2"
        using arg_cong [OF e, of "take ?n"] n len by simp
      have "fp_data p @ R = take ?n c2 @ drop ?n c2 @ separator b @ after_body b is"
        using e by simp
      moreover have "fp_data p = take ?n c2 @ drop ?n (fp_data p)" using t by (metis append_take_drop_id)
      ultimately have r: "drop ?n (fp_data p) @ R = drop ?n c2 @ separator b @ after_body b is"
        by (metis append.assoc same_append_eq)
      have "form_at b items Part_body (fp_is_valid p) (fp_file p) (ds @ [i\<lparr>mf_content := c1 @ take ?n c2\<rparr>])
          (drop ?n c2 @ separator b @ after_body b is)"
        using i fl c by (intro form_at.at_body) simp_all
      then show ?thesis
        using assms(2,3) find False True sep push len n t r R buf_erase_data [OF ok n(1)] buf_head_data [OF ok n(1)]
        by (simp add: parse_part_body_def step_ok_def Let_def parser_at_def)
    next
      case short: False
      then show ?thesis
        using assms(2) find False sep len R by (simp add: parse_part_body_def step_ok_def)
    qed
  qed
qed


lemma after_body_short: "length (after_body b is) \<ge> 4"
  by (cases "is") (simp_all add: crlf_def)

lemma step_boundary:
  assumes "parser_at b items R p ps" and "fp_state p = Boundary" and "buf_size p > 0"
  shows "step_ok b items R (parse_boundary p ps)"
proof -
  have ok: "fp_ok p" and len: "length (fp_data p) = buf_size p"
    using assms(1) parser_at_length [OF assms(1)] by (simp_all add: parser_at_def)
  have "form_at b items Boundary (fp_is_valid p) (fp_file p) ps (fp_data p @ R)"
    using assms(1,2) by (simp add: parser_at_def)
  then consider (body) "is" where "items = ps @ is" "mf_content (fp_file p) = []" "fp_data p @ R = after_body b is"
    | (finish) u where "fp_is_valid p" "ps = items" "crlf = u @ fp_data p @ R"
    by (auto elim: at_boundary_cases)
  then show ?thesis
  proof cases
    case body
    show ?thesis
    proof (cases "buf_size p < 2")
      case True
      then have "R \<noteq> []" using after_body_short [of b "is"] arg_cong [OF body(3), of length] len by auto
      then show ?thesis using True assms(1) by (simp add: parse_boundary_def step_ok_def)
    next
      case False
      then have two: "2 \<le> buf_size p" by simp
      have t: "take 2 (fp_data p) = take 2 (after_body b is)"
        using arg_cong [OF body(3), of "take 2"] two len by simp
      have d: "drop 2 (fp_data p) @ R = drop 2 (after_body b is)"
        using arg_cong [OF body(3), of "drop 2"] two len by simp
      note er = buf_erase_data [OF ok two]
      show ?thesis
      proof (cases "is")
        case Nil
        have nc: "\<not> buf_start_with crlf p" and ds: "buf_start_with ''--'' p"
          using t two by (simp_all add: buf_start_with_data [OF ok] Nil crlf_def numeral_2_eq_2)
        let ?p1 = "(buf_erase 2 p)\<lparr>fp_is_valid := True\<rparr>"
        let ?p2 = "buf_erase (buf_size ?p1) ?p1"
        have p2: "fp_ok ?p2" "fp_data ?p2 = []"
          using buf_erase_data [of ?p1 "buf_size ?p1"] er fp_data_length [of ?p1] by simp_all
        have "crlf = drop 2 (fp_data p) @ R" using d Nil by simp
        then have "form_at b items Boundary True (fp_file p) items R" by (rule form_at.at_done)
        then show ?thesis
          using False nc ds p2 assms(1,2) body(1) Nil
          by (simp add: parse_boundary_def step_ok_def parser_at_def Let_def)
      next
        case (Cons i "is'")
        have sc: "buf_start_with crlf p"
          using t two by (simp add: buf_start_with_data [OF ok] Cons crlf_def numeral_2_eq_2)
        have "drop 2 (fp_data p) @ R = entry_text b i is'" using d Cons by (simp add: entry_text_def)
        moreover have "form_at b items New_entry (fp_is_valid p) (fp_file p) ps (entry_text b i is')"
          using body Cons by (intro form_at.at_entry) simp_all
        ultimately show ?thesis
          using False sc er assms(1) by (simp add: parse_boundary_def step_ok_def parser_at_upd, simp add: parser_at_def)
      qed
    qed
  next
    case finish
    show ?thesis
    proof (cases "buf_size p < 2")
      case True
      then show ?thesis using finish assms(1) by (simp add: parse_boundary_def step_ok_def)
    next
      case False
      have "length u + length (fp_data p) + length R = 2"
        using arg_cong [OF finish(3), of length] by (simp add: crlf_def)
      then have "length u = 0" and "length R = 0" and two: "buf_size p = 2" using False len by linarith+
      then have "u = []" and r: "R = []" by simp_all
      then have e: "fp_data p = crlf" using finish(3) by simp
      then have sc: "buf_start_with crlf p" using two by (simp add: buf_start_with_data [OF ok] crlf_def numeral_2_eq_2)
      have d: "fp_ok (buf_erase 2 p)" "fp_data (buf_erase 2 p) = []"
        using buf_erase_data [OF ok, of 2] two e by (simp_all add: crlf_def)
      show ?thesis
        using False sc d r finish assms(1) form_at.at_end [of b items]
        by (simp add: parse_boundary_def step_ok_def parser_at_upd, simp add: parser_at_def)
    qed
  qed
qed

text \<open>The loop ends in an accepting call; when nothing is left to come, all parts have been handed over.\<close>

lemma parse_loop_at:
  assumes "list_all (plain_part b) items"
  shows "parser_at b items R p ps \<Longrightarrow> fp_state p \<noteq> Initial_boundary \<Longrightarrow>
    step_ok b items R ((\<lambda>(r, p', ps'). Returns r p' ps')
      (parse_loop (Some collect_content) (Some collect_header) p ps))"
proof (induction "Some collect_content" "Some collect_header" p ps rule: parse_loop.induct)
  case (1 p ps)
  show ?case
  proof (cases "buf_size p > 0")
    case False
    then have "fp_data p = []" using parser_at_length [OF "1.prems"(1)] by simp
    then have at: "form_at b items (fp_state p) (fp_is_valid p) (fp_file p) ps R"
      using "1.prems" by (simp add: parser_at_def)
    have "R = [] \<Longrightarrow> fp_is_valid p \<and> ps = items"
      using at
    proof cases
      case (at_body ds i "is" c1 c2)
      then show "R = [] \<Longrightarrow> ?thesis" using separator_not_empty by simp
    next
      case (at_boundary "is")
      then show "R = [] \<Longrightarrow> ?thesis" using after_body_short [of b "is"] by simp
    qed (auto simp: entry_not_empty crlf_def)
    then show ?thesis using False "1.prems" by (subst parse_loop.simps) (simp add: step_ok_def)
  next
    case True
    have st: "step_ok b items R (parse_step (Some collect_content) (Some collect_header) p ps)"
      using True "1.prems" step_entry step_part_headers [OF assms] step_part_body [OF assms] step_boundary
      by (cases "fp_state p") (simp_all add: parse_step_def)
    show ?thesis
    proof (cases "parse_step (Some collect_content) (Some collect_header) p ps")
      case (Returns r p' ps')
      then show ?thesis using st True by (subst parse_loop.simps) simp
    next
      case (Again p' ps')
      then have "parser_at b items R p' ps'" using st by (simp add: step_ok_def)
      moreover from this have "fp_state p' \<noteq> Initial_boundary"
        by (auto simp: parser_at_def elim: form_at.cases)
      ultimately show ?thesis
        using "1.hyps" [OF True Again] True Again by (subst parse_loop.simps) simp
    qed
  qed
qed


subsection \<open>The round trip\<close>

text \<open>Feeding the pieces of a content, as the reading functions do, up to the first call that does not
  return true.\<close>

fun feed ::
  "'a content_callback option \<Rightarrow> 'a header_callback option \<Rightarrow> string list \<Rightarrow> MultipartFormDataParser \<Rightarrow> 'a \<Rightarrow>
   (thrown + bool) \<times> MultipartFormDataParser \<times> 'a" where
  "feed on_content on_header [] p a = (Inr True, p, a)"
| "feed on_content on_header (d # ds) p a =
     (case parse_form_data d on_content on_header p a of
        (Inr True, p', a') \<Rightarrow> feed on_content on_header ds p' a'
      | r \<Rightarrow> r)"

lemma parse_piece:
  assumes "list_all (plain_part b) items" and "parser_at b items (d @ R) p ps" and "fp_state p \<noteq> Initial_boundary"
  obtains p' ps' where
    "parse_form_data d (Some collect_content) (Some collect_header) p ps = (Inr True, p', ps')"
    "parser_at b items R p' ps'" "R = [] \<longrightarrow> fp_is_valid p' \<and> ps' = items"
proof -
  have "parser_at b items R (buf_append d p) ps"
    using assms(2) buf_append_data [of p d] by (simp add: parser_at_def)
  then have "step_ok b items R ((\<lambda>(r, p', ps'). Returns r p' ps')
      (parse_loop (Some collect_content) (Some collect_header) (buf_append d p) ps))"
    using assms(1,3) by (intro parse_loop_at) simp_all
  then show thesis using that by (simp add: parse_form_data_def step_ok_def split: prod.splits)
qed

lemma feed_pieces:
  assumes "list_all (plain_part b) items"
  shows "parser_at b items (concat ds) p ps \<Longrightarrow> fp_state p \<noteq> Initial_boundary \<Longrightarrow>
    (concat ds = [] \<longrightarrow> fp_is_valid p \<and> ps = items) \<Longrightarrow>
    \<exists>p'. feed (Some collect_content) (Some collect_header) ds p ps = (Inr True, p', items) \<and> fp_is_valid p'"
proof (induction ds arbitrary: p ps)
  case (Cons d ds)
  then have "parser_at b items (d @ concat ds) p ps" by simp
  then obtain p' ps' where e: "parse_form_data d (Some collect_content) (Some collect_header) p ps = (Inr True, p', ps')"
    and p': "parser_at b items (concat ds) p' ps'" "concat ds = [] \<longrightarrow> fp_is_valid p' \<and> ps' = items"
    using parse_piece [OF assms _ Cons.prems(2)] by metis
  then have "fp_state p' \<noteq> Initial_boundary" by (auto simp: parser_at_def elim: form_at.cases)
  then show ?case using Cons.IH [OF p'(1) _ p'(2)] e by simp
qed simp

lemma first_piece:
  assumes "list_all (plain_part b) items" and "items \<noteq> []"
    and whole: "d @ R = serialize_multipart_formdata items b True" and "length b + 4 \<le> length d"
  obtains p' ps' where
    "parse_form_data d (Some collect_content) (Some collect_header) (set_boundary b newMultipartFormDataParser) [] =
      (Inr True, p', ps')"
    "parser_at b items R p' ps'" "R = [] \<longrightarrow> fp_is_valid p' \<and> ps' = items"
proof -
  obtain i "is" where i: "items = i # is" using assms(2) by (cases items) auto
  let ?line = "''--'' @ b @ crlf" and ?p0 = "buf_append d (set_boundary b newMultipartFormDataParser)"
  have "fp_ok (set_boundary b newMultipartFormDataParser)"
    by (simp add: fp_ok_def set_boundary_def newMultipartFormDataParser_def)
  note a = buf_append_data [OF this, of d]
  have f0: "fp_state ?p0 = Initial_boundary" "fp_dash_boundary_crlf ?p0 = ?line"
    "fp_crlf_dash_boundary ?p0 = separator b" "fp_file ?p0 = empty_file"
    by (simp_all add: set_boundary_def newMultipartFormDataParser_def separator_def)
  have data: "fp_data ?p0 = d"
    using a(2) by (simp add: fp_data_def set_boundary_def newMultipartFormDataParser_def)
  have "d @ R = ?line @ entry_text b i is"
    using whole serialize_after_body [of b items] i after_body_entry [of b i "is"] by simp
  then obtain D' where d: "d = ?line @ D'" and r: "D' @ R = entry_text b i is"
    using prefix_split [of d R ?line "entry_text b i is"] assms(4) by (auto simp: crlf_def)
  have size: "length d = buf_size ?p0" using fp_data_length [OF a(1)] data by simp
  have "buf_find ?line ?p0 = 0"
    using buf_find_data [OF a(1), of ?line] data d find_index_here [of ?line d] by simp
  moreover have "buf_start_with ?line ?p0"
    using buf_start_with_data [OF a(1), of ?line] data d size by simp
  moreover have "buf_erase 0 ?p0 = ?p0" by (simp add: buf_erase_def)
  ultimately have st: "parse_step (Some collect_content) (Some collect_header) ?p0 [] =
      Again ((buf_erase (length ?line) ?p0)\<lparr>fp_state := New_entry\<rparr>) []" (is "_ = Again ?p1 []")
    using f0 d size by (simp add: parse_step_def parse_initial_def)
  have "length ?line \<le> buf_size ?p0" using size d by simp
  note er = buf_erase_data [OF a(1) this]
  have "form_at b items New_entry (fp_is_valid ?p0) empty_file [] (entry_text b i is)"
    using i by (intro form_at.at_entry) (simp_all add: empty_file_def)
  then have "parser_at b items R ?p1 []"
    using er f0 r data d by (simp add: parser_at_upd)
  then have "step_ok b items R ((\<lambda>(r, p', ps'). Returns r p' ps')
      (parse_loop (Some collect_content) (Some collect_header) ?p1 []))"
    using assms(1) by (intro parse_loop_at) simp_all
  moreover have "buf_size ?p0 > 0" using size d by simp
  then have "parse_loop (Some collect_content) (Some collect_header) ?p0 [] =
      parse_loop (Some collect_content) (Some collect_header) ?p1 []"
    using st by (subst parse_loop.simps) simp
  ultimately show thesis using that by (simp add: parse_form_data_def step_ok_def split: prod.splits)
qed

text \<open>C29: Form data written by \<open>serialize_multipart_formdata\<close> and fed to the parser in pieces of any
  size, the first of which holds the first boundary line, gives back the parts when they are plain: names and file
  names without ; = CR and LF, content types without CR and without blanks at their ends, header lines below the limit
  of 8192 bytes, and contents of any bytes that neither hold the delimiter nor end in a beginning of it that the
  delimiter behind them completes.\<close>

theorem form_data_roundtrip:
  assumes "list_all (plain_part b) items" and "items \<noteq> []"
    and "concat (d # ds) = serialize_multipart_formdata items b True" and "length b + 4 \<le> length d"
  shows "\<exists>p. feed (Some collect_content) (Some collect_header) (d # ds)
               (set_boundary b newMultipartFormDataParser) [] = (Inr True, p, items) \<and> fp_is_valid p"
proof -
  have "d @ concat ds = serialize_multipart_formdata items b True" using assms(3) by simp
  then obtain p ps where
    e: "parse_form_data d (Some collect_content) (Some collect_header) (set_boundary b newMultipartFormDataParser) [] =
      (Inr True, p, ps)"
    and p: "parser_at b items (concat ds) p ps" "concat ds = [] \<longrightarrow> fp_is_valid p \<and> ps = items"
    using first_piece [OF assms(1,2) _ assms(4)] by metis
  then have "fp_state p \<noteq> Initial_boundary" by (auto simp: parser_at_def elim: form_at.cases)
  then show ?thesis using feed_pieces [OF assms(1) p(1) _ p(2)] e by simp
qed


definition sample_parts :: "MultipartFormData list" where
  "sample_parts =
     [\<lparr>mf_name = ''a'', mf_content = ''1--'', mf_filename = [], mf_content_type = []\<rparr>,
      \<lparr>mf_name = ''f'', mf_content = crlf @ ''--'', mf_filename = ''x y'', mf_content_type = ''text/plain''\<rparr>]"

lemma form_data_roundtrip_witness:
  "\<exists>p. feed (Some collect_content) (Some collect_header)
         [take 5 (serialize_multipart_formdata sample_parts ''X'' True),
          take 70 (drop 5 (serialize_multipart_formdata sample_parts ''X'' True)),
          drop 70 (drop 5 (serialize_multipart_formdata sample_parts ''X'' True))]
         (set_boundary ''X'' newMultipartFormDataParser) [] = (Inr True, p, sample_parts) \<and> fp_is_valid p"
proof (rule form_data_roundtrip)
  show "list_all (plain_part ''X'') sample_parts" by code_simp
  show "sample_parts \<noteq> []" by (simp add: sample_parts_def)
  show "length ''X'' + 4 \<le> length (take 5 (serialize_multipart_formdata sample_parts ''X'' True))" by code_simp
  show "concat [take 5 (serialize_multipart_formdata sample_parts ''X'' True),
          take 70 (drop 5 (serialize_multipart_formdata sample_parts ''X'' True)),
          drop 70 (drop 5 (serialize_multipart_formdata sample_parts ''X'' True))] =
        serialize_multipart_formdata sample_parts ''X'' True"
    by (simp only: concat.simps append_Nil2 append_take_drop_id)
qed

subsection \<open>A first boundary in two pieces\<close>

text \<open>A first piece that ends within the first boundary line is accepted and thrown away, so the
  boundary is never found.\<close>

theorem cut_first_boundary_is_lost:
  assumes "d \<noteq> []" and "length d < length b + 4"
  shows "\<exists>p. parse_form_data d on_content on_header (set_boundary b newMultipartFormDataParser) a = (Inr True, p, a) \<and>
           fp_state p = Initial_boundary \<and> fp_data p = [] \<and> \<not> fp_is_valid p"
proof -
  let ?line = "''--'' @ b @ crlf" and ?p0 = "buf_append d (set_boundary b newMultipartFormDataParser)"
  have "fp_ok (set_boundary b newMultipartFormDataParser)"
    by (simp add: fp_ok_def set_boundary_def newMultipartFormDataParser_def)
  note ap = buf_append_data [OF this, of d]
  have data: "fp_data ?p0 = d"
    using ap(2) by (simp add: fp_data_def set_boundary_def newMultipartFormDataParser_def)
  have f0: "fp_state ?p0 = Initial_boundary" "fp_dash_boundary_crlf ?p0 = ?line" "\<not> fp_is_valid ?p0"
    by (simp_all add: set_boundary_def newMultipartFormDataParser_def)
  have size: "buf_size ?p0 = length d" using fp_data_length [OF ap(1)] data by simp
  have "length d < length ?line" using assms(2) by (simp add: crlf_def)
  then have find: "buf_find ?line ?p0 = length d"
    using buf_find_data [OF ap(1), of ?line] data find_index_short [of d ?line] by simp
  let ?p1 = "buf_erase (length d) ?p0"
  have p1: "fp_data ?p1 = []" "buf_size ?p1 = 0"
    using buf_erase_data [OF ap(1), of "length d"] size data by (simp_all add: buf_erase_size)
  have "parse_step on_content on_header ?p0 a = Returns (Inr True) ?p1 a"
    using f0 find p1 by (simp add: parse_step_def parse_initial_def)
  then have "parse_form_data d on_content on_header (set_boundary b newMultipartFormDataParser) a = (Inr True, ?p1, a)"
    using size assms(1) by (simp add: parse_form_data_def parse_loop.simps)
  then show ?thesis using f0 p1 by simp
qed

lemma cut_first_boundary_is_lost_witness:
  "\<exists>p. parse_form_data ''--'' (Some collect_content) (Some collect_header) (set_boundary ''X'' newMultipartFormDataParser) [] =
         (Inr True, p, []) \<and> fp_state p = Initial_boundary \<and> fp_data p = [] \<and> \<not> fp_is_valid p"
  by (rule cut_first_boundary_is_lost) simp_all

text \<open>A form of one part: read whole, and cut after the dashes of its first boundary.\<close>

lemma cut_form_rejected:
  "map (\<lambda>ds. case feed (Some collect_content) (Some collect_header) ds
         (set_boundary ''X'' newMultipartFormDataParser) [] of (r, p, ps) \<Rightarrow> (r, fp_is_valid p, length ps))
     [[serialize_multipart_formdata (take 1 sample_parts) ''X'' True],
      [take 2 (serialize_multipart_formdata (take 1 sample_parts) ''X'' True),
       drop 2 (serialize_multipart_formdata (take 1 sample_parts) ''X'' True)]] =
   [(Inr True, True, 1), (Inr True, False, 0)]"
  by code_simp


end
