(* ===== verification/Http_Content.thy ===== *)
theory Http_Content
  imports Http_Multipart Http_Ranges Http_Writers
begin

text \<open>
  How the server of \<open>httplib.h\<close> reads the content of a request: \<open>read_content_core\<close> with the receivers of a
  plain and of a multipart content, \<open>read_content\<close> that fills the request, and the content reader that a
  handler may call.  A receiver that throws ends the reading; the exception is kept beside the state of the
  receiver until the reading function is left.
\<close>

subsection \<open>Reading with receivers\<close>

text \<open>The variables that the receiver handed to the reading functions captures.\<close>

record 'a receiving =
  rv_thrown :: "thrown option"
  rv_parser :: MultipartFormDataParser
  rv_user :: 'a

definition receive_plain :: "'a content_callback option \<Rightarrow> 'a receiving receiver" where
  "receive_plain receiver d off len v =
     (case call_back receiver d (rv_user v) of
        (Inl e, a) \<Rightarrow> (False, v\<lparr>rv_thrown := Some e, rv_user := a\<rparr>)
      | (Inr b, a) \<Rightarrow> (b, v\<lparr>rv_user := a\<rparr>))"

definition receive_multipart ::
  "'a header_callback option \<Rightarrow> 'a content_callback option \<Rightarrow> 'a receiving receiver" where
  "receive_multipart multipart_header multipart_receiver d off len v =
     (case parse_form_data d multipart_receiver multipart_header (rv_parser v) (rv_user v) of
        (Inl e, p, a) \<Rightarrow> (False, v\<lparr>rv_thrown := Some e, rv_parser := p, rv_user := a\<rparr>)
      | (Inr b, p, a) \<Rightarrow> (b, v\<lparr>rv_parser := p, rv_user := a\<rparr>))"

definition read_content_core ::
  "'s Stream \<Rightarrow> nat \<Rightarrow> 'a content_callback option \<Rightarrow> 'a header_callback option \<Rightarrow> 'a content_callback option \<Rightarrow>
   'w Request \<Rightarrow> 'w Response \<Rightarrow> 'a \<Rightarrow> 's \<Rightarrow>
   ((thrown + bool) \<times> 'w Request \<times> 'w Response \<times> 'a \<times> 's) option" where
  "read_content_core S payload_max receiver multipart_header multipart_receiver req res a s =
     (let multipart = is_multipart_form_data req;
          bnd = parse_multipart_boundary (first_value (rq_headers req) ''Content-Type'') [];
          v0 = \<lparr>rv_thrown = None,
                rv_parser = (if multipart then set_boundary (snd bnd) newMultipartFormDataParser
                             else newMultipartFormDataParser),
                rv_user = a\<rparr>;
          out = (if multipart then receive_multipart multipart_header multipart_receiver
                 else receive_plain receiver)
      in if multipart \<and> \<not> fst bnd then Some (Inr False, req, res\<lparr>rs_status := 400\<rparr>, a, s)
         else if rq_method req = ''DELETE'' \<and> \<not> Request_has_header req ''Content-Length''
         then Some (Inr True, req, res, a, s)
         else Option.bind (read_content S (rq_headers req) payload_max None out True v0 s)
           (\<lambda>(ok, status, hs, v, s').
             let req' = req\<lparr>rq_headers := hs\<rparr>;
                 res' = (case status of None \<Rightarrow> res | Some c \<Rightarrow> res\<lparr>rs_status := c\<rparr>)
             in case rv_thrown v of
                  Some e \<Rightarrow> Some (Inl e, req', res, rv_user v, s')
                | None \<Rightarrow>
                    (if \<not> ok then Some (Inr False, req', res', rv_user v, s')
                     else if is_multipart_form_data req' \<and> \<not> fp_is_valid (rv_parser v)
                     then Some (Inr False, req', res'\<lparr>rs_status := 400\<rparr>, rv_user v, s')
                     else Some (Inr True, req', res', rv_user v, s'))))"

subsection \<open>Reading into the request\<close>

definition string_max_size :: nat where
  "string_max_size = 2 ^ 63 - 1"

definition multipart_file_max_count :: nat where
  "multipart_file_max_count = 1024"

definition form_url_encoded_max_length :: nat where
  "form_url_encoded_max_length = 8192"

text \<open>The callbacks of \<open>read_content\<close> fill \<open>req.body\<close> and \<open>req.files\<close>; \<open>cur\<close> is the position of the file
  inserted last.\<close>

record filling =
  fl_body :: string
  fl_files :: MultipartFormDataMap
  fl_cur :: nat
  fl_count :: nat

definition fill_body :: "filling content_callback" where
  "fill_body d f =
     (if length (fl_body f) + length d > string_max_size then (Inr False, f)
      else (Inr True, f\<lparr>fl_body := fl_body f @ d\<rparr>))"

definition fill_file :: "filling header_callback" where
  "fill_file fl f =
     (let f1 = f\<lparr>fl_count := fl_count f + 1\<rparr> in
      if fl_count f = multipart_file_max_count then (Inr False, f1)
      else (Inr True, f1\<lparr>fl_cur := upper_bound str_less (mf_name fl) (fl_files f),
                         fl_files := mm_emplace str_less (mf_name fl) fl (fl_files f)\<rparr>))"

definition fill_content :: "filling content_callback" where
  "fill_content d f =
     (let (nm, x) = fl_files f ! fl_cur f in
      if length (mf_content x) + length d > string_max_size then (Inr False, f)
      else (Inr True, f\<lparr>fl_files := (fl_files f)[fl_cur f := (nm, x\<lparr>mf_content := mf_content x @ d\<rparr>)]\<rparr>))"

definition Server_read_content ::
  "'s Stream \<Rightarrow> nat \<Rightarrow> 'w Request \<Rightarrow> 'w Response \<Rightarrow> 's \<Rightarrow>
   ((thrown + bool) \<times> 'w Request \<times> 'w Response \<times> 's) option" where
  "Server_read_content S payload_max req res s =
     Option.bind
       (read_content_core S payload_max (Some fill_body) (Some fill_file) (Some fill_content) req res
          \<lparr>fl_body = rq_body req, fl_files = rq_files req, fl_cur = 0, fl_count = 0\<rparr> s)
       (\<lambda>(r, req', res', f, s').
         let req1 = req'\<lparr>rq_body := fl_body f, rq_files := fl_files f\<rparr> in
         case r of
           Inr True \<Rightarrow>
             (if starts_with ''application/x-www-form-urlencoded'' (first_value (rq_headers req1) ''Content-Type'') then
                (if length (rq_body req1) > form_url_encoded_max_length
                 then Some (Inr False, req1, res'\<lparr>rs_status := 413\<rparr>, s')
                 else Some (Inr True, req1\<lparr>rq_params := parse_query_text (rq_body req1) (rq_params req1)\<rparr>, res', s'))
              else Some (Inr True, req1, res', s'))
         | r \<Rightarrow> Some (r, req1, res', s'))"

subsection \<open>The content reader of a handler\<close>

text \<open>What a handler with a content reader does: it returns, or it calls the reader with a receiver, or with
  a header callback and a receiver, and goes on with the answer, which may be an exception.\<close>

datatype 'w reader_prog =
    Reader_return "thrown option" "'w Response" 'w
  | Reader_call "'w content_callback" "'w Response" 'w
      "thrown + bool \<Rightarrow> 'w Request \<Rightarrow> 'w Response \<Rightarrow> 'w \<Rightarrow> 'w reader_prog"
  | Reader_call_multipart "'w header_callback" "'w content_callback" "'w Response" 'w
      "thrown + bool \<Rightarrow> 'w Request \<Rightarrow> 'w Response \<Rightarrow> 'w \<Rightarrow> 'w reader_prog"

type_synonym 'w HandlerWithContentReader = "'w Request \<Rightarrow> 'w Response \<Rightarrow> 'w \<Rightarrow> 'w reader_prog"

definition read_content_with_content_receiver ::
  "'s Stream \<Rightarrow> nat \<Rightarrow> 'w content_callback option \<Rightarrow> 'w header_callback option \<Rightarrow> 'w content_callback option \<Rightarrow>
   'w Request \<Rightarrow> 'w Response \<Rightarrow> 'w \<Rightarrow> 's \<Rightarrow>
   ((thrown + bool) \<times> 'w Request \<times> 'w Response \<times> 'w \<times> 's) option" where
  "read_content_with_content_receiver = read_content_core"

primrec run_reader ::
  "'w reader_prog \<Rightarrow> 's Stream \<Rightarrow> nat \<Rightarrow> 'w Request \<Rightarrow> 's \<Rightarrow>
   (thrown option \<times> 'w Request \<times> 'w Response \<times> 'w \<times> 's) option" where
  "run_reader (Reader_return e res w) S payload_max req s = Some (e, req, res, w, s)"
| "run_reader (Reader_call f res w k) S payload_max req s =
     Option.bind (read_content_with_content_receiver S payload_max (Some f) None None req res w s)
       (\<lambda>(r, req', res', w', s'). run_reader (k r req' res' w') S payload_max req' s')"
| "run_reader (Reader_call_multipart h f res w k) S payload_max req s =
     Option.bind (read_content_with_content_receiver S payload_max None (Some h) (Some f) req res w s)
       (\<lambda>(r, req', res', w', s'). run_reader (k r req' res' w') S payload_max req' s')"

fun dispatch_request_for_content_reader ::
  "(string \<Rightarrow> string \<Rightarrow> string list option) \<Rightarrow> 's Stream \<Rightarrow> nat \<Rightarrow> (matcher \<times> 'w HandlerWithContentReader) list \<Rightarrow>
   'w Request \<Rightarrow> 'w Response \<Rightarrow> 'w \<Rightarrow> 's \<Rightarrow>
   ((thrown + bool) \<times> 'w Request \<times> 'w Response \<times> 'w \<times> 's) option" where
  "dispatch_request_for_content_reader rx S payload_max [] req res w s = Some (Inr False, req, res, w, s)"
| "dispatch_request_for_content_reader rx S payload_max (x # xs) req res w s =
     (case match rx (fst x) req of
        (True, req') \<Rightarrow>
          Option.bind (run_reader (snd x req' res w) S payload_max req' s)
            (\<lambda>(e, req'', res', w', s').
              Some (case e of None \<Rightarrow> Inr True | Some t \<Rightarrow> Inl t, req'', res', w', s'))
      | (False, req') \<Rightarrow> dispatch_request_for_content_reader rx S payload_max xs req' res w s)"

end
