(* ===== verification/Http_Response.thy ===== *)
theory Http_Response
  imports Http_Content Http_Mime
begin

text \<open>
  How the server of \<open>httplib.h\<close> writes a response: the ranges the request asks for, the headers that are
  added, the status line, the body or the content of a provider, and the calls of the error handler, the
  post-routing handler and the logger.  The library is built without compressors, so \<open>encoding_type\<close> never
  chooses one.  What \<open>engine\<close> gives for a new boundary and whether the server is shutting down are
  parameters.
\<close>

subsection \<open>How a function is left\<close>

text \<open>By an exception of a callback, or by an assertion that fails; otherwise with its result.\<close>

datatype http_stop = Threw thrown | Assert_failed

subsection \<open>Ranges\<close>

definition range_boundary_headers ::
  "(nat \<Rightarrow> nat) \<Rightarrow> 'w Request \<Rightarrow> 'w Response \<Rightarrow> 'w Response \<times> string \<times> string" where
  "range_boundary_headers engine req res =
     (if length (rq_ranges req) > 1 then
        (let boundary = make_multipart_data_boundary engine;
             content_type = (case mm_find ci_less ''Content-Type'' (rs_headers res) of None \<Rightarrow> [] | Some t \<Rightarrow> t);
             res1 = (if Response_has_header res ''Content-Type''
                     then res\<lparr>rs_headers := mm_erase_first ci_less ''Content-Type'' (rs_headers res)\<rparr> else res)
         in (Response_set_header ''Content-Type'' (''multipart/byteranges; boundary='' @ boundary) res1,
             content_type, boundary))
      else (res, [], []))"

definition apply_ranges_provider ::
  "'w Request \<Rightarrow> 'w Response \<Rightarrow> EncodingType \<Rightarrow> string \<Rightarrow> string \<Rightarrow> 'w Response" where
  "apply_ranges_provider req res ty content_type boundary =
     (if rs_content_length res > 0 then
        (if rq_ranges req = [] then Response_set_header ''Content-Length'' (dec (rs_content_length res)) res
         else if length (rq_ranges req) = 1 then
           (let len = snd (get_range_offset_and_length (rq_ranges req) (rs_content_length res) 0);
                cr = make_content_range_header_field (rq_ranges req ! 0) (rs_content_length res)
            in Response_set_header ''Content-Length'' (dec len) (Response_set_header ''Content-Range'' cr res))
         else Response_set_header ''Content-Length''
                (dec (get_multipart_ranges_data_length req res boundary content_type)) res)
      else if rs_content_provider res \<noteq> None \<and> rs_is_chunked res then
        (let res1 = Response_set_header ''Transfer-Encoding'' ''chunked'' res in
         case ty of
           NoEncoding \<Rightarrow> res1
         | Gzip \<Rightarrow> Response_set_header ''Content-Encoding'' ''gzip'' res1
         | Brotli \<Rightarrow> Response_set_header ''Content-Encoding'' ''br'' res1)
      else res)"

definition apply_ranges_body :: "'w Request \<Rightarrow> 'w Response \<Rightarrow> string \<Rightarrow> string \<Rightarrow> 'w Response" where
  "apply_ranges_body req res content_type boundary =
     (let n = length (rs_body res);
          res1 =
            (if rq_ranges req = [] then res
             else if length (rq_ranges req) = 1 then
               (let cr = make_content_range_header_field (rq_ranges req ! 0) n;
                    r1 = Response_set_header ''Content-Range'' cr res;
                    (offset, len) = get_range_offset_and_length (rq_ranges req) n 0
                in if offset < n then r1\<lparr>rs_body := substr (rs_body r1) offset len\<rparr>
                   else r1\<lparr>rs_body := [], rs_status := 416\<rparr>)
             else
               (case make_multipart_ranges_data req res boundary content_type [] of
                  (True, d) \<Rightarrow> res\<lparr>rs_body := d\<rparr>
                | (False, d) \<Rightarrow> res\<lparr>rs_body := [], rs_status := 416\<rparr>))
      in Response_set_header ''Content-Length'' (dec (length (rs_body res1))) res1)"

definition apply_ranges ::
  "(nat \<Rightarrow> nat) \<Rightarrow> 'w Request \<Rightarrow> 'w Response \<Rightarrow> 'w Response \<times> string \<times> string" where
  "apply_ranges engine req res =
     (case range_boundary_headers engine req res of
        (res1, content_type, boundary) \<Rightarrow>
          (if rs_body res1 = []
           then (apply_ranges_provider req res1 (encoding_type False False req res1) content_type boundary,
                 content_type, boundary)
           else (apply_ranges_body req res1 content_type boundary, content_type, boundary)))"

subsection \<open>The content of a provider\<close>

text \<open>The instance of \<open>process_multipart_ranges_data\<close> that writes; its state is \<open>None\<close> when a call does not
  return, and says whether the provider has called a function of the sink that is not set.\<close>

definition write_multipart_ranges_data ::
  "'s Stream \<Rightarrow> ('s \<Rightarrow> bool) \<Rightarrow> 'w Request \<Rightarrow> 'w Response \<Rightarrow> string \<Rightarrow> string \<Rightarrow> 'w \<Rightarrow> 's \<Rightarrow>
   ((http_stop + bool) \<times> 'w \<times> 's) option" where
  "write_multipart_ranges_data S down req res boundary content_type w s =
     (case rs_content_provider res of
        None \<Rightarrow> Some (Inl (Threw (Std_exception ''bad_function_call'')), w, s)
      | Some provider \<Rightarrow>
          (case process_multipart_ranges_data req res boundary content_type
             (\<lambda>t. map_option (\<lambda>(bad, w, s). (bad, w, snd (write_op S t s))))
             (\<lambda>offset len st.
               case st of
                 None \<Rightarrow> (False, None)
               | Some (bad, w, s) \<Rightarrow>
                   (case write_content S provider offset len down w s of
                      None \<Rightarrow> (False, None)
                    | Some (Bad_call, s') \<Rightarrow> (False, Some (True, w, s'))
                    | Some (Written b e w', s') \<Rightarrow> (b, Some (bad, w', s'))))
             (Some (False, w, s)) of
             (b, None) \<Rightarrow> None
           | (b, Some (bad, w', s')) \<Rightarrow>
               Some (if bad then Inl (Threw (Std_exception ''bad_function_call'')) else Inr b, w', s')))"

definition of_outcome :: "'w \<Rightarrow> ('w write_outcome \<times> 's) \<Rightarrow> (http_stop + bool) \<times> 'w \<times> 's" where
  "of_outcome w r =
     (case r of
        (Bad_call, s) \<Rightarrow> (Inl (Threw (Std_exception ''bad_function_call'')), w, s)
      | (Written b e w', s) \<Rightarrow> (Inr b, w', s))"

definition write_content_with_provider ::
  "'s Stream \<Rightarrow> ('s \<Rightarrow> bool) \<Rightarrow> 'w Request \<Rightarrow> 'w Response \<Rightarrow> 'w ContentProvider \<Rightarrow> string \<Rightarrow> string \<Rightarrow> 'w \<Rightarrow> 's \<Rightarrow>
   ((http_stop + bool) \<times> 'w \<times> 's) option" where
  "write_content_with_provider S down req res provider boundary content_type w s =
     (if rs_content_length res > 0 then
        (if rq_ranges req = []
         then map_option (of_outcome w) (write_content S provider 0 (rs_content_length res) down w s)
         else if length (rq_ranges req) = 1 then
           (case get_range_offset_and_length (rq_ranges req) (rs_content_length res) 0 of
              (offset, len) \<Rightarrow> map_option (of_outcome w) (write_content S provider offset len down w s))
         else write_multipart_ranges_data S down req res boundary content_type w s)
      else if rs_is_chunked res
      then map_option (of_outcome w) (write_content_chunked S provider down w s)
      else map_option (of_outcome w) (write_content_without_length S provider down w s))"

subsection \<open>The response\<close>

definition add_connection_header ::
  "('w, 'r) HttpServer \<Rightarrow> bool \<Rightarrow> 'w Request \<Rightarrow> 'w Response \<Rightarrow> 'w Response" where
  "add_connection_header sv close_connection req res =
     (if close_connection \<or> first_value (rq_headers req) ''Connection'' = ''close''
      then Response_set_header ''Connection'' ''close'' res
      else Response_set_header ''Keep-Alive''
             (''timeout='' @ show_bound (keep_alive_timeout_sec sv) @ '', max='' @ dec (keep_alive_max_count sv)) res)"

definition add_content_headers :: "'w Request \<Rightarrow> 'w Response \<Rightarrow> 'w Response" where
  "add_content_headers req res =
     (let r1 = (if \<not> Response_has_header res ''Content-Type'' \<and>
                   (rs_body res \<noteq> [] \<or> rs_content_length res > 0 \<or> rs_content_provider res \<noteq> None)
                then Response_set_header ''Content-Type'' ''text/plain'' res else res);
          r2 = (if \<not> Response_has_header r1 ''Content-Length'' \<and> rs_body r1 = [] \<and>
                   rs_content_length r1 = 0 \<and> rs_content_provider r1 = None
                then Response_set_header ''Content-Length'' ''0'' r1 else r1)
      in if \<not> Response_has_header r2 ''Accept-Ranges'' \<and> rq_method req = ''HEAD''
         then Response_set_header ''Accept-Ranges'' ''bytes'' r2 else r2)"

text \<open>The status line and the headers, collected in a \<open>BufferStream\<close>; false when a writer returns zero.\<close>

definition response_head ::
  "('w, 'r) HttpServer \<Rightarrow> 'w Response \<Rightarrow> bool \<times> 'w Response \<times> string" where
  "response_head sv res =
     (case write_format buffer_stream
             (''HTTP/1.1 '' @ show_bound (rs_status res) @ '' '' @ status_message (rs_status res) @ crlf)
             \<lparr>bs_buffer = [], bs_position = 0\<rparr> of
        (n, b1) \<Rightarrow>
          (if n = 0 then (False, res, [])
           else case header_writer sv (rs_headers res) b1 of
             (m, hs, b2) \<Rightarrow>
               (if m = 0 then (False, res\<lparr>rs_headers := hs\<rparr>, [])
                else (True, res\<lparr>rs_headers := hs\<rparr>, bs_buffer b2))))"

definition write_body ::
  "'s Stream \<Rightarrow> ('s \<Rightarrow> bool) \<Rightarrow> 'w Request \<Rightarrow> 'w Response \<Rightarrow> string \<Rightarrow> string \<Rightarrow> 'w \<Rightarrow> 's \<Rightarrow>
   ((http_stop + bool) \<times> 'w Response \<times> 'w \<times> 's) option" where
  "write_body S down req res boundary content_type w s =
     (if rq_method req = ''HEAD'' then Some (Inr True, res, w, s)
      else if rs_body res \<noteq> [] then
        map_option (\<lambda>(b, s'). (Inr b, res, w, s')) (write_data S (rs_body res) s)
      else case rs_content_provider res of
        None \<Rightarrow> Some (Inr True, res, w, s)
      | Some provider \<Rightarrow>
          map_option (\<lambda>(r, w', s').
              (r, (case r of Inr b \<Rightarrow> res\<lparr>rs_provider_success := b\<rparr> | Inl e \<Rightarrow> res), w', s'))
            (write_content_with_provider S down req res provider boundary content_type w s))"

text \<open>The part after the error handler has been asked.\<close>

definition write_prepared ::
  "(nat \<Rightarrow> nat) \<Rightarrow> 's Stream \<Rightarrow> ('s \<Rightarrow> bool) \<Rightarrow> ('w, 'r) HttpServer \<Rightarrow> bool \<Rightarrow> 'w Request \<Rightarrow> 'w Response \<Rightarrow> bool \<Rightarrow>
   'w \<Rightarrow> 's \<Rightarrow> ((http_stop + bool) \<times> 'w Response \<times> 'w \<times> 's) option" where
  "write_prepared engine S down sv close_connection req res need_apply_ranges w s =
     (let (res1, content_type, boundary) = (if need_apply_ranges then apply_ranges engine req res else (res, [], []));
          res2 = add_content_headers req (add_connection_header sv close_connection req res1)
      in case (case post_routing_handler sv of None \<Rightarrow> (None, res2, w) | Some f \<Rightarrow> f req res2 w) of
           (Some e, res3, w3) \<Rightarrow> Some (Inl (Threw e), res3, w3, s)
         | (None, res3, w3) \<Rightarrow>
             (case response_head sv res3 of
                (False, res4, d) \<Rightarrow> Some (Inr False, res4, w3, s)
              | (True, res4, d) \<Rightarrow>
                  Option.bind (write_data S d s) (\<lambda>(ignored, s4).
                  Option.bind (write_body S down req res4 boundary content_type w3 s4) (\<lambda>(r, res5, w5, s5).
                    case r of
                      Inl e \<Rightarrow> Some (Inl e, res5, w5, s5)
                    | Inr b \<Rightarrow>
                        Some (Inr b, res5, (case http_logger sv of None \<Rightarrow> w5 | Some f \<Rightarrow> f req res5 w5), s5)))))"

definition write_response_core ::
  "(nat \<Rightarrow> nat) \<Rightarrow> 's Stream \<Rightarrow> ('s \<Rightarrow> bool) \<Rightarrow> ('w, 'r) HttpServer \<Rightarrow> bool \<Rightarrow> 'w Request \<Rightarrow> 'w Response \<Rightarrow> bool \<Rightarrow>
   'w \<Rightarrow> 's \<Rightarrow> ((http_stop + bool) \<times> 'w Response \<times> 'w \<times> 's) option" where
  "write_response_core engine S down sv close_connection req res need_apply_ranges w s =
     (if rs_status res = -1 then Some (Inl Assert_failed, res, w, s)
      else if 400 \<le> rs_status res then
        (case error_handler sv of
           None \<Rightarrow> write_prepared engine S down sv close_connection req res need_apply_ranges w s
         | Some f \<Rightarrow>
             (case f req res w of
                (Inl e, res', w') \<Rightarrow> Some (Inl (Threw e), res', w', s)
              | (Inr h, res', w') \<Rightarrow>
                  write_prepared engine S down sv close_connection req res' (need_apply_ranges \<or> h = Handled) w' s))
      else write_prepared engine S down sv close_connection req res need_apply_ranges w s)"

definition write_response where
  "write_response engine S down sv close_connection req res =
     write_response_core engine S down sv close_connection req res False"

definition write_response_with_content where
  "write_response_with_content engine S down sv close_connection req res =
     write_response_core engine S down sv close_connection req res True"

end
