(* ===== verification/Http_Process.thy ===== *)
theory Http_Process
  imports Http_Response
begin

text \<open>
  How the server of \<open>httplib.h\<close> serves a request: files of a mount point, routing, \<open>process_request\<close> from the
  request line to the response, and the loop over the requests of a connection.  The file system, the
  matching of regular expressions, the random engine, the addresses of the connection and the state of the
  listening socket are parameters.
\<close>

subsection \<open>The environment\<close>

text \<open>\<open>file_bytes\<close> is the content that \<open>mmap\<close> maps, \<open>None\<close> when the file cannot be opened; \<open>file_beyond\<close> is what a
  read behind the end of the mapping gives.\<close>

record ('w, 's) Env =
  regex_match :: "string \<Rightarrow> string \<Rightarrow> string list option"
  is_file :: "string \<Rightarrow> 'w \<Rightarrow> bool"
  file_bytes :: "string \<Rightarrow> 'w \<Rightarrow> string option"
  file_beyond :: "nat \<Rightarrow> char"
  random_engine :: "nat \<Rightarrow> nat"
  shutting_down :: "'s \<Rightarrow> bool"
  socket_too_big :: bool
  remote_peer :: "string \<times> int"
  local_peer :: "string \<times> int"

subsection \<open>A new server\<close>

definition default_header_writer :: "Headers \<Rightarrow> BufferStream \<Rightarrow> int \<times> Headers \<times> BufferStream" where
  "default_header_writer hs b = (case write_headers buffer_stream hs b of (n, b') \<Rightarrow> (n, hs, b'))"

text \<open>\<open>AF_UNSPEC\<close> is \<open>0\<close>; the default socket options are a system call.\<close>

definition newHttpServer :: "(int \<Rightarrow> 'w \<Rightarrow> 'w) \<Rightarrow> ('w, 'r) HttpServer" where
  "newHttpServer default_socket_options =
     \<lparr>keep_alive_max_count = 5, keep_alive_timeout_sec = 5, read_timeout = (5, 0), write_timeout = (5, 0),
      idle_interval = (0, 0), payload_max_length = 2 ^ 64 - 1, base_dirs = [],
      file_extension_and_mimetype_map = Map.empty, default_file_mimetype = ''application/octet-stream'',
      file_request_handler = None, get_handlers = [], post_handlers = [], post_handlers_for_content_reader = [],
      put_handlers = [], put_handlers_for_content_reader = [], patch_handlers = [],
      patch_handlers_for_content_reader = [], delete_handlers = [], delete_handlers_for_content_reader = [],
      options_handlers = [], error_handler = None, exception_handler = None, pre_routing_handler = None,
      post_routing_handler = None, expect_100_continue_handler = None, http_logger = None, address_family = 0,
      tcp_nodelay = False, socket_options = default_socket_options, default_headers = [],
      header_writer = default_header_writer\<rparr>"

subsection \<open>Files\<close>

definition mapped_bytes :: "(nat \<Rightarrow> char) \<Rightarrow> string \<Rightarrow> nat \<Rightarrow> nat \<Rightarrow> string" where
  "mapped_bytes beyond d offset len =
     map (\<lambda>i. if i < length d then d ! i else beyond i) [offset..<offset + len]"

definition file_provider :: "(nat \<Rightarrow> char) \<Rightarrow> string \<Rightarrow> 'w ContentProvider" where
  "file_provider beyond d offset len w =
     Sink_write (mapped_bytes beyond d offset len) (\<lambda>b. Sink_return True w)"

definition file_path :: "MountPointEntry \<Rightarrow> string \<Rightarrow> string" where
  "file_path mp sub_path =
     (let path = mp_base_dir mp @ sub_path
      in if last path = slash then path @ ''index.html'' else path)"

text \<open>An entry answers with \<open>None\<close> when the loop goes on.\<close>

definition serve_file ::
  "('w, 's) Env \<Rightarrow> ('w, 'r) HttpServer \<Rightarrow> MountPointEntry \<Rightarrow> string \<Rightarrow> bool \<Rightarrow> 'w Request \<Rightarrow> 'w Response \<Rightarrow> 'w \<Rightarrow>
   (http_stop + bool) \<times> 'w Response \<times> 'w" where
  "serve_file env sv mp path head req res w =
     (let res1 = fold (\<lambda>kv. Response_set_header (c_str (fst kv)) (snd kv)) (mp_headers mp) res in
      case file_bytes env (c_str path) w of
        None \<Rightarrow> (Inr False, res1, w)
      | Some d \<Rightarrow>
          (let res2 = set_content_provider (length d)
                 (find_content_type path (file_extension_and_mimetype_map sv) (default_file_mimetype sv))
                 (file_provider (file_beyond env) d) None res1
           in if head then (Inr True, res2, w)
              else case file_request_handler sv of
                None \<Rightarrow> (Inr True, res2, w)
              | Some f \<Rightarrow>
                  (case f req res2 w of
                     (None, res3, w3) \<Rightarrow> (Inr True, res3, w3)
                   | (Some e, res3, w3) \<Rightarrow> (Inl (Threw e), res3, w3))))"

fun handle_file_request ::
  "('w, 's) Env \<Rightarrow> ('w, 'r) HttpServer \<Rightarrow> MountPointEntry list \<Rightarrow> bool \<Rightarrow> 'w Request \<Rightarrow> 'w Response \<Rightarrow> 'w \<Rightarrow>
   (http_stop + bool) \<times> 'w Response \<times> 'w" where
  "handle_file_request env sv [] head req res w = (Inr False, res, w)"
| "handle_file_request env sv (mp # entries) head req res w =
     (if starts_with (mp_mount_point mp) (rq_path req) then
        (let sub_path = slash # drop (length (mp_mount_point mp)) (rq_path req) in
         if is_valid_path sub_path = Inr True \<and> is_file env (c_str (file_path mp sub_path)) w
         then serve_file env sv mp (file_path mp sub_path) head req res w
         else handle_file_request env sv entries head req res w)
      else handle_file_request env sv entries head req res w)"

subsection \<open>Routing\<close>

text \<open>An exception of a callback.\<close>

definition as_stop :: "thrown + bool \<Rightarrow> http_stop + bool" where
  "as_stop r = (case r of Inl e \<Rightarrow> Inl (Threw e) | Inr b \<Rightarrow> Inr b)"

definition reader_handlers ::
  "('w, 'w HandlerWithContentReader) HttpServer \<Rightarrow> string \<Rightarrow> (matcher \<times> 'w HandlerWithContentReader) list" where
  "reader_handlers sv m =
     (if m = ''POST'' then post_handlers_for_content_reader sv
      else if m = ''PUT'' then put_handlers_for_content_reader sv
      else if m = ''PATCH'' then patch_handlers_for_content_reader sv
      else if m = ''DELETE'' then delete_handlers_for_content_reader sv
      else [])"

text \<open>\<open>None\<close> for a method without regular handlers.\<close>

definition method_handlers :: "('w, 'r) HttpServer \<Rightarrow> string \<Rightarrow> (matcher \<times> 'w Handler) list option" where
  "method_handlers sv m =
     (if m = ''GET'' \<or> m = ''HEAD'' then Some (get_handlers sv)
      else if m = ''POST'' then Some (post_handlers sv)
      else if m = ''PUT'' then Some (put_handlers sv)
      else if m = ''DELETE'' then Some (delete_handlers sv)
      else if m = ''OPTIONS'' then Some (options_handlers sv)
      else if m = ''PATCH'' then Some (patch_handlers sv)
      else None)"

definition route_regular ::
  "('w, 's) Env \<Rightarrow> ('w, 'r) HttpServer \<Rightarrow> 'w Request \<Rightarrow> 'w Response \<Rightarrow> 'w \<Rightarrow>
   (http_stop + bool) \<times> 'w Request \<times> 'w Response \<times> 'w" where
  "route_regular env sv req res w =
     (case method_handlers sv (rq_method req) of
        None \<Rightarrow> (Inr False, req, res\<lparr>rs_status := 400\<rparr>, w)
      | Some hs \<Rightarrow>
          (case dispatch_request (regex_match env) hs req res w of
             (r, req', res', w') \<Rightarrow> (as_stop r, req', res', w')))"

definition route_content ::
  "('w, 's) Env \<Rightarrow> 's Stream \<Rightarrow> ('w, 'w HandlerWithContentReader) HttpServer \<Rightarrow> 'w Request \<Rightarrow> 'w Response \<Rightarrow> 'w \<Rightarrow> 's \<Rightarrow>
   ((http_stop + bool) \<times> 'w Request \<times> 'w Response \<times> 'w \<times> 's) option" where
  "route_content env S sv req res w s =
     Option.bind
       (dispatch_request_for_content_reader (regex_match env) S (payload_max_length sv)
          (reader_handlers sv (rq_method req)) req res w s)
       (\<lambda>(r, req1, res1, w1, s1).
         case r of
           Inl e \<Rightarrow> Some (Inl (Threw e), req1, res1, w1, s1)
         | Inr True \<Rightarrow> Some (Inr True, req1, res1, w1, s1)
         | Inr False \<Rightarrow>
             Option.bind (Server_read_content S (payload_max_length sv) req1 res1 s1) (\<lambda>(r2, req2, res2, s2).
               case r2 of
                 Inr True \<Rightarrow>
                   (case route_regular env sv req2 res2 w1 of
                      (r3, req3, res3, w3) \<Rightarrow> Some (r3, req3, res3, w3, s2))
               | r2 \<Rightarrow> Some (as_stop r2, req2, res2, w1, s2)))"

definition routing ::
  "('w, 's) Env \<Rightarrow> 's Stream \<Rightarrow> ('w, 'w HandlerWithContentReader) HttpServer \<Rightarrow> 'w Request \<Rightarrow> 'w Response \<Rightarrow> 'w \<Rightarrow> 's \<Rightarrow>
   ((http_stop + bool) \<times> 'w Request \<times> 'w Response \<times> 'w \<times> 's) option" where
  "routing env S sv req res w s =
     (case (case pre_routing_handler sv of None \<Rightarrow> (Inr Unhandled, res, w) | Some f \<Rightarrow> f req res w) of
        (Inl e, res1, w1) \<Rightarrow> Some (Inl (Threw e), req, res1, w1, s)
      | (Inr Handled, res1, w1) \<Rightarrow> Some (Inr True, req, res1, w1, s)
      | (Inr Unhandled, res1, w1) \<Rightarrow>
          (case (if rq_method req = ''GET'' \<or> rq_method req = ''HEAD''
                 then handle_file_request env sv (base_dirs sv) (rq_method req = ''HEAD'') req res1 w1
                 else (Inr False, res1, w1)) of
             (Inr False, res2, w2) \<Rightarrow>
               (if expect_content req then route_content env S sv req res2 w2 s
                else case route_regular env sv req res2 w2 of
                  (r3, req3, res3, w3) \<Rightarrow> Some (r3, req3, res3, w3, s))
           | (r, res2, w2) \<Rightarrow> Some (r, req, res2, w2, s)))"

subsection \<open>A request\<close>

definition request_uri_max_length :: nat where
  "request_uri_max_length = 8192"

text \<open>The line ends of an exception's text are written as escapes.\<close>

definition escape_what :: "string \<Rightarrow> string" where
  "escape_what t =
     concat (map (\<lambda>c. if c = CHR 0x0D then [CHR 0x5C, CHR ''r''] else if c = CHR 0x0A then [CHR 0x5C, CHR ''n''] else [c])
       (c_str t))"

definition exception_response :: "thrown \<Rightarrow> 'w Response \<Rightarrow> 'w Response" where
  "exception_response e res =
     Response_set_header ''EXCEPTION_WHAT''
       (case e of Std_exception t \<Rightarrow> escape_what t | Other_exception \<Rightarrow> ''UNKNOWN'') (res\<lparr>rs_status := 500\<rparr>)"

text \<open>The end of the function: the response is destroyed, which calls its resource releaser.\<close>

definition leave ::
  "bool \<Rightarrow> ((http_stop + bool) \<times> 'w Response \<times> 'w \<times> 's) option \<Rightarrow> ((http_stop + bool) \<times> bool \<times> 'w \<times> 's) option" where
  "leave closed r =
     map_option (\<lambda>(b, res, w, s). (b, closed, (case b of Inr _ \<Rightarrow> destroyResponse res w | Inl _ \<Rightarrow> w), s)) r"

definition closes_connection :: "'w Request \<Rightarrow> bool" where
  "closes_connection req \<longleftrightarrow>
     first_value (rq_headers req) ''Connection'' = ''close'' \<or>
     rq_version req = ''HTTP/1.0'' \<and> first_value (rq_headers req) ''Connection'' \<noteq> ''Keep-Alive''"

definition add_peer_headers :: "('w, 's) Env \<Rightarrow> 'w Request \<Rightarrow> 'w Request" where
  "add_peer_headers env req =
     (let r1 = req\<lparr>remote_addr := fst (remote_peer env), remote_port := snd (remote_peer env)\<rparr>;
          r2 = Request_set_header ''REMOTE_PORT'' (show_bound (remote_port r1))
                 (Request_set_header ''REMOTE_ADDR'' (remote_addr r1) r1);
          r3 = r2\<lparr>local_addr := fst (local_peer env), local_port := snd (local_peer env)\<rparr>
      in Request_set_header ''LOCAL_PORT'' (show_bound (local_port r3))
           (Request_set_header ''LOCAL_ADDR'' (local_addr r3) r3))"

definition initial_response :: "('w, 'r) HttpServer \<Rightarrow> 'w Response" where
  "initial_response sv = newResponse\<lparr>rs_version := ''HTTP/1.1'', rs_headers := default_headers sv\<rparr>"

text \<open>Routing with the handling of exceptions, and the response to its result.\<close>

definition answer ::
  "('w, 's) Env \<Rightarrow> 's Stream \<Rightarrow> ('w, 'r) HttpServer \<Rightarrow> bool \<Rightarrow>
   (http_stop + bool) \<Rightarrow> 'w Request \<Rightarrow> 'w Response \<Rightarrow> 'w \<Rightarrow> 's \<Rightarrow>
   ((http_stop + bool) \<times> 'w Response \<times> 'w \<times> 's) option" where
  "answer env S sv close_connection r req res w s =
     (case r of
        Inl Assert_failed \<Rightarrow> Some (Inl Assert_failed, res, w, s)
      | Inr True \<Rightarrow>
          write_response_with_content (random_engine env) S (shutting_down env) sv close_connection req
            (if rs_status res = -1 then res\<lparr>rs_status := (if rq_ranges req = [] then 200 else 206)\<rparr> else res) w s
      | Inr False \<Rightarrow>
          write_response (random_engine env) S (shutting_down env) sv close_connection req
            (if rs_status res = -1 then res\<lparr>rs_status := 404\<rparr> else res) w s
      | Inl (Threw e) \<Rightarrow>
          (case exception_handler sv of
             None \<Rightarrow>
               write_response (random_engine env) S (shutting_down env) sv close_connection req
                 (exception_response e res) w s
           | Some f \<Rightarrow>
               (case f req res e w of
                  (Some e', res', w') \<Rightarrow> Some (Inl (Threw e'), res', w', s)
                | (None, res', w') \<Rightarrow>
                    write_response_with_content (random_engine env) S (shutting_down env) sv close_connection req
                      (if rs_status res' = -1
                       then res'\<lparr>rs_status := (if rq_ranges req = [] then 200 else 206)\<rparr> else res') w' s)))"

definition route_and_answer ::
  "('w, 's) Env \<Rightarrow> 's Stream \<Rightarrow> ('w, 'w HandlerWithContentReader) HttpServer \<Rightarrow> bool \<Rightarrow>
   'w Request \<Rightarrow> 'w Response \<Rightarrow> 'w \<Rightarrow> 's \<Rightarrow> ((http_stop + bool) \<times> 'w Response \<times> 'w \<times> 's) option" where
  "route_and_answer env S sv close_connection req res w s =
     Option.bind (routing env S sv req res w s)
       (\<lambda>(r, req', res', w', s'). answer env S sv close_connection r req' res' w' s')"

definition expect_and_answer ::
  "('w, 's) Env \<Rightarrow> 's Stream \<Rightarrow> ('w, 'w HandlerWithContentReader) HttpServer \<Rightarrow> bool \<Rightarrow>
   'w Request \<Rightarrow> 'w Response \<Rightarrow> 'w \<Rightarrow> 's \<Rightarrow> ((http_stop + bool) \<times> 'w Response \<times> 'w \<times> 's) option" where
  "expect_and_answer env S sv close_connection req res w s =
     (if first_value (rq_headers req) ''Expect'' = ''100-continue'' then
        (case (case expect_100_continue_handler sv of None \<Rightarrow> (100, res, w) | Some f \<Rightarrow> f req res w) of
           (status, res1, w1) \<Rightarrow>
             (if status = 100 \<or> status = 417 then
                route_and_answer env S sv close_connection req res1 w1
                  (snd (write_format S (''HTTP/1.1 '' @ show_bound status @ '' '' @ status_message status @ crlf @ crlf) s))
              else write_response (random_engine env) S (shutting_down env) sv close_connection req res1 w1 s))
      else route_and_answer env S sv close_connection req res w s)"

definition serve_request ::
  "('w, 's) Env \<Rightarrow> 's Stream \<Rightarrow> ('w, 'w HandlerWithContentReader) HttpServer \<Rightarrow> bool \<Rightarrow>
   ('w Request \<Rightarrow> 'w Request) option \<Rightarrow> 'w Request \<Rightarrow> 'w \<Rightarrow> 's \<Rightarrow>
   ((http_stop + bool) \<times> 'w Response \<times> 'w \<times> 's) option" where
  "serve_request env S sv close_connection setup_request req w s =
     (let req1 = add_peer_headers env req;
          (ok, ranges) = (if Request_has_header req1 ''Range''
             then parse_range_header (first_value (rq_headers req1) ''Range'') (rq_ranges req1)
             else (True, rq_ranges req1));
          req2 = req1\<lparr>rq_ranges := ranges\<rparr>
      in if \<not> ok
         then write_response (random_engine env) S (shutting_down env) sv close_connection req2
                ((initial_response sv)\<lparr>rs_status := 416\<rparr>) w s
         else expect_and_answer env S sv close_connection
                (case setup_request of None \<Rightarrow> req2 | Some f \<Rightarrow> f req2) (initial_response sv) w s)"

text \<open>The second component of the result is \<open>connection_closed\<close>.\<close>

definition process_request ::
  "('w, 's) Env \<Rightarrow> 's Stream \<Rightarrow> ('w, 'w HandlerWithContentReader) HttpServer \<Rightarrow> bool \<Rightarrow> bool \<Rightarrow>
   ('w Request \<Rightarrow> 'w Request) option \<Rightarrow> 'w \<Rightarrow> 's \<Rightarrow> ((http_stop + bool) \<times> bool \<times> 'w \<times> 's) option" where
  "process_request env S sv close_connection connection_closed setup_request w s =
     Option.bind (getline S (new_reader 2048) s) (\<lambda>(ok, r, s1).
       if \<not> ok then Some (Inr False, connection_closed, w, s1)
       else if socket_too_big env then
         Option.bind (read_headers S [] s1) (\<lambda>(ignored, dummy, s2).
           leave connection_closed
             (write_response (random_engine env) S (shutting_down env) sv close_connection newRequest
                ((initial_response sv)\<lparr>rs_status := 500\<rparr>) w s2))
       else if line_size r > request_uri_max_length then
         Option.bind (read_headers S [] s1) (\<lambda>(ignored, dummy, s2).
           leave connection_closed
             (write_response (random_engine env) S (shutting_down env) sv close_connection newRequest
                ((initial_response sv)\<lparr>rs_status := 414\<rparr>) w s2))
       else
         (case parse_request_line (line_of r) newRequest of
            (False, req) \<Rightarrow>
              leave connection_closed
                (write_response (random_engine env) S (shutting_down env) sv close_connection req
                   ((initial_response sv)\<lparr>rs_status := 400\<rparr>) w s1)
          | (True, req) \<Rightarrow>
              Option.bind (read_headers S (rq_headers req) s1) (\<lambda>(ok, hs, s2).
                let req1 = req\<lparr>rq_headers := hs\<rparr> in
                if \<not> ok then
                  leave connection_closed
                    (write_response (random_engine env) S (shutting_down env) sv close_connection req1
                       ((initial_response sv)\<lparr>rs_status := 400\<rparr>) w s2)
                else
                  leave (connection_closed \<or> closes_connection req1)
                    (serve_request env S sv close_connection setup_request req1 w s2))))"

subsection \<open>The requests of a connection\<close>

text \<open>\<open>listening\<close> says whether the listening socket is open, \<open>alive\<close> is \<open>keep_alive\<close>; the callback serves a
  request with the flag for the last one and reports whether the connection is to be closed.  An exception
  leaves the loop.\<close>

fun connection_loop ::
  "('s \<Rightarrow> bool) \<Rightarrow> ('s \<Rightarrow> (bool \<times> 's) option) \<Rightarrow> (bool \<Rightarrow> 's \<Rightarrow> ((http_stop + bool) \<times> bool \<times> 's) option) \<Rightarrow> nat \<Rightarrow> bool \<Rightarrow> 's \<Rightarrow>
   ((http_stop + bool) \<times> 's) option" where
  "connection_loop listening alive callback 0 b s = Some (Inr b, s)"
| "connection_loop listening alive callback (Suc n) b s =
     (if \<not> listening s then Some (Inr b, s)
      else Option.bind (alive s) (\<lambda>(more, s1).
        if \<not> more then Some (Inr b, s1)
        else Option.bind (callback (n = 0) s1) (\<lambda>(r, closed, s2).
          case r of
            Inl e \<Rightarrow> Some (Inl e, s2)
          | Inr False \<Rightarrow> Some (Inr False, s2)
          | Inr True \<Rightarrow>
              if closed then Some (Inr True, s2)
              else connection_loop listening alive callback n True s2)))"

definition process_server_socket_core ::
  "('s \<Rightarrow> bool) \<Rightarrow> ('s \<Rightarrow> (bool \<times> 's) option) \<Rightarrow> nat \<Rightarrow> (bool \<Rightarrow> 's \<Rightarrow> ((http_stop + bool) \<times> bool \<times> 's) option) \<Rightarrow> 's \<Rightarrow>
   ((http_stop + bool) \<times> 's) option" where
  "process_server_socket_core listening alive keep_alive_max callback s =
     (if keep_alive_max = 0 then Some (Inl Assert_failed, s)
      else connection_loop listening alive callback keep_alive_max False s)"

end
