(* ===== verification/Http_Socket.thy ===== *)
theory Http_Socket
  imports Http_Process
begin

text \<open>
  The stream over a socket (\<open>httplib.h\<close>): the repetition of interrupted system calls, the two polls, the class
  \<open>SocketStream\<close> with its read buffer, the wait for the next request of a connection, and the loop that makes a
  new stream for each request.  The system calls are a parameter; \<open>select\<close> is used, as the build does not define
  \<open>CPPHTTPLIB_USE_POLL\<close>.
\<close>

subsection \<open>System calls\<close>

text \<open>A call that fails gives \<open>-1\<close> and sets \<open>errno\<close>.\<close>

datatype errno = EINTR | EBADF | EINPROGRESS | Other_errno int

type_synonym 'a sys = "errno + 'a"

datatype interest = For_reading | For_writing

text \<open>The flag of \<open>sys_recv\<close> is \<open>MSG_PEEK\<close>; \<open>select\<close> has a timeout in seconds and microseconds; the clock
  gives milliseconds.\<close>

record 'k Kernel =
  sys_recv :: "nat \<Rightarrow> nat \<Rightarrow> bool \<Rightarrow> 'k \<Rightarrow> string sys \<times> 'k"
  sys_send :: "nat \<Rightarrow> string \<Rightarrow> 'k \<Rightarrow> nat sys \<times> 'k"
  sys_select :: "nat \<Rightarrow> interest \<Rightarrow> int \<Rightarrow> int \<Rightarrow> 'k \<Rightarrow> nat sys \<times> 'k"
  sys_shutdown :: "nat \<Rightarrow> 'k \<Rightarrow> 'k"
  sys_close :: "nat \<Rightarrow> 'k \<Rightarrow> 'k"
  sys_clock :: "'k \<Rightarrow> int \<times> 'k"
  sys_sleep :: "nat \<Rightarrow> 'k \<Rightarrow> 'k"

text \<open>A call that is interrupted for ever does not return.\<close>

partial_function (option) handle_EINTR :: "('k \<Rightarrow> 'a sys \<times> 'k) \<Rightarrow> 'k \<Rightarrow> ('a sys \<times> 'k) option" where
  "handle_EINTR fn k =
     (case fn k of (r, k') \<Rightarrow> if r = Inl EINTR then handle_EINTR fn k' else Some (r, k'))"

text \<open>The operations of a stream are functions: they use the result of the repetition, which has no value when
  it does not return.\<close>

definition repeat_call :: "('k \<Rightarrow> 'a sys \<times> 'k) \<Rightarrow> 'k \<Rightarrow> 'a sys \<times> 'k" where
  "repeat_call fn k = the (handle_EINTR fn k)"

definition read_socket :: "('k, 'm) Kernel_scheme \<Rightarrow> nat \<Rightarrow> nat \<Rightarrow> bool \<Rightarrow> 'k \<Rightarrow> string sys \<times> 'k" where
  "read_socket K sock n peek = repeat_call (sys_recv K sock n peek)"

definition send_socket :: "('k, 'm) Kernel_scheme \<Rightarrow> nat \<Rightarrow> string \<Rightarrow> 'k \<Rightarrow> nat sys \<times> 'k" where
  "send_socket K sock d = repeat_call (sys_send K sock d)"

definition fd_setsize :: nat where
  "fd_setsize = 1024"

definition select_read :: "('k, 'm) Kernel_scheme \<Rightarrow> nat \<Rightarrow> int \<Rightarrow> int \<Rightarrow> 'k \<Rightarrow> nat sys \<times> 'k" where
  "select_read K sock sec usec k =
     (if sock \<ge> fd_setsize then (Inr 1, k) else repeat_call (sys_select K sock For_reading sec usec) k)"

definition select_write :: "('k, 'm) Kernel_scheme \<Rightarrow> nat \<Rightarrow> int \<Rightarrow> int \<Rightarrow> 'k \<Rightarrow> nat sys \<times> 'k" where
  "select_write K sock sec usec k =
     (if sock \<ge> fd_setsize then (Inr 1, k) else repeat_call (sys_select K sock For_writing sec usec) k)"

definition positive :: "nat sys \<Rightarrow> bool" where
  "positive r = (case r of Inl e \<Rightarrow> False | Inr n \<Rightarrow> n > 0)"

definition is_socket_alive :: "('k, 'm) Kernel_scheme \<Rightarrow> nat \<Rightarrow> 'k \<Rightarrow> bool \<times> 'k" where
  "is_socket_alive K sock k =
     (case select_read K sock 0 0 k of (val, k1) \<Rightarrow>
        if val = Inr 0 then (True, k1)
        else if val = Inl EBADF then (False, k1)
        else case read_socket K sock 1 True k1 of
          (Inl e, k2) \<Rightarrow> (False, k2)
        | (Inr d, k2) \<Rightarrow> (d \<noteq> [], k2))"

subsection \<open>The stream\<close>

text \<open>The members that the constructor sets for good, and the state: the read buffer and the kernel.\<close>

record SocketStream =
  ss_sock :: nat
  ss_read_timeout :: "int \<times> int"
  ss_write_timeout :: "int \<times> int"

record 'k SocketState =
  read_buff :: string
  read_buff_off :: nat
  read_buff_content_size :: nat
  kernel :: 'k

definition read_buff_size :: nat where
  "read_buff_size = 1024 * 4"

definition newSocketState :: "'k \<Rightarrow> 'k SocketState" where
  "newSocketState k =
     \<lparr>read_buff = replicate read_buff_size (CHR 0x00), read_buff_off = 0, read_buff_content_size = 0, kernel = k\<rparr>"

definition ss_is_readable :: "('k, 'm) Kernel_scheme \<Rightarrow> SocketStream \<Rightarrow> 'k SocketState \<Rightarrow> bool \<times> 'k SocketState" where
  "ss_is_readable K c s =
     (case select_read K (ss_sock c) (fst (ss_read_timeout c)) (snd (ss_read_timeout c)) (kernel s) of
        (r, k) \<Rightarrow> (positive r, s\<lparr>kernel := k\<rparr>))"

definition ss_is_writable :: "('k, 'm) Kernel_scheme \<Rightarrow> SocketStream \<Rightarrow> 'k SocketState \<Rightarrow> bool \<times> 'k SocketState" where
  "ss_is_writable K c s =
     (case select_write K (ss_sock c) (fst (ss_write_timeout c)) (snd (ss_write_timeout c)) (kernel s) of (r, k) \<Rightarrow>
        if positive r then
          (case is_socket_alive K (ss_sock c) k of (b, k') \<Rightarrow> (b, s\<lparr>kernel := k'\<rparr>))
        else (False, s\<lparr>kernel := k\<rparr>))"

text \<open>\<open>memcpy\<close> out of the read buffer.\<close>

definition buff_bytes :: "'k SocketState \<Rightarrow> nat \<Rightarrow> nat \<Rightarrow> string" where
  "buff_bytes s from n = map (\<lambda>i. read_buff s ! i) [from..<from + n]"

text \<open>The part of \<open>read\<close> that asks the socket, with a buffer that is used up.\<close>

definition ss_receive :: "('k, 'm) Kernel_scheme \<Rightarrow> SocketStream \<Rightarrow> nat \<Rightarrow> 'k SocketState \<Rightarrow> read_result \<times> 'k SocketState" where
  "ss_receive K c n s =
     (if n < read_buff_size then
        (case read_socket K (ss_sock c) read_buff_size False (kernel s) of
           (Inl e, k) \<Rightarrow> (Read_error, s\<lparr>kernel := k\<rparr>)
         | (Inr d, k) \<Rightarrow>
             (let s1 = s\<lparr>kernel := k, read_buff := d @ drop (length d) (read_buff s)\<rparr> in
              if length d \<le> n then (Read_bytes (buff_bytes s1 0 (length d)), s1)
              else (Read_bytes (buff_bytes s1 0 n),
                    s1\<lparr>read_buff_off := n, read_buff_content_size := length d\<rparr>)))
      else
        (case read_socket K (ss_sock c) n False (kernel s) of
           (Inl e, k) \<Rightarrow> (Read_error, s\<lparr>kernel := k\<rparr>)
         | (Inr d, k) \<Rightarrow> (Read_bytes d, s\<lparr>kernel := k\<rparr>)))"

definition ss_read :: "('k, 'm) Kernel_scheme \<Rightarrow> SocketStream \<Rightarrow> nat \<Rightarrow> 'k SocketState \<Rightarrow> read_result \<times> 'k SocketState" where
  "ss_read K c n s =
     (let sz = min n (2 ^ 63 - 1) in
      if read_buff_off s < read_buff_content_size s then
        (let remaining = read_buff_content_size s - read_buff_off s;
             m = (if sz \<le> remaining then sz else remaining)
         in (Read_bytes (buff_bytes s (read_buff_off s) m), s\<lparr>read_buff_off := read_buff_off s + m\<rparr>))
      else case ss_is_readable K c s of
        (False, s1) \<Rightarrow> (Read_error, s1)
      | (True, s1) \<Rightarrow> ss_receive K c sz (s1\<lparr>read_buff_off := 0, read_buff_content_size := 0\<rparr>))"

definition ss_write :: "('k, 'm) Kernel_scheme \<Rightarrow> SocketStream \<Rightarrow> string \<Rightarrow> 'k SocketState \<Rightarrow> int \<times> 'k SocketState" where
  "ss_write K c d s =
     (case ss_is_writable K c s of
        (False, s1) \<Rightarrow> (-1, s1)
      | (True, s1) \<Rightarrow>
          (case send_socket K (ss_sock c) d (kernel s1) of
             (Inl e, k) \<Rightarrow> (-1, s1\<lparr>kernel := k\<rparr>)
           | (Inr n, k) \<Rightarrow> (int n, s1\<lparr>kernel := k\<rparr>)))"

definition socket_stream :: "('k, 'm) Kernel_scheme \<Rightarrow> SocketStream \<Rightarrow> 'k SocketState Stream" where
  "socket_stream K c = \<lparr>read_op = ss_read K c, write_op = ss_write K c, is_writable = ss_is_writable K c\<rparr>"

subsection \<open>The requests of a connection\<close>

text \<open>The wait for the next request; a timeout of no length may wait for ever.\<close>

partial_function (option) keep_alive_loop ::
  "('k, 'm) Kernel_scheme \<Rightarrow> nat \<Rightarrow> int \<Rightarrow> int \<Rightarrow> 'k \<Rightarrow> (bool \<times> 'k) option" where
  "keep_alive_loop K sock timeout_sec start k =
     (case select_read K sock 0 10000 k of (val, k1) \<Rightarrow>
        if isl val then Some (False, k1)
        else if val = Inr 0 then
          (case sys_clock K k1 of (current, k2) \<Rightarrow>
             if current - start > timeout_sec * 1000 then Some (False, k2)
             else keep_alive_loop K sock timeout_sec start (sys_sleep K 1 k2))
        else Some (True, k1))"

definition keep_alive :: "('k, 'm) Kernel_scheme \<Rightarrow> nat \<Rightarrow> int \<Rightarrow> 'k \<Rightarrow> (bool \<times> 'k) option" where
  "keep_alive K sock timeout_sec k =
     (case sys_clock K k of (start, k1) \<Rightarrow> keep_alive_loop K sock timeout_sec start k1)"

text \<open>A request gets a stream of its own: what is left in its read buffer goes with it.  The world of the
  application and the kernel are the state of the loop.\<close>

definition on_new_stream ::
  "('w \<Rightarrow> 'k SocketState \<Rightarrow> ('r \<times> bool \<times> 'w \<times> 'k SocketState) option) \<Rightarrow> 'w \<times> 'k \<Rightarrow> ('r \<times> bool \<times> 'w \<times> 'k) option" where
  "on_new_stream callback wk =
     map_option (\<lambda>(r, closed, w, s). (r, closed, w, kernel s)) (callback (fst wk) (newSocketState (snd wk)))"

definition process_server_socket ::
  "('k, 'm) Kernel_scheme \<Rightarrow> ('k \<Rightarrow> bool) \<Rightarrow> SocketStream \<Rightarrow> nat \<Rightarrow> int \<Rightarrow>
   ('k SocketState Stream \<Rightarrow> bool \<Rightarrow> 'w \<Rightarrow> 'k SocketState \<Rightarrow> ((http_stop + bool) \<times> bool \<times> 'w \<times> 'k SocketState) option) \<Rightarrow>
   'w \<times> 'k \<Rightarrow> ((http_stop + bool) \<times> 'w \<times> 'k) option" where
  "process_server_socket K listening c keep_alive_max keep_alive_timeout callback wk =
     process_server_socket_core (\<lambda>wk. listening (snd wk))
       (\<lambda>wk. map_option (\<lambda>(b, k). (b, fst wk, k)) (keep_alive K (ss_sock c) keep_alive_timeout (snd wk)))
       keep_alive_max (\<lambda>close_connection. on_new_stream (callback (socket_stream K c) close_connection)) wk"

definition process_and_close_socket ::
  "('w, 'k SocketState) Env \<Rightarrow> ('k, 'm) Kernel_scheme \<Rightarrow> ('k \<Rightarrow> bool) \<Rightarrow> ('w, 'w HandlerWithContentReader) HttpServer \<Rightarrow> nat \<Rightarrow>
   'w \<times> 'k \<Rightarrow> ((http_stop + bool) \<times> 'w \<times> 'k) option" where
  "process_and_close_socket env K listening sv sock wk =
     map_option
       (\<lambda>(r, w, k). (r, w, case r of Inr b \<Rightarrow> sys_close K sock (sys_shutdown K sock k) | Inl e \<Rightarrow> k))
       (process_server_socket K listening
          \<lparr>ss_sock = sock, ss_read_timeout = read_timeout sv, ss_write_timeout = write_timeout sv\<rparr>
          (keep_alive_max_count sv) (keep_alive_timeout_sec sv)
          (\<lambda>strm close_connection w s. process_request env strm sv close_connection False None w s) wk)"

end
