(* ===== verification/Http_Connect.thy ===== *)
theory Http_Connect
  imports Http_Socket
begin

text \<open>
  Making sockets (\<open>httplib.h\<close>): the wait for a connection, \<open>create_socket\<close> with its loop over addresses, the
  binding to an interface, and \<open>create_client_socket\<close>.  The system calls are a parameter, which extends that of
  the stream; an address of \<open>getaddrinfo\<close> is its family and its bytes.
\<close>

subsection \<open>System calls\<close>

record addrinfo =
  ai_family :: int
  ai_addr :: string

datatype sockopt =
    TCP_NODELAY | IPV6_V6ONLY | SO_REUSEPORT | SO_RCVTIMEO "int \<times> int" | SO_SNDTIMEO "int \<times> int"

text \<open>An interface address: its name, its family (\<open>None\<close> without an address), its text as \<open>inet_ntop\<close> gives it
  (\<open>None\<close> when it fails), whether it is link local, and the first byte of an IPv6 address.\<close>

record ifaddr =
  ifa_name :: string
  ifa_family :: "int option"
  ifa_text :: "string option"
  ifa_linklocal :: bool
  ifa_first_byte :: nat

text \<open>\<open>sys_select_ready\<close> is \<open>select\<close> for reading and writing, and says whether the socket is in one of the
  sets; \<open>sys_so_error\<close> is \<open>SO_ERROR\<close>.\<close>

record 'k Net = "'k Kernel" +
  sys_getaddrinfo :: "string option \<Rightarrow> string \<Rightarrow> int \<Rightarrow> int \<Rightarrow> 'k \<Rightarrow> addrinfo list option \<times> 'k"
  sys_res_init :: "'k \<Rightarrow> 'k"
  sys_socket :: "int \<Rightarrow> 'k \<Rightarrow> nat option \<times> 'k"
  sys_cloexec :: "nat \<Rightarrow> 'k \<Rightarrow> bool \<times> 'k"
  sys_setsockopt :: "nat \<Rightarrow> sockopt \<Rightarrow> 'k \<Rightarrow> 'k"
  sys_bind :: "nat \<Rightarrow> addrinfo \<Rightarrow> 'k \<Rightarrow> bool \<times> 'k"
  sys_connect :: "nat \<Rightarrow> addrinfo \<Rightarrow> 'k \<Rightarrow> unit sys \<times> 'k"
  sys_nonblocking :: "nat \<Rightarrow> bool \<Rightarrow> 'k \<Rightarrow> 'k"
  sys_select_ready :: "nat \<Rightarrow> int \<Rightarrow> int \<Rightarrow> 'k \<Rightarrow> (nat \<times> bool) sys \<times> 'k"
  sys_so_error :: "nat \<Rightarrow> 'k \<Rightarrow> int sys \<times> 'k"
  sys_getifaddrs :: "'k \<Rightarrow> ifaddr list \<times> 'k"

definition AF_UNSPEC :: int where "AF_UNSPEC = 0"
definition AF_UNIX :: int where "AF_UNIX = 1"
definition AF_INET :: int where "AF_INET = 2"
definition AF_INET6 :: int where "AF_INET6 = 10"

definition AI_NUMERICHOST :: int where "AI_NUMERICHOST = 4"

text \<open>The size of \<open>sun_path\<close>.\<close>

definition sun_path_size :: nat where "sun_path_size = 108"

subsection \<open>Creating a socket\<close>

text \<open>The options set on every socket, and the hook of the application.\<close>

definition prepare_socket :: "('k, 'm) Net_scheme \<Rightarrow> bool \<Rightarrow> (nat \<Rightarrow> 'k \<Rightarrow> 'k) option \<Rightarrow> int \<Rightarrow> nat \<Rightarrow> 'k \<Rightarrow> 'k" where
  "prepare_socket N nodelay opts family sock k =
     (let k1 = (if nodelay then sys_setsockopt N sock TCP_NODELAY k else k);
          k2 = (case opts of None \<Rightarrow> k1 | Some f \<Rightarrow> f sock k1)
      in if family = AF_INET6 then sys_setsockopt N sock IPV6_V6ONLY k2 else k2)"

text \<open>The callback binds or connects; it has a variable of its own (the error) that it may set.\<close>

type_synonym ('e, 'k) BindOrConnect = "nat \<Rightarrow> addrinfo \<Rightarrow> 'e \<Rightarrow> 'k \<Rightarrow> bool \<times> 'e \<times> 'k"

text \<open>The loop over the addresses.\<close>

fun try_addresses ::
  "('k, 'm) Net_scheme \<Rightarrow> bool \<Rightarrow> (nat \<Rightarrow> 'k \<Rightarrow> 'k) option \<Rightarrow> ('e, 'k) BindOrConnect \<Rightarrow> addrinfo list \<Rightarrow> 'e \<Rightarrow> 'k \<Rightarrow>
   nat option \<times> 'e \<times> 'k" where
  "try_addresses N nodelay opts bind_or_connect [] e k = (None, e, k)"
| "try_addresses N nodelay opts bind_or_connect (rp # rps) e k =
     (case sys_socket N (ai_family rp) k of
        (None, k1) \<Rightarrow> try_addresses N nodelay opts bind_or_connect rps e k1
      | (Some sock, k1) \<Rightarrow>
          (case sys_cloexec N sock k1 of
             (False, k2) \<Rightarrow> try_addresses N nodelay opts bind_or_connect rps e (sys_close N sock k2)
           | (True, k2) \<Rightarrow>
               (case bind_or_connect sock rp e (prepare_socket N nodelay opts (ai_family rp) sock k2) of
                  (True, e1, k3) \<Rightarrow> (Some sock, e1, k3)
                | (False, e1, k3) \<Rightarrow>
                    try_addresses N nodelay opts bind_or_connect rps e1 (sys_close N sock k3))))"

text \<open>A socket of the local domain: the host is its path.\<close>

definition create_unix_socket ::
  "('k, 'm) Net_scheme \<Rightarrow> string \<Rightarrow> (nat \<Rightarrow> 'k \<Rightarrow> 'k) option \<Rightarrow> ('e, 'k) BindOrConnect \<Rightarrow> 'e \<Rightarrow> 'k \<Rightarrow>
   nat option \<times> 'e \<times> 'k" where
  "create_unix_socket N host opts bind_or_connect e k =
     (if length host > sun_path_size then (None, e, k)
      else case sys_socket N AF_UNIX k of
        (None, k1) \<Rightarrow> (None, e, k1)
      | (Some sock, k1) \<Rightarrow>
          (let k2 = snd (sys_cloexec N sock k1);
               k3 = (case opts of None \<Rightarrow> k2 | Some f \<Rightarrow> f sock k2)
           in case bind_or_connect sock \<lparr>ai_family = AF_UNIX, ai_addr = host\<rparr> e k3 of
             (True, e1, k4) \<Rightarrow> (Some sock, e1, k4)
           | (False, e1, k4) \<Rightarrow> (None, e1, sys_close N sock k4)))"

definition create_socket ::
  "('k, 'm) Net_scheme \<Rightarrow> string \<Rightarrow> string \<Rightarrow> int \<Rightarrow> int \<Rightarrow> int \<Rightarrow> bool \<Rightarrow> (nat \<Rightarrow> 'k \<Rightarrow> 'k) option \<Rightarrow>
   ('e, 'k) BindOrConnect \<Rightarrow> 'e \<Rightarrow> 'k \<Rightarrow> nat option \<times> 'e \<times> 'k" where
  "create_socket N host ip port family0 socket_flags nodelay opts bind_or_connect e k =
     (let (node, family, flags) =
        (if ip \<noteq> [] then (Some (c_str ip), AF_UNSPEC, AI_NUMERICHOST)
         else ((if host \<noteq> [] then Some (c_str host) else None), family0, socket_flags))
      in if family = AF_UNIX then create_unix_socket N host opts bind_or_connect e k
         else case sys_getaddrinfo N node (show_bound port) family flags k of
           (None, k1) \<Rightarrow> (None, e, sys_res_init N k1)
         | (Some rps, k1) \<Rightarrow> try_addresses N nodelay opts bind_or_connect rps e k1)"

subsection \<open>Connecting\<close>

definition wait_until_socket_is_ready :: "('k, 'm) Net_scheme \<Rightarrow> nat \<Rightarrow> int \<times> int \<Rightarrow> 'k \<Rightarrow> Error \<times> 'k" where
  "wait_until_socket_is_ready N sock timeout k =
     (if sock \<ge> fd_setsize then (Connection, k)
      else case repeat_call (sys_select_ready N sock (fst timeout) (snd timeout)) k of
        (Inl e, k1) \<Rightarrow> (Connection, k1)
      | (Inr (n, in_set), k1) \<Rightarrow>
          (if n = 0 then (ConnectionTimeout, k1)
           else if in_set then
             (case sys_so_error N sock k1 of (r, k2) \<Rightarrow> (if r = Inr 0 then Success else Connection, k2))
           else (Connection, k1)))"

fun bind_first :: "('k, 'm) Net_scheme \<Rightarrow> nat \<Rightarrow> addrinfo list \<Rightarrow> 'k \<Rightarrow> bool \<times> 'k" where
  "bind_first N sock [] k = (False, k)"
| "bind_first N sock (rp # rps) k =
     (case sys_bind N sock rp k of (True, k1) \<Rightarrow> (True, k1) | (False, k1) \<Rightarrow> bind_first N sock rps k1)"

definition bind_ip_address :: "('k, 'm) Net_scheme \<Rightarrow> nat \<Rightarrow> string \<Rightarrow> 'k \<Rightarrow> bool \<times> 'k" where
  "bind_ip_address N sock host k =
     (case sys_getaddrinfo N (Some (c_str host)) ''0'' AF_UNSPEC 0 k of
        (None, k1) \<Rightarrow> (False, k1)
      | (Some rps, k1) \<Rightarrow> bind_first N sock rps k1)"

text \<open>\<open>if2ip\<close> reads the buffers of \<open>inet_ntop\<close> at their full lengths; up to the NUL it is the address.  An
  address of a unique local range is only a candidate.\<close>

fun if2ip_loop :: "int \<Rightarrow> string \<Rightarrow> string \<Rightarrow> ifaddr list \<Rightarrow> string" where
  "if2ip_loop family ifn candidate [] = candidate"
| "if2ip_loop family ifn candidate (ifa # ifas) =
     (if ifa_family ifa \<noteq> None \<and> ifa_name ifa = ifn \<and> (family = AF_UNSPEC \<or> ifa_family ifa = Some family) then
        (if ifa_family ifa = Some AF_INET then
           (case ifa_text ifa of Some t \<Rightarrow> t | None \<Rightarrow> if2ip_loop family ifn candidate ifas)
         else if ifa_family ifa = Some AF_INET6 \<and> \<not> ifa_linklocal ifa then
           (case ifa_text ifa of
              Some t \<Rightarrow>
                (if ifa_first_byte ifa \<in> {0xfc, 0xfd} then if2ip_loop family ifn t ifas else t)
            | None \<Rightarrow> if2ip_loop family ifn candidate ifas)
         else if2ip_loop family ifn candidate ifas)
      else if2ip_loop family ifn candidate ifas)"

definition if2ip :: "('k, 'm) Net_scheme \<Rightarrow> int \<Rightarrow> string \<Rightarrow> 'k \<Rightarrow> string \<times> 'k" where
  "if2ip N family ifn k = (case sys_getifaddrs N k of (ifas, k1) \<Rightarrow> (if2ip_loop family ifn [] ifas, k1))"

text \<open>The callback of \<open>create_client_socket\<close>; its variable is the error.\<close>

definition connect_socket ::
  "('k, 'm) Net_scheme \<Rightarrow> int \<Rightarrow> int \<times> int \<Rightarrow> int \<times> int \<Rightarrow> int \<times> int \<Rightarrow> string \<Rightarrow> (Error, 'k) BindOrConnect" where
  "connect_socket N family connect_timeout recv_timeout send_timeout intf sock ai err0 k =
     (let (bound, k1) =
            (if intf = [] then (True, k)
             else case if2ip N family intf k of (found, k0) \<Rightarrow>
               bind_ip_address N sock (if found = [] then intf else found) k0)
      in if \<not> bound then (False, BindIPAddress, k1)
         else let k2 = sys_nonblocking N sock True k1 in
           case (case sys_connect N sock ai k2 of
                   (Inr u, k3) \<Rightarrow> (Success, k3)
                 | (Inl e, k3) \<Rightarrow>
                     (if e \<noteq> EINPROGRESS then (Connection, k3)
                      else wait_until_socket_is_ready N sock connect_timeout k3)) of
             (err, k4) \<Rightarrow>
               (if err \<noteq> Success then (False, err, k4)
                else (True, Success,
                  sys_setsockopt N sock (SO_SNDTIMEO send_timeout)
                    (sys_setsockopt N sock (SO_RCVTIMEO recv_timeout) (sys_nonblocking N sock False k4)))))"

definition create_client_socket ::
  "('k, 'm) Net_scheme \<Rightarrow> string \<Rightarrow> string \<Rightarrow> int \<Rightarrow> int \<Rightarrow> bool \<Rightarrow> (nat \<Rightarrow> 'k \<Rightarrow> 'k) option \<Rightarrow>
   int \<times> int \<Rightarrow> int \<times> int \<Rightarrow> int \<times> int \<Rightarrow> string \<Rightarrow> Error \<Rightarrow> 'k \<Rightarrow> nat option \<times> Error \<times> 'k" where
  "create_client_socket N host ip port family nodelay opts connect_timeout recv_timeout send_timeout intf err k =
     (case create_socket N host ip port family 0 nodelay opts
             (connect_socket N family connect_timeout recv_timeout send_timeout intf) err k of
        (Some sock, e, k1) \<Rightarrow> (Some sock, Success, k1)
      | (None, e, k1) \<Rightarrow> (None, (if e = Success then Connection else e), k1))"

subsection \<open>No socket is lost\<close>

text \<open>The open sockets of a kernel: \<open>socket\<close> adds one, \<open>close\<close> takes it away, and nothing else changes them.\<close>

definition keeps_sockets :: "('k \<Rightarrow> nat set) \<Rightarrow> ('k \<Rightarrow> 'k) \<Rightarrow> bool" where
  "keeps_sockets opened f \<longleftrightarrow> (\<forall>k. opened (f k) = opened k)"

definition counts_sockets :: "('k, 'm) Net_scheme \<Rightarrow> ('k \<Rightarrow> nat set) \<Rightarrow> bool" where
  "counts_sockets N opened \<longleftrightarrow>
     (\<forall>family k. case sys_socket N family k of
        (None, k') \<Rightarrow> opened k' = opened k
      | (Some sock, k') \<Rightarrow> sock \<notin> opened k \<and> opened k' = insert sock (opened k)) \<and>
     (\<forall>sock k. opened (sys_close N sock k) = opened k - {sock}) \<and>
     (\<forall>sock. keeps_sockets opened (\<lambda>k. snd (sys_cloexec N sock k))) \<and>
     (\<forall>sock x. keeps_sockets opened (sys_setsockopt N sock x)) \<and>
     (\<forall>node service family flags. keeps_sockets opened (\<lambda>k. snd (sys_getaddrinfo N node service family flags k))) \<and>
     keeps_sockets opened (sys_res_init N) \<and>
     (\<forall>sock ai. keeps_sockets opened (\<lambda>k. snd (sys_bind N sock ai k))) \<and>
     (\<forall>sock ai. keeps_sockets opened (\<lambda>k. snd (sys_connect N sock ai k))) \<and>
     (\<forall>sock b. keeps_sockets opened (sys_nonblocking N sock b)) \<and>
     (\<forall>sock sec usec. keeps_sockets opened (\<lambda>k. snd (repeat_call (sys_select_ready N sock sec usec) k))) \<and>
     (\<forall>sock. keeps_sockets opened (\<lambda>k. snd (sys_so_error N sock k))) \<and>
     keeps_sockets opened (\<lambda>k. snd (sys_getifaddrs N k))"

definition options_keep :: "('k \<Rightarrow> nat set) \<Rightarrow> (nat \<Rightarrow> 'k \<Rightarrow> 'k) option \<Rightarrow> bool" where
  "options_keep opened opts \<longleftrightarrow> (\<forall>f sock. opts = Some f \<longrightarrow> keeps_sockets opened (f sock))"

text \<open>What a function that makes a socket promises.\<close>

definition one_socket :: "('k \<Rightarrow> nat set) \<Rightarrow> 'k \<Rightarrow> nat option \<times> 'e \<times> 'k \<Rightarrow> bool" where
  "one_socket opened k r \<longleftrightarrow>
     (case r of (None, e, k') \<Rightarrow> opened k' = opened k
      | (Some sock, e, k') \<Rightarrow> sock \<notin> opened k \<and> opened k' = insert sock (opened k))"

lemma keeps_result: "keeps_sockets opened (\<lambda>k. snd (f k)) \<Longrightarrow> f k = (r, k') \<Longrightarrow> opened k' = opened k"
  unfolding keeps_sockets_def by (metis snd_conv)

lemma counts_keep:
  assumes "counts_sockets N opened"
  shows "opened (sys_setsockopt N sock x k) = opened k" "opened (sys_res_init N k) = opened k"
    "opened (sys_nonblocking N sock b k) = opened k" "opened (sys_close N sock k) = opened k - {sock}"
  using assms by (simp_all only: counts_sockets_def keeps_sockets_def)

lemma counts_result:
  assumes "counts_sockets N opened"
  shows "sys_cloexec N sock k = (b, k') \<Longrightarrow> opened k' = opened k"
    "sys_getaddrinfo N node service family flags k = (rps, k') \<Longrightarrow> opened k' = opened k"
    "sys_bind N sock ai k = (b, k') \<Longrightarrow> opened k' = opened k"
    "sys_connect N sock ai k = (u, k') \<Longrightarrow> opened k' = opened k"
    "repeat_call (sys_select_ready N sock sec usec) k = (n, k') \<Longrightarrow> opened k' = opened k"
    "sys_so_error N sock k = (i, k') \<Longrightarrow> opened k' = opened k"
    "sys_getifaddrs N k = (ifas, k') \<Longrightarrow> opened k' = opened k"
proof -
  note c = assms [unfolded counts_sockets_def]
  show "sys_cloexec N sock k = (b, k') \<Longrightarrow> opened k' = opened k"
    by (rule keeps_result [where f = "sys_cloexec N sock"]) (simp_all only: c)
  show "sys_getaddrinfo N node service family flags k = (rps, k') \<Longrightarrow> opened k' = opened k"
    by (rule keeps_result [where f = "sys_getaddrinfo N node service family flags"]) (simp_all only: c)
  show "sys_bind N sock ai k = (b, k') \<Longrightarrow> opened k' = opened k"
    by (rule keeps_result [where f = "sys_bind N sock ai"]) (simp_all only: c)
  show "sys_connect N sock ai k = (u, k') \<Longrightarrow> opened k' = opened k"
    by (rule keeps_result [where f = "sys_connect N sock ai"]) (simp_all only: c)
  show "repeat_call (sys_select_ready N sock sec usec) k = (n, k') \<Longrightarrow> opened k' = opened k"
    by (rule keeps_result [where f = "repeat_call (sys_select_ready N sock sec usec)"]) (simp_all only: c)
  show "sys_so_error N sock k = (i, k') \<Longrightarrow> opened k' = opened k"
    by (rule keeps_result [where f = "sys_so_error N sock"]) (simp_all only: c)
  show "sys_getifaddrs N k = (ifas, k') \<Longrightarrow> opened k' = opened k"
    by (rule keeps_result [where f = "sys_getifaddrs N"]) (simp_all only: c)
qed

lemma counts_socket:
  assumes "counts_sockets N opened"
  shows "sys_socket N family k = (None, k') \<Longrightarrow> opened k' = opened k"
    "sys_socket N family k = (Some sock, k') \<Longrightarrow> sock \<notin> opened k \<and> opened k' = insert sock (opened k)"
proof -
  have c: "case sys_socket N family k of (None, k') \<Rightarrow> opened k' = opened k
      | (Some sock, k') \<Rightarrow> sock \<notin> opened k \<and> opened k' = insert sock (opened k)"
    using assms by (simp only: counts_sockets_def)
  show "sys_socket N family k = (None, k') \<Longrightarrow> opened k' = opened k"
    "sys_socket N family k = (Some sock, k') \<Longrightarrow> sock \<notin> opened k \<and> opened k' = insert sock (opened k)"
    using c by simp_all
qed

lemma prepare_socket_keeps:
  "counts_sockets N opened \<Longrightarrow> options_keep opened opts \<Longrightarrow>
   opened (prepare_socket N nodelay opts family sock k) = opened k"
  by (simp add: prepare_socket_def Let_def counts_keep options_keep_def keeps_sockets_def split: option.split)

lemma bind_first_keeps:
  "counts_sockets N opened \<Longrightarrow> bind_first N sock rps k = (b, k') \<Longrightarrow> opened k' = opened k"
proof (induction rps arbitrary: k)
  case (Cons rp rps)
  obtain b1 k1 where b: "sys_bind N sock rp k = (b1, k1)" by force
  then show ?case
    using Cons counts_result(3) [OF Cons.prems(1) b] by (cases b1) auto
qed simp

lemma bind_ip_address_keeps:
  assumes "counts_sockets N opened" and "bind_ip_address N sock h k = (b, k')"
  shows "opened k' = opened k"
proof -
  obtain r k1 where r: "sys_getaddrinfo N (Some (c_str h)) ''0'' AF_UNSPEC 0 k = (r, k1)" by force
  then show ?thesis
    using assms(2) counts_result(2) [OF assms(1) r] bind_first_keeps [OF assms(1)]
    by (cases r) (auto simp: bind_ip_address_def)
qed

lemma wait_keeps:
  assumes "counts_sockets N opened" and "wait_until_socket_is_ready N sock t k = (e, k')"
  shows "opened k' = opened k"
proof -
  obtain r k1 where r: "repeat_call (sys_select_ready N sock (fst t) (snd t)) k = (r, k1)" by force
  obtain i k2 where i: "sys_so_error N sock k1 = (i, k2)" by force
  show ?thesis
    using assms(2) r i counts_result(5) [OF assms(1) r] counts_result(6) [OF assms(1) i]
    by (auto simp: wait_until_socket_is_ready_def split: sum.splits if_splits)
qed

lemma if2ip_keeps: "counts_sockets N opened \<Longrightarrow> if2ip N family intf k = (t, k') \<Longrightarrow> opened k' = opened k"
  using counts_result(7) [of N opened k] by (auto simp: if2ip_def split: prod.splits)

lemma connect_socket_keeps:
  assumes "counts_sockets N opened" and "connect_socket N family ct rt wt intf sock ai e k = (b, e', k')"
  shows "opened k' = opened k"
proof -
  obtain bound k1 where b: "(if intf = [] then (True, k)
      else case if2ip N family intf k of (found, k0) \<Rightarrow> bind_ip_address N sock (if found = [] then intf else found) k0) = (bound, k1)"
    by force
  then have k1: "opened k1 = opened k"
    using if2ip_keeps [OF assms(1)] bind_ip_address_keeps [OF assms(1)] by (auto split: if_splits prod.splits)
  let ?k2 = "sys_nonblocking N sock True k1"
  obtain r k3 where r: "sys_connect N sock ai ?k2 = (r, k3)" by force
  obtain e4 k4 where w: "wait_until_socket_is_ready N sock ct k3 = (e4, k4)" by force
  note k = k1 counts_keep [OF assms(1)] counts_result(4) [OF assms(1) r] wait_keeps [OF assms(1) w]
  show ?thesis
    using assms(2) b r w k by (cases r) (auto simp: connect_socket_def Let_def split: if_splits)
qed

definition callback_keeps :: "('k \<Rightarrow> nat set) \<Rightarrow> ('e, 'k) BindOrConnect \<Rightarrow> bool" where
  "callback_keeps opened bc \<longleftrightarrow> (\<forall>sock ai e k b e' k'. bc sock ai e k = (b, e', k') \<longrightarrow> opened k' = opened k)"

lemma try_addresses_one:
  assumes "counts_sockets N opened" and "options_keep opened opts"
    and "callback_keeps opened bc"
  shows "one_socket opened k (try_addresses N nodelay opts bc rps e k)"
proof (induction rps arbitrary: e k)
  case Nil
  then show ?case by (simp add: one_socket_def)
next
  case (Cons rp rps)
  have IH: "opened k' = opened k \<Longrightarrow> one_socket opened k (try_addresses N nodelay opts bc rps e' k')" for e' k'
    using Cons [of k' e'] by (simp add: one_socket_def split: prod.splits option.splits)
  show ?case
  proof (cases "sys_socket N (ai_family rp) k")
    case (Pair r k1)
    show ?thesis
    proof (cases r)
      case None
      then show ?thesis using Pair IH counts_socket(1) [OF assms(1)] by simp
    next
      case (Some sock)
      have o1: "sock \<notin> opened k" "opened k1 = insert sock (opened k)"
        using counts_socket(2) [OF assms(1)] Pair Some by auto
      obtain b k2 where k2: "sys_cloexec N sock k1 = (b, k2)" by force
      then have o2: "opened k2 = insert sock (opened k)" using counts_result(1) [OF assms(1) k2] o1 by simp
      obtain b' e1 k3 where k3: "bc sock rp e (prepare_socket N nodelay opts (ai_family rp) sock k2) = (b', e1, k3)"
        by (metis surj_pair)
      then have "opened k3 = opened (prepare_socket N nodelay opts (ai_family rp) sock k2)"
        using assms(3) unfolding callback_keeps_def by blast
      then have o3: "opened k3 = insert sock (opened k)" using o2 prepare_socket_keeps [OF assms(1,2)] by simp
      have c: "opened k' = insert sock (opened k) \<Longrightarrow> opened (sys_close N sock k') = opened k" for k'
        using counts_keep(4) [OF assms(1), of sock k'] o1(1) by simp
      show ?thesis
        using Pair Some k2 k3 o1(1) o2 o3 IH c by (cases b; cases b') (simp_all add: one_socket_def)
    qed
  qed
qed


lemma create_unix_socket_one:
  assumes "counts_sockets N opened" and "options_keep opened opts"
    and "callback_keeps opened bc"
  shows "one_socket opened k (create_unix_socket N h opts bc e k)"
proof (cases "sys_socket N AF_UNIX k")
  case (Pair r k1)
  show ?thesis
  proof (cases r)
    case None
    then show ?thesis
      using Pair counts_socket(1) [OF assms(1)] by (auto simp: create_unix_socket_def one_socket_def)
  next
    case (Some sock)
    obtain b k2 where k2: "sys_cloexec N sock k1 = (b, k2)" by force
    let ?k3 = "case opts of None \<Rightarrow> k2 | Some f \<Rightarrow> f sock k2"
    obtain b' e1 k4 where k4: "bc sock \<lparr>ai_family = AF_UNIX, ai_addr = h\<rparr> e ?k3 = (b', e1, k4)" by (metis surj_pair)
    have "sock \<notin> opened k" "opened k1 = insert sock (opened k)"
      using counts_socket(2) [OF assms(1)] Pair Some by auto
    moreover have "opened ?k3 = opened k2" using assms(2) by (auto simp: options_keep_def keeps_sockets_def split: option.split)
    ultimately show ?thesis
      using Pair Some k2 k4 counts_result(1) [OF assms(1) k2] assms(3) [unfolded callback_keeps_def, rule_format, OF k4] counts_keep(4) [OF assms(1), of sock k4]
      by (cases b') (auto simp: create_unix_socket_def one_socket_def)
  qed
qed

lemma create_socket_one:
  assumes "counts_sockets N opened" and "options_keep opened opts"
    and "callback_keeps opened bc"
  shows "one_socket opened k (create_socket N h ip port family0 flags0 nodelay opts bc e k)"
proof -
  define nff where "nff = (if ip \<noteq> [] then (Some (c_str ip), AF_UNSPEC, AI_NUMERICHOST)
    else ((if h \<noteq> [] then Some (c_str h) else None), family0, flags0))"
  obtain node family flags where n: "nff = (node, family, flags)" by (metis surj_pair)
  obtain r k1 where r: "sys_getaddrinfo N node (show_bound port) family flags k = (r, k1)" by force
  have k1: "opened k1 = opened k" by (rule counts_result(2) [OF assms(1) r])
  have t: "one_socket opened k (try_addresses N nodelay opts bc rps e k1)" for rps
    using try_addresses_one [OF assms, where k = k1 and nodelay = nodelay and rps = rps and e = e] k1 by (simp add: one_socket_def split: prod.splits option.splits)
  have c: "create_socket N h ip port family0 flags0 nodelay opts bc e k =
      (if family = AF_UNIX then create_unix_socket N h opts bc e k
       else case r of None \<Rightarrow> (None, e, sys_res_init N k1) | Some rps \<Rightarrow> try_addresses N nodelay opts bc rps e k1)"
    unfolding create_socket_def nff_def [symmetric] by (simp add: n r)
  show ?thesis
    unfolding c using t create_unix_socket_one [OF assms] k1 counts_keep(2) [OF assms(1)]
    by (cases r) (simp_all add: one_socket_def)
qed

text \<open>C28: Making a client socket never loses one: when it succeeds, exactly the socket returned has been opened
  and is open, and when it fails, on whatever address and at whatever step, no socket is left open.\<close>

theorem no_socket_lost:
  assumes "counts_sockets N opened" and "options_keep opened opts"
  shows "one_socket opened k (create_client_socket N h ip port family nodelay opts ct rt wt intf err k)"
proof -
  have "one_socket opened k (create_socket N h ip port family 0 nodelay opts (connect_socket N family ct rt wt intf) err k)"
    using connect_socket_keeps [OF assms(1)] by (intro create_socket_one [OF assms]) (auto simp: callback_keeps_def)
  then show ?thesis
    by (auto simp: create_client_socket_def one_socket_def split: prod.splits option.splits)
qed

text \<open>A network of two addresses, of which the second can be connected.\<close>

definition two_addresses :: "nat list Net" where
  "two_addresses =
     \<lparr>sys_recv = (\<lambda>s n p k. (Inr [], k)), sys_send = (\<lambda>s d k. (Inr 0, k)), sys_select = (\<lambda>s i a b k. (Inr 0, k)),
      sys_shutdown = (\<lambda>s k. k), sys_close = (\<lambda>s k. filter (\<lambda>x. x \<noteq> s) k), sys_clock = (\<lambda>k. (0, k)), sys_sleep = (\<lambda>n k. k),
      sys_getaddrinfo = (\<lambda>n s f g k. (Some [\<lparr>ai_family = 10, ai_addr = ''a''\<rparr>, \<lparr>ai_family = 2, ai_addr = ''b''\<rparr>], k)),
      sys_res_init = (\<lambda>k. k), sys_socket = (\<lambda>f k. (Some (Suc (sum_list k)), Suc (sum_list k) # k)),
      sys_cloexec = (\<lambda>s k. (True, k)), sys_setsockopt = (\<lambda>s x k. k), sys_bind = (\<lambda>s a k. (True, k)),
      sys_connect = (\<lambda>s a k. (if ai_addr a = ''b'' then Inr () else Inl EINPROGRESS, k)),
      sys_nonblocking = (\<lambda>s b k. k), sys_select_ready = (\<lambda>s a b k. (Inr (0, False), k)),
      sys_so_error = (\<lambda>s k. (Inr 0, k)), sys_getifaddrs = (\<lambda>k. ([], k))\<rparr>"

lemma two_addresses_counts: "counts_sockets two_addresses set"
proof -
  have "x \<in> set k \<Longrightarrow> x < Suc (sum_list k)" for x and k :: "nat list"
    using member_le_sum_list [of x k] by simp
  then show ?thesis
    by (auto simp: counts_sockets_def two_addresses_def keeps_sockets_def repeat_call_def handle_EINTR.simps)
qed

lemma no_socket_lost_witness:
  "one_socket set [3, 4]
     (create_client_socket two_addresses ''host'' [] 80 AF_UNSPEC True None (300, 0) (5, 0) (5, 0) [] Success [3, 4])"
  by (rule no_socket_lost [OF two_addresses_counts]) (simp add: options_keep_def)


end
