(* ===== verification/Http_Client.thy ===== *)
theory Http_Client
  imports Http_Connect
begin

text \<open>
  The HTTP client of \<open>httplib.h\<close> (\<open>ClientImpl\<close>): its settings, the request it writes, the response it reads,
  redirects, and sending over a socket that is opened, kept and closed.  Making a connection and the clock are
  system calls and parameters; \<open>is_ssl()\<close> is false, as the library is built without OpenSSL.
\<close>

subsection \<open>The client\<close>

text \<open>A thread id is a number; \<open>None\<close> is the id of no thread.\<close>

record ('w, 'k) ClientImpl =
  cl_host :: string
  cl_port :: int
  host_and_port :: string
  client_cert_path :: string
  client_key_path :: string
  client_socket :: "nat option"
  requests_in_flight :: nat
  requests_are_from_thread :: "nat option"
  should_be_closed :: bool
  addr_map :: "string \<rightharpoonup> string"
  cl_default_headers :: Headers
  cl_header_writer :: "Headers \<Rightarrow> BufferStream \<Rightarrow> int \<times> Headers \<times> BufferStream"
  connection_timeout :: "int \<times> int"
  cl_read_timeout :: "int \<times> int"
  cl_write_timeout :: "int \<times> int"
  basic_auth :: "string \<times> string"
  bearer_token :: string
  cl_keep_alive :: bool
  follow_location :: bool
  url_encode :: bool
  cl_address_family :: int
  cl_tcp_nodelay :: bool
  cl_socket_options :: "(nat \<Rightarrow> 'k \<Rightarrow> 'k) option"
  cl_compress :: bool
  cl_decompress :: bool
  interface_name :: string
  proxy_host :: string
  proxy_port :: int
  proxy_basic_auth :: "string \<times> string"
  proxy_bearer_token :: string
  cl_logger :: "('w Request \<Rightarrow> 'w Response \<Rightarrow> 'w \<Rightarrow> 'w) option"

definition adjust_host_string :: "string \<Rightarrow> string" where
  "adjust_host_string h = (if CHR '':'' \<in> set h then ''['' @ h @ '']'' else h)"

definition newClientImpl :: "string \<Rightarrow> int \<Rightarrow> string \<Rightarrow> string \<Rightarrow> ('w, 'k) ClientImpl" where
  "newClientImpl h p cert key =
     \<lparr>cl_host = h, cl_port = p, host_and_port = adjust_host_string h @ '':'' @ show_bound p,
      client_cert_path = cert, client_key_path = key, client_socket = None, requests_in_flight = 0,
      requests_are_from_thread = None, should_be_closed = False, addr_map = Map.empty, cl_default_headers = [],
      cl_header_writer = default_header_writer, connection_timeout = (300, 0), cl_read_timeout = (5, 0),
      cl_write_timeout = (5, 0), basic_auth = ([], []), bearer_token = [], cl_keep_alive = False,
      follow_location = False, url_encode = True, cl_address_family = 0, cl_tcp_nodelay = False,
      cl_socket_options = None, cl_compress = False, cl_decompress = True, interface_name = [], proxy_host = [],
      proxy_port = -1, proxy_basic_auth = ([], []), proxy_bearer_token = [], cl_logger = None\<rparr>"

definition newClientImpl_host_port :: "string \<Rightarrow> int \<Rightarrow> ('w, 'k) ClientImpl" where
  "newClientImpl_host_port h p = newClientImpl h p [] []"

definition newClientImpl_host :: "string \<Rightarrow> ('w, 'k) ClientImpl" where
  "newClientImpl_host h = newClientImpl h 80 [] []"

text \<open>The microseconds of the connection timeout, the default headers, the header writer and the address map
  are not copied.\<close>

definition copy_settings :: "('w, 'k) ClientImpl \<Rightarrow> ('w, 'k) ClientImpl \<Rightarrow> ('w, 'k) ClientImpl" where
  "copy_settings rhs cl = cl
     \<lparr>client_cert_path := client_cert_path rhs, client_key_path := client_key_path rhs,
      connection_timeout := (fst (connection_timeout rhs), snd (connection_timeout cl)),
      cl_read_timeout := cl_read_timeout rhs, cl_write_timeout := cl_write_timeout rhs,
      basic_auth := basic_auth rhs, bearer_token := bearer_token rhs, cl_keep_alive := cl_keep_alive rhs,
      follow_location := follow_location rhs, url_encode := url_encode rhs, cl_address_family := cl_address_family rhs,
      cl_tcp_nodelay := cl_tcp_nodelay rhs, cl_socket_options := cl_socket_options rhs, cl_compress := cl_compress rhs,
      cl_decompress := cl_decompress rhs, interface_name := interface_name rhs, proxy_host := proxy_host rhs,
      proxy_port := proxy_port rhs, proxy_basic_auth := proxy_basic_auth rhs,
      proxy_bearer_token := proxy_bearer_token rhs, cl_logger := cl_logger rhs\<rparr>"

definition uses_proxy :: "('w, 'k) ClientImpl \<Rightarrow> bool" where
  "uses_proxy cl \<longleftrightarrow> proxy_host cl \<noteq> [] \<and> proxy_port cl \<noteq> -1"

subsection \<open>Writing a request\<close>

definition make_basic_authentication_header :: "string \<Rightarrow> string \<Rightarrow> bool \<Rightarrow> string \<times> string" where
  "make_basic_authentication_header username password is_proxy =
     (if is_proxy then ''Proxy-Authorization'' else ''Authorization'',
      ''Basic '' @ base64_encode (username @ '':'' @ password))"

definition make_bearer_token_authentication_header :: "string \<Rightarrow> bool \<Rightarrow> string \<times> string" where
  "make_bearer_token_authentication_header token is_proxy =
     (if is_proxy then ''Proxy-Authorization'' else ''Authorization'', ''Bearer '' @ token)"

definition set_missing_header :: "string \<Rightarrow> string \<Rightarrow> 'w Request \<Rightarrow> 'w Request" where
  "set_missing_header key val req =
     (if Request_has_header req key then req else Request_set_header key val req)"

text \<open>\<open>headers.insert\<close>, which does not look for line ends.\<close>

definition insert_missing_header :: "bool \<Rightarrow> string \<times> string \<Rightarrow> 'w Request \<Rightarrow> 'w Request" where
  "insert_missing_header b kv req =
     (if b \<and> \<not> Request_has_header req (fst kv)
      then req\<lparr>rq_headers := mm_emplace ci_less (fst kv) (snd kv) (rq_headers req)\<rparr> else req)"

definition user_agent :: string where
  "user_agent = ''cpp-httplib/0.14.1''"

definition host_header :: "('w, 'k) ClientImpl \<Rightarrow> string" where
  "host_header cl = (if cl_port cl = 80 then cl_host cl else host_and_port cl)"

definition add_body_headers :: "'w Request \<Rightarrow> 'w Request" where
  "add_body_headers req =
     (if rq_body req = [] then
        (if rq_content_provider req \<noteq> None then
           (if \<not> rq_is_chunked req then set_missing_header ''Content-Length'' (dec (rq_content_length req)) req else req)
         else if rq_method req \<in> {''POST'', ''PUT'', ''PATCH''} then Request_set_header ''Content-Length'' ''0'' req
         else req)
      else set_missing_header ''Content-Length'' (dec (length (rq_body req)))
             (set_missing_header ''Content-Type'' ''text/plain'' req))"

definition add_authentication :: "('w, 'k) ClientImpl \<Rightarrow> 'w Request \<Rightarrow> 'w Request" where
  "add_authentication cl req =
     (let r1 = insert_missing_header (snd (basic_auth cl) \<noteq> [] \<or> fst (basic_auth cl) \<noteq> [])
                 (make_basic_authentication_header (fst (basic_auth cl)) (snd (basic_auth cl)) False) req;
          r2 = insert_missing_header (fst (proxy_basic_auth cl) \<noteq> [] \<and> snd (proxy_basic_auth cl) \<noteq> [])
                 (make_basic_authentication_header (fst (proxy_basic_auth cl)) (snd (proxy_basic_auth cl)) True) r1;
          r3 = insert_missing_header (bearer_token cl \<noteq> []) (make_bearer_token_authentication_header (bearer_token cl) False) r2
      in insert_missing_header (proxy_bearer_token cl \<noteq> [])
           (make_bearer_token_authentication_header (proxy_bearer_token cl) True) r3)"

definition prepare_request :: "('w, 'k) ClientImpl \<Rightarrow> bool \<Rightarrow> 'w Request \<Rightarrow> 'w Request" where
  "prepare_request cl close_connection req =
     add_authentication cl
       (add_body_headers
         (set_missing_header ''User-Agent'' user_agent
           (set_missing_header ''Accept'' ''*/*''
             (set_missing_header ''Host'' (host_header cl)
               (if close_connection then set_missing_header ''Connection'' ''close'' req else req)))))"

text \<open>The request line and the headers, collected in a \<open>BufferStream\<close>; the header writer may change the
  headers.\<close>

definition request_head :: "('w, 'k) ClientImpl \<Rightarrow> 'w Request \<Rightarrow> 'w Request \<times> string" where
  "request_head cl req =
     (let path = (if url_encode cl then encode_url (rq_path req) else rq_path req);
          b1 = snd (write_format buffer_stream (c_str (rq_method req) @ '' '' @ c_str path @ '' HTTP/1.1'' @ crlf)
                 \<lparr>bs_buffer = [], bs_position = 0\<rparr>)
      in case cl_header_writer cl (rq_headers req) b1 of
           (m, hs, b2) \<Rightarrow> (req\<lparr>rq_headers := hs\<rparr>, bs_buffer b2))"

text \<open>A provider that is not set throws when it is called: it is called when the content is not empty.  The
  error is \<open>None\<close> when it is left as it was.\<close>

definition Client_write_content_with_provider ::
  "'s Stream \<Rightarrow> 'w Request \<Rightarrow> 'w \<Rightarrow> 's \<Rightarrow> ((http_stop + bool) \<times> Error option \<times> 'w \<times> 's) option" where
  "Client_write_content_with_provider S req w s =
     (case rq_content_provider req of
        None \<Rightarrow>
          (if rq_is_chunked req \<or> rq_content_length req > 0 then
             (case is_writable S s of (ok, s1) \<Rightarrow>
                Some (if ok then (Inl (Threw (Std_exception ''bad_function_call'')), None, w, s1)
                      else (Inr False, Some Write, w, s1)))
           else Some (Inr True, Some Success, w, s))
      | Some p \<Rightarrow>
          map_option (\<lambda>(r, s1). case r of
              Written b e w1 \<Rightarrow> (Inr b, e, w1, s1)
            | Bad_call \<Rightarrow> (Inl (Threw (Std_exception ''bad_function_call'')), None, w, s1))
            (if rq_is_chunked req then write_content_chunked S p (\<lambda>s. False) w s
             else write_content S p 0 (rq_content_length req) (\<lambda>s. False) w s))"

text \<open>The result, the request with its headers, the error and what follows.\<close>

definition write_request ::
  "'s Stream \<Rightarrow> ('w, 'k) ClientImpl \<Rightarrow> 'w Request \<Rightarrow> bool \<Rightarrow> Error \<Rightarrow> 'w \<Rightarrow> 's \<Rightarrow>
   ((http_stop + bool) \<times> 'w Request \<times> Error \<times> 'w \<times> 's) option" where
  "write_request S cl req close_connection err w s =
     (case request_head cl (prepare_request cl close_connection req) of (req1, d) \<Rightarrow>
        Option.bind (write_data S d s) (\<lambda>(ok, s1).
          if \<not> ok then Some (Inr False, req1, Write, w, s1)
          else if rq_body req1 = [] then
            map_option (\<lambda>(r, e, w1, s2). (r, req1, (case e of None \<Rightarrow> err | Some e' \<Rightarrow> e'), w1, s2))
              (Client_write_content_with_provider S req1 w s1)
          else Option.bind (write_data S (rq_body req1) s1) (\<lambda>(ok, s2).
            if \<not> ok then Some (Inr False, req1, Write, w, s2) else Some (Inr True, req1, err, w, s2))))"

subsection \<open>Reading a response\<close>

text \<open>Three digits always convert.  The regular expression \<open>(HTTP/1\\.[01]) (\\d{3})(?: (.*?))?\\r\\n\<close> on a whole line: the version, the
  status and the reason.\<close>

definition status_number :: "string \<Rightarrow> int" where
  "status_number d = (case stoi d of Inr i \<Rightarrow> i | Inl e \<Rightarrow> 0)"

definition match_status_line :: "string \<Rightarrow> (string \<times> int \<times> string) option" where
  "match_status_line s =
     (let d = take 3 (drop 9 s); rest = drop 12 s in
      if take 8 s \<in> {''HTTP/1.0'', ''HTTP/1.1''} \<and> take 1 (drop 8 s) = '' '' \<and> length d = 3 \<and> list_all is_digit d then
        (if rest = crlf then Some (take 8 s, status_number d, [])
         else if rest \<noteq> [] \<and> hd rest = CHR '' '' \<and> length rest \<ge> 3 \<and> drop (length rest - 2) rest = crlf \<and>
                 list_all (\<lambda>c. c \<noteq> CHR 0x0D \<and> c \<noteq> CHR 0x0A) (take (length rest - 3) (tl rest))
         then Some (take 8 s, status_number d, take (length rest - 3) (tl rest))
         else None)
      else None)"

definition set_status_line :: "string \<times> int \<times> string \<Rightarrow> 'w Response \<Rightarrow> 'w Response" where
  "set_status_line m res =
     (case m of (v, st, reason) \<Rightarrow> res\<lparr>rs_version := v, rs_status := st, rs_reason := reason\<rparr>)"

text \<open>The interim responses with status 100 are skipped: the line after it, and the next status line.\<close>

partial_function (option) skip_continue ::
  "'s Stream \<Rightarrow> line_reader \<Rightarrow> 'w Response \<Rightarrow> 's \<Rightarrow> (bool \<times> 'w Response \<times> 's) option" where
  "skip_continue S r res s =
     (if rs_status res \<noteq> 100 then Some (True, res, s)
      else Option.bind (getline S r s) (\<lambda>(ok1, r1, s1).
        if \<not> ok1 then Some (False, res, s1)
        else Option.bind (getline S r1 s1) (\<lambda>(ok2, r2, s2).
          if \<not> ok2 then Some (False, res, s2)
          else case match_status_line (c_str (line_of r2)) of
            None \<Rightarrow> Some (False, res, s2)
          | Some m \<Rightarrow> skip_continue S r2 (set_status_line m res) s2)))"

definition read_response_line ::
  "'s Stream \<Rightarrow> 'w Request \<Rightarrow> 'w Response \<Rightarrow> 's \<Rightarrow> (bool \<times> 'w Response \<times> 's) option" where
  "read_response_line S req res s =
     Option.bind (getline S (new_reader 2048) s) (\<lambda>(ok, r, s1).
       if \<not> ok then Some (False, res, s1)
       else case match_status_line (c_str (line_of r)) of
         None \<Rightarrow> Some (rq_method req = ''CONNECT'', res, s1)
       | Some m \<Rightarrow> skip_continue S r (set_status_line m res) s1)"

text \<open>What the receivers of a response capture.\<close>

record 'w client_receiving =
  cr_body :: string
  cr_error :: Error
  cr_world :: 'w

definition client_receiver :: "'w Request \<Rightarrow> bool \<Rightarrow> 'w client_receiving receiver" where
  "client_receiver req redirected d off len v =
     (case content_receiver req of
        Some f \<Rightarrow>
          (if redirected then (True, v)
           else case f d off len (cr_world v) of
             (ok, w) \<Rightarrow> (ok, v\<lparr>cr_world := w, cr_error := (if ok then cr_error v else Canceled)\<rparr>))
      | None \<Rightarrow>
          (if length (cr_body v) + length d > string_max_size then (False, v)
           else (True, v\<lparr>cr_body := cr_body v @ d\<rparr>)))"

definition client_progress ::
  "'w Request \<Rightarrow> bool \<Rightarrow> nat \<Rightarrow> nat \<Rightarrow> 'w client_receiving \<Rightarrow> bool \<times> 'w client_receiving" where
  "client_progress req redirected cur tot v =
     (case rq_progress req of
        None \<Rightarrow> (True, v)
      | Some f \<Rightarrow>
          (if redirected then (True, v)
           else case f cur tot (cr_world v) of
             (ok, w) \<Rightarrow> (ok, v\<lparr>cr_world := w, cr_error := (if ok then cr_error v else Canceled)\<rparr>)))"

definition is_redirect :: "('w, 'k) ClientImpl \<Rightarrow> 'w Response \<Rightarrow> bool" where
  "is_redirect cl res \<longleftrightarrow> 300 < rs_status res \<and> rs_status res < 400 \<and> follow_location cl"

definition log_response :: "('w, 'k) ClientImpl \<Rightarrow> 'w Request \<Rightarrow> 'w Response \<Rightarrow> 'w \<Rightarrow> 'w" where
  "log_response cl req res w = (case cl_logger cl of None \<Rightarrow> w | Some f \<Rightarrow> f req res w)"

text \<open>The content of the response.\<close>

definition receive_content ::
  "'s Stream \<Rightarrow> ('w, 'k) ClientImpl \<Rightarrow> 'w Request \<Rightarrow> 'w Response \<Rightarrow> Error \<Rightarrow> 'w \<Rightarrow> 's \<Rightarrow>
   (bool \<times> 'w Response \<times> Error \<times> 'w \<times> 's) option" where
  "receive_content S cl req res err w s =
     (let red = is_redirect cl res in
      case (case response_handler req of None \<Rightarrow> (True, w) | Some f \<Rightarrow> if red then (True, w) else f res w) of
        (False, w1) \<Rightarrow> Some (False, res, Canceled, w1, s)
      | (True, w1) \<Rightarrow>
          Option.bind
            (read_content S (rs_headers res) (2 ^ 64 - 1) (Some (client_progress req red)) (client_receiver req red)
               (cl_decompress cl) \<lparr>cr_body = rs_body res, cr_error = err, cr_world = w1\<rparr> s)
            (\<lambda>(ok, dummy_status, hs, v, s1).
              Some (ok, res\<lparr>rs_headers := hs, rs_body := cr_body v\<rparr>,
                    (if \<not> ok \<and> cr_error v \<noteq> Canceled then Read else cr_error v), cr_world v, s1)))"

definition Client_process_request ::
  "'s Stream \<Rightarrow> ('w, 'k) ClientImpl \<Rightarrow> 'w Request \<Rightarrow> 'w Response \<Rightarrow> bool \<Rightarrow> Error \<Rightarrow> 'w \<Rightarrow> 's \<Rightarrow>
   ((http_stop + bool) \<times> 'w Request \<times> 'w Response \<times> Error \<times> 'w \<times> 's) option" where
  "Client_process_request S cl req res close_connection err w s =
     Option.bind (write_request S cl req close_connection err w s) (\<lambda>(r, req1, err1, w1, s1).
       if r \<noteq> Inr True then Some (r, req1, res, err1, w1, s1)
       else Option.bind (read_response_line S req1 res s1) (\<lambda>(ok, res1, s2).
         if \<not> ok then Some (Inr False, req1, res1, Read, w1, s2)
         else Option.bind (read_headers S (rs_headers res1) s2) (\<lambda>(ok, hs, s3).
           let res2 = res1\<lparr>rs_headers := hs\<rparr> in
           if \<not> ok then Some (Inr False, req1, res2, Read, w1, s3)
           else if rs_status res2 \<noteq> 204 \<and> rq_method req1 \<noteq> ''HEAD'' \<and> rq_method req1 \<noteq> ''CONNECT'' then
             Option.bind (receive_content S cl req1 res2 err1 w1 s3) (\<lambda>(ok, res3, err3, w3, s4).
               if ok then Some (Inr True, req1, res3, err3, log_response cl req1 res3 w3, s4)
               else Some (Inr False, req1, res3, err3, w3, s4))
           else Some (Inr True, req1, res2, err1, log_response cl req1 res2 w1, s3))))"


subsection \<open>Redirects\<close>

text \<open>The parts of the regular expression that splits a location: scheme, host, port, path and query.  A
  fragment may not hold line ends; the rest of the expression matches any text, so the optional groups are
  taken whenever they match.\<close>

record location_parts =
  lp_scheme :: string
  lp_host :: string
  lp_port :: string
  lp_path :: string
  lp_query :: string

definition match_scheme :: "string \<Rightarrow> string \<times> string" where
  "match_scheme u =
     (if take 6 u = ''https:'' then (''https'', drop 6 u)
      else if take 5 u = ''http:'' then (''http'', drop 5 u)
      else ([], u))"

definition match_port :: "string \<Rightarrow> string \<times> string" where
  "match_port u =
     (if u \<noteq> [] \<and> hd u = CHR '':'' \<and> takeWhile is_digit (tl u) \<noteq> []
      then (takeWhile is_digit (tl u), dropWhile is_digit (tl u)) else ([], u))"

definition match_host :: "string \<Rightarrow> (string \<times> string) option" where
  "match_host u =
     (let inner = takeWhile (\<lambda>c. is_digit c \<or> c = CHR '':'') (tl u);
          after = dropWhile (\<lambda>c. is_digit c \<or> c = CHR '':'') (tl u);
          plain = takeWhile (\<lambda>c. c \<notin> set '':/?#'') u
      in if u \<noteq> [] \<and> hd u = CHR ''['' \<and> inner \<noteq> [] \<and> after \<noteq> [] \<and> hd after = CHR '']'' then Some (inner, tl after)
         else if plain \<noteq> [] then Some (plain, dropWhile (\<lambda>c. c \<notin> set '':/?#'') u)
         else None)"

definition match_authority :: "string \<Rightarrow> string \<times> string \<times> string" where
  "match_authority u =
     (if take 2 u = ''//'' then
        (case match_host (drop 2 u) of
           None \<Rightarrow> ([], [], u)
         | Some (h, r) \<Rightarrow> (case match_port r of (p, r') \<Rightarrow> (h, p, r')))
      else ([], [], u))"

definition match_location :: "string \<Rightarrow> location_parts option" where
  "match_location loc =
     (let u = takeWhile (\<lambda>c. c \<noteq> CHR ''#'') loc;
          fragment = drop (length u + 1) loc;
          (scheme, r1) = match_scheme u;
          (h, p, r2) = match_authority r1
      in if list_all (\<lambda>c. c \<noteq> CHR 0x0D \<and> c \<noteq> CHR 0x0A) fragment
         then Some \<lparr>lp_scheme = scheme, lp_host = h, lp_port = p,
                    lp_path = takeWhile (\<lambda>c. c \<noteq> CHR ''?'') r2, lp_query = dropWhile (\<lambda>c. c \<noteq> CHR ''?'') r2\<rparr>
         else None)"

text \<open>Where a redirect goes: the scheme, the host, the port and the path with the query.  \<open>std::stoi\<close> of the
  port may throw.\<close>

definition redirect_target :: "('w, 'k) ClientImpl \<Rightarrow> location_parts \<Rightarrow> (string \<times> string \<times> int \<times> string) result" where
  "redirect_target cl m =
     (case (if lp_port m \<noteq> [] then stoi (lp_port m)
            else if lp_scheme m \<noteq> [] then Inr (if lp_scheme m = ''https'' then 443 else 80)
            else Inr (cl_port cl)) of
        Inl e \<Rightarrow> Inl e
      | Inr next_port \<Rightarrow>
          Inr (if lp_scheme m = [] then ''http'' else lp_scheme m,
               if lp_host m = [] then cl_host cl else lp_host m,
               next_port,
               decode_url (if lp_path m = [] then ''/'' else lp_path m) True @ lp_query m))"

text \<open>The new request: a 303 turns a request with a content into a GET without headers.\<close>

definition redirected_request :: "'w Request \<Rightarrow> 'w Response \<Rightarrow> string \<Rightarrow> 'w Request" where
  "redirected_request req res path =
     (let r1 = req\<lparr>rq_path := path, redirect_count := redirect_count req - 1\<rparr>
      in if rs_status res = 303 \<and> rq_method req \<noteq> ''GET'' \<and> rq_method req \<noteq> ''HEAD''
         then r1\<lparr>rq_method := ''GET'', rq_body := [], rq_headers := []\<rparr> else r1)"

subsection \<open>The socket of the client\<close>

text \<open>The calls on the socket assert that no other thread has a request in flight.\<close>

definition may_touch_socket :: "nat \<Rightarrow> ('w, 'k) ClientImpl \<Rightarrow> bool" where
  "may_touch_socket me cl \<longleftrightarrow> requests_in_flight cl = 0 \<or> requests_are_from_thread cl = Some me"

definition close_client_socket :: "('k, 'm) Net_scheme \<Rightarrow> ('w, 'k) ClientImpl \<Rightarrow> 'k \<Rightarrow> ('w, 'k) ClientImpl \<times> 'k" where
  "close_client_socket N cl k =
     (case client_socket cl of
        None \<Rightarrow> (cl, k)
      | Some sock \<Rightarrow> (cl\<lparr>client_socket := None\<rparr>, sys_close N sock (sys_shutdown N sock k)))"

text \<open>\<open>shutdown_ssl\<close>, \<open>shutdown_socket\<close> and \<open>close_socket\<close> in a row; \<open>False\<close> when an assertion fails.\<close>

definition drop_socket ::
  "('k, 'm) Net_scheme \<Rightarrow> nat \<Rightarrow> ('w, 'k) ClientImpl \<Rightarrow> 'k \<Rightarrow> bool \<times> ('w, 'k) ClientImpl \<times> 'k" where
  "drop_socket N me cl k =
     (if may_touch_socket me cl then (case close_client_socket N cl k of (cl', k') \<Rightarrow> (True, cl', k'))
      else (False, cl, k))"

definition Client_create_client_socket ::
  "('k, 'm) Net_scheme \<Rightarrow> ('w, 'k) ClientImpl \<Rightarrow> Error \<Rightarrow> 'k \<Rightarrow> nat option \<times> Error \<times> 'k" where
  "Client_create_client_socket N cl err k =
     (if uses_proxy cl
      then create_client_socket N (proxy_host cl) [] (proxy_port cl) (cl_address_family cl) (cl_tcp_nodelay cl)
             (cl_socket_options cl) (connection_timeout cl) (cl_read_timeout cl) (cl_write_timeout cl)
             (interface_name cl) err k
      else create_client_socket N (cl_host cl) (case addr_map cl (cl_host cl) of None \<Rightarrow> [] | Some ip \<Rightarrow> ip)
             (cl_port cl) (cl_address_family cl) (cl_tcp_nodelay cl) (cl_socket_options cl) (connection_timeout cl)
             (cl_read_timeout cl) (cl_write_timeout cl) (interface_name cl) err k)"

definition create_and_connect_socket ::
  "('k, 'm) Net_scheme \<Rightarrow> ('w, 'k) ClientImpl \<Rightarrow> Error \<Rightarrow> 'k \<Rightarrow> bool \<times> ('w, 'k) ClientImpl \<times> Error \<times> 'k" where
  "create_and_connect_socket N cl err k =
     (case Client_create_client_socket N cl err k of
        (None, e, k1) \<Rightarrow> (False, cl, e, k1)
      | (Some sock, e, k1) \<Rightarrow> (True, cl\<lparr>client_socket := Some sock\<rparr>, e, k1))"

text \<open>The first block of \<open>send_\<close>: an open socket is kept when it is alive, else a new one is made.\<close>

definition open_connection ::
  "('k, 'm) Net_scheme \<Rightarrow> nat \<Rightarrow> ('w, 'k) ClientImpl \<Rightarrow> Error \<Rightarrow> 'k \<Rightarrow>
   (http_stop + bool) \<times> ('w, 'k) ClientImpl \<times> Error \<times> 'k" where
  "open_connection N me cl0 err k =
     (let cl = cl0\<lparr>should_be_closed := False\<rparr>;
          (no_assert, alive, cl1, k1) =
            (case client_socket cl of
               None \<Rightarrow> (True, False, cl, k)
             | Some sock \<Rightarrow>
                 (case is_socket_alive N sock k of
                    (True, k0) \<Rightarrow> (True, True, cl, k0)
                  | (False, k0) \<Rightarrow> (case drop_socket N me cl k0 of (b, cl', k') \<Rightarrow> (b, False, cl', k'))));
          (connected, cl2, err2, k2) =
            (if alive then (True, cl1, err, k1) else create_and_connect_socket N cl1 err k1)
      in if \<not> no_assert then (Inl Assert_failed, cl1, err, k1)
         else if \<not> connected then (Inr False, cl2, err2, k2)
         else if requests_in_flight cl2 > 1 \<and> requests_are_from_thread cl2 \<noteq> Some me then (Inl Assert_failed, cl2, err2, k2)
         else (Inr True,
               cl2\<lparr>requests_in_flight := requests_in_flight cl2 + 1, requests_are_from_thread := Some me\<rparr>, err2, k2))"

definition add_default_headers :: "('w, 'k) ClientImpl \<Rightarrow> 'w Request \<Rightarrow> 'w Request" where
  "add_default_headers cl req = fold (insert_missing_header True) (cl_default_headers cl) req"

text \<open>The end of a request, whatever its outcome.\<close>

definition end_request ::
  "('k, 'm) Net_scheme \<Rightarrow> nat \<Rightarrow> bool \<Rightarrow> bool \<Rightarrow> ('w, 'k) ClientImpl \<Rightarrow> 'k \<Rightarrow> bool \<times> ('w, 'k) ClientImpl \<times> 'k" where
  "end_request N me close_connection ok cl k =
     (let n = requests_in_flight cl - 1;
          cl1 = cl\<lparr>requests_in_flight := n\<rparr>;
          cl2 = (if n = 0 then cl1\<lparr>requests_are_from_thread := None\<rparr> else cl1)
      in if should_be_closed cl2 \<or> close_connection \<or> \<not> ok then drop_socket N me cl2 k else (True, cl2, k))"


subsection \<open>Sending\<close>

text \<open>What a call of \<open>send\<close> leaves: the result, the client, the request, the response, the error, the world and
  the kernel.\<close>

type_synonym ('w, 'k) sent =
  "((http_stop + bool) \<times> ('w, 'k) ClientImpl \<times> 'w Request \<times> 'w Response \<times> Error \<times> 'w \<times> 'k) option"

type_synonym ('w, 'k) sender =
  "('w, 'k) ClientImpl \<Rightarrow> 'w Request \<Rightarrow> 'w Response \<Rightarrow> Error \<Rightarrow> 'w \<Rightarrow> 'k \<Rightarrow> ('w, 'k) sent"

text \<open>\<open>detail::redirect\<close> for a client \<open>cl\<close>, whose \<open>send\<close> is \<open>go\<close>.\<close>

definition redirect_by ::
  "('w, 'k) sender \<Rightarrow> ('w, 'k) ClientImpl \<Rightarrow> 'w Request \<Rightarrow> 'w Response \<Rightarrow> string \<Rightarrow> string \<Rightarrow> Error \<Rightarrow> 'w \<Rightarrow> 'k \<Rightarrow>
   ('w, 'k) sent" where
  "redirect_by go cl req res path loc err w k =
     map_option
       (\<lambda>(r, cl', new_req, new_res, err', w', k').
         if r = Inr True
         then (r, cl', new_req, (if rs_location new_res = [] then new_res\<lparr>rs_location := loc\<rparr> else new_res), err', w', k')
         else (r, cl', req, res, err', w', k'))
       (go cl (redirected_request req res path) newResponse err w k)"

text \<open>A client for another host has the settings of this one and is destroyed afterwards.\<close>

definition redirect_elsewhere ::
  "('w, 'k) sender \<Rightarrow> ('k, 'm) Net_scheme \<Rightarrow> nat \<Rightarrow> ('w, 'k) ClientImpl \<Rightarrow> string \<Rightarrow> int \<Rightarrow> 'w Request \<Rightarrow> 'w Response \<Rightarrow>
   string \<Rightarrow> string \<Rightarrow> Error \<Rightarrow> 'w \<Rightarrow> 'k \<Rightarrow> ('w, 'k) sent" where
  "redirect_elsewhere go N me cl next_host next_port req res path loc err w k =
     map_option
       (\<lambda>(r, cli, req', res', err', w', k').
         case drop_socket N me cli k' of (b, cli', k'') \<Rightarrow>
           ((if b then r else Inl Assert_failed), cl, req', res', err', w', k''))
       (redirect_by go (copy_settings cl (newClientImpl_host_port (c_str next_host) next_port)) req res path loc err w k)"

definition redirect ::
  "('w, 'k) sender \<Rightarrow> ('k, 'm) Net_scheme \<Rightarrow> nat \<Rightarrow> ('w, 'k) ClientImpl \<Rightarrow> 'w Request \<Rightarrow> 'w Response \<Rightarrow> Error \<Rightarrow> 'w \<Rightarrow> 'k \<Rightarrow>
   ('w, 'k) sent" where
  "redirect go N me cl req res err w k =
     (let loc = first_value (rs_headers res) ''location'' in
      if redirect_count req = 0 then Some (Inr False, cl, req, res, ExceedRedirectCount, w, k)
      else if loc = [] then Some (Inr False, cl, req, res, err, w, k)
      else case match_location loc of
        None \<Rightarrow> Some (Inr False, cl, req, res, err, w, k)
      | Some m \<Rightarrow>
          (case redirect_target cl m of
             Inl e \<Rightarrow> Some (Inl (Threw (Std_exception ''stoi'')), cl, req, res, err, w, k)
           | Inr (next_scheme, next_host, next_port, path) \<Rightarrow>
               (if next_scheme = ''http'' \<and> next_host = cl_host cl \<and> next_port = cl_port cl
                then redirect_by go cl req res path loc err w k
                else if next_scheme = ''https'' then Some (Inr False, cl, req, res, err, w, k)
                else redirect_elsewhere go N me cl next_host next_port req res path loc err w k)))"

text \<open>The first part of \<open>handle_request\<close>: a proxy is given the whole address.\<close>

definition exchange ::
  "'s Stream \<Rightarrow> ('w, 'k) ClientImpl \<Rightarrow> 'w Request \<Rightarrow> 'w Response \<Rightarrow> bool \<Rightarrow> Error \<Rightarrow> 'w \<Rightarrow> 's \<Rightarrow>
   ((http_stop + bool) \<times> 'w Request \<times> 'w Response \<times> Error \<times> 'w \<times> 's) option" where
  "exchange S cl req res close_connection err w s =
     (if uses_proxy cl then
        map_option
          (\<lambda>(r, req2, res', err', w', s').
            (r, (case r of Inr b \<Rightarrow> req2\<lparr>rq_path := rq_path req\<rparr> | Inl e \<Rightarrow> req), res', err', w', s'))
          (Client_process_request S cl (req\<lparr>rq_path := ''http://'' @ host_and_port cl @ rq_path req\<rparr>) res
             close_connection err w s)
      else Client_process_request S cl req res close_connection err w s)"

definition response_closes :: "'w Response \<Rightarrow> bool" where
  "response_closes res \<longleftrightarrow>
     first_value (rs_headers res) ''Connection'' = ''close'' \<or>
     rs_version res = ''HTTP/1.0'' \<and> rs_reason res \<noteq> ''Connection established''"

definition handle_request ::
  "('w, 'k) sender \<Rightarrow> ('k, 'm) Net_scheme \<Rightarrow> nat \<Rightarrow> ('w, 'k) ClientImpl \<Rightarrow> 'w Request \<Rightarrow> 'w Response \<Rightarrow> bool \<Rightarrow> Error \<Rightarrow>
   'w \<Rightarrow> 'k SocketState Stream \<Rightarrow> 'k SocketState \<Rightarrow> ('w, 'k) sent" where
  "handle_request go N me cl req res close_connection err w S s =
     (if rq_path req = [] then Some (Inr False, cl, req, res, Connection, w, kernel s)
      else Option.bind (exchange S cl req res close_connection err w s) (\<lambda>(r, req1, res1, err1, w1, s1).
        if r \<noteq> Inr True then Some (r, cl, req1, res1, err1, w1, kernel s1)
        else case (if response_closes res1 then drop_socket N me cl (kernel s1) else (True, cl, kernel s1)) of
          (False, cl2, k2) \<Rightarrow> Some (Inl Assert_failed, cl2, req1, res1, err1, w1, k2)
        | (True, cl2, k2) \<Rightarrow>
            (if is_redirect cl2 res1 then redirect go N me cl2 req res1 err1 w1 k2
             else Some (Inr True, cl2, req1, res1, err1, w1, k2))))"

text \<open>\<open>send_\<close>, whose redirects are sent by \<open>go\<close>.\<close>

definition send_step :: "('w, 'k) sender \<Rightarrow> ('k, 'm) Net_scheme \<Rightarrow> nat \<Rightarrow> ('w, 'k) sender" where
  "send_step go N me cl req res err w k =
     (case open_connection N me cl err k of
        (Inr True, cl1, err1, k1) \<Rightarrow>
          (case client_socket cl1 of
             None \<Rightarrow> Some (Inl Assert_failed, cl1, req, res, err1, w, k1)
           | Some sock \<Rightarrow>
               (let close_connection = \<not> cl_keep_alive cl1;
                    c = \<lparr>ss_sock = sock, ss_read_timeout = cl_read_timeout cl1, ss_write_timeout = cl_write_timeout cl1\<rparr>
                in map_option
                     (\<lambda>(r, cl2, req2, res2, err2, w2, k2).
                       case end_request N me close_connection (r = Inr True) cl2 k2 of (b, cl3, k3) \<Rightarrow>
                         ((if b then r else Inl Assert_failed), cl3, req2, res2,
                          (if r = Inr False \<and> err2 = Success then Unknown else err2), w2, k3))
                     (handle_request go N me cl1 (add_default_headers cl1 req) res close_connection err1 w
                        (socket_stream N c) (newSocketState k1))))
      | (r, cl1, err1, k1) \<Rightarrow> Some (r, cl1, req, res, err1, w, k1))"

text \<open>A redirect is sent with a count that is one less, and with the count 0 none is sent: the recursion is on
  the count of the request.\<close>

primrec send_count :: "nat \<Rightarrow> ('k, 'm) Net_scheme \<Rightarrow> nat \<Rightarrow> ('w, 'k) sender" where
  "send_count 0 N me = send_step (\<lambda>cl req res err w k. None) N me"
| "send_count (Suc n) N me = send_step (send_count n N me) N me"

definition Client_send :: "('k, 'm) Net_scheme \<Rightarrow> nat \<Rightarrow> ('w, 'k) sender" where
  "Client_send N me cl req res err w k = send_count (redirect_count req) N me cl req res err w k"

text \<open>\<open>send\<close> of a request that is kept, with a new response.\<close>

definition Client_send_request ::
  "('k, 'm) Net_scheme \<Rightarrow> nat \<Rightarrow> ('w, 'k) ClientImpl \<Rightarrow> 'w Request \<Rightarrow> 'w \<Rightarrow> 'k \<Rightarrow>
   ((http_stop + 'w Result) \<times> ('w, 'k) ClientImpl \<times> 'w \<times> 'k) option" where
  "Client_send_request N me cl req w k =
     map_option
       (\<lambda>(r, cl', req', res', err', w', k').
         ((case r of
             Inl e \<Rightarrow> Inl e
           | Inr b \<Rightarrow> Inr \<lparr>re_res = (if b then Some res' else None), re_err = err', re_request_headers = rq_headers req'\<rparr>),
          cl', w', k'))
       (Client_send N me cl req newResponse Success w k)"


end
