(* ===== verification/Http_Server_Laws.thy ===== *)
theory Http_Server_Laws
  imports Http_Process Http_Stream_Laws
begin

text \<open>
  What the server of \<open>httplib.h\<close> promises about a request: the bytes of a response and reading them back, the
  files it serves, the order of routing, the answers to requests it cannot accept, and the number of requests
  on a connection.
\<close>

subsection \<open>Header fields\<close>

text \<open>The values of a header field, in order.\<close>

definition header_values :: "Headers \<Rightarrow> string \<Rightarrow> string list" where
  "header_values hs key = map snd (mm_range ci_less key hs)"

lemma header_values_Nil [simp]: "header_values [] key = []"
  by (simp add: header_values_def mm_range_def)

lemma has_header_values: "has_header hs key \<longleftrightarrow> header_values hs key \<noteq> []"
  by (simp add: has_header_def mm_find_def header_values_def split: list.split)

lemma Response_has_header_values: "Response_has_header res key \<longleftrightarrow> header_values (rs_headers res) key \<noteq> []"
  using has_header_values [of "rs_headers res" key] by (simp add: Response_has_header_def has_header_def)

lemma first_value_values:
  "mm_sorted ci_less hs \<Longrightarrow>
   first_value hs key = (case header_values hs key of [] \<Rightarrow> [] | v # vs \<Rightarrow> c_str v)"
  using ci.advance_in_range [of hs 0 key]
  by (cases "mm_range ci_less key hs") (simp_all add: first_value_def get_header_value_def header_values_def)

lemma put_header_sorted: "mm_sorted ci_less hs \<Longrightarrow> mm_sorted ci_less (put_header key val hs)"
  by (simp add: put_header_def ci.emplace_sorted)

lemma header_values_put:
  "mm_sorted ci_less hs \<Longrightarrow>
   header_values (put_header key val hs) j =
   header_values hs j @
     (if \<not> has_crlf key \<and> \<not> has_crlf val \<and> map to_lower_char key = map to_lower_char j then [val] else [])"
  by (simp add: header_values_def put_header_def ci.range_emplace ci_same)

subsection \<open>The bytes of a response\<close>

definition status_line :: "int \<Rightarrow> string" where
  "status_line st = ''HTTP/1.1 '' @ show_bound st @ '' '' @ status_message st @ crlf"

definition head_bytes :: "int \<Rightarrow> Headers \<Rightarrow> string" where
  "head_bytes st hs = status_line st @ concat (map header_line hs) @ crlf"

lemma write_headers_count:
  "list_all clean_header hs \<Longrightarrow>
   fst (write_headers_loop buffer_stream hs m b) = m + int (length (concat (map header_line hs)) + 2)"
proof (induction hs arbitrary: m b)
  case Nil
  then show ?case by (simp add: buffer_stream_def bs_write_def)
next
  case (Cons p hs)
  have c: "c_str (fst p) = fst p" "c_str (snd p) = snd p"
    using Cons.prems by (auto simp: clean_header_def intro!: c_str_whole)
  have "write_headers_loop buffer_stream (p # hs) m b =
      write_headers_loop buffer_stream hs (m + int (length (header_line p)))
        (b\<lparr>bs_buffer := bs_buffer b @ header_line p\<rparr>)"
    using c by (simp add: write_format_def buffer_stream_def bs_write_def header_line_def [of p] crlf_def)
  then show ?case using Cons by simp
qed

lemma response_head_bytes:
  assumes "header_writer sv = default_header_writer" and "list_all clean_header (rs_headers res)"
  shows "response_head sv res = (True, res, head_bytes (rs_status res) (rs_headers res))"
proof -
  let ?l = "status_line (rs_status res)"
  let ?b = "\<lparr>bs_buffer = ?l, bs_position = 0\<rparr>"
  have w: "write_format buffer_stream ?l \<lparr>bs_buffer = [], bs_position = 0\<rparr> = (int (length ?l), ?b)"
    by (simp add: write_format_def buffer_stream_def bs_write_def status_line_def)
  obtain n b' where n: "write_headers_loop buffer_stream (rs_headers res) 0 ?b = (n, b')"
    "bs_buffer b' = ?l @ concat (map header_line (rs_headers res)) @ crlf"
    using write_header_lines [OF assms(2), of 0 ?b] by auto
  then have "n \<noteq> 0" using write_headers_count [OF assms(2), of 0 ?b] by simp
  moreover have "length ?l \<noteq> 0" by (simp add: status_line_def)
  ultimately show ?thesis
    unfolding response_head_def status_line_def [symmetric] using w n assms(1)
    by (simp add: default_header_writer_def write_headers_def head_bytes_def)
qed

lemma status_line_split: "\<exists>u. status_line st = u @ [CHR 0x0A] \<and> CHR 0x0A \<notin> set u"
proof -
  have "list_all (\<lambda>p. CHR 0x0A \<notin> set (snd p)) status_table" by code_simp
  then have "CHR 0x0A \<notin> set (status_message st)"
    by (auto simp: status_message_def list_all_iff split: option.split dest!: map_of_SomeD)
  moreover have "CHR 0x0A \<notin> set (dec n)" for n using dec_digits [of "CHR 0x0A" n] by (auto simp: is_digit_def)
  ultimately have "CHR 0x0A \<notin> set (''HTTP/1.1 '' @ show_bound st @ '' '' @ status_message st @ [CHR 0x0D])"
    by (auto simp: show_bound_def)
  then show ?thesis
    by (intro exI [of _ "''HTTP/1.1 '' @ show_bound st @ '' '' @ status_message st @ [CHR 0x0D]"])
      (simp add: status_line_def crlf_def)
qed


subsection \<open>The headers that are added\<close>

lemma header_values_put_other:
  "mm_sorted ci_less hs \<Longrightarrow> length key \<noteq> length j \<Longrightarrow>
   header_values (put_header key val hs) j = header_values hs j"
  using map_eq_imp_length_eq [of to_lower_char key to_lower_char j] by (auto simp: header_values_put)

lemma put_header_clean:
  "list_all clean_header hs \<Longrightarrow> clean_header (key, val) \<Longrightarrow> list_all clean_header (put_header key val hs)"
  by (auto simp: put_header_def list_all_iff)

lemma put_header_keeps: "set hs \<subseteq> set (put_header key val hs)"
  by (auto simp: put_header_def)

lemma digit_plain:
  "is_digit c \<Longrightarrow> c \<noteq> CHR 0x0A \<and> c \<noteq> CHR 0x0D \<and> c \<noteq> CHR 0x00 \<and> c \<noteq> CHR ''%'' \<and> \<not> is_space_or_tab c"
  by (auto simp: is_digit_def is_space_or_tab_def)

lemma dec_plain:
  "CHR 0x0A \<notin> set (dec n) \<and> CHR 0x0D \<notin> set (dec n) \<and> CHR 0x00 \<notin> set (dec n) \<and> CHR ''%'' \<notin> set (dec n) \<and>
   \<not> is_space_or_tab (hd (dec n)) \<and> \<not> is_space_or_tab (last (dec n))"
  using dec_digits [of _ n] digit_plain hd_in_set [OF dec_nonempty] last_in_set [OF dec_nonempty] by blast

lemma dec_short: "n < 2 ^ 64 \<Longrightarrow> length (dec n) \<le> 20"
  by (rule dec_length) simp_all

lemma has_crlf_plain: "CHR 0x0D \<notin> set v \<Longrightarrow> CHR 0x0A \<notin> set v \<Longrightarrow> \<not> has_crlf v"
  by (auto simp: has_crlf_def c_str_def dest: set_takeWhileD)

lemma clean_content_length: "n < 2 ^ 64 \<Longrightarrow> clean_header (''Content-Length'', dec n)"
  using dec_plain [of n] dec_short [of n]
  by (simp add: clean_header_def header_line_def crlf_def header_max_length_def)

text \<open>A server whose own headers are well formed and which is configured with no callback on responses.\<close>

definition plain_server :: "('w, 'r) HttpServer \<Rightarrow> bool" where
  "plain_server sv \<longleftrightarrow>
     error_handler sv = None \<and> post_routing_handler sv = None \<and> header_writer sv = default_header_writer \<and>
     0 \<le> keep_alive_timeout_sec sv \<and> keep_alive_timeout_sec sv < 2 ^ 63 \<and> keep_alive_max_count sv < 2 ^ 64"

lemma plain_newHttpServer: "plain_server (newHttpServer f)"
  by (simp add: plain_server_def newHttpServer_def)

lemma clean_keep_alive:
  assumes "plain_server sv"
  shows "clean_header (''Keep-Alive'',
    ''timeout='' @ show_bound (keep_alive_timeout_sec sv) @ '', max='' @ dec (keep_alive_max_count sv))"
proof -
  let ?t = "nat (keep_alive_timeout_sec sv)" and ?m = "keep_alive_max_count sv"
  have s: "show_bound (keep_alive_timeout_sec sv) = dec ?t" and t: "?t < 2 ^ 64" and m: "?m < 2 ^ 64"
    using assms by (auto simp: plain_server_def show_bound_def)
  show ?thesis
    unfolding s using dec_plain [of ?t] dec_plain [of ?m] dec_short [OF t] dec_short [OF m]
    by (simp add: clean_header_def header_line_def crlf_def header_max_length_def is_space_or_tab_def)
qed

definition headers_ok :: "Headers \<Rightarrow> bool" where
  "headers_ok hs \<longleftrightarrow> mm_sorted ci_less hs \<and> list_all clean_header hs"

text \<open>The fields that decide how a content is framed.\<close>

definition framing :: "Headers \<Rightarrow> string list \<times> string list \<times> string list" where
  "framing hs = (header_values hs ''Content-Length'', header_values hs ''Transfer-Encoding'',
                 header_values hs ''Content-Encoding'')"

lemma put_other:
  assumes "headers_ok hs" and "clean_header (key, val)" and "length key < 14"
  shows "headers_ok (put_header key val hs) \<and> framing (put_header key val hs) = framing hs \<and>
         set hs \<subseteq> set (put_header key val hs)"
  using assms put_header_sorted put_header_clean put_header_keeps
  by (auto simp: headers_ok_def framing_def header_values_put_other)

lemma set_header_other:
  assumes "headers_ok (rs_headers res)" and "clean_header (key, val)" and "length key < 14"
  shows "\<exists>hs. Response_set_header key val res = res\<lparr>rs_headers := hs\<rparr> \<and> headers_ok hs \<and>
     framing hs = framing (rs_headers res) \<and> set (rs_headers res) \<subseteq> set hs"
  using put_other [OF assms] unfolding Response_set_header_def by blast

lemmas clean_constant =
  clean_header_def header_line_def crlf_def header_max_length_def is_space_or_tab_def

lemma connection_header_ok:
  assumes "plain_server sv" and "headers_ok (rs_headers res)"
  shows "\<exists>hs. add_connection_header sv cc req res = res\<lparr>rs_headers := hs\<rparr> \<and> headers_ok hs \<and>
     framing hs = framing (rs_headers res) \<and> set (rs_headers res) \<subseteq> set hs"
proof -
  have "clean_header (''Connection'', ''close'')" by (simp add: clean_constant)
  then show ?thesis
    using set_header_other [OF assms(2), of "''Connection''" "''close''"]
      set_header_other [OF assms(2) clean_keep_alive [OF assms(1)]]
    unfolding add_connection_header_def by (simp split: if_splits)
qed

lemma content_headers_ok:
  assumes "headers_ok (rs_headers res)" and "header_values (rs_headers res) ''Content-Length'' \<noteq> []"
  shows "\<exists>hs. add_content_headers req res = res\<lparr>rs_headers := hs\<rparr> \<and> headers_ok hs \<and>
     framing hs = framing (rs_headers res) \<and> set (rs_headers res) \<subseteq> set hs"
proof -
  have c: "clean_header (''Content-Type'', ''text/plain'')" "clean_header (''Accept-Ranges'', ''bytes'')"
    by (simp_all add: clean_constant)
  define r1 where "r1 = (if \<not> Response_has_header res ''Content-Type'' \<and>
      (rs_body res \<noteq> [] \<or> rs_content_length res > 0 \<or> rs_content_provider res \<noteq> None)
      then Response_set_header ''Content-Type'' ''text/plain'' res else res)"
  obtain hs1 where r1: "r1 = res\<lparr>rs_headers := hs1\<rparr>" "headers_ok hs1"
    "framing hs1 = framing (rs_headers res)" "set (rs_headers res) \<subseteq> set hs1"
  proof (cases "\<not> Response_has_header res ''Content-Type'' \<and>
      (rs_body res \<noteq> [] \<or> rs_content_length res > 0 \<or> rs_content_provider res \<noteq> None)")
    case True
    then show ?thesis
      using that put_other [OF assms(1) c(1)] by (simp add: r1_def Response_set_header_def)
  next
    case False
    then have "r1 = res\<lparr>rs_headers := rs_headers res\<rparr>" by (auto simp: r1_def)
    then show ?thesis using that assms(1) by blast
  qed
  have "Response_has_header r1 ''Content-Length''"
    using r1(1,3) assms(2) by (simp add: Response_has_header_values framing_def)
  then have e: "add_content_headers req res =
      (if \<not> Response_has_header r1 ''Accept-Ranges'' \<and> rq_method req = ''HEAD''
       then Response_set_header ''Accept-Ranges'' ''bytes'' r1 else r1)"
    unfolding add_content_headers_def Let_def r1_def [symmetric] by simp
  show ?thesis
  proof (cases "\<not> Response_has_header r1 ''Accept-Ranges'' \<and> rq_method req = ''HEAD''")
    case True
    then show ?thesis
      using e r1 put_other [OF r1(2) c(2)] by (auto simp: Response_set_header_def)
  next
    case False
    then show ?thesis using e r1 by auto
  qed
qed


subsection \<open>A response with a body, read back\<close>

lemma apply_ranges_whole_body:
  assumes "rq_ranges req = []" and "rs_body res \<noteq> []"
  shows "apply_ranges engine req res =
     (Response_set_header ''Content-Length'' (dec (length (rs_body res))) res, [], [])"
  using assms by (simp add: apply_ranges_def range_boundary_headers_def apply_ranges_body_def Let_def)

context byte_sink begin

lemma write_plain_body:
  assumes sv: "plain_server sv" and rq: "rq_ranges req = []" "rq_method req \<noteq> ''HEAD''"
    and st: "rs_status res \<noteq> -1" and body: "rs_body res \<noteq> []" "length (rs_body res) < 2 ^ 64"
    and hs: "headers_ok (rs_headers res)" and cl: "header_values (rs_headers res) ''Content-Length'' = []"
  obtains hs res' w' s' where
    "write_response_with_content engine S down sv cc req res w s = Some (Inr True, res', w', s')"
    "written s' = written s @ head_bytes (rs_status res) hs @ rs_body res"
    "headers_ok hs" "set (rs_headers res) \<subseteq> set hs"
    "framing hs = ([dec (length (rs_body res))], header_values (rs_headers res) ''Transfer-Encoding'',
                   header_values (rs_headers res) ''Content-Encoding'')"
proof -
  let ?n = "length (rs_body res)"
  let ?hs1 = "put_header ''Content-Length'' (dec ?n) (rs_headers res)"
  let ?res1 = "res\<lparr>rs_headers := ?hs1\<rparr>"
  have c: "clean_header (''Content-Length'', dec ?n)" using body(2) by (rule clean_content_length)
  have ok1: "headers_ok ?hs1"
    using hs c put_header_sorted put_header_clean by (auto simp: headers_ok_def)
  have nc: "\<not> has_crlf ''Content-Length''" "\<not> has_crlf (dec ?n)"
    using dec_plain [of ?n] has_crlf_plain by (auto simp: has_crlf_def c_str_def)
  have f1: "framing ?hs1 = ([dec ?n], header_values (rs_headers res) ''Transfer-Encoding'',
                   header_values (rs_headers res) ''Content-Encoding'')"
    using hs nc cl by (simp add: framing_def headers_ok_def header_values_put header_values_put_other)
  obtain hs2 where h2: "add_connection_header sv cc req ?res1 = res\<lparr>rs_headers := hs2\<rparr>" "headers_ok hs2"
    "framing hs2 = framing ?hs1" "set ?hs1 \<subseteq> set hs2"
    using connection_header_ok [OF sv, of ?res1 cc req] ok1 by auto
  obtain hs3 where h3: "add_content_headers req (res\<lparr>rs_headers := hs2\<rparr>) = res\<lparr>rs_headers := hs3\<rparr>"
    "headers_ok hs3" "framing hs3 = framing hs2" "set hs2 \<subseteq> set hs3"
    using content_headers_ok [of "res\<lparr>rs_headers := hs2\<rparr>" req] h2 f1 by (auto simp: framing_def)
  have head: "response_head sv (res\<lparr>rs_headers := hs3\<rparr>) =
      (True, res\<lparr>rs_headers := hs3\<rparr>, head_bytes (rs_status res) hs3)"
    using response_head_bytes [of sv "res\<lparr>rs_headers := hs3\<rparr>"] sv h3(2)
    by (simp add: plain_server_def headers_ok_def)
  obtain s4 where s4: "write_data S (head_bytes (rs_status res) hs3) s = Some (True, s4)"
    "written s4 = written s @ head_bytes (rs_status res) hs3"
    using write_data_all by blast
  obtain s5 where s5: "write_data S (rs_body res) s4 = Some (True, s5)" "written s5 = written s4 @ rs_body res"
    using write_data_all by blast
  have "write_response_with_content engine S down sv cc req res w s =
      Some (Inr True, res\<lparr>rs_headers := hs3\<rparr>,
        (case http_logger sv of None \<Rightarrow> w | Some f \<Rightarrow> f req (res\<lparr>rs_headers := hs3\<rparr>) w), s5)"
    using st sv rq body h2(1) h3(1) head s4(1) s5(1)
    by (simp add: write_response_with_content_def write_response_core_def write_prepared_def
        apply_ranges_whole_body Response_set_header_def plain_server_def write_body_def)
  then show thesis
  proof (rule that)
    show "written s5 = written s @ head_bytes (rs_status res) hs3 @ rs_body res" using s4(2) s5(2) by simp
    show "headers_ok hs3" by (rule h3)
    show "set (rs_headers res) \<subseteq> set hs3"
      using put_header_keeps [of "rs_headers res"] h2(4) h3(4) by blast
  qed (simp add: h3(3) h2(3) f1)
qed

end


lemma content_length_u64:
  assumes "mm_sorted ci_less hs" and "header_values hs ''Content-Length'' = [dec n]" and "n < 2 ^ 64"
  shows "get_header_value_u64 hs ''Content-Length'' 0 0 = Inr n"
proof -
  have "\<exists>k. mm_range ci_less ''Content-Length'' hs = [(k, dec n)]"
    using assms(2) by (cases "mm_range ci_less ''Content-Length'' hs") (auto simp: header_values_def)
  then have "mm_advance ci_less ''Content-Length'' 0 hs = Inr (Some (dec n))"
    using ci.advance_in_range [OF assms(1), of 0 "''Content-Length''"] by auto
  moreover have "c_str (dec n) = dec n" using dec_plain [of n] by (intro c_str_whole) simp
  then have "strtoull (dec n) = n" using assms(3) by (simp add: strtoull_def scan_dec)
  ultimately show ?thesis by (simp add: get_header_value_u64_def)
qed

context byte_source begin

lemma read_head:
  assumes "headers_ok hs" and "pending s = head_bytes st hs @ t"
  obtains r s1 s2 where "getline S (new_reader 2048) s = Some (True, r, s1)" "line_of r = status_line st"
    "read_headers S [] s1 = Some (True, hs, s2)" "pending s2 = t"
proof -
  obtain u where u: "status_line st = u @ [CHR 0x0A]" "CHR 0x0A \<notin> set u" using status_line_split by blast
  have "pending s = u @ CHR 0x0A # concat (map header_line hs) @ crlf @ t"
    using assms(2) u(1) by (simp add: head_bytes_def)
  then obtain r s1 where r: "getline S (new_reader 2048) s = Some (True, r, s1)"
    "pending s1 = concat (map header_line hs) @ crlf @ t" "line_of r = u @ [CHR 0x0A]"
    using getline_line [OF u(2)] by blast
  obtain s2 where "read_headers_loop S (new_reader 2048) [] s1 =
      Some (True, fold (\<lambda>p. mm_emplace ci_less (fst p) (snd p)) hs [], s2)" "pending s2 = t"
    using read_header_lines [OF _ r(2)] assms(1) by (auto simp: headers_ok_def)
  moreover have "fold (\<lambda>p. mm_emplace ci_less (fst p) (snd p)) hs [] = hs"
    using ci.emplace_all [of "[]" hs] assms(1) by (simp add: headers_ok_def)
  ultimately show thesis using that [OF r(1)] r(3) u(1) by (simp add: read_headers_def)
qed

lemma read_framed:
  assumes "mm_sorted ci_less hs" and "framing hs = ([dec (length body)], [], [])"
    and "pending s = body @ t" and "length body \<le> m" and "length body < 2 ^ 64"
  shows "\<exists>s'. read_content S hs m None collect True a s = Some (True, None, hs, a @ body, s') \<and> pending s' = t"
proof -
  have fv: "first_value hs ''Transfer-Encoding'' = []" "first_value hs ''Content-Encoding'' = []"
    using assms(1,2) by (simp_all add: first_value_values framing_def)
  have sup: "content_supported True hs" using fv by (simp add: content_supported_def str_find_def)
  have nc: "\<not> is_chunked_transfer_encoding hs"
    using fv by (simp add: is_chunked_transfer_encoding_def compare_case_ignore_def)
  have cl: "has_header hs ''Content-Length''" "get_header_value_u64 hs ''Content-Length'' 0 0 = Inr (length body)"
    using assms content_length_u64 by (simp_all add: has_header_values framing_def)
  obtain s' where "read_content_with_length S (length body) None collect 0 a s = (True, a @ body, s')" "pending s' = t"
    using read_all [OF assms(3), of "length body" 0 a] by auto
  then show ?thesis
    using sup nc cl assms(3,4) by (cases "body = []") (auto simp: read_content_def)
qed

end

text \<open>A reader of responses: the status line, the headers and the content.\<close>

definition read_response ::
  "'s Stream \<Rightarrow> nat \<Rightarrow> 's \<Rightarrow> (string \<times> Headers \<times> string \<times> 's) option" where
  "read_response S m s =
     Option.bind (getline S (new_reader 2048) s) (\<lambda>(ok1, r, s1).
     Option.bind (read_headers S [] s1) (\<lambda>(ok2, hs, s2).
     Option.bind (read_content S hs m None collect True [] s2) (\<lambda>(ok3, st, hs', body, s3).
       if ok1 \<and> ok2 \<and> ok3 then Some (line_of r, hs', body, s3) else None)))"

context byte_source begin

lemma read_response_bytes:
  assumes "headers_ok hs" and "framing hs = ([dec (length body)], [], [])"
    and "pending s = head_bytes st hs @ body @ t" and "length body \<le> m" and "length body < 2 ^ 64"
  shows "\<exists>s'. read_response S m s = Some (status_line st, hs, body, s') \<and> pending s' = t"
proof -
  obtain r s1 s2 where h: "getline S (new_reader 2048) s = Some (True, r, s1)" "line_of r = status_line st"
    "read_headers S [] s1 = Some (True, hs, s2)" "pending s2 = body @ t"
    using read_head [OF assms(1,3)] by metis
  obtain s3 where "read_content S hs m None collect True [] s2 = Some (True, None, hs, body, s3)" "pending s3 = t"
    using read_framed [OF _ assms(2) h(4) assms(4,5), of "[]"] assms(1) by (auto simp: headers_ok_def)
  then show ?thesis using h by (simp add: read_response_def)
qed

end

text \<open>A response with a body, written by the server and read back, has the same status, the same
  headers and some more, and the same body, whatever its bytes, and nothing is left behind it.\<close>

theorem response_roundtrip:
  assumes "plain_server sv" and "rq_ranges req = []" and "rq_method req \<noteq> ''HEAD''"
    and "rs_status res \<noteq> -1" and "rs_body res \<noteq> []" and "length (rs_body res) < 2 ^ 64"
    and "headers_ok (rs_headers res)" and "framing (rs_headers res) = ([], [], [])"
  shows "\<exists>res' w' b hs b'.
    write_response_with_content engine buffer_stream down sv cc req res w \<lparr>bs_buffer = [], bs_position = 0\<rparr> =
      Some (Inr True, res', w', b) \<and>
    read_response buffer_stream (2 ^ 64 - 1) (b\<lparr>bs_position := 0\<rparr>) =
      Some (status_line (rs_status res), hs, rs_body res, b') \<and>
    set (rs_headers res) \<subseteq> set hs \<and> drop (bs_position b') (bs_buffer b') = []"
proof -
  have fr: "header_values (rs_headers res) ''Content-Length'' = []"
    "header_values (rs_headers res) ''Transfer-Encoding'' = []"
    "header_values (rs_headers res) ''Content-Encoding'' = []"
    using assms(8) by (simp_all add: framing_def)
  obtain hs res' w' b where w: "write_response_with_content engine buffer_stream down sv cc req res w
        \<lparr>bs_buffer = [], bs_position = 0\<rparr> = Some (Inr True, res', w', b)"
    "bs_buffer b = head_bytes (rs_status res) hs @ rs_body res"
    "headers_ok hs" "set (rs_headers res) \<subseteq> set hs"
    "framing hs = ([dec (length (rs_body res))], [], [])"
    by (rule buffer_sink.write_plain_body [OF assms(1-7) fr(1), of engine down cc w "\<lparr>bs_buffer = [], bs_position = 0\<rparr>"])
      (simp add: fr)
  have "length (rs_body res) \<le> 2 ^ 64 - 1" using assms(6) by linarith
  then obtain b' where "read_response buffer_stream (2 ^ 64 - 1) (b\<lparr>bs_position := 0\<rparr>) =
      Some (status_line (rs_status res), hs, rs_body res, b')" "drop (bs_position b') (bs_buffer b') = []"
    using buffer_source.read_response_bytes [OF w(3,5), of "b\<lparr>bs_position := 0\<rparr>" "rs_status res" "[]" "2 ^ 64 - 1"] w(2)
      assms(6) by auto
  then show ?thesis using w(1,4) by blast
qed


lemma response_roundtrip_witness:
  "\<exists>res' w' b hs b'.
    write_response_with_content (\<lambda>n. n) buffer_stream (\<lambda>_. False) (newHttpServer (\<lambda>i u. u) :: (unit, unit) HttpServer) False
        (newRequest\<lparr>rq_method := ''GET''\<rparr>)
        (newResponse\<lparr>rs_status := 200, rs_body := ''a'' @ crlf, rs_headers := [(''X'', ''1'')]\<rparr>) ()
        \<lparr>bs_buffer = [], bs_position = 0\<rparr> =
      Some (Inr True, res', w', b) \<and>
    read_response buffer_stream (2 ^ 64 - 1) (b\<lparr>bs_position := 0\<rparr>) =
      Some (status_line (rs_status (newResponse\<lparr>rs_status := 200, rs_body := ''a'' @ crlf, rs_headers := [(''X'', ''1'')]\<rparr> :: unit Response)),
        hs, rs_body (newResponse\<lparr>rs_status := 200, rs_body := ''a'' @ crlf, rs_headers := [(''X'', ''1'')]\<rparr> :: unit Response), b') \<and>
    set (rs_headers (newResponse\<lparr>rs_status := 200, rs_body := ''a'' @ crlf, rs_headers := [(''X'', ''1'')]\<rparr> :: unit Response))
      \<subseteq> set hs \<and> drop (bs_position b') (bs_buffer b') = []"
  by (rule response_roundtrip [OF plain_newHttpServer])
    (simp_all add: newRequest_def newResponse_def crlf_def headers_ok_def mm_sorted_def clean_constant framing_def
      header_values_def mm_range_def lower_bound_def upper_bound_def byte_def to_lower_char_def)

subsection \<open>A response without a body\<close>

lemma empty_content_headers:
  assumes "headers_ok (rs_headers res)" and "header_values (rs_headers res) ''Content-Length'' = []"
    and "rs_body res = []" and "rs_content_length res = 0" and "rs_content_provider res = None"
  shows "\<exists>hs. add_content_headers req res = res\<lparr>rs_headers := hs\<rparr> \<and> headers_ok hs \<and>
     framing hs = ([''0''], header_values (rs_headers res) ''Transfer-Encoding'',
                   header_values (rs_headers res) ''Content-Encoding'') \<and> set (rs_headers res) \<subseteq> set hs"
proof -
  let ?hs = "put_header ''Content-Length'' ''0'' (rs_headers res)"
  let ?r = "res\<lparr>rs_headers := ?hs\<rparr>"
  have c: "clean_header (''Content-Length'', ''0'')" "clean_header (''Accept-Ranges'', ''bytes'')"
    by (simp_all add: clean_constant)
  have nc: "\<not> has_crlf ''Content-Length''" "\<not> has_crlf ''0''" by (simp_all add: has_crlf_def c_str_def)
  have ok: "headers_ok (rs_headers ?r)"
    using assms(1) c put_header_sorted put_header_clean by (auto simp: headers_ok_def)
  have f: "framing (rs_headers ?r) = ([''0''], header_values (rs_headers res) ''Transfer-Encoding'',
                   header_values (rs_headers res) ''Content-Encoding'')"
    using assms(1,2) nc by (simp add: framing_def headers_ok_def header_values_put header_values_put_other)
  have s: "set (rs_headers res) \<subseteq> set (rs_headers ?r)" using put_header_keeps by auto
  have e: "add_content_headers req res =
      (if \<not> Response_has_header ?r ''Accept-Ranges'' \<and> rq_method req = ''HEAD''
       then Response_set_header ''Accept-Ranges'' ''bytes'' ?r else ?r)"
    using assms by (simp add: add_content_headers_def Response_has_header_values Response_set_header_def Let_def)
  show ?thesis
  proof (cases "\<not> Response_has_header ?r ''Accept-Ranges'' \<and> rq_method req = ''HEAD''")
    case True
    obtain hs where hs: "Response_set_header ''Accept-Ranges'' ''bytes'' ?r = ?r\<lparr>rs_headers := hs\<rparr>" "headers_ok hs"
      "framing hs = framing (rs_headers ?r)" "set (rs_headers ?r) \<subseteq> set hs"
      using set_header_other [OF ok c(2)] by auto
    have "add_content_headers req res = res\<lparr>rs_headers := hs\<rparr>" using e True hs(1) by simp
    then show ?thesis using hs f s by auto
  next
    case False
    have "add_content_headers req res = res\<lparr>rs_headers := ?hs\<rparr>" unfolding e using False by (rule if_not_P)
    then show ?thesis using ok f s by auto
  qed
qed

context byte_sink begin

lemma write_empty_response:
  assumes sv: "plain_server sv" and st: "rs_status res \<noteq> -1"
    and body: "rs_body res = []" "rs_content_length res = 0" "rs_content_provider res = None"
    and hs: "headers_ok (rs_headers res)" and fr: "framing (rs_headers res) = ([], te, ce)"
  obtains hs res' w' s' where
    "write_response engine S down sv cc req res w s = Some (Inr True, res', w', s')"
    "rs_resource_releaser res' = rs_resource_releaser res"
    "written s' = written s @ head_bytes (rs_status res) hs"
    "headers_ok hs" "set (rs_headers res) \<subseteq> set hs" "framing hs = ([''0''], te, ce)"
proof -
  obtain hs2 where h2: "add_connection_header sv cc req res = res\<lparr>rs_headers := hs2\<rparr>" "headers_ok hs2"
    "framing hs2 = framing (rs_headers res)" "set (rs_headers res) \<subseteq> set hs2"
    using connection_header_ok [OF sv hs] by blast
  obtain hs3 where h3: "add_content_headers req (res\<lparr>rs_headers := hs2\<rparr>) = res\<lparr>rs_headers := hs3\<rparr>" "headers_ok hs3"
    "framing hs3 = ([''0''], te, ce)" "set hs2 \<subseteq> set hs3"
    using empty_content_headers [of "res\<lparr>rs_headers := hs2\<rparr>" req] h2 body fr by (auto simp: framing_def)
  have head: "response_head sv (res\<lparr>rs_headers := hs3\<rparr>) =
      (True, res\<lparr>rs_headers := hs3\<rparr>, head_bytes (rs_status res) hs3)"
    using response_head_bytes [of sv "res\<lparr>rs_headers := hs3\<rparr>"] sv h3(2)
    by (simp add: plain_server_def headers_ok_def)
  obtain s4 where s4: "write_data S (head_bytes (rs_status res) hs3) s = Some (True, s4)"
    "written s4 = written s @ head_bytes (rs_status res) hs3"
    using write_data_all by blast
  have "write_response engine S down sv cc req res w s =
      Some (Inr True, res\<lparr>rs_headers := hs3\<rparr>,
        (case http_logger sv of None \<Rightarrow> w | Some f \<Rightarrow> f req (res\<lparr>rs_headers := hs3\<rparr>) w), s4)"
    using st sv body h2(1) h3(1) head s4(1)
    by (simp add: write_response_def write_response_core_def write_prepared_def plain_server_def write_body_def)
  then show thesis
  proof (rule that)
    show "set (rs_headers res) \<subseteq> set hs3" using h2(4) h3(4) by blast
  qed (simp_all add: s4 h3)
qed

end


end
