(* ===== verification/Http_Socket_Laws.thy ===== *)
theory Http_Socket_Laws
  imports Http_Socket Http_Server_Laws
begin

text \<open>
  What the stream over a socket promises when the peer is connected: it is a source and a sink of bytes, so
  what is proved of streams holds for it.  The behaviour of the system calls is stated as a predicate on the
  kernel.
\<close>

subsection \<open>A connected socket\<close>

text \<open>A call that is interrupted a few times and then gives a result.\<close>

inductive answers :: "('k \<Rightarrow> 'a sys \<times> 'k) \<Rightarrow> ('a sys \<Rightarrow> 'k \<Rightarrow> bool) \<Rightarrow> 'k \<Rightarrow> bool" for fn P where
  at_once: "fn k = (r, k') \<Longrightarrow> r \<noteq> Inl EINTR \<Longrightarrow> P r k' \<Longrightarrow> answers fn P k"
| interrupted: "fn k = (Inl EINTR, k') \<Longrightarrow> answers fn P k' \<Longrightarrow> answers fn P k"

lemma answers_repeat: "answers fn P k \<Longrightarrow> \<exists>r k'. repeat_call fn k = (r, k') \<and> P r k'"
proof (induction rule: answers.induct)
  case (at_once k r k')
  then show ?case by (simp add: repeat_call_def handle_EINTR.simps)
next
  case (interrupted k k')
  then show ?case by (simp add: repeat_call_def handle_EINTR.simps [of fn k])
qed

text \<open>The bytes on their way to the program and the bytes it has sent: \<open>select\<close> reports data exactly when
  there is some and room always, \<open>recv\<close> gives a part of the data, \<open>send\<close> takes a part of what it is given.\<close>

definition connected :: "('k, 'm) Kernel_scheme \<Rightarrow> nat \<Rightarrow> ('k \<Rightarrow> string) \<Rightarrow> ('k \<Rightarrow> string) \<Rightarrow> bool" where
  "connected K sock inp out \<longleftrightarrow> sock < fd_setsize \<and> (\<forall>k.
     (\<forall>sec usec. answers (sys_select K sock For_reading sec usec)
        (\<lambda>r k'. (\<exists>n. r = Inr n \<and> (n > 0 \<longleftrightarrow> inp k \<noteq> [])) \<and> inp k' = inp k \<and> out k' = out k) k) \<and>
     (\<forall>sec usec. answers (sys_select K sock For_writing sec usec)
        (\<lambda>r k'. (\<exists>n. r = Inr n \<and> n > 0) \<and> inp k' = inp k \<and> out k' = out k) k) \<and>
     (\<forall>n. 0 < n \<and> inp k \<noteq> [] \<longrightarrow> answers (sys_recv K sock n False)
        (\<lambda>r k'. (\<exists>d. r = Inr d \<and> d \<noteq> [] \<and> length d \<le> n \<and> inp k = d @ inp k') \<and> out k' = out k) k) \<and>
     (inp k \<noteq> [] \<longrightarrow> answers (sys_recv K sock 1 True)
        (\<lambda>r k'. (\<exists>d. r = Inr d \<and> d \<noteq> []) \<and> inp k' = inp k \<and> out k' = out k) k) \<and>
     (\<forall>d. d \<noteq> [] \<longrightarrow> answers (sys_send K sock d)
        (\<lambda>r k'. (\<exists>n. r = Inr n \<and> 0 < n \<and> n \<le> length d \<and> out k' = out k @ take n d) \<and> inp k' = inp k) k))"

lemma connected_select_read:
  assumes "connected K sock inp out"
  shows "\<exists>n k'. select_read K sock sec usec k = (Inr n, k') \<and> (n > 0 \<longleftrightarrow> inp k \<noteq> []) \<and> inp k' = inp k \<and> out k' = out k"
proof -
  have "answers (sys_select K sock For_reading sec usec) (\<lambda>r k'. (\<exists>n. r = Inr n \<and> (n > 0 \<longleftrightarrow> inp k \<noteq> [])) \<and> inp k' = inp k \<and> out k' = out k) k"
    using assms unfolding connected_def by blast
  from answers_repeat [OF this] show ?thesis using assms(1) by (auto simp: connected_def select_read_def)
qed

lemma connected_select_write:
  assumes "connected K sock inp out"
  shows "\<exists>n k'. select_write K sock sec usec k = (Inr n, k') \<and> n > 0 \<and> inp k' = inp k \<and> out k' = out k"
proof -
  have "answers (sys_select K sock For_writing sec usec) (\<lambda>r k'. (\<exists>n. r = Inr n \<and> n > 0) \<and> inp k' = inp k \<and> out k' = out k) k"
    using assms unfolding connected_def by blast
  from answers_repeat [OF this] show ?thesis using assms(1) by (auto simp: connected_def select_write_def)
qed

lemma connected_recv:
  assumes "connected K sock inp out" and "0 < n" and "inp k \<noteq> []"
  shows "\<exists>d k'. read_socket K sock n False k = (Inr d, k') \<and> d \<noteq> [] \<and> length d \<le> n \<and> inp k = d @ inp k' \<and> out k' = out k"
proof -
  have "answers (sys_recv K sock n False) (\<lambda>r k'. (\<exists>d. r = Inr d \<and> d \<noteq> [] \<and> length d \<le> n \<and> inp k = d @ inp k') \<and> out k' = out k) k"
    using assms unfolding connected_def by blast
  from answers_repeat [OF this] show ?thesis using assms(1) by (auto simp: connected_def read_socket_def)
qed

lemma connected_peek:
  assumes "connected K sock inp out" and "inp k \<noteq> []"
  shows "\<exists>d k'. read_socket K sock 1 True k = (Inr d, k') \<and> d \<noteq> [] \<and> inp k' = inp k \<and> out k' = out k"
proof -
  have "answers (sys_recv K sock 1 True) (\<lambda>r k'. (\<exists>d. r = Inr d \<and> d \<noteq> []) \<and> inp k' = inp k \<and> out k' = out k) k"
    using assms unfolding connected_def by blast
  from answers_repeat [OF this] show ?thesis using assms(1) by (auto simp: connected_def read_socket_def)
qed

lemma connected_send:
  assumes "connected K sock inp out" and "d \<noteq> []"
  shows "\<exists>n k'. send_socket K sock d k = (Inr n, k') \<and> 0 < n \<and> n \<le> length d \<and> out k' = out k @ take n d \<and> inp k' = inp k"
proof -
  have "answers (sys_send K sock d) (\<lambda>r k'. (\<exists>n. r = Inr n \<and> 0 < n \<and> n \<le> length d \<and> out k' = out k @ take n d) \<and> inp k' = inp k) k"
    using assms unfolding connected_def by blast
  from answers_repeat [OF this] show ?thesis using assms(1) by (auto simp: connected_def send_socket_def)
qed

lemma connected_alive:
  assumes "connected K sock inp out"
  shows "\<exists>k'. is_socket_alive K sock k = (True, k') \<and> inp k' = inp k \<and> out k' = out k"
proof -
  obtain n k1 where s: "select_read K sock 0 0 k = (Inr n, k1)" "n > 0 \<longleftrightarrow> inp k \<noteq> []" "inp k1 = inp k" "out k1 = out k"
    using connected_select_read [OF assms, of 0 0 k] by blast
  show ?thesis
  proof (cases "inp k = []")
    case True
    then show ?thesis using s by (simp add: is_socket_alive_def)
  next
    case False
    then obtain d k2 where "read_socket K sock 1 True k1 = (Inr d, k2)" "d \<noteq> []" "inp k2 = inp k" "out k2 = out k"
      using connected_peek [OF assms, of k1] s(3,4) by auto
    then show ?thesis using s False by (simp add: is_socket_alive_def)
  qed
qed

subsection \<open>The stream is a link of bytes\<close>

definition socket_pending :: "('k \<Rightarrow> string) \<Rightarrow> 'k SocketState \<Rightarrow> string" where
  "socket_pending inp s =
     buff_bytes s (read_buff_off s) (read_buff_content_size s - read_buff_off s) @ inp (kernel s)"

lemma buff_bytes_split: "buff_bytes s i (m + n) = buff_bytes s i m @ buff_bytes s (i + m) n"
proof -
  have "[i..<i + (m + n)] = [i..<i + m] @ [i + m..<i + m + n]"
    using upt_add_eq_append [of i "i + m" n] by (simp add: add.assoc)
  then show ?thesis by (simp add: buff_bytes_def)
qed

lemma buff_bytes_length [simp]: "length (buff_bytes s i n) = n"
  by (simp add: buff_bytes_def)

lemma buff_bytes_0 [simp]: "buff_bytes s i 0 = []"
  by (simp add: buff_bytes_def)

lemma buff_bytes_off [simp]:
  "buff_bytes (s\<lparr>read_buff_off := i\<rparr>) = buff_bytes s"
  "buff_bytes (s\<lparr>read_buff_content_size := i\<rparr>) = buff_bytes s"
  "buff_bytes (s\<lparr>kernel := k\<rparr>) = buff_bytes s"
  by (simp_all add: buff_bytes_def fun_eq_iff)

lemma buff_bytes_stored: "read_buff s = d @ t \<Longrightarrow> i + n \<le> length d \<Longrightarrow> buff_bytes s i n = take n (drop i d)"
  by (rule nth_equalityI) (auto simp: buff_bytes_def nth_append)

lemma ss_is_writable_link:
  assumes "connected K (ss_sock c) inp out"
  shows "\<exists>k. ss_is_writable K c s = (True, s\<lparr>kernel := k\<rparr>) \<and> inp k = inp (kernel s) \<and> out k = out (kernel s)"
proof -
  obtain n k1 where w: "select_write K (ss_sock c) (fst (ss_write_timeout c)) (snd (ss_write_timeout c)) (kernel s) = (Inr n, k1)"
    "n > 0" "inp k1 = inp (kernel s)" "out k1 = out (kernel s)"
    using connected_select_write [OF assms] by blast
  obtain k2 where "is_socket_alive K (ss_sock c) k1 = (True, k2)" "inp k2 = inp k1" "out k2 = out k1"
    using connected_alive [OF assms] by blast
  then show ?thesis using w by (intro exI [of _ k2]) (simp add: ss_is_writable_def positive_def)
qed

lemma ss_is_readable_link:
  assumes "connected K (ss_sock c) inp out"
  shows "\<exists>k. ss_is_readable K c s = (inp (kernel s) \<noteq> [], s\<lparr>kernel := k\<rparr>) \<and> inp k = inp (kernel s) \<and> out k = out (kernel s)"
proof -
  obtain n k1 where "select_read K (ss_sock c) (fst (ss_read_timeout c)) (snd (ss_read_timeout c)) (kernel s) = (Inr n, k1)"
    "n > 0 \<longleftrightarrow> inp (kernel s) \<noteq> []" "inp k1 = inp (kernel s)" "out k1 = out (kernel s)"
    using connected_select_read [OF assms] by blast
  then show ?thesis by (intro exI [of _ k1]) (simp add: ss_is_readable_def positive_def)
qed

lemma ss_receive_link:
  assumes "connected K (ss_sock c) inp out" and "0 < n" and "inp (kernel s) \<noteq> []"
    and "read_buff_off s = 0" and "read_buff_content_size s = 0"
  shows "\<exists>d s'. ss_receive K c n s = (Read_bytes d, s') \<and> d \<noteq> [] \<and> length d \<le> n \<and>
    inp (kernel s) = d @ socket_pending inp s' \<and> out (kernel s') = out (kernel s)"
proof (cases "n < read_buff_size")
  case True
  obtain d k where d: "read_socket K (ss_sock c) read_buff_size False (kernel s) = (Inr d, k)" "d \<noteq> []"
    "inp (kernel s) = d @ inp k" "out k = out (kernel s)"
    using connected_recv [OF assms(1) _ assms(3), of read_buff_size] by (auto simp: read_buff_size_def)
  let ?s = "s\<lparr>kernel := k, read_buff := d @ drop (length d) (read_buff s)\<rparr>"
  have b: "i + m \<le> length d \<Longrightarrow> buff_bytes ?s i m = take m (drop i d)" for i m
    by (rule buff_bytes_stored [of _ _ "drop (length d) (read_buff s)"]) simp_all
  show ?thesis
  proof (cases "length d \<le> n")
    case True
    then show ?thesis
      using \<open>n < read_buff_size\<close> d assms(4,5) b [of 0 "length d"] by (simp add: ss_receive_def socket_pending_def Let_def)
  next
    case False
    then show ?thesis
      using \<open>n < read_buff_size\<close> d assms(2) b [of 0 n] b [of n "length d - n"]
      by (simp add: ss_receive_def socket_pending_def Let_def)
  qed
next
  case False
  obtain d k where d: "read_socket K (ss_sock c) n False (kernel s) = (Inr d, k)" "d \<noteq> []" "length d \<le> n"
    "inp (kernel s) = d @ inp k" "out k = out (kernel s)"
    using connected_recv [OF assms(1-3)] by blast
  then show ?thesis using False assms(4,5) by (simp add: ss_receive_def socket_pending_def)
qed

lemma ss_read_link:
  assumes "connected K (ss_sock c) inp out" and "0 < n" and "socket_pending inp s \<noteq> []"
  shows "\<exists>d s'. ss_read K c n s = (Read_bytes d, s') \<and> d \<noteq> [] \<and> length d \<le> n \<and>
    socket_pending inp s = d @ socket_pending inp s' \<and> out (kernel s') = out (kernel s)"
proof (cases "read_buff_off s < read_buff_content_size s")
  case True
  define m where "m = min (min n (2 ^ 63 - 1)) (read_buff_content_size s - read_buff_off s)"
  have m: "0 < m" "m \<le> n" "read_buff_content_size s - read_buff_off s =
      m + (read_buff_content_size s - (read_buff_off s + m))"
    using True assms(2) by (auto simp: m_def)
  have "ss_read K c n s = (Read_bytes (buff_bytes s (read_buff_off s) m), s\<lparr>read_buff_off := read_buff_off s + m\<rparr>)"
    using True by (simp add: ss_read_def Let_def m_def min_def)
  moreover have "socket_pending inp s =
      buff_bytes s (read_buff_off s) m @ socket_pending inp (s\<lparr>read_buff_off := read_buff_off s + m\<rparr>)"
    using m(3) buff_bytes_split [of s "read_buff_off s" m "read_buff_content_size s - (read_buff_off s + m)"]
    by (simp add: socket_pending_def)
  moreover have "buff_bytes s (read_buff_off s) m \<noteq> []"
    using m(1) buff_bytes_length [of s "read_buff_off s" m] by (metis list.size(3) less_numeral_extra(3))
  ultimately show ?thesis using m(2) by simp
next
  case False
  then have i: "socket_pending inp s = inp (kernel s)" by (simp add: socket_pending_def)
  obtain k where k: "ss_is_readable K c s = (True, s\<lparr>kernel := k\<rparr>)" "inp k = inp (kernel s)" "out k = out (kernel s)"
    using ss_is_readable_link [OF assms(1), of s] assms(3) i by auto
  have "0 < min n (2 ^ 63 - 1)" using assms(2) by simp
  then obtain d s' where "ss_receive K c (min n (2 ^ 63 - 1)) (s\<lparr>kernel := k, read_buff_off := 0, read_buff_content_size := 0\<rparr>) =
      (Read_bytes d, s')" "d \<noteq> []" "length d \<le> min n (2 ^ 63 - 1)"
    "inp k = d @ socket_pending inp s'" "out (kernel s') = out k"
    using ss_receive_link [OF assms(1), of "min n (2 ^ 63 - 1)"
        "s\<lparr>kernel := k, read_buff_off := 0, read_buff_content_size := 0\<rparr>"] k assms(3) i by auto
  then show ?thesis using False k i by (simp add: ss_read_def)
qed

lemma ss_read_end:
  assumes "connected K (ss_sock c) inp out" and "socket_pending inp s = []"
  shows "\<exists>k. ss_read K c n s = (Read_error, s\<lparr>kernel := k\<rparr>) \<and> inp k = [] \<and> out k = out (kernel s)"
proof -
  have "\<not> read_buff_off s < read_buff_content_size s" "inp (kernel s) = []"
    using assms(2) buff_bytes_length [of s "read_buff_off s" "read_buff_content_size s - read_buff_off s"]
    by (auto simp: socket_pending_def)
  then show ?thesis
    using ss_is_readable_link [OF assms(1), of s] by (auto simp: ss_read_def)
qed

lemma ss_write_link:
  assumes "connected K (ss_sock c) inp out" and "d \<noteq> []"
  shows "\<exists>n k. ss_write K c d s = (int n, s\<lparr>kernel := k\<rparr>) \<and> 0 < n \<and> n \<le> length d \<and>
    out k = out (kernel s) @ take n d \<and> inp k = inp (kernel s)"
proof -
  obtain k1 where k1: "ss_is_writable K c s = (True, s\<lparr>kernel := k1\<rparr>)" "inp k1 = inp (kernel s)" "out k1 = out (kernel s)"
    using ss_is_writable_link [OF assms(1)] by blast
  then show ?thesis
    using connected_send [OF assms, of k1] by (auto simp: ss_write_def)
qed

lemma socket_link:
  assumes "connected K (ss_sock c) inp out"
  shows "byte_link (socket_stream K c) (socket_pending inp) (\<lambda>s. out (kernel s))"
proof unfold_locales
  fix n s s' r
  assume n: "0 < n" and r: "read_op (socket_stream K c) n s = (r, s')"
  show "out (kernel s') = out (kernel s)"
  proof (cases "socket_pending inp s = []")
    case True
    then show ?thesis using ss_read_end [OF assms, of s n] r by (auto simp: socket_stream_def)
  next
    case False
    then show ?thesis using ss_read_link [OF assms n, of s] r by (auto simp: socket_stream_def)
  qed
next
  fix n s
  assume "socket_pending inp s = []"
  then show "\<exists>r s'. read_op (socket_stream K c) n s = (r, s') \<and> r \<in> {Read_error, Read_bytes []} \<and> socket_pending inp s' = []"
    using ss_read_end [OF assms, of s n] by (auto simp: socket_stream_def socket_pending_def)
next
  fix n :: nat and s
  assume "0 < n" "socket_pending inp s \<noteq> []"
  then show "\<exists>d s'. read_op (socket_stream K c) n s = (Read_bytes d, s') \<and> d \<noteq> [] \<and> length d \<le> n \<and>
      socket_pending inp s = d @ socket_pending inp s'"
    using ss_read_link [OF assms, of n s] by (auto simp: socket_stream_def)
next
  fix s
  show "\<exists>s'. is_writable (socket_stream K c) s = (True, s') \<and> out (kernel s') = out (kernel s)"
    using ss_is_writable_link [OF assms, of s] by (auto simp: socket_stream_def)
next
  fix d :: string and s
  assume "d \<noteq> []"
  then show "\<exists>n s'. write_op (socket_stream K c) d s = (int n, s') \<and> 0 < n \<and> n \<le> length d \<and>
      out (kernel s') = out (kernel s) @ take n d"
    using ss_write_link [OF assms, of d s] by (auto simp: socket_stream_def)
qed

end
