(* ===== verification/Http_Request_Laws.thy ===== *)
theory Http_Request_Laws
  imports Http_Socket_Laws
begin

text \<open>
  What \<open>process_request\<close> does on a connection: requests that cannot be read are refused with one empty
  response, a well-formed request reaches the routing as it was sent, and the answer of a handler arrives.
\<close>

subsection \<open>What parsing leaves alone\<close>

lemma line_pieces_keep:
  "rq_headers (snd (fold line_piece ps st)) = rq_headers (snd st) \<and>
   rq_ranges (snd (fold line_piece ps st)) = rq_ranges (snd st)"
  by (induction ps arbitrary: st) (auto simp: line_piece_def split: prod.split)

lemma target_pieces_keep:
  "rq_headers (snd (fold target_piece ps st)) = rq_headers (snd st) \<and>
   rq_ranges (snd (fold target_piece ps st)) = rq_ranges (snd st)"
  by (induction ps arbitrary: st) (auto simp: target_piece_def split: prod.split)

lemma request_line_keeps:
  assumes "parse_request_line l req = (ok, r)"
  shows "rq_headers r = rq_headers req \<and> rq_ranges r = rq_ranges req"
proof -
  obtain n1 r1 where r1: "fold line_piece (split (take (length (c_str l) - 2) (c_str l)) (CHR '' '')) (0, req) = (n1, r1)"
    by force
  let ?r2 = "r1\<lparr>rq_target := takeWhile (\<lambda>c. c \<noteq> CHR ''#'') (rq_target r1)\<rparr>"
  obtain n3 r3 where r3: "fold target_piece (split (rq_target ?r2) (CHR ''?'')) (0, ?r2) = (n3, r3)" by force
  have "rq_headers r1 = rq_headers req \<and> rq_ranges r1 = rq_ranges req"
    using line_pieces_keep [of "split (take (length (c_str l) - 2) (c_str l)) (CHR '' '')" "(0, req)"] r1 by simp
  moreover have "rq_headers r3 = rq_headers r1 \<and> rq_ranges r3 = rq_ranges r1"
    using target_pieces_keep [of "split (rq_target ?r2) (CHR ''?'')" "(0, ?r2)"] r3 by simp
  moreover have "r \<in> {req, r1, r3}"
    using assms r1 r3 by (simp add: parse_request_line_def Let_def split: if_splits)
  ultimately show ?thesis by auto
qed

lemma match_keeps:
  "match rx m req = (b, req') \<Longrightarrow>
   rq_method req' = rq_method req \<and> rq_ranges req' = rq_ranges req \<and> rq_headers req' = rq_headers req \<and>
   rq_version req' = rq_version req"
  by (cases m) (auto split: prod.splits option.splits)

lemma dispatch_keeps:
  "dispatch_request rx hs req res w = (r, req', res', w') \<Longrightarrow>
   rq_method req' = rq_method req \<and> rq_ranges req' = rq_ranges req \<and> rq_headers req' = rq_headers req"
proof (induction hs arbitrary: req)
  case Nil
  then show ?case by simp
next
  case (Cons x hs)
  obtain b req1 where m: "match rx (fst x) req = (b, req1)" by force
  show ?case
  proof (cases b)
    case True
    then show ?thesis using Cons.prems m match_keeps [OF m] by (auto split: prod.splits option.splits)
  next
    case False
    then show ?thesis using Cons.prems Cons.IH [of req1] m match_keeps [OF m] by simp
  qed
qed

subsection \<open>Requests that are refused\<close>

text \<open>The bytes of an empty response with a status, its headers being well formed and its length 0.\<close>

definition empty_answer :: "int \<Rightarrow> string \<Rightarrow> bool" where
  "empty_answer st bytes \<longleftrightarrow>
     (\<exists>hs. bytes = head_bytes st hs \<and> headers_ok hs \<and> framing hs = ([''0''], [], []))"

text \<open>A server whose default headers are well formed and do not frame a content.\<close>

definition sound_server :: "('w, 'r) HttpServer \<Rightarrow> bool" where
  "sound_server sv \<longleftrightarrow> plain_server sv \<and> headers_ok (default_headers sv) \<and> framing (default_headers sv) = ([], [], [])"

context byte_link begin

lemma refuse:
  assumes "sound_server sv" and "st \<noteq> -1"
  shows "\<exists>bytes w' s'. leave closed (write_response engine S down sv cc req ((initial_response sv)\<lparr>rs_status := st\<rparr>) w s) =
       Some (Inr True, closed, w', s') \<and> written s' = written s @ bytes \<and> empty_answer st bytes"
proof -
  let ?res = "(initial_response sv)\<lparr>rs_status := st\<rparr>"
  have res: "plain_server sv" "rs_status ?res \<noteq> -1" "rs_body ?res = []" "rs_content_length ?res = 0"
    "rs_content_provider ?res = None" "headers_ok (rs_headers ?res)" "framing (rs_headers ?res) = ([], [], [])"
    using assms by (simp_all add: sound_server_def initial_response_def newResponse_def)
  obtain hs res' w' s' where w: "write_response engine S down sv cc req ?res w s = Some (Inr True, res', w', s')"
    "rs_resource_releaser res' = rs_resource_releaser ?res"
    "written s' = written s @ head_bytes (rs_status ?res) hs" "headers_ok hs" "framing hs = ([''0''], [], [])"
    by (rule write_empty_response [OF res, of engine down cc req w s]) (rule that)
  have "rs_resource_releaser res' = None" using w(2) by (simp add: initial_response_def newResponse_def)
  then show ?thesis using w by (auto simp: leave_def destroyResponse_def empty_answer_def)
qed

lemma refused_line:
  assumes "sound_server sv" and "\<not> socket_too_big env"
    and "pending s = l @ CHR 0x0A # t" and "CHR 0x0A \<notin> set l"
    and "st = (if length l \<ge> request_uri_max_length then 414 else 400)"
    and "length l \<ge> request_uri_max_length \<or> \<not> fst (parse_request_line (l @ [CHR 0x0A]) (newRequest :: 'w Request))"
  shows "\<exists>bytes w' s'. process_request env S (sv :: ('w, 'w HandlerWithContentReader) HttpServer) cc closed prepare w s =
       Some (Inr True, closed, w', s') \<and> written s' = written s @ bytes \<and> empty_answer st bytes"
proof -
  obtain r s1 where g: "getline S (new_reader 2048) s = Some (True, r, s1)" "line_of r = l @ [CHR 0x0A]"
    using getline_line [OF assms(4,3)] by blast
  have w1: "written s1 = written s" using getline_keeps g(1) by blast
  have n: "line_size r = length l + 1" using g(2) by simp
  show ?thesis
  proof (cases "length l \<ge> request_uri_max_length")
    case True
    obtain ok hs s2 where h: "read_headers S [] s1 = Some (ok, hs, s2)"
      using read_headers_returns [of "new_reader 2048" "[]" s1] by (auto simp: read_headers_def)
    have "written s2 = written s" using read_headers_keeps [OF h] w1 by simp
    moreover have "process_request env S sv cc closed prepare w s =
        leave closed (write_response (random_engine env) S (shutting_down env) sv cc newRequest
          ((initial_response sv)\<lparr>rs_status := 414\<rparr>) w s2)"
      using True assms(2) g(1) n h by (simp add: process_request_def)
    ultimately show ?thesis
      using True assms(5) refuse [OF assms(1), where st = 414 and s = s2 and w = w and cc = cc and req = newRequest
          and engine = "random_engine env" and down = "shutting_down env" and closed = closed] by simp
  next
    case False
    then obtain req where "parse_request_line (l @ [CHR 0x0A]) (newRequest :: 'w Request) = (False, req)"
      using assms(6) by (cases "parse_request_line (l @ [CHR 0x0A]) (newRequest :: 'w Request)") auto
    then have "process_request env S sv cc closed prepare w s =
        leave closed (write_response (random_engine env) S (shutting_down env) sv cc req
          ((initial_response sv)\<lparr>rs_status := 400\<rparr>) w s1)"
      using False assms(2) g n by (simp add: process_request_def)
    then show ?thesis
      using w1 False assms(5) refuse [OF assms(1), where st = 400 and s = s1 and w = w and cc = cc and req = req
          and engine = "random_engine env" and down = "shutting_down env" and closed = closed] by simp
  qed
qed

end

subsection \<open>Requests that are read\<close>

text \<open>The bytes of a request without a content.\<close>

definition request_bytes :: "string \<Rightarrow> Headers \<Rightarrow> string" where
  "request_bytes l hs = l @ crlf @ concat (map header_line hs) @ crlf"

text \<open>The request that the routing sees.\<close>

definition received_request :: "('w, 's) Env \<Rightarrow> ('w Request \<Rightarrow> 'w Request) option \<Rightarrow> 'w Request \<Rightarrow> Headers \<Rightarrow> 'w Request" where
  "received_request env prepare req hs =
     (let r = add_peer_headers env (req\<lparr>rq_headers := hs\<rparr>) in case prepare of None \<Rightarrow> r | Some f \<Rightarrow> f r)"

lemma peer_headers_values:
  assumes "mm_sorted ci_less (rq_headers req)" and "length key \<notin> {10, 11}"
  shows "header_values (rq_headers (add_peer_headers env req)) key = header_values (rq_headers req) key"
  using assms by (simp add: add_peer_headers_def Request_set_header_def Let_def header_values_put_other put_header_sorted)

lemma peer_headers_sorted:
  "mm_sorted ci_less (rq_headers req) \<Longrightarrow> mm_sorted ci_less (rq_headers (add_peer_headers env req))"
  by (simp add: add_peer_headers_def Request_set_header_def Let_def put_header_sorted)

lemma peer_headers_rest:
  "rq_ranges (add_peer_headers env req) = rq_ranges req \<and> rq_method (add_peer_headers env req) = rq_method req"
  by (simp add: add_peer_headers_def Request_set_header_def Let_def)

lemma has_header_Range:
  assumes "mm_sorted ci_less (rq_headers req)"
  shows "Request_has_header (add_peer_headers env req) ''Range'' \<longleftrightarrow> header_values (rq_headers req) ''Range'' \<noteq> []"
  using peer_headers_values [OF assms, of "''Range''" env] by (simp add: Request_has_header_def has_header_values)

lemma first_value_peer:
  assumes "mm_sorted ci_less (rq_headers req)" and "length key \<notin> {10, 11}"
  shows "first_value (rq_headers (add_peer_headers env req)) key = first_value (rq_headers req) key"
  using peer_headers_values [OF assms, of env] first_value_values [OF assms(1), of key]
    first_value_values [OF peer_headers_sorted [OF assms(1)], of env key] by simp

context byte_link begin

text \<open>Up to the headers.\<close>

lemma request_read:
  assumes "\<not> socket_too_big env" and "pending s = request_bytes l hs @ t"
    and "CHR 0x0A \<notin> set l" and "length l < request_uri_max_length - 1" and "headers_ok hs"
    and "parse_request_line (l @ crlf) (newRequest :: 'w Request) = (True, req)"
  shows "\<exists>s'. process_request env S (sv :: ('w, 'w HandlerWithContentReader) HttpServer) cc closed prepare w s =
      leave (closed \<or> closes_connection (req\<lparr>rq_headers := hs\<rparr>))
        (serve_request env S sv cc prepare (req\<lparr>rq_headers := hs\<rparr>) w s') \<and>
      pending s' = t \<and> written s' = written s"
proof -
  have "CHR 0x0A \<notin> set (l @ [CHR 0x0D])" using assms(3) by simp
  moreover have "pending s = (l @ [CHR 0x0D]) @ CHR 0x0A # concat (map header_line hs) @ crlf @ t"
    using assms(2) by (simp add: request_bytes_def crlf_def)
  ultimately obtain r s1 where g: "getline S (new_reader 2048) s = Some (True, r, s1)"
    "pending s1 = concat (map header_line hs) @ crlf @ t" "line_of r = (l @ [CHR 0x0D]) @ [CHR 0x0A]"
    using getline_line by blast
  have l: "line_of r = l @ crlf" using g(3) by (simp add: crlf_def)
  then have n: "\<not> line_size r > request_uri_max_length" using assms(4) by (simp add: crlf_def)
  have h0: "rq_headers req = []" using request_line_keeps [OF assms(6)] by (simp add: newRequest_def)
  have "fold (\<lambda>p. mm_emplace ci_less (fst p) (snd p)) hs [] = hs"
    using ci.emplace_all [of "[]" hs] assms(5) by (simp add: headers_ok_def)
  then obtain s2 where h: "read_headers S [] s1 = Some (True, hs, s2)" "pending s2 = t"
    using read_header_lines [OF _ g(2), of "new_reader 2048" "[]"] assms(5) by (auto simp: read_headers_def headers_ok_def)
  have "written s2 = written s" using read_headers_keeps [OF h(1)] getline_keeps [OF g(1)] by simp
  moreover have "process_request env S sv cc closed prepare w s =
      leave (closed \<or> closes_connection (req\<lparr>rq_headers := hs\<rparr>))
        (serve_request env S sv cc prepare (req\<lparr>rq_headers := hs\<rparr>) w s2)"
    using assms(1,6) g(1) l n h(1) h0 by (simp add: process_request_def Let_def)
  ultimately show ?thesis using h(2) by blast
qed

lemma request_routed:
  assumes "\<not> socket_too_big env" and "pending s = request_bytes l hs @ t"
    and "CHR 0x0A \<notin> set l" and "length l < request_uri_max_length - 1" and "headers_ok hs"
    and "parse_request_line (l @ crlf) (newRequest :: 'w Request) = (True, req)"
    and "header_values hs ''Range'' = []"
    and "first_value (rq_headers (received_request env prepare req hs)) ''Expect'' \<noteq> ''100-continue''"
  shows "\<exists>s'. process_request env S (sv :: ('w, 'w HandlerWithContentReader) HttpServer) cc closed prepare w s =
      leave (closed \<or> closes_connection (req\<lparr>rq_headers := hs\<rparr>))
        (route_and_answer env S sv cc (received_request env prepare req hs) (initial_response sv) w s') \<and>
      pending s' = t \<and> written s' = written s"
proof -
  let ?r = "req\<lparr>rq_headers := hs\<rparr>"
  have s: "mm_sorted ci_less (rq_headers ?r)" using assms(5) by (simp add: headers_ok_def)
  have e: "(add_peer_headers env ?r)\<lparr>rq_ranges := rq_ranges (add_peer_headers env ?r)\<rparr> = add_peer_headers env ?r" by simp
  have "\<not> Request_has_header (add_peer_headers env ?r) ''Range''"
    using has_header_Range [OF s, of env] assms(7) by simp
  then have "serve_request env S sv cc prepare ?r w s' =
      route_and_answer env S sv cc (received_request env prepare req hs) (initial_response sv) w s'" for s'
    using assms(8) unfolding serve_request_def expect_and_answer_def received_request_def Let_def
    by (cases prepare) (simp_all add: e)
  then show ?thesis using request_read [OF assms(1-6), of sv cc closed prepare w] by simp
qed

lemma refused_range:
  assumes "sound_server sv" and "\<not> socket_too_big env" and "pending s = request_bytes l hs @ t"
    and "CHR 0x0A \<notin> set l" and "length l < request_uri_max_length - 1" and "headers_ok hs"
    and "parse_request_line (l @ crlf) (newRequest :: 'w Request) = (True, req)"
    and "header_values hs ''Range'' \<noteq> []" and "\<not> fst (parse_range_header (first_value hs ''Range'') [])"
  shows "\<exists>bytes w' s'. process_request env S (sv :: ('w, 'w HandlerWithContentReader) HttpServer) cc closed prepare w s =
       Some (Inr True, closed \<or> closes_connection (req\<lparr>rq_headers := hs\<rparr>), w', s') \<and>
       written s' = written s @ bytes \<and> empty_answer 416 bytes"
proof -
  let ?r = "req\<lparr>rq_headers := hs\<rparr>" and ?a = "add_peer_headers env (req\<lparr>rq_headers := hs\<rparr>)"
  obtain s' where s': "process_request env S sv cc closed prepare w s =
      leave (closed \<or> closes_connection ?r) (serve_request env S sv cc prepare ?r w s')" "written s' = written s"
    using request_read [OF assms(2-7), of sv cc closed prepare w] by blast
  have s: "mm_sorted ci_less (rq_headers ?r)" using assms(6) by (simp add: headers_ok_def)
  have r: "rq_ranges ?a = []"
    using peer_headers_rest [of env ?r] request_line_keeps [OF assms(7)] by (simp add: newRequest_def)
  obtain rs where "parse_range_header (first_value (rq_headers ?a) ''Range'') (rq_ranges ?a) = (False, rs)"
    using assms(9) r first_value_peer [OF s, of "''Range''" env]
    by (cases "parse_range_header (first_value hs ''Range'') []") simp
  moreover have "Request_has_header ?a ''Range''" using has_header_Range [OF s, of env] assms(8) by simp
  ultimately have "serve_request env S sv cc prepare ?r w s' =
      write_response (random_engine env) S (shutting_down env) sv cc (?a\<lparr>rq_ranges := rs\<rparr>)
        ((initial_response sv)\<lparr>rs_status := 416\<rparr>) w s'"
    unfolding serve_request_def Let_def by simp
  then show ?thesis
    using s' refuse [OF assms(1), where st = 416 and s = s' and w = w and cc = cc and req = "?a\<lparr>rq_ranges := rs\<rparr>"
        and engine = "random_engine env" and down = "shutting_down env" and closed = "closed \<or> closes_connection ?r"]
    by simp
qed

end


subsection \<open>The answer of a handler\<close>

definition final_status :: "'w Response \<Rightarrow> int" where
  "final_status res = (if rs_status res = -1 then 200 else rs_status res)"

lemma method_GET_routed:
  assumes "pre_routing_handler sv = None" and "base_dirs sv = []" and "rq_method req = ''GET''"
    and "dispatch_request (regex_match env) (get_handlers sv) req res0 w = (Inr True, req', res, w1)"
  shows "routing env S sv req res0 w s = Some (Inr True, req', res, w1, s)"
  using assms by (simp add: routing_def expect_content_def route_regular_def method_handlers_def as_stop_def)

context byte_link begin

lemma handler_answered:
  assumes "plain_server sv" and "routing env S sv req res0 w s = Some (Inr True, req', res, w1, s1)"
    and "written s1 = written s" and "rq_ranges req' = []" and "rq_method req' \<noteq> ''HEAD''"
    and "rs_body res \<noteq> []" and "length (rs_body res) < 2 ^ 64"
    and "headers_ok (rs_headers res)" and "framing (rs_headers res) = ([], [], [])"
  shows "\<exists>hs w' s'. leave closed (route_and_answer env S sv cc req res0 w s) = Some (Inr True, closed, w', s') \<and>
     written s' = written s @ head_bytes (final_status res) hs @ rs_body res \<and> headers_ok hs \<and>
     set (rs_headers res) \<subseteq> set hs \<and> framing hs = ([dec (length (rs_body res))], [], [])"
proof -
  let ?res = "res\<lparr>rs_status := final_status res\<rparr>"
  have r: "rs_status ?res \<noteq> -1" "rs_body ?res \<noteq> []" "length (rs_body ?res) < 2 ^ 64" "headers_ok (rs_headers ?res)"
    "header_values (rs_headers ?res) ''Content-Length'' = []"
    "header_values (rs_headers ?res) ''Transfer-Encoding'' = []"
    "header_values (rs_headers ?res) ''Content-Encoding'' = []"
    using assms(6-9) by (simp_all add: final_status_def framing_def)
  obtain hs res' w' s' where w: "write_response_with_content (random_engine env) S (shutting_down env) sv cc req' ?res w1 s1 =
      Some (Inr True, res', w', s')" "written s' = written s1 @ head_bytes (rs_status ?res) hs @ rs_body ?res"
    "headers_ok hs" "set (rs_headers ?res) \<subseteq> set hs"
    "framing hs = ([dec (length (rs_body ?res))], header_values (rs_headers ?res) ''Transfer-Encoding'',
       header_values (rs_headers ?res) ''Content-Encoding'')"
    by (rule write_plain_body [OF assms(1,4,5) r(1-5), of "random_engine env" "shutting_down env" cc w1 s1]) (rule that)
  have "(if rs_status res = -1 then res\<lparr>rs_status := (if rq_ranges req' = [] then 200 else 206)\<rparr> else res) = ?res"
    using assms(4) by (simp add: final_status_def)
  then have "route_and_answer env S sv cc req res0 w s = Some (Inr True, res', w', s')"
    using assms(2) w(1) by (simp add: route_and_answer_def answer_def)
  then show ?thesis
    using w(2-5) r assms(3) by (intro exI [of _ hs] exI [of _ "destroyResponse res' w'"] exI [of _ s']) (simp add: leave_def)
qed

lemma get_answered:
  assumes "plain_server sv" and "pre_routing_handler sv = None" and "base_dirs sv = []" and "\<not> socket_too_big env"
    and "pending s = request_bytes l hs @ t" and "CHR 0x0A \<notin> set l" and "length l < request_uri_max_length - 1"
    and "headers_ok hs" and "parse_request_line (l @ crlf) (newRequest :: 'w Request) = (True, req)"
    and "rq_method req = ''GET''" and "header_values hs ''Range'' = []" and "first_value hs ''Expect'' \<noteq> ''100-continue''"
    and "dispatch_request (regex_match env) (get_handlers sv) (received_request env None req hs) (initial_response sv) w =
         (Inr True, req', res, w1)"
    and "rs_body res \<noteq> []" and "length (rs_body res) < 2 ^ 64"
    and "headers_ok (rs_headers res)" and "framing (rs_headers res) = ([], [], [])"
  shows "\<exists>rhs w' s'. process_request env S (sv :: ('w, 'w HandlerWithContentReader) HttpServer) cc closed None w s =
       Some (Inr True, closed \<or> closes_connection (req\<lparr>rq_headers := hs\<rparr>), w', s') \<and>
     written s' = written s @ head_bytes (final_status res) rhs @ rs_body res \<and> headers_ok rhs \<and>
     set (rs_headers res) \<subseteq> set rhs \<and> framing rhs = ([dec (length (rs_body res))], [], [])"
proof -
  let ?r = "req\<lparr>rq_headers := hs\<rparr>" and ?q = "received_request env None req hs"
  have q: "rq_headers ?q = rq_headers (add_peer_headers env ?r)" "rq_method ?q = ''GET''" "rq_ranges ?q = []"
    using peer_headers_rest [of env ?r] assms(10) request_line_keeps [OF assms(9)]
    by (simp_all add: received_request_def newRequest_def)
  have "first_value (rq_headers ?q) ''Expect'' = first_value hs ''Expect''"
    using first_value_peer [of ?r "''Expect''" env] assms(8) q(1) by (simp add: headers_ok_def)
  then obtain s1 where s1: "process_request env S sv cc closed None w s =
      leave (closed \<or> closes_connection ?r) (route_and_answer env S sv cc ?q (initial_response sv) w s1)"
    "written s1 = written s"
    using request_routed [OF assms(4-9) assms(11), where prepare = None and sv = sv and cc = cc and closed = closed and w = w]
      assms(12) by auto
  have k: "rq_method req' = ''GET''" "rq_ranges req' = []" using dispatch_keeps [OF assms(13)] q by simp_all
  have "routing env S sv ?q (initial_response sv) w s1 = Some (Inr True, req', res, w1, s1)"
    using method_GET_routed [OF assms(2,3) q(2) assms(13)] .
  from handler_answered [OF assms(1) this refl k(2) _ assms(14-17), where closed = "closed \<or> closes_connection ?r" and cc = cc]
  show ?thesis using k(1) s1 by simp
qed

end


end
