(* ===== verification/Http_Connection_Properties.thy ===== *)
theory Http_Connection_Properties
  imports Http_Request_Laws Http_Routing_Laws
begin

text \<open>
  Properties of a connection of the server of \<open>httplib.h\<close>, over the stream of a socket whose peer is connected.
\<close>

subsection \<open>A wire\<close>

text \<open>A kernel with one connected socket; each call may be interrupted first.\<close>

record wire =
  wire_in :: string
  wire_out :: string
  interrupts :: nat
  ticks :: int

definition wire_call :: "(wire \<Rightarrow> 'a sys \<times> wire) \<Rightarrow> wire \<Rightarrow> 'a sys \<times> wire" where
  "wire_call f k = (if interrupts k > 0 then (Inl EINTR, k\<lparr>interrupts := interrupts k - 1\<rparr>) else f k)"

definition wire_kernel :: "wire Kernel" where
  "wire_kernel =
     \<lparr>sys_recv = (\<lambda>sock n peek. wire_call (\<lambda>k. (Inr (take n (wire_in k)), if peek then k else k\<lparr>wire_in := drop n (wire_in k)\<rparr>))),
      sys_send = (\<lambda>sock d. wire_call (\<lambda>k. (Inr (length d), k\<lparr>wire_out := wire_out k @ d\<rparr>))),
      sys_select = (\<lambda>sock i sec usec. wire_call (\<lambda>k. (Inr (if i = For_reading \<and> wire_in k = [] then 0 else 1), k))),
      sys_shutdown = (\<lambda>sock k. k), sys_close = (\<lambda>sock k. k),
      sys_clock = (\<lambda>k. (ticks k, k\<lparr>ticks := ticks k + 1\<rparr>)), sys_sleep = (\<lambda>n k. k\<lparr>ticks := ticks k + int n\<rparr>)\<rparr>"

lemma wire_answers:
  "f (k\<lparr>interrupts := 0\<rparr>) = (r, k') \<Longrightarrow> r \<noteq> Inl EINTR \<Longrightarrow> P r k' \<Longrightarrow> answers (wire_call f) P k"
proof (induction "interrupts k" arbitrary: k)
  case 0
  then have "k\<lparr>interrupts := 0\<rparr> = k" by (cases k) simp
  then have "f k = (r, k')" using 0(2) by metis
  moreover have "wire_call f k = f k" using 0(1) by (simp add: wire_call_def)
  ultimately show ?case using 0(3,4) by (intro answers.at_once [of _ k r k']) simp_all
next
  case (Suc n)
  have "answers (wire_call f) P (k\<lparr>interrupts := n\<rparr>)"
    using Suc.hyps(1) [of "k\<lparr>interrupts := n\<rparr>"] Suc.prems by simp
  moreover have "wire_call f k = (Inl EINTR, k\<lparr>interrupts := n\<rparr>)"
    using Suc.hyps(2) [symmetric] by (simp add: wire_call_def)
  ultimately show ?case by (rule answers.interrupted [rotated])
qed

lemma wire_connected: "connected wire_kernel 3 wire_in wire_out"
  unfolding connected_def
proof (intro conjI allI impI)
  fix k :: wire and n sec usec and d :: string
  show "(3 :: nat) < fd_setsize" by (simp add: fd_setsize_def)
  show "answers (sys_select wire_kernel 3 For_reading sec usec)
     (\<lambda>r k'. (\<exists>n. r = Inr n \<and> (n > 0 \<longleftrightarrow> wire_in k \<noteq> [])) \<and> wire_in k' = wire_in k \<and> wire_out k' = wire_out k) k"
    unfolding wire_kernel_def Kernel.simps by (rule wire_answers, rule refl) simp_all
  show "answers (sys_select wire_kernel 3 For_writing sec usec)
     (\<lambda>r k'. (\<exists>n. r = Inr n \<and> n > 0) \<and> wire_in k' = wire_in k \<and> wire_out k' = wire_out k) k"
    unfolding wire_kernel_def Kernel.simps by (rule wire_answers, rule refl) simp_all
  show "answers (sys_recv wire_kernel 3 n False)
     (\<lambda>r k'. (\<exists>d. r = Inr d \<and> d \<noteq> [] \<and> length d \<le> n \<and> wire_in k = d @ wire_in k') \<and> wire_out k' = wire_out k) k"
    if "0 < n \<and> wire_in k \<noteq> []"
    unfolding wire_kernel_def Kernel.simps by (rule wire_answers, rule refl) (use that in simp_all)
  show "answers (sys_recv wire_kernel 3 1 True)
     (\<lambda>r k'. (\<exists>d. r = Inr d \<and> d \<noteq> []) \<and> wire_in k' = wire_in k \<and> wire_out k' = wire_out k) k"
    if "wire_in k \<noteq> []"
    unfolding wire_kernel_def Kernel.simps by (rule wire_answers, rule refl) (use that in simp_all)
  show "answers (sys_send wire_kernel 3 d)
     (\<lambda>r k'. (\<exists>n. r = Inr n \<and> 0 < n \<and> n \<le> length d \<and> wire_out k' = wire_out k @ take n d) \<and> wire_in k' = wire_in k) k"
    if "d \<noteq> []"
    unfolding wire_kernel_def Kernel.simps by (rule wire_answers, rule refl) (use that in simp_all)
qed

subsection \<open>A GET request and its answer\<close>






text \<open>A server with one handler, for the path \<open>/hi\<close>.\<close>

definition hi_env :: "(unit, 's) Env" where
  "hi_env = \<lparr>regex_match = (\<lambda>p s. if p = s then Some [s] else None), is_file = (\<lambda>p w. False), file_bytes = (\<lambda>p w. None),
     file_beyond = (\<lambda>n. CHR 0x00), random_engine = (\<lambda>n. n), shutting_down = (\<lambda>s. False), socket_too_big = False,
     remote_peer = (''127.0.0.1'', 40000), local_peer = (''127.0.0.1'', 80)\<rparr>"

definition hi_server :: "(unit, unit HandlerWithContentReader) HttpServer" where
  "hi_server = (newHttpServer (\<lambda>i u. u))
     \<lparr>get_handlers := [(RegexMatcher ''/hi'', \<lambda>req res w. (None, set_content_string ''hello'' ''text/plain'' res, w))]\<rparr>"

definition hi_socket :: SocketStream where
  "hi_socket = \<lparr>ss_sock = 3, ss_read_timeout = (5, 0), ss_write_timeout = (5, 0)\<rparr>"

definition wire_with :: "string \<Rightarrow> wire SocketState" where
  "wire_with d = newSocketState \<lparr>wire_in = d, wire_out = [], interrupts = 2, ticks = 0\<rparr>"

lemma wire_with_pending: "socket_pending wire_in (wire_with d) = d"
  by (simp add: wire_with_def newSocketState_def socket_pending_def)


lemma wire_hi: "connected wire_kernel (ss_sock hi_socket) wire_in wire_out"
  using wire_connected by (simp add: hi_socket_def)

lemma hi_sound: "sound_server hi_server"
  by (simp add: sound_server_def hi_server_def plain_server_def newHttpServer_def headers_ok_def mm_sorted_def framing_def)

definition hi_request :: "unit Request" where
  "hi_request = newRequest\<lparr>rq_method := ''GET'', rq_target := ''/hi'', rq_version := ''HTTP/1.1'', rq_path := ''/hi''\<rparr>"

lemma hi_line: "parse_request_line (''GET /hi HTTP/1.1'' @ crlf) (newRequest :: unit Request) = (True, hi_request)"
proof -
  have "split ''/hi'' (CHR ''?'') = [''/hi'']" by code_simp
  moreover have "plain_word ''/hi''"
    by (simp add: plain_word_def strip_def lstrip_def is_space_or_tab_def)
  moreover have "decode_url ''/hi'' False = ''/hi''" by code_simp
  ultimately show ?thesis
    using parse_words [of "''GET''" "''/hi''" "''HTTP/1.1''" "newRequest :: unit Request"]
    by (simp add: http_methods_def target_piece_def hi_request_def newRequest_def)
qed






subsection \<open>Requests that are refused\<close>

text \<open>A first line that is too long is answered with 414 and one that is not a request line with 400, each
  with a single empty response, whatever follows it; the call returns and leaves the connection open.\<close>

theorem unreadable_line_refused:
  assumes "connected K (ss_sock c) inp out" and "sound_server sv" and "\<not> socket_too_big env"
    and "socket_pending inp s = l @ CHR 0x0A # t" and "CHR 0x0A \<notin> set l"
    and "st = (if length l \<ge> request_uri_max_length then 414 else 400)"
    and "length l \<ge> request_uri_max_length \<or> \<not> fst (parse_request_line (l @ [CHR 0x0A]) (newRequest :: 'w Request))"
  shows "\<exists>bytes w' s'.
    process_request env (socket_stream K c) (sv :: ('w, 'w HandlerWithContentReader) HttpServer) cc closed prepare w s =
      Some (Inr True, closed, w', s') \<and>
    out (kernel s') = out (kernel s) @ bytes \<and> empty_answer st bytes"
  by (rule byte_link.refused_line [OF socket_link [OF assms(1)] assms(2-7)])

lemma unreadable_line_refused_witness:
  "\<exists>bytes w' s'.
    process_request hi_env (socket_stream wire_kernel hi_socket) hi_server False False None ()
      (wire_with (''GET '' @ replicate 8192 (CHR ''x'') @ CHR 0x0A # ''junk'')) = Some (Inr True, False, w', s') \<and>
    wire_out (kernel s') = wire_out (kernel (wire_with (''GET '' @ replicate 8192 (CHR ''x'') @ CHR 0x0A # ''junk''))) @ bytes \<and>
    empty_answer 414 bytes"
  by (rule unreadable_line_refused [OF wire_hi hi_sound, where l = "''GET '' @ replicate 8192 (CHR ''x'')" and t = "''junk''"])
    (simp_all add: wire_with_pending request_uri_max_length_def hi_env_def)

text \<open>A request whose Range header cannot be read is answered with 416 and one empty response.\<close>

theorem unreadable_range_refused:
  assumes "connected K (ss_sock c) inp out" and "sound_server sv" and "\<not> socket_too_big env"
    and "socket_pending inp s = request_bytes l hs @ t" and "CHR 0x0A \<notin> set l"
    and "length l < request_uri_max_length - 1" and "headers_ok hs"
    and "parse_request_line (l @ crlf) (newRequest :: 'w Request) = (True, req)"
    and "header_values hs ''Range'' \<noteq> []" and "\<not> fst (parse_range_header (first_value hs ''Range'') [])"
  shows "\<exists>bytes w' s'.
    process_request env (socket_stream K c) (sv :: ('w, 'w HandlerWithContentReader) HttpServer) cc closed prepare w s =
      Some (Inr True, closed \<or> closes_connection (req\<lparr>rq_headers := hs\<rparr>), w', s') \<and>
    out (kernel s') = out (kernel s) @ bytes \<and> empty_answer 416 bytes"
  by (rule byte_link.refused_range [OF socket_link [OF assms(1)] assms(2-10)])

lemma unreadable_range_refused_witness:
  "\<exists>bytes w' s'.
    process_request hi_env (socket_stream wire_kernel hi_socket) hi_server False False None ()
      (wire_with (request_bytes ''GET /hi HTTP/1.1'' [(''Range'', ''pages=1'')])) =
      Some (Inr True, False \<or> closes_connection (hi_request\<lparr>rq_headers := [(''Range'', ''pages=1'')]\<rparr>), w', s') \<and>
    wire_out (kernel s') = wire_out (kernel (wire_with (request_bytes ''GET /hi HTTP/1.1'' [(''Range'', ''pages=1'')]))) @ bytes \<and>
    empty_answer 416 bytes"
proof (rule unreadable_range_refused [OF wire_hi hi_sound _ _ _ _ _ hi_line, where t = "[]"])
  let ?h = "[(''Range'', ''pages=1'')]"
  show h: "headers_ok ?h" by (simp add: headers_ok_def mm_sorted_def clean_constant)
  have v: "header_values ?h ''Range'' = [''pages=1'']" by code_simp
  then show "header_values ?h ''Range'' \<noteq> []" by simp
  have "first_value ?h ''Range'' = ''pages=1''"
    using v h by (simp add: first_value_values headers_ok_def c_str_def)
  moreover have "\<not> fst (parse_range_header ''pages=1'' [])" by code_simp
  ultimately show "\<not> fst (parse_range_header (first_value ?h ''Range'') [])" by simp
qed (simp_all add: wire_with_pending request_uri_max_length_def hi_env_def)

subsection \<open>The number of requests on a connection\<close>

text \<open>The callback with a record of the flags it is called with.\<close>

definition noting ::
  "(bool \<Rightarrow> 's \<Rightarrow> ((http_stop + bool) \<times> bool \<times> 's) option) \<Rightarrow>
   bool \<Rightarrow> 's \<times> bool list \<Rightarrow> ((http_stop + bool) \<times> bool \<times> 's \<times> bool list) option" where
  "noting callback flag sf =
     map_option (\<lambda>(r, closed, s'). (r, closed, s', snd sf @ [flag])) (callback flag (fst sf))"

lemma connection_loop_flags:
  "connection_loop (\<lambda>sf. listening (fst sf)) (\<lambda>sf. map_option (\<lambda>(m, s). (m, s, snd sf)) (alive (fst sf)))
     (noting callback) n b (s, fs) = Some (r, s', fs') \<Longrightarrow>
   \<exists>m. fs' = fs @ m \<and> length m \<le> n \<and> (\<forall>i < length m. m ! i \<longleftrightarrow> i = n - 1)"
proof (induction n arbitrary: b s fs)
  case 0
  then show ?case by auto
next
  case (Suc n)
  show ?case
  proof (cases "listening s \<and> (\<exists>s1. alive s = Some (True, s1))")
    case False
    then show ?thesis using Suc.prems by (auto split: if_splits bind_splits)
  next
    case True
    then obtain s1 where s1: "listening s" "alive s = Some (True, s1)" by blast
    then obtain q closed s2 where c: "callback (n = 0) s1 = Some (q, closed, s2)"
      using Suc.prems by (cases "callback (n = 0) s1") (auto simp: noting_def)
    then have k: "noting callback (n = 0) (s1, fs) = Some (q, closed, s2, fs @ [n = 0])" by (simp add: noting_def)
    show ?thesis
    proof (cases "q = Inr True \<and> \<not> closed")
      case True
      then have "connection_loop (\<lambda>sf. listening (fst sf)) (\<lambda>sf. map_option (\<lambda>(m, s). (m, s, snd sf)) (alive (fst sf)))
          (noting callback) n True (s2, fs @ [n = 0]) = Some (r, s', fs')"
        using Suc.prems s1 k by simp
      from Suc.IH [OF this] obtain m where m: "fs' = (fs @ [n = 0]) @ m" "length m \<le> n" "\<forall>i < length m. m ! i \<longleftrightarrow> i = n - 1"
        by blast
      have "\<forall>i < length ((n = 0) # m). ((n = 0) # m) ! i \<longleftrightarrow> i = Suc n - 1"
        using m(2,3) by (auto simp: nth_Cons split: nat.split)
      then show ?thesis using m(1,2) by (intro exI [of _ "(n = 0) # m"]) simp
    next
      case False
      then have "fs' = fs @ [n = 0]"
        using Suc.prems s1 k by (auto split: sum.splits bool.splits if_splits)
      then show ?thesis by (intro exI [of _ "[n = 0]"]) auto
    qed
  qed
qed

text \<open>A connection serves at most as many requests as the server allows, whatever comes in; the last one
  allowed, and no other, is told that the connection is going to be closed.\<close>

theorem connection_bounded:
  assumes "process_server_socket_core (\<lambda>sf. listening (fst sf)) (\<lambda>sf. map_option (\<lambda>(m, s). (m, s, snd sf)) (alive (fst sf)))
     keep_alive_max (noting callback) (s, []) = Some (r, s', flags)"
  shows "length flags \<le> keep_alive_max \<and> flags = map (\<lambda>i. i = keep_alive_max - 1) [0..<length flags]"
proof (cases "keep_alive_max = 0")
  case False
  then show ?thesis
    using assms connection_loop_flags [of listening alive callback keep_alive_max False s "[]" r s' flags]
    by (auto simp: process_server_socket_core_def intro!: nth_equalityI)
qed (use assms in \<open>simp add: process_server_socket_core_def\<close>)

lemma connection_bounded_witness:
  "length [False, True] \<le> (2 :: nat) \<and> [False, True] = map (\<lambda>i. i = 2 - 1) [0..<length [False, True]]"
  by (rule connection_bounded [of "\<lambda>s. True" "\<lambda>s. Some (True, s)" 2 "\<lambda>flag s. Some (Inr True, False, s + 1)" "0 :: nat" "Inr True" 2])
    (simp add: process_server_socket_core_def noting_def numeral_2_eq_2)

subsection \<open>Bytes of the next request\<close>

text \<open>A kernel that hands out everything that has arrived, when there is room for it.\<close>

definition gives_all :: "('k, 'm) Kernel_scheme \<Rightarrow> nat \<Rightarrow> ('k \<Rightarrow> string) \<Rightarrow> bool" where
  "gives_all K sock inp \<longleftrightarrow> (\<forall>k. inp k \<noteq> [] \<and> length (inp k) \<le> read_buff_size \<longrightarrow>
     answers (sys_recv K sock read_buff_size False) (\<lambda>r k'. r = Inr (inp k) \<and> inp k' = []) k)"

lemma read_takes_more:
  assumes "connected K (ss_sock c) inp out" and "gives_all K (ss_sock c) inp"
    and "inp k \<noteq> []" and "length (inp k) \<le> read_buff_size" and "n < read_buff_size"
  shows "\<exists>s'. read_op (socket_stream K c) n (newSocketState k) = (Read_bytes (take n (inp k)), s') \<and>
    socket_pending inp s' = drop n (inp k) \<and> inp (kernel s') = []"
proof -
  let ?s = "newSocketState k"
  obtain k1 where k1: "ss_is_readable K c ?s = (True, ?s\<lparr>kernel := k1\<rparr>)" "inp k1 = inp k"
    using ss_is_readable_link [OF assms(1), of ?s] assms(3) by (auto simp: newSocketState_def)
  have "answers (sys_recv K (ss_sock c) read_buff_size False) (\<lambda>r k'. r = Inr (inp k1) \<and> inp k' = []) k1"
    using assms(2-4) k1(2) unfolding gives_all_def by metis
  from answers_repeat [OF this] obtain k2 where k2:
    "read_socket K (ss_sock c) read_buff_size False k1 = (Inr (inp k), k2)" "inp k2 = []"
    using k1(2) by (auto simp: read_socket_def)
  define bf where "bf = inp k @ drop (length (inp k)) (replicate read_buff_size (CHR 0x00))"
  define t where "t i j = \<lparr>read_buff = bf, read_buff_off = i, read_buff_content_size = j, kernel = k2\<rparr>" for i j
  have b: "i + m \<le> length (inp k) \<Longrightarrow> buff_bytes (t x y) i m = take m (drop i (inp k))" for i m x y
    by (rule buff_bytes_stored [of _ _ "drop (length (inp k)) (replicate read_buff_size (CHR 0x00))"])
      (simp_all add: t_def bf_def)
  have m: "min n 9223372036854775807 = n" using assms(5) by (simp add: read_buff_size_def)
  have e: "read_op (socket_stream K c) n ?s = ss_receive K c n (?s\<lparr>kernel := k1, read_buff_off := 0, read_buff_content_size := 0\<rparr>)"
    using k1(1) by (simp add: socket_stream_def ss_read_def Let_def newSocketState_def m)
  show ?thesis
  proof (cases "length (inp k) \<le> n")
    case True
    then have "read_op (socket_stream K c) n ?s = (Read_bytes (inp k), t 0 0)"
      unfolding e using k2(1) assms(5) b [of 0 "length (inp k)" 0 0]
      by (simp add: ss_receive_def Let_def newSocketState_def t_def bf_def)
    then show ?thesis using True k2(2) by (simp add: socket_pending_def newSocketState_def t_def)
  next
    case False
    then have "read_op (socket_stream K c) n ?s = (Read_bytes (take n (inp k)), t n (length (inp k)))"
      unfolding e using k2(1) assms(5) b [of 0 n 0 0]
      by (simp add: ss_receive_def Let_def newSocketState_def t_def bf_def)
    then show ?thesis using False k2(2) b [of n "length (inp k) - n" n "length (inp k)"]
      by (simp add: socket_pending_def newSocketState_def) (simp add: t_def)
  qed
qed

text \<open>A request that reads once, at most \<open>n\<close> bytes.\<close>

definition read_once ::
  "('k, 'm) Kernel_scheme \<Rightarrow> SocketStream \<Rightarrow> nat \<Rightarrow> 'w \<Rightarrow> 'k SocketState \<Rightarrow> (read_result \<times> bool \<times> 'w \<times> 'k SocketState) option" where
  "read_once K c n w s = (case read_op (socket_stream K c) n s of (r, s') \<Rightarrow> Some (r, False, w, s'))"

text \<open>C30: Two requests of a connection, each on the stream that the loop makes for it.  The first reads \<open>n\<close> bytes of
  those that have arrived, and its stream holds the others: it would give them to a second read.  But the second request
  gets a new stream, and reads nothing: the bytes that the first one did not read are lost.\<close>

theorem buffered_bytes_lost:
  assumes "connected K (ss_sock c) inp out" and "gives_all K (ss_sock c) inp"
    and "n < length (inp k)" and "length (inp k) \<le> read_buff_size" and "0 < m"
  shows "\<exists>s1. read_once K c n w (newSocketState k) = Some (Read_bytes (take n (inp k)), False, w, s1) \<and>
    (\<exists>d s2. read_once K c m w s1 = Some (Read_bytes d, False, w, s2) \<and> d \<noteq> [] \<and> take (length d) (drop n (inp k)) = d) \<and>
    on_new_stream (read_once K c n) (w, k) = Some (Read_bytes (take n (inp k)), False, w, kernel s1) \<and>
    (\<exists>k2. on_new_stream (read_once K c m) (w, kernel s1) = Some (Read_error, False, w, k2))"
proof -
  have ne: "inp k \<noteq> []" "n < read_buff_size" using assms(3,4) by auto
  obtain s1 where s1: "read_op (socket_stream K c) n (newSocketState k) = (Read_bytes (take n (inp k)), s1)"
    "socket_pending inp s1 = drop n (inp k)" "inp (kernel s1) = []"
    using read_takes_more [OF assms(1,2) ne(1) assms(4) ne(2)] by blast
  have first: "read_once K c n w (newSocketState k) = Some (Read_bytes (take n (inp k)), False, w, s1)"
    using s1(1) by (simp add: read_once_def)
  have "socket_pending inp s1 \<noteq> []" using s1(2) assms(3) by simp
  from ss_read_link [OF assms(1,5) this] obtain d s2 where d: "ss_read K c m s1 = (Read_bytes d, s2)" "d \<noteq> []"
    "socket_pending inp s1 = d @ socket_pending inp s2" by blast
  then have "read_once K c m w s1 = Some (Read_bytes d, False, w, s2) \<and> d \<noteq> [] \<and> take (length d) (drop n (inp k)) = d"
    using s1(2) by (simp add: read_once_def socket_stream_def)
  moreover have "socket_pending inp (newSocketState (kernel s1)) = []"
    using s1(3) by (simp add: socket_pending_def newSocketState_def)
  from ss_read_end [OF assms(1) this] obtain k2 where
    "ss_read K c m (newSocketState (kernel s1)) = (Read_error, newSocketState (kernel s1)\<lparr>kernel := k2\<rparr>)" by blast
  then have "on_new_stream (read_once K c m) (w, kernel s1) = Some (Read_error, False, w, k2)"
    by (simp add: on_new_stream_def read_once_def socket_stream_def newSocketState_def)
  moreover have "on_new_stream (read_once K c n) (w, k) = Some (Read_bytes (take n (inp k)), False, w, kernel s1)"
    using first by (simp add: on_new_stream_def)
  ultimately show ?thesis using first by blast
qed

lemma wire_gives_all: "gives_all wire_kernel 3 wire_in"
  unfolding gives_all_def
proof (intro allI impI)
  fix k :: wire
  assume "wire_in k \<noteq> [] \<and> length (wire_in k) \<le> read_buff_size"
  then show "answers (sys_recv wire_kernel 3 read_buff_size False) (\<lambda>r k'. r = Inr (wire_in k) \<and> wire_in k' = []) k"
    unfolding wire_kernel_def Kernel.simps by (intro wire_answers, simp) simp_all
qed

text \<open>Two requests sent in a row: reading the first byte of the first takes the second away.\<close>

lemma buffered_bytes_lost_witness:
  "\<exists>k1 k2. on_new_stream (read_once wire_kernel hi_socket 1)
      ((), \<lparr>wire_in = request_bytes ''GET /hi HTTP/1.1'' [] @ request_bytes ''GET /hi HTTP/1.1'' [],
         wire_out = [], interrupts = 1, ticks = 0\<rparr>) = Some (Read_bytes ''G'', False, (), k1) \<and>
    on_new_stream (read_once wire_kernel hi_socket 1) ((), k1) = Some (Read_error, False, (), k2)"
proof -
  let ?k = "\<lparr>wire_in = request_bytes ''GET /hi HTTP/1.1'' [] @ request_bytes ''GET /hi HTTP/1.1'' [],
         wire_out = [], interrupts = 1, ticks = 0\<rparr>"
  have "gives_all wire_kernel (ss_sock hi_socket) wire_in" using wire_gives_all by (simp add: hi_socket_def)
  from buffered_bytes_lost [OF wire_hi this, of 1 ?k 1 "()"] show ?thesis
    by (auto simp: request_bytes_def crlf_def read_buff_size_def)
qed

subsection \<open>An interim answer that is refused\<close>

text \<open>An expect handler that answers with another status than 100 or 417 and does not set it in the response
  ends in a failed assertion.\<close>

theorem expect_status_asserts:
  assumes "first_value (rq_headers req) ''Expect'' = ''100-continue''"
    and "expect_100_continue_handler sv = Some f" and "f req res w = (status, res', w')"
    and "status \<noteq> 100" and "status \<noteq> 417" and "rs_status res' = -1"
  shows "expect_and_answer env S sv cc req res w s = Some (Inl Assert_failed, res', w', s)"
  using assms by (simp add: expect_and_answer_def write_response_def write_response_core_def)


lemma expect_status_asserts_witness:
  "expect_and_answer hi_env buffer_stream
     (hi_server\<lparr>expect_100_continue_handler := Some (\<lambda>req res w. (401, res, w))\<rparr>) False
     (hi_request\<lparr>rq_headers := [(''Expect'', ''100-continue'')]\<rparr>) newResponse () \<lparr>bs_buffer = [], bs_position = 0\<rparr> =
   Some (Inl Assert_failed, newResponse, (), \<lparr>bs_buffer = [], bs_position = 0\<rparr>)"
proof (rule expect_status_asserts [where status = 401])
  have "header_values [(''Expect'', ''100-continue'')] ''Expect'' = [''100-continue'']" by code_simp
  then show "first_value (rq_headers (hi_request\<lparr>rq_headers := [(''Expect'', ''100-continue'')]\<rparr>)) ''Expect'' = ''100-continue''"
    by (simp add: first_value_values mm_sorted_def c_str_def)
qed (simp_all add: newResponse_def)

subsection \<open>Files of the mount points\<close>

text \<open>The files below a mount point: the path that the kernel gets is the base directory followed by a path that never
  goes above where it starts.  The kernel gets the bytes up to the first NUL, and what counts is the path it gets.\<close>

definition served_path :: "MountPointEntry list \<Rightarrow> string \<Rightarrow> bool" where
  "served_path entries p \<longleftrightarrow>
     (\<exists>mp \<in> set entries. \<exists>sub. CHR 0x00 \<notin> set sub \<and> never_above 0 (components sub) \<and> p = c_str (mp_base_dir mp @ sub))"

lemma parent_not_served:
  "\<not> served_path [\<lparr>mp_mount_point = m, mp_base_dir = ''/srv/www'', mp_headers = hs\<rparr>] ''/srv/www/..''"
proof
  assume "served_path [\<lparr>mp_mount_point = m, mp_base_dir = ''/srv/www'', mp_headers = hs\<rparr>] ''/srv/www/..''"
  then obtain sub where s: "CHR 0x00 \<notin> set sub" "never_above 0 (components sub)" "c_str (''/srv/www'' @ sub) = ''/srv/www/..''"
    by (auto simp: served_path_def)
  then have "sub = ''/..''" by (simp add: c_str_whole)
  then have "components sub = [''..'']" by (simp add: components_def nonempty_def)
  then show False using s(2) by simp
qed














text \<open>The parent of the mount point reaches the kernel.\<close>

lemma nul_hides_parent:
  "is_valid_path (''/..'' @ [CHR 0x00]) = Inr True \<and>
   c_str (file_path \<lparr>mp_mount_point = ''/'', mp_base_dir = ''/srv/www'', mp_headers = []\<rparr> (''/..'' @ [CHR 0x00])) = ''/srv/www/..''"
  by code_simp

end
