(* ===== verification/Http_Client_Laws.thy ===== *)
theory Http_Client_Laws
  imports Http_Client Http_Connection_Properties
begin

text \<open>
  What the client of \<open>httplib.h\<close> promises: the request it writes is the one a server reads, and the response it
  returns is the one the server has written.
\<close>

subsection \<open>A stream with two independent directions\<close>

locale byte_socket = byte_link S pending written
  for S :: "'s Stream" and pending :: "'s \<Rightarrow> string" and written :: "'s \<Rightarrow> string" +
  assumes write_keeps: "d \<noteq> [] \<Longrightarrow> write_op S d s = (n, s') \<Longrightarrow> pending s' = pending s"
    and writable_keeps: "is_writable S s = (b, s') \<Longrightarrow> pending s' = pending s"
begin

lemma write_data_rest_keeps:
  "\<exists>s'. write_data_loop S d i s = Some (True, s') \<and> written s' = written s @ drop i d \<and> pending s' = pending s"
proof (induction "length d - i" arbitrary: i s rule: less_induct)
  case less
  show ?case
  proof (cases "i < length d")
    case True
    then obtain n s' where n: "write_op S (drop i d) s = (int n, s')" "0 < n"
      "written s' = written s @ take n (drop i d)"
      using write_part [of "drop i d" s] by auto
    have p: "pending s' = pending s" using write_keeps [OF _ n(1)] True by simp
    have "length d - (i + n) < length d - i" using n(2) True by simp
    from less.hyps [OF this, of s'] obtain s'' where "write_data_loop S d (i + n) s' = Some (True, s'')"
      "written s'' = written s' @ drop (i + n) d" "pending s'' = pending s'" by blast
    moreover have "take n (drop i d) @ drop (i + n) d = drop i d"
      by (metis add.commute append_take_drop_id drop_drop)
    ultimately show ?thesis using n True p by (subst write_data_loop.simps) simp
  next
    case False
    then show ?thesis by (subst write_data_loop.simps) simp
  qed
qed

lemma write_data_keeps:
  "\<exists>s'. write_data S d s = Some (True, s') \<and> written s' = written s @ d \<and> pending s' = pending s"
  using write_data_rest_keeps [of d 0 s] by (simp add: write_data_def)

end

lemma socket_byte_socket:
  assumes "connected K (ss_sock c) inp out"
  shows "byte_socket (socket_stream K c) (socket_pending inp) (\<lambda>s. out (kernel s))"
proof -
  have p: "inp k = inp (kernel s) \<Longrightarrow> socket_pending inp (s\<lparr>kernel := k\<rparr>) = socket_pending inp s" for k s
    by (simp add: socket_pending_def)
  show ?thesis
  proof (rule byte_socket.intro [OF socket_link [OF assms]], unfold_locales)
    fix d :: string and s n s'
    assume "d \<noteq> []" "write_op (socket_stream K c) d s = (n, s')"
    then show "socket_pending inp s' = socket_pending inp s"
      using ss_write_link [OF assms, of d s] p by (auto simp: socket_stream_def)
  next
    fix s b s'
    assume "is_writable (socket_stream K c) s = (b, s')"
    then show "socket_pending inp s' = socket_pending inp s"
      using ss_is_writable_link [OF assms, of s] p by (auto simp: socket_stream_def)
  qed
qed

interpretation hi_link: byte_socket "socket_stream wire_kernel hi_socket" "socket_pending wire_in" "\<lambda>s. wire_out (kernel s)"
  by (rule socket_byte_socket [OF wire_hi])

subsection \<open>The bytes of a request\<close>

definition request_target :: "('w, 'k) ClientImpl \<Rightarrow> 'w Request \<Rightarrow> string" where
  "request_target cl req = (if url_encode cl then encode_url (rq_path req) else rq_path req)"

definition plain_client :: "('w, 'k) ClientImpl \<Rightarrow> bool" where
  "plain_client cl \<longleftrightarrow> cl_header_writer cl = default_header_writer"

lemma request_head_bytes:
  assumes "plain_client cl" and "list_all clean_header (rq_headers req)"
    and "CHR 0x00 \<notin> set (rq_method req)" and "CHR 0x00 \<notin> set (request_target cl req)"
  shows "request_head cl req =
    (req, request_bytes (rq_method req @ '' '' @ request_target cl req @ '' HTTP/1.1'') (rq_headers req))"
proof -
  let ?l = "rq_method req @ '' '' @ request_target cl req @ '' HTTP/1.1'' @ crlf"
  let ?b = "\<lparr>bs_buffer = ?l, bs_position = 0\<rparr>"
  have c: "c_str (rq_method req) = rq_method req" "c_str (request_target cl req) = request_target cl req"
    using assms(3,4) by (auto intro: c_str_whole)
  obtain n b' where n: "write_headers_loop buffer_stream (rq_headers req) 0 ?b = (n, b')"
    "bs_buffer b' = ?l @ concat (map header_line (rq_headers req)) @ crlf"
    using write_header_lines [OF assms(2), of 0 ?b] by auto
  show ?thesis
    unfolding request_head_def Let_def request_target_def [symmetric] c
    using n assms(1)
    by (simp add: plain_client_def default_header_writer_def write_headers_def request_bytes_def write_format_def
        buffer_stream_def bs_write_def)
qed

subsection \<open>The status line\<close>

lemma three_digits: "100 \<le> n \<Longrightarrow> n < 1000 \<Longrightarrow> length (dec n) = 3"
  by (simp add: dec.simps [of n] dec.simps [of "n div 10"] dec.simps [of "n div 10 div 10"]) linarith

lemma status_message_line:
  assumes "c \<in> set (status_message st)"
  shows "c \<noteq> CHR 0x0A \<and> c \<noteq> CHR 0x0D \<and> c \<noteq> CHR 0x00"
proof -
  have t: "list_all (\<lambda>p. list_all (\<lambda>c. c \<noteq> CHR 0x0A \<and> c \<noteq> CHR 0x0D \<and> c \<noteq> CHR 0x00) (snd p)) status_table" by code_simp
  show ?thesis
  proof (cases "map_of status_table st")
    case None
    have "status_message st = ''Internal Server Error''" using None by (simp add: status_message_def)
    then show ?thesis using assms by auto
  next
    case (Some m)
    then have "status_message st = m" "(st, m) \<in> set status_table"
      by (simp_all add: status_message_def map_of_SomeD)
    then show ?thesis using assms t unfolding list_all_iff by fastforce
  qed
qed

lemma match_status_line_written:
  assumes "100 \<le> st" and "st < 1000"
  shows "match_status_line (status_line st) = Some (''HTTP/1.1'', st, status_message st)"
proof -
  let ?d = "dec (nat st)" and ?m = "status_message st"
  have d: "length ?d = 3" using assms by (intro three_digits) simp_all
  have s: "status_line st = ''HTTP/1.1 '' @ ?d @ '' '' @ ?m @ crlf"
    using assms by (simp add: status_line_def show_bound_def)
  have t: "take 8 (status_line st) = ''HTTP/1.1''" "take 1 (drop 8 (status_line st)) = '' ''"
    "take 3 (drop 9 (status_line st)) = ?d" "drop 12 (status_line st) = '' '' @ ?m @ crlf"
    using d by (simp_all add: s)
  have n: "status_number ?d = st" using assms stoi_dec [of "nat st"] by (simp add: status_number_def)
  have m: "list_all (\<lambda>c. c \<noteq> CHR 0x0D \<and> c \<noteq> CHR 0x0A) ?m" using status_message_line by (auto simp: list_all_iff)
  have g: "list_all is_digit ?d" using dec_digits by (auto simp: list_all_iff)
  have "'' '' @ ?m @ crlf \<noteq> crlf" by (simp add: crlf_def)
  then show ?thesis
    unfolding match_status_line_def Let_def t using d n m g by (simp add: crlf_def)
qed


subsection \<open>A request and its response\<close>

text \<open>A request without content and callbacks.\<close>

definition bare_request :: "'w Request \<Rightarrow> bool" where
  "bare_request req \<longleftrightarrow>
     rq_body req = [] \<and> rq_content_provider req = None \<and> rq_content_length req = 0 \<and> \<not> rq_is_chunked req \<and>
     response_handler req = None \<and> content_receiver req = None \<and> rq_progress req = None"

lemma insert_missing_header_rest:
  "rq_body (insert_missing_header b kv req) = rq_body req"
  "bare_request (insert_missing_header b kv req) = bare_request req"
  "rq_method (insert_missing_header b kv req) = rq_method req"
  "rq_path (insert_missing_header b kv req) = rq_path req"
  by (simp_all add: insert_missing_header_def bare_request_def)

lemma set_header_rest:
  "rq_body (Request_set_header key v req) = rq_body req"
  "bare_request (Request_set_header key v req) = bare_request req"
  "rq_method (Request_set_header key v req) = rq_method req"
  "rq_path (Request_set_header key v req) = rq_path req"
  "rq_content_provider (Request_set_header key v req) = rq_content_provider req"
  by (simp_all add: Request_set_header_def bare_request_def)

lemma set_missing_header_rest:
  "rq_body (set_missing_header key v req) = rq_body req"
  "bare_request (set_missing_header key v req) = bare_request req"
  "rq_method (set_missing_header key v req) = rq_method req"
  "rq_path (set_missing_header key v req) = rq_path req"
  "rq_content_provider (set_missing_header key v req) = rq_content_provider req"
  by (simp_all add: set_missing_header_def set_header_rest)

lemma prepare_request_rest:
  "bare_request (prepare_request cl cc req) = bare_request req"
  "rq_method (prepare_request cl cc req) = rq_method req"
  "rq_path (prepare_request cl cc req) = rq_path req"
  by (simp_all add: prepare_request_def add_authentication_def add_body_headers_def Let_def insert_missing_header_rest
      set_missing_header_rest set_header_rest)

context byte_socket begin

lemma bare_request_written:
  assumes "plain_client cl" and "bare_request req"
    and "hs = rq_headers (prepare_request cl cc req)" and "list_all clean_header hs"
    and "CHR 0x00 \<notin> set (rq_method req)" and "CHR 0x00 \<notin> set (request_target cl req)"
  shows "\<exists>s'. write_request S cl req cc err w s = Some (Inr True, prepare_request cl cc req, Success, w, s') \<and>
    written s' = written s @ request_bytes (rq_method req @ '' '' @ request_target cl req @ '' HTTP/1.1'') hs \<and>
    pending s' = pending s"
proof -
  let ?r = "prepare_request cl cc req"
  have t: "request_target cl ?r = request_target cl req" by (simp add: request_target_def prepare_request_rest)
  have b: "bare_request ?r" using assms(2) by (simp add: prepare_request_rest)
  obtain s1 where s1: "write_data S (request_bytes (rq_method req @ '' '' @ request_target cl req @ '' HTTP/1.1'') hs) s = Some (True, s1)"
    "written s1 = written s @ request_bytes (rq_method req @ '' '' @ request_target cl req @ '' HTTP/1.1'') hs"
    "pending s1 = pending s"
    using write_data_keeps by blast
  have "request_head cl ?r = (?r, request_bytes (rq_method req @ '' '' @ request_target cl req @ '' HTTP/1.1'') hs)"
    using request_head_bytes [OF assms(1), of ?r] assms(3-6) t by (simp add: prepare_request_rest)
  then show ?thesis
    using s1 b by (simp add: write_request_def bare_request_def Client_write_content_with_provider_def)
qed

end

text \<open>The receiver of the client keeps what it gets, like \<open>collect\<close>, up to the largest string.\<close>

lemma collect_reads:
  assumes "\<And>m s x s1. 0 < m \<Longrightarrow> read_op S m s = (x, s1) \<Longrightarrow> f s1 = f s"
  shows "read_content_with_length S n None collect r a s = (ok, b, s') \<Longrightarrow> length a \<le> length b \<and> f s' = f s"
proof (induction "n - r" arbitrary: r a s rule: less_induct)
  case less
  show ?case
  proof (cases "r < n")
    case True
    obtain x s1 where x: "read_op S (min (n - r) recv_bufsiz) s = (x, s1)" by force
    have f: "f s1 = f s" using assms [OF _ x] True by (simp add: recv_bufsiz_def)
    show ?thesis
    proof (cases "\<exists>d. x = Read_bytes d \<and> d \<noteq> []")
      case True
      then obtain d where d: "x = Read_bytes d" "d \<noteq> []" by blast
      then have "read_content_with_length S n None collect (r + length d) (a @ d) s1 = (ok, b, s')"
        using less.prems x \<open>r < n\<close> by (subst (asm) read_content_with_length.simps) (simp add: collect_def)
      from less.hyps [OF _ this] show ?thesis using \<open>r < n\<close> d(2) f by (simp add: diff_less_mono2)
    next
      case False
      then show ?thesis using less.prems x f \<open>r < n\<close>
        by (subst (asm) read_content_with_length.simps) (cases x; auto)
    qed
  next
    case False
    then show ?thesis using less.prems by (subst (asm) read_content_with_length.simps) simp
  qed
qed

lemma client_collects:
  assumes "bare_request req"
  shows "read_content_with_length S n None collect r a s = (True, b, s') \<Longrightarrow> length b \<le> string_max_size \<Longrightarrow>
   read_content_with_length S n (Some (client_progress req red)) (client_receiver req red) r
     \<lparr>cr_body = a, cr_error = e, cr_world = w\<rparr> s = (True, \<lparr>cr_body = b, cr_error = e, cr_world = w\<rparr>, s')"
proof (induction "n - r" arbitrary: r a s rule: less_induct)
  case less
  show ?case
  proof (cases "r < n")
    case True
    obtain d s1 where d: "read_op S (min (n - r) recv_bufsiz) s = (Read_bytes d, s1)" "d \<noteq> []"
      using less.prems(1) True
      by (subst (asm) read_content_with_length.simps) (auto split: read_result.splits prod.splits if_splits)
    then have c: "read_content_with_length S n None collect (r + length d) (a @ d) s1 = (True, b, s')"
      using less.prems(1) True by (subst (asm) read_content_with_length.simps) (simp add: collect_def)
    have "length a + length d \<le> string_max_size" using collect_reads [of S "\<lambda>s. ()", OF _ c] less.prems(2) by simp
    moreover have "n - (r + length d) < n - r" using True d(2) by (simp add: diff_less_mono2)
    ultimately show ?thesis
      using less.hyps [OF _ c less.prems(2)] True d assms
      by (subst read_content_with_length.simps)
        (simp add: client_receiver_def client_progress_def bare_request_def)
  next
    case False
    then show ?thesis using less.prems
      by (subst (asm) read_content_with_length.simps, subst read_content_with_length.simps) simp
  qed
qed

context byte_socket begin

lemma content_received:
  assumes "bare_request req" and "headers_ok hs" and "framing hs = ([dec (length body)], [], [])"
    and "pending s = body @ t" and "length body \<le> string_max_size" and "rs_body res = []" and "rs_headers res = hs"
  shows "\<exists>s'. receive_content S cl req res e w s = Some (True, res\<lparr>rs_body := body\<rparr>, e, w, s') \<and> pending s' = t \<and>
    written s' = written s"
proof -
  let ?red = "is_redirect cl res" and ?v = "\<lparr>cr_body = [], cr_error = e, cr_world = w\<rparr>"
  have srt: "mm_sorted ci_less hs" using assms(2) by (simp add: headers_ok_def)
  have fv: "first_value hs ''Transfer-Encoding'' = []" "first_value hs ''Content-Encoding'' = []"
    using srt assms(3) by (simp_all add: first_value_values framing_def)
  have sup: "content_supported b hs" for b using fv by (simp add: content_supported_def str_find_def)
  have nc: "\<not> is_chunked_transfer_encoding hs"
    using fv by (simp add: is_chunked_transfer_encoding_def compare_case_ignore_def)
  have l64: "length body \<le> 18446744073709551615" using assms(5) by (simp add: string_max_size_def)
  then have cl: "has_header hs ''Content-Length''" "get_header_value_u64 hs ''Content-Length'' 0 0 = Inr (length body)"
    using assms(3) srt content_length_u64 [of hs "length body"] by (simp_all add: has_header_values framing_def)
  obtain s' where r: "read_content_with_length S (length body) None collect 0 [] s = (True, body, s')" "pending s' = t"
    using read_all [OF assms(4), of "length body" 0 "[]"] by auto
  have w: "written s' = written s" using collect_reads [of S written, OF read_keeps r(1)] by simp
  have "read_content S hs (2 ^ 64 - 1) (Some (client_progress req ?red)) (client_receiver req ?red) (cl_decompress cl) ?v s =
      Some (True, None, hs, \<lparr>cr_body = body, cr_error = e, cr_world = w\<rparr>, s') \<or> body = [] \<and>
    read_content S hs (2 ^ 64 - 1) (Some (client_progress req ?red)) (client_receiver req ?red) (cl_decompress cl) ?v s =
      Some (True, None, hs, ?v, s)"
    using sup nc cl l64 client_collects [OF assms(1) r(1) assms(5)] by (cases "body = []") (simp_all add: read_content_def)
  then show ?thesis
    using assms(1,4,6,7) r(2) w by (auto simp: receive_content_def Let_def bare_request_def)
qed

lemma response_line_read:
  assumes "getline S (new_reader 2048) s = Some (True, r, s1)" and "line_of r = status_line st"
    and "100 < st" and "st < 1000"
  shows "read_response_line S req res s =
    Some (True, res\<lparr>rs_version := ''HTTP/1.1'', rs_status := st, rs_reason := status_message st\<rparr>, s1)"
proof -
  have "CHR 0x00 \<notin> set (status_line st)"
    using status_message_line dec_plain [of "nat st"] assms(3) by (auto simp: status_line_def show_bound_def crlf_def)
  then have "c_str (line_of r) = status_line st" using assms(2) by (simp add: c_str_whole)
  then show ?thesis
    using assms match_status_line_written [of st]
    by (simp add: read_response_line_def set_status_line_def skip_continue.simps)
qed

lemma exchanged:
  assumes "plain_client cl" and "cl_logger cl = None" and "bare_request (req :: 'w Request)"
    and "hs = rq_headers (prepare_request cl cc req)" and "list_all clean_header hs"
    and "CHR 0x00 \<notin> set (rq_method req)" and "CHR 0x00 \<notin> set (request_target cl req)"
    and "rq_method req \<noteq> ''HEAD''" and "rq_method req \<noteq> ''CONNECT''"
    and "pending s = head_bytes st rhs @ body @ t" and "100 < st" and "st < 1000" and "st \<noteq> 204"
    and "headers_ok rhs" and "framing rhs = ([dec (length body)], [], [])" and "length body \<le> string_max_size"
  shows "\<exists>res' s'. Client_process_request S cl req newResponse cc err w s =
      Some (Inr True, prepare_request cl cc req, res', Success, w, s') \<and>
    written s' = written s @ request_bytes (rq_method req @ '' '' @ request_target cl req @ '' HTTP/1.1'') hs \<and>
    rs_status res' = st \<and> rs_reason res' = status_message st \<and> rs_body res' = body \<and> rs_headers res' = rhs \<and> pending s' = t"
proof -
  let ?r = "prepare_request cl cc req" and ?l = "rq_method req @ '' '' @ request_target cl req @ '' HTTP/1.1''"
  obtain s1 where s1: "write_request S cl req cc err w s = Some (Inr True, ?r, Success, w, s1)"
    "written s1 = written s @ request_bytes ?l hs" "pending s1 = pending s"
    using bare_request_written [OF assms(1,3-7)] by blast
  have "pending s1 = head_bytes st rhs @ body @ t" using s1(3) assms(10) by simp
  then obtain r s2 s3 where g: "getline S (new_reader 2048) s1 = Some (True, r, s2)" "line_of r = status_line st"
    "read_headers S [] s2 = Some (True, rhs, s3)" "pending s3 = body @ t"
    using read_head [OF assms(14)] by metis
  have k: "written s3 = written s1" using getline_keeps [OF g(1)] read_headers_keeps [OF g(3)] by simp
  let ?res = "newResponse\<lparr>rs_version := ''HTTP/1.1'', rs_status := st, rs_reason := status_message st, rs_headers := rhs\<rparr> :: 'w Response"
  have b: "bare_request ?r" using assms(3) by (simp add: prepare_request_rest)
  have rr: "read_response_line S ?r newResponse s1 =
      Some (True, newResponse\<lparr>rs_version := ''HTTP/1.1'', rs_status := st, rs_reason := status_message st\<rparr>, s2)"
    by (rule response_line_read [OF g(1,2) assms(11,12)])
  obtain s4 where s4: "receive_content S cl ?r ?res Success w s3 = Some (True, ?res\<lparr>rs_body := body\<rparr>, Success, w, s4)"
    "pending s4 = t" "written s4 = written s3"
    using content_received [OF b assms(14,15) g(4) assms(16), of ?res cl Success w] by (auto simp: newResponse_def)
  have h: "rs_headers (newResponse\<lparr>rs_version := ''HTTP/1.1'', rs_status := st, rs_reason := status_message st\<rparr> :: 'w Response) = []"
    by (simp add: newResponse_def)
  have "Client_process_request S cl req newResponse cc err w s =
      Some (Inr True, ?r, ?res\<lparr>rs_body := body\<rparr>, Success, w, s4)"
    using s1(1) rr g(3) s4(1) h assms(2,8,9,13)
    by (simp add: Client_process_request_def Let_def prepare_request_rest log_response_def)
  then show ?thesis using s1(2) k s4(2,3) by simp
qed

end

subsection \<open>Client and server together\<close>









end
