(* ===== verification/Http_Client_Api.thy ===== *)
theory Http_Client_Api
  imports Http_Client Http_Query
begin

text \<open>
  The calls an application makes on the HTTP client of \<open>httplib.h\<close>: the methods with their contents, the
  settings, and \<open>stop\<close>.  An overload that only supplies default arguments is the definition with these arguments.
\<close>

subsection \<open>Requests without a content\<close>

type_synonym ('w, 'k) call = "((http_stop + 'w Result) \<times> ('w, 'k) ClientImpl \<times> 'w \<times> 'k) option"

definition Client_Get ::
  "('k, 'm) Net_scheme \<Rightarrow> nat \<Rightarrow> ('w, 'k) ClientImpl \<Rightarrow> string \<Rightarrow> Headers \<Rightarrow>
   (nat \<Rightarrow> nat \<Rightarrow> 'w \<Rightarrow> bool \<times> 'w) option \<Rightarrow> 'w \<Rightarrow> 'k \<Rightarrow> ('w, 'k) call" where
  "Client_Get N me cl path headers progress =
     Client_send_request N me cl
       (newRequest\<lparr>rq_method := ''GET'', rq_path := path, rq_headers := headers, rq_progress := progress\<rparr>)"

text \<open>The content goes to a receiver.\<close>

definition Client_Get_receiver ::
  "('k, 'm) Net_scheme \<Rightarrow> nat \<Rightarrow> ('w, 'k) ClientImpl \<Rightarrow> string \<Rightarrow> Headers \<Rightarrow>
   ('w Response \<Rightarrow> 'w \<Rightarrow> bool \<times> 'w) option \<Rightarrow> (string \<Rightarrow> 'w \<Rightarrow> bool \<times> 'w) \<Rightarrow>
   (nat \<Rightarrow> nat \<Rightarrow> 'w \<Rightarrow> bool \<times> 'w) option \<Rightarrow> 'w \<Rightarrow> 'k \<Rightarrow> ('w, 'k) call" where
  "Client_Get_receiver N me cl path headers handler receiver progress =
     Client_send_request N me cl
       (newRequest\<lparr>rq_method := ''GET'', rq_path := path, rq_headers := headers, response_handler := handler,
          content_receiver := Some (\<lambda>d offset len. receiver d), rq_progress := progress\<rparr>)"

text \<open>Without parameters the progress is dropped.\<close>

definition Client_Get_params ::
  "('k, 'm) Net_scheme \<Rightarrow> nat \<Rightarrow> ('w, 'k) ClientImpl \<Rightarrow> string \<Rightarrow> Params \<Rightarrow> Headers \<Rightarrow>
   (nat \<Rightarrow> nat \<Rightarrow> 'w \<Rightarrow> bool \<times> 'w) option \<Rightarrow> 'w \<Rightarrow> 'k \<Rightarrow> ('w, 'k) call" where
  "Client_Get_params N me cl path params headers progress =
     (if params = [] then Client_Get N me cl path headers None
      else Client_Get N me cl (c_str (append_query_params path params)) headers progress)"

definition Client_Get_params_receiver ::
  "('k, 'm) Net_scheme \<Rightarrow> nat \<Rightarrow> ('w, 'k) ClientImpl \<Rightarrow> string \<Rightarrow> Params \<Rightarrow> Headers \<Rightarrow>
   ('w Response \<Rightarrow> 'w \<Rightarrow> bool \<times> 'w) option \<Rightarrow> (string \<Rightarrow> 'w \<Rightarrow> bool \<times> 'w) \<Rightarrow>
   (nat \<Rightarrow> nat \<Rightarrow> 'w \<Rightarrow> bool \<times> 'w) option \<Rightarrow> 'w \<Rightarrow> 'k \<Rightarrow> ('w, 'k) call" where
  "Client_Get_params_receiver N me cl path params headers handler receiver progress =
     Client_Get_receiver N me cl (if params = [] then path else c_str (append_query_params path params)) headers
       handler receiver progress"

definition Client_Head ::
  "('k, 'm) Net_scheme \<Rightarrow> nat \<Rightarrow> ('w, 'k) ClientImpl \<Rightarrow> string \<Rightarrow> Headers \<Rightarrow> 'w \<Rightarrow> 'k \<Rightarrow> ('w, 'k) call" where
  "Client_Head N me cl path headers =
     Client_send_request N me cl (newRequest\<lparr>rq_method := ''HEAD'', rq_headers := headers, rq_path := path\<rparr>)"

definition Client_Options ::
  "('k, 'm) Net_scheme \<Rightarrow> nat \<Rightarrow> ('w, 'k) ClientImpl \<Rightarrow> string \<Rightarrow> Headers \<Rightarrow> 'w \<Rightarrow> 'k \<Rightarrow> ('w, 'k) call" where
  "Client_Options N me cl path headers =
     Client_send_request N me cl (newRequest\<lparr>rq_method := ''OPTIONS'', rq_headers := headers, rq_path := path\<rparr>)"

subsection \<open>Requests with a content\<close>

datatype 'w content =
    Body string
  | Provided nat "'w ContentProvider"
  | Provided_without_length "'w ContentProviderWithoutLength"

text \<open>The request of \<open>send_with_content_provider\<close>; the library is built without a compressor.\<close>

definition content_request :: "string \<Rightarrow> string \<Rightarrow> Headers \<Rightarrow> 'w content \<Rightarrow> string \<Rightarrow> 'w Request" where
  "content_request verb path headers content content_type =
     (let r0 = newRequest\<lparr>rq_method := verb, rq_headers := headers, rq_path := path\<rparr>;
          r1 = (if content_type \<noteq> [] then Request_set_header ''Content-Type'' content_type r0 else r0)
      in case content of
           Body d \<Rightarrow> r1\<lparr>rq_body := d\<rparr>
         | Provided n p \<Rightarrow> r1\<lparr>rq_content_length := n, rq_content_provider := Some p, rq_is_chunked := False\<rparr>
         | Provided_without_length p \<Rightarrow>
             Request_set_header ''Transfer-Encoding'' ''chunked''
               (r1\<lparr>rq_content_length := 0, rq_content_provider := Some (ContentProviderAdapter p), rq_is_chunked := True\<rparr>))"

definition send_with_content_provider ::
  "('k, 'm) Net_scheme \<Rightarrow> nat \<Rightarrow> ('w, 'k) ClientImpl \<Rightarrow> string \<Rightarrow> string \<Rightarrow> Headers \<Rightarrow> 'w content \<Rightarrow> string \<Rightarrow> 'w \<Rightarrow> 'k \<Rightarrow>
   ('w, 'k) call" where
  "send_with_content_provider N me cl verb path headers content content_type =
     Client_send_request N me cl (content_request verb path headers content content_type)"

definition Client_Post ::
  "('k, 'm) Net_scheme \<Rightarrow> nat \<Rightarrow> ('w, 'k) ClientImpl \<Rightarrow> string \<Rightarrow> Headers \<Rightarrow> 'w content \<Rightarrow> string \<Rightarrow> 'w \<Rightarrow> 'k \<Rightarrow>
   ('w, 'k) call" where
  "Client_Post N me cl = send_with_content_provider N me cl ''POST''"

definition Client_Put ::
  "('k, 'm) Net_scheme \<Rightarrow> nat \<Rightarrow> ('w, 'k) ClientImpl \<Rightarrow> string \<Rightarrow> Headers \<Rightarrow> 'w content \<Rightarrow> string \<Rightarrow> 'w \<Rightarrow> 'k \<Rightarrow>
   ('w, 'k) call" where
  "Client_Put N me cl = send_with_content_provider N me cl ''PUT''"

definition Client_Patch ::
  "('k, 'm) Net_scheme \<Rightarrow> nat \<Rightarrow> ('w, 'k) ClientImpl \<Rightarrow> string \<Rightarrow> Headers \<Rightarrow> 'w content \<Rightarrow> string \<Rightarrow> 'w \<Rightarrow> 'k \<Rightarrow>
   ('w, 'k) call" where
  "Client_Patch N me cl = send_with_content_provider N me cl ''PATCH''"

text \<open>\<open>Delete\<close> fills the request itself.\<close>

definition Client_Delete ::
  "('k, 'm) Net_scheme \<Rightarrow> nat \<Rightarrow> ('w, 'k) ClientImpl \<Rightarrow> string \<Rightarrow> Headers \<Rightarrow> string \<Rightarrow> string \<Rightarrow> 'w \<Rightarrow> 'k \<Rightarrow>
   ('w, 'k) call" where
  "Client_Delete N me cl path headers body content_type =
     (let r0 = newRequest\<lparr>rq_method := ''DELETE'', rq_headers := headers, rq_path := path\<rparr>;
          r1 = (if content_type \<noteq> [] then Request_set_header ''Content-Type'' content_type r0 else r0)
      in Client_send_request N me cl (r1\<lparr>rq_body := body\<rparr>))"

definition Client_Post_params ::
  "('k, 'm) Net_scheme \<Rightarrow> nat \<Rightarrow> ('w, 'k) ClientImpl \<Rightarrow> string \<Rightarrow> Headers \<Rightarrow> Params \<Rightarrow> 'w \<Rightarrow> 'k \<Rightarrow> ('w, 'k) call" where
  "Client_Post_params N me cl path headers params =
     Client_Post N me cl path headers (Body (params_to_query_str params)) ''application/x-www-form-urlencoded''"

definition Client_Put_params ::
  "('k, 'm) Net_scheme \<Rightarrow> nat \<Rightarrow> ('w, 'k) ClientImpl \<Rightarrow> string \<Rightarrow> Headers \<Rightarrow> Params \<Rightarrow> 'w \<Rightarrow> 'k \<Rightarrow> ('w, 'k) call" where
  "Client_Put_params N me cl path headers params =
     Client_Put N me cl path headers (Body (params_to_query_str params)) ''application/x-www-form-urlencoded''"

text \<open>Form data with a boundary of the library (from its random numbers) or of the application.\<close>

definition form_content :: "MultipartFormData list \<Rightarrow> string \<Rightarrow> 'w content \<times> string" where
  "form_content items boundary =
     (Body (serialize_multipart_formdata items boundary True),
      c_str (serialize_multipart_formdata_get_content_type boundary))"

definition Client_Post_form ::
  "('k, 'm) Net_scheme \<Rightarrow> nat \<Rightarrow> ('w, 'k) ClientImpl \<Rightarrow> (nat \<Rightarrow> nat) \<Rightarrow> string \<Rightarrow> Headers \<Rightarrow> MultipartFormData list \<Rightarrow>
   'w \<Rightarrow> 'k \<Rightarrow> ('w, 'k) call" where
  "Client_Post_form N me cl engine path headers items =
     (case form_content items (make_multipart_data_boundary engine) of
        (content, content_type) \<Rightarrow> Client_Post N me cl path headers content content_type)"

definition Client_Put_form ::
  "('k, 'm) Net_scheme \<Rightarrow> nat \<Rightarrow> ('w, 'k) ClientImpl \<Rightarrow> (nat \<Rightarrow> nat) \<Rightarrow> string \<Rightarrow> Headers \<Rightarrow> MultipartFormData list \<Rightarrow>
   'w \<Rightarrow> 'k \<Rightarrow> ('w, 'k) call" where
  "Client_Put_form N me cl engine path headers items =
     (case form_content items (make_multipart_data_boundary engine) of
        (content, content_type) \<Rightarrow> Client_Put N me cl path headers content content_type)"

definition bad_boundary :: "'w Result" where
  "bad_boundary = \<lparr>re_res = None, re_err = UnsupportedMultipartBoundaryChars, re_request_headers = []\<rparr>"

definition Client_Post_form_boundary ::
  "('k, 'm) Net_scheme \<Rightarrow> nat \<Rightarrow> ('w, 'k) ClientImpl \<Rightarrow> string \<Rightarrow> Headers \<Rightarrow> MultipartFormData list \<Rightarrow> string \<Rightarrow>
   'w \<Rightarrow> 'k \<Rightarrow> ('w, 'k) call" where
  "Client_Post_form_boundary N me cl path headers items boundary w k =
     (if \<not> is_multipart_boundary_chars_valid boundary then Some (Inr bad_boundary, cl, w, k)
      else case form_content items boundary of
        (content, content_type) \<Rightarrow> Client_Post N me cl path headers content content_type w k)"

definition Client_Put_form_boundary ::
  "('k, 'm) Net_scheme \<Rightarrow> nat \<Rightarrow> ('w, 'k) ClientImpl \<Rightarrow> string \<Rightarrow> Headers \<Rightarrow> MultipartFormData list \<Rightarrow> string \<Rightarrow>
   'w \<Rightarrow> 'k \<Rightarrow> ('w, 'k) call" where
  "Client_Put_form_boundary N me cl path headers items boundary w k =
     (if \<not> is_multipart_boundary_chars_valid boundary then Some (Inr bad_boundary, cl, w, k)
      else case form_content items boundary of
        (content, content_type) \<Rightarrow> Client_Put N me cl path headers content content_type w k)"

subsection \<open>Stopping\<close>

text \<open>With a request in flight only the socket is shut down, and it is closed at the end of the request.\<close>

definition Client_stop ::
  "('k, 'm) Net_scheme \<Rightarrow> nat \<Rightarrow> ('w, 'k) ClientImpl \<Rightarrow> 'k \<Rightarrow> bool \<times> ('w, 'k) ClientImpl \<times> 'k" where
  "Client_stop N me cl k =
     (if requests_in_flight cl > 0
      then (True, cl\<lparr>should_be_closed := True\<rparr>,
            case client_socket cl of None \<Rightarrow> k | Some sock \<Rightarrow> sys_shutdown N sock k)
      else drop_socket N me cl k)"

definition is_socket_open :: "('w, 'k) ClientImpl \<Rightarrow> bool" where
  "is_socket_open cl \<longleftrightarrow> client_socket cl \<noteq> None"

text \<open>\<open>~ClientImpl\<close>.\<close>

definition destroyClientImpl ::
  "('k, 'm) Net_scheme \<Rightarrow> nat \<Rightarrow> ('w, 'k) ClientImpl \<Rightarrow> 'k \<Rightarrow> bool \<times> 'k" where
  "destroyClientImpl N me cl k = (case drop_socket N me cl k of (b, cl', k') \<Rightarrow> (b, k'))"

subsection \<open>Settings\<close>

definition Client_set_connection_timeout :: "int \<Rightarrow> int \<Rightarrow> ('w, 'k) ClientImpl \<Rightarrow> ('w, 'k) ClientImpl" where
  "Client_set_connection_timeout sec usec cl = cl\<lparr>connection_timeout := (sec, usec)\<rparr>"

definition Client_set_read_timeout :: "int \<Rightarrow> int \<Rightarrow> ('w, 'k) ClientImpl \<Rightarrow> ('w, 'k) ClientImpl" where
  "Client_set_read_timeout sec usec cl = cl\<lparr>cl_read_timeout := (sec, usec)\<rparr>"

definition Client_set_write_timeout :: "int \<Rightarrow> int \<Rightarrow> ('w, 'k) ClientImpl \<Rightarrow> ('w, 'k) ClientImpl" where
  "Client_set_write_timeout sec usec cl = cl\<lparr>cl_write_timeout := (sec, usec)\<rparr>"

definition Client_set_basic_auth :: "string \<Rightarrow> string \<Rightarrow> ('w, 'k) ClientImpl \<Rightarrow> ('w, 'k) ClientImpl" where
  "Client_set_basic_auth username password cl = cl\<lparr>basic_auth := (username, password)\<rparr>"

definition Client_set_bearer_token_auth :: "string \<Rightarrow> ('w, 'k) ClientImpl \<Rightarrow> ('w, 'k) ClientImpl" where
  "Client_set_bearer_token_auth token cl = cl\<lparr>bearer_token := token\<rparr>"

definition Client_set_keep_alive :: "bool \<Rightarrow> ('w, 'k) ClientImpl \<Rightarrow> ('w, 'k) ClientImpl" where
  "Client_set_keep_alive on cl = cl\<lparr>cl_keep_alive := on\<rparr>"

definition Client_set_follow_location :: "bool \<Rightarrow> ('w, 'k) ClientImpl \<Rightarrow> ('w, 'k) ClientImpl" where
  "Client_set_follow_location on cl = cl\<lparr>follow_location := on\<rparr>"

definition Client_set_url_encode :: "bool \<Rightarrow> ('w, 'k) ClientImpl \<Rightarrow> ('w, 'k) ClientImpl" where
  "Client_set_url_encode on cl = cl\<lparr>url_encode := on\<rparr>"

definition set_hostname_addr_map :: "(string \<rightharpoonup> string) \<Rightarrow> ('w, 'k) ClientImpl \<Rightarrow> ('w, 'k) ClientImpl" where
  "set_hostname_addr_map m cl = cl\<lparr>addr_map := m\<rparr>"

definition Client_set_default_headers :: "Headers \<Rightarrow> ('w, 'k) ClientImpl \<Rightarrow> ('w, 'k) ClientImpl" where
  "Client_set_default_headers hs cl = cl\<lparr>cl_default_headers := hs\<rparr>"

definition Client_set_header_writer ::
  "(Headers \<Rightarrow> BufferStream \<Rightarrow> int \<times> Headers \<times> BufferStream) \<Rightarrow> ('w, 'k) ClientImpl \<Rightarrow> ('w, 'k) ClientImpl" where
  "Client_set_header_writer writer cl = cl\<lparr>cl_header_writer := writer\<rparr>"

definition Client_set_address_family :: "int \<Rightarrow> ('w, 'k) ClientImpl \<Rightarrow> ('w, 'k) ClientImpl" where
  "Client_set_address_family family cl = cl\<lparr>cl_address_family := family\<rparr>"

definition Client_set_tcp_nodelay :: "bool \<Rightarrow> ('w, 'k) ClientImpl \<Rightarrow> ('w, 'k) ClientImpl" where
  "Client_set_tcp_nodelay on cl = cl\<lparr>cl_tcp_nodelay := on\<rparr>"

definition Client_set_socket_options :: "(nat \<Rightarrow> 'k \<Rightarrow> 'k) option \<Rightarrow> ('w, 'k) ClientImpl \<Rightarrow> ('w, 'k) ClientImpl" where
  "Client_set_socket_options f cl = cl\<lparr>cl_socket_options := f\<rparr>"

definition Client_set_compress :: "bool \<Rightarrow> ('w, 'k) ClientImpl \<Rightarrow> ('w, 'k) ClientImpl" where
  "Client_set_compress on cl = cl\<lparr>cl_compress := on\<rparr>"

definition Client_set_decompress :: "bool \<Rightarrow> ('w, 'k) ClientImpl \<Rightarrow> ('w, 'k) ClientImpl" where
  "Client_set_decompress on cl = cl\<lparr>cl_decompress := on\<rparr>"

definition Client_set_interface :: "string \<Rightarrow> ('w, 'k) ClientImpl \<Rightarrow> ('w, 'k) ClientImpl" where
  "Client_set_interface intf cl = cl\<lparr>interface_name := intf\<rparr>"

definition Client_set_proxy :: "string \<Rightarrow> int \<Rightarrow> ('w, 'k) ClientImpl \<Rightarrow> ('w, 'k) ClientImpl" where
  "Client_set_proxy h p cl = cl\<lparr>proxy_host := h, proxy_port := p\<rparr>"

definition Client_set_proxy_basic_auth :: "string \<Rightarrow> string \<Rightarrow> ('w, 'k) ClientImpl \<Rightarrow> ('w, 'k) ClientImpl" where
  "Client_set_proxy_basic_auth username password cl = cl\<lparr>proxy_basic_auth := (username, password)\<rparr>"

definition Client_set_proxy_bearer_token_auth :: "string \<Rightarrow> ('w, 'k) ClientImpl \<Rightarrow> ('w, 'k) ClientImpl" where
  "Client_set_proxy_bearer_token_auth token cl = cl\<lparr>proxy_bearer_token := token\<rparr>"

definition Client_set_logger ::
  "('w Request \<Rightarrow> 'w Response \<Rightarrow> 'w \<Rightarrow> 'w) \<Rightarrow> ('w, 'k) ClientImpl \<Rightarrow> ('w, 'k) ClientImpl" where
  "Client_set_logger f cl = cl\<lparr>cl_logger := Some f\<rparr>"

end
