(* ===== verification/Http_Client_Form.thy ===== *)
theory Http_Client_Form
  imports Http_Client_Api
begin

text \<open>
  Forms whose parts come from content providers (\<open>httplib.h\<close>, \<open>ClientImpl::get_multipart_content_provider\<close> and
  the calls that use it).  The function it returns keeps two variables between its calls; they live in the world, at
  a place that two functions read and write.
\<close>

subsection \<open>The provider of a form\<close>

record 'w MultipartFormDataProvider =
  mp_name :: string
  mp_provider :: "'w ContentProviderWithoutLength"
  mp_filename :: string
  mp_content_type :: string

text \<open>The part without its content: the header of a part is a template over both kinds of items.\<close>

definition as_part :: "'w MultipartFormDataProvider \<Rightarrow> string \<Rightarrow> MultipartFormData" where
  "as_part p content =
     \<lparr>mf_name = mp_name p, mf_content = content, mf_filename = mp_filename p, mf_content_type = mp_content_type p\<rparr>"

text \<open>The captured variables \<open>cur_item\<close> and \<open>cur_start\<close>.\<close>

record 'w closure =
  captured :: "'w \<Rightarrow> nat \<times> nat"
  capture :: "nat \<times> nat \<Rightarrow> 'w \<Rightarrow> 'w"

text \<open>The provider of a part is given a sink of its own: its \<open>write\<close> is that of the sink, its \<open>done\<close> is noted,
  and \<open>done_with_trailer\<close> is not set.\<close>

primrec with_own_done :: "'w sink_prog \<Rightarrow> bool \<Rightarrow> (bool \<Rightarrow> 'w \<Rightarrow> bool \<Rightarrow> 'w sink_prog) \<Rightarrow> 'w sink_prog" where
  "with_own_done (Sink_return b w) has_data f = f b w has_data"
| "with_own_done (Sink_write d g) has_data f = Sink_write d (\<lambda>ok. with_own_done (g ok) has_data f)"
| "with_own_done (Sink_done p) has_data f = with_own_done p False f"
| "with_own_done (Sink_done_with_trailer hs p) has_data f = Sink_bad_call"
| "with_own_done Sink_bad_call has_data f = Sink_bad_call"

text \<open>What \<open>sink.os\<close> is given goes to \<open>write\<close>, and the answer is not looked at.\<close>

definition part_step ::
  "'w closure \<Rightarrow> 'w MultipartFormDataProvider \<Rightarrow> nat \<Rightarrow> nat \<Rightarrow> nat \<Rightarrow> 'w \<Rightarrow> 'w sink_prog" where
  "part_step cl p cur_item cur_start offset w =
     with_own_done (mp_provider p (offset - cur_start) w) True
       (\<lambda>b w1 has_data.
         if \<not> b then Sink_return False w1
         else if has_data then Sink_return True w1
         else Sink_write serialize_multipart_formdata_item_end
                (\<lambda>ok. Sink_return True (capture cl (cur_item + 1, 0) w1)))"

definition get_multipart_content_provider ::
  "'w closure \<Rightarrow> string \<Rightarrow> MultipartFormData list \<Rightarrow> 'w MultipartFormDataProvider list \<Rightarrow>
   'w ContentProviderWithoutLength" where
  "get_multipart_content_provider cl boundary items provider_items offset w =
     (case captured cl w of (cur_item, cur_start) \<Rightarrow>
        if offset = 0 \<and> items \<noteq> [] then
          Sink_write (serialize_multipart_formdata items boundary False) (\<lambda>ok. Sink_return True w)
        else if cur_item < length provider_items then
          (let p = provider_items ! cur_item;
               head = serialize_multipart_formdata_item_begin (as_part p []) boundary
           in if cur_start = 0
              then Sink_write head (\<lambda>ok. part_step cl p cur_item (offset + length head) (offset + length head)
                                            (capture cl (cur_item, offset + length head) w))
              else part_step cl p cur_item cur_start offset w)
        else Sink_write (serialize_multipart_formdata_finish boundary) (\<lambda>ok. Sink_done (Sink_return True w)))"

text \<open>\<open>start\<close> sets the two variables when the function is made.\<close>

definition Client_Post_form_providers ::
  "('k, 'm) Net_scheme \<Rightarrow> nat \<Rightarrow> ('w, 'k) ClientImpl \<Rightarrow> 'w closure \<Rightarrow> (nat \<Rightarrow> nat) \<Rightarrow> string \<Rightarrow> Headers \<Rightarrow>
   MultipartFormData list \<Rightarrow> 'w MultipartFormDataProvider list \<Rightarrow> 'w \<Rightarrow> 'k \<Rightarrow> ('w, 'k) call" where
  "Client_Post_form_providers N me cl closure engine path headers items provider_items w =
     (let boundary = make_multipart_data_boundary engine
      in send_with_content_provider N me cl ''POST'' path headers
           (Provided_without_length (get_multipart_content_provider closure boundary items provider_items))
           (serialize_multipart_formdata_get_content_type boundary) (capture closure (0, 0) w))"

definition Client_Put_form_providers ::
  "('k, 'm) Net_scheme \<Rightarrow> nat \<Rightarrow> ('w, 'k) ClientImpl \<Rightarrow> 'w closure \<Rightarrow> (nat \<Rightarrow> nat) \<Rightarrow> string \<Rightarrow> Headers \<Rightarrow>
   MultipartFormData list \<Rightarrow> 'w MultipartFormDataProvider list \<Rightarrow> 'w \<Rightarrow> 'k \<Rightarrow> ('w, 'k) call" where
  "Client_Put_form_providers N me cl closure engine path headers items provider_items w =
     (let boundary = make_multipart_data_boundary engine
      in send_with_content_provider N me cl ''PUT'' path headers
           (Provided_without_length (get_multipart_content_provider closure boundary items provider_items))
           (serialize_multipart_formdata_get_content_type boundary) (capture closure (0, 0) w))"

subsection \<open>What the provider delivers\<close>

text \<open>A sink that takes everything: the bytes of one call, whether \<open>done\<close> was called, the result and the
  world.\<close>

primrec taken :: "'w sink_prog \<Rightarrow> (string \<times> bool \<times> bool \<times> 'w) option" where
  "taken (Sink_return b w) = Some ([], False, b, w)"
| "taken (Sink_write d g) = map_option (\<lambda>(e, dn, b, w). (d @ e, dn, b, w)) (taken (g True))"
| "taken (Sink_done p) = map_option (\<lambda>(e, dn, b, w). (e, True, b, w)) (taken p)"
| "taken (Sink_done_with_trailer hs p) = map_option (\<lambda>(e, dn, b, w). (e, True, b, w)) (taken p)"
| "taken Sink_bad_call = None"

text \<open>The calls of the writing loop, at most \<open>n\<close> of them: the bytes, and whether \<open>done\<close> ended them.\<close>

fun deliver :: "nat \<Rightarrow> 'w ContentProviderWithoutLength \<Rightarrow> nat \<Rightarrow> 'w \<Rightarrow> string \<times> bool" where
  "deliver 0 P offset w = ([], False)"
| "deliver (Suc n) P offset w =
     (case taken (P offset w) of
        None \<Rightarrow> ([], False)
      | Some (d, dn, b, w1) \<Rightarrow>
          (if \<not> b then (d, False) else if dn then (d, True)
           else case deliver n P (offset + length d) w1 of (e, r) \<Rightarrow> (d @ e, r)))"

text \<open>A provider that gives its content in pieces of \<open>n\<close> bytes.\<close>

definition piece_provider :: "nat \<Rightarrow> string \<Rightarrow> 'w ContentProviderWithoutLength" where
  "piece_provider n d offset w =
     Sink_write (take n (drop offset d))
       (\<lambda>ok. if offset + n \<ge> length d then Sink_done (Sink_return True w) else Sink_return True w)"

definition piece_item :: "nat \<Rightarrow> MultipartFormData \<Rightarrow> 'w MultipartFormDataProvider" where
  "piece_item n item =
     \<lparr>mp_name = mf_name item, mp_provider = piece_provider n (mf_content item), mp_filename = mf_filename item,
      mp_content_type = mf_content_type item\<rparr>"

definition closure_ok :: "'w closure \<Rightarrow> bool" where
  "closure_ok cl \<longleftrightarrow> (\<forall>v w. captured cl (capture cl v w) = v) \<and> (\<forall>v v' w. capture cl v (capture cl v' w) = capture cl v w)"

definition delivers :: "'w ContentProviderWithoutLength \<Rightarrow> nat \<Rightarrow> 'w \<Rightarrow> string \<Rightarrow> bool" where
  "delivers P offset w d \<longleftrightarrow> (\<exists>n. deliver n P offset w = (d, True))"

lemma delivers_last: "taken (P offset w) = Some (d, True, True, w1) \<Longrightarrow> delivers P offset w d"
  unfolding delivers_def by (rule exI [where x = "Suc 0"]) simp

lemma delivers_step:
  "taken (P offset w) = Some (d, False, True, w1) \<Longrightarrow> delivers P (offset + length d) w1 e \<Longrightarrow> delivers P offset w (d @ e)"
  unfolding delivers_def by (elim exE, rule_tac x = "Suc n" in exI) simp

lemma part_begin_not_empty: "serialize_multipart_formdata_item_begin x b \<noteq> []"
  by (simp add: serialize_multipart_formdata_item_begin_def)

lemma item_end_length: "serialize_multipart_formdata_item_end = crlf" "crlf \<noteq> []"
  by (simp_all add: serialize_multipart_formdata_item_end_def crlf_def)

lemma as_piece_item: "serialize_multipart_formdata_item_begin (as_part (piece_item n x) []) b = serialize_multipart_formdata_item_begin x b"
  by (simp add: as_part_def piece_item_def serialize_multipart_formdata_item_begin_def)

lemma part_step_pieces:
  assumes "closure_ok cl"
  shows "taken (part_step cl (piece_item n x) i st (st + j) (capture cl v w)) =
    (if j + n \<ge> length (mf_content x)
     then Some (take n (drop j (mf_content x)) @ crlf, False, True, capture cl (i + 1, 0) w)
     else Some (take n (drop j (mf_content x)), False, True, capture cl v w))"
proof -
  have "capture cl (i + 1, 0) (capture cl v w) = capture cl (i + 1, 0) w"
    using assms by (simp only: closure_ok_def)
  then show ?thesis by (simp add: part_step_def piece_item_def piece_provider_def item_end_length)
qed

text \<open>The rest of a part, once its header is written.\<close>

lemma part_delivered:
  fixes parts :: "MultipartFormData list"
  defines "P cl b items n \<equiv> get_multipart_content_provider cl b items (map (piece_item n) parts)"
  assumes ok: "closure_ok cl" and n: "n > 0" and i: "i < length parts" and st: "st > 0"
    and rest: "\<And>offset. offset > 0 \<Longrightarrow> delivers (P cl b items n) offset (capture cl (i + 1, 0) w) R"
  shows "delivers (P cl b items n) (st + j) (capture cl (i, st) w) (drop j (mf_content (parts ! i)) @ crlf @ R)"
proof (induction "length (mf_content (parts ! i)) - j" arbitrary: j rule: less_induct)
  case less
  let ?c = "mf_content (parts ! i)"
  have t: "taken (P cl b items n (st + j) (capture cl (i, st) w)) =
      taken (part_step cl (piece_item n (parts ! i)) i st (st + j) (capture cl (i, st) w))"
    using ok i st by (simp add: P_def get_multipart_content_provider_def closure_ok_def)
  show ?case
  proof (cases "j + n \<ge> length ?c")
    case True
    then have "take n (drop j ?c) = drop j ?c" by simp
    then have "taken (P cl b items n (st + j) (capture cl (i, st) w)) =
        Some (drop j ?c @ crlf, False, True, capture cl (i + 1, 0) w)"
      using True by (simp add: t part_step_pieces [OF ok])
    from delivers_step [OF this rest] show ?thesis using st by simp
  next
    case False
    then have d: "drop j ?c = take n (drop j ?c) @ drop (j + n) ?c"
      by (metis add.commute append_take_drop_id drop_drop)
    have "taken (P cl b items n (st + j) (capture cl (i, st) w)) =
        Some (take n (drop j ?c), False, True, capture cl (i, st) w)"
      using False by (simp add: t part_step_pieces [OF ok])
    moreover have "delivers (P cl b items n) (st + j + length (take n (drop j ?c))) (capture cl (i, st) w)
        (drop (j + n) ?c @ crlf @ R)"
    proof -
      have "length (take n (drop j ?c)) = n" using False by simp
      moreover have "delivers (P cl b items n) (st + (j + n)) (capture cl (i, st) w) (drop (j + n) ?c @ crlf @ R)"
        using False n by (intro less) simp
      ultimately show ?thesis by (simp only: add.assoc)
    qed
    ultimately have "delivers (P cl b items n) (st + j) (capture cl (i, st) w)
        (take n (drop j ?c) @ drop (j + n) ?c @ crlf @ R)" by (rule delivers_step)
    then show ?thesis using d by (metis append.assoc)
  qed
qed

text \<open>From the \<open>i\<close>-th part on.\<close>

lemma parts_delivered:
  fixes parts :: "MultipartFormData list"
  defines "P cl b items n \<equiv> get_multipart_content_provider cl b items (map (piece_item n) parts)"
  assumes ok: "closure_ok cl" and n: "n > 0" and "i \<le> length parts" and "offset > 0 \<or> items = []"
  shows "delivers (P cl b items n) offset (capture cl (i, 0) w) (serialize_multipart_formdata (drop i parts) b True)"
  using assms(4,5)
proof (induction "length parts - i" arbitrary: i offset)
  case 0
  then have "taken (P cl b items n offset (capture cl (i, 0) w)) =
      Some (serialize_multipart_formdata_finish b, True, True, capture cl (i, 0) w)"
    using ok by (auto simp: P_def get_multipart_content_provider_def closure_ok_def)
  from delivers_last [where P = "P cl b items n", OF this] show ?case
    using 0 by (simp add: serialize_multipart_formdata_def)
next
  case (Suc m)
  let ?x = "parts ! i" and ?R = "serialize_multipart_formdata (drop (i + 1) parts) b True"
  let ?h = "serialize_multipart_formdata_item_begin ?x b" and ?c = "mf_content (parts ! i)"
  let ?st = "offset + length ?h"
  have i: "i < length parts" using Suc.hyps(2) by simp
  have st: "?st > 0" using part_begin_not_empty [of ?x b] by simp
  have rest: "delivers (P cl b items n) off (capture cl (i + 1, 0) w) ?R" if "off > 0" for off
    using Suc.hyps(1) [of "i + 1" off] Suc.hyps(2) i that by simp
  have R: "serialize_multipart_formdata (drop i parts) b True = ?h @ ?c @ crlf @ ?R"
    using i by (simp add: serialize_multipart_formdata_def Cons_nth_drop_Suc [symmetric] item_end_length)
  have t: "taken (P cl b items n offset (capture cl (i, 0) w)) =
      map_option (\<lambda>(e, dn, r, w). (?h @ e, dn, r, w))
        (taken (part_step cl (piece_item n ?x) i ?st (?st + 0) (capture cl (i, ?st) w)))"
    using ok i Suc.prems(2)
    by (auto simp: P_def get_multipart_content_provider_def closure_ok_def as_piece_item Let_def)
  show ?case
  proof (cases "n \<ge> length ?c")
    case True
    then have "taken (P cl b items n offset (capture cl (i, 0) w)) =
        Some (?h @ ?c @ crlf, False, True, capture cl (i + 1, 0) w)"
      unfolding t part_step_pieces [OF ok] by simp
    moreover have "offset + length (?h @ ?c @ crlf) > 0" using st by auto
    ultimately have "delivers (P cl b items n) offset (capture cl (i, 0) w) ((?h @ ?c @ crlf) @ ?R)"
      by (rule delivers_step [OF _ rest])
    then show ?thesis by (simp add: R)
  next
    case False
    then have "taken (P cl b items n offset (capture cl (i, 0) w)) =
        Some (?h @ take n ?c, False, True, capture cl (i, ?st) w)"
      unfolding t part_step_pieces [OF ok] by simp
    moreover have "offset + length (?h @ take n ?c) = ?st + n" using False by simp
    moreover have "delivers (P cl b items n) (?st + n) (capture cl (i, ?st) w) (drop n ?c @ crlf @ ?R)"
      unfolding P_def by (rule part_delivered [OF ok n i st rest [unfolded P_def]])
    ultimately have "delivers (P cl b items n) offset (capture cl (i, 0) w) ((?h @ take n ?c) @ drop n ?c @ crlf @ ?R)"
      by (metis delivers_step)
    moreover have "(?h @ take n ?c) @ drop n ?c @ crlf @ ?R = ?h @ ?c @ crlf @ ?R"
      by (metis append.assoc append_take_drop_id)
    ultimately show ?thesis by (simp only: R)
  qed
qed

text \<open>C35: A form whose parts come from providers is the form: whatever the size of the pieces in which the providers
  give the contents, the calls of the library's provider deliver exactly the bytes of the form with all the items
  and parts, and end it.\<close>

theorem provided_form_is_form:
  assumes "closure_ok cl" and "n > 0"
  shows "\<exists>k. deliver k (get_multipart_content_provider cl b items (map (piece_item n) parts)) 0 (capture cl (0, 0) w) =
    (serialize_multipart_formdata (items @ parts) b True, True)"
proof -
  let ?P = "get_multipart_content_provider cl b items (map (piece_item n) parts)"
  have "delivers ?P 0 (capture cl (0, 0) w) (serialize_multipart_formdata (items @ parts) b True)"
  proof (cases "items = []")
    case True
    then show ?thesis using parts_delivered [OF assms, of 0 parts 0 items b w] by simp
  next
    case False
    let ?d = "serialize_multipart_formdata items b False"
    have "?d \<noteq> []" using False part_begin_not_empty by (auto simp: serialize_multipart_formdata_def neq_Nil_conv)
    then have "delivers ?P (0 + length ?d) (capture cl (0, 0) w) (serialize_multipart_formdata parts b True)"
      using parts_delivered [OF assms, of 0 parts "length ?d" items b w] by simp
    moreover have "taken (?P 0 (capture cl (0, 0) w)) = Some (?d, False, True, capture cl (0, 0) w)"
      using False assms(1) by (simp add: get_multipart_content_provider_def closure_ok_def)
    ultimately have "delivers ?P 0 (capture cl (0, 0) w) (?d @ serialize_multipart_formdata parts b True)"
      by (rule delivers_step [rotated])
    then show ?thesis by (simp add: serialize_multipart_formdata_def)
  qed
  then show ?thesis by (simp add: delivers_def)
qed

text \<open>A world that is the two variables.\<close>

definition only_variables :: "(nat \<times> nat) closure" where
  "only_variables = \<lparr>captured = (\<lambda>w. w), capture = (\<lambda>v w. v)\<rparr>"

lemma provided_form_is_form_witness:
  "\<exists>k. deliver k (get_multipart_content_provider only_variables ''X''
          [\<lparr>mf_name = ''a'', mf_content = ''1'', mf_filename = [], mf_content_type = []\<rparr>]
          (map (piece_item 2) [\<lparr>mf_name = ''f'', mf_content = ''hello'', mf_filename = ''t'', mf_content_type = []\<rparr>]))
        0 (capture only_variables (0, 0) (5, 6)) =
    (serialize_multipart_formdata
       ([\<lparr>mf_name = ''a'', mf_content = ''1'', mf_filename = [], mf_content_type = []\<rparr>] @
        [\<lparr>mf_name = ''f'', mf_content = ''hello'', mf_filename = ''t'', mf_content_type = []\<rparr>]) ''X'' True, True)"
  by (rule provided_form_is_form) (simp_all add: closure_ok_def only_variables_def)


text \<open>A provider that writes an empty piece ends a chunked content: nothing is written, not even the last chunk,
  and the call succeeds.\<close>

lemma empty_piece_ends_content:
  "write_content_chunked buffer_stream (\<lambda>off len w. Sink_write [] (\<lambda>ok. Sink_return True w)) (\<lambda>s. False) w b =
     Some (Written True (Some Success) w, b)"
  by (subst write_content_chunked_def, subst write_chunked_loop.simps)
    (simp add: new_sink_def buffer_stream_def sink_write_chunked_def emit_chunk_def, subst write_chunked_loop.simps, simp)

end
