(* ===== verification/Http_Universal.thy ===== *)
theory Http_Universal
  imports Http_Client_Form
begin

text \<open>
  The class \<open>Client\<close> of \<open>httplib.h\<close>: a client chosen by the text of an address (scheme, host and port), which
  passes every call on to the \<open>ClientImpl\<close> it holds.  The library is built without OpenSSL, with exceptions.
\<close>

subsection \<open>The address\<close>

text \<open>The regular expression \<open>(?:([a-z]+)://)?(?:[([\d:]+)]|([^:/?#]+))(?::(\d+))?\<close> on a whole text.  The
  scheme is taken when it is there: without it, the host would end at the colon and a port could not follow.  The
  first alternative of the host is taken when the rest matches.\<close>

definition port_end :: "string \<Rightarrow> string option" where
  "port_end u =
     (if u = [] then Some []
      else if hd u = CHR '':'' \<and> tl u \<noteq> [] \<and> list_all is_digit (tl u) then Some (tl u)
      else None)"

definition bracketed_host :: "string \<Rightarrow> (string \<times> string) option" where
  "bracketed_host u =
     (let inner = takeWhile (\<lambda>c. is_digit c \<or> c = CHR '':'') (tl u);
          after = dropWhile (\<lambda>c. is_digit c \<or> c = CHR '':'') (tl u)
      in if u \<noteq> [] \<and> hd u = CHR ''['' \<and> inner \<noteq> [] \<and> after \<noteq> [] \<and> hd after = CHR '']''
         then map_option (\<lambda>p. (inner, p)) (port_end (tl after)) else None)"

definition plain_host :: "string \<Rightarrow> (string \<times> string) option" where
  "plain_host u =
     (let host = takeWhile (\<lambda>c. c \<notin> set '':/?#'') u
      in if host = [] then None
         else map_option (\<lambda>p. (host, p)) (port_end (dropWhile (\<lambda>c. c \<notin> set '':/?#'') u)))"

definition match_host_port :: "string \<Rightarrow> (string \<times> string) option" where
  "match_host_port u = (case bracketed_host u of Some m \<Rightarrow> Some m | None \<Rightarrow> plain_host u)"

definition is_lower :: "char \<Rightarrow> bool" where
  "is_lower c \<longleftrightarrow> c \<in> set ''abcdefghijklmnopqrstuvwxyz''"

definition match_address :: "string \<Rightarrow> (string \<times> string \<times> string) option" where
  "match_address u =
     (let scheme = takeWhile is_lower u; rest = dropWhile is_lower u
      in if scheme \<noteq> [] \<and> take 3 rest = ''://''
         then map_option (\<lambda>(h, p). (scheme, h, p)) (match_host_port (drop 3 rest))
         else map_option (\<lambda>(h, p). ([], h, p)) (match_host_port u))"

subsection \<open>The client\<close>

record ('w, 'k) Client =
  cli :: "('w, 'k) ClientImpl option"

text \<open>An address that does not match is taken as the name of a host.\<close>

definition newClient :: "string \<Rightarrow> string \<Rightarrow> string \<Rightarrow> ('w, 'k) Client result" where
  "newClient scheme_host_port cert key =
     (case match_address scheme_host_port of
        None \<Rightarrow> Inr \<lparr>cli = Some (newClientImpl scheme_host_port 80 cert key)\<rparr>
      | Some (scheme, host, port) \<Rightarrow>
          (if scheme \<noteq> [] \<and> scheme \<noteq> ''http'' then Inl (Invalid_argument (CHR 0x27 # scheme @ CHR 0x27 # '' scheme is not supported.''))
           else case (if port \<noteq> [] then stoi port else Inr 80) of
             Inl e \<Rightarrow> Inl e
           | Inr p \<Rightarrow> Inr \<lparr>cli = Some (newClientImpl host p cert key)\<rparr>))"

definition newClient_address :: "string \<Rightarrow> ('w, 'k) Client result" where
  "newClient_address scheme_host_port = newClient scheme_host_port [] []"

definition newClient_host_port :: "string \<Rightarrow> int \<Rightarrow> ('w, 'k) Client" where
  "newClient_host_port host port = \<lparr>cli = Some (newClientImpl_host_port host port)\<rparr>"

definition newClient_host_port_cert :: "string \<Rightarrow> int \<Rightarrow> string \<Rightarrow> string \<Rightarrow> ('w, 'k) Client" where
  "newClient_host_port_cert host port cert key = \<lparr>cli = Some (newClientImpl host port cert key)\<rparr>"

definition Client_is_valid :: "('w, 'k) Client \<Rightarrow> bool" where
  "Client_is_valid c \<longleftrightarrow> cli c \<noteq> None"

subsection \<open>Calls\<close>

text \<open>A call through a null pointer is undefined; otherwise it is the call of the \<open>ClientImpl\<close>, which stays in its
  place.\<close>

type_synonym ('w, 'k) passed = "failure + ((http_stop + 'w Result) \<times> ('w, 'k) Client \<times> 'w \<times> 'k) option"

definition pass_on ::
  "(('w, 'k) ClientImpl \<Rightarrow> 'w \<Rightarrow> 'k \<Rightarrow> ('w, 'k) call) \<Rightarrow> ('w, 'k) Client \<Rightarrow> 'w \<Rightarrow> 'k \<Rightarrow> ('w, 'k) passed" where
  "pass_on f c w k =
     (case cli c of
        None \<Rightarrow> Inl (Undefined ''null client'')
      | Some impl \<Rightarrow> Inr (map_option (\<lambda>(r, impl', w', k'). (r, c\<lparr>cli := Some impl'\<rparr>, w', k')) (f impl w k)))"

definition pass_setting :: "(('w, 'k) ClientImpl \<Rightarrow> ('w, 'k) ClientImpl) \<Rightarrow> (('w, 'k) Client, unit) eff" where
  "pass_setting f c =
     (case cli c of None \<Rightarrow> (Inl (Undefined ''null client''), c) | Some impl \<Rightarrow> (Inr (), c\<lparr>cli := Some (f impl)\<rparr>))"

definition universal_Get ::
  "('k, 'm) Net_scheme \<Rightarrow> nat \<Rightarrow> ('w, 'k) Client \<Rightarrow> string \<Rightarrow> Headers \<Rightarrow> (nat \<Rightarrow> nat \<Rightarrow> 'w \<Rightarrow> bool \<times> 'w) option \<Rightarrow> 'w \<Rightarrow> 'k \<Rightarrow> ('w, 'k) passed" where
  "universal_Get N me c path headers progress =
     pass_on (\<lambda>impl. Client_Get N me impl path headers progress) c"

definition universal_Get_receiver ::
  "('k, 'm) Net_scheme \<Rightarrow> nat \<Rightarrow> ('w, 'k) Client \<Rightarrow> string \<Rightarrow> Headers \<Rightarrow> ('w Response \<Rightarrow> 'w \<Rightarrow> bool \<times> 'w) option \<Rightarrow> (string \<Rightarrow> 'w \<Rightarrow> bool \<times> 'w) \<Rightarrow> (nat \<Rightarrow> nat \<Rightarrow> 'w \<Rightarrow> bool \<times> 'w) option \<Rightarrow> 'w \<Rightarrow> 'k \<Rightarrow> ('w, 'k) passed" where
  "universal_Get_receiver N me c path headers handler receiver progress =
     pass_on (\<lambda>impl. Client_Get_receiver N me impl path headers handler receiver progress) c"

definition universal_Get_params ::
  "('k, 'm) Net_scheme \<Rightarrow> nat \<Rightarrow> ('w, 'k) Client \<Rightarrow> string \<Rightarrow> Params \<Rightarrow> Headers \<Rightarrow> (nat \<Rightarrow> nat \<Rightarrow> 'w \<Rightarrow> bool \<times> 'w) option \<Rightarrow> 'w \<Rightarrow> 'k \<Rightarrow> ('w, 'k) passed" where
  "universal_Get_params N me c path params headers progress =
     pass_on (\<lambda>impl. Client_Get_params N me impl path params headers progress) c"

definition universal_Get_params_receiver ::
  "('k, 'm) Net_scheme \<Rightarrow> nat \<Rightarrow> ('w, 'k) Client \<Rightarrow> string \<Rightarrow> Params \<Rightarrow> Headers \<Rightarrow> ('w Response \<Rightarrow> 'w \<Rightarrow> bool \<times> 'w) option \<Rightarrow> (string \<Rightarrow> 'w \<Rightarrow> bool \<times> 'w) \<Rightarrow> (nat \<Rightarrow> nat \<Rightarrow> 'w \<Rightarrow> bool \<times> 'w) option \<Rightarrow> 'w \<Rightarrow> 'k \<Rightarrow> ('w, 'k) passed" where
  "universal_Get_params_receiver N me c path params headers handler receiver progress =
     pass_on (\<lambda>impl. Client_Get_params_receiver N me impl path params headers handler receiver progress) c"

definition universal_Head ::
  "('k, 'm) Net_scheme \<Rightarrow> nat \<Rightarrow> ('w, 'k) Client \<Rightarrow> string \<Rightarrow> Headers \<Rightarrow> 'w \<Rightarrow> 'k \<Rightarrow> ('w, 'k) passed" where
  "universal_Head N me c path headers =
     pass_on (\<lambda>impl. Client_Head N me impl path headers) c"

definition universal_Post ::
  "('k, 'm) Net_scheme \<Rightarrow> nat \<Rightarrow> ('w, 'k) Client \<Rightarrow> string \<Rightarrow> Headers \<Rightarrow> 'w content \<Rightarrow> string \<Rightarrow> 'w \<Rightarrow> 'k \<Rightarrow> ('w, 'k) passed" where
  "universal_Post N me c path headers content content_type =
     pass_on (\<lambda>impl. Client_Post N me impl path headers content content_type) c"

definition universal_Post_params ::
  "('k, 'm) Net_scheme \<Rightarrow> nat \<Rightarrow> ('w, 'k) Client \<Rightarrow> string \<Rightarrow> Headers \<Rightarrow> Params \<Rightarrow> 'w \<Rightarrow> 'k \<Rightarrow> ('w, 'k) passed" where
  "universal_Post_params N me c path headers params =
     pass_on (\<lambda>impl. Client_Post_params N me impl path headers params) c"

definition universal_Post_form ::
  "('k, 'm) Net_scheme \<Rightarrow> nat \<Rightarrow> ('w, 'k) Client \<Rightarrow> (nat \<Rightarrow> nat) \<Rightarrow> string \<Rightarrow> Headers \<Rightarrow> MultipartFormData list \<Rightarrow> 'w \<Rightarrow> 'k \<Rightarrow> ('w, 'k) passed" where
  "universal_Post_form N me c engine path headers items =
     pass_on (\<lambda>impl. Client_Post_form N me impl engine path headers items) c"

definition universal_Post_form_boundary ::
  "('k, 'm) Net_scheme \<Rightarrow> nat \<Rightarrow> ('w, 'k) Client \<Rightarrow> string \<Rightarrow> Headers \<Rightarrow> MultipartFormData list \<Rightarrow> string \<Rightarrow> 'w \<Rightarrow> 'k \<Rightarrow> ('w, 'k) passed" where
  "universal_Post_form_boundary N me c path headers items boundary =
     pass_on (\<lambda>impl. Client_Post_form_boundary N me impl path headers items boundary) c"

definition universal_Post_form_providers ::
  "('k, 'm) Net_scheme \<Rightarrow> nat \<Rightarrow> ('w, 'k) Client \<Rightarrow> 'w closure \<Rightarrow> (nat \<Rightarrow> nat) \<Rightarrow> string \<Rightarrow> Headers \<Rightarrow> MultipartFormData list \<Rightarrow> 'w MultipartFormDataProvider list \<Rightarrow> 'w \<Rightarrow> 'k \<Rightarrow> ('w, 'k) passed" where
  "universal_Post_form_providers N me c closure engine path headers items provider_items =
     pass_on (\<lambda>impl. Client_Post_form_providers N me impl closure engine path headers items provider_items) c"

definition universal_Put ::
  "('k, 'm) Net_scheme \<Rightarrow> nat \<Rightarrow> ('w, 'k) Client \<Rightarrow> string \<Rightarrow> Headers \<Rightarrow> 'w content \<Rightarrow> string \<Rightarrow> 'w \<Rightarrow> 'k \<Rightarrow> ('w, 'k) passed" where
  "universal_Put N me c path headers content content_type =
     pass_on (\<lambda>impl. Client_Put N me impl path headers content content_type) c"

definition universal_Put_params ::
  "('k, 'm) Net_scheme \<Rightarrow> nat \<Rightarrow> ('w, 'k) Client \<Rightarrow> string \<Rightarrow> Headers \<Rightarrow> Params \<Rightarrow> 'w \<Rightarrow> 'k \<Rightarrow> ('w, 'k) passed" where
  "universal_Put_params N me c path headers params =
     pass_on (\<lambda>impl. Client_Put_params N me impl path headers params) c"

definition universal_Put_form ::
  "('k, 'm) Net_scheme \<Rightarrow> nat \<Rightarrow> ('w, 'k) Client \<Rightarrow> (nat \<Rightarrow> nat) \<Rightarrow> string \<Rightarrow> Headers \<Rightarrow> MultipartFormData list \<Rightarrow> 'w \<Rightarrow> 'k \<Rightarrow> ('w, 'k) passed" where
  "universal_Put_form N me c engine path headers items =
     pass_on (\<lambda>impl. Client_Put_form N me impl engine path headers items) c"

definition universal_Put_form_boundary ::
  "('k, 'm) Net_scheme \<Rightarrow> nat \<Rightarrow> ('w, 'k) Client \<Rightarrow> string \<Rightarrow> Headers \<Rightarrow> MultipartFormData list \<Rightarrow> string \<Rightarrow> 'w \<Rightarrow> 'k \<Rightarrow> ('w, 'k) passed" where
  "universal_Put_form_boundary N me c path headers items boundary =
     pass_on (\<lambda>impl. Client_Put_form_boundary N me impl path headers items boundary) c"

definition universal_Put_form_providers ::
  "('k, 'm) Net_scheme \<Rightarrow> nat \<Rightarrow> ('w, 'k) Client \<Rightarrow> 'w closure \<Rightarrow> (nat \<Rightarrow> nat) \<Rightarrow> string \<Rightarrow> Headers \<Rightarrow> MultipartFormData list \<Rightarrow> 'w MultipartFormDataProvider list \<Rightarrow> 'w \<Rightarrow> 'k \<Rightarrow> ('w, 'k) passed" where
  "universal_Put_form_providers N me c closure engine path headers items provider_items =
     pass_on (\<lambda>impl. Client_Put_form_providers N me impl closure engine path headers items provider_items) c"

definition universal_Patch ::
  "('k, 'm) Net_scheme \<Rightarrow> nat \<Rightarrow> ('w, 'k) Client \<Rightarrow> string \<Rightarrow> Headers \<Rightarrow> 'w content \<Rightarrow> string \<Rightarrow> 'w \<Rightarrow> 'k \<Rightarrow> ('w, 'k) passed" where
  "universal_Patch N me c path headers content content_type =
     pass_on (\<lambda>impl. Client_Patch N me impl path headers content content_type) c"

definition universal_Delete ::
  "('k, 'm) Net_scheme \<Rightarrow> nat \<Rightarrow> ('w, 'k) Client \<Rightarrow> string \<Rightarrow> Headers \<Rightarrow> string \<Rightarrow> string \<Rightarrow> 'w \<Rightarrow> 'k \<Rightarrow> ('w, 'k) passed" where
  "universal_Delete N me c path headers body content_type =
     pass_on (\<lambda>impl. Client_Delete N me impl path headers body content_type) c"

definition universal_Options ::
  "('k, 'm) Net_scheme \<Rightarrow> nat \<Rightarrow> ('w, 'k) Client \<Rightarrow> string \<Rightarrow> Headers \<Rightarrow> 'w \<Rightarrow> 'k \<Rightarrow> ('w, 'k) passed" where
  "universal_Options N me c path headers =
     pass_on (\<lambda>impl. Client_Options N me impl path headers) c"

definition universal_send_request ::
  "('k, 'm) Net_scheme \<Rightarrow> nat \<Rightarrow> ('w, 'k) Client \<Rightarrow> 'w Request \<Rightarrow> 'w \<Rightarrow> 'k \<Rightarrow> ('w, 'k) passed" where
  "universal_send_request N me c req =
     pass_on (\<lambda>impl. Client_send_request N me impl req) c"

text \<open>\<open>send\<close> with a response and an error, and \<open>stop\<close>.\<close>

definition universal_send ::
  "('k, 'm) Net_scheme \<Rightarrow> nat \<Rightarrow> ('w, 'k) Client \<Rightarrow> 'w Request \<Rightarrow> 'w Response \<Rightarrow> Error \<Rightarrow> 'w \<Rightarrow> 'k \<Rightarrow>
   failure + ((http_stop + bool) \<times> ('w, 'k) Client \<times> 'w Request \<times> 'w Response \<times> Error \<times> 'w \<times> 'k) option" where
  "universal_send N me c req res err w k =
     (case cli c of
        None \<Rightarrow> Inl (Undefined ''null client'')
      | Some impl \<Rightarrow> Inr (map_option (\<lambda>(r, impl', rest). (r, c\<lparr>cli := Some impl'\<rparr>, rest)) (Client_send N me impl req res err w k)))"

definition universal_stop ::
  "('k, 'm) Net_scheme \<Rightarrow> nat \<Rightarrow> ('w, 'k) Client \<Rightarrow> 'k \<Rightarrow> failure + bool \<times> ('w, 'k) Client \<times> 'k" where
  "universal_stop N me c k =
     (case cli c of
        None \<Rightarrow> Inl (Undefined ''null client'')
      | Some impl \<Rightarrow> (case Client_stop N me impl k of (b, impl', k') \<Rightarrow> Inr (b, c\<lparr>cli := Some impl'\<rparr>, k')))"

definition universal_ask :: "(('w, 'k) ClientImpl \<Rightarrow> 'a) \<Rightarrow> ('w, 'k) Client \<Rightarrow> 'a result" where
  "universal_ask f c = (case cli c of None \<Rightarrow> Inl (Undefined ''null client'') | Some impl \<Rightarrow> Inr (f impl))"

definition universal_host :: "('w, 'k) Client \<Rightarrow> string result" where
  "universal_host = universal_ask cl_host"

definition universal_port :: "('w, 'k) Client \<Rightarrow> int result" where
  "universal_port = universal_ask cl_port"

definition universal_is_socket_open :: "('w, 'k) Client \<Rightarrow> bool result" where
  "universal_is_socket_open = universal_ask is_socket_open"

definition universal_socket :: "('w, 'k) Client \<Rightarrow> nat option result" where
  "universal_socket = universal_ask client_socket"

subsection \<open>Settings\<close>

definition universal_set_hostname_addr_map :: "(string \<rightharpoonup> string) \<Rightarrow> (('w, 'k) Client, unit) eff" where
  "universal_set_hostname_addr_map m = pass_setting (set_hostname_addr_map m)"

definition universal_set_default_headers :: "Headers \<Rightarrow> (('w, 'k) Client, unit) eff" where
  "universal_set_default_headers hs = pass_setting (Client_set_default_headers hs)"

definition universal_set_header_writer :: "(Headers \<Rightarrow> BufferStream \<Rightarrow> int \<times> Headers \<times> BufferStream) \<Rightarrow> (('w, 'k) Client, unit) eff" where
  "universal_set_header_writer writer = pass_setting (Client_set_header_writer writer)"

definition universal_set_address_family :: "int \<Rightarrow> (('w, 'k) Client, unit) eff" where
  "universal_set_address_family family = pass_setting (Client_set_address_family family)"

definition universal_set_tcp_nodelay :: "bool \<Rightarrow> (('w, 'k) Client, unit) eff" where
  "universal_set_tcp_nodelay on = pass_setting (Client_set_tcp_nodelay on)"

definition universal_set_socket_options :: "(nat \<Rightarrow> 'k \<Rightarrow> 'k) option \<Rightarrow> (('w, 'k) Client, unit) eff" where
  "universal_set_socket_options f = pass_setting (Client_set_socket_options f)"

definition universal_set_connection_timeout :: "int \<Rightarrow> int \<Rightarrow> (('w, 'k) Client, unit) eff" where
  "universal_set_connection_timeout sec usec = pass_setting (Client_set_connection_timeout sec usec)"

definition universal_set_read_timeout :: "int \<Rightarrow> int \<Rightarrow> (('w, 'k) Client, unit) eff" where
  "universal_set_read_timeout sec usec = pass_setting (Client_set_read_timeout sec usec)"

definition universal_set_write_timeout :: "int \<Rightarrow> int \<Rightarrow> (('w, 'k) Client, unit) eff" where
  "universal_set_write_timeout sec usec = pass_setting (Client_set_write_timeout sec usec)"

definition universal_set_basic_auth :: "string \<Rightarrow> string \<Rightarrow> (('w, 'k) Client, unit) eff" where
  "universal_set_basic_auth username password = pass_setting (Client_set_basic_auth username password)"

definition universal_set_bearer_token_auth :: "string \<Rightarrow> (('w, 'k) Client, unit) eff" where
  "universal_set_bearer_token_auth token = pass_setting (Client_set_bearer_token_auth token)"

definition universal_set_keep_alive :: "bool \<Rightarrow> (('w, 'k) Client, unit) eff" where
  "universal_set_keep_alive on = pass_setting (Client_set_keep_alive on)"

definition universal_set_follow_location :: "bool \<Rightarrow> (('w, 'k) Client, unit) eff" where
  "universal_set_follow_location on = pass_setting (Client_set_follow_location on)"

definition universal_set_url_encode :: "bool \<Rightarrow> (('w, 'k) Client, unit) eff" where
  "universal_set_url_encode on = pass_setting (Client_set_url_encode on)"

definition universal_set_compress :: "bool \<Rightarrow> (('w, 'k) Client, unit) eff" where
  "universal_set_compress on = pass_setting (Client_set_compress on)"

definition universal_set_decompress :: "bool \<Rightarrow> (('w, 'k) Client, unit) eff" where
  "universal_set_decompress on = pass_setting (Client_set_decompress on)"

definition universal_set_interface :: "string \<Rightarrow> (('w, 'k) Client, unit) eff" where
  "universal_set_interface intf = pass_setting (Client_set_interface intf)"

definition universal_set_proxy :: "string \<Rightarrow> int \<Rightarrow> (('w, 'k) Client, unit) eff" where
  "universal_set_proxy h p = pass_setting (Client_set_proxy h p)"

definition universal_set_proxy_basic_auth :: "string \<Rightarrow> string \<Rightarrow> (('w, 'k) Client, unit) eff" where
  "universal_set_proxy_basic_auth username password = pass_setting (Client_set_proxy_basic_auth username password)"

definition universal_set_proxy_bearer_token_auth :: "string \<Rightarrow> (('w, 'k) Client, unit) eff" where
  "universal_set_proxy_bearer_token_auth token = pass_setting (Client_set_proxy_bearer_token_auth token)"

definition universal_set_logger :: "('w Request \<Rightarrow> 'w Response \<Rightarrow> 'w \<Rightarrow> 'w) \<Rightarrow> (('w, 'k) Client, unit) eff" where
  "universal_set_logger f = pass_setting (Client_set_logger f)"

subsection \<open>Addresses are understood\<close>

text \<open>The names and numbers that the expression knows: a name without the characters that end it, or a text of
  digits and colons that is written in brackets.\<close>

definition known_host :: "string \<Rightarrow> bool" where
  "known_host h \<longleftrightarrow>
     h \<noteq> [] \<and> hd h \<noteq> CHR ''['' \<and> CHR ''/'' \<notin> set h \<and> CHR ''?'' \<notin> set h \<and> CHR ''#'' \<notin> set h \<and>
     (CHR '':'' \<in> set h \<longrightarrow> list_all (\<lambda>c. is_digit c \<or> c = CHR '':'') h)"

lemma port_end_dec: "port_end (CHR '':'' # dec n) = Some (dec n)"
  using dec_digits [of _ n] by (auto simp: port_end_def list_all_iff)

lemma plain_with_port:
  assumes "known_host h" and "CHR '':'' \<notin> set h"
  shows "match_host_port (h @ CHR '':'' # dec n) = Some (h, dec n)"
proof -
  let ?P = "\<lambda>c. c \<notin> set '':/?#''"
  have h: "\<And>c. c \<in> set h \<Longrightarrow> ?P c" using assms by (auto simp: known_host_def)
  have "takeWhile ?P (h @ CHR '':'' # dec n) = h" "dropWhile ?P (h @ CHR '':'' # dec n) = CHR '':'' # dec n"
    using takeWhile_append2 [of h ?P "CHR '':'' # dec n"] dropWhile_append2 [of h ?P "CHR '':'' # dec n"] h by simp_all
  moreover have "bracketed_host (h @ CHR '':'' # dec n) = None"
    using assms(1) by (cases h) (simp_all add: bracketed_host_def known_host_def Let_def)
  ultimately show ?thesis using assms(1) by (simp add: match_host_port_def plain_host_def port_end_dec known_host_def)
qed

lemma bracketed_with_port:
  assumes "known_host h" and "CHR '':'' \<in> set h"
  shows "match_host_port (''['' @ h @ '']'' @ CHR '':'' # dec n) = Some (h, dec n)"
proof -
  let ?P = "\<lambda>c. is_digit c \<or> c = CHR '':''"
  have h: "\<And>c. c \<in> set h \<Longrightarrow> ?P c" using assms by (auto simp: known_host_def list_all_iff)
  have "\<not> ?P (CHR '']'')" by (simp add: is_digit_def)
  then have "takeWhile ?P (h @ CHR '']'' # CHR '':'' # dec n) = h"
    "dropWhile ?P (h @ CHR '']'' # CHR '':'' # dec n) = CHR '']'' # CHR '':'' # dec n"
    using h by (simp_all add: takeWhile_append2 dropWhile_append2)
  then show ?thesis using assms(1) by (simp add: match_host_port_def bracketed_host_def port_end_dec known_host_def Let_def)
qed

lemma host_with_port: "known_host h \<Longrightarrow> match_host_port (adjust_host_string h @ CHR '':'' # dec n) = Some (h, dec n)"
  using plain_with_port [of h n] bracketed_with_port [of h n] by (simp add: adjust_host_string_def)

lemma digit_not_slash: "c \<in> set (dec n) \<Longrightarrow> c \<noteq> CHR ''/''"
  using dec_digits [of c n] by (auto simp: is_digit_def)

lemma no_scheme: "CHR ''/'' \<notin> set u \<Longrightarrow> take 3 (dropWhile P u) \<noteq> ''://''"
proof
  assume a: "CHR ''/'' \<notin> set u" "take 3 (dropWhile P u) = ''://''"
  then have "CHR ''/'' \<in> set (take 3 (dropWhile P u))" by simp
  then show False using a(1) set_dropWhileD by (metis in_set_takeD)
qed

lemma adjusted_without_slash: "known_host h \<Longrightarrow> CHR ''/'' \<notin> set (adjust_host_string h @ CHR '':'' # dec n)"
  using digit_not_slash [of _ n] by (auto simp: known_host_def adjust_host_string_def)

lemma address_matches:
  assumes "known_host h"
  shows "match_address (adjust_host_string h @ CHR '':'' # dec n) = Some ([], h, dec n)"
    and "match_address (''http://'' @ adjust_host_string h @ CHR '':'' # dec n) = Some (''http'', h, dec n)"
proof -
  show "match_address (adjust_host_string h @ CHR '':'' # dec n) = Some ([], h, dec n)"
    using no_scheme [OF adjusted_without_slash [OF assms, of n], of is_lower] host_with_port [OF assms, of n]
    by (simp add: match_address_def Let_def)
  show "match_address (''http://'' @ adjust_host_string h @ CHR '':'' # dec n) = Some (''http'', h, dec n)"
    using host_with_port [OF assms, of n] by (simp add: match_address_def is_lower_def Let_def)
qed

text \<open>The address of a client is understood: from the host and the port of a \<open>ClientImpl\<close> written as the
  library writes them (brackets around an address with colons), with or without the scheme, \<open>Client\<close> makes a client
  for that host and port, and it is valid.\<close>

theorem client_address_roundtrip:
  assumes "known_host h" and "p < 2 ^ 31" and "scheme \<in> {[], ''http://''}"
  shows "\<exists>c. newClient_address (scheme @ host_and_port (newClientImpl_host_port h (int p) :: ('w, 'k) ClientImpl)) = Inr c \<and>
    Client_is_valid c \<and> c = (newClient_host_port h (int p) :: ('w, 'k) Client)"
proof -
  have hp: "host_and_port (newClientImpl_host_port h (int p) :: ('w, 'k) ClientImpl) = adjust_host_string h @ CHR '':'' # dec p"
    by (simp add: newClientImpl_host_port_def newClientImpl_def show_bound_def)
  have "newClient_address (scheme @ adjust_host_string h @ CHR '':'' # dec p) = Inr (newClient_host_port h (int p) :: ('w, 'k) Client)"
    using address_matches [OF assms(1), of p] stoi_dec [OF assms(2)] assms(3)
    by (auto simp: newClient_address_def newClient_def newClient_host_port_def newClientImpl_host_port_def)
  then show ?thesis by (simp add: hp newClient_host_port_def Client_is_valid_def)
qed

lemma client_address_roundtrip_witness:
  "\<exists>c. newClient_address (''http://'' @ host_and_port (newClientImpl_host_port ''::1'' (int 8080) :: (unit, unit) ClientImpl)) = Inr c \<and>
    Client_is_valid c \<and> c = (newClient_host_port ''::1'' (int 8080) :: (unit, unit) Client)"
  by (rule client_address_roundtrip) (simp_all add: known_host_def is_digit_def)

text \<open>Addresses that are not understood are taken as a whole for the name of a host: one that ends in a slash, and
  one in brackets with hexadecimal letters.  \<open>https\<close> is refused.\<close>

lemma address_with_slash:
  "newClient_address ''http://localhost:80/'' = Inr (newClient_host_port_cert ''http://localhost:80/'' 80 [] [] :: ('w, 'k) Client)"
proof -
  have "match_address ''http://localhost:80/'' = None" by code_simp
  then show ?thesis by (simp add: newClient_address_def newClient_def newClient_host_port_cert_def)
qed

lemma address_with_letters:
  "newClient_address ''[fe80::1]:80'' = Inr (newClient_host_port_cert ''[fe80::1]:80'' 80 [] [] :: ('w, 'k) Client)"
proof -
  have "match_address ''[fe80::1]:80'' = None" by code_simp
  then show ?thesis by (simp add: newClient_address_def newClient_def newClient_host_port_cert_def)
qed

lemma https_refused: "\<exists>e. newClient_address ''https://localhost'' = Inl (Invalid_argument e)"
proof -
  have "match_address ''https://localhost'' = Some (''https'', ''localhost'', [])" by code_simp
  then show ?thesis by (simp add: newClient_address_def newClient_def)
qed

end
