(* ===== verification/Http_Files.thy ===== *)
theory Http_Files
  imports Http_Process
begin

text \<open>
  Files of the HTTP library (\<open>httplib.h\<close>): the class \<open>mmap\<close> that maps a file for reading, and the tests of a path.
  The system calls are a parameter; \<open>Http_Process\<close> sees a mapped file through the bytes it gives.
\<close>

subsection \<open>System calls\<close>

datatype file_kind = Regular | Directory | Other_kind

text \<open>An address is a number, \<open>0\<close> the null pointer; a mapping that fails gives \<open>MAP_FAILED\<close>, which is \<open>-1\<close>.\<close>

record 'k FileSys =
  fs_stat :: "string \<Rightarrow> 'k \<Rightarrow> file_kind option"
  fs_open :: "string \<Rightarrow> 'k \<Rightarrow> nat option \<times> 'k"
  fs_size :: "nat \<Rightarrow> 'k \<Rightarrow> nat option"
  fs_mmap :: "nat \<Rightarrow> nat \<Rightarrow> 'k \<Rightarrow> int \<times> 'k"
  fs_munmap :: "int \<Rightarrow> nat \<Rightarrow> 'k \<Rightarrow> 'k"
  fs_close :: "nat \<Rightarrow> 'k \<Rightarrow> 'k"

definition map_failed :: int where
  "map_failed = -1"

definition is_regular_file :: "('k, 'm) FileSys_scheme \<Rightarrow> string \<Rightarrow> 'k \<Rightarrow> bool" where
  "is_regular_file F path k \<longleftrightarrow> fs_stat F (c_str path) k = Some Regular"

definition is_dir :: "('k, 'm) FileSys_scheme \<Rightarrow> string \<Rightarrow> 'k \<Rightarrow> bool" where
  "is_dir F path k \<longleftrightarrow> fs_stat F (c_str path) k = Some Directory"

subsection \<open>The class\<close>

record mmap =
  mm_fd :: "nat option"
  mm_size :: nat
  mm_addr :: int

definition newMmap :: mmap where
  "newMmap = \<lparr>mm_fd = None, mm_size = 0, mm_addr = 0\<rparr>"

definition mmap_close :: "('k, 'm) FileSys_scheme \<Rightarrow> mmap \<Rightarrow> 'k \<Rightarrow> mmap \<times> 'k" where
  "mmap_close F mm k =
     (let k1 = (if mm_addr mm \<noteq> 0 then fs_munmap F (mm_addr mm) (mm_size mm) k else k);
          k2 = (case mm_fd mm of None \<Rightarrow> k1 | Some fd \<Rightarrow> fs_close F fd k1)
      in (newMmap, k2))"

definition mmap_open :: "('k, 'm) FileSys_scheme \<Rightarrow> string \<Rightarrow> mmap \<Rightarrow> 'k \<Rightarrow> bool \<times> mmap \<times> 'k" where
  "mmap_open F path mm k =
     (case mmap_close F mm k of (mm0, k0) \<Rightarrow>
        case fs_open F path k0 of
          (None, k1) \<Rightarrow> (False, mm0, k1)
        | (Some fd, k1) \<Rightarrow>
            (case fs_size F fd k1 of
               None \<Rightarrow> (False, mmap_close F (mm0\<lparr>mm_fd := Some fd\<rparr>) k1)
             | Some n \<Rightarrow>
                 (case fs_mmap F n fd k1 of (a, k2) \<Rightarrow>
                    let mm1 = \<lparr>mm_fd = Some fd, mm_size = n, mm_addr = a\<rparr>
                    in if a = 0 then (False, mmap_close F mm1 k2) else (True, mm1, k2))))"

text \<open>The constructor makes an exception when \<open>open\<close> fails, and does not throw it.\<close>

definition mmap_new :: "('k, 'm) FileSys_scheme \<Rightarrow> string \<Rightarrow> 'k \<Rightarrow> mmap \<times> 'k" where
  "mmap_new F path k = snd (mmap_open F path newMmap k)"

definition mmap_is_open :: "mmap \<Rightarrow> bool" where
  "mmap_is_open mm \<longleftrightarrow> mm_addr mm \<noteq> 0"

definition mmap_destroy :: "('k, 'm) FileSys_scheme \<Rightarrow> mmap \<Rightarrow> 'k \<Rightarrow> 'k" where
  "mmap_destroy F mm k = snd (mmap_close F mm k)"

subsection \<open>What is taken is given back\<close>

text \<open>The open descriptors and the mapped addresses of a kernel.\<close>

definition counts_files :: "('k, 'm) FileSys_scheme \<Rightarrow> ('k \<Rightarrow> nat set) \<Rightarrow> ('k \<Rightarrow> int set) \<Rightarrow> bool" where
  "counts_files F opened mapped \<longleftrightarrow>
     (\<forall>path k. case fs_open F path k of
        (None, k') \<Rightarrow> opened k' = opened k \<and> mapped k' = mapped k
      | (Some fd, k') \<Rightarrow> fd \<notin> opened k \<and> opened k' = insert fd (opened k) \<and> mapped k' = mapped k) \<and>
     (\<forall>fd k. opened (fs_close F fd k) = opened k - {fd} \<and> mapped (fs_close F fd k) = mapped k) \<and>
     (\<forall>n fd k. case fs_mmap F n fd k of
        (a, k') \<Rightarrow> opened k' = opened k \<and>
          (if a \<in> {0, map_failed} then mapped k' = mapped k else a \<notin> mapped k \<and> mapped k' = insert a (mapped k))) \<and>
     (\<forall>a n k. opened (fs_munmap F a n k) = opened k \<and>
        mapped (fs_munmap F a n k) = (if a = map_failed then mapped k else mapped k - {a}))"

lemma counts_open:
  assumes "counts_files F opened mapped"
  shows "fs_open F path k = (None, k') \<Longrightarrow> opened k' = opened k \<and> mapped k' = mapped k"
    "fs_open F path k = (Some fd, k') \<Longrightarrow> fd \<notin> opened k \<and> opened k' = insert fd (opened k) \<and> mapped k' = mapped k"
proof -
  have a: "case fs_open F path k of
        (None, k') \<Rightarrow> opened k' = opened k \<and> mapped k' = mapped k
      | (Some fd, k') \<Rightarrow> fd \<notin> opened k \<and> opened k' = insert fd (opened k) \<and> mapped k' = mapped k"
    using assms by (simp only: counts_files_def)
  show "fs_open F path k = (None, k') \<Longrightarrow> opened k' = opened k \<and> mapped k' = mapped k" using a by simp
  show "fs_open F path k = (Some fd, k') \<Longrightarrow> fd \<notin> opened k \<and> opened k' = insert fd (opened k) \<and> mapped k' = mapped k"
    using a by simp
qed

lemma counts_mmap:
  assumes "counts_files F opened mapped" and "fs_mmap F n fd k = (a, k')"
  shows "opened k' = opened k"
    "a \<in> {0, map_failed} \<Longrightarrow> mapped k' = mapped k"
    "a \<notin> {0, map_failed} \<Longrightarrow> a \<notin> mapped k \<and> mapped k' = insert a (mapped k)"
proof -
  have "case fs_mmap F n fd k of (a, k') \<Rightarrow> opened k' = opened k \<and>
          (if a \<in> {0, map_failed} then mapped k' = mapped k else a \<notin> mapped k \<and> mapped k' = insert a (mapped k))"
    using assms(1) by (simp only: counts_files_def)
  then show "opened k' = opened k"
    "a \<in> {0, map_failed} \<Longrightarrow> mapped k' = mapped k"
    "a \<notin> {0, map_failed} \<Longrightarrow> a \<notin> mapped k \<and> mapped k' = insert a (mapped k)" by (auto simp: assms(2) split: if_splits)
qed

lemma counts_rest:
  assumes "counts_files F opened mapped"
  shows "opened (fs_close F fd k) = opened k - {fd}" "mapped (fs_close F fd k) = mapped k"
    "opened (fs_munmap F a n k) = opened k"
    "mapped (fs_munmap F a n k) = (if a = map_failed then mapped k else mapped k - {a})"
  using assms by (simp_all only: counts_files_def)

text \<open>A mapped file gives back what it took: whatever system call fails, after \<open>open\<close> that returned false, and
  after the destructor of an object whose constructor has run, the same descriptors are open and the same
  addresses are mapped as before.\<close>

theorem mapped_file_given_back:
  assumes "counts_files F opened mapped"
  shows "opened (mmap_destroy F (fst (mmap_new F path k)) (snd (mmap_new F path k))) = opened k \<and>
    mapped (mmap_destroy F (fst (mmap_new F path k)) (snd (mmap_new F path k))) = mapped k \<and>
    (\<forall>mm k'. mmap_open F path newMmap k = (False, mm, k') \<longrightarrow> opened k' = opened k \<and> mapped k' = mapped k)"
proof -
  note c = counts_rest [OF assms] and defs = mmap_open_def mmap_close_def mmap_new_def mmap_destroy_def newMmap_def
  show ?thesis
  proof (cases "fs_open F path k")
    case (Pair r k1)
    show ?thesis
    proof (cases r)
      case None
      then show ?thesis using Pair counts_open(1) [OF assms, of path k k1] by (simp add: defs)
    next
      case (Some fd)
      then have o: "fd \<notin> opened k \<and> opened k1 = insert fd (opened k) \<and> mapped k1 = mapped k"
        using Pair counts_open(2) [OF assms, of path k fd k1] by simp
      show ?thesis
      proof (cases "fs_size F fd k1")
        case None
        then show ?thesis using Pair Some o c by (simp add: defs)
      next
        case size: (Some n)
        obtain a k2 where m: "fs_mmap F n fd k1 = (a, k2)" by force
        show ?thesis
          using Pair Some size m o c counts_mmap [OF assms m] by (auto simp: defs Let_def map_failed_def)
      qed
    qed
  qed
qed

text \<open>A mapping that fails is not noticed: the object says it is open, at the address \<open>MAP_FAILED\<close>.\<close>

lemma failed_mapping_is_open:
  assumes "fs_open F path k = (Some fd, k1)" and "fs_size F fd k1 = Some n" and "fs_mmap F n fd k1 = (map_failed, k2)"
  shows "mmap_is_open (fst (mmap_new F path k)) \<and> mm_addr (fst (mmap_new F path k)) = map_failed"
  using assms by (simp add: mmap_new_def mmap_open_def mmap_close_def newMmap_def mmap_is_open_def map_failed_def)

text \<open>A kernel that counts.\<close>

definition small_files :: "(nat set \<times> int set) FileSys" where
  "small_files =
     \<lparr>fs_stat = (\<lambda>path k. Some Regular), fs_open = (\<lambda>path k. if 3 \<in> fst k then (None, k) else (Some 3, insert 3 (fst k), snd k)),
      fs_size = (\<lambda>fd k. Some 10),
      fs_mmap = (\<lambda>n fd k. if 4096 \<in> snd k then (map_failed, k) else (4096, fst k, insert 4096 (snd k))),
      fs_munmap = (\<lambda>a n k. if a = map_failed then k else (fst k, snd k - {a})), fs_close = (\<lambda>fd k. (fst k - {fd}, snd k))\<rparr>"

lemma small_files_count: "counts_files small_files fst snd"
  by (simp add: counts_files_def small_files_def map_failed_def)

lemma mapped_file_given_back_witness:
  "fst (mmap_destroy small_files (fst (mmap_new small_files ''f'' ({7}, {}))) (snd (mmap_new small_files ''f'' ({7}, {})))) = {7}"
  using mapped_file_given_back [OF small_files_count, of "''f''" "({7}, {})"] by (simp only: fst_conv)

end
