(* ===== verification/Http_Digest.thy ===== *)
theory Http_Digest
  imports Http_Client Http_Server_Laws
begin

text \<open>
  Digest authentication of the client (\<open>httplib.h\<close>), which is part of the library when it is built with OpenSSL: the
  parser of a challenge, the header that answers it, and the second attempt of a request.  The hash functions of
  OpenSSL give bytes and are a parameter, like \<open>std::rand\<close>.
\<close>

subsection \<open>The parser of a challenge\<close>

text \<open>The expression \<open>(?:(?:,\s*)?(.+?)=(?:"(.*?)"|([^,]*)))\<close>: a dot is not a line end, and the shortest key and the
  shortest quoted value are taken.  The last alternative always fits, also with nothing.\<close>

definition is_dot :: "char \<Rightarrow> bool" where
  "is_dot c \<longleftrightarrow> c \<noteq> CHR 0x0A \<and> c \<noteq> CHR 0x0D"

definition is_ws :: "char \<Rightarrow> bool" where
  "is_ws c \<longleftrightarrow> c \<in> {CHR '' '', CHR 0x09, CHR 0x0A, CHR 0x0B, CHR 0x0C, CHR 0x0D}"

fun lazy_upto :: "char \<Rightarrow> string \<Rightarrow> (string \<times> string) option" where
  "lazy_upto d [] = None"
| "lazy_upto d (c # s) =
     (if c = d then Some ([], s)
      else if is_dot c then map_option (\<lambda>(k, rest). (c # k, rest)) (lazy_upto d s)
      else None)"

fun lazy_key :: "string \<Rightarrow> (string \<times> string) option" where
  "lazy_key [] = None"
| "lazy_key (c # s) = (if is_dot c then map_option (\<lambda>(k, rest). (c # k, rest)) (lazy_upto CHR ''='' s) else None)"

text \<open>Where the key may begin, in the order in which the alternatives are tried.\<close>

definition key_starts :: "string \<Rightarrow> string list" where
  "key_starts s =
     (if s \<noteq> [] \<and> hd s = CHR '',''
      then map (\<lambda>j. drop j (tl s)) (rev [0..<length (takeWhile is_ws (tl s)) + 1]) @ [s]
      else [s])"

fun first_key :: "string list \<Rightarrow> (string \<times> string) option" where
  "first_key [] = None"
| "first_key (s # ss) = (case lazy_key s of None \<Rightarrow> first_key ss | Some r \<Rightarrow> Some r)"

definition param_value :: "string \<Rightarrow> string \<times> string" where
  "param_value s =
     (case (if s \<noteq> [] \<and> hd s = CHR 0x22 then lazy_upto CHR 0x22 (tl s) else None) of
        Some (v, rest) \<Rightarrow> (v, rest)
      | None \<Rightarrow> (takeWhile (\<lambda>c. c \<noteq> CHR '','') s, dropWhile (\<lambda>c. c \<noteq> CHR '','') s))"

definition match_param :: "string \<Rightarrow> (string \<times> string \<times> string) option" where
  "match_param s =
     (case first_key (key_starts s) of
        None \<Rightarrow> None
      | Some (k, r) \<Rightarrow> (case param_value r of (v, rest) \<Rightarrow> Some (k, v, rest)))"

lemma lazy_upto_shorter: "lazy_upto d s = Some (k, r) \<Longrightarrow> length r < length s"
  by (induction s arbitrary: k) (fastforce split: if_splits)+

lemma lazy_key_shorter: "lazy_key s = Some (k, r) \<Longrightarrow> length r < length s"
  by (cases s) (auto split: if_splits dest: lazy_upto_shorter)

lemma first_key_shorter:
  "first_key ss = Some (k, r) \<Longrightarrow> (\<And>s. s \<in> set ss \<Longrightarrow> length s \<le> n) \<Longrightarrow> length r < n"
proof (induction ss)
  case (Cons s ss)
  then show ?case
    by (cases "lazy_key s") (auto dest!: lazy_key_shorter intro: less_le_trans)
qed simp

lemma match_param_shorter:
  assumes "match_param s = Some (k, v, rest)"
  shows "length rest < length s"
proof -
  obtain r where f: "first_key (key_starts s) = Some (k, r)" and v: "param_value r = (v, rest)"
    using assms by (auto simp: match_param_def split: option.splits prod.splits)
  have "length x \<le> length s" if "x \<in> set (key_starts s)" for x
    using that by (auto simp: key_starts_def split: if_splits)
  with f have "length r < length s" by (rule first_key_shorter)
  moreover have "length rest \<le> length r"
  proof (cases "r \<noteq> [] \<and> hd r = CHR 0x22 \<and> lazy_upto CHR 0x22 (tl r) \<noteq> None")
    case True
    then obtain x where "lazy_upto CHR 0x22 (tl r) = Some (x, rest)"
      using v by (auto simp: param_value_def split: option.splits)
    then show ?thesis using lazy_upto_shorter [of "CHR 0x22" "tl r" x rest] by simp
  next
    case False
    then have "rest = dropWhile (\<lambda>c. c \<noteq> CHR '','') r" using v by (auto simp: param_value_def split: if_splits option.splits)
    then show ?thesis by (simp add: length_dropWhile_le)
  qed
  ultimately show ?thesis by simp
qed

text \<open>The matches from left to right.\<close>

function find_params :: "string \<Rightarrow> (string \<times> string) list" where
  "find_params s =
     (if s = [] then []
      else case match_param s of
        Some (k, v, rest) \<Rightarrow> (k, v) # find_params rest
      | None \<Rightarrow> find_params (tl s))"
  by pat_completeness auto
termination
  by (relation "measure length") (auto dest: match_param_shorter)

declare find_params.simps [simp del]

text \<open>The result, and the map it fills.\<close>

definition parse_www_authenticate ::
  "'w Response \<Rightarrow> (string \<rightharpoonup> string) \<Rightarrow> bool \<Rightarrow> bool \<times> (string \<rightharpoonup> string)" where
  "parse_www_authenticate res auth is_proxy =
     (let auth_key = (if is_proxy then ''Proxy-Authenticate'' else ''WWW-Authenticate'');
          s = first_value (rs_headers res) auth_key
      in if Response_has_header res auth_key then
           (case str_find '' '' s 0 of
              None \<Rightarrow> (False, auth)
            | Some pos \<Rightarrow>
                (if take pos s = ''Basic'' then (False, auth)
                 else if take pos s = ''Digest''
                 then (True, fold (\<lambda>(k, v) m. m(k \<mapsto> v)) (find_params (drop (pos + 1) s)) auth)
                 else (False, auth)))
         else (False, auth))"

subsection \<open>The answer\<close>

definition hex_byte :: "char \<Rightarrow> string" where
  "hex_byte c = [hex_char (of_char c div 16), hex_char (of_char c mod 16)]"

definition message_digest :: "(string \<Rightarrow> string) \<Rightarrow> string \<Rightarrow> string" where
  "message_digest algo s = concat (map hex_byte (algo s))"

text \<open>The three hash functions.\<close>

record hashes =
  evp_md5 :: "string \<Rightarrow> string"
  evp_sha256 :: "string \<Rightarrow> string"
  evp_sha512 :: "string \<Rightarrow> string"

definition MD5 :: "hashes \<Rightarrow> string \<Rightarrow> string" where "MD5 E = message_digest (evp_md5 E)"
definition SHA_256 :: "hashes \<Rightarrow> string \<Rightarrow> string" where "SHA_256 E = message_digest (evp_sha256 E)"
definition SHA_512 :: "hashes \<Rightarrow> string \<Rightarrow> string" where "SHA_512 E = message_digest (evp_sha512 E)"

definition charset :: string where
  "charset = ''0123456789ABCDEFGHIJKLMNOPQRSTUVWXYZabcdefghijklmnopqrstuvwxyz''"

fun random_string :: "('k \<Rightarrow> nat \<times> 'k) \<Rightarrow> nat \<Rightarrow> 'k \<Rightarrow> string \<times> 'k" where
  "random_string rand 0 k = ([], k)"
| "random_string rand (Suc n) k =
     (case rand k of (i, k1) \<Rightarrow>
        case random_string rand n k1 of (s, k2) \<Rightarrow> (charset ! (i mod 62) # s, k2))"

definition padded_hex :: "nat \<Rightarrow> string" where
  "padded_hex n = replicate (8 - length (from_i_to_hex n)) CHR ''0'' @ from_i_to_hex n"

definition digest_qop :: "(string \<rightharpoonup> string) \<Rightarrow> string" where
  "digest_qop auth =
     (case auth ''qop'' of
        None \<Rightarrow> []
      | Some q \<Rightarrow> if str_find ''auth-int'' q 0 \<noteq> None then ''auth-int''
                 else if str_find ''auth'' q 0 \<noteq> None then ''auth'' else [])"

definition digest_response ::
  "(string \<Rightarrow> string) \<Rightarrow> 'w Request \<Rightarrow> string \<Rightarrow> string \<Rightarrow> string \<Rightarrow> string \<Rightarrow> string \<Rightarrow> string \<Rightarrow> string \<Rightarrow> string" where
  "digest_response H req username realm password nonce nc cnonce qop =
     (let A1 = username @ '':'' @ realm @ '':'' @ password;
          A2 = rq_method req @ '':'' @ rq_path req @ (if qop = ''auth-int'' then '':'' @ H (rq_body req) else [])
      in if qop = [] then H (H A1 @ '':'' @ nonce @ '':'' @ H A2)
         else H (H A1 @ '':'' @ nonce @ '':'' @ nc @ '':'' @ cnonce @ '':'' @ qop @ '':'' @ H A2))"

text \<open>\<open>auth.at\<close> throws when the challenge lacks the realm or the nonce.\<close>

definition make_digest_authentication_header ::
  "hashes \<Rightarrow> 'w Request \<Rightarrow> (string \<rightharpoonup> string) \<Rightarrow> nat \<Rightarrow> string \<Rightarrow> string \<Rightarrow> string \<Rightarrow> bool \<Rightarrow> (string \<times> string) result" where
  "make_digest_authentication_header E req auth cnonce_count cnonce username password is_proxy =
     (let nc = padded_hex cnonce_count;
          qop = digest_qop auth;
          algo = (case auth ''algorithm'' of None \<Rightarrow> ''MD5'' | Some a \<Rightarrow> a);
          H = (if algo = ''SHA-256'' then SHA_256 E else if algo = ''SHA-512'' then SHA_512 E else MD5 E);
          opaque = (case auth ''opaque'' of None \<Rightarrow> [] | Some a \<Rightarrow> a)
      in case (auth ''realm'', auth ''nonce'') of
           (Some realm, Some nonce) \<Rightarrow>
             Inr (if is_proxy then ''Proxy-Authorization'' else ''Authorization'',
                  ''Digest username=\"'' @ username @ ''\", realm=\"'' @ realm @ ''\", nonce=\"'' @ nonce @
                  ''\", uri=\"'' @ rq_path req @ ''\", algorithm='' @ algo @
                  (if qop = [] then '', response=\"''
                   else '', qop='' @ qop @ '', nc='' @ nc @ '', cnonce=\"'' @ cnonce @ ''\", response=\"'') @
                  digest_response H req username realm password nonce nc cnonce qop @ ''\"'' @
                  (if opaque = [] then [] else '', opaque=\"'' @ opaque @ ''\"''))
         | _ \<Rightarrow> Inl (Out_of_range ''map::at''))"

subsection \<open>The second attempt\<close>

text \<open>The end of \<open>handle_request\<close>: a request that is refused is sent again by \<open>go\<close>, up to five times.  The user and
  the password are those of the server or of the proxy.\<close>

definition digest_retry ::
  "hashes \<Rightarrow> ('k \<Rightarrow> nat \<times> 'k) \<Rightarrow> string \<times> string \<Rightarrow> string \<times> string \<Rightarrow> ('w, 'k) sender \<Rightarrow>
   (http_stop + bool) \<Rightarrow> ('w, 'k) ClientImpl \<Rightarrow> 'w Request \<Rightarrow> 'w Response \<Rightarrow> Error \<Rightarrow> 'w \<Rightarrow> 'k \<Rightarrow> ('w, 'k) sent" where
  "digest_retry E rand digest_auth proxy_digest_auth go r cl req res err w k =
     (let is_proxy = (rs_status res = 407);
          (username, password) = (if is_proxy then proxy_digest_auth else digest_auth);
          (found, auth) = parse_www_authenticate res Map.empty is_proxy
      in if (rs_status res = 401 \<or> rs_status res = 407) \<and> authorization_count req < 5 \<and>
            username \<noteq> [] \<and> password \<noteq> [] \<and> found
         then (case random_string rand 10 k of (cnonce, k1) \<Rightarrow>
           case make_digest_authentication_header E req auth (authorization_count req + 1) cnonce username password is_proxy of
             Inl e \<Rightarrow> Some (Inl (Threw (Std_exception ''out_of_range'')), cl, req, res, err, w, k1)
           | Inr (key, field) \<Rightarrow>
               (let new_req = req
                  \<lparr>authorization_count := authorization_count req + 1,
                   rq_headers := mm_emplace ci_less key field (mm_erase ci_less key (rq_headers req))\<rparr>
                in map_option
                     (\<lambda>(r', cl', req', new_res, err', w', k').
                       (r', cl', req, (if r' = Inr True then new_res else res), err', w', k'))
                     (go cl new_req newResponse err w k1)))
         else Some (r, cl, req, res, err, w, k))"

subsection \<open>Printed parameters\<close>

text \<open>A parameter of a challenge or of an answer: its key, its value, and whether it is in quotes.\<close>

type_synonym param = "string \<times> string \<times> bool"

fun print_param :: "param \<Rightarrow> string" where
  "print_param (k, v, quoted) = k @ ''='' @ (if quoted then ''\"'' @ v @ ''\"'' else v)"

fun print_params :: "param list \<Rightarrow> string" where
  "print_params [] = []"
| "print_params [p] = print_param p"
| "print_params (p # ps) = print_param p @ '', '' @ print_params ps"

fun param_ok :: "param \<Rightarrow> bool" where
  "param_ok (k, v, quoted) \<longleftrightarrow>
     k \<noteq> [] \<and> list_all (\<lambda>c. is_dot c \<and> c \<noteq> CHR ''='' \<and> c \<noteq> CHR '','' \<and> \<not> is_ws c) k \<and>
     (if quoted then list_all (\<lambda>c. is_dot c \<and> c \<noteq> CHR 0x22) v
      else list_all (\<lambda>c. c \<noteq> CHR '','' \<and> c \<noteq> CHR 0x22) v)"

lemma lazy_upto_plain: "list_all (\<lambda>c. is_dot c \<and> c \<noteq> d) k \<Longrightarrow> lazy_upto d (k @ d # rest) = Some (k, rest)"
  by (induction k) auto

lemma lazy_key_plain:
  assumes "k \<noteq> []" and "list_all (\<lambda>c. is_dot c \<and> c \<noteq> CHR ''='' \<and> c \<noteq> CHR '','' \<and> \<not> is_ws c) k"
  shows "lazy_key (k @ CHR ''='' # rest) = Some (k, rest)"
proof -
  obtain c k' where k: "k = c # k'" using assms(1) by (cases k) auto
  have "list_all (\<lambda>c. is_dot c \<and> c \<noteq> CHR ''='') k'" using assms(2) by (simp add: k list_all_iff)
  then show ?thesis using assms(2) by (simp add: k lazy_upto_plain)
qed

lemma param_value_printed:
  assumes "param_ok (k, v, quoted)" and "r = [] \<or> hd r = CHR '',''"
  shows "param_value ((if quoted then ''\"'' @ v @ ''\"'' else v) @ r) = (v, r)"
proof (cases quoted)
  case True
  then show ?thesis using assms(1) lazy_upto_plain [of "CHR 0x22" v r] by (simp add: param_value_def)
next
  case False
  then have v: "\<forall>c \<in> set v. c \<noteq> CHR '',''" "CHR 0x22 \<notin> set v" using assms(1) by (auto simp: list_all_iff)
  have "\<not> (v @ r \<noteq> [] \<and> hd (v @ r) = CHR 0x22)" using v(2) assms(2) by (cases v) auto
  moreover have "takeWhile (\<lambda>c. c \<noteq> CHR '','') (v @ r) = v" "dropWhile (\<lambda>c. c \<noteq> CHR '','') (v @ r) = r"
    using v(1) assms(2) by (cases r; simp add: takeWhile_append dropWhile_append)+
  ultimately show ?thesis using False by (auto simp: param_value_def)
qed

lemma key_start_printed:
  assumes "param_ok (k, v, quoted)"
  shows "key_starts (k @ t) = [k @ t]"
    "\<exists>more. key_starts (CHR '','' # CHR '' '' # k @ t) = (k @ t) # more"
proof -
  obtain c k' where k: "k = c # k'" and c: "c \<noteq> CHR '',''" "\<not> is_ws c" using assms by (cases k) auto
  show "key_starts (k @ t) = [k @ t]" using c by (simp add: key_starts_def k)
  have "takeWhile is_ws (CHR '' '' # k @ t) = [CHR '' '']" using c by (simp add: k is_ws_def)
  then show "\<exists>more. key_starts (CHR '','' # CHR '' '' # k @ t) = (k @ t) # more"
    by (simp add: key_starts_def upt_rec)
qed

lemma match_printed:
  assumes "param_ok p" and "r = [] \<or> hd r = CHR '',''"
  shows "match_param (print_param p @ r) = Some (fst p, fst (snd p), r)"
    "match_param (CHR '','' # CHR '' '' # print_param p @ r) = Some (fst p, fst (snd p), r)"
proof -
  obtain k v quoted where p: "p = (k, v, quoted)" by (cases p) auto
  let ?t = "(if quoted then ''\"'' @ v @ ''\"'' else v) @ r"
  have e: "print_param p @ r = k @ CHR ''='' # ?t" by (simp add: p)
  have l: "lazy_key (k @ CHR ''='' # ?t) = Some (k, ?t)" using assms(1) by (intro lazy_key_plain) (simp_all add: p)
  have v: "param_value ?t = (v, r)" using assms by (intro param_value_printed) (simp_all add: p)
  show "match_param (print_param p @ r) = Some (fst p, fst (snd p), r)"
    unfolding e match_param_def key_start_printed(1) [OF assms(1) [unfolded p]] using l v by (simp add: p)
  obtain more where "key_starts (CHR '','' # CHR '' '' # k @ CHR ''='' # ?t) = (k @ CHR ''='' # ?t) # more"
    using key_start_printed(2) [OF assms(1) [unfolded p]] by blast
  then show "match_param (CHR '','' # CHR '' '' # print_param p @ r) = Some (fst p, fst (snd p), r)"
    unfolding e match_param_def using l v by (simp add: p)
qed

lemma find_params_found: "match_param s = Some (k, v, rest) \<Longrightarrow> s \<noteq> [] \<Longrightarrow> find_params s = (k, v) # find_params rest"
  by (subst find_params.simps) simp

lemma find_params_empty: "find_params [] = []"
  by (subst find_params.simps) simp

abbreviation bindings :: "param list \<Rightarrow> (string \<times> string) list" where
  "bindings ps \<equiv> map (\<lambda>p. (fst p, fst (snd p))) ps"

lemma print_params_Cons: "print_params (p # ps) = print_param p @ (if ps = [] then [] else '', '' @ print_params ps)"
  by (cases ps) simp_all

lemma find_params_printed: "list_all param_ok ps \<Longrightarrow> find_params (print_params ps) = bindings ps"
proof -
  have go: "find_params (if ps = [] then [] else '', '' @ print_params ps) = bindings ps" if "list_all param_ok ps" for ps
    using that
  proof (induction ps)
    case (Cons p ps)
    let ?r = "if ps = [] then [] else '', '' @ print_params ps"
    have "match_param (CHR '','' # CHR '' '' # print_param p @ ?r) = Some (fst p, fst (snd p), ?r)"
      using Cons.prems by (intro match_printed(2)) simp_all
    from find_params_found [OF this] show ?case using Cons by (simp add: print_params_Cons)
  qed (simp add: find_params_empty)
  assume ok: "list_all param_ok ps"
  show "find_params (print_params ps) = bindings ps"
  proof (cases ps)
    case (Cons p qs)
    let ?r = "if qs = [] then [] else '', '' @ print_params qs"
    have "match_param (print_param p @ ?r) = Some (fst p, fst (snd p), ?r)"
      using ok by (intro match_printed(1)) (simp_all add: Cons)
    moreover have "print_param p @ ?r \<noteq> []" by (cases p) simp
    ultimately have "find_params (print_params ps) = (fst p, fst (snd p)) # find_params ?r"
      unfolding Cons print_params_Cons by (rule find_params_found)
    then show ?thesis using go [of qs] ok by (simp add: Cons)
  qed (simp add: find_params_empty)
qed

subsection \<open>Challenge and answer\<close>

lemma fold_bind: "fold (\<lambda>(k, v) m. m(k \<mapsto> v)) xs m = m ++ map_of (rev xs)"
  by (induction xs arbitrary: m) (auto simp: map_add_def split: option.splits)

lemma find_at_space: "CHR '' '' \<notin> set u \<Longrightarrow> find_at '' '' (u @ CHR '' '' # t) = Some (length u)"
  by (induction u) auto

lemma find_space: "CHR '' '' \<notin> set u \<Longrightarrow> str_find '' '' (u @ CHR '' '' # t) 0 = Some (length u)"
  by (simp add: str_find_def find_at_space)

text \<open>C39: A challenge is understood: when the first header of its name holds printed parameters, the parser binds each
  key to its value, the last one of a key winning, whatever the other headers are.\<close>

theorem challenge_roundtrip:
  assumes "mm_sorted ci_less (rs_headers res)"
    and "header_values (rs_headers res) (if is_proxy then ''Proxy-Authenticate'' else ''WWW-Authenticate'') =
      (''Digest '' @ print_params ps) # vs"
    and "list_all param_ok ps" and "CHR 0x00 \<notin> set (print_params ps)"
  shows "parse_www_authenticate res auth is_proxy = (True, auth ++ map_of (rev (bindings ps)))"
proof -
  let ?k = "if is_proxy then ''Proxy-Authenticate'' else ''WWW-Authenticate''" and ?s = "''Digest '' @ print_params ps"
  have "first_value (rs_headers res) ?k = c_str ?s" by (simp only: first_value_values [OF assms(1)] assms(2) list.case)
  also have "... = ?s" using assms(4) by (intro c_str_whole) simp
  finally have v: "first_value (rs_headers res) ?k = ?s" .
  have h: "Response_has_header res ?k" by (simp only: Response_has_header_values assms(2)) simp
  have "str_find '' '' ?s 0 = Some 6" using find_space [of "''Digest''" "print_params ps"] by simp
  then show ?thesis
    unfolding parse_www_authenticate_def Let_def v using h
    by (simp add: find_params_printed [OF assms(3)] fold_bind)
qed

lemma challenge_roundtrip_witness:
  "parse_www_authenticate
     (newResponse\<lparr>rs_headers := [(''WWW-Authenticate'', ''Digest '' @
        print_params [(''realm'', ''a, b'', True), (''nonce'', ''x=1'', False)])]\<rparr>) Map.empty False =
   (True, Map.empty ++ map_of (rev [(''realm'', ''a, b''), (''nonce'', ''x=1'')]))"
proof -
  let ?ps = "[(''realm'', ''a, b'', True), (''nonce'', ''x=1'', False)]"
  let ?r = "newResponse\<lparr>rs_headers := [(''WWW-Authenticate'', ''Digest '' @ print_params ?ps)]\<rparr>"
  have s: "mm_sorted ci_less (rs_headers ?r)" by (simp add: mm_sorted_def)
  have h: "header_values (rs_headers ?r) (if False then ''Proxy-Authenticate'' else ''WWW-Authenticate'') =
      (''Digest '' @ print_params ?ps) # []"
    using ci.range_filter [OF s, of "''WWW-Authenticate''"] by (simp add: header_values_def ci_same del: print_params.simps)
  have "list_all param_ok ?ps" "CHR 0x00 \<notin> set (print_params ?ps)" by (simp_all add: is_dot_def is_ws_def)
  from challenge_roundtrip [OF s h this, of Map.empty] show ?thesis by simp
qed

lemma hex_clean: "is_hex c \<noteq> None \<Longrightarrow> is_dot c \<and> c \<noteq> CHR 0x22 \<and> c \<noteq> CHR '','' \<and> c \<noteq> CHR 0x00"
  by (auto simp: is_hex_def is_dot_def byte_def Let_def split: if_splits)

lemma digest_is_hex: "list_all (\<lambda>c. is_hex c \<noteq> None) (message_digest algo s)"
proof -
  have "list_all (\<lambda>c. is_hex c \<noteq> None) (hex_byte c)" for c
  proof -
    have "(of_char c :: nat) < 256" by (rule nat_of_char_less_256)
    then have "(of_char c :: nat) div 16 < 16" by linarith
    then show ?thesis by (simp add: hex_byte_def)
  qed
  then show ?thesis by (simp add: message_digest_def list_all_iff)
qed

lemma padded_is_hex: "list_all (\<lambda>c. is_hex c \<noteq> None) (padded_hex n)"
proof -
  have "is_hex CHR ''0'' \<noteq> None" by (simp add: is_hex_def byte_def)
  then show ?thesis using from_i_to_hex_digits [of n] by (auto simp: padded_hex_def list_all_iff)
qed

lemma hex_quoted: "list_all (\<lambda>c. is_hex c \<noteq> None) v \<Longrightarrow> list_all (\<lambda>c. is_dot c \<and> c \<noteq> CHR 0x22) v"
  and hex_unquoted: "list_all (\<lambda>c. is_hex c \<noteq> None) v \<Longrightarrow> list_all (\<lambda>c. c \<noteq> CHR '','' \<and> c \<noteq> CHR 0x22) v"
  using hex_clean by (auto simp: list_all_iff)

text \<open>The parameters of an answer with MD5 and the protection \<open>auth\<close>.\<close>

definition answer_params ::
  "string \<Rightarrow> string \<Rightarrow> string \<Rightarrow> string \<Rightarrow> string \<Rightarrow> string \<Rightarrow> string \<Rightarrow> string \<Rightarrow> param list" where
  "answer_params username realm nonce uri nc cnonce response opaque =
     [(''username'', username, True), (''realm'', realm, True), (''nonce'', nonce, True), (''uri'', uri, True),
      (''algorithm'', ''MD5'', False), (''qop'', ''auth'', False), (''nc'', nc, False), (''cnonce'', cnonce, True),
      (''response'', response, True)] @ (if opaque = [] then [] else [(''opaque'', opaque, True)])"

definition quotable :: "string \<Rightarrow> bool" where
  "quotable v \<longleftrightarrow> list_all (\<lambda>c. is_dot c \<and> c \<noteq> CHR 0x22) v"

lemma answer_params_ok:
  assumes "quotable username" and "quotable realm" and "quotable nonce" and "quotable uri" and "quotable cnonce"
    and "quotable opaque" and "list_all (\<lambda>c. is_hex c \<noteq> None) nc" and "list_all (\<lambda>c. is_hex c \<noteq> None) response"
  shows "list_all param_ok (answer_params username realm nonce uri nc cnonce response opaque)"
  using assms hex_quoted [OF assms(8)] hex_unquoted [OF assms(7)]
  by (simp add: answer_params_def quotable_def is_dot_def is_ws_def)

lemma answer_printed:
  assumes "auth ''realm'' = Some realm" and "auth ''nonce'' = Some nonce" and "digest_qop auth = ''auth''"
    and "auth ''algorithm'' \<in> {None, Some ''MD5''}" and "auth ''opaque'' = opaque"
  shows "make_digest_authentication_header E req auth n cnonce username password is_proxy =
    Inr (if is_proxy then ''Proxy-Authorization'' else ''Authorization'',
      ''Digest '' @ print_params (answer_params username realm nonce (rq_path req) (padded_hex n) cnonce
        (digest_response (MD5 E) req username realm password nonce (padded_hex n) cnonce ''auth'')
        (case opaque of None \<Rightarrow> [] | Some a \<Rightarrow> a)))"
  using assms by (auto simp: make_digest_authentication_header_def answer_params_def Let_def)

text \<open>C38: The answer to a challenge that names MD5 or no algorithm and offers the protection \<open>auth\<close>, for a user name, a
  realm, a nonce, a path, a client nonce and an opaque value that can stand in quotes: the header holds the fields of
  RFC 2617 in its format, with the values of the challenge and of the request, and the response is the one that RFC 2617
  prescribes for these fields, the method and the password.  There is no server for it in the library; the fields are
  read back by the parser of the library for challenges.\<close>

theorem digest_answer_accepted:
  assumes "auth ''realm'' = Some realm" and "auth ''nonce'' = Some nonce" and "digest_qop auth = ''auth''"
    and "auth ''algorithm'' \<in> {None, Some ''MD5''}"
    and "quotable username" and "quotable realm" and "quotable nonce" and "quotable (rq_path req)" and "quotable cnonce"
    and "quotable (case auth ''opaque'' of None \<Rightarrow> [] | Some a \<Rightarrow> a)"
  shows "\<exists>response ps.
    ps = answer_params username realm nonce (rq_path req) (padded_hex n) cnonce response
      (case auth ''opaque'' of None \<Rightarrow> [] | Some a \<Rightarrow> a) \<and>
    make_digest_authentication_header E req auth n cnonce username password is_proxy =
      Inr (if is_proxy then ''Proxy-Authorization'' else ''Authorization'', ''Digest '' @ print_params ps) \<and>
    response = MD5 E (MD5 E (username @ '':'' @ realm @ '':'' @ password) @ '':'' @ nonce @ '':'' @ padded_hex n @ '':'' @
      cnonce @ '':auth:'' @ MD5 E (rq_method req @ '':'' @ rq_path req)) \<and>
    find_params (print_params ps) = bindings ps"
proof -
  let ?nc = "padded_hex n" and ?opaque = "case auth ''opaque'' of None \<Rightarrow> [] | Some a \<Rightarrow> a"
  let ?resp = "digest_response (MD5 E) req username realm password nonce ?nc cnonce ''auth''"
  let ?ps = "answer_params username realm nonce (rq_path req) ?nc cnonce ?resp ?opaque"
  have "\<exists>x. ?resp = message_digest (evp_md5 E) x" by (simp add: digest_response_def MD5_def) blast
  then have "list_all (\<lambda>c. is_hex c \<noteq> None) ?resp" using digest_is_hex by metis
  then have ok: "list_all param_ok ?ps" using assms(5-10) padded_is_hex by (intro answer_params_ok) auto
  have h: "make_digest_authentication_header E req auth n cnonce username password is_proxy =
      Inr (if is_proxy then ''Proxy-Authorization'' else ''Authorization'', ''Digest '' @ print_params ?ps)"
    using answer_printed [OF assms(1-4) refl] .
  have f: "find_params (print_params ?ps) = bindings ?ps" by (rule find_params_printed [OF ok])
  have "?resp = MD5 E (MD5 E (username @ '':'' @ realm @ '':'' @ password) @ '':'' @ nonce @ '':'' @ ?nc @ '':'' @
      cnonce @ '':auth:'' @ MD5 E (rq_method req @ '':'' @ rq_path req))"
    by (simp add: digest_response_def)
  with h f show ?thesis by blast
qed

lemma digest_answer_accepted_witness:
  "\<exists>key fields. make_digest_authentication_header \<lparr>evp_md5 = (\<lambda>s. s), evp_sha256 = (\<lambda>s. s), evp_sha512 = (\<lambda>s. s)\<rparr>
      (newRequest\<lparr>rq_method := ''GET'', rq_path := ''/''\<rparr> :: unit Request)
      [''realm'' \<mapsto> ''r'', ''nonce'' \<mapsto> ''n'', ''qop'' \<mapsto> ''auth''] 1 ''c'' ''user'' ''secret'' False =
      Inr (key, ''Digest '' @ fields) \<and> map_of (find_params fields) ''username'' = Some ''user'' \<and>
      map_of (find_params fields) ''realm'' = Some ''r''"
proof -
  let ?auth = "[''realm'' \<mapsto> ''r'', ''nonce'' \<mapsto> ''n'', ''qop'' \<mapsto> ''auth''] :: string \<rightharpoonup> string"
  let ?E = "\<lparr>evp_md5 = (\<lambda>s. s), evp_sha256 = (\<lambda>s. s), evp_sha512 = (\<lambda>s. s)\<rparr>" and ?req = "newRequest\<lparr>rq_method := ''GET'', rq_path := ''/''\<rparr> :: unit Request"
  have q: "digest_qop ?auth = ''auth''" by (simp add: digest_qop_def str_find_def)
  obtain response ps where ps: "ps = answer_params ''user'' ''r'' ''n'' (rq_path ?req) (padded_hex 1) ''c'' response []"
    "make_digest_authentication_header ?E ?req ?auth 1 ''c'' ''user'' ''secret'' False = Inr (''Authorization'', ''Digest '' @ print_params ps)"
    "find_params (print_params ps) = bindings ps"
    using digest_answer_accepted [of ?auth "''r''" "''n''" "''user''" ?req "''c''" 1 ?E "''secret''" False] q
    by (auto simp: quotable_def is_dot_def)
  have "map_of (bindings ps) ''username'' = Some ''user''" "map_of (bindings ps) ''realm'' = Some ''r''"
    by (simp_all add: ps(1) answer_params_def)
  with ps(2,3) show ?thesis by fastforce
qed

text \<open>A quotation mark in the name of the user ends the quoted value: what follows is read as further parameters.\<close>

lemma quote_in_username_splits:
  "find_params (print_param (''username'', ''a\", realm=\"b'', True)) = [(''username'', ''a''), (''realm'', ''b'')]"
proof -
  have "find_params (print_params [(''username'', ''a'', True), (''realm'', ''b'', True)]) =
      bindings [(''username'', ''a'', True), (''realm'', ''b'', True)]"
    by (rule find_params_printed) (simp add: is_dot_def is_ws_def)
  then show ?thesis by simp
qed

text \<open>A challenge without a realm makes the client throw.\<close>

lemma challenge_without_realm_throws:
  assumes "parse_www_authenticate res Map.empty False = (True, auth)" and "auth ''realm'' = None"
    and "rs_status res = 401" and "authorization_count req < 5" and "fst da \<noteq> []" and "snd da \<noteq> []"
  shows "\<exists>k'. digest_retry E rand da pda go r cl req res err w k =
    Some (Inl (Threw (Std_exception ''out_of_range'')), cl, req, res, err, w, k')"
  using assms
  by (auto simp: digest_retry_def make_digest_authentication_header_def Let_def split: prod.splits option.splits)

lemma random_string_alnum: "length (fst (random_string rand n k)) = n \<and> set (fst (random_string rand n k)) \<subseteq> set charset"
proof (induction n arbitrary: k)
  case (Suc n)
  have "charset ! (i mod 62) \<in> set charset" for i by (rule nth_mem) (simp add: charset_def)
  then show ?case using Suc by (auto split: prod.splits) (metis fst_conv subsetD)+
qed simp

end
