(* ===== verification/Http_Host_Check.thy ===== *)
theory Http_Host_Check
  imports Http_Messages Http_Text_Laws
begin

text \<open>
  The check of a server's certificate against the name of the host (\<open>httplib.h\<close>, \<open>SSLClient::verify_host\<close> and the
  functions it calls), which is part of the library when it is built with OpenSSL.  A certificate is what OpenSSL
  says of it: its alternative names and its common name.  \<open>inet_pton\<close> is a parameter.
\<close>

subsection \<open>One name\<close>

definition component_matches :: "string \<Rightarrow> string \<Rightarrow> bool" where
  "component_matches p h \<longleftrightarrow>
     p = h \<or> p = ''*'' \<or> (length p > 0 \<and> p ! (length p - 1) = CHR ''*'' \<and> take (length p - 1) p = h)"

definition host_components :: "string \<Rightarrow> string list" where
  "host_components host = split host CHR ''.''"

text \<open>The pattern has a length; the comparison with the whole host reads it up to a zero byte.\<close>

definition check_host_name :: "string \<Rightarrow> string \<Rightarrow> bool" where
  "check_host_name host pattern \<longleftrightarrow>
     (length host = length pattern \<and> host = c_str pattern) \<or>
     list_all2 component_matches (split pattern CHR ''.'') (host_components host)"

subsection \<open>The certificate\<close>

datatype alt_name = Dns_name string | Ip_name string | Other_name

record X509 =
  subject_alt_names :: "alt_name list option"
  common_name :: "string option"

datatype host_kind = Host_dns | Host_ip6 string | Host_ip4 string

definition kind_of_host :: "(string \<Rightarrow> string option) \<Rightarrow> (string \<Rightarrow> string option) \<Rightarrow> string \<Rightarrow> host_kind" where
  "kind_of_host pton6 pton4 host =
     (case pton6 (c_str host) of
        Some a \<Rightarrow> Host_ip6 a
      | None \<Rightarrow> (case pton4 (c_str host) of Some a \<Rightarrow> Host_ip4 a | None \<Rightarrow> Host_dns))"

text \<open>The loop over the names; the last argument is \<open>ip_matched\<close>.  An address is compared with both variables:
  the one of the other family has not been set, and the one for IPv4 is shorter than an IPv6 address.\<close>

fun alt_name_loop :: "string \<Rightarrow> host_kind \<Rightarrow> alt_name list \<Rightarrow> bool \<Rightarrow> bool result" where
  "alt_name_loop host kind [] ip_matched = Inr ip_matched"
| "alt_name_loop host Host_dns (Dns_name d # names) ip_matched =
     (if check_host_name host d then Inr True else alt_name_loop host Host_dns names ip_matched)"
| "alt_name_loop host (Host_ip6 a) (Ip_name d # names) ip_matched =
     (if length d < 16 then Inl (Undefined ''memcmp reads behind the name'')
      else if take 16 d = a then alt_name_loop host (Host_ip6 a) names True
      else Inl (Undefined ''memcmp reads behind addr''))"
| "alt_name_loop host (Host_ip4 a) (Ip_name d # names) ip_matched =
     Inl (Undefined ''memcmp reads addr6, which is not set'')"
| "alt_name_loop host kind (name # names) ip_matched = alt_name_loop host kind names ip_matched"

definition verify_host_with_subject_alt_name ::
  "(string \<Rightarrow> string option) \<Rightarrow> (string \<Rightarrow> string option) \<Rightarrow> string \<Rightarrow> X509 \<Rightarrow> bool result" where
  "verify_host_with_subject_alt_name pton6 pton4 host cert =
     (case subject_alt_names cert of
        None \<Rightarrow> Inr False
      | Some names \<Rightarrow> alt_name_loop host (kind_of_host pton6 pton4 host) names False)"

definition verify_host_with_common_name :: "string \<Rightarrow> X509 \<Rightarrow> bool" where
  "verify_host_with_common_name host cert =
     (case common_name cert of None \<Rightarrow> False | Some nm \<Rightarrow> check_host_name host nm)"

definition verify_host ::
  "(string \<Rightarrow> string option) \<Rightarrow> (string \<Rightarrow> string option) \<Rightarrow> string \<Rightarrow> X509 \<Rightarrow> bool result" where
  "verify_host pton6 pton4 host cert =
     (case verify_host_with_subject_alt_name pton6 pton4 host cert of
        Inl e \<Rightarrow> Inl e
      | Inr True \<Rightarrow> Inr True
      | Inr False \<Rightarrow> Inr (verify_host_with_common_name host cert))"

subsection \<open>Names made of labels\<close>

fun dotted :: "string list \<Rightarrow> string" where
  "dotted [] = []"
| "dotted [l] = l"
| "dotted (l # ls) = l @ CHR ''.'' # dotted ls"

definition is_label :: "string \<Rightarrow> bool" where
  "is_label l \<longleftrightarrow> l \<noteq> [] \<and> list_all (\<lambda>c. c \<noteq> CHR ''.'' \<and> \<not> is_space_or_tab c \<and> c \<noteq> CHR 0x00) l"

lemma lstrip_plain: "list_all (\<lambda>c. \<not> is_space_or_tab c) l \<Longrightarrow> lstrip l = l"
  by (cases l) (simp_all add: lstrip_def)

lemma strip_plain: "list_all (\<lambda>c. \<not> is_space_or_tab c) l \<Longrightarrow> strip l = l"
  by (simp add: strip_def lstrip_plain list_all_iff)

lemma label_parts:
  assumes "is_label l"
  shows "l \<noteq> [] \<and> CHR ''.'' \<notin> set l \<and> strip l = l \<and> CHR 0x00 \<notin> set l"
proof -
  have "list_all (\<lambda>c. \<not> is_space_or_tab c) l" using assms by (simp add: is_label_def list_all_iff)
  then have "strip l = l" by (rule strip_plain)
  then show ?thesis using assms by (simp add: is_label_def list_all_iff) blast
qed

lemma label_no_nul: "is_label l \<Longrightarrow> CHR 0x00 \<notin> set l"
  using label_parts by blast

lemma split_dotted: "list_all is_label ls \<Longrightarrow> split (dotted ls) CHR ''.'' = ls"
proof (induction ls rule: dotted.induct)
  case 1
  then show ?case by (simp add: split_eq strip_def lstrip_def)
next
  case (2 l)
  then have "l \<noteq> [] \<and> strip l = l \<and> CHR ''.'' \<notin> set l" using label_parts by simp
  then show ?case by (simp add: split_eq split_on_whole nonempty_def)
next
  case (3 l k ks)
  then have l: "l \<noteq> [] \<and> strip l = l \<and> CHR ''.'' \<notin> set l" using label_parts by simp
  have "split (dotted (l # k # ks)) CHR ''.'' = nonempty [l] @ split (dotted (k # ks)) CHR ''.''"
    using l nonempty_Cons [of l "map strip (split_on CHR ''.'' (dotted (k # ks)))"] by (simp add: split_eq split_on_sep)
  moreover have "nonempty [l] = [l]" using l by (simp add: nonempty_def)
  ultimately show ?case using 3 by simp
qed

lemma component_matches_cases: "component_matches p h \<longleftrightarrow> p = h \<or> p = ''*'' \<or> p = h @ ''*''"
proof -
  have "length p > 0 \<and> p ! (length p - 1) = CHR ''*'' \<and> take (length p - 1) p = h \<longleftrightarrow> p = h @ ''*''"
    by (cases p rule: rev_cases) auto
  then show ?thesis by (simp add: component_matches_def)
qed

lemma check_dotted:
  assumes "list_all is_label hs" and "list_all is_label ps"
  shows "check_host_name (dotted hs) (dotted ps) \<longleftrightarrow> list_all2 component_matches ps hs"
proof -
  have nul: "CHR 0x00 \<notin> set (dotted ls)" if "list_all is_label ls" for ls
    using that by (induction ls rule: dotted.induct) (simp_all add: label_no_nul)
  have eq: "ps = hs" if e: "dotted hs = dotted ps"
  proof -
    have "ps = split (dotted ps) CHR ''.''" by (rule split_dotted [OF assms(2), symmetric])
    also have "... = split (dotted hs) CHR ''.''" by (simp only: e)
    also have "... = hs" by (rule split_dotted [OF assms(1)])
    finally show ?thesis .
  qed
  have refl: "list_all2 component_matches hs hs" by (rule list_all2_refl) (simp add: component_matches_def)
  have "list_all2 component_matches ps hs" if "dotted hs = dotted ps" unfolding eq [OF that] by (rule refl)
  then show ?thesis
    using nul [OF assms(2)] by (auto simp: check_host_name_def host_components_def split_dotted assms c_str_whole)
qed

subsection \<open>What the check accepts\<close>

text \<open>The rule of the comment for one component: a star stands for the component or for any fragment of it.\<close>

definition label_fits :: "string \<Rightarrow> string \<Rightarrow> bool" where
  "label_fits p h \<longleftrightarrow> p = h \<or>
     list_ex (\<lambda>i. p ! i = CHR ''*'' \<and> length p \<le> Suc (length h) \<and> take i h = take i p \<and>
       drop (length h - (length p - Suc i)) h = drop (Suc i) p) [0..<length p]"

lemma label_fits_examples:
  "label_fits ''f*'' ''foo'' \<and> \<not> label_fits ''f*'' ''bar'' \<and> label_fits ''*'' ''foo'' \<and> label_fits ''*oo'' ''foo''"
  by code_simp

lemma fragment_fits: "label_fits (a @ CHR ''*'' # b) (a @ m @ b)"
  unfolding label_fits_def list_ex_iff by (intro disjI2 bexI [of _ "length a"]) (auto simp: nth_append)

lemma match_fits: "component_matches p h \<Longrightarrow> label_fits p h"
  using fragment_fits [of "[]" "[]" h] fragment_fits [of h "[]" "[]"] by (auto simp: component_matches_cases label_fits_def)

lemma plain_label_fits: "CHR ''*'' \<notin> set p \<Longrightarrow> label_fits p h \<longleftrightarrow> p = h"
  unfolding label_fits_def list_ex_iff using nth_mem by fastforce

text \<open>C40: The check accepts no name of a certificate but those that fit the host by the rule of the comment: there are
  as many components, and each component of the name fits the one of the host, where a star stands for it or for any
  fragment of it.  For names whose components are a star or hold no star the check accepts exactly the names that
  fit.  (A star beside other characters is accepted only for the empty fragment: \<open>fragment_not_matched\<close>.)\<close>

theorem host_name_matched_by_labels:
  assumes "list_all is_label hs" and "list_all is_label ps"
  shows "(check_host_name (dotted hs) (dotted ps) \<longrightarrow> list_all2 label_fits ps hs) \<and>
    (list_all (\<lambda>p. p = ''*'' \<or> CHR ''*'' \<notin> set p) ps \<longrightarrow>
      (check_host_name (dotted hs) (dotted ps) \<longleftrightarrow> list_all2 label_fits ps hs))"
proof -
  have exact: "component_matches p h" if "label_fits p h" "p = ''*'' \<or> CHR ''*'' \<notin> set p" for p h
    using that plain_label_fits [of p h] by (auto simp: component_matches_cases)
  have "list_all2 component_matches ps hs"
    if "list_all2 label_fits ps hs" "list_all (\<lambda>p. p = ''*'' \<or> CHR ''*'' \<notin> set p) ps"
    using that exact unfolding list_all2_conv_all_nth list_all_length by blast
  then show ?thesis
    unfolding check_dotted [OF assms] using list_all2_mono [of component_matches ps hs label_fits] match_fits by blast
qed

lemma host_name_matched_by_labels_witness:
  "check_host_name ''foo.a.com'' ''*.a.com'' \<and> \<not> check_host_name ''bar.foo.a.com'' ''*.a.com'' \<and>
   \<not> check_host_name ''bar.com'' ''f*.com''"
proof -
  let ?hs = "[''foo'', ''a'', ''com'']" and ?ps = "[''*'', ''a'', ''com'']"
  have l: "list_all is_label ?hs" "list_all is_label ?ps" "list_all is_label (''bar'' # ?hs)"
    "list_all is_label [''bar'', ''com'']" "list_all is_label [''f*'', ''com'']"
    by (simp_all add: is_label_def is_space_or_tab_def)
  have p: "list_all (\<lambda>p. p = ''*'' \<or> CHR ''*'' \<notin> set p) ?ps" by simp
  have f: "list_all2 label_fits ?ps ?hs" "\<not> list_all2 label_fits [''f*'', ''com''] [''bar'', ''com'']" by code_simp+
  have "check_host_name (dotted ?hs) (dotted ?ps)"
    using host_name_matched_by_labels [OF l(1,2), THEN conjunct2] p f(1) by blast
  moreover have "\<not> check_host_name (dotted (''bar'' # ?hs)) (dotted ?ps)"
    using host_name_matched_by_labels [OF l(3,2), THEN conjunct1] by auto
  moreover have "\<not> check_host_name (dotted [''bar'', ''com'']) (dotted [''f*'', ''com''])"
    using host_name_matched_by_labels [OF l(4,5), THEN conjunct1] f(2) by blast
  ultimately show ?thesis by simp
qed

text \<open>A server is verified only by its certificate: one of the alternative names of the kind of the host fits, or
  the common name does.\<close>

theorem verified_host_is_named:
  assumes "verify_host pton6 pton4 host cert = Inr True"
  shows "(\<exists>names. subject_alt_names cert = Some names \<and>
      (kind_of_host pton6 pton4 host = Host_dns \<and> (\<exists>d. Dns_name d \<in> set names \<and> check_host_name host d) \<or>
       (\<exists>a d. kind_of_host pton6 pton4 host = Host_ip6 a \<and> Ip_name d \<in> set names \<and> take 16 d = a))) \<or>
    (\<exists>nm. common_name cert = Some nm \<and> check_host_name host nm)"
proof -
  have loop: "ip \<or> kind = Host_dns \<and> (\<exists>d. Dns_name d \<in> set names \<and> check_host_name host d) \<or>
      (\<exists>a d. kind = Host_ip6 a \<and> Ip_name d \<in> set names \<and> take 16 d = a)"
    if "alt_name_loop host kind names ip = Inr True" for kind names ip
    using that by (induction host kind names ip rule: alt_name_loop.induct) (auto split: if_splits)
  show ?thesis
  proof (cases "verify_host_with_subject_alt_name pton6 pton4 host cert")
    case (Inr b)
    show ?thesis
    proof (cases b)
      case True
      then obtain names where n: "subject_alt_names cert = Some names"
        "alt_name_loop host (kind_of_host pton6 pton4 host) names False = Inr True"
        using Inr by (auto simp: verify_host_with_subject_alt_name_def split: option.splits)
      from loop [OF n(2)] n(1) show ?thesis by blast
    next
      case False
      then show ?thesis using assms Inr
        by (auto simp: verify_host_def verify_host_with_common_name_def split: option.splits)
    qed
  qed (use assms in \<open>simp add: verify_host_def\<close>)
qed

lemma verified_host_is_named_witness:
  "verify_host (\<lambda>s. None) (\<lambda>s. None) ''a'' \<lparr>subject_alt_names = Some [Other_name, Dns_name ''a''], common_name = None\<rparr> = Inr True \<and>
   (\<exists>d. Dns_name d \<in> {Other_name, Dns_name ''a''} \<and> check_host_name ''a'' d)"
proof -
  let ?c = "\<lparr>subject_alt_names = Some [Other_name, Dns_name ''a''], common_name = None\<rparr>"
  have v: "verify_host (\<lambda>s. None) (\<lambda>s. None) ''a'' ?c = Inr True"
    by (simp add: verify_host_def verify_host_with_subject_alt_name_def kind_of_host_def check_host_name_def c_str_def)
  then show ?thesis using verified_host_is_named [OF v] by (auto simp: kind_of_host_def)
qed

subsection \<open>Where it differs from its comment\<close>

text \<open>The comment says that \<open>f*.com\<close> matches \<open>foo.com\<close>: the prefix is compared with the whole label.\<close>

lemma fragment_not_matched: "\<not> check_host_name ''foo.com'' ''f*.com'' \<and> check_host_name ''f.com'' ''f*.com''"
proof -
  have l: "list_all is_label [''foo'', ''com'']" "list_all is_label [''f*'', ''com'']" "list_all is_label [''f'', ''com'']"
    by (simp_all add: is_label_def is_space_or_tab_def)
  show ?thesis using check_dotted [OF l(1,2)] check_dotted [OF l(3,2)] by (simp add: component_matches_cases)
qed

text \<open>A star may stand for any label, also for all of them.\<close>

lemma stars_match_everything: "check_host_name ''example.com'' ''*.*''"
proof -
  have l: "list_all is_label [''example'', ''com'']" "list_all is_label [''*'', ''*'']"
    by (simp_all add: is_label_def is_space_or_tab_def)
  show ?thesis using check_dotted [OF l] by (simp add: component_matches_cases)
qed

text \<open>The comment says that alternative names must be used when there are any: the common name is used when none
  of them fits.\<close>

lemma common_name_used_beside_alt_names:
  "verify_host (\<lambda>s. None) (\<lambda>s. None) ''bad'' \<lparr>subject_alt_names = Some [Dns_name ''good''], common_name = Some ''bad''\<rparr> = Inr True"
proof -
  have "list_all is_label [''bad'']" "list_all is_label [''good'']" by (simp_all add: is_label_def is_space_or_tab_def)
  then have "\<not> check_host_name ''bad'' ''good''" using check_dotted [of "[''bad'']" "[''good'']"] by (simp add: component_matches_cases)
  then show ?thesis
    by (simp add: verify_host_def verify_host_with_subject_alt_name_def kind_of_host_def verify_host_with_common_name_def
        check_host_name_def c_str_def)
qed

text \<open>With an IPv4 address as host an alternative name that is an address is compared with bytes that are not set.\<close>

lemma ipv4_host_reads_unset_memory:
  assumes "pton6 (c_str host) = None" and "pton4 (c_str host) = Some a"
  shows "\<exists>e. verify_host pton6 pton4 host \<lparr>subject_alt_names = Some [Ip_name d], common_name = cn\<rparr> = Inl (Undefined e)"
  using assms by (simp add: verify_host_def verify_host_with_subject_alt_name_def kind_of_host_def)

end
