(* ===== verification/Http_Tls.thy ===== *)
theory Http_Tls
  imports Http_Digest Http_Host_Check
begin

text \<open>
  Connections with TLS (\<open>httplib.h\<close>), which are part of the library when it is built with OpenSSL: the making and
  the end of an SSL object, the stream over it, the server and the client.  The calls of OpenSSL are a parameter,
  which extends the system calls; SSL objects and contexts are numbers.
\<close>

subsection \<open>Calls of OpenSSL\<close>

datatype ssl_error = Want_read | Want_write | Other_ssl_error int

text \<open>\<open>ssl_set_bio\<close> makes a BIO for a socket and gives it to the object; \<open>SSL_read\<close> gives its result and the bytes
  stored.\<close>

record 'k Tls = "'k Net" +
  ssl_make :: "nat \<Rightarrow> 'k \<Rightarrow> nat option \<times> 'k"
  ssl_free :: "nat \<Rightarrow> 'k \<Rightarrow> 'k"
  ssl_shutdown :: "nat \<Rightarrow> 'k \<Rightarrow> 'k"
  ssl_set_bio :: "nat \<Rightarrow> nat \<Rightarrow> 'k \<Rightarrow> 'k"
  ssl_set_nbio :: "nat \<Rightarrow> bool \<Rightarrow> 'k \<Rightarrow> 'k"
  ssl_clear_auto_retry :: "nat \<Rightarrow> 'k \<Rightarrow> 'k"
  ssl_get_error :: "nat \<Rightarrow> int \<Rightarrow> 'k \<Rightarrow> ssl_error"
  ssl_pending :: "nat \<Rightarrow> 'k \<Rightarrow> int"
  ssl_read :: "nat \<Rightarrow> int \<Rightarrow> 'k \<Rightarrow> (int \<times> string) \<times> 'k"
  ssl_write :: "nat \<Rightarrow> string \<Rightarrow> 'k \<Rightarrow> int \<times> 'k"
  ssl_connect :: "nat \<Rightarrow> 'k \<Rightarrow> int \<times> 'k"
  ssl_accept :: "nat \<Rightarrow> 'k \<Rightarrow> int \<times> 'k"
  ssl_verify_none :: "nat \<Rightarrow> 'k \<Rightarrow> 'k"
  ssl_set_host_name :: "nat \<Rightarrow> string \<Rightarrow> 'k \<Rightarrow> 'k"
  ssl_verify_result :: "nat \<Rightarrow> 'k \<Rightarrow> int"
  ssl_peer_certificate :: "nat \<Rightarrow> 'k \<Rightarrow> X509 option"
  ctx_make :: "'k \<Rightarrow> nat option \<times> 'k"
  ctx_free :: "nat \<Rightarrow> 'k \<Rightarrow> 'k"
  ctx_server_options :: "nat \<Rightarrow> 'k \<Rightarrow> 'k"
  ctx_password :: "nat \<Rightarrow> string \<Rightarrow> 'k \<Rightarrow> 'k"
  ctx_use_chain_file :: "nat \<Rightarrow> string \<Rightarrow> 'k \<Rightarrow> bool \<times> 'k"
  ctx_use_certificate_file :: "nat \<Rightarrow> string \<Rightarrow> 'k \<Rightarrow> bool \<times> 'k"
  ctx_use_key_file :: "nat \<Rightarrow> string \<Rightarrow> 'k \<Rightarrow> bool \<times> 'k"
  ctx_load_locations :: "nat \<Rightarrow> string option \<Rightarrow> string option \<Rightarrow> 'k \<Rightarrow> bool \<times> 'k"
  ctx_default_paths :: "nat \<Rightarrow> 'k \<Rightarrow> 'k"
  ctx_verify_peer :: "nat \<Rightarrow> 'k \<Rightarrow> 'k"

subsection \<open>Making and ending an SSL object\<close>

text \<open>The handshake repeats while its socket is ready for what it wants; it may go on for ever.\<close>

partial_function (option) ssl_connect_or_accept_nonblocking ::
  "('k, 'm) Tls_scheme \<Rightarrow> nat \<Rightarrow> nat \<Rightarrow> (nat \<Rightarrow> 'k \<Rightarrow> int \<times> 'k) \<Rightarrow> int \<times> int \<Rightarrow> 'k \<Rightarrow> (bool \<times> 'k) option" where
  "ssl_connect_or_accept_nonblocking T sock ssl handshake timeout k =
     (case handshake ssl k of (res, k1) \<Rightarrow>
        if res = 1 then Some (True, k1)
        else case ssl_get_error T ssl res k1 of
          Want_read \<Rightarrow>
            (case select_read T sock (fst timeout) (snd timeout) k1 of (r, k2) \<Rightarrow>
               if positive r then ssl_connect_or_accept_nonblocking T sock ssl handshake timeout k2 else Some (False, k2))
        | Want_write \<Rightarrow>
            (case select_write T sock (fst timeout) (snd timeout) k1 of (r, k2) \<Rightarrow>
               if positive r then ssl_connect_or_accept_nonblocking T sock ssl handshake timeout k2 else Some (False, k2))
        | Other_ssl_error e \<Rightarrow> Some (False, k1))"

text \<open>The two callbacks: \<open>setup\<close>, and the handshake, which has variables of its own.\<close>

definition ssl_new ::
  "('k, 'm) Tls_scheme \<Rightarrow> nat \<Rightarrow> nat \<Rightarrow> (nat \<Rightarrow> 'x \<Rightarrow> 'k \<Rightarrow> (bool \<times> 'x \<times> 'k) option) \<Rightarrow> (nat \<Rightarrow> 'k \<Rightarrow> bool \<times> 'k) \<Rightarrow>
   'x \<Rightarrow> 'k \<Rightarrow> (nat option \<times> 'x \<times> 'k) option" where
  "ssl_new T sock ctx connect_or_accept setup_ssl x k =
     (case ssl_make T ctx k of
        (None, k1) \<Rightarrow> Some (None, x, k1)
      | (Some ssl, k1) \<Rightarrow>
          (case setup_ssl ssl (ssl_set_bio T ssl sock (sys_nonblocking T sock True k1)) of (ok, k2) \<Rightarrow>
             map_option
               (\<lambda>(connected, x', k3).
                 if connected
                 then (Some ssl, x', sys_nonblocking T sock False (ssl_set_nbio T ssl False k3))
                 else (None, x', sys_nonblocking T sock False (ssl_free T ssl (ssl_shutdown T ssl k3))))
               (if ok then connect_or_accept ssl x k2 else Some (False, x, k2))))"

definition ssl_delete :: "('k, 'm) Tls_scheme \<Rightarrow> nat \<Rightarrow> bool \<Rightarrow> 'k \<Rightarrow> 'k" where
  "ssl_delete T ssl shutdown_gracefully k = ssl_free T ssl (if shutdown_gracefully then ssl_shutdown T ssl k else k)"

subsection \<open>The stream\<close>

record SSLSocketStream =
  tls_sock :: nat
  tls_ssl :: nat
  tls_read_timeout :: "int \<times> int"
  tls_write_timeout :: "int \<times> int"

definition newSSLSocketStream :: "('k, 'm) Tls_scheme \<Rightarrow> SSLSocketStream \<Rightarrow> 'k \<Rightarrow> 'k" where
  "newSSLSocketStream T c k = ssl_clear_auto_retry T (tls_ssl c) k"

definition tls_is_readable :: "('k, 'm) Tls_scheme \<Rightarrow> SSLSocketStream \<Rightarrow> 'k \<Rightarrow> bool \<times> 'k" where
  "tls_is_readable T c k =
     (case select_read T (tls_sock c) (fst (tls_read_timeout c)) (snd (tls_read_timeout c)) k of
        (r, k1) \<Rightarrow> (positive r, k1))"

definition tls_is_writable :: "('k, 'm) Tls_scheme \<Rightarrow> SSLSocketStream \<Rightarrow> 'k \<Rightarrow> bool \<times> 'k" where
  "tls_is_writable T c k =
     (case select_write T (tls_sock c) (fst (tls_write_timeout c)) (snd (tls_write_timeout c)) k of (r, k1) \<Rightarrow>
        if positive r then is_socket_alive T (tls_sock c) k1 else (False, k1))"

text \<open>The size is cut to an \<open>int\<close>.\<close>

definition to_int32 :: "nat \<Rightarrow> int" where
  "to_int32 n = (let m = int (n mod 2 ^ 32) in if m < 2 ^ 31 then m else m - 2 ^ 32)"

definition read_outcome :: "int \<times> string \<Rightarrow> read_result" where
  "read_outcome r = (if fst r < 0 then Read_error else Read_bytes (snd r))"

text \<open>The loop after a failed read, with its counter.\<close>

fun tls_read_again ::
  "('k, 'm) Tls_scheme \<Rightarrow> SSLSocketStream \<Rightarrow> nat \<Rightarrow> nat \<Rightarrow> ssl_error \<Rightarrow> 'k \<Rightarrow> read_result \<times> 'k" where
  "tls_read_again T c size_to_read 0 err k = (Read_error, k)"
| "tls_read_again T c size_to_read (Suc n) err k =
     (if err \<noteq> Want_read then (Read_error, k)
      else if ssl_pending T (tls_ssl c) k > 0
      then (case ssl_read T (tls_ssl c) (to_int32 size_to_read) k of (r, k1) \<Rightarrow> (read_outcome r, k1))
      else case tls_is_readable T c k of
        (False, k1) \<Rightarrow> (Read_error, k1)
      | (True, k1) \<Rightarrow>
          (case ssl_read T (tls_ssl c) (to_int32 size_to_read) (sys_sleep T 1 k1) of (r, k2) \<Rightarrow>
             if fst r \<ge> 0 then (read_outcome r, k2)
             else tls_read_again T c size_to_read n (ssl_get_error T (tls_ssl c) (fst r) k2) k2))"

definition tls_read :: "('k, 'm) Tls_scheme \<Rightarrow> SSLSocketStream \<Rightarrow> nat \<Rightarrow> 'k \<Rightarrow> read_result \<times> 'k" where
  "tls_read T c size_to_read k =
     (if ssl_pending T (tls_ssl c) k > 0
      then (case ssl_read T (tls_ssl c) (to_int32 size_to_read) k of (r, k1) \<Rightarrow> (read_outcome r, k1))
      else case tls_is_readable T c k of
        (False, k1) \<Rightarrow> (Read_error, k1)
      | (True, k1) \<Rightarrow>
          (case ssl_read T (tls_ssl c) (to_int32 size_to_read) k1 of (r, k2) \<Rightarrow>
             if fst r < 0 then tls_read_again T c size_to_read 1000 (ssl_get_error T (tls_ssl c) (fst r) k2) k2
             else (read_outcome r, k2)))"

fun tls_write_again ::
  "('k, 'm) Tls_scheme \<Rightarrow> SSLSocketStream \<Rightarrow> string \<Rightarrow> nat \<Rightarrow> int \<Rightarrow> ssl_error \<Rightarrow> 'k \<Rightarrow> int \<times> 'k" where
  "tls_write_again T c d 0 r err k = (r, k)"
| "tls_write_again T c d (Suc n) r err k =
     (if err \<noteq> Want_write then (r, k)
      else case tls_is_writable T c k of
        (False, k1) \<Rightarrow> (-1, k1)
      | (True, k1) \<Rightarrow>
          (case ssl_write T (tls_ssl c) d (sys_sleep T 1 k1) of (r1, k2) \<Rightarrow>
             if r1 \<ge> 0 then (r1, k2)
             else tls_write_again T c d n r1 (ssl_get_error T (tls_ssl c) r1 k2) k2))"

definition tls_write :: "('k, 'm) Tls_scheme \<Rightarrow> SSLSocketStream \<Rightarrow> string \<Rightarrow> 'k \<Rightarrow> int \<times> 'k" where
  "tls_write T c d0 k =
     (case tls_is_writable T c k of
        (False, k1) \<Rightarrow> (-1, k1)
      | (True, k1) \<Rightarrow>
          (let d = take (2 ^ 31 - 1) d0 in
           case ssl_write T (tls_ssl c) d k1 of (r, k2) \<Rightarrow>
             if r < 0 then tls_write_again T c d 1000 r (ssl_get_error T (tls_ssl c) r k2) k2 else (r, k2)))"

definition tls_stream :: "('k, 'm) Tls_scheme \<Rightarrow> SSLSocketStream \<Rightarrow> 'k Stream" where
  "tls_stream T c = \<lparr>read_op = tls_read T c, write_op = tls_write T c, is_writable = tls_is_writable T c\<rparr>"

subsection \<open>The server\<close>

text \<open>The context of a server, \<open>None\<close> when it cannot be made: files are given by their paths.\<close>

definition newSSLServer ::
  "('k, 'm) Tls_scheme \<Rightarrow> string \<Rightarrow> string \<Rightarrow> string option \<Rightarrow> string option \<Rightarrow> string option \<Rightarrow> 'k \<Rightarrow> nat option \<times> 'k" where
  "newSSLServer T cert_path private_key_path ca_file ca_dir password k =
     (case ctx_make T k of
        (None, k1) \<Rightarrow> (None, k1)
      | (Some ctx, k1) \<Rightarrow>
          (let k2 = ctx_server_options T ctx k1;
               k3 = (case password of None \<Rightarrow> k2 | Some p \<Rightarrow> if p \<noteq> [] then ctx_password T ctx p k2 else k2)
           in case ctx_use_chain_file T ctx cert_path k3 of
                (False, k4) \<Rightarrow> (None, ctx_free T ctx k4)
              | (True, k4) \<Rightarrow>
                  (case ctx_use_key_file T ctx private_key_path k4 of
                     (False, k5) \<Rightarrow> (None, ctx_free T ctx k5)
                   | (True, k5) \<Rightarrow>
                       (if ca_file \<noteq> None \<or> ca_dir \<noteq> None
                        then (Some ctx, ctx_verify_peer T ctx (snd (ctx_load_locations T ctx ca_file ca_dir k5)))
                        else (Some ctx, k5)))))"

definition destroySSLServer :: "('k, 'm) Tls_scheme \<Rightarrow> nat option \<Rightarrow> 'k \<Rightarrow> 'k" where
  "destroySSLServer T ctx k = (case ctx of None \<Rightarrow> k | Some c \<Rightarrow> ctx_free T c k)"

definition process_server_socket_ssl ::
  "('k, 'm) Tls_scheme \<Rightarrow> ('k \<Rightarrow> bool) \<Rightarrow> SSLSocketStream \<Rightarrow> nat \<Rightarrow> int \<Rightarrow>
   ('k Stream \<Rightarrow> bool \<Rightarrow> 'w \<Rightarrow> 'k \<Rightarrow> ((http_stop + bool) \<times> bool \<times> 'w \<times> 'k) option) \<Rightarrow>
   'w \<times> 'k \<Rightarrow> ((http_stop + bool) \<times> 'w \<times> 'k) option" where
  "process_server_socket_ssl T listening c keep_alive_max keep_alive_timeout callback wk =
     process_server_socket_core (\<lambda>wk. listening (snd wk))
       (\<lambda>wk. map_option (\<lambda>(b, k). (b, fst wk, k)) (keep_alive T (tls_sock c) keep_alive_timeout (snd wk)))
       keep_alive_max
       (\<lambda>close_connection wk. callback (tls_stream T c) close_connection (fst wk) (newSSLSocketStream T c (snd wk))) wk"

definition SSLServer_process_and_close_socket ::
  "('w, 'k) Env \<Rightarrow> ('k, 'm) Tls_scheme \<Rightarrow> ('k \<Rightarrow> bool) \<Rightarrow> ('w, 'w HandlerWithContentReader) HttpServer \<Rightarrow> nat \<Rightarrow> nat \<Rightarrow>
   'w \<times> 'k \<Rightarrow> ((http_stop + bool) \<times> 'w \<times> 'k) option" where
  "SSLServer_process_and_close_socket env T listening sv ctx sock wk =
     Option.bind
       (ssl_new T sock ctx
         (\<lambda>ssl x k. map_option (\<lambda>(b, k1). (b, x, k1))
            (ssl_connect_or_accept_nonblocking T sock ssl (ssl_accept T) (read_timeout sv) k))
         (\<lambda>ssl k. (True, k)) () (snd wk))
       (\<lambda>(r, x, k1). case r of
          None \<Rightarrow> Some (Inr False, fst wk, sys_close T sock (sys_shutdown T sock k1))
        | Some ssl \<Rightarrow>
            map_option
              (\<lambda>(r, w, k2). (r, w, case r of
                  Inl e \<Rightarrow> k2
                | Inr b \<Rightarrow> sys_close T sock (sys_shutdown T sock (ssl_delete T ssl b k2))))
              (process_server_socket_ssl T listening
                 \<lparr>tls_sock = sock, tls_ssl = ssl, tls_read_timeout = read_timeout sv, tls_write_timeout = write_timeout sv\<rparr>
                 (keep_alive_max_count sv) (keep_alive_timeout_sec sv)
                 (\<lambda>strm close_connection w k. process_request env strm sv close_connection False None w k) (fst wk, k1)))"

subsection \<open>The client\<close>

record ('w, 'k) SSLClient =
  tls_base :: "('w, 'k) ClientImpl"
  tls_ctx :: "nat option"
  tls_object :: "nat option"
  certs_loaded :: bool
  ca_cert_file :: string
  ca_cert_dir :: string
  certificate_verification :: bool
  verify_result :: int
  proxy_digest_auth :: "string \<times> string"

text \<open>A context that cannot be made is used for the files of the client all the same.\<close>

definition newSSLClient ::
  "('k, 'm) Tls_scheme \<Rightarrow> string \<Rightarrow> int \<Rightarrow> string \<Rightarrow> string \<Rightarrow> 'k \<Rightarrow> ('w, 'k) SSLClient result \<times> 'k" where
  "newSSLClient T host port cert_path key_path k =
     (let cl = (\<lambda>ctx. \<lparr>tls_base = newClientImpl host port cert_path key_path, tls_ctx = ctx, tls_object = None,
                  certs_loaded = False, ca_cert_file = [], ca_cert_dir = [], certificate_verification = True,
                  verify_result = 0, proxy_digest_auth = ([], [])\<rparr>)
      in case ctx_make T k of
           (None, k1) \<Rightarrow>
             (if cert_path \<noteq> [] \<and> key_path \<noteq> [] then Inl (Undefined ''SSL_CTX_use_certificate_file(NULL)'') else Inr (cl None), k1)
         | (Some ctx, k1) \<Rightarrow>
             (if cert_path = [] \<or> key_path = [] then (Inr (cl (Some ctx)), k1)
              else case ctx_use_certificate_file T ctx (c_str cert_path) k1 of
                (False, k2) \<Rightarrow> (Inr (cl None), ctx_free T ctx k2)
              | (True, k2) \<Rightarrow>
                  (case ctx_use_key_file T ctx (c_str key_path) k2 of
                     (False, k3) \<Rightarrow> (Inr (cl None), ctx_free T ctx k3)
                   | (True, k3) \<Rightarrow> (Inr (cl (Some ctx)), k3))))"

definition SSLClient_is_valid :: "('w, 'k) SSLClient \<Rightarrow> bool" where
  "SSLClient_is_valid cl \<longleftrightarrow> tls_ctx cl \<noteq> None"

text \<open>\<open>std::call_once\<close>: the result of a later call is true.\<close>

definition load_certs ::
  "('k, 'm) Tls_scheme \<Rightarrow> nat \<Rightarrow> ('w, 'k) SSLClient \<Rightarrow> 'k \<Rightarrow> bool \<times> ('w, 'k) SSLClient \<times> 'k" where
  "load_certs T ctx cl k =
     (if certs_loaded cl then (True, cl, k)
      else let cl1 = cl\<lparr>certs_loaded := True\<rparr> in
        if ca_cert_file cl \<noteq> []
        then (case ctx_load_locations T ctx (Some (c_str (ca_cert_file cl))) None k of (b, k1) \<Rightarrow> (b, cl1, k1))
        else if ca_cert_dir cl \<noteq> []
        then (case ctx_load_locations T ctx None (Some (c_str (ca_cert_dir cl))) k of (b, k1) \<Rightarrow> (b, cl1, k1))
        else (True, cl1, ctx_default_paths T ctx k))"

text \<open>The variables of the handshake of a client: the error, the client, and undefined behaviour on the way.\<close>

type_synonym ('w, 'k) handshake = "Error \<times> ('w, 'k) SSLClient \<times> failure option"

text \<open>What is done with the certificate after the handshake.\<close>

definition check_certificate ::
  "('k, 'm) Tls_scheme \<Rightarrow> (string \<Rightarrow> string option) \<Rightarrow> (string \<Rightarrow> string option) \<Rightarrow> nat \<Rightarrow> Error \<Rightarrow> ('w, 'k) SSLClient \<Rightarrow> 'k \<Rightarrow>
   bool \<times> ('w, 'k) handshake" where
  "check_certificate T pton6 pton4 ssl err cl k =
     (let cl1 = cl\<lparr>verify_result := ssl_verify_result T ssl k\<rparr> in
      if verify_result cl1 \<noteq> 0 then (False, SSLServerVerification, cl1, None)
      else case ssl_peer_certificate T ssl k of
        None \<Rightarrow> (False, SSLServerVerification, cl1, None)
      | Some cert \<Rightarrow>
          (case verify_host pton6 pton4 (cl_host (tls_base cl)) cert of
             Inl e \<Rightarrow> (False, err, cl1, Some e)
           | Inr True \<Rightarrow> (True, err, cl1, None)
           | Inr False \<Rightarrow> (False, SSLServerVerification, cl1, None)))"

definition client_handshake ::
  "('k, 'm) Tls_scheme \<Rightarrow> (string \<Rightarrow> string option) \<Rightarrow> (string \<Rightarrow> string option) \<Rightarrow> nat \<Rightarrow> nat \<Rightarrow> nat \<Rightarrow>
   ('w, 'k) handshake \<Rightarrow> 'k \<Rightarrow> (bool \<times> ('w, 'k) handshake \<times> 'k) option" where
  "client_handshake T pton6 pton4 sock ctx ssl x k =
     (case x of (err, cl, u) \<Rightarrow>
        case (if certificate_verification cl then load_certs T ctx cl k else (True, cl, k)) of
          (False, cl1, k1) \<Rightarrow> Some (False, (SSLLoadingCerts, cl1, u), k1)
        | (True, cl1, k1) \<Rightarrow>
            map_option
              (\<lambda>(connected, k2).
                if \<not> connected then (False, (SSLConnection, cl1, u), k2)
                else if certificate_verification cl1
                then (case check_certificate T pton6 pton4 ssl err cl1 k2 of (b, y) \<Rightarrow> (b, y, k2))
                else (True, (err, cl1, u), k2))
              (ssl_connect_or_accept_nonblocking T sock ssl (ssl_connect T) (connection_timeout (tls_base cl1))
                 (if certificate_verification cl1 then ssl_verify_none T ssl k1 else k1)))"

text \<open>The socket of the client is open; when there is no SSL object in the end it is closed.\<close>

definition initialize_ssl ::
  "('k, 'm) Tls_scheme \<Rightarrow> (string \<Rightarrow> string option) \<Rightarrow> (string \<Rightarrow> string option) \<Rightarrow> nat \<Rightarrow> nat \<Rightarrow> nat \<Rightarrow> ('w, 'k) SSLClient \<Rightarrow> Error \<Rightarrow> 'k \<Rightarrow>
   (bool result \<times> ('w, 'k) SSLClient \<times> Error \<times> 'k) option" where
  "initialize_ssl T pton6 pton4 me ctx sock cl err k =
     map_option
       (\<lambda>(r, (err1, cl1, u), k1).
         case u of
           Some e \<Rightarrow> (Inl e, cl1, err1, k1)
         | None \<Rightarrow>
             (case r of
                Some ssl \<Rightarrow> (Inr True, cl1\<lparr>tls_object := Some ssl\<rparr>, err1, k1)
              | None \<Rightarrow>
                  (case drop_socket T me (tls_base cl1) k1 of
                     (ok, b, k2) \<Rightarrow>
                       (if ok then (Inr False, cl1\<lparr>tls_base := b\<rparr>, err1, k2)
                        else (Inl (Assertion ''close_socket''), cl1, err1, k1)))))
       (ssl_new T sock ctx (client_handshake T pton6 pton4 sock ctx)
          (\<lambda>ssl k. (True, ssl_set_host_name T ssl (c_str (cl_host (tls_base cl))) k)) (err, cl, None) k)"

definition shutdown_ssl ::
  "('k, 'm) Tls_scheme \<Rightarrow> bool \<Rightarrow> ('w, 'k) SSLClient \<Rightarrow> 'k \<Rightarrow> unit result \<times> ('w, 'k) SSLClient \<times> 'k" where
  "shutdown_ssl T shutdown_gracefully cl k =
     (if client_socket (tls_base cl) = None
      then (if tls_object cl = None then Inr () else Inl (Assertion ''socket.ssl == nullptr''), cl, k)
      else case tls_object cl of
        None \<Rightarrow> (Inr (), cl, k)
      | Some ssl \<Rightarrow> (Inr (), cl\<lparr>tls_object := None\<rparr>, ssl_delete T ssl shutdown_gracefully k))"

definition SSLClient_create_and_connect_socket ::
  "('k, 'm) Tls_scheme \<Rightarrow> ('w, 'k) SSLClient \<Rightarrow> Error \<Rightarrow> 'k \<Rightarrow> bool \<times> ('w, 'k) SSLClient \<times> Error \<times> 'k" where
  "SSLClient_create_and_connect_socket T cl err k =
     (if SSLClient_is_valid cl
      then (case create_and_connect_socket T (tls_base cl) err k of (b, base1, e, k1) \<Rightarrow> (b, cl\<lparr>tls_base := base1\<rparr>, e, k1))
      else (False, cl, err, k))"

definition SSLClient_process_socket ::
  "('k, 'm) Tls_scheme \<Rightarrow> ('w, 'k) SSLClient \<Rightarrow> nat \<Rightarrow> ('k Stream \<Rightarrow> 'k \<Rightarrow> 'r) \<Rightarrow> 'k \<Rightarrow> 'r result" where
  "SSLClient_process_socket T cl sock callback k =
     (case tls_object cl of
        None \<Rightarrow> Inl (Assertion ''socket.ssl'')
      | Some ssl \<Rightarrow>
          (let c = \<lparr>tls_sock = sock, tls_ssl = ssl, tls_read_timeout = cl_read_timeout (tls_base cl),
                    tls_write_timeout = cl_write_timeout (tls_base cl)\<rparr>
           in Inr (callback (tls_stream T c) (newSSLSocketStream T c k))))"

subsection \<open>What a handshake leaves\<close>

text \<open>The live SSL objects and the open sockets of a kernel; the calls of a handshake make and free only what they are
  asked to.\<close>

definition keeps_held :: "('k \<Rightarrow> nat set \<times> nat set) \<Rightarrow> ('k \<Rightarrow> 'k) \<Rightarrow> bool" where
  "keeps_held held f \<longleftrightarrow> (\<forall>k. held (f k) = held k)"

definition counts_tls :: "('k, 'm) Tls_scheme \<Rightarrow> ('k \<Rightarrow> nat set \<times> nat set) \<Rightarrow> bool" where
  "counts_tls T held \<longleftrightarrow>
     (\<forall>ctx k. case ssl_make T ctx k of
        (None, k') \<Rightarrow> held k' = held k
      | (Some ssl, k') \<Rightarrow> ssl \<notin> fst (held k) \<and> held k' = (insert ssl (fst (held k)), snd (held k))) \<and>
     (\<forall>ssl k. held (ssl_free T ssl k) = (fst (held k) - {ssl}, snd (held k))) \<and>
     (\<forall>sock k. held (sys_close T sock k) = (fst (held k), snd (held k) - {sock})) \<and>
     (\<forall>sock b. keeps_held held (sys_nonblocking T sock b)) \<and>
     (\<forall>ssl sock. keeps_held held (ssl_set_bio T ssl sock)) \<and>
     (\<forall>ssl b. keeps_held held (ssl_set_nbio T ssl b)) \<and>
     (\<forall>ssl. keeps_held held (ssl_shutdown T ssl)) \<and>
     (\<forall>sock. keeps_held held (sys_shutdown T sock)) \<and>
     (\<forall>ssl. keeps_held held (\<lambda>k. snd (ssl_connect T ssl k))) \<and>
     (\<forall>ssl. keeps_held held (\<lambda>k. snd (ssl_accept T ssl k))) \<and>
     (\<forall>sock i sec usec. keeps_held held (\<lambda>k. snd (repeat_call (sys_select T sock i sec usec) k))) \<and>
     (\<forall>ssl. keeps_held held (ssl_verify_none T ssl)) \<and>
     (\<forall>ssl h. keeps_held held (ssl_set_host_name T ssl h)) \<and>
     (\<forall>ctx f d. keeps_held held (\<lambda>k. snd (ctx_load_locations T ctx f d k))) \<and>
     (\<forall>ctx. keeps_held held (ctx_default_paths T ctx))"

lemma held_result: "keeps_held held (\<lambda>k. snd (f k)) \<Longrightarrow> f k = (r, k') \<Longrightarrow> held k' = held k"
  by (metis keeps_held_def snd_conv)

lemma tls_make:
  assumes "counts_tls T held"
  shows "ssl_make T ctx k = (None, k') \<Longrightarrow> held k' = held k"
    "ssl_make T ctx k = (Some ssl, k') \<Longrightarrow> ssl \<notin> fst (held k) \<and> held k' = (insert ssl (fst (held k)), snd (held k))"
proof -
  have "case ssl_make T ctx k of
        (None, k') \<Rightarrow> held k' = held k
      | (Some ssl, k') \<Rightarrow> ssl \<notin> fst (held k) \<and> held k' = (insert ssl (fst (held k)), snd (held k))"
    using assms by (simp only: counts_tls_def)
  then show "ssl_make T ctx k = (None, k') \<Longrightarrow> held k' = held k"
    "ssl_make T ctx k = (Some ssl, k') \<Longrightarrow> ssl \<notin> fst (held k) \<and> held k' = (insert ssl (fst (held k)), snd (held k))" by auto
qed

lemma tls_keep:
  assumes "counts_tls T held"
  shows "held (ssl_free T ssl k) = (fst (held k) - {ssl}, snd (held k))"
    "held (sys_close T sock k) = (fst (held k), snd (held k) - {sock})"
    "held (sys_nonblocking T sock b k) = held k" "held (ssl_set_bio T ssl sock k) = held k"
    "held (ssl_set_nbio T ssl b k) = held k" "held (ssl_shutdown T ssl k) = held k"
    "held (sys_shutdown T sock k) = held k" "held (ssl_verify_none T ssl k) = held k"
    "held (ssl_set_host_name T ssl h k) = held k" "held (ctx_default_paths T ctx k) = held k"
  using assms by (simp_all only: counts_tls_def keeps_held_def)

lemma tls_results:
  assumes "counts_tls T held"
  shows "ssl_connect T ssl k = (r, k') \<Longrightarrow> held k' = held k"
    "select_read T sock sec usec k = (n, k') \<Longrightarrow> held k' = held k"
    "select_write T sock sec usec k = (n, k') \<Longrightarrow> held k' = held k"
    "ctx_load_locations T ctx f d k = (b, k') \<Longrightarrow> held k' = held k"
proof -
  note c = assms [unfolded counts_tls_def]
  show "ssl_connect T ssl k = (r, k') \<Longrightarrow> held k' = held k"
    by (rule held_result [where f = "ssl_connect T ssl"]) (simp_all only: c)
  have s: "repeat_call (sys_select T sock i sec usec) k = (n, k') \<Longrightarrow> held k' = held k" for i n k'
    by (rule held_result [where f = "repeat_call (sys_select T sock i sec usec)"]) (simp_all only: c)
  show "select_read T sock sec usec k = (n, k') \<Longrightarrow> held k' = held k"
    "select_write T sock sec usec k = (n, k') \<Longrightarrow> held k' = held k"
    using s by (auto simp: select_read_def select_write_def split: if_splits)
  show "ctx_load_locations T ctx f d k = (b, k') \<Longrightarrow> held k' = held k"
    by (rule held_result [where f = "ctx_load_locations T ctx f d"]) (simp_all only: c)
qed

lemma handshake_keeps_result:
  fixes T :: "('k, 'm) Tls_scheme"
  assumes r: "ssl_connect_or_accept_nonblocking T sock ssl handshake timeout k = Some y"
  shows "counts_tls T held \<longrightarrow> handshake = ssl_connect T \<longrightarrow> held (snd y) = held k"
proof (rule ssl_connect_or_accept_nonblocking.raw_induct [where P = "\<lambda>T sock ssl handshake timeout k y.
    counts_tls T held \<longrightarrow> handshake = ssl_connect T \<longrightarrow> held (snd y) = held k", OF _ r], intro impI)
  fix again and T :: "('k, 'm) Tls_scheme" and sock ssl handshake timeout k y
  assume IH: "\<And>T sock ssl handshake timeout k y. again T sock ssl handshake timeout k = Some y \<Longrightarrow>
      counts_tls T held \<longrightarrow> handshake = ssl_connect T \<longrightarrow> held (snd y) = held k"
    and body: "(case handshake ssl k of (res, k1) \<Rightarrow>
        if res = 1 then Some (True, k1)
        else case ssl_get_error T ssl res k1 of
          Want_read \<Rightarrow>
            (case select_read T sock (fst timeout) (snd timeout) k1 of (r, k2) \<Rightarrow>
               if positive r then again T sock ssl handshake timeout k2 else Some (False, k2))
        | Want_write \<Rightarrow>
            (case select_write T sock (fst timeout) (snd timeout) k1 of (r, k2) \<Rightarrow>
               if positive r then again T sock ssl handshake timeout k2 else Some (False, k2))
        | Other_ssl_error e \<Rightarrow> Some (False, k1)) = Some y"
    and c: "counts_tls T held" and hs: "handshake = ssl_connect T"
  obtain res k1 where h: "ssl_connect T ssl k = (res, k1)" by force
  have k1: "held k1 = held k" using tls_results(1) [OF c h] .
  have after: "held (snd y) = held k"
    if "held k2 = held k1" "(if positive n then again T sock ssl handshake timeout k2 else Some (False, k2)) = Some y" for n k2
    using that IH [of T sock ssl handshake timeout k2 y] c hs k1 by (auto split: if_splits)
  show "held (snd y) = held k"
  proof (cases "res = 1")
    case True
    then show ?thesis using body h hs k1 by auto
  next
    case no: False
    obtain n k2 m k3 where r: "select_read T sock (fst timeout) (snd timeout) k1 = (n, k2)"
      and w: "select_write T sock (fst timeout) (snd timeout) k1 = (m, k3)" by (metis surj_pair)
    show ?thesis
      using body h hs no r w after [of k2 n] after [of k3 m] tls_results(2) [OF c r] tls_results(3) [OF c w] k1
      by (cases "ssl_get_error T ssl res k1") auto
  qed
qed

lemma handshake_keeps:
  "counts_tls T held \<Longrightarrow> ssl_connect_or_accept_nonblocking T sock ssl (ssl_connect T) timeout k = Some (b, k') \<Longrightarrow>
   held k' = held k"
  using handshake_keeps_result [of T sock ssl "ssl_connect T" timeout k "(b, k')" held] by simp

lemma load_certs_keeps:
  assumes "counts_tls T held" and "load_certs T ctx cl k = (b, cl', k')"
  shows "held k' = held k \<and> cl' = cl\<lparr>certs_loaded := True\<rparr>"
  using assms(2) tls_results(4) [OF assms(1)] tls_keep(10) [OF assms(1)]
  by (auto simp: load_certs_def Let_def split: if_splits prod.splits)

text \<open>A connection that is verified: the chain is accepted and the certificate fits the host.\<close>

definition verified :: "('k, 'm) Tls_scheme \<Rightarrow> (string \<Rightarrow> string option) \<Rightarrow> (string \<Rightarrow> string option) \<Rightarrow> nat \<Rightarrow> string \<Rightarrow> 'k \<Rightarrow> bool" where
  "verified T pton6 pton4 ssl host k \<longleftrightarrow>
     ssl_verify_result T ssl k = 0 \<and>
     (\<exists>cert. ssl_peer_certificate T ssl k = Some cert \<and> verify_host pton6 pton4 host cert = Inr True)"

lemma check_certificate_result:
  assumes "check_certificate T pton6 pton4 ssl err cl k = (b, err', cl', u)"
  shows "cl' = cl\<lparr>verify_result := ssl_verify_result T ssl k\<rparr> \<and> (b \<longrightarrow> u = None \<and> err' = err) \<and>
    (b \<longleftrightarrow> verified T pton6 pton4 ssl (cl_host (tls_base cl)) k)"
  using assms by (auto simp: check_certificate_def verified_def Let_def split: if_splits option.splits sum.splits bool.splits)

lemma client_handshake_result:
  assumes c: "counts_tls T held"
    and h: "client_handshake T pton6 pton4 sock ctx ssl (err, cl, None) k = Some (b, (err', cl', u), k')"
  shows "held k' = held k \<and> tls_base cl' = tls_base cl \<and> tls_object cl' = tls_object cl \<and>
    certificate_verification cl' = certificate_verification cl \<and> (b \<longrightarrow> u = None) \<and>
    (b \<and> certificate_verification cl \<longrightarrow> verified T pton6 pton4 ssl (cl_host (tls_base cl)) k')"
proof -
  obtain ok cl1 k1 where l: "(if certificate_verification cl then load_certs T ctx cl k else (True, cl, k)) = (ok, cl1, k1)"
    by (metis prod_cases3)
  have 1: "held k1 = held k \<and> tls_base cl1 = tls_base cl \<and> tls_object cl1 = tls_object cl \<and>
      certificate_verification cl1 = certificate_verification cl"
    using l load_certs_keeps [OF c, of ctx cl k ok cl1 k1] by (auto split: if_splits)
  show ?thesis
  proof (cases ok)
    case False
    then show ?thesis using h l 1 by (auto simp: client_handshake_def)
  next
    case True
    let ?k = "if certificate_verification cl1 then ssl_verify_none T ssl k1 else k1"
    have k: "held ?k = held k" using 1 tls_keep(8) [OF c] by simp
    obtain con k2 where n: "ssl_connect_or_accept_nonblocking T sock ssl (ssl_connect T)
        (connection_timeout (tls_base cl1)) ?k = Some (con, k2)"
      using h l True by (auto simp: client_handshake_def)
    have k2: "held k2 = held k" using handshake_keeps [OF c n] k by simp
    have e: "client_handshake T pton6 pton4 sock ctx ssl (err, cl, None) k =
        Some (if \<not> con then (False, (SSLConnection, cl1, None), k2)
              else if certificate_verification cl1
              then (case check_certificate T pton6 pton4 ssl err cl1 k2 of (b, y) \<Rightarrow> (b, y, k2))
              else (True, (err, cl1, None), k2))"
      using l True n by (simp add: client_handshake_def)
    show ?thesis
    proof (cases "con \<and> certificate_verification cl1")
      case False
      then show ?thesis using h [unfolded e] 1 k2 by (auto split: if_splits)
    next
      case both: True
      then have "check_certificate T pton6 pton4 ssl err cl1 k2 = (b, err', cl', u)" "k' = k2"
        using h [unfolded e] by (auto split: prod.splits)
      then show ?thesis using check_certificate_result [of T pton6 pton4 ssl err cl1 k2 b err' cl' u] 1 k2 by auto
    qed
  qed
qed

text \<open>C36: No handshake of a client loses an object.  When it succeeds there is exactly one more SSL object, that of the
  client, on the socket of the client; and, when certificate verification is on, the result of the verification by
  OpenSSL is 0 and \<open>verify_host\<close> has accepted the certificate of the peer for the host.  \<open>verify_host\<close> takes an alternative
  name that fits or, when none does, the common name, also beside alternative names, which is not what the comment of
  the class asks for (\<open>common_name_used_beside_alt_names\<close>).  When it fails no SSL object is left and the socket is
  closed.\<close>

theorem tls_connection_verified:
  assumes "counts_tls T held" and "client_socket (tls_base cl) = Some sock"
    and "initialize_ssl T pton6 pton4 me ctx sock cl err k = Some (Inr b, cl', err', k')"
  shows "if b
    then \<exists>ssl k1. tls_object cl' = Some ssl \<and> ssl \<notin> fst (held k) \<and> held k' = (insert ssl (fst (held k)), snd (held k)) \<and>
      client_socket (tls_base cl') = Some sock \<and>
      k' = sys_nonblocking T sock False (ssl_set_nbio T ssl False k1) \<and>
      (certificate_verification cl \<longrightarrow> verified T pton6 pton4 ssl (cl_host (tls_base cl)) k1)
    else held k' = (fst (held k), snd (held k) - {sock}) \<and> client_socket (tls_base cl') = None"
proof -
  note c = assms(1) and keep = tls_keep [OF assms(1)]
  obtain r e1 cl1 u k1 where n: "ssl_new T sock ctx (client_handshake T pton6 pton4 sock ctx)
      (\<lambda>ssl k. (True, ssl_set_host_name T ssl (c_str (cl_host (tls_base cl))) k)) (err, cl, None) k = Some (r, (e1, cl1, u), k1)"
    using assms(3) by (auto simp: initialize_ssl_def)
  have i: "(case u of Some e \<Rightarrow> (Inl e, cl1, e1, k1)
      | None \<Rightarrow> (case r of Some ssl \<Rightarrow> (Inr True, cl1\<lparr>tls_object := Some ssl\<rparr>, e1, k1)
        | None \<Rightarrow> (case drop_socket T me (tls_base cl1) k1 of (ok, b, k2) \<Rightarrow>
            (if ok then (Inr False, cl1\<lparr>tls_base := b\<rparr>, e1, k2) else (Inl (Assertion ''close_socket''), cl1, e1, k1)))))
      = (Inr b, cl', err', k')"
    using assms(3) n by (simp add: initialize_ssl_def)
  then have u: "u = None" by (cases u) auto
  have nothing_made: ?thesis if r: "r = None" and k1: "held k1 = held k" "tls_base cl1 = tls_base cl"
    using i u r k1 assms(2) keep(2,7)
    by (auto simp: drop_socket_def close_client_socket_def split: if_splits prod.splits)
  show ?thesis
  proof (cases "ssl_make T ctx k")
    case (Pair s k2)
    show ?thesis
    proof (cases s)
      case None
      then show ?thesis using Pair n nothing_made tls_make(1) [OF c, of ctx k k2] by (simp add: ssl_new_def)
    next
      case (Some ssl)
      note made = tls_make(2) [OF c, of ctx k ssl k2]
      let ?k3 = "ssl_set_host_name T ssl (c_str (cl_host (tls_base cl))) (ssl_set_bio T ssl sock (sys_nonblocking T sock True k2))"
      obtain con y k4 where h: "client_handshake T pton6 pton4 sock ctx ssl (err, cl, None) ?k3 = Some (con, y, k4)"
        "y = (e1, cl1, u)"
        using n by (auto simp: ssl_new_def Pair Some split: if_splits)
      note hs = client_handshake_result [OF c h(1) [unfolded h(2)]]
      have held: "held k4 = (insert ssl (fst (held k)), snd (held k))" "ssl \<notin> fst (held k)"
        using hs made Pair Some keep(3,4,9) by auto
      show ?thesis
      proof (cases con)
        case True
        then have r: "r = Some ssl" "held k1 = held k4" "k1 = sys_nonblocking T sock False (ssl_set_nbio T ssl False k4)"
          using n Pair Some h keep(3,5) by (auto simp: ssl_new_def)
        then show ?thesis using i u hs held assms(2) True by auto
      next
        case False
        then have "r = None" "held k1 = (fst (held k4) - {ssl}, snd (held k4))"
          using n Pair Some h keep(1,3,6) by (auto simp: ssl_new_def)
        then show ?thesis using held hs by (intro nothing_made) auto
      qed
    qed
  qed
qed

text \<open>A kernel with one SSL object, whose handshake wants to read once and whose peer is \<open>a\<close>.\<close>

definition one_object :: "(nat set \<times> nat set \<times> bool) Tls" where
  "one_object =
     \<lparr>sys_recv = (\<lambda>s n p k. (Inr [], k)), sys_send = (\<lambda>s d k. (Inr 0, k)), sys_select = (\<lambda>s i a b k. (Inr 1, k)),
      sys_shutdown = (\<lambda>s k. k), sys_close = (\<lambda>s k. (fst k, fst (snd k) - {s}, snd (snd k))), sys_clock = (\<lambda>k. (0, k)),
      sys_sleep = (\<lambda>n k. k), sys_getaddrinfo = (\<lambda>n s f g k. (None, k)), sys_res_init = (\<lambda>k. k),
      sys_socket = (\<lambda>f k. (None, k)), sys_cloexec = (\<lambda>s k. (True, k)), sys_setsockopt = (\<lambda>s x k. k),
      sys_bind = (\<lambda>s a k. (True, k)), sys_connect = (\<lambda>s a k. (Inr (), k)), sys_nonblocking = (\<lambda>s b k. k),
      sys_select_ready = (\<lambda>s a b k. (Inr (0, False), k)), sys_so_error = (\<lambda>s k. (Inr 0, k)), sys_getifaddrs = (\<lambda>k. ([], k)),
      ssl_make = (\<lambda>c k. if 1 \<in> fst k then (None, k) else (Some 1, (insert 1 (fst k), snd k))),
      ssl_free = (\<lambda>x k. (fst k - {x}, snd k)), ssl_shutdown = (\<lambda>x k. k), ssl_set_bio = (\<lambda>x s k. k),
      ssl_set_nbio = (\<lambda>x b k. k), ssl_clear_auto_retry = (\<lambda>x k. k), ssl_get_error = (\<lambda>x r k. Want_read),
      ssl_pending = (\<lambda>x k. 0), ssl_read = (\<lambda>x n k. ((0, []), k)), ssl_write = (\<lambda>x d k. (0, k)),
      ssl_connect = (\<lambda>x k. (if snd (snd k) then 1 else -1, (fst k, fst (snd k), True))), ssl_accept = (\<lambda>x k. (1, k)),
      ssl_verify_none = (\<lambda>x k. k), ssl_set_host_name = (\<lambda>x h k. k), ssl_verify_result = (\<lambda>x k. 0),
      ssl_peer_certificate = (\<lambda>x k. Some \<lparr>subject_alt_names = None, common_name = Some ''a''\<rparr>),
      ctx_make = (\<lambda>k. (Some 0, k)), ctx_free = (\<lambda>c k. k), ctx_server_options = (\<lambda>c k. k), ctx_password = (\<lambda>c p k. k),
      ctx_use_chain_file = (\<lambda>c f k. (True, k)), ctx_use_certificate_file = (\<lambda>c f k. (True, k)),
      ctx_use_key_file = (\<lambda>c f k. (True, k)), ctx_load_locations = (\<lambda>c f d k. (True, k)), ctx_default_paths = (\<lambda>c k. k),
      ctx_verify_peer = (\<lambda>c k. k)\<rparr>"

lemma one_object_counts: "counts_tls one_object (\<lambda>k. (fst k, fst (snd k)))"
  by (simp add: counts_tls_def one_object_def keeps_held_def repeat_call_def handle_EINTR.simps)

definition client_of_a :: "(unit, nat set \<times> nat set \<times> bool) SSLClient" where
  "client_of_a =
     \<lparr>tls_base = (newClientImpl ''a'' 443 [] [])\<lparr>client_socket := Some 3\<rparr>, tls_ctx = Some 0, tls_object = None,
      certs_loaded = False, ca_cert_file = [], ca_cert_dir = [], certificate_verification = True, verify_result = 5,
      proxy_digest_auth = ([], [])\<rparr>"

lemma verify_a: "verify_host (\<lambda>s. None) (\<lambda>s. None) ''a'' \<lparr>subject_alt_names = None, common_name = Some ''a''\<rparr> = Inr True"
  by (simp add: verify_host_def verify_host_with_subject_alt_name_def verify_host_with_common_name_def check_host_name_def c_str_def)

lemma client_of_a_connects:
  "\<exists>cl' err' k'. initialize_ssl one_object (\<lambda>s. None) (\<lambda>s. None) 0 0 3 client_of_a Success ({}, {3}, False) =
     Some (Inr True, cl', err', k')"
  by (simp add: initialize_ssl_def ssl_new_def client_handshake_def load_certs_def check_certificate_def one_object_def
      client_of_a_def newClientImpl_def ssl_connect_or_accept_nonblocking.simps select_read_def repeat_call_def
      handle_EINTR.simps positive_def fd_setsize_def verify_a) blast

lemma tls_connection_verified_witness:
  "\<exists>cl' err' k'. initialize_ssl one_object (\<lambda>s. None) (\<lambda>s. None) 0 0 3 client_of_a Success ({}, {3}, False) =
     Some (Inr True, cl', err', k') \<and>
     (\<exists>ssl. tls_object cl' = Some ssl \<and> (fst k', fst (snd k')) = ({ssl}, {3}) \<and> client_socket (tls_base cl') = Some 3)"
proof -
  obtain cl' err' k' where i: "initialize_ssl one_object (\<lambda>s. None) (\<lambda>s. None) 0 0 3 client_of_a Success ({}, {3}, False) =
     Some (Inr True, cl', err', k')" using client_of_a_connects by blast
  have "client_socket (tls_base client_of_a) = Some 3" by (simp add: client_of_a_def)
  from tls_connection_verified [OF one_object_counts this i] i show ?thesis by auto
qed

text \<open>A failure to load the certificates is reported once: the next connection goes on without them.\<close>

lemma load_certs_fails_once:
  assumes "load_certs T ctx cl k = (False, cl', k')"
  shows "load_certs T ctx cl' k'' = (True, cl', k'')"
  using assms by (auto simp: load_certs_def Let_def split: if_splits prod.splits)

text \<open>The size of a read is cut to an \<open>int\<close>: a read of two gigabytes asks for a negative number of bytes.\<close>

lemma large_read_is_negative: "to_int32 (2 ^ 31) < 0 \<and> to_int32 (2 ^ 32) = 0"
  by (simp add: to_int32_def)

end
