(* ===== verification/Http_Tls_Client.thy ===== *)
theory Http_Tls_Client
  imports Http_Tls
begin

text \<open>
  The connections of an \<open>SSLClient\<close> (\<open>httplib.h\<close>): the tunnel through a proxy, the block of \<open>ClientImpl::send_\<close> that
  makes a connection, the end of a client, and the constructors and settings that take objects of OpenSSL.  The calls
  of OpenSSL on certificates, keys and stores are a parameter, which extends the one of \<open>Http_Tls\<close>.
\<close>

subsection \<open>The tunnel through a proxy\<close>

text \<open>\<open>shutdown_ssl\<close>, \<open>shutdown_socket\<close> and \<open>close_socket\<close> in a row; \<open>False\<close> when an assertion fails.\<close>

definition drop_tls ::
  "('k, 'm) Tls_scheme \<Rightarrow> nat \<Rightarrow> bool \<Rightarrow> ('w, 'k) SSLClient \<Rightarrow> 'k \<Rightarrow> bool \<times> ('w, 'k) SSLClient \<times> 'k" where
  "drop_tls T me shutdown_gracefully cl k =
     (case shutdown_ssl T shutdown_gracefully cl k of
        (Inl e, cl1, k1) \<Rightarrow> (False, cl1, k1)
      | (Inr u, cl1, k1) \<Rightarrow> (case drop_socket T me (tls_base cl1) k1 of (ok, b, k2) \<Rightarrow> (ok, cl1\<lparr>tls_base := b\<rparr>, k2)))"

text \<open>The header of a client that \<open>is_ssl\<close>.\<close>

definition tls_host_header :: "('w, 'k) ClientImpl \<Rightarrow> string" where
  "tls_host_header cl = (if cl_port cl = 443 then cl_host cl else host_and_port cl)"

definition connect_request :: "('w, 'k) ClientImpl \<Rightarrow> 'w Request" where
  "connect_request cl = newRequest\<lparr>rq_method := ''CONNECT'', rq_path := host_and_port cl\<rparr>"

text \<open>One request to the proxy over a plain stream; its response is new.  The headers are sorted, so the host may be
  set before the others.\<close>

definition proxy_exchange ::
  "('k, 'm) Tls_scheme \<Rightarrow> nat \<Rightarrow> ('w, 'k) ClientImpl \<Rightarrow> 'w Request \<Rightarrow> Error \<Rightarrow> 'w \<Rightarrow> 'k \<Rightarrow>
   ((http_stop + bool) \<times> 'w Response \<times> Error \<times> 'w \<times> 'k) option" where
  "proxy_exchange T sock cl req err w k =
     (let c = \<lparr>ss_sock = sock, ss_read_timeout = cl_read_timeout cl, ss_write_timeout = cl_write_timeout cl\<rparr> in
      map_option (\<lambda>(r, req', res, err', w', s). (r, res, err', w', kernel s))
        (Client_process_request (socket_stream T c) cl (set_missing_header ''Host'' (tls_host_header cl) req) newResponse
           False err w (newSocketState k)))"

text \<open>What \<open>connect_with_proxy\<close> leaves: its result and \<open>success\<close>, the client, the response, the error, the world and
  the kernel.\<close>

type_synonym ('r, 'w, 'k) tunnel =
  "(http_stop + 'r) \<times> ('w, 'k) SSLClient \<times> 'w Response \<times> Error \<times> 'w \<times> 'k"

definition proxy_failed ::
  "('k, 'm) Tls_scheme \<Rightarrow> nat \<Rightarrow> bool \<times> bool \<Rightarrow> ('w, 'k) SSLClient \<Rightarrow> 'w Response \<Rightarrow> Error \<Rightarrow> 'w \<Rightarrow> 'k \<Rightarrow>
   (bool \<times> bool, 'w, 'k) tunnel" where
  "proxy_failed T me outcome cl res err w k =
     (case drop_tls T me True cl k of (ok, cl', k') \<Rightarrow>
        ((if ok then Inr outcome else Inl Assert_failed), cl', res, err, w, k'))"

definition proxy_answer ::
  "('k, 'm) Tls_scheme \<Rightarrow> nat \<Rightarrow> ('w, 'k) SSLClient \<Rightarrow> 'w Response \<Rightarrow> 'w Response \<Rightarrow> Error \<Rightarrow> 'w \<Rightarrow> 'k \<Rightarrow>
   (bool \<times> bool, 'w, 'k) tunnel" where
  "proxy_answer T me cl proxy_res res err w k =
     (if rs_status proxy_res \<noteq> 200 then proxy_failed T me (False, True) cl proxy_res ProxyConnection w k
      else (Inr (True, True), cl, res, err, w, k))"

text \<open>The second attempt, with an answer to the challenge of the proxy.\<close>

definition proxy_authenticated ::
  "hashes \<Rightarrow> ('k \<Rightarrow> nat \<times> 'k) \<Rightarrow> ('k, 'm) Tls_scheme \<Rightarrow> nat \<Rightarrow> nat \<Rightarrow> (string \<rightharpoonup> string) \<Rightarrow> ('w, 'k) SSLClient \<Rightarrow> 'w Response \<Rightarrow>
   Error \<Rightarrow> 'w \<Rightarrow> 'k \<Rightarrow> (bool \<times> bool, 'w, 'k) tunnel option" where
  "proxy_authenticated E rand T me sock auth cl res err w k =
     (let (username, password) = proxy_digest_auth cl;
          (cnonce, k1) = random_string rand 10 k
      in case make_digest_authentication_header E (connect_request (tls_base cl)) auth 1 cnonce username password True of
           Inl e \<Rightarrow> Some (Inl (Threw (Std_exception ''out_of_range'')), cl, res, err, w, k1)
         | Inr (key, field) \<Rightarrow>
             map_option
               (\<lambda>(r, proxy_res, err1, w1, k2).
                 case r of
                   Inl e \<Rightarrow> (Inl e, cl, res, err1, w1, k2)
                 | Inr sent \<Rightarrow>
                     if sent then proxy_answer T me cl proxy_res res err1 w1 k2
                     else proxy_failed T me (False, False) cl res err1 w1 k2)
               (proxy_exchange T sock (tls_base cl)
                 ((connect_request (tls_base cl))\<lparr>rq_headers := mm_emplace ci_less key field []\<rparr>) err w k1))"

definition connect_with_proxy ::
  "hashes \<Rightarrow> ('k \<Rightarrow> nat \<times> 'k) \<Rightarrow> ('k, 'm) Tls_scheme \<Rightarrow> nat \<Rightarrow> nat \<Rightarrow> ('w, 'k) SSLClient \<Rightarrow> 'w Response \<Rightarrow> Error \<Rightarrow> 'w \<Rightarrow> 'k \<Rightarrow>
   (bool \<times> bool, 'w, 'k) tunnel option" where
  "connect_with_proxy E rand T me sock cl res err w k =
     Option.bind (proxy_exchange T sock (tls_base cl) (connect_request (tls_base cl)) err w k)
       (\<lambda>(r, proxy_res, err1, w1, k1).
         case r of
           Inl e \<Rightarrow> Some (Inl e, cl, res, err1, w1, k1)
         | Inr sent \<Rightarrow>
             if \<not> sent then Some (proxy_failed T me (False, False) cl res err1 w1 k1)
             else if rs_status proxy_res = 407 \<and> fst (proxy_digest_auth cl) \<noteq> [] \<and> snd (proxy_digest_auth cl) \<noteq> [] \<and>
               fst (parse_www_authenticate proxy_res Map.empty True)
             then proxy_authenticated E rand T me sock (snd (parse_www_authenticate proxy_res Map.empty True)) cl res err1 w1 k1
             else Some (proxy_answer T me cl proxy_res res err1 w1 k1))"

subsection \<open>A connection for a request\<close>

text \<open>A new connection: the socket, the tunnel and the handshake.  The result is \<open>None\<close> when \<open>send_\<close> goes on, or what
  it returns.  Undefined behaviour in the check of the certificate stops the request like a failed assertion.\<close>

definition new_tls_connection ::
  "hashes \<Rightarrow> ('k \<Rightarrow> nat \<times> 'k) \<Rightarrow> ('k, 'm) Tls_scheme \<Rightarrow> (string \<Rightarrow> string option) \<Rightarrow> (string \<Rightarrow> string option) \<Rightarrow> nat \<Rightarrow>
   ('w, 'k) SSLClient \<Rightarrow> 'w Response \<Rightarrow> Error \<Rightarrow> 'w \<Rightarrow> 'k \<Rightarrow> (bool option, 'w, 'k) tunnel option" where
  "new_tls_connection E rand T pton6 pton4 me cl res err w k =
     (case SSLClient_create_and_connect_socket T cl err k of
        (connected, cl1, err1, k1) \<Rightarrow>
          if \<not> connected then Some (Inr (Some False), cl1, res, err1, w, k1)
          else case (client_socket (tls_base cl1), tls_ctx cl1) of
            (Some sock, Some ctx) \<Rightarrow>
              Option.bind
                (if uses_proxy (tls_base cl1) then connect_with_proxy E rand T me sock cl1 res err1 w k1
                 else Some (Inr (True, True), cl1, res, err1, w, k1))
                (\<lambda>(r, cl2, res2, err2, w2, k2).
                  case r of
                    Inl e \<Rightarrow> Some (Inl e, cl2, res2, err2, w2, k2)
                  | Inr (through, success) \<Rightarrow>
                      if \<not> through then Some (Inr (Some success), cl2, res2, err2, w2, k2)
                      else map_option
                        (\<lambda>(b, cl3, err3, k3).
                          ((case b of Inl e \<Rightarrow> Inl Assert_failed | Inr ok \<Rightarrow> Inr (if ok then None else Some False)),
                           cl3, res2, err3, w2, k3))
                        (initialize_ssl T pton6 pton4 me ctx sock cl2 err2 k2))
          | _ \<Rightarrow> Some (Inl Assert_failed, cl1, res, err1, w, k1))"

text \<open>The first block of \<open>send_\<close> for a client with TLS: a connection that is alive is kept, another one is dropped.
  The result says whether no assertion failed, and whether the connection is alive.\<close>

definition alive_or_dropped ::
  "('k, 'm) Tls_scheme \<Rightarrow> nat \<Rightarrow> ('w, 'k) SSLClient \<Rightarrow> 'k \<Rightarrow> bool \<times> bool \<times> ('w, 'k) SSLClient \<times> 'k" where
  "alive_or_dropped T me cl k =
     (case client_socket (tls_base cl) of
        None \<Rightarrow> (True, False, cl, k)
      | Some sock \<Rightarrow>
          (case is_socket_alive T sock k of
             (True, k1) \<Rightarrow> (True, True, cl, k1)
           | (False, k1) \<Rightarrow> (case drop_tls T me False cl k1 of (b, cl', k') \<Rightarrow> (b, False, cl', k'))))"

definition open_tls_connection ::
  "hashes \<Rightarrow> ('k \<Rightarrow> nat \<times> 'k) \<Rightarrow> ('k, 'm) Tls_scheme \<Rightarrow> (string \<Rightarrow> string option) \<Rightarrow> (string \<Rightarrow> string option) \<Rightarrow> nat \<Rightarrow>
   ('w, 'k) SSLClient \<Rightarrow> 'w Response \<Rightarrow> Error \<Rightarrow> 'w \<Rightarrow> 'k \<Rightarrow> (bool option, 'w, 'k) tunnel option" where
  "open_tls_connection E rand T pton6 pton4 me cl res err w k =
     (case alive_or_dropped T me (cl\<lparr>tls_base := (tls_base cl)\<lparr>should_be_closed := False\<rparr>\<rparr>) k of
        (no_assert, alive, cl1, k1) \<Rightarrow>
          if \<not> no_assert then Some (Inl Assert_failed, cl1, res, err, w, k1)
          else Option.bind
            (if alive then Some (Inr None, cl1, res, err, w, k1)
             else new_tls_connection E rand T pton6 pton4 me cl1 res err w k1)
            (\<lambda>(r, cl2, res2, err2, w2, k2).
              if r \<noteq> Inr None then Some (r, cl2, res2, err2, w2, k2)
              else let b = tls_base cl2 in
                if requests_in_flight b > 1 \<and> requests_are_from_thread b \<noteq> Some me
                then Some (Inl Assert_failed, cl2, res2, err2, w2, k2)
                else Some (Inr None,
                  cl2\<lparr>tls_base := b\<lparr>requests_in_flight := requests_in_flight b + 1, requests_are_from_thread := Some me\<rparr>\<rparr>,
                  res2, err2, w2, k2)))"

subsection \<open>Requests are sent to verified servers\<close>

lemma handshake_verifies:
  assumes "client_handshake T pton6 pton4 sock ctx ssl (err, cl, None) k = Some (True, (err', cl', u), k')"
    and "certificate_verification cl"
  shows "verified T pton6 pton4 ssl (cl_host (tls_base cl)) k' \<and> tls_base cl' = tls_base cl"
proof -
  have l: "load_certs T ctx cl k = (b, cl1, k1) \<Longrightarrow> cl1 = cl\<lparr>certs_loaded := True\<rparr>" for b cl1 k1
    using assms(2) by (auto simp: load_certs_def Let_def split: if_splits prod.splits)
  obtain b cl1 k1 where c: "load_certs T ctx cl k = (b, cl1, k1)" by (metis prod_cases3)
  then have cl1: "cl1 = cl\<lparr>certs_loaded := True\<rparr>" by (rule l)
  show ?thesis
  proof (cases b)
    case True
    then obtain k2 where n: "check_certificate T pton6 pton4 ssl err cl1 k2 = (True, err', cl', u)" "k2 = k'"
      using assms c cl1 by (auto simp: client_handshake_def split: if_splits prod.splits)
    then show ?thesis using check_certificate_result [OF n(1)] cl1 by simp
  qed (use assms c in \<open>auto simp: client_handshake_def\<close>)
qed

lemma ssl_connection_verified:
  assumes "initialize_ssl T pton6 pton4 me ctx sock cl err k = Some (Inr True, cl', err', k')"
    and "certificate_verification cl"
  shows "\<exists>ssl k1. tls_object cl' = Some ssl \<and> tls_base cl' = tls_base cl \<and>
    verified T pton6 pton4 ssl (cl_host (tls_base cl)) k1 \<and> k' = sys_nonblocking T sock False (ssl_set_nbio T ssl False k1)"
proof -
  obtain r e1 cl1 u k1 where n: "ssl_new T sock ctx (client_handshake T pton6 pton4 sock ctx)
      (\<lambda>ssl k. (True, ssl_set_host_name T ssl (c_str (cl_host (tls_base cl))) k)) (err, cl, None) k = Some (r, (e1, cl1, u), k1)"
    using assms(1) by (auto simp: initialize_ssl_def)
  have "u = None \<and> (\<exists>ssl. r = Some ssl \<and> cl' = cl1\<lparr>tls_object := Some ssl\<rparr> \<and> k' = k1)"
    using assms(1) n by (auto simp: initialize_ssl_def split: option.splits prod.splits if_splits)
  then obtain ssl where s: "r = Some ssl" "cl' = cl1\<lparr>tls_object := Some ssl\<rparr>" "k' = k1" by blast
  obtain k0 k2 where h: "client_handshake T pton6 pton4 sock ctx ssl (err, cl, None) k0 = Some (True, (e1, cl1, u), k2)"
    "k1 = sys_nonblocking T sock False (ssl_set_nbio T ssl False k2)"
    using n s(1) by (auto simp: ssl_new_def split: option.splits prod.splits if_splits)
  then show ?thesis using handshake_verifies [OF h(1) assms(2)] s by auto
qed

lemma created_keeps_settings:
  assumes "SSLClient_create_and_connect_socket T cl err k = (b, cl', err', k')"
  shows "certificate_verification cl' = certificate_verification cl \<and> cl_host (tls_base cl') = cl_host (tls_base cl) \<and>
    uses_proxy (tls_base cl') = uses_proxy (tls_base cl) \<and> host_and_port (tls_base cl') = host_and_port (tls_base cl)"
  using assms by (auto simp: SSLClient_create_and_connect_socket_def create_and_connect_socket_def uses_proxy_def
      split: if_splits prod.splits option.splits)

lemma failed_not_through [simp]: "proxy_failed T me (False, s) cl res err w k = (Inr (True, s'), x) \<longleftrightarrow> False"
  by (auto simp: proxy_failed_def split: prod.splits)

lemma answer_through:
  "proxy_answer T me cl proxy_res res err w k = (Inr (True, s), cl', res', err', w', k') \<longleftrightarrow>
   rs_status proxy_res = 200 \<and> s \<and> cl' = cl \<and> res' = res \<and> err' = err \<and> w' = w \<and> k' = k"
  by (auto simp: proxy_answer_def)

text \<open>The tunnel of one run, on the socket \<open>sock\<close>: from an error, a world and a kernel to those after the last answer of
  the proxy.  A CONNECT is answered with 200; or it is answered with 407 and a second one, with other headers, with
  200, where the kernel goes from the first exchange through the random string to the second.\<close>

definition tunnel_run ::
  "('k \<Rightarrow> nat \<times> 'k) \<Rightarrow> ('k, 'm) Tls_scheme \<Rightarrow> nat \<Rightarrow> ('w, 'k) ClientImpl \<Rightarrow> Error \<times> 'w \<times> 'k \<Rightarrow> Error \<times> 'w \<times> 'k \<Rightarrow> bool" where
  "tunnel_run rand T sock cl from to \<longleftrightarrow>
     (\<exists>proxy_res. proxy_exchange T sock cl (connect_request cl) (fst from) (fst (snd from)) (snd (snd from)) =
        Some (Inr True, proxy_res, to) \<and> rs_status proxy_res = 200) \<or>
     (\<exists>challenge err1 w1 k1 hs proxy_res.
        proxy_exchange T sock cl (connect_request cl) (fst from) (fst (snd from)) (snd (snd from)) =
          Some (Inr True, challenge, err1, w1, k1) \<and> rs_status challenge = 407 \<and>
        proxy_exchange T sock cl ((connect_request cl)\<lparr>rq_headers := hs\<rparr>) err1 w1 (snd (random_string rand 10 k1)) =
          Some (Inr True, proxy_res, to) \<and> rs_status proxy_res = 200)"

lemma authenticated_through:
  assumes "proxy_authenticated E rand T me sock auth cl res err w k = Some (Inr (True, s), cl', res', err', w', k')"
  shows "cl' = cl \<and> res' = res \<and> (\<exists>hs proxy_res. proxy_exchange T sock (tls_base cl)
      ((connect_request (tls_base cl))\<lparr>rq_headers := hs\<rparr>) err w (snd (random_string rand 10 k)) =
        Some (Inr True, proxy_res, err', w', k') \<and> rs_status proxy_res = 200)"
proof -
  obtain username password cnonce k1 where p: "proxy_digest_auth cl = (username, password)"
    "random_string rand 10 k = (cnonce, k1)" by (metis surj_pair)
  obtain key field where h: "make_digest_authentication_header E (connect_request (tls_base cl)) auth 1 cnonce username password True
      = Inr (key, field)"
    using assms p by (auto simp: proxy_authenticated_def split: sum.splits)
  let ?req = "(connect_request (tls_base cl))\<lparr>rq_headers := mm_emplace ci_less key field []\<rparr>"
  obtain r pres err1 w1 k2 where x: "proxy_exchange T sock (tls_base cl) ?req err w k1 = Some (r, pres, err1, w1, k2)"
    and y: "(case r of Inl e \<Rightarrow> (Inl e, cl, res, err1, w1, k2)
        | Inr sent \<Rightarrow> if sent then proxy_answer T me cl pres res err1 w1 k2
            else proxy_failed T me (False, False) cl res err1 w1 k2) = (Inr (True, s), cl', res', err', w', k')"
    using assms p h by (auto simp: proxy_authenticated_def)
  have "r = Inr True" using y by (cases r) (auto split: if_splits)
  with y have a: "rs_status pres = 200" "cl' = cl" "res' = res" "err' = err1" "w' = w1" "k' = k2"
    by (simp_all add: answer_through)
  with x \<open>r = Inr True\<close> p(2) show ?thesis by (intro conjI exI [of _ "mm_emplace ci_less key field []"] exI [of _ pres]) simp_all
qed

text \<open>The tunnel is used only when the proxy has answered the last request with 200.\<close>

lemma tunnel_needs_200:
  assumes "connect_with_proxy E rand T me sock cl res err w k = Some (Inr (True, s), cl', res', err', w', k')"
  shows "cl' = cl \<and> res' = res \<and> tunnel_run rand T sock (tls_base cl) (err, w, k) (err', w', k')"
proof -
  obtain r pres err1 w1 k1 where x: "proxy_exchange T sock (tls_base cl) (connect_request (tls_base cl)) err w k = Some (r, pres, err1, w1, k1)"
    using assms by (auto simp: connect_with_proxy_def bind_eq_Some_conv)
  have r: "r = Inr True"
    using assms x by (cases r) (auto simp: connect_with_proxy_def split: if_splits)
  let ?auth = "parse_www_authenticate pres Map.empty True"
  have y: "(if rs_status pres = 407 \<and> fst (proxy_digest_auth cl) \<noteq> [] \<and> snd (proxy_digest_auth cl) \<noteq> [] \<and> fst ?auth
      then proxy_authenticated E rand T me sock (snd ?auth) cl res err1 w1 k1
      else Some (proxy_answer T me cl pres res err1 w1 k1)) = Some (Inr (True, s), cl', res', err', w', k')"
    using assms x r by (simp add: connect_with_proxy_def)
  show ?thesis
  proof (cases "rs_status pres = 407 \<and> fst (proxy_digest_auth cl) \<noteq> [] \<and> snd (proxy_digest_auth cl) \<noteq> [] \<and> fst ?auth")
    case True
    from y [unfolded if_P [OF this]]
    have "proxy_authenticated E rand T me sock (snd ?auth) cl res err1 w1 k1 = Some (Inr (True, s), cl', res', err', w', k')" .
    note z = authenticated_through [OF this]
    then obtain hs proxy_res where "proxy_exchange T sock (tls_base cl) ((connect_request (tls_base cl))\<lparr>rq_headers := hs\<rparr>) err1 w1
        (snd (random_string rand 10 k1)) = Some (Inr True, proxy_res, err', w', k')" "rs_status proxy_res = 200" by blast
    then have "tunnel_run rand T sock (tls_base cl) (err, w, k) (err', w', k')"
      using x True unfolding tunnel_run_def r fst_conv snd_conv by blast
    with z show ?thesis by blast
  next
    case False
    then have "proxy_answer T me cl pres res err1 w1 k1 = (Inr (True, s), cl', res', err', w', k')"
      using y by (simp only: if_not_P if_False simp_thms option.inject)
    then have a: "rs_status pres = 200" "cl' = cl" "res' = res" "err' = err1" "w' = w1" "k' = k1"
      by (simp_all add: answer_through)
    have "tunnel_run rand T sock (tls_base cl) (err, w, k) (err1, w1, k1)"
      using x a(1) unfolding tunnel_run_def r fst_conv snd_conv by blast
    with a show ?thesis by simp
  qed
qed

lemma new_connection_verified:
  assumes "new_tls_connection E rand T pton6 pton4 me cl res err w k = Some (Inr None, cl', res', err', w', k')"
    and "certificate_verification cl"
  shows "\<exists>sock ctx cl1 err1 k1 err2 k2 ssl kv.
    SSLClient_create_and_connect_socket T cl err k = (True, cl1, err1, k1) \<and>
    client_socket (tls_base cl1) = Some sock \<and> tls_ctx cl1 = Some ctx \<and>
    host_and_port (tls_base cl1) = host_and_port (tls_base cl) \<and>
    (if uses_proxy (tls_base cl) then tunnel_run rand T sock (tls_base cl1) (err1, w, k1) (err2, w', k2)
     else (err2, w', k2) = (err1, w, k1)) \<and>
    initialize_ssl T pton6 pton4 me ctx sock cl1 err2 k2 = Some (Inr True, cl', err', k') \<and>
    client_socket (tls_base cl') = Some sock \<and> tls_object cl' = Some ssl \<and>
    verified T pton6 pton4 ssl (cl_host (tls_base cl)) kv \<and> k' = sys_nonblocking T sock False (ssl_set_nbio T ssl False kv)"
proof -
  obtain b cl1 err1 k1 where c: "SSLClient_create_and_connect_socket T cl err k = (b, cl1, err1, k1)" by (metis prod_cases4)
  note keep = created_keeps_settings [OF c]
  obtain sock ctx where sc: "b" "client_socket (tls_base cl1) = Some sock" "tls_ctx cl1 = Some ctx"
    using assms(1) c by (auto simp: new_tls_connection_def split: if_splits option.splits)
  define tunnel where "tunnel = (if uses_proxy (tls_base cl1) then connect_with_proxy E rand T me sock cl1 res err1 w k1
                 else Some (Inr (True, True), cl1, res, err1, w, k1))"
  obtain x cl2 res2 err2 w2 k2 where x: "tunnel = Some (x, cl2, res2, err2, w2, k2)"
    and y: "(case x of
        Inl e \<Rightarrow> Some (Inl e, cl2, res2, err2, w2, k2)
      | Inr (through, success) \<Rightarrow>
          if \<not> through then Some (Inr (Some success), cl2, res2, err2, w2, k2)
          else map_option (\<lambda>(b, cl3, err3, k3).
            ((case b of Inl e \<Rightarrow> Inl Assert_failed | Inr ok \<Rightarrow> Inr (if ok then None else Some False)), cl3, res2, err3, w2, k3))
            (initialize_ssl T pton6 pton4 me ctx sock cl2 err2 k2)) = Some (Inr None, cl', res', err', w', k')"
  proof -
    have "Option.bind tunnel (\<lambda>(r, cl2, res2, err2, w2, k2).
        case r of
          Inl e \<Rightarrow> Some (Inl e, cl2, res2, err2, w2, k2)
        | Inr (through, success) \<Rightarrow>
            if \<not> through then Some (Inr (Some success), cl2, res2, err2, w2, k2)
            else map_option (\<lambda>(b, cl3, err3, k3).
              ((case b of Inl e \<Rightarrow> Inl Assert_failed | Inr ok \<Rightarrow> Inr (if ok then None else Some False)), cl3, res2, err3, w2, k3))
              (initialize_ssl T pton6 pton4 me ctx sock cl2 err2 k2)) = Some (Inr None, cl', res', err', w', k')"
      using assms(1) c sc by (simp add: new_tls_connection_def tunnel_def)
    then obtain v where v: "tunnel = Some v" by (cases tunnel) simp_all
    note bound = \<open>Option.bind tunnel _ = _\<close> [unfolded v Option.bind.simps]
    obtain x cl2 res2 err2 w2 k2 where "v = (x, cl2, res2, err2, w2, k2)" by (metis prod_cases6)
    then show thesis using that [of x cl2 res2 err2 w2 k2] v bound by (simp only: prod.case)
  qed
  obtain success where s: "x = Inr (True, success)" using y by (auto split: sum.split_asm prod.split_asm if_split_asm)
  note t = x [unfolded s]
  have i: "initialize_ssl T pton6 pton4 me ctx sock cl2 err2 k2 = Some (Inr True, cl', err', k')"
  proof (cases "initialize_ssl T pton6 pton4 me ctx sock cl2 err2 k2")
    case None
    then show ?thesis using y by (simp add: s)
  next
    case (Some z)
    obtain b cl3 err3 k3 where z: "z = (b, cl3, err3, k3)" by (rule prod_cases4 [of z])
    show ?thesis using y Some z by (cases b) (simp_all add: s split: if_split_asm)
  qed
  have w: "w' = w2" using y by (auto simp: s split: if_split_asm)
  have cl2: "cl2 = cl1 \<and> (if uses_proxy (tls_base cl) then tunnel_run rand T sock (tls_base cl1) (err1, w, k1) (err2, w2, k2)
      else (err2, w2, k2) = (err1, w, k1))"
  proof (cases "uses_proxy (tls_base cl1)")
    case True
    then have "connect_with_proxy E rand T me sock cl1 res err1 w k1 = Some (Inr (True, success), cl2, res2, err2, w2, k2)"
      using t by (simp add: tunnel_def)
    from tunnel_needs_200 [OF this] show ?thesis using keep True by simp
  next
    case False
    then show ?thesis using t keep by (simp add: tunnel_def)
  qed
  have v: "certificate_verification cl2" using cl2 keep assms(2) by simp
  obtain ssl kv where "tls_object cl' = Some ssl" "tls_base cl' = tls_base cl2"
    "verified T pton6 pton4 ssl (cl_host (tls_base cl2)) kv" "k' = sys_nonblocking T sock False (ssl_set_nbio T ssl False kv)"
    using ssl_connection_verified [OF i v] by blast
  then show ?thesis
    using c sc keep cl2 i w
    by (intro exI [of _ sock] exI [of _ ctx] exI [of _ cl1] exI [of _ err1] exI [of _ k1] exI [of _ err2] exI [of _ k2]
        exI [of _ ssl] exI [of _ kv]) simp
qed

text \<open>C37: When a client that verifies certificates has opened what it sends a request over, this is the connection that
  it had, if that is alive; and else, in this order on one socket: the run has made the socket; with a proxy, the proxy
  has answered a CONNECT to the host on this socket with 200 (at once, or after a challenge); and the handshake has begun
  where this ended, on the same socket, and made the SSL object of the client, whose certificate OpenSSL has
  accepted and \<open>verify_host\<close> has accepted for the host.\<close>

theorem tls_request_to_verified_server:
  assumes "open_tls_connection E rand T pton6 pton4 me cl res err w k = Some (Inr None, cl', res', err', w', k')"
    and "certificate_verification cl"
  shows "(\<exists>sock. client_socket (tls_base cl) = Some sock \<and> is_socket_alive T sock k = (True, k') \<and>
      client_socket (tls_base cl') = Some sock \<and> tls_object cl' = tls_object cl \<and> w' = w) \<or>
    (\<exists>cl0 k0 sock ctx cl1 err1 k1 err2 k2 cl2 ssl kv.
      alive_or_dropped T me (cl\<lparr>tls_base := (tls_base cl)\<lparr>should_be_closed := False\<rparr>\<rparr>) k = (True, False, cl0, k0) \<and>
      SSLClient_create_and_connect_socket T cl0 err k0 = (True, cl1, err1, k1) \<and>
      client_socket (tls_base cl1) = Some sock \<and> tls_ctx cl1 = Some ctx \<and>
      host_and_port (tls_base cl1) = host_and_port (tls_base cl) \<and>
      (if uses_proxy (tls_base cl) then tunnel_run rand T sock (tls_base cl1) (err1, w, k1) (err2, w', k2)
       else (err2, w', k2) = (err1, w, k1)) \<and>
      initialize_ssl T pton6 pton4 me ctx sock cl1 err2 k2 = Some (Inr True, cl2, err', k') \<and>
      tls_object cl' = tls_object cl2 \<and> client_socket (tls_base cl') = Some sock \<and> tls_object cl' = Some ssl \<and>
      verified T pton6 pton4 ssl (cl_host (tls_base cl)) kv \<and>
      k' = sys_nonblocking T sock False (ssl_set_nbio T ssl False kv))"
proof -
  let ?cl = "cl\<lparr>tls_base := (tls_base cl)\<lparr>should_be_closed := False\<rparr>\<rparr>"
  obtain no_assert alive cl1 k1 where st: "alive_or_dropped T me ?cl k = (no_assert, alive, cl1, k1)" by (metis prod_cases4)
  have keep: "certificate_verification cl1 = certificate_verification cl" "cl_host (tls_base cl1) = cl_host (tls_base cl)"
    and same: "uses_proxy (tls_base cl1) = uses_proxy (tls_base cl)" "host_and_port (tls_base cl1) = host_and_port (tls_base cl)"
    using st by (auto simp: uses_proxy_def alive_or_dropped_def drop_tls_def shutdown_ssl_def drop_socket_def close_client_socket_def
        split: if_splits prod.splits option.splits bool.splits)
  have ok: "no_assert" using assms(1) by (cases no_assert) (simp_all add: open_tls_connection_def st)
  obtain cl2 res2 err2 w2 k2 where
    n: "(if alive then Some (Inr None, cl1, res, err, w, k1)
         else new_tls_connection E rand T pton6 pton4 me cl1 res err w k1) = Some (Inr None, cl2, res2, err2, w2, k2)"
    and e: "tls_object cl' = tls_object cl2" "client_socket (tls_base cl') = client_socket (tls_base cl2)" "k' = k2"
      "err' = err2" "w' = w2"
    using assms(1)
    by (auto simp: open_tls_connection_def st Let_def bind_eq_Some_conv split: if_splits)
  show ?thesis
  proof (cases alive)
    case True
    then show ?thesis using n e st by (auto simp: alive_or_dropped_def split: option.splits prod.splits bool.splits)
  next
    case False
    then have new: "new_tls_connection E rand T pton6 pton4 me cl1 res err w k1 = Some (Inr None, cl2, res2, err', w', k')"
      using n e by simp
    have v: "certificate_verification cl1" using keep assms(2) by simp
    note st' = st [unfolded ok False]
    from new_connection_verified [OF new v] show ?thesis
      unfolding keep same e(1,2) using st' ok False by (intro disjI2) metis
  qed
qed

text \<open>The kernel with one SSL object, and one address whose socket is 3.\<close>

definition one_address :: "(nat set \<times> nat set \<times> bool) Tls" where
  "one_address = one_object\<lparr>
     sys_getaddrinfo := (\<lambda>n s f g k. (Some [\<lparr>ai_family = 2, ai_addr = ''b''\<rparr>], k)),
     sys_socket := (\<lambda>f k. (Some 3, (fst k, insert 3 (fst (snd k)), snd (snd k))))\<rparr>"

definition new_client_of_a :: "(unit, nat set \<times> nat set \<times> bool) SSLClient" where
  "new_client_of_a = client_of_a\<lparr>tls_base := newClientImpl ''a'' 443 [] []\<rparr>"

lemma new_client_connects:
  "\<exists>cl' err' k'. open_tls_connection E rand one_address (\<lambda>s. None) (\<lambda>s. None) 0 new_client_of_a newResponse Success () ({}, {}, False) =
     Some (Inr None, cl', newResponse, err', (), k')"
proof -
  let ?cl = "new_client_of_a\<lparr>tls_base := (tls_base new_client_of_a)\<lparr>should_be_closed := False\<rparr>\<rparr>"
  let ?cl1 = "?cl\<lparr>tls_base := (tls_base ?cl)\<lparr>client_socket := Some 3\<rparr>\<rparr>"
  have a: "alive_or_dropped one_address 0 ?cl k = (True, False, ?cl, k)" for k
    by (simp add: alive_or_dropped_def new_client_of_a_def newClientImpl_def)
  have c: "SSLClient_create_and_connect_socket one_address ?cl Success ({}, {}, False) = (True, ?cl1, Success, ({}, {3}, False))"
    by (simp add: SSLClient_create_and_connect_socket_def SSLClient_is_valid_def create_and_connect_socket_def
        Client_create_client_socket_def uses_proxy_def create_client_socket_def create_socket_def prepare_socket_def
        connect_socket_def AF_UNSPEC_def AF_UNIX_def AF_INET6_def new_client_of_a_def client_of_a_def newClientImpl_def one_address_def one_object_def)
  obtain cl' err' k' where i: "initialize_ssl one_address (\<lambda>s. None) (\<lambda>s. None) 0 0 3 ?cl1 Success ({}, {3}, False) =
      Some (Inr True, cl', err', k')"
    by (simp add: initialize_ssl_def ssl_new_def client_handshake_def load_certs_def check_certificate_def one_object_def
      one_address_def new_client_of_a_def client_of_a_def newClientImpl_def ssl_connect_or_accept_nonblocking.simps
      select_read_def repeat_call_def handle_EINTR.simps positive_def fd_setsize_def verify_a)
  have "client_socket (tls_base ?cl1) = Some 3" "tls_ctx ?cl1 = Some 0" "\<not> uses_proxy (tls_base ?cl1)"
    by (simp_all add: new_client_of_a_def client_of_a_def newClientImpl_def uses_proxy_def)
  then have n: "new_tls_connection E rand one_address (\<lambda>s. None) (\<lambda>s. None) 0 ?cl newResponse Success () ({}, {}, False) =
      Some (Inr None, cl', newResponse, err', (), k')"
    using c i by (simp add: new_tls_connection_def)
  have "tls_base cl' = tls_base ?cl1"
  proof -
    have "certificate_verification ?cl1" by (simp add: new_client_of_a_def client_of_a_def)
    from ssl_connection_verified [OF i this] show ?thesis by blast
  qed
  then have "requests_in_flight (tls_base cl') = 0" by (simp add: new_client_of_a_def newClientImpl_def)
  then show ?thesis using a n by (cases k') (simp add: open_tls_connection_def)
qed

lemma tls_request_to_verified_server_witness:
  "\<exists>cl' err' k' ssl k1.
     open_tls_connection \<lparr>evp_md5 = id, evp_sha256 = id, evp_sha512 = id\<rparr> (\<lambda>k. (0, k)) one_address (\<lambda>s. None) (\<lambda>s. None) 0
       new_client_of_a newResponse Success () ({}, {}, False) = Some (Inr None, cl', newResponse, err', (), k') \<and>
     tls_object cl' = Some ssl \<and> verified one_address (\<lambda>s. None) (\<lambda>s. None) ssl ''a'' k1"
proof -
  obtain cl' err' k' where opened: "open_tls_connection \<lparr>evp_md5 = id, evp_sha256 = id, evp_sha512 = id\<rparr> (\<lambda>k. (0, k)) one_address
      (\<lambda>s. None) (\<lambda>s. None) 0 new_client_of_a newResponse Success () ({}, {}, False) =
      Some (Inr None, cl', newResponse, err', (), k')"
    using new_client_connects by blast
  have c: "certificate_verification new_client_of_a" "client_socket (tls_base new_client_of_a) = None"
    "cl_host (tls_base new_client_of_a) = ''a''"
    by (simp_all add: new_client_of_a_def client_of_a_def newClientImpl_def)
  from tls_request_to_verified_server [OF opened c(1)] obtain ssl k1 where
    "tls_object cl' = Some ssl" "verified one_address (\<lambda>s. None) (\<lambda>s. None) ssl ''a'' k1"
    unfolding c(2,3) by blast
  with opened show ?thesis by blast
qed

subsection \<open>Objects of OpenSSL as arguments\<close>

text \<open>Certificates, keys and stores are numbers.  The options set by the constructor of the user are a function of the
  user.\<close>

record 'k Tls_objects = "'k Tls" +
  ctx_use_certificate :: "nat \<Rightarrow> nat \<Rightarrow> 'k \<Rightarrow> bool \<times> 'k"
  ctx_use_key :: "nat \<Rightarrow> nat \<Rightarrow> 'k \<Rightarrow> bool \<times> 'k"
  ctx_store :: "nat \<Rightarrow> 'k \<Rightarrow> nat"
  ctx_set_store :: "nat \<Rightarrow> nat \<Rightarrow> 'k \<Rightarrow> 'k"
  store_free :: "nat \<Rightarrow> 'k \<Rightarrow> 'k"
  ctx_make_any :: "'k \<Rightarrow> nat option \<times> 'k"

definition newSSLServer_objects ::
  "('k, 'm) Tls_objects_scheme \<Rightarrow> nat \<Rightarrow> nat \<Rightarrow> nat option \<Rightarrow> 'k \<Rightarrow> nat option \<times> 'k" where
  "newSSLServer_objects T cert key client_ca_cert_store k =
     (case ctx_make T k of
        (None, k1) \<Rightarrow> (None, k1)
      | (Some ctx, k1) \<Rightarrow>
          (case ctx_use_certificate T ctx cert (ctx_server_options T ctx k1) of
             (False, k2) \<Rightarrow> (None, ctx_free T ctx k2)
           | (True, k2) \<Rightarrow>
               (case ctx_use_key T ctx key k2 of
                  (False, k3) \<Rightarrow> (None, ctx_free T ctx k3)
                | (True, k3) \<Rightarrow>
                    (case client_ca_cert_store of
                       None \<Rightarrow> (Some ctx, k3)
                     | Some st \<Rightarrow> (Some ctx, ctx_verify_peer T ctx (ctx_set_store T ctx st k3))))))"

definition newSSLServer_callback ::
  "('k, 'm) Tls_objects_scheme \<Rightarrow> (nat \<Rightarrow> 'k \<Rightarrow> bool \<times> 'k) \<Rightarrow> 'k \<Rightarrow> nat option \<times> 'k" where
  "newSSLServer_callback T setup_ssl_ctx_callback k =
     (case ctx_make_any T k of
        (None, k1) \<Rightarrow> (None, k1)
      | (Some ctx, k1) \<Rightarrow>
          (case setup_ssl_ctx_callback ctx k1 of
             (False, k2) \<Rightarrow> (None, ctx_free T ctx k2)
           | (True, k2) \<Rightarrow> (Some ctx, k2)))"

definition set_ca_cert_store ::
  "('k, 'm) Tls_objects_scheme \<Rightarrow> nat option \<Rightarrow> ('w, 'k) SSLClient \<Rightarrow> 'k \<Rightarrow> 'k" where
  "set_ca_cert_store T ca_cert_store cl k =
     (case ca_cert_store of
        None \<Rightarrow> k
      | Some st \<Rightarrow>
          (case tls_ctx cl of
             Some ctx \<Rightarrow> if ctx_store T ctx k \<noteq> st then ctx_set_store T ctx st k else k
           | None \<Rightarrow> store_free T st k))"

text \<open>The destructor frees the context before the SSL object that was made with it.\<close>

definition destroySSLClient :: "('k, 'm) Tls_scheme \<Rightarrow> ('w, 'k) SSLClient \<Rightarrow> 'k \<Rightarrow> unit result \<times> ('w, 'k) SSLClient \<times> 'k" where
  "destroySSLClient T cl k = shutdown_ssl T True cl (destroySSLServer T (tls_ctx cl) k)"

end
