(* ===== verification/Http_Compress.thy ===== *)
theory Http_Compress
  imports Http_Streams
begin

text \<open>
  The compressors and decompressors of \<open>httplib.h\<close>, which are part of the library when it is built with zlib or
  brotli: the loops that feed the library and hand its output on.  The calls of zlib and brotli are a parameter: a
  call is given the bytes that are left and the room in the buffer, and gives its result, the number of bytes taken, the
  bytes written and the new state.
\<close>

subsection \<open>Calls of zlib and brotli\<close>

datatype z_ret = Z_OK | Z_STREAM_END | Z_NEED_DICT | Z_DATA_ERROR | Z_MEM_ERROR | Z_STREAM_ERROR | Z_BUF_ERROR

text \<open>The flush of \<open>deflate\<close> is \<open>Z_FINISH\<close> or \<open>Z_NO_FLUSH\<close>.\<close>

record 'z zlib =
  z_deflate :: "'z \<Rightarrow> string \<Rightarrow> nat \<Rightarrow> bool \<Rightarrow> z_ret \<times> nat \<times> string \<times> 'z"
  z_inflate :: "'z \<Rightarrow> string \<Rightarrow> nat \<Rightarrow> z_ret \<times> nat \<times> string \<times> 'z"

datatype br_result = BR_ERROR | BR_SUCCESS | BR_NEEDS_MORE_INPUT | BR_NEEDS_MORE_OUTPUT

record 'b brotli =
  br_finished :: "'b \<Rightarrow> bool"
  br_encode :: "'b \<Rightarrow> bool \<Rightarrow> string \<Rightarrow> nat \<Rightarrow> bool \<times> nat \<times> string \<times> 'b"
  br_decode :: "'b \<Rightarrow> string \<Rightarrow> nat \<Rightarrow> br_result \<times> nat \<times> string \<times> 'b"

type_synonym 'c callback = "string \<Rightarrow> 'c \<Rightarrow> bool \<times> 'c"

definition compression_bufsiz :: nat where
  "compression_bufsiz = 16384"

text \<open>The largest \<open>avail_in\<close>, an unsigned number of 32 bits.\<close>

definition max_avail_in :: nat where
  "max_avail_in = 2 ^ 32 - 1"

definition nocompressor_compress :: "'c callback \<Rightarrow> string \<Rightarrow> 'c \<Rightarrow> bool \<times> 'c" where
  "nocompressor_compress callback d c = (if d = [] then (True, c) else callback d c)"

subsection \<open>The compressor of zlib\<close>

text \<open>The inner loop: \<open>False\<close> when the function returns false.\<close>

partial_function (option) deflate_loop ::
  "'z zlib \<Rightarrow> 'c callback \<Rightarrow> bool \<Rightarrow> string \<Rightarrow> 'z \<Rightarrow> 'c \<Rightarrow> (bool \<times> z_ret \<times> string \<times> 'z \<times> 'c) option" where
  "deflate_loop Z callback finish inp z c =
     (case z_deflate Z z inp compression_bufsiz finish of (r, n, out, z1) \<Rightarrow>
        if r = Z_STREAM_ERROR then Some (False, r, drop n inp, z1, c)
        else case callback out c of (ok, c1) \<Rightarrow>
            if \<not> ok then Some (False, r, drop n inp, z1, c1)
            else if length out = compression_bufsiz then deflate_loop Z callback finish (drop n inp) z1 c1
            else Some (True, r, drop n inp, z1, c1))"

partial_function (option) gzip_compress ::
  "'z zlib \<Rightarrow> 'c callback \<Rightarrow> string \<Rightarrow> bool \<Rightarrow> 'z \<Rightarrow> 'c \<Rightarrow> (bool result \<times> 'z \<times> 'c) option" where
  "gzip_compress Z callback data final z c =
     (let rest = drop max_avail_in data; finish = (final \<and> rest = []) in
      Option.bind (deflate_loop Z callback finish (take max_avail_in data) z c) (\<lambda>(ok, r, inp, z1, c1).
        if \<not> ok then Some (Inr False, z1, c1)
        else if \<not> (finish \<and> r = Z_STREAM_END \<or> \<not> finish \<and> r = Z_OK) \<or> inp \<noteq> []
        then Some (Inl (Assertion ''gzip_compressor''), z1, c1)
        else if rest \<noteq> [] then gzip_compress Z callback rest final z1 c1
        else Some (Inr True, z1, c1)))"

text \<open>The constructor sets \<open>is_valid_\<close>.\<close>

definition gzip_compressor_compress ::
  "'z zlib \<Rightarrow> bool \<Rightarrow> 'c callback \<Rightarrow> string \<Rightarrow> bool \<Rightarrow> 'z \<Rightarrow> 'c \<Rightarrow> (bool result \<times> 'z \<times> 'c) option" where
  "gzip_compressor_compress Z valid callback data final z c =
     (if \<not> valid then Some (Inl (Assertion ''is_valid_''), z, c) else gzip_compress Z callback data final z c)"

subsection \<open>The decompressor of zlib\<close>

partial_function (option) inflate_loop ::
  "'z zlib \<Rightarrow> 'c callback \<Rightarrow> z_ret \<Rightarrow> string \<Rightarrow> 'z \<Rightarrow> 'c \<Rightarrow> (bool result \<times> z_ret \<times> 'z \<times> 'c) option" where
  "inflate_loop Z callback r inp z c =
     (if inp = [] \<or> r \<noteq> Z_OK then Some (Inr True, r, z, c)
      else case z_inflate Z z inp compression_bufsiz of (r1, n, out, z1) \<Rightarrow>
        if r1 = Z_STREAM_ERROR then Some (Inl (Assertion ''inflate''), r1, z1, c)
        else if r1 \<in> {Z_NEED_DICT, Z_DATA_ERROR, Z_MEM_ERROR} then Some (Inr False, r1, z1, c)
        else case callback out c of (ok, c1) \<Rightarrow>
            if \<not> ok then Some (Inr False, r1, z1, c1)
            else inflate_loop Z callback r1 (drop n inp) z1 c1)"

partial_function (option) gzip_decompress ::
  "'z zlib \<Rightarrow> 'c callback \<Rightarrow> z_ret \<Rightarrow> string \<Rightarrow> 'z \<Rightarrow> 'c \<Rightarrow> (bool result \<times> 'z \<times> 'c) option" where
  "gzip_decompress Z callback r data z c =
     Option.bind (inflate_loop Z callback r (take max_avail_in data) z c) (\<lambda>(ok, r1, z1, c1).
       if ok \<noteq> Inr True then Some (ok, z1, c1)
       else if r1 \<noteq> Z_OK \<and> r1 \<noteq> Z_STREAM_END then Some (Inr False, z1, c1)
       else if drop max_avail_in data \<noteq> [] then gzip_decompress Z callback r1 (drop max_avail_in data) z1 c1
       else Some (Inr True, z1, c1))"

definition gzip_decompressor_decompress ::
  "'z zlib \<Rightarrow> bool \<Rightarrow> 'c callback \<Rightarrow> string \<Rightarrow> 'z \<Rightarrow> 'c \<Rightarrow> (bool result \<times> 'z \<times> 'c) option" where
  "gzip_decompressor_decompress Z valid callback data z c =
     (if \<not> valid then Some (Inl (Assertion ''is_valid_''), z, c) else gzip_decompress Z callback Z_OK data z c)"

subsection \<open>Brotli\<close>

text \<open>The answer of the callback is not looked at.\<close>

partial_function (option) brotli_compress ::
  "'b brotli \<Rightarrow> 'c callback \<Rightarrow> bool \<Rightarrow> string \<Rightarrow> 'b \<Rightarrow> 'c \<Rightarrow> (bool \<times> 'b \<times> 'c) option" where
  "brotli_compress B callback final inp b c =
     (if (if final then br_finished B b else inp = []) then Some (True, b, c)
      else case br_encode B b final inp compression_bufsiz of (ok, n, out, b1) \<Rightarrow>
        if \<not> ok then Some (False, b1, c)
        else brotli_compress B callback final (drop n inp) b1 (if out \<noteq> [] then snd (callback out c) else c))"

text \<open>The state of the decoder with its last result; the destructor and \<open>is_valid\<close> look at the decoder only.\<close>

partial_function (option) brotli_decompress_loop ::
  "'b brotli \<Rightarrow> 'c callback \<Rightarrow> string \<Rightarrow> 'b \<Rightarrow> 'c \<Rightarrow> (bool \<times> br_result \<times> 'b \<times> 'c) option" where
  "brotli_decompress_loop B callback inp b c =
     (case br_decode B b inp compression_bufsiz of (r, n, out, b1) \<Rightarrow>
        if r = BR_ERROR then Some (False, r, b1, c)
        else case callback out c of (ok, c1) \<Rightarrow>
            if \<not> ok then Some (False, r, b1, c1)
            else if r = BR_NEEDS_MORE_OUTPUT then brotli_decompress_loop B callback (drop n inp) b1 c1
            else Some (r = BR_SUCCESS \<or> r = BR_NEEDS_MORE_INPUT, r, b1, c1))"

definition brotli_decompress ::
  "'b brotli \<Rightarrow> 'c callback \<Rightarrow> string \<Rightarrow> br_result \<Rightarrow> 'b \<Rightarrow> 'c \<Rightarrow> (bool \<times> br_result \<times> 'b \<times> 'c) option" where
  "brotli_decompress B callback data r b c =
     (if r = BR_SUCCESS \<or> r = BR_ERROR then Some (False, r, b, c) else brotli_decompress_loop B callback data b c)"

subsection \<open>The output of the compressor\<close>

text \<open>What zlib promises of the calls of \<open>deflate\<close> that end a stream: \<open>left z inp\<close> are the bytes still to come; a call
  writes the first of them, and when it leaves room it has taken all the input, has written all the output and says so.\<close>

definition deflates :: "'z zlib \<Rightarrow> ('z \<Rightarrow> string \<Rightarrow> string) \<Rightarrow> bool" where
  "deflates Z left \<longleftrightarrow>
     (\<forall>z inp room. 0 < room \<longrightarrow>
        (case z_deflate Z z inp room True of (r, n, out, z1) \<Rightarrow>
           r \<noteq> Z_STREAM_ERROR \<and> length out \<le> room \<and> left z inp = out @ left z1 (drop n inp) \<and>
           (length out < room \<longrightarrow> drop n inp = [] \<and> left z1 [] = [] \<and> r = Z_STREAM_END)))"

definition keep_bytes :: "string callback" where
  "keep_bytes d c = (True, c @ d)"

lemma deflate_loop_finishes:
  assumes "deflates Z left"
  shows "\<exists>z'. deflate_loop Z keep_bytes True inp z c = Some (True, Z_STREAM_END, [], z', c @ left z inp)"
proof (induction "length (left z inp)" arbitrary: z inp c rule: less_induct)
  case less
  have pos: "0 < compression_bufsiz" by (simp add: compression_bufsiz_def)
  obtain r n out z1 where d: "z_deflate Z z inp compression_bufsiz True = (r, n, out, z1)" by (metis prod_cases4)
  have p: "r \<noteq> Z_STREAM_ERROR" "length out \<le> compression_bufsiz" "left z inp = out @ left z1 (drop n inp)"
    "length out < compression_bufsiz \<Longrightarrow> drop n inp = [] \<and> left z1 [] = [] \<and> r = Z_STREAM_END"
    using assms [unfolded deflates_def, rule_format, OF pos, of z inp] d by simp_all
  show ?case
  proof (cases "length out = compression_bufsiz")
    case True
    then have "length (left z1 (drop n inp)) < length (left z inp)" using p(3) pos by simp
    from less [OF this, of "c @ out"] show ?thesis
      using d p(1,3) True by (subst deflate_loop.simps) (simp add: keep_bytes_def)
  next
    case False
    then have "drop n inp = [] \<and> left z1 [] = [] \<and> r = Z_STREAM_END" using p(2,4) by simp
    then show ?thesis using d p(3) False by (subst deflate_loop.simps) (simp add: keep_bytes_def)
  qed
qed

text \<open>The last call of the compressor hands on exactly the bytes that zlib has still to give, whatever the size of
  the buffer cuts them into, and returns true.\<close>

theorem gzip_hands_on_all_bytes:
  assumes "deflates Z left" and "length data \<le> max_avail_in"
  shows "\<exists>z'. gzip_compressor_compress Z True keep_bytes data True z c = Some (Inr True, z', c @ left z data)"
proof -
  obtain z' where "deflate_loop Z keep_bytes True data z c = Some (True, Z_STREAM_END, [], z', c @ left z data)"
    using deflate_loop_finishes [OF assms(1)] by blast
  then show ?thesis using assms(2)
    by (simp add: gzip_compressor_compress_def) (subst gzip_compress.simps, simp add: Let_def)
qed

text \<open>A zlib that copies: its state is what it has not written yet.\<close>

definition copying :: "string zlib" where
  "copying =
     \<lparr>z_deflate = (\<lambda>z inp room finish.
        (if finish \<and> length (z @ inp) < room then Z_STREAM_END
         else if \<not> finish \<and> z @ inp = [] then Z_BUF_ERROR else Z_OK,
         length inp, take room (z @ inp), drop room (z @ inp))),
      z_inflate = (\<lambda>z inp room. (Z_OK, length inp, take room (z @ inp), drop room (z @ inp)))\<rparr>"

lemma copying_deflates: "deflates copying (\<lambda>z inp. z @ inp)"
  by (auto simp: deflates_def copying_def simp del: take_append drop_append)

lemma gzip_hands_on_all_bytes_witness:
  "\<exists>z'. gzip_compressor_compress copying True keep_bytes ''data'' True [] ''x'' = Some (Inr True, z', ''xdata'')"
  using gzip_hands_on_all_bytes [OF copying_deflates, of "''data''" "[]" "''x''"] by (simp add: max_avail_in_def)

text \<open>Data of no bytes that are not the last fail the assertion when zlib can do nothing with them and says so.\<close>

lemma empty_data_asserts:
  assumes "z_deflate Z z [] compression_bufsiz False = (Z_BUF_ERROR, 0, [], z1)"
  shows "\<exists>z' c'. gzip_compressor_compress Z True keep_bytes [] False z c = Some (Inl (Assertion ''gzip_compressor''), z', c')"
proof -
  have "deflate_loop Z keep_bytes False [] z c = Some (True, Z_BUF_ERROR, [], z1, c)"
    using assms by (subst deflate_loop.simps) (simp add: keep_bytes_def compression_bufsiz_def)
  then show ?thesis by (simp add: gzip_compressor_compress_def) (subst gzip_compress.simps, simp)
qed

end
