(* ===== verification/Http_Thread_Pool.thy ===== *)
theory Http_Thread_Pool
  imports Prelude "HOL-Library.Multiset"
begin

text \<open>
  The thread pool of \<open>httplib.h\<close> (class \<open>ThreadPool\<close>): workers that take jobs from a list under a mutex and wait
  on a condition variable.  Each locked block is one operation on the state of the pool; a step relation
  interleaves the calls of \<open>enqueue\<close>, one call of \<open>shutdown\<close> and the workers, with spurious wake-ups.  A job is
  opaque and returns; \<open>None\<close> is an empty \<open>std::function\<close>.
\<close>

subsection \<open>The pool\<close>

text \<open>A worker is about to lock the mutex, waits on the condition variable, holds the job it took, or has left
  its loop.\<close>

datatype 'j worker = Awake | Asleep | Working "'j option" | Ended

record 'j ThreadPool =
  pool_workers :: "'j worker list"
  pool_jobs :: "'j option list"
  pool_shutdown :: bool

definition newThreadPool :: "nat \<Rightarrow> 'j ThreadPool" where
  "newThreadPool n = \<lparr>pool_workers = replicate n Awake, pool_jobs = [], pool_shutdown = False\<rparr>"

text \<open>The locked block of \<open>enqueue\<close>, and \<open>notify_one\<close> for the worker \<open>i\<close> that it unblocks.\<close>

definition push_job :: "'j option \<Rightarrow> 'j ThreadPool \<Rightarrow> 'j ThreadPool" where
  "push_job fn p = p\<lparr>pool_jobs := pool_jobs p @ [fn]\<rparr>"

definition wake :: "nat \<Rightarrow> 'j ThreadPool \<Rightarrow> 'j ThreadPool" where
  "wake i p = p\<lparr>pool_workers := (pool_workers p)[i := Awake]\<rparr>"

text \<open>The locked block of \<open>shutdown\<close>, and \<open>notify_all\<close>.\<close>

definition set_shutdown :: "'j ThreadPool \<Rightarrow> 'j ThreadPool" where
  "set_shutdown p = p\<lparr>pool_shutdown := True\<rparr>"

definition wake_all :: "'j ThreadPool \<Rightarrow> 'j ThreadPool" where
  "wake_all p = p\<lparr>pool_workers := map (\<lambda>w. if w = Asleep then Awake else w) (pool_workers p)\<rparr>"

text \<open>The locked block of a worker: it sleeps while there is neither a job nor a shutdown.\<close>

definition worker_block :: "nat \<Rightarrow> 'j ThreadPool \<Rightarrow> 'j ThreadPool" where
  "worker_block i p =
     (if pool_jobs p = [] \<and> \<not> pool_shutdown p then p\<lparr>pool_workers := (pool_workers p)[i := Asleep]\<rparr>
      else if pool_shutdown p \<and> pool_jobs p = [] then p\<lparr>pool_workers := (pool_workers p)[i := Ended]\<rparr>
      else p\<lparr>pool_workers := (pool_workers p)[i := Working (hd (pool_jobs p))], pool_jobs := tl (pool_jobs p)\<rparr>)"

text \<open>The job returned: the worker starts its loop again.\<close>

definition job_returned :: "nat \<Rightarrow> 'j ThreadPool \<Rightarrow> 'j ThreadPool" where
  "job_returned i p = p\<lparr>pool_workers := (pool_workers p)[i := Awake]\<rparr>"

definition all_joined :: "'j ThreadPool \<Rightarrow> bool" where
  "all_joined p \<longleftrightarrow> list_all (\<lambda>w. w = Ended) (pool_workers p)"

subsection \<open>The pool with its callers\<close>

text \<open>Where the call of \<open>shutdown\<close> is.\<close>

datatype closing = Not_called | Flag_set | Joining | Returned

text \<open>Besides the pool: the calls of \<open>enqueue\<close> that have not notified yet, the call of \<open>shutdown\<close>, whether an
  assertion failed, and what happened so far: the jobs in the order of the calls, in the order in which they
  were taken, and in the order in which they returned; the number of jobs when the flag was set.\<close>

record 'j pool_sys =
  the_pool :: "'j ThreadPool"
  notifying :: nat
  the_closing :: closing
  pool_failed :: bool
  handed_in :: "'j option list"
  begun :: "'j option list"
  finished :: "'j list"
  flag_set_at :: nat

definition newPool :: "nat \<Rightarrow> 'j pool_sys" where
  "newPool n = \<lparr>the_pool = newThreadPool n, notifying = 0, the_closing = Not_called, pool_failed = False,
                handed_in = [], begun = [], finished = [], flag_set_at = 0\<rparr>"

abbreviation worker_at :: "'j pool_sys \<Rightarrow> nat \<Rightarrow> 'j worker \<Rightarrow> bool" where
  "worker_at s i w \<equiv> i < length (pool_workers (the_pool s)) \<and> pool_workers (the_pool s) ! i = w"

text \<open>One step: a locked block, a notification, or the return of a job.  \<open>callers\<close> says whether \<open>enqueue\<close> and
  \<open>shutdown\<close> may be called.\<close>

inductive pool_step :: "bool \<Rightarrow> 'j pool_sys \<Rightarrow> 'j pool_sys \<Rightarrow> bool" for callers where
  enqueue: "\<lbrakk>callers; \<not> pool_failed s\<rbrakk> \<Longrightarrow>
    pool_step callers s (s\<lparr>the_pool := push_job fn (the_pool s), notifying := notifying s + 1,
                           handed_in := handed_in s @ [fn]\<rparr>)"
| notify_one: "\<lbrakk>\<not> pool_failed s; notifying s > 0; worker_at s i Asleep\<rbrakk> \<Longrightarrow>
    pool_step callers s (s\<lparr>the_pool := wake i (the_pool s), notifying := notifying s - 1\<rparr>)"
| notify_nobody: "\<lbrakk>\<not> pool_failed s; notifying s > 0; Asleep \<notin> set (pool_workers (the_pool s))\<rbrakk> \<Longrightarrow>
    pool_step callers s (s\<lparr>notifying := notifying s - 1\<rparr>)"
| spurious: "\<lbrakk>\<not> pool_failed s; worker_at s i Asleep\<rbrakk> \<Longrightarrow>
    pool_step callers s (s\<lparr>the_pool := wake i (the_pool s)\<rparr>)"
| take_job: "\<lbrakk>\<not> pool_failed s; worker_at s i Awake; pool_jobs (the_pool s) = fn # fns\<rbrakk> \<Longrightarrow>
    pool_step callers s (s\<lparr>the_pool := worker_block i (the_pool s), begun := begun s @ [fn]\<rparr>)"
| no_job: "\<lbrakk>\<not> pool_failed s; worker_at s i Awake; pool_jobs (the_pool s) = []\<rbrakk> \<Longrightarrow>
    pool_step callers s (s\<lparr>the_pool := worker_block i (the_pool s)\<rparr>)"
| return_job: "\<lbrakk>\<not> pool_failed s; worker_at s i (Working (Some j))\<rbrakk> \<Longrightarrow>
    pool_step callers s (s\<lparr>the_pool := job_returned i (the_pool s), finished := finished s @ [j]\<rparr>)"
| empty_function: "\<lbrakk>\<not> pool_failed s; worker_at s i (Working None)\<rbrakk> \<Longrightarrow>
    pool_step callers s (s\<lparr>pool_failed := True\<rparr>)"
| set_flag: "\<lbrakk>callers; \<not> pool_failed s; the_closing s = Not_called\<rbrakk> \<Longrightarrow>
    pool_step callers s (s\<lparr>the_pool := set_shutdown (the_pool s), the_closing := Flag_set,
                           flag_set_at := length (handed_in s)\<rparr>)"
| notify_all: "\<lbrakk>\<not> pool_failed s; the_closing s = Flag_set\<rbrakk> \<Longrightarrow>
    pool_step callers s (s\<lparr>the_pool := wake_all (the_pool s), the_closing := Joining\<rparr>)"
| join: "\<lbrakk>\<not> pool_failed s; the_closing s = Joining; all_joined (the_pool s)\<rbrakk> \<Longrightarrow>
    pool_step callers s (s\<lparr>the_closing := Returned\<rparr>)"

inductive pool_reach :: "nat \<Rightarrow> 'j pool_sys \<Rightarrow> bool" for n where
  start: "pool_reach n (newPool n)"
| more: "pool_reach n s \<Longrightarrow> pool_step callers s s' \<Longrightarrow> pool_reach n s'"

inductive pool_run :: "nat \<Rightarrow> 'j pool_sys \<Rightarrow> 'j pool_sys \<Rightarrow> bool" where
  no_steps: "pool_run 0 s s"
| one_more: "pool_run k s s' \<Longrightarrow> pool_step False s' s'' \<Longrightarrow> pool_run (Suc k) s s''"

named_theorems pool_ops

lemmas [pool_ops] = push_job_def wake_def set_shutdown_def wake_all_def worker_block_def job_returned_def

subsection \<open>The invariant\<close>

definition held :: "'j worker list \<Rightarrow> 'j option multiset" where
  "held ws = \<Sum>\<^sub># (mset (map (\<lambda>w. case w of Working fn \<Rightarrow> {#fn#} | _ \<Rightarrow> {#}) ws))"

lemma held_update:
  assumes "i < length ws"
  shows "held (ws[i := w]) + held [ws ! i] = held ws + held [w]"
proof -
  have "mset (ws[i := w]) + {#ws ! i#} = mset ws + {#w#}"
    using assms by (simp add: mset_update)
  then have "\<Sum>\<^sub># (image_mset f (mset (ws[i := w]) + {#ws ! i#})) = \<Sum>\<^sub># (image_mset f (mset ws + {#w#}))"
    for f :: "'a worker \<Rightarrow> 'a option multiset" by simp
  from this [of "\<lambda>w. case w of Working fn \<Rightarrow> {#fn#} | _ \<Rightarrow> {#}"] show ?thesis
    by (simp add: held_def add.commute)
qed

lemma held_simps [simp]:
  "held [Working fn] = {#fn#}" "held [Awake] = {#}" "held [Asleep] = {#}" "held [Ended] = {#}"
  "held (replicate n Awake) = {#}"
  by (simp_all add: held_def)

lemma held_none: "(\<And>w. w \<in> set ws \<Longrightarrow> held [w] = {#}) \<Longrightarrow> held ws = {#}"
  by (induction ws) (auto simp: held_def)

lemma held_wake_all: "held (map (\<lambda>w. if w = Asleep then Awake else w) ws) = held ws"
  by (induction ws) (auto simp: held_def)

abbreviation workers :: "'j pool_sys \<Rightarrow> 'j worker list" where
  "workers s \<equiv> pool_workers (the_pool s)"

text \<open>Jobs are neither lost nor duplicated nor overtaken.\<close>

definition jobs_accounted :: "'j pool_sys \<Rightarrow> bool" where
  "jobs_accounted s \<longleftrightarrow>
     handed_in s = begun s @ pool_jobs (the_pool s) \<and>
     mset (begun s) = mset (map Some (finished s)) + held (workers s) \<and>
     (pool_failed s \<longrightarrow> None \<in> set (begun s))"

text \<open>A worker ends only after the flag is set, with all jobs of that time taken; once \<open>notify_all\<close> is done
  nobody waits.\<close>

definition closing_ok :: "'j pool_sys \<Rightarrow> bool" where
  "closing_ok s \<longleftrightarrow>
     pool_shutdown (the_pool s) = (the_closing s \<noteq> Not_called) \<and>
     flag_set_at s \<le> length (handed_in s) \<and>
     (Ended \<in> set (workers s) \<longrightarrow> the_closing s \<noteq> Not_called \<and> flag_set_at s \<le> length (begun s)) \<and>
     (the_closing s \<in> {Joining, Returned} \<longrightarrow> Asleep \<notin> set (workers s)) \<and>
     (the_closing s = Returned \<longrightarrow> set (workers s) \<subseteq> {Ended})"

text \<open>No wake-up is lost: while a job waits and a worker sleeps, another is up, or a notification is to come.\<close>

definition somebody_up :: "'j pool_sys \<Rightarrow> bool" where
  "somebody_up s \<longleftrightarrow>
     pool_jobs (the_pool s) = [] \<or> Asleep \<notin> set (workers s) \<or> notifying s > 0 \<or>
     (\<exists>w \<in> set (workers s). w \<noteq> Asleep \<and> w \<noteq> Ended)"

lemma updated_member:
  "i < length ws \<Longrightarrow> w \<in> set (ws[i := w])"
  "v \<in> set (ws[i := w]) \<Longrightarrow> v \<noteq> w \<Longrightarrow> v \<in> set ws"
  by (auto simp: set_update_memI dest: set_update_subset_insert [THEN subsetD])

lemma step_jobs_accounted: "pool_step callers s s' \<Longrightarrow> jobs_accounted s \<Longrightarrow> jobs_accounted s'"
proof (induction rule: pool_step.induct)
  case (notify_one s i)
  then show ?case using held_update [of i "workers s" Awake] by (simp add: jobs_accounted_def wake_def)
next
  case (spurious s i)
  then show ?case using held_update [of i "workers s" Awake] by (simp add: jobs_accounted_def wake_def)
next
  case (take_job s i fn fns)
  then show ?case using held_update [of i "workers s" "Working fn"]
    by (simp add: jobs_accounted_def worker_block_def)
next
  case (no_job s i)
  then show ?case using held_update [of i "workers s"] by (simp add: jobs_accounted_def worker_block_def)
next
  case (return_job s i j)
  then show ?case using held_update [of i "workers s" Awake] by (simp add: jobs_accounted_def job_returned_def)
next
  case (empty_function s i)
  then have "Working None \<in> set (workers s)" by (metis nth_mem)
  then have "None \<in># held (workers s)" by (force simp: held_def)
  then have "None \<in># mset (begun s)" using empty_function.prems by (simp add: jobs_accounted_def)
  then show ?case using empty_function.prems by (simp add: jobs_accounted_def)
qed (simp_all add: jobs_accounted_def pool_ops held_wake_all)

lemma step_closing_ok: "pool_step callers s s' \<Longrightarrow> jobs_accounted s \<Longrightarrow> closing_ok s \<Longrightarrow> closing_ok s'"
proof (induction rule: pool_step.induct)
  case (notify_one s i)
  then show ?case using nth_mem [of i "workers s"]
    by (auto simp: closing_ok_def wake_def dest: updated_member(2))
next
  case (spurious s i)
  then show ?case using nth_mem [of i "workers s"]
    by (auto simp: closing_ok_def wake_def dest: updated_member(2))
next
  case (take_job s i fn fns)
  then show ?case using nth_mem [of i "workers s"]
    by (auto simp: closing_ok_def worker_block_def dest: updated_member(2))
next
  case (no_job s i)
  then show ?case using nth_mem [of i "workers s"]
    by (auto simp: closing_ok_def worker_block_def jobs_accounted_def dest: updated_member(2))
next
  case (return_job s i j)
  then show ?case using nth_mem [of i "workers s"]
    by (auto simp: closing_ok_def job_returned_def dest: updated_member(2))
next
  case join
  then show ?case by (auto simp: closing_ok_def all_joined_def list_all_iff)
qed (auto simp: closing_ok_def pool_ops)

lemma step_somebody_up: "pool_step callers s s' \<Longrightarrow> somebody_up s \<Longrightarrow> somebody_up s'"
proof (induction rule: pool_step.induct)
  case (notify_one s i)
  then show ?case by (auto simp: somebody_up_def wake_def updated_member(1) intro!: bexI [of _ Awake])
next
  case (spurious s i)
  then show ?case by (auto simp: somebody_up_def wake_def updated_member(1) intro!: bexI [of _ Awake])
next
  case (take_job s i fn fns)
  then show ?case
    by (auto simp: somebody_up_def worker_block_def updated_member(1) intro!: bexI [of _ "Working fn"])
next
  case (return_job s i j)
  then show ?case by (auto simp: somebody_up_def job_returned_def updated_member(1) intro!: bexI [of _ Awake])
qed (auto simp: somebody_up_def pool_ops)

lemma newPool_ok: "jobs_accounted (newPool n)" "closing_ok (newPool n)" "somebody_up (newPool n)"
  by (simp_all add: jobs_accounted_def closing_ok_def somebody_up_def newPool_def newThreadPool_def)

lemma pool_reach_inv:
  "pool_reach n s \<Longrightarrow> jobs_accounted s \<and> closing_ok s \<and> somebody_up s"
  by (induction rule: pool_reach.induct)
    (auto simp: newPool_ok intro: step_jobs_accounted step_closing_ok step_somebody_up)

lemma pool_step_size: "pool_step callers s s' \<Longrightarrow> length (workers s') = length (workers s)"
  by (induction rule: pool_step.induct) (simp_all add: pool_ops)

lemma pool_reach_size: "pool_reach n s \<Longrightarrow> length (workers s) = n"
  by (induction rule: pool_reach.induct) (simp_all add: newPool_def newThreadPool_def pool_step_size)

subsection \<open>What the pool promises\<close>

text \<open>C32: In every interleaving the jobs are taken in the order of the calls of \<open>enqueue\<close>, each exactly once:
  the jobs taken are a prefix of the jobs handed in, and each of them has returned or is held by one worker.  No
  wake-up is lost: while a job waits and a worker sleeps, another worker is up or a notification is to come.\<close>

theorem pool_takes_each_job_once:
  assumes "pool_reach n s"
  shows "handed_in s = begun s @ pool_jobs (the_pool s) \<and>
    mset (begun s) = mset (map Some (finished s)) + held (pool_workers (the_pool s)) \<and>
    (pool_jobs (the_pool s) = [] \<or> Asleep \<notin> set (pool_workers (the_pool s)) \<or> notifying s > 0 \<or>
       (\<exists>w \<in> set (pool_workers (the_pool s)). w \<noteq> Asleep \<and> w \<noteq> Ended))"
  using pool_reach_inv [OF assms] by (simp_all add: jobs_accounted_def somebody_up_def)

text \<open>The steps that are left once \<open>notify_all\<close> is done: a bound on their number.\<close>

definition worker_work :: "'j worker \<Rightarrow> nat" where
  "worker_work w = (case w of Awake \<Rightarrow> 1 | Working fn \<Rightarrow> 2 | _ \<Rightarrow> 0)"

definition steps_left :: "'j pool_sys \<Rightarrow> nat" where
  "steps_left s =
     3 * length (pool_jobs (the_pool s)) + sum_list (map worker_work (workers s)) + notifying s +
     (if the_closing s = Returned then 0 else 1) + (if pool_failed s then 0 else 1)"

lemma work_update:
  "i < length ws \<Longrightarrow>
     sum_list (map worker_work (ws[i := w])) + worker_work (ws ! i) = sum_list (map worker_work ws) + worker_work w"
proof (induction ws arbitrary: i)
  case (Cons v ws)
  then show ?case by (cases i) simp_all
qed simp

lemma work_simps [simp]:
  "worker_work Awake = 1" "worker_work Asleep = 0" "worker_work Ended = 0" "worker_work (Working fn) = 2"
  by (simp_all add: worker_work_def)

lemma joining_step:
  assumes "pool_step False s s'" and "closing_ok s" and "the_closing s \<in> {Joining, Returned}"
  shows "the_closing s' \<in> {Joining, Returned} \<and> handed_in s' = handed_in s \<and> steps_left s' < steps_left s"
  using assms(1)
proof cases
  case (notify_one i)
  then show ?thesis using assms(2,3) nth_mem [of i "workers s"] by (auto simp: closing_ok_def)
next
  case (spurious i)
  then show ?thesis using assms(2,3) nth_mem [of i "workers s"] by (auto simp: closing_ok_def)
next
  case (take_job i fn fns)
  then show ?thesis using assms(3) work_update [of i "workers s" "Working fn"]
    by (simp add: steps_left_def worker_block_def)
next
  case (no_job i)
  then show ?thesis using assms(2,3) work_update [of i "workers s" Ended]
    by (auto simp: steps_left_def worker_block_def closing_ok_def)
next
  case (return_job i j)
  then show ?thesis using assms(3) work_update [of i "workers s" Awake]
    by (simp add: steps_left_def job_returned_def)
qed (use assms(3) in \<open>auto simp: steps_left_def\<close>)

lemma joining_run:
  "pool_run k s s' \<Longrightarrow> pool_reach n s \<Longrightarrow> the_closing s \<in> {Joining, Returned} \<Longrightarrow>
     pool_reach n s' \<and> the_closing s' \<in> {Joining, Returned} \<and> handed_in s' = handed_in s \<and>
     steps_left s' + k \<le> steps_left s"
proof (induction rule: pool_run.induct)
  case (one_more k s s' s'')
  then have "pool_reach n s'" "closing_ok s'" "the_closing s' \<in> {Joining, Returned}"
    using pool_reach_inv by blast+
  with one_more joining_step [OF one_more.hyps(2)] show ?case
    by (fastforce intro: pool_reach.more)
qed simp

text \<open>Until \<open>shutdown\<close> returns, there is a step.\<close>

lemma joining_not_stuck:
  assumes "pool_reach n s" and "the_closing s = Joining" and "\<not> pool_failed s"
  shows "\<exists>s'. pool_step False s s'"
proof (cases "all_joined (the_pool s)")
  case True
  then show ?thesis using assms(2,3) by (blast intro: pool_step.join)
next
  case False
  then obtain i where i: "i < length (workers s)" "workers s ! i \<noteq> Ended"
    by (auto simp: all_joined_def list_all_length)
  have "workers s ! i \<noteq> Asleep"
    using pool_reach_inv [OF assms(1)] assms(2) nth_mem [OF i(1)] by (auto simp: closing_ok_def)
  with i consider "worker_at s i Awake" | fn where "worker_at s i (Working fn)"
    by (cases "workers s ! i") auto
  then show ?thesis
  proof cases
    case 1
    show ?thesis
    proof (cases "pool_jobs (the_pool s)")
      case Nil
      show ?thesis by (rule exI, rule pool_step.no_job [OF assms(3) 1 Nil])
    next
      case (Cons fn fns)
      show ?thesis by (rule exI, rule pool_step.take_job [OF assms(3) 1 Cons])
    qed
  next
    case (2 fn)
    show ?thesis
    proof (cases fn)
      case None
      show ?thesis by (rule exI, rule pool_step.empty_function [OF assms(3) 2 [unfolded None]])
    next
      case (Some j)
      show ?thesis by (rule exI, rule pool_step.return_job [OF assms(3) 2 [unfolded Some]])
    qed
  qed
qed

lemma internal_keeps_flag: "pool_step False s s' \<Longrightarrow> flag_set_at s' = flag_set_at s"
  by (induction rule: pool_step.induct) simp_all

lemma run_keeps_flag: "pool_run k s s' \<Longrightarrow> flag_set_at s' = flag_set_at s"
  by (induction rule: pool_run.induct) (simp_all add: internal_keeps_flag)

lemma no_empty_function_runs:
  assumes "pool_reach n s" and "None \<notin> set (handed_in s)" shows "\<not> pool_failed s"
  using pool_reach_inv [OF assms(1)] assms(2) by (auto simp: jobs_accounted_def)

text \<open>The end of \<open>shutdown\<close>: all workers have ended, and what they took has returned.\<close>

lemma returned_state:
  assumes "pool_reach n s" and "the_closing s = Returned" and "n > 0"
  shows "set (workers s) = {Ended}"
    and "flag_set_at s \<le> length (finished s)"
    and "mset (map Some (finished s)) = mset (take (length (finished s)) (handed_in s))"
proof -
  have inv: "jobs_accounted s" "closing_ok s" using pool_reach_inv [OF assms(1)] by blast+
  have "workers s \<noteq> []" using pool_reach_size [OF assms(1)] assms(3) by force
  then show ended: "set (workers s) = {Ended}"
    using inv(2) assms(2) subset_singletonD [of "set (workers s)" Ended] by (simp add: closing_ok_def)
  have "held (workers s) = {#}" by (rule held_none) (simp add: ended)
  then have b: "mset (begun s) = mset (map Some (finished s))" using inv(1) by (simp add: jobs_accounted_def)
  then have l: "length (begun s) = length (finished s)" by (metis length_map mset_eq_length)
  then show "flag_set_at s \<le> length (finished s)" using inv(2) ended by (auto simp: closing_ok_def)
  have "take (length (finished s)) (handed_in s) = begun s"
    using inv(1) by (simp add: jobs_accounted_def l [symmetric])
  then show "mset (map Some (finished s)) = mset (take (length (finished s)) (handed_in s))"
    by (simp only: b)
qed

text \<open>C33: \<open>shutdown\<close> ends and drains the pool: after \<open>notify_all\<close> the workers make only finitely many steps,
  and when there is none left \<open>shutdown\<close> has returned, all workers have ended, and the jobs that have returned
  are a prefix of the jobs handed in, with all those of the time when the flag was set.\<close>

theorem shutdown_finishes_jobs:
  assumes "pool_reach n s" and "n > 0" and "the_closing s = Joining" and "None \<notin> set (handed_in s)"
  shows "(\<forall>k s'. pool_run k s s' \<longrightarrow> k \<le> steps_left s) \<and>
    (\<forall>k s'. pool_run k s s' \<longrightarrow> (\<nexists>s''. pool_step False s' s'') \<longrightarrow>
       the_closing s' = Returned \<and> set (pool_workers (the_pool s')) = {Ended} \<and>
       flag_set_at s \<le> length (finished s') \<and>
       mset (map Some (finished s')) = mset (take (length (finished s')) (handed_in s)))"
proof (intro conjI allI impI)
  fix k s' assume run: "pool_run k s s'"
  note r = joining_run [OF run assms(1)]
  show "k \<le> steps_left s" using r assms(3) by simp
  assume stuck: "\<nexists>s''. pool_step False s' s''"
  have "\<not> pool_failed s'" using no_empty_function_runs [of n s'] r assms(3,4) by simp
  then show c: "the_closing s' = Returned" using joining_not_stuck [of n s'] r stuck assms(3) by auto
  have "pool_reach n s'" "handed_in s' = handed_in s" using r assms(3) by simp_all
  with returned_state [OF _ c assms(2)] run_keeps_flag [OF run]
  show "set (pool_workers (the_pool s')) = {Ended}" "flag_set_at s \<le> length (finished s')"
    "mset (map Some (finished s')) = mset (take (length (finished s')) (handed_in s))"
    by simp_all
qed

subsection \<open>Examples\<close>

text \<open>A pool of one worker with one job: handed in while the worker sleeps, and the pool is shut down before
  the notification.\<close>

definition one_job :: "nat pool_sys" where
  "one_job = \<lparr>the_pool = \<lparr>pool_workers = [Awake], pool_jobs = [Some 7], pool_shutdown = True\<rparr>, notifying = 1,
              the_closing = Joining, pool_failed = False, handed_in = [Some 7], begun = [], finished = [],
              flag_set_at = 1\<rparr>"

lemma one_job_reached: "pool_reach 1 one_job"
proof -
  let ?s1 = "(newPool 1 :: nat pool_sys)\<lparr>the_pool := worker_block 0 (newThreadPool 1)\<rparr>"
  let ?s2 = "?s1\<lparr>the_pool := push_job (Some 7) (the_pool ?s1), notifying := notifying ?s1 + 1,
                 handed_in := handed_in ?s1 @ [Some 7]\<rparr>"
  let ?s3 = "?s2\<lparr>the_pool := set_shutdown (the_pool ?s2), the_closing := Flag_set,
                 flag_set_at := length (handed_in ?s2)\<rparr>"
  have "pool_step True (newPool 1) ((newPool 1)\<lparr>the_pool := worker_block 0 (the_pool (newPool 1 :: nat pool_sys))\<rparr>)"
    by (rule pool_step.no_job) (simp_all add: newPool_def newThreadPool_def)
  then have "pool_reach 1 ?s1" using pool_reach.more [OF pool_reach.start] by (simp add: newPool_def)
  moreover have "pool_step True ?s1 ?s2" by (rule pool_step.enqueue) (simp_all add: newPool_def)
  ultimately have "pool_reach 1 ?s2" by (rule pool_reach.more)
  moreover have "pool_step True ?s2 ?s3" by (rule pool_step.set_flag) (simp_all add: newPool_def)
  ultimately have "pool_reach 1 ?s3" by (rule pool_reach.more)
  moreover have "pool_step True ?s3 (?s3\<lparr>the_pool := wake_all (the_pool ?s3), the_closing := Joining\<rparr>)"
    by (rule pool_step.notify_all) (simp_all add: newPool_def)
  ultimately have "pool_reach 1 (?s3\<lparr>the_pool := wake_all (the_pool ?s3), the_closing := Joining\<rparr>)"
    by (rule pool_reach.more)
  then show ?thesis
    by (simp add: one_job_def newPool_def newThreadPool_def pool_ops)
qed

lemma pool_takes_each_job_once_witness:
  "handed_in one_job = begun one_job @ pool_jobs (the_pool one_job)"
  using pool_takes_each_job_once [OF one_job_reached] by blast

lemma nothing_after_end:
  assumes "workers s = [Ended]" and "notifying s = 0" and "the_closing s = Returned"
  shows "\<not> pool_step False s s'"
proof
  assume "pool_step False s s'"
  then show False by cases (use assms in \<open>auto simp: nth_Cons'\<close>)
qed

lemma one_job_done:
  "\<exists>s'. pool_run 5 one_job s' \<and> (\<nexists>s''. pool_step False s' s'')"
proof -
  let ?s1 = "one_job\<lparr>the_pool := worker_block 0 (the_pool one_job), begun := [Some 7]\<rparr>"
  let ?s2 = "?s1\<lparr>the_pool := job_returned 0 (the_pool ?s1), finished := [7]\<rparr>"
  let ?s3 = "?s2\<lparr>the_pool := worker_block 0 (the_pool ?s2)\<rparr>"
  let ?s4 = "?s3\<lparr>notifying := notifying ?s3 - 1\<rparr>"
  let ?s5 = "?s4\<lparr>the_closing := Returned\<rparr>"
  have 1: "pool_step False one_job ?s1"
    using pool_step.take_job [of one_job 0 "Some 7" "[]" False] by (simp add: one_job_def)
  have 2: "pool_step False ?s1 ?s2"
    using pool_step.return_job [of ?s1 0 7 False] by (simp add: one_job_def worker_block_def)
  have 3: "pool_step False ?s2 ?s3"
    by (rule pool_step.no_job) (simp_all add: one_job_def worker_block_def job_returned_def)
  have 4: "pool_step False ?s3 ?s4"
    by (rule pool_step.notify_nobody) (simp_all add: one_job_def worker_block_def job_returned_def)
  have 5: "pool_step False ?s4 ?s5"
    by (rule pool_step.join) (simp_all add: one_job_def worker_block_def job_returned_def all_joined_def)
  have "pool_run (Suc (Suc (Suc (Suc (Suc 0))))) one_job ?s5"
    by (intro pool_run.one_more [OF _ 5] pool_run.one_more [OF _ 4] pool_run.one_more [OF _ 3] pool_run.one_more [OF _ 2]
        pool_run.one_more [OF _ 1] pool_run.no_steps)
  moreover have "\<not> pool_step False ?s5 s''" for s''
    by (rule nothing_after_end) (simp_all add: one_job_def worker_block_def job_returned_def)
  ultimately show ?thesis by (auto simp: numeral_eq_Suc)
qed

lemma shutdown_finishes_jobs_witness:
  "\<exists>s'. pool_run 5 one_job s' \<and> the_closing s' = Returned \<and> finished s' = [7]"
proof -
  obtain s' where r: "pool_run 5 one_job s'" "\<nexists>s''. pool_step False s' s''" using one_job_done by blast
  have o: "the_closing one_job = Joining" "None \<notin> set (handed_in one_job)" by (simp_all add: one_job_def)
  have p: "the_closing s' = Returned \<and> set (workers s') = {Ended} \<and> flag_set_at one_job \<le> length (finished s') \<and>
      mset (map Some (finished s')) = mset (take (length (finished s')) (handed_in one_job))"
    using shutdown_finishes_jobs [OF one_job_reached _ o] r by simp
  then have "length (finished s') \<ge> 1" "mset (map Some (finished s')) = mset (take (length (finished s')) [Some 7])"
    by (simp_all add: one_job_def)
  then have "finished s' = [7]" by (cases "finished s'") (auto simp: take_Cons')
  with r p show ?thesis by blast
qed

end
