(* ===== verification/Http_Listen.thy ===== *)
theory Http_Listen
  imports Http_Connect Http_Thread_Pool
begin

text \<open>
  How a server of \<open>httplib.h\<close> gets its connections: \<open>create_server_socket\<close> and \<open>bind_internal\<close>, the addresses
  of a socket, and the loop of \<open>listen_internal\<close> that accepts sockets and hands them to its task queue, while
  other threads may call \<open>stop\<close>.  The loop and the calls of \<open>stop\<close> are a step relation with one access to the
  shared variables per step.
\<close>

subsection \<open>System calls\<close>

text \<open>An address of a socket: its family and port, and its text as \<open>getnameinfo\<close> gives it.  \<open>sys_peer_pid\<close> is
  \<open>SO_PEERCRED\<close>.\<close>

record sockaddr =
  sa_family :: int
  sa_port :: int
  sa_text :: "string option"

record 'k ServerNet = "'k Net" +
  sys_listen :: "nat \<Rightarrow> int \<Rightarrow> 'k \<Rightarrow> bool \<times> 'k"
  sys_getsockname :: "nat \<Rightarrow> 'k \<Rightarrow> sockaddr option \<times> 'k"
  sys_getpeername :: "nat \<Rightarrow> 'k \<Rightarrow> sockaddr option \<times> 'k"
  sys_peer_pid :: "nat \<Rightarrow> 'k \<Rightarrow> int option \<times> 'k"
  sys_name :: "addrinfo \<Rightarrow> sockaddr"

subsection \<open>Addresses\<close>

text \<open>The port is set before the text is looked up.\<close>

definition get_ip_and_port :: "sockaddr \<Rightarrow> string \<times> int \<Rightarrow> bool \<times> string \<times> int" where
  "get_ip_and_port addr ip_port =
     (if sa_family addr = AF_INET \<or> sa_family addr = AF_INET6 then
        (case sa_text addr of
           None \<Rightarrow> (False, fst ip_port, sa_port addr)
         | Some t \<Rightarrow> (True, t, sa_port addr))
      else (False, ip_port))"

definition get_local_ip_and_port :: "('k, 'm) ServerNet_scheme \<Rightarrow> nat \<Rightarrow> string \<times> int \<Rightarrow> 'k \<Rightarrow> (string \<times> int) \<times> 'k" where
  "get_local_ip_and_port N sock ip_port k =
     (case sys_getsockname N sock k of
        (None, k1) \<Rightarrow> (ip_port, k1)
      | (Some addr, k1) \<Rightarrow> (snd (get_ip_and_port addr ip_port), k1))"

definition get_remote_ip_and_port :: "('k, 'm) ServerNet_scheme \<Rightarrow> nat \<Rightarrow> string \<times> int \<Rightarrow> 'k \<Rightarrow> (string \<times> int) \<times> 'k" where
  "get_remote_ip_and_port N sock ip_port k =
     (case sys_getpeername N sock k of
        (None, k1) \<Rightarrow> (ip_port, k1)
      | (Some addr, k1) \<Rightarrow>
          (if sa_family addr = AF_UNIX then
             (case sys_peer_pid N sock k1 of
                (None, k2) \<Rightarrow> (ip_port, k2)
              | (Some pid, k2) \<Rightarrow> ((fst ip_port, pid), k2))
           else (snd (get_ip_and_port addr ip_port), k1)))"

definition hosted_at_all :: "('k, 'm) ServerNet_scheme \<Rightarrow> string \<Rightarrow> 'k \<Rightarrow> string list \<times> 'k" where
  "hosted_at_all N hostname k =
     (case sys_getaddrinfo N (Some (c_str hostname)) [] AF_UNSPEC 0 k of
        (None, k1) \<Rightarrow> ([], sys_res_init N k1)
      | (Some rps, k1) \<Rightarrow>
          (concat (map (\<lambda>rp. case get_ip_and_port (sys_name N rp) ([], -1) of
                               (ok, ip, port) \<Rightarrow> if ok then [ip] else []) rps), k1))"

definition hosted_at :: "('k, 'm) ServerNet_scheme \<Rightarrow> string \<Rightarrow> 'k \<Rightarrow> string \<times> 'k" where
  "hosted_at N hostname k =
     (case hosted_at_all N hostname k of (addrs, k1) \<Rightarrow> (if addrs = [] then [] else hd addrs, k1))"

subsection \<open>The server socket\<close>

definition listen_backlog :: int where
  "listen_backlog = 5"

definition bind_and_listen :: "('k, 'm) ServerNet_scheme \<Rightarrow> (unit, 'k) BindOrConnect" where
  "bind_and_listen N sock ai u k =
     (case sys_bind N sock ai k of
        (False, k1) \<Rightarrow> (False, (), k1)
      | (True, k1) \<Rightarrow>
          (case sys_listen N sock listen_backlog k1 of (ok, k2) \<Rightarrow> (ok, (), k2)))"

definition default_socket_options :: "('k, 'm) ServerNet_scheme \<Rightarrow> nat \<Rightarrow> 'k \<Rightarrow> 'k" where
  "default_socket_options N sock k = sys_setsockopt N sock SO_REUSEPORT k"

text \<open>\<open>opts\<close> is the function \<open>socket_options_\<close> of the server, seen as an operation on the kernel.\<close>

definition create_server_socket ::
  "('k, 'm) ServerNet_scheme \<Rightarrow> ('w, 'r) HttpServer \<Rightarrow> string \<Rightarrow> int \<Rightarrow> int \<Rightarrow> (nat \<Rightarrow> 'k \<Rightarrow> 'k) option \<Rightarrow> 'k \<Rightarrow>
   nat option \<times> 'k" where
  "create_server_socket N sv host port socket_flags opts k =
     (case create_socket N host [] port (address_family sv) socket_flags (tcp_nodelay sv) opts
             (bind_and_listen N) () k of
        (sock, u, k1) \<Rightarrow> (sock, k1))"

text \<open>The result, the server socket and the kernel; the port \<open>0\<close> lets the system choose one.\<close>

definition bind_internal ::
  "('k, 'm) ServerNet_scheme \<Rightarrow> ('w, 'r) HttpServer \<Rightarrow> string \<Rightarrow> int \<Rightarrow> int \<Rightarrow> (nat \<Rightarrow> 'k \<Rightarrow> 'k) option \<Rightarrow> 'k \<Rightarrow>
   int \<times> nat option \<times> 'k" where
  "bind_internal N sv host port socket_flags opts k =
     (case create_server_socket N sv host port socket_flags opts k of
        (None, k1) \<Rightarrow> (-1, None, k1)
      | (Some sock, k1) \<Rightarrow>
          (if port = 0 then
             (case sys_getsockname N sock k1 of
                (None, k2) \<Rightarrow> (-1, Some sock, k2)
              | (Some addr, k2) \<Rightarrow>
                  ((if sa_family addr = AF_INET \<or> sa_family addr = AF_INET6 then sa_port addr else -1), Some sock, k2))
           else (port, Some sock, k1)))"

definition bind_to_port ::
  "('k, 'm) ServerNet_scheme \<Rightarrow> ('w, 'r) HttpServer \<Rightarrow> string \<Rightarrow> int \<Rightarrow> int \<Rightarrow> (nat \<Rightarrow> 'k \<Rightarrow> 'k) option \<Rightarrow> 'k \<Rightarrow>
   bool \<times> nat option \<times> 'k" where
  "bind_to_port N sv host port socket_flags opts k =
     (case bind_internal N sv host port socket_flags opts k of (p, sock, k1) \<Rightarrow> (p \<ge> 0, sock, k1))"

definition bind_to_any_port ::
  "('k, 'm) ServerNet_scheme \<Rightarrow> ('w, 'r) HttpServer \<Rightarrow> string \<Rightarrow> int \<Rightarrow> (nat \<Rightarrow> 'k \<Rightarrow> 'k) option \<Rightarrow> 'k \<Rightarrow>
   int \<times> nat option \<times> 'k" where
  "bind_to_any_port N sv host socket_flags opts k = bind_internal N sv host 0 socket_flags opts k"

text \<open>The timeouts of an accepted socket.\<close>

definition set_accepted_timeouts :: "('k, 'm) ServerNet_scheme \<Rightarrow> ('w, 'r) HttpServer \<Rightarrow> nat \<Rightarrow> 'k \<Rightarrow> 'k" where
  "set_accepted_timeouts N sv sock k =
     sys_setsockopt N sock (SO_SNDTIMEO (write_timeout sv)) (sys_setsockopt N sock (SO_RCVTIMEO (read_timeout sv)) k)"

text \<open>As for a client: the server socket is the only socket that is left open, and none when there is none.\<close>

lemma server_callback_keeps:
  assumes "counts_sockets N opened" and "\<And>sock n. keeps_sockets opened (\<lambda>k. snd (sys_listen N sock n k))"
  shows "callback_keeps opened (bind_and_listen N)"
  using counts_result(3) [OF assms(1)] keeps_result [OF assms(2)]
  by (fastforce simp: callback_keeps_def bind_and_listen_def split: prod.splits bool.splits)

lemma server_socket_not_lost:
  assumes "counts_sockets N opened" and "\<And>sock n. keeps_sockets opened (\<lambda>k. snd (sys_listen N sock n k))"
    and "options_keep opened opts"
  shows "case create_server_socket N sv host port flags opts k of
           (None, k') \<Rightarrow> opened k' = opened k
         | (Some sock, k') \<Rightarrow> sock \<notin> opened k \<and> opened k' = insert sock (opened k)"
proof -
  have "one_socket opened k (create_socket N host [] port (address_family sv) flags (tcp_nodelay sv) opts (bind_and_listen N) () k)"
    by (rule create_socket_one [OF assms(1,3) server_callback_keeps [OF assms(1,2)]])
  then show ?thesis by (auto simp: create_server_socket_def one_socket_def split: prod.splits option.splits)
qed

text \<open>When the system does not tell the port, \<open>bind_to_any_port\<close> fails and the socket stays open.\<close>

lemma failed_bind_keeps_socket:
  assumes "create_server_socket N sv host 0 flags opts k = (Some sock, k1)" and "sys_getsockname N sock k1 = (None, k2)"
  shows "bind_to_any_port N sv host flags opts k = (-1, Some sock, k2)"
  using assms by (simp add: bind_to_any_port_def bind_internal_def)

subsection \<open>Task queues\<close>

text \<open>The interface \<open>TaskQueue\<close> that the loop uses: a job is the socket it serves.  \<open>tq_step\<close> is what the
  threads of the queue do meanwhile; \<open>tq_returned\<close> says that \<open>shutdown\<close> has returned.\<close>

record ('j, 'q) TaskQueue =
  tq_enqueue :: "'j \<Rightarrow> 'q \<Rightarrow> 'q"
  tq_on_idle :: "'q \<Rightarrow> 'q"
  tq_shutdown :: "'q \<Rightarrow> 'q"
  tq_step :: "'q \<Rightarrow> 'q \<Rightarrow> bool"
  tq_returned :: "'q \<Rightarrow> bool"

text \<open>What a task queue promises: it keeps the jobs it is given in order, and when \<open>shutdown\<close> has returned they
  have all been served, as long as none is given after the call of \<open>shutdown\<close>.\<close>

locale job_queue =
  fixes Q :: "(nat, 'q) TaskQueue"
    and sound :: "'q \<Rightarrow> bool"
    and closing :: "'q \<Rightarrow> bool"
    and jobs :: "'q \<Rightarrow> nat list"
    and served :: "'q \<Rightarrow> nat list"
  assumes enqueue_law: "sound q \<Longrightarrow> \<not> closing q \<Longrightarrow>
      sound (tq_enqueue Q j q) \<and> \<not> closing (tq_enqueue Q j q) \<and> jobs (tq_enqueue Q j q) = jobs q @ [j]"
    and on_idle_law: "sound q \<Longrightarrow> sound (tq_on_idle Q q) \<and> closing (tq_on_idle Q q) = closing q \<and> jobs (tq_on_idle Q q) = jobs q"
    and shutdown_law: "sound q \<Longrightarrow> \<not> closing q \<Longrightarrow>
      sound (tq_shutdown Q q) \<and> closing (tq_shutdown Q q) \<and> jobs (tq_shutdown Q q) = jobs q"
    and step_law: "sound q \<Longrightarrow> tq_step Q q q' \<Longrightarrow> sound q' \<and> closing q' = closing q \<and> jobs q' = jobs q"
    and returned_stays: "sound q \<Longrightarrow> tq_returned Q q \<Longrightarrow> tq_step Q q q' \<Longrightarrow> tq_returned Q q'"
    and returned_law: "sound q \<Longrightarrow> tq_returned Q q \<Longrightarrow> mset (served q) = mset (jobs q)"

subsection \<open>The thread pool is a task queue\<close>

definition pool_enqueue :: "'j \<Rightarrow> 'j pool_sys \<Rightarrow> 'j pool_sys" where
  "pool_enqueue j s =
     s\<lparr>the_pool := push_job (Some j) (the_pool s), notifying := notifying s + 1, handed_in := handed_in s @ [Some j]\<rparr>"

definition pool_set_flag :: "'j pool_sys \<Rightarrow> 'j pool_sys" where
  "pool_set_flag s =
     s\<lparr>the_pool := set_shutdown (the_pool s), the_closing := Flag_set, flag_set_at := length (handed_in s)\<rparr>"

definition pool_queue :: "('j, 'j pool_sys) TaskQueue" where
  "pool_queue = \<lparr>tq_enqueue = pool_enqueue, tq_on_idle = (\<lambda>s. s), tq_shutdown = pool_set_flag,
                 tq_step = pool_step False, tq_returned = (\<lambda>s. the_closing s = Returned)\<rparr>"

definition pool_sound :: "nat \<Rightarrow> 'j pool_sys \<Rightarrow> bool" where
  "pool_sound n s \<longleftrightarrow>
     n > 0 \<and> pool_reach n s \<and> None \<notin> set (handed_in s) \<and>
     (the_closing s \<noteq> Not_called \<longrightarrow> flag_set_at s = length (handed_in s))"

lemma internal_keeps:
  "pool_step False s s' \<Longrightarrow> handed_in s' = handed_in s \<and> (the_closing s' = Not_called) = (the_closing s = Not_called) \<and>
     (the_closing s = Returned \<longrightarrow> the_closing s' = Returned)"
  by (induction rule: pool_step.induct) simp_all

lemma pool_sound_enqueue:
  assumes "pool_sound n s" and "the_closing s = Not_called"
  shows "pool_sound n (pool_enqueue j s)"
proof -
  have "pool_step True s (pool_enqueue j s)"
    using assms no_empty_function_runs [of n s] pool_step.enqueue [of True s "Some j"]
    by (simp add: pool_enqueue_def pool_sound_def)
  then have "pool_reach n (pool_enqueue j s)" using assms(1) by (auto simp: pool_sound_def intro: pool_reach.more)
  then show ?thesis using assms by (simp add: pool_sound_def pool_enqueue_def)
qed

lemma pool_sound_set_flag:
  assumes "pool_sound n s" and "the_closing s = Not_called"
  shows "pool_sound n (pool_set_flag s)"
proof -
  have "pool_step True s (pool_set_flag s)"
    using assms no_empty_function_runs [of n s] pool_step.set_flag [of True s]
    by (simp add: pool_set_flag_def pool_sound_def)
  then have "pool_reach n (pool_set_flag s)" using assms(1) by (auto simp: pool_sound_def intro: pool_reach.more)
  then show ?thesis using assms by (simp add: pool_sound_def pool_set_flag_def)
qed

lemma pool_sound_step: "pool_sound n s \<Longrightarrow> pool_step False s s' \<Longrightarrow> pool_sound n s'"
  using internal_keeps [of s s'] internal_keeps_flag [of s s'] by (auto simp: pool_sound_def intro: pool_reach.more)

lemma pool_served:
  assumes "pool_sound n s" and "the_closing s = Returned"
  shows "mset (finished s) = mset (map the (handed_in s))"
proof -
  have r: "pool_reach n s" "n > 0" "flag_set_at s = length (handed_in s)"
    using assms by (simp_all add: pool_sound_def)
  have "mset (map Some (finished s)) = mset (handed_in s)"
    using returned_state(2,3) [OF r(1) assms(2) r(2)] r(3) by simp
  then have "image_mset the (mset (map Some (finished s))) = image_mset the (mset (handed_in s))" by simp
  then show ?thesis by (simp add: multiset.map_comp comp_def)
qed

lemma pool_job_queue:
  "job_queue pool_queue (pool_sound n) (\<lambda>s. the_closing s \<noteq> Not_called) (\<lambda>s. map the (handed_in s)) finished"
proof
  show "pool_sound n (tq_enqueue pool_queue j q) \<and> \<not> the_closing (tq_enqueue pool_queue j q) \<noteq> Not_called \<and>
      map the (handed_in (tq_enqueue pool_queue j q)) = map the (handed_in q) @ [j]"
    if "pool_sound n q" "\<not> the_closing q \<noteq> Not_called" for q j
    using pool_sound_enqueue [of n q j] that by (simp add: pool_queue_def pool_enqueue_def)
  show "pool_sound n (tq_shutdown pool_queue q) \<and> the_closing (tq_shutdown pool_queue q) \<noteq> Not_called \<and>
      map the (handed_in (tq_shutdown pool_queue q)) = map the (handed_in q)"
    if "pool_sound n q" "\<not> the_closing q \<noteq> Not_called" for q
    using pool_sound_set_flag [of n q] that by (simp add: pool_queue_def pool_set_flag_def)
  show "pool_sound n q' \<and> (the_closing q' \<noteq> Not_called) = (the_closing q \<noteq> Not_called) \<and>
      map the (handed_in q') = map the (handed_in q)"
    if "pool_sound n q" "tq_step pool_queue q q'" for q q'
    using pool_sound_step [of n q q'] internal_keeps [of q q'] that by (simp add: pool_queue_def)
  show "tq_returned pool_queue q'" if "pool_sound n q" "tq_returned pool_queue q" "tq_step pool_queue q q'" for q q'
    using internal_keeps [of q q'] that by (simp add: pool_queue_def)
  show "mset (finished q) = mset (map the (handed_in q))"
    if "pool_sound n q" "tq_returned pool_queue q" for q
    using pool_served [of n q] that by (simp add: pool_queue_def)
qed (simp_all add: pool_queue_def)

interpretation pool: job_queue pool_queue "pool_sound n" "\<lambda>s. the_closing s \<noteq> Not_called" "\<lambda>s. map the (handed_in s)" finished
  for n
  by (rule pool_job_queue)

subsection \<open>Accepting sockets\<close>

text \<open>Where \<open>listen_internal\<close> is: before it sets \<open>is_running_\<close>, at the test of the loop, at the poll, before and
  in \<open>accept\<close>, with an accepted socket, after a failed \<open>accept\<close>, at the call that closes the server socket, and
  at its end with the value it returns.\<close>

datatype listen_pc =
    L_begin | L_head | L_poll | L_accept | L_accepting "nat option" | L_accepted nat | L_failed | L_close
  | L_shutdown bool | L_joining bool | L_exit bool | L_returned bool

text \<open>Where a call of \<open>stop\<close> is; after the exchange come \<open>shutdown_socket\<close> and \<open>close_socket\<close>, each on the socket
  that the exchange has returned.\<close>

datatype stop_pc = S_ready | S_assert | S_exchange | S_shutdown "nat option" | S_close "nat option" | S_done

text \<open>Besides the shared variables: the calls, the task queue, the sockets accepted so far, the server sockets that
  \<open>shutdown_socket\<close> and \<open>close_socket\<close> were called on, and whether an assertion failed or \<open>FD_SET\<close> was given \<open>-1\<close>.\<close>

record 'q Listener =
  svr_sock :: "nat option"
  is_running :: bool
  listen_done :: bool
  listen_at :: listen_pc
  stops :: "stop_pc list"
  task_queue :: 'q
  accepted_socks :: "nat list"
  shut_socks :: "nat list"
  closed_socks :: "nat list"
  assert_failed :: bool
  fd_set_undefined :: bool

definition newListener :: "nat \<Rightarrow> nat \<Rightarrow> 'q \<Rightarrow> 'q Listener" where
  "newListener sock n q =
     \<lparr>svr_sock = Some sock, is_running = False, listen_done = False, listen_at = L_begin, stops = replicate n S_ready,
      task_queue = q, accepted_socks = [], shut_socks = [], closed_socks = [], assert_failed = False, fd_set_undefined = False\<rparr>"

text \<open>The condition of the loop of \<open>wait_until_ready\<close>.\<close>

definition not_ready :: "'q Listener \<Rightarrow> bool" where
  "not_ready s \<longleftrightarrow> \<not> is_running s \<and> \<not> listen_done s"

abbreviation runs :: "'q Listener \<Rightarrow> bool" where
  "runs s \<equiv> \<not> assert_failed s \<and> \<not> fd_set_undefined s"

definition log_close :: "nat option \<Rightarrow> nat list \<Rightarrow> nat list" where
  "log_close v closed = (case v of None \<Rightarrow> closed | Some fd \<Rightarrow> closed @ [fd])"

text \<open>\<open>listen_internal\<close> with the scope exit of \<open>listen\<close>; \<open>polls\<close> says whether an idle interval is set.  These are the steps
  that the loop makes by itself.  A call of \<open>accept\<close> blocks: by itself it only returns, with an error, when it is called
  with \<open>-1\<close> or when \<open>shutdown_socket\<close> has been called on the socket; that another thread closes the socket does not wake
  it.  What comes from outside is in \<open>accept_step\<close>: a connection, or an error of \<open>accept\<close>, of which \<open>EMFILE\<close>,
  \<open>EINTR\<close> and \<open>EAGAIN\<close> are retried.  The number of a closed server socket is not given to another socket meanwhile.\<close>

inductive listen_step :: "(nat, 'q) TaskQueue \<Rightarrow> bool \<Rightarrow> 'q Listener \<Rightarrow> 'q Listener \<Rightarrow> bool" for Q polls where
  set_running: "\<lbrakk>runs s; listen_at s = L_begin\<rbrakk> \<Longrightarrow>
    listen_step Q polls s (s\<lparr>is_running := True, listen_at := L_head\<rparr>)"
| loop: "\<lbrakk>runs s; listen_at s = L_head; svr_sock s \<noteq> None\<rbrakk> \<Longrightarrow>
    listen_step Q polls s (s\<lparr>listen_at := (if polls then L_poll else L_accept)\<rparr>)"
| loop_ends: "\<lbrakk>runs s; listen_at s = L_head; svr_sock s = None\<rbrakk> \<Longrightarrow>
    listen_step Q polls s (s\<lparr>listen_at := L_shutdown True\<rparr>)"
| poll_ready: "\<lbrakk>runs s; listen_at s = L_poll; svr_sock s \<noteq> None\<rbrakk> \<Longrightarrow>
    listen_step Q polls s (s\<lparr>listen_at := L_accept\<rparr>)"
| poll_timeout: "\<lbrakk>runs s; listen_at s = L_poll; svr_sock s \<noteq> None\<rbrakk> \<Longrightarrow>
    listen_step Q polls s (s\<lparr>listen_at := L_head, task_queue := tq_on_idle Q (task_queue s)\<rparr>)"
| poll_closed: "\<lbrakk>runs s; listen_at s = L_poll; svr_sock s = None\<rbrakk> \<Longrightarrow>
    listen_step Q polls s (s\<lparr>fd_set_undefined := True\<rparr>)"
| call_accept: "\<lbrakk>runs s; listen_at s = L_accept\<rbrakk> \<Longrightarrow>
    listen_step Q polls s (s\<lparr>listen_at := L_accepting (svr_sock s)\<rparr>)"
| accept_failed: "\<lbrakk>runs s; listen_at s = L_accepting v; \<forall>fd. v = Some fd \<longrightarrow> fd \<in> set (shut_socks s)\<rbrakk> \<Longrightarrow>
    listen_step Q polls s (s\<lparr>listen_at := L_failed\<rparr>)"
| failed: "\<lbrakk>runs s; listen_at s = L_failed; svr_sock s \<noteq> None\<rbrakk> \<Longrightarrow>
    listen_step Q polls s (s\<lparr>listen_at := L_close\<rparr>)"
| failed_by_stop: "\<lbrakk>runs s; listen_at s = L_failed; svr_sock s = None\<rbrakk> \<Longrightarrow>
    listen_step Q polls s (s\<lparr>listen_at := L_shutdown True\<rparr>)"
| close: "\<lbrakk>runs s; listen_at s = L_close\<rbrakk> \<Longrightarrow>
    listen_step Q polls s (s\<lparr>listen_at := L_shutdown False, closed_socks := log_close (svr_sock s) (closed_socks s)\<rparr>)"
| hand_in: "\<lbrakk>runs s; listen_at s = L_accepted sock\<rbrakk> \<Longrightarrow>
    listen_step Q polls s (s\<lparr>listen_at := L_head, task_queue := tq_enqueue Q sock (task_queue s)\<rparr>)"
| shut_queue: "\<lbrakk>runs s; listen_at s = L_shutdown b\<rbrakk> \<Longrightarrow>
    listen_step Q polls s (s\<lparr>listen_at := L_joining b, task_queue := tq_shutdown Q (task_queue s)\<rparr>)"
| joined: "\<lbrakk>runs s; listen_at s = L_joining b; tq_returned Q (task_queue s)\<rbrakk> \<Longrightarrow>
    listen_step Q polls s (s\<lparr>listen_at := L_exit b\<rparr>)"
| exit: "\<lbrakk>runs s; listen_at s = L_exit b\<rbrakk> \<Longrightarrow>
    listen_step Q polls s (s\<lparr>is_running := False, listen_done := True, listen_at := L_returned b\<rparr>)"

inductive accept_step :: "'q Listener \<Rightarrow> 'q Listener \<Rightarrow> bool" where
  accepted: "\<lbrakk>runs s; listen_at s = L_accepting (Some fd)\<rbrakk> \<Longrightarrow>
    accept_step s (s\<lparr>listen_at := L_accepted sock, accepted_socks := accepted_socks s @ [sock]\<rparr>)"
| accept_again: "\<lbrakk>runs s; listen_at s = L_accepting (Some fd)\<rbrakk> \<Longrightarrow>
    accept_step s (s\<lparr>listen_at := L_head\<rparr>)"
| accept_error: "\<lbrakk>runs s; listen_at s = L_accepting (Some fd)\<rbrakk> \<Longrightarrow>
    accept_step s (s\<lparr>listen_at := L_failed\<rparr>)"

text \<open>One step of the \<open>i\<close>-th call of \<open>stop\<close>.\<close>

inductive stop_step :: "nat \<Rightarrow> 'q Listener \<Rightarrow> 'q Listener \<Rightarrow> bool" for i where
  not_running: "\<lbrakk>runs s; i < length (stops s); stops s ! i = S_ready; \<not> is_running s\<rbrakk> \<Longrightarrow>
    stop_step i s (s\<lparr>stops := (stops s)[i := S_done]\<rparr>)"
| running: "\<lbrakk>runs s; i < length (stops s); stops s ! i = S_ready; is_running s\<rbrakk> \<Longrightarrow>
    stop_step i s (s\<lparr>stops := (stops s)[i := S_assert]\<rparr>)"
| assertion: "\<lbrakk>runs s; i < length (stops s); stops s ! i = S_assert; svr_sock s \<noteq> None\<rbrakk> \<Longrightarrow>
    stop_step i s (s\<lparr>stops := (stops s)[i := S_exchange]\<rparr>)"
| assertion_fails: "\<lbrakk>runs s; i < length (stops s); stops s ! i = S_assert; svr_sock s = None\<rbrakk> \<Longrightarrow>
    stop_step i s (s\<lparr>assert_failed := True\<rparr>)"
| exchange: "\<lbrakk>runs s; i < length (stops s); stops s ! i = S_exchange\<rbrakk> \<Longrightarrow>
    stop_step i s (s\<lparr>stops := (stops s)[i := S_shutdown (svr_sock s)], svr_sock := None\<rparr>)"
| shut: "\<lbrakk>runs s; i < length (stops s); stops s ! i = S_shutdown v\<rbrakk> \<Longrightarrow>
    stop_step i s (s\<lparr>stops := (stops s)[i := S_close v], shut_socks := log_close v (shut_socks s)\<rparr>)"
| close_it: "\<lbrakk>runs s; i < length (stops s); stops s ! i = S_close v\<rbrakk> \<Longrightarrow>
    stop_step i s (s\<lparr>stops := (stops s)[i := S_done], closed_socks := log_close v (closed_socks s)\<rparr>)"

inductive server_step :: "(nat, 'q) TaskQueue \<Rightarrow> bool \<Rightarrow> 'q Listener \<Rightarrow> 'q Listener \<Rightarrow> bool" for Q polls where
  listener: "listen_step Q polls s s' \<Longrightarrow> server_step Q polls s s'"
| arrival: "accept_step s s' \<Longrightarrow> server_step Q polls s s'"
| stopper: "stop_step i s s' \<Longrightarrow> server_step Q polls s s'"
| queue: "runs s \<Longrightarrow> tq_step Q (task_queue s) q \<Longrightarrow> server_step Q polls s (s\<lparr>task_queue := q\<rparr>)"

inductive server_reach :: "(nat, 'q) TaskQueue \<Rightarrow> bool \<Rightarrow> nat \<Rightarrow> nat \<Rightarrow> 'q \<Rightarrow> 'q Listener \<Rightarrow> bool"
  for Q polls sock n q where
  start: "server_reach Q polls sock n q (newListener sock n q)"
| more: "server_reach Q polls sock n q s \<Longrightarrow> server_step Q polls s s' \<Longrightarrow> server_reach Q polls sock n q s'"

subsection \<open>What the loop keeps\<close>

fun in_hand :: "listen_pc \<Rightarrow> nat list" where
  "in_hand (L_accepted sock) = [sock]"
| "in_hand pc = []"

fun after_shutdown :: "listen_pc \<Rightarrow> bool" where
  "after_shutdown (L_joining b) = True"
| "after_shutdown (L_exit b) = True"
| "after_shutdown (L_returned b) = True"
| "after_shutdown pc = False"

fun after_join :: "listen_pc \<Rightarrow> bool" where
  "after_join (L_exit b) = True"
| "after_join (L_returned b) = True"
| "after_join pc = False"

fun running_at :: "listen_pc \<Rightarrow> bool" where
  "running_at L_begin = False"
| "running_at (L_returned b) = False"
| "running_at pc = True"

lemma stop_keeps_listener:
  "stop_step i s s' \<Longrightarrow> is_running s' = is_running s \<and> listen_at s' = listen_at s \<and> task_queue s' = task_queue s \<and>
     accepted_socks s' = accepted_socks s \<and> listen_done s' = listen_done s"
  by (induction rule: stop_step.induct) simp_all

lemma listen_running:
  "listen_step Q polls s s' \<Longrightarrow> is_running s = running_at (listen_at s) \<and> (listen_at s = L_poll \<longrightarrow> polls) \<Longrightarrow>
     is_running s' = running_at (listen_at s') \<and> (listen_at s' = L_poll \<longrightarrow> polls)"
  by (induction rule: listen_step.induct) simp_all

lemma accept_running:
  "accept_step s s' \<Longrightarrow> is_running s = running_at (listen_at s) \<and> (listen_at s = L_poll \<longrightarrow> polls) \<Longrightarrow>
     is_running s' = running_at (listen_at s') \<and> (listen_at s' = L_poll \<longrightarrow> polls)"
  by (induction rule: accept_step.induct) simp_all

lemma running_flag:
  "server_reach Q polls sock n q s \<Longrightarrow> is_running s = running_at (listen_at s) \<and> (listen_at s = L_poll \<longrightarrow> polls)"
proof (induction rule: server_reach.induct)
  case start
  then show ?case by (simp add: newListener_def)
next
  case (more s s')
  from more.hyps(2) show ?case
  proof cases
    case listener
    then show ?thesis using listen_running more.IH by blast
  next
    case arrival
    then show ?thesis using accept_running more.IH by blast
  next
    case (stopper i)
    then show ?thesis using stop_keeps_listener more.IH by metis
  next
    case (queue q')
    then show ?thesis using more.IH by simp
  qed
qed

context job_queue begin

definition queue_ok :: "'q Listener \<Rightarrow> bool" where
  "queue_ok s \<longleftrightarrow>
     sound (task_queue s) \<and> closing (task_queue s) = after_shutdown (listen_at s) \<and>
     (after_join (listen_at s) \<longrightarrow> tq_returned Q (task_queue s)) \<and>
     accepted_socks s = jobs (task_queue s) @ in_hand (listen_at s)"

lemma listen_queue_ok: "listen_step Q polls s s' \<Longrightarrow> queue_ok s \<Longrightarrow> queue_ok s'"
  by (induction rule: listen_step.induct) (simp_all add: queue_ok_def enqueue_law on_idle_law shutdown_law)

lemma accept_queue_ok: "accept_step s s' \<Longrightarrow> queue_ok s \<Longrightarrow> queue_ok s'"
  by (induction rule: accept_step.induct) (simp_all add: queue_ok_def)

lemma reach_queue_ok:
  assumes "server_reach Q polls sock n q s" and "sound q" and "\<not> closing q" and "jobs q = []"
  shows "queue_ok s"
  using assms
proof (induction rule: server_reach.induct)
  case start
  then show ?case by (simp add: newListener_def queue_ok_def)
next
  case (more s s')
  from more.hyps(2) show ?case
  proof cases
    case listener
    then show ?thesis using listen_queue_ok more by blast
  next
    case arrival
    then show ?thesis using accept_queue_ok more by blast
  next
    case (stopper i)
    then show ?thesis using stop_keeps_listener [of i s s'] more by (simp add: queue_ok_def)
  next
    case (queue q')
    then show ?thesis using more step_law [of "task_queue s" q'] returned_stays [of "task_queue s" q']
      by (simp add: queue_ok_def)
  qed
qed

text \<open>When the loop has returned, every accepted socket has been served.\<close>

lemma all_served:
  assumes "server_reach Q polls sock n q s" and "sound q" and "\<not> closing q" and "jobs q = []"
    and "listen_at s = L_returned b"
  shows "mset (served (task_queue s)) = mset (accepted_socks s) \<and> jobs (task_queue s) = accepted_socks s"
  using reach_queue_ok [OF assms(1-4)] assms(5) returned_law [of "task_queue s"] by (simp add: queue_ok_def)

end

subsection \<open>What a server promises\<close>

text \<open>C31: A server that stopped has served every connection: whatever the threads of the pool and the calls of
  \<open>stop\<close> did, when \<open>listen\<close> has returned, every accepted socket was handed to the thread pool, in the order of
  acceptance, and the jobs that returned are exactly these, once each; \<open>is_running_\<close> is false.\<close>

theorem listen_serves_every_socket:
  assumes "server_reach pool_queue polls sock n (newPool m) s" and "m > 0" and "listen_at s = L_returned b"
  shows "mset (finished (task_queue s)) = mset (accepted_socks s) \<and>
    handed_in (task_queue s) = map Some (accepted_socks s) \<and> \<not> is_running s"
proof -
  have 0: "pool_sound m (newPool m)" "\<not> the_closing (newPool m) \<noteq> Not_called" "map the (handed_in (newPool m)) = []"
    using assms(2) pool_reach.start [of m] by (simp_all add: pool_sound_def newPool_def)
  note a = pool.all_served [OF assms(1) 0 assms(3)]
  have "pool_sound m (task_queue s)" using pool.reach_queue_ok [OF assms(1) 0] by (simp add: pool.queue_ok_def)
  then have "None \<notin> set (handed_in (task_queue s))" by (simp add: pool_sound_def)
  then have "map Some (map the (handed_in (task_queue s))) = handed_in (task_queue s)"
    by (auto intro!: map_idI simp: comp_def) (metis option.exhaust_sel)
  then show ?thesis using a running_flag [OF assms(1)] assms(3) by simp
qed

text \<open>The steps the loop can still make once \<open>svr_sock_\<close> has been taken away.\<close>

fun listen_left :: "listen_pc \<Rightarrow> nat" where
  "listen_left (L_returned b) = 0"
| "listen_left (L_exit b) = 1"
| "listen_left (L_joining b) = 2"
| "listen_left (L_shutdown b) = 3"
| "listen_left L_head = 4"
| "listen_left (L_accepted sock) = 5"
| "listen_left (L_accepting v) = 6"
| "listen_left L_accept = 7"
| "listen_left pc = 5"

lemma listen_left_bound: "listen_left pc \<le> 7"
  by (cases pc) simp_all

text \<open>The server socket that was taken away has been shut down, or a call of \<open>stop\<close> is about to do it.\<close>

definition socket_accounted :: "nat \<Rightarrow> 'q Listener \<Rightarrow> bool" where
  "socket_accounted sock s \<longleftrightarrow>
     (svr_sock s = None \<or> svr_sock s = Some sock) \<and> (\<forall>fd. listen_at s = L_accepting (Some fd) \<longrightarrow> fd = sock) \<and>
     (svr_sock s = None \<longrightarrow> sock \<in> set (shut_socks s) \<or> (\<exists>i < length (stops s). stops s ! i = S_shutdown (Some sock)))"

lemma log_close_mem: "x \<in> set (log_close v l) \<longleftrightarrow> x \<in> set l \<or> v = Some x"
  by (cases v) (auto simp: log_close_def)

lemma stop_accounted:
  assumes "stop_step i s s'" and "socket_accounted sock s"
  shows "socket_accounted sock s'"
proof -
  have other: "\<exists>j < length (stops s). (stops s)[i := p] ! j = S_shutdown (Some sock)"
    if "j < length (stops s)" "stops s ! j = S_shutdown (Some sock)" "stops s ! i \<noteq> S_shutdown (Some sock)" for j p
    using that by (intro exI [of _ j]) (cases "i = j"; simp)
  show ?thesis
    using assms(1)
  proof cases
    case exchange
    show ?thesis
    proof (cases "svr_sock s")
      case None
      then show ?thesis using assms(2) exchange other by (auto simp: socket_accounted_def)
    next
      case (Some fd)
      then show ?thesis using assms(2) exchange by (auto simp: socket_accounted_def intro!: exI [of _ i])
    qed
  next
    case (shut v)
    then show ?thesis
      using assms(2) other by (cases "v = Some sock") (auto simp: socket_accounted_def log_close_mem)
  qed (use assms(2) other in \<open>auto simp: socket_accounted_def\<close>)
qed

lemma reach_accounted: "server_reach Q polls sock n q s \<Longrightarrow> socket_accounted sock s"
proof (induction rule: server_reach.induct)
  case start
  then show ?case by (simp add: socket_accounted_def newListener_def)
next
  case (more s s')
  from more.hyps(2) show ?case
  proof cases
    case listener
    then show ?thesis using more.IH by cases (auto simp: socket_accounted_def)
  next
    case arrival
    then show ?thesis using more.IH by cases (auto simp: socket_accounted_def)
  next
    case (stopper i)
    then show ?thesis using stop_accounted more.IH by blast
  next
    case (queue q')
    then show ?thesis using more.IH by (simp add: socket_accounted_def)
  qed
qed

text \<open>C34: \<open>stop\<close> ends the loop of a server without an idle interval: once it has taken the server socket away, the
  socket stays away, and each step of the loop, those that come from outside included, brings it nearer to its end, at
  most seven of them.  The loop needs nothing from outside for this: it can make a step by itself unless it is in the
  \<open>shutdown\<close> of its task queue (whose end is the subject of the thread pool) or has returned, or unless it is blocked in
  \<open>accept\<close>.  Then a call of \<open>stop\<close> has still to shut down the socket it is blocked on, can do so, and the loop goes on
  after that.\<close>

theorem stop_ends_listening:
  assumes "server_reach Q False sock n q s" and "svr_sock s = None" and "\<not> assert_failed s" and "\<not> fd_set_undefined s"
  shows "(\<forall>s'. server_step Q False s s' \<longrightarrow> svr_sock s' = None) \<and>
    (\<forall>s'. listen_step Q False s s' \<or> accept_step s s' \<longrightarrow> listen_left (listen_at s') < listen_left (listen_at s)) \<and>
    listen_left (listen_at s) \<le> 7 \<and>
    ((\<exists>s'. listen_step Q False s s') \<or> (\<exists>b. listen_at s = L_joining b \<or> listen_at s = L_returned b) \<or>
     listen_at s = L_accepting (Some sock) \<and>
       (\<exists>i < length (stops s). stops s ! i = S_shutdown (Some sock) \<and>
          (\<exists>s'. stop_step i s s') \<and> (\<forall>s'. stop_step i s s' \<longrightarrow> (\<exists>s''. listen_step Q False s' s''))))"
proof (intro conjI allI impI)
  fix s' assume "server_step Q False s s'"
  then show "svr_sock s' = None"
    using assms(2) by (auto elim!: server_step.cases listen_step.cases accept_step.cases stop_step.cases)
next
  fix s' assume "listen_step Q False s s' \<or> accept_step s s'"
  then show "listen_left (listen_at s') < listen_left (listen_at s)"
  proof
    assume "listen_step Q False s s'"
    then show ?thesis using assms(2) running_flag [OF assms(1)] by cases auto
  next
    assume "accept_step s s'"
    then show ?thesis by cases auto
  qed
next
  show "listen_left (listen_at s) \<le> 7" by (rule listen_left_bound)
next
  have runs: "runs s" using assms(3,4) by simp
  have poll: "listen_at s \<noteq> L_poll" using running_flag [OF assms(1)] by auto
  note acc = reach_accounted [OF assms(1), unfolded socket_accounted_def]
  show "(\<exists>s'. listen_step Q False s s') \<or> (\<exists>b. listen_at s = L_joining b \<or> listen_at s = L_returned b) \<or>
     listen_at s = L_accepting (Some sock) \<and>
       (\<exists>i < length (stops s). stops s ! i = S_shutdown (Some sock) \<and>
          (\<exists>s'. stop_step i s s') \<and> (\<forall>s'. stop_step i s s' \<longrightarrow> (\<exists>s''. listen_step Q False s' s'')))"
  proof (cases "listen_at s")
    case L_begin
    show ?thesis by (intro disjI1 exI, rule listen_step.set_running [OF runs L_begin])
  next
    case L_head
    show ?thesis by (intro disjI1 exI, rule listen_step.loop_ends [OF runs L_head assms(2)])
  next
    case L_accept
    show ?thesis by (intro disjI1 exI, rule listen_step.call_accept [OF runs L_accept])
  next
    case (L_accepting v)
    show ?thesis
    proof (cases "\<forall>fd. v = Some fd \<longrightarrow> fd \<in> set (shut_socks s)")
      case True
      show ?thesis by (intro disjI1 exI, rule listen_step.accept_failed [OF runs L_accepting True])
    next
      case False
      then have v: "v = Some sock" "sock \<notin> set (shut_socks s)" using acc L_accepting by auto
      then obtain i where i: "i < length (stops s)" "stops s ! i = S_shutdown (Some sock)" using acc assms(2) by blast
      have "\<exists>s''. listen_step Q False s' s''" if "stop_step i s s'" for s'
        using that
      proof cases
        case (shut w)
        then have "listen_at s' = L_accepting (Some sock)" "sock \<in> set (shut_socks s')" "runs s'"
          using i v(1) L_accepting runs by (simp_all add: log_close_mem)
        then show ?thesis using listen_step.accept_failed [of s' "Some sock"] by blast
      qed (use i in simp_all)
      then show ?thesis using i v(1) L_accepting stop_step.shut [OF runs i] by blast
    qed
  next
    case (L_accepted c)
    show ?thesis by (intro disjI1 exI, rule listen_step.hand_in [OF runs L_accepted])
  next
    case L_failed
    show ?thesis by (intro disjI1 exI, rule listen_step.failed_by_stop [OF runs L_failed assms(2)])
  next
    case L_close
    show ?thesis by (intro disjI1 exI, rule listen_step.close [OF runs L_close])
  next
    case (L_shutdown b)
    show ?thesis by (intro disjI1 exI, rule listen_step.shut_queue [OF runs L_shutdown])
  next
    case (L_exit b)
    show ?thesis by (intro disjI1 exI, rule listen_step.exit [OF runs L_exit])
  qed (use poll in auto)
qed

text \<open>\<open>wait_until_ready\<close> waits exactly until \<open>listen_internal\<close> has begun.\<close>

lemma ready_once_begun:
  "server_reach Q polls sock n q s \<Longrightarrow> not_ready s = (listen_at s = L_begin)"
proof -
  assume r: "server_reach Q polls sock n q s"
  have "listen_done s = (\<exists>b. listen_at s = L_returned b)"
    using r
  proof (induction rule: server_reach.induct)
    case start
    then show ?case by (simp add: newListener_def)
  next
    case (more s s')
    from more.hyps(2) show ?case
    proof cases
      case listener
      then show ?thesis using more.IH by cases auto
    next
      case arrival
      then show ?thesis using more.IH by cases auto
    next
      case (stopper i)
      then show ?thesis using stop_keeps_listener more.IH by metis
    next
      case (queue q')
      then show ?thesis using more.IH by simp
    qed
  qed
  then show ?thesis using running_flag [OF r] by (cases "listen_at s") (simp_all add: not_ready_def)
qed

text \<open>With one call of \<open>stop\<close> its assertion holds.\<close>

definition stop_holds_socket :: "'q Listener \<Rightarrow> bool" where
  "stop_holds_socket s \<longleftrightarrow>
     \<not> assert_failed s \<and> length (stops s) = 1 \<and> (svr_sock s = None \<longrightarrow> (\<exists>v. stops s = [S_shutdown v] \<or> stops s = [S_close v]) \<or> stops s = [S_done])"

lemma one_stop_is_safe:
  assumes "server_reach Q polls sock 1 q s" shows "stop_holds_socket s"
  using assms
proof (induction rule: server_reach.induct)
  case start
  then show ?case by (simp add: stop_holds_socket_def newListener_def)
next
  case (more s s')
  from more.hyps(2) show ?case
  proof cases
    case listener
    then show ?thesis using more.IH by cases (auto simp: stop_holds_socket_def)
  next
    case arrival
    then show ?thesis using more.IH by cases (auto simp: stop_holds_socket_def)
  next
    case (stopper i)
    then show ?thesis
      using more.IH by cases (auto simp: stop_holds_socket_def less_Suc_eq nth_Cons' length_Suc_conv)
  next
    case (queue q')
    then show ?thesis using more.IH by (simp add: stop_holds_socket_def)
  qed
qed

subsection \<open>Races\<close>

text \<open>A server without jobs, to look at the shared variables only.\<close>

definition no_queue :: "(nat, unit) TaskQueue" where
  "no_queue = \<lparr>tq_enqueue = (\<lambda>j q. q), tq_on_idle = (\<lambda>q. q), tq_shutdown = (\<lambda>q. q), tq_step = (\<lambda>q q'. False),
               tq_returned = (\<lambda>q. True)\<rparr>"

definition at :: "listen_pc \<Rightarrow> nat option \<Rightarrow> stop_pc list \<Rightarrow> nat list \<Rightarrow> unit Listener" where
  "at pc v ss closed =
     (newListener 3 0 ())\<lparr>listen_at := pc, is_running := running_at pc, svr_sock := v, stops := ss, closed_socks := closed\<rparr>"

text \<open>The same, with the server socket shut down.\<close>

definition shut_at :: "listen_pc \<Rightarrow> nat option \<Rightarrow> stop_pc list \<Rightarrow> nat list \<Rightarrow> unit Listener" where
  "shut_at pc v ss closed = (at pc v ss closed)\<lparr>shut_socks := [3]\<rparr>"

abbreviation can_be :: "bool \<Rightarrow> nat \<Rightarrow> unit Listener \<Rightarrow> bool" where
  "can_be polls n s \<equiv> server_reach no_queue polls 3 n () s"

lemma listener_moves: "can_be polls n s \<Longrightarrow> listen_step no_queue polls s s' \<Longrightarrow> can_be polls n s'"
  by (rule server_reach.more [OF _ server_step.listener])

lemma stop_moves: "can_be polls n s \<Longrightarrow> stop_step i s s' \<Longrightarrow> can_be polls n s'"
  by (rule server_reach.more [OF _ server_step.stopper])

lemma can_listen: "can_be polls n (at L_head (Some 3) (replicate n S_ready) [])"
  using listener_moves [OF server_reach.start listen_step.set_running]
  by (simp add: at_def newListener_def)

lemma can_poll:
  "can_be polls n (at L_head (Some v) ss cl) \<Longrightarrow> polls \<Longrightarrow>
     can_be polls n (at L_poll (Some v) ss cl)"
  using listener_moves [OF _ listen_step.loop, of polls n "at L_head (Some v) ss cl"]
  by (simp add: at_def newListener_def log_close_def)

lemma can_go_on:
  "can_be polls n (at L_head (Some v) ss cl) \<Longrightarrow> \<not> polls \<Longrightarrow>
     can_be polls n (at L_accept (Some v) ss cl)"
  using listener_moves [OF _ listen_step.loop, of polls n "at L_head (Some v) ss cl"]
  by (simp add: at_def newListener_def log_close_def)

lemma can_accept:
  "can_be polls n (at L_accept w ss cl) \<Longrightarrow>
     can_be polls n (at (L_accepting w) w ss cl)"
  using listener_moves [OF _ listen_step.call_accept, of polls n "at L_accept w ss cl"]
  by (simp add: at_def newListener_def log_close_def)

lemma can_fail:
  "can_be polls n (at (L_accepting (Some u)) w ss cl) \<Longrightarrow>
     can_be polls n (at L_failed w ss cl)"
  using server_reach.more [OF _ server_step.arrival [OF accept_step.accept_error], of no_queue polls 3 n "()" "at (L_accepting (Some u)) w ss cl"]
  by (simp add: at_def newListener_def log_close_def)

lemma can_give_up:
  "can_be polls n (at L_failed (Some v) ss cl) \<Longrightarrow>
     can_be polls n (at L_close (Some v) ss cl)"
  using listener_moves [OF _ listen_step.failed, of polls n "at L_failed (Some v) ss cl"]
  by (simp add: at_def newListener_def log_close_def)

lemma can_close:
  "can_be polls n (at L_close (Some v) ss cl) \<Longrightarrow>
     can_be polls n (at (L_shutdown False) (Some v) ss (cl @ [v]))"
  using listener_moves [OF _ listen_step.close, of polls n "at L_close (Some v) ss cl"]
  by (simp add: at_def newListener_def log_close_def)

lemma can_stop:
  "can_be polls n (at pc w ss cl) \<Longrightarrow> running_at pc \<Longrightarrow> i < length ss \<Longrightarrow> ss ! i = S_ready \<Longrightarrow>
     can_be polls n (at pc w (ss[i := S_assert]) cl)"
  using stop_moves [OF _ stop_step.running, of polls n "at pc w ss cl"]
  by (simp add: at_def newListener_def log_close_def)

lemma can_pass:
  "can_be polls n (at pc (Some v) ss cl) \<Longrightarrow> i < length ss \<Longrightarrow> ss ! i = S_assert \<Longrightarrow>
     can_be polls n (at pc (Some v) (ss[i := S_exchange]) cl)"
  using stop_moves [OF _ stop_step.assertion, of polls n "at pc (Some v) ss cl"]
  by (simp add: at_def newListener_def log_close_def)

lemma can_take:
  "can_be polls n (at pc w ss cl) \<Longrightarrow> i < length ss \<Longrightarrow> ss ! i = S_exchange \<Longrightarrow>
     can_be polls n (at pc None (ss[i := S_shutdown w]) cl)"
  using stop_moves [OF _ stop_step.exchange, of polls n "at pc w ss cl"]
  by (simp add: at_def newListener_def log_close_def)

lemma can_shut:
  "can_be polls n (at pc w ss cl) \<Longrightarrow> i < length ss \<Longrightarrow> ss ! i = S_shutdown (Some 3) \<Longrightarrow>
     can_be polls n (shut_at pc w (ss[i := S_close (Some 3)]) cl)"
  using stop_moves [OF _ stop_step.shut [where v = "Some 3"], of polls n "at pc w ss cl"]
  by (simp add: at_def shut_at_def newListener_def log_close_def)

lemma can_close_it:
  "can_be polls n (shut_at pc w ss cl) \<Longrightarrow> i < length ss \<Longrightarrow> ss ! i = S_close (Some v) \<Longrightarrow>
     can_be polls n (shut_at pc w (ss[i := S_done]) (cl @ [v]))"
  using stop_moves [OF _ stop_step.close_it [where v = "Some v"], of polls n "shut_at pc w ss cl"]
  by (simp add: at_def shut_at_def newListener_def log_close_def)

text \<open>Two calls of \<open>stop\<close> can meet: the second one finds the server running and no socket, and its assertion
  fails.\<close>

lemma second_stop_asserts: "\<exists>s. can_be False 2 s \<and> assert_failed s"
proof -
  have "can_be False 2 (at L_head (Some 3) [S_ready, S_ready] [])"
    using can_listen [of False 2] by (simp add: numeral_2_eq_2)
  from can_stop [OF this, of 0] have "can_be False 2 (at L_head (Some 3) [S_assert, S_ready] [])" by simp
  from can_pass [OF this, of 0] have "can_be False 2 (at L_head (Some 3) [S_exchange, S_ready] [])" by simp
  from can_take [OF this, of 0] have "can_be False 2 (at L_head None [S_shutdown (Some 3), S_ready] [])" by simp
  from can_stop [OF this, of 1] have r: "can_be False 2 (at L_head None [S_shutdown (Some 3), S_assert] [])" by simp
  let ?s = "at L_head None [S_shutdown (Some 3), S_assert] []"
  have "stop_step 1 ?s (?s\<lparr>assert_failed := True\<rparr>)"
    by (rule stop_step.assertion_fails) (simp_all add: at_def newListener_def)
  from stop_moves [OF r this] have "can_be False 2 (?s\<lparr>assert_failed := True\<rparr>)" .
  moreover have "assert_failed (?s\<lparr>assert_failed := True\<rparr>)" by simp
  ultimately show ?thesis by blast
qed

text \<open>After an \<open>accept\<close> that fails the loop closes the server socket and keeps its number, and a call of
  \<open>stop\<close> during the shutdown closes the number again.\<close>

lemma server_socket_closed_twice: "\<exists>s. can_be False 1 s \<and> closed_socks s = [3, 3]"
proof -
  have "can_be False 1 (at L_head (Some 3) [S_ready] [])" using can_listen [of False 1] by simp
  then have "can_be False 1 (at (L_shutdown False) (Some 3) [S_ready] [3])"
    using can_close can_give_up can_fail can_accept can_go_on by (metis append_Nil)
  from can_stop [OF this, of 0] have "can_be False 1 (at (L_shutdown False) (Some 3) [S_assert] [3])" by simp
  from can_pass [OF this, of 0] have "can_be False 1 (at (L_shutdown False) (Some 3) [S_exchange] [3])" by simp
  from can_take [OF this, of 0] have "can_be False 1 (at (L_shutdown False) None [S_shutdown (Some 3)] [3])" by simp
  from can_shut [OF this, of 0] have "can_be False 1 (shut_at (L_shutdown False) None [S_close (Some 3)] [3])" by simp
  from can_close_it [OF this, of 0] have "can_be False 1 (shut_at (L_shutdown False) None [S_done] [3, 3])" by simp
  moreover have "closed_socks (shut_at (L_shutdown False) None [S_done] [3, 3]) = [3, 3]" by (simp add: at_def shut_at_def)
  ultimately show ?thesis by blast
qed

text \<open>With an idle interval, a call of \<open>stop\<close> between the test of the loop and the poll makes the poll use the
  descriptor \<open>-1\<close>.\<close>

lemma poll_of_no_socket: "\<exists>s. can_be True 1 s \<and> fd_set_undefined s"
proof -
  have "can_be True 1 (at L_head (Some 3) [S_ready] [])" using can_listen [of True 1] by simp
  from can_poll [OF this] have "can_be True 1 (at L_poll (Some 3) [S_ready] [])" by simp
  from can_stop [OF this, of 0] have "can_be True 1 (at L_poll (Some 3) [S_assert] [])" by simp
  from can_pass [OF this, of 0] have "can_be True 1 (at L_poll (Some 3) [S_exchange] [])" by simp
  from can_take [OF this, of 0] have r: "can_be True 1 (at L_poll None [S_shutdown (Some 3)] [])" by simp
  let ?s = "at L_poll None [S_shutdown (Some 3)] []"
  have "listen_step no_queue True ?s (?s\<lparr>fd_set_undefined := True\<rparr>)"
    by (rule listen_step.poll_closed) (simp_all add: at_def newListener_def)
  from listener_moves [OF r this] have "can_be True 1 (?s\<lparr>fd_set_undefined := True\<rparr>)" .
  moreover have "fd_set_undefined (?s\<lparr>fd_set_undefined := True\<rparr>)" by simp
  ultimately show ?thesis by blast
qed

text \<open>A loop that is blocked in \<open>accept\<close> when \<open>stop\<close> has taken the socket: it cannot go on by itself.\<close>

lemma blocked_state: "can_be False 1 (at (L_accepting (Some 3)) None [S_shutdown (Some 3)] [])"
proof -
  have "can_be False 1 (at (L_accepting (Some 3)) (Some 3) [S_ready] [])"
    using can_accept [OF can_go_on [OF can_listen [of False 1]]] by simp
  from can_stop [OF this, of 0] have "can_be False 1 (at (L_accepting (Some 3)) (Some 3) [S_assert] [])" by simp
  from can_pass [OF this, of 0] have "can_be False 1 (at (L_accepting (Some 3)) (Some 3) [S_exchange] [])" by simp
  from can_take [OF this, of 0] show ?thesis by simp
qed

lemma blocked_in_accept: "\<not> listen_step no_queue False (at (L_accepting (Some 3)) None ss cl) s'"
  by (auto elim!: listen_step.cases simp: at_def newListener_def)

lemma stop_ends_listening_witness:
  "\<exists>s'. stop_step 0 (at (L_accepting (Some 3)) None [S_shutdown (Some 3)] []) s' \<and> (\<exists>s''. listen_step no_queue False s' s'')"
  using stop_ends_listening [OF blocked_state] blocked_in_accept by (fastforce simp: at_def newListener_def)


subsection \<open>One connection\<close>

text \<open>A run with one worker that serves one socket and is stopped.\<close>

definition pool_at :: "nat worker \<Rightarrow> nat option list \<Rightarrow> nat \<Rightarrow> closing \<Rightarrow> nat option list \<Rightarrow> nat list \<Rightarrow> nat pool_sys" where
  "pool_at w js pending c taken fin =
     \<lparr>the_pool = \<lparr>pool_workers = [w], pool_jobs = js, pool_shutdown = (c \<noteq> Not_called)\<rparr>, notifying = pending,
      the_closing = c, pool_failed = False, handed_in = taken @ js, begun = taken, finished = fin,
      flag_set_at = (if c = Not_called then 0 else length (taken @ js))\<rparr>"

definition served_at :: "listen_pc \<Rightarrow> nat option \<Rightarrow> stop_pc \<Rightarrow> nat list \<Rightarrow> nat pool_sys \<Rightarrow> nat pool_sys Listener" where
  "served_at pc v sp acc q =
     \<lparr>svr_sock = v, is_running = running_at pc, listen_done = (pc = L_returned True), listen_at = pc, stops = [sp],
      task_queue = q, accepted_socks = acc, shut_socks = [], closed_socks = [], assert_failed = False, fd_set_undefined = False\<rparr>"

abbreviation serving :: "nat pool_sys Listener \<Rightarrow> bool" where
  "serving \<equiv> server_reach pool_queue False 3 1 (newPool 1)"

lemma listen_serves:
  "serving s \<Longrightarrow> listen_step pool_queue False s s' \<Longrightarrow> serving s'"
  "serving s \<Longrightarrow> stop_step i s s' \<Longrightarrow> serving s'"
  "serving s \<Longrightarrow> accept_step s s' \<Longrightarrow> serving s'"
  by (blast intro: server_reach.more server_step.listener server_step.stopper server_step.arrival)+

lemma pool_serves:
  assumes "serving (served_at pc v sp acc q)" and "pool_step False q q'"
  shows "serving (served_at pc v sp acc q')"
proof -
  have "server_step pool_queue False (served_at pc v sp acc q) ((served_at pc v sp acc q)\<lparr>task_queue := q'\<rparr>)"
    by (rule server_step.queue) (simp_all add: served_at_def pool_queue_def assms(2))
  from server_reach.more [OF assms(1) this] show ?thesis by (simp add: served_at_def)
qed

lemmas run_defs = served_at_def pool_at_def pool_queue_def pool_enqueue_def pool_set_flag_def pool_ops

lemma one_connection: "serving (served_at (L_returned True) None (S_shutdown (Some 3)) [9] (pool_at Ended [] 1 Returned [Some 9] [9]))"
proof -
  have "serving (served_at L_head (Some 3) S_ready [] (pool_at Awake [] 0 Not_called [] []))"
    using listen_serves(1) [OF server_reach.start listen_step.set_running]
    by (simp add: newListener_def newPool_def newThreadPool_def served_at_def pool_at_def)
  from listen_serves(1) [OF this listen_step.loop]
  have "serving (served_at L_accept (Some 3) S_ready [] (pool_at Awake [] 0 Not_called [] []))" by (simp add: run_defs all_joined_def)
  from listen_serves(1) [OF this listen_step.call_accept]
  have "serving (served_at (L_accepting (Some 3)) (Some 3) S_ready [] (pool_at Awake [] 0 Not_called [] []))" by (simp add: run_defs all_joined_def)
  from listen_serves(3) [OF this accept_step.accepted [where sock = 9]]
  have "serving (served_at (L_accepted 9) (Some 3) S_ready [9] (pool_at Awake [] 0 Not_called [] []))" by (simp add: run_defs all_joined_def)
  from listen_serves(1) [OF this listen_step.hand_in]
  have "serving (served_at L_head (Some 3) S_ready [9] (pool_at Awake [Some 9] 1 Not_called [] []))" by (simp add: run_defs all_joined_def)
  moreover have "pool_step False (pool_at Awake [Some 9] 1 Not_called [] []) (pool_at (Working (Some 9)) [] 1 Not_called [Some 9] [])"
    using pool_step.take_job [of "(pool_at Awake [Some 9] 1 Not_called [] [])" 0 "Some 9" "[]" False] by (simp add: pool_at_def pool_ops all_joined_def)
  ultimately have "serving (served_at L_head (Some 3) S_ready [9] (pool_at (Working (Some 9)) [] 1 Not_called [Some 9] []))" by (rule pool_serves)
  moreover have "pool_step False (pool_at (Working (Some 9)) [] 1 Not_called [Some 9] []) (pool_at Awake [] 1 Not_called [Some 9] [9])"
    using pool_step.return_job [of "(pool_at (Working (Some 9)) [] 1 Not_called [Some 9] [])" 0 9 False] by (simp add: pool_at_def pool_ops all_joined_def)
  ultimately have "serving (served_at L_head (Some 3) S_ready [9] (pool_at Awake [] 1 Not_called [Some 9] [9]))" by (rule pool_serves)
  from listen_serves(2) [OF this stop_step.running [where i = 0]]
  have "serving (served_at L_head (Some 3) S_assert [9] (pool_at Awake [] 1 Not_called [Some 9] [9]))" by (simp add: run_defs all_joined_def)
  from listen_serves(2) [OF this stop_step.assertion [where i = 0]]
  have "serving (served_at L_head (Some 3) S_exchange [9] (pool_at Awake [] 1 Not_called [Some 9] [9]))" by (simp add: run_defs all_joined_def)
  from listen_serves(2) [OF this stop_step.exchange [where i = 0]]
  have "serving (served_at L_head None (S_shutdown (Some 3)) [9] (pool_at Awake [] 1 Not_called [Some 9] [9]))" by (simp add: run_defs all_joined_def)
  from listen_serves(1) [OF this listen_step.loop_ends]
  have "serving (served_at (L_shutdown True) None (S_shutdown (Some 3)) [9] (pool_at Awake [] 1 Not_called [Some 9] [9]))" by (simp add: run_defs all_joined_def)
  from listen_serves(1) [OF this listen_step.shut_queue]
  have "serving (served_at (L_joining True) None (S_shutdown (Some 3)) [9] (pool_at Awake [] 1 Flag_set [Some 9] [9]))" by (simp add: run_defs all_joined_def)
  moreover have "pool_step False (pool_at Awake [] 1 Flag_set [Some 9] [9]) (pool_at Awake [] 1 Joining [Some 9] [9])"
    using pool_step.notify_all [of "(pool_at Awake [] 1 Flag_set [Some 9] [9])" False] by (simp add: pool_at_def pool_ops all_joined_def)
  ultimately have "serving (served_at (L_joining True) None (S_shutdown (Some 3)) [9] (pool_at Awake [] 1 Joining [Some 9] [9]))" by (rule pool_serves)
  moreover have "pool_step False (pool_at Awake [] 1 Joining [Some 9] [9]) (pool_at Ended [] 1 Joining [Some 9] [9])"
    using pool_step.no_job [of "(pool_at Awake [] 1 Joining [Some 9] [9])" 0 False] by (simp add: pool_at_def pool_ops all_joined_def)
  ultimately have "serving (served_at (L_joining True) None (S_shutdown (Some 3)) [9] (pool_at Ended [] 1 Joining [Some 9] [9]))" by (rule pool_serves)
  moreover have "pool_step False (pool_at Ended [] 1 Joining [Some 9] [9]) (pool_at Ended [] 1 Returned [Some 9] [9])"
    using pool_step.join [of "(pool_at Ended [] 1 Joining [Some 9] [9])" False] by (simp add: pool_at_def pool_ops all_joined_def)
  ultimately have "serving (served_at (L_joining True) None (S_shutdown (Some 3)) [9] (pool_at Ended [] 1 Returned [Some 9] [9]))" by (rule pool_serves)
  from listen_serves(1) [OF this listen_step.joined]
  have "serving (served_at (L_exit True) None (S_shutdown (Some 3)) [9] (pool_at Ended [] 1 Returned [Some 9] [9]))" by (simp add: run_defs all_joined_def)
  from listen_serves(1) [OF this listen_step.exit]
  show ?thesis by (simp add: run_defs)
qed

lemma listen_serves_every_socket_witness:
  "mset (finished (pool_at Ended [] 1 Returned [Some 9] [9])) = mset [9]"
  using listen_serves_every_socket [OF one_connection, of True] by (simp add: served_at_def)


end
