(* ===== verification/Spec2Isabelle.thy ===== *)
theory Spec2Isabelle
  imports
    Handle_Ownership
    Registry_Properties
    Publisher_Policies
    Log_Main
    Server_Threads
    Http_Mime
    Http_Query
    Http_Ranges
    Http_Stream_Laws
    Http_Routing_Laws
    Http_Multipart_Laws
    Http_Client_Laws
    Http_Universal
    Http_Files
    Http_Tls_Client
    Http_Compress
    Http_Listen
begin

text \<open>
  A verification development for the repository \<open>my-server\<close>: a publisher module, a logger module, a server
  template and the HTTP library the application builds on.

  \<^bold>\<open>Publisher\<close> (\<open>src/modules/publisher\<close>).  \<open>Publisher_Types\<close> holds the enums and the token.
  \<open>Token_Registry\<close> models \<open>runtime/token_registry.hpp\<close>: the free stacks of channels and tokens, the group
  table, and every operation with its assertions and exceptions as results.  \<open>Registry_Laws\<close> and
  \<open>Registry_Properties\<close> hold the invariant (free stacks and used entries partition the tables) and what each
  operation does.  \<open>Registration_Handle\<close> and \<open>Handle_Ownership\<close> model the owning handle of
  \<open>runtime/registration_handle.hpp\<close> over a store of registries: moves, destruction and reassignment; the
  live tokens are those of the valid handles.  \<open>Publisher_Runtime\<close> models the runtime of
  \<open>runtime/publisher_runtime.hpp\<close> and its terminal and file writers.

  \<^bold>\<open>Logger\<close> (\<open>src/modules/logger\<close>).  \<open>Cpp_String\<close> models the operations of \<open>std::string\<close> the
  code uses.  \<open>Log_Names\<close> holds the tables of classes and methods, \<open>Payloads\<close> the registry of payloads and the
  builder, \<open>Text_Sink\<close> the rewriting of the identifiers of a line, \<open>Stream_Adapter\<close> the buffer of fixed
  size, \<open>Publisher_Policies\<close> the publishers of \<open>logger/publisher\<close>.  \<open>Free_List\<close> and \<open>Mpsc_Queue\<close> model
  \<open>core/lockfree_queue.hpp\<close> twice: the sequential operation, and a step relation with one atomic access per
  step and any number of threads.  \<open>Log_Engine\<close> models \<open>log_engine.cpp\<close> as a step relation: a call takes its
  record in the steps of \<open>try_pop\<close>, load, read of the next record and exchange, and the other operations of the free list
  and the queue are one step each.  Two parameters of the relation say whether calls of \<open>shutdown\<close> happen and whether
  calls of \<open>try_pop\<close> overlap.  \<open>Engine_Laws\<close> and \<open>Engine_Properties\<close> prove that records are conserved and output is
  in order while nobody shuts the engine down and no two threads are inside \<open>try_pop\<close>, that a shutdown with no call in
  progress drains, and that the counters are exact in every run; and they show the runs in which two overlapping calls take the
  same record (\<open>overlapping_pops_share_record\<close>) and in which a shutdown loses a message.  \<open>Log_Main\<close> runs a whole
  \<open>enqueue\<close>, the handler and the program of \<open>main.cpp\<close>.

  \<^bold>\<open>Server\<close> (\<open>src/app/include/server\<close>).  \<open>Server_Types\<close> holds enums, configuration, metrics and hooks.
  \<open>Server_Core\<close> models \<open>server.h\<close>: life cycle, submission, processing of an event, worker loop, queue and
  builder, with the user's type of events, decoder and handler as parameters.  \<open>Server_Properties\<close> holds the
  properties of one thread.  \<open>Server_Threads\<close> interleaves any number of submitting threads and workers with
  \<open>shutdown\<close> and \<open>wait\<close>, one shared access per step, with the mutex and the condition variable of the workers:
  conservation of events, the bound of the queue, what a graceful worker leaves, and the run in which a
  notification is lost and \<open>wait\<close> never returns.

  \<^bold>\<open>HTTP library\<close> (\<open>src/lib/httplib.h\<close>, of which \<open>src/app/lib/httplib.h\<close> is an identical copy).

  Data and text.  \<open>Http_Maps\<close> models \<open>std::multimap\<close> as a sorted association list, with a locale of key orders
  that both comparators interpret.  \<open>Http_Messages\<close> holds requests, responses, results and errors, and a content
  provider as a program of calls of its sink.  \<open>Http_Text\<close> holds hexadecimal, UTF-8, base 64, URL coding, the path
  check and the splitting of strings; \<open>Http_Text_Laws\<close> its properties.  \<open>Http_Mime\<close> holds content types,
  \<open>Http_Query\<close> query strings and the writing of form data, \<open>Http_Ranges\<close> byte ranges.

  Streams.  \<open>Http_Streams\<close> models reading from a stream (a record of functions, the interface of the class
  \<open>Stream\<close>) and \<open>Http_Writers\<close> writing to it.  \<open>Http_Stream_Laws\<close> states what a stream of bytes promises as the
  locales \<open>byte_source\<close>, \<open>byte_sink\<close> and \<open>byte_link\<close>, and interprets them with \<open>BufferStream\<close>.  \<open>Http_Socket\<close>
  holds \<open>SocketStream\<close>, its buffer and the calls of \<open>select\<close>, \<open>recv\<close> and \<open>send\<close>, \<open>Http_Socket_Laws\<close> its
  properties; the locale \<open>byte_socket\<close> of \<open>Http_Client_Laws\<close> is interpreted with it.
  \<open>Http_Connect\<close> makes connections and binds, with the proof that no
  descriptor is lost; \<open>Http_Files\<close> holds the class \<open>mmap\<close> and the tests of a path.

  Server side.  \<open>Http_Routing\<close> holds the matchers, the settings of the server, the dispatch of a request and the
  request line, \<open>Http_Multipart\<close> the parser of form data, \<open>Http_Content\<close> the ways to read the content of a request,
  \<open>Http_Response\<close> the writing of a response, \<open>Http_Process\<close> static files, routing, \<open>process_request\<close> and the loop
  over the requests of a connection.  \<open>Http_Routing_Laws\<close>, \<open>Http_Multipart_Laws\<close>, \<open>Http_Request_Laws\<close>,
  \<open>Http_Server_Laws\<close> and \<open>Http_Connection_Properties\<close> hold the properties.  \<open>Http_Thread_Pool\<close> is the pool as a
  step relation over its locked blocks; \<open>Http_Listen\<close> holds addresses, server sockets, the accept loop, which blocks in
  \<open>accept\<close> until a client comes or the socket is shut down, with calls of \<open>stop\<close> between its steps, and the locale \<open>job_queue\<close> of task queues, which the pool interprets.

  Client side.  \<open>Http_Client\<close> models \<open>ClientImpl\<close>: settings, writing a request, reading a response, redirects and the
  life of its socket; \<open>Http_Client_Laws\<close> proves that the client reads what the server writes.  \<open>Http_Client_Api\<close>
  holds the calls \<open>Get\<close>, \<open>Post\<close> and so on, \<open>Http_Client_Form\<close> forms whose parts come from providers, and
  \<open>Http_Universal\<close> the class \<open>Client\<close> with the expression that takes an address apart.

  Optional parts, compiled only with OpenSSL, zlib or brotli, whose calls are parameters.  \<open>Http_Host_Check\<close> holds the
  comparison of a certificate with the name of the host, \<open>Http_Digest\<close> the parser of a challenge and the header that
  answers it, whose response is the one RFC 2617 prescribes.  \<open>Http_Tls\<close> holds handshakes, \<open>SSLSocketStream\<close>, \<open>SSLServer\<close> and
  \<open>SSLClient\<close>: a connection the client accepts is verified, and a failed one leaves no object and no socket.
  \<open>Http_Tls_Client\<close> holds the tunnel through a proxy and the making of a connection in \<open>send_\<close>, and proves that a
  request goes to a verified server only.
  \<open>Http_Compress\<close> holds the loops of the compressors and decompressors.  The other theories describe the library as
  this repository builds it, without these parts.

  \<^bold>\<open>Conventions.\<close>  \<open>Prelude\<close> holds the result type: \<open>Inl\<close> is an exception, a failed assertion or
  undefined behaviour, \<open>Inr\<close> a value.  Counters and sizes that can wrap are words or are written with their
  modulus.  Characters are the bytes of the program.  System calls, addresses, files, time, random engines and the
  regular expressions of the user are parameters: records of functions on a type of kernel states.  What the user's
  functions may change is a type of worlds.

  \<^bold>\<open>Bounds and fuel.\<close>  The pool of the engine has the 1024 records of the code.  \<open>workerLoop\<close> goes on after
  each wait as the code does, so its fuel counts turns and \<open>None\<close> for every fuel is a loop that never ends: a worker that
  ends or stays blocked does so within one more turn than the length of the queue.  A pass of the engine's worker needs the
  length of the queue and four.  The loops over a stream may not end and are partial functions into an option:
  \<open>None\<close> is a run that does not return, and the round trips prove that it does return.  The loop of a connection
  recurses on the number of requests that are left, the client on the number of redirects.  The end of a
  shutdown of the pool is bounded by the measure \<open>steps_left\<close>, the end of the accept loop by \<open>listen_left\<close>, which is at
  most seven.

  \<^bold>\<open>Not modelled.\<close>  Memory orders weaker than sequential consistency; a restart of the server while threads of
  the last run are still in a call; several calls of \<open>listen\<close> at once.  Of the HTTP library: the
  constructor of \<open>SSLClient\<close> that takes objects of OpenSSL, \<open>create_ca_cert_store\<close> and \<open>read_file\<close>; the
  places where \<open>process_request\<close>, \<open>redirect\<close> and \<open>prepare_content_receiver\<close> call the optional parts;
  what OpenSSL, zlib and brotli do;
  the branches for Windows; the formatting of
  numbers by streams in another locale than C.  Regular expressions given by the user are a parameter; the ones
  fixed in the code are written as parsers.
\<close>

end
